(* ===== verification/Prelude.thy ===== *)
theory Prelude
  imports Main "HOL-Library.Word"
begin

unbundle bit_operations_syntax

text \<open>
  Shared vocabulary of the development: the machine integer types of the Rust code, the
  outcome of a Rust call (a value, an error value, a panic), the two forms of the \<open>?\<close>
  operator, wrap-around subtraction of \<open>usize\<close>, decimal printing for error messages, and
  the arithmetic of big-endian byte strings, unsigned and in two's complement.

  Arithmetic follows a release build, the profile the crate ships with: \<open>overflow-checks\<close>
  is off, so fixed-width integers wrap, and \<open>debug_assert!\<close> is not compiled. Vec lengths
  and other \<open>usize\<close> values are \<open>nat\<close>; where the code subtracts them, the wrap-around
  of the 64-bit \<open>usize\<close> is written out.
\<close>

section \<open>Machine integers\<close>

type_synonym u8 = "8 word"
type_synonym u32 = "32 word"
type_synonym u64 = "64 word"
type_synonym bytes = "8 word list"

definition usize_sub :: "nat \<Rightarrow> nat \<Rightarrow> nat" where
  "usize_sub a b = (if b \<le> a then a - b else 2 ^ 64 - (b - a))"

definition u32_max :: nat where
  "u32_max = 4294967295"

section \<open>Outcomes\<close>

text \<open>
  A Rust function returning \<open>Result<T, E>\<close> ends in one of three ways: \<open>Ok\<close>, \<open>Err\<close>,
  or a panic (\<open>panic!\<close>, \<open>assert!\<close>, \<open>unwrap\<close>, an index out of range). A panic carries
  a description and is never recovered from.
\<close>

datatype ('e, 'a) outcome = Ok 'a | Err 'e | Panic string

fun is_ok :: "('e, 'a) outcome \<Rightarrow> bool" where
  "is_ok (Ok x) = True"
| "is_ok (Err e) = False"
| "is_ok (Panic p) = False"

fun is_panic :: "('e, 'a) outcome \<Rightarrow> bool" where
  "is_panic (Ok x) = False"
| "is_panic (Err e) = False"
| "is_panic (Panic p) = True"

text \<open>
  The \<open>?\<close> operator: \<open>bindR\<close> for a call that only reads, \<open>tryR\<close> for a call that only
  reads inside a function that carries state, \<open>tryS\<close> for a call that returns new state.
  On an error or a panic the state reached so far is kept.
\<close>

fun bindR :: "('e, 'a) outcome \<Rightarrow> ('a \<Rightarrow> ('e, 'b) outcome) \<Rightarrow> ('e, 'b) outcome" where
  "bindR (Ok x) f = f x"
| "bindR (Err e) f = Err e"
| "bindR (Panic p) f = Panic p"

fun tryR :: "('e, 'a) outcome \<Rightarrow> 's \<Rightarrow> ('a \<Rightarrow> ('e, 'b) outcome \<times> 's) \<Rightarrow> ('e, 'b) outcome \<times> 's" where
  "tryR (Ok x) s f = f x"
| "tryR (Err e) s f = (Err e, s)"
| "tryR (Panic p) s f = (Panic p, s)"

fun tryS :: "('e, 'a) outcome \<times> 's \<Rightarrow> ('a \<Rightarrow> 's \<Rightarrow> ('e, 'b) outcome \<times> 's) \<Rightarrow> ('e, 'b) outcome \<times> 's" where
  "tryS (Ok x, s) f = f x s"
| "tryS (Err e, s) f = (Err e, s)"
| "tryS (Panic p, s) f = (Panic p, s)"

fun map_err :: "('e \<Rightarrow> 'f) \<Rightarrow> ('e, 'a) outcome \<Rightarrow> ('f, 'a) outcome" where
  "map_err g (Ok x) = Ok x"
| "map_err g (Err e) = Err (g e)"
| "map_err g (Panic p) = Panic p"

text \<open>Indexing a \<open>Vec\<close> or slice: out of range is a panic.\<close>

definition get_idx :: "'a list \<Rightarrow> nat \<Rightarrow> ('e, 'a) outcome" where
  "get_idx xs i = (if i < length xs then Ok (xs ! i) else Panic ''index out of bounds'')"

text \<open>Slicing \<open>xs[i..j]\<close>.\<close>

definition slice :: "'a list \<Rightarrow> nat \<Rightarrow> nat \<Rightarrow> ('e, 'a list) outcome" where
  "slice xs i j = (if i \<le> j \<and> j \<le> length xs then Ok (take (j - i) (drop i xs))
                   else Panic ''range out of bounds'')"

lemma bindR_eq_Ok: "bindR m f = Ok y \<longleftrightarrow> (\<exists>x. m = Ok x \<and> f x = Ok y)"
  by (cases m) auto

lemma bindR_eq_Panic: "bindR m f = Panic p \<longleftrightarrow> m = Panic p \<or> (\<exists>x. m = Ok x \<and> f x = Panic p)"
  by (cases m) auto

lemma tryR_eq_Ok: "tryR m s f = (Ok y, s') \<longleftrightarrow> (\<exists>x. m = Ok x \<and> f x = (Ok y, s'))"
  by (cases m) auto

lemma tryS_eq_Ok:
  "tryS m f = (Ok y, s') \<longleftrightarrow> (\<exists>x s. m = (Ok x, s) \<and> f x s = (Ok y, s'))"
  by (cases "(m, f)" rule: tryS.cases) auto

lemma tryR_cases:
  assumes "tryR m s f = (r, s')"
  obtains (ok) x where "m = Ok x" "f x = (r, s')"
    | (fail) e where "m = Err e" "r = Err e" "s' = s"
    | (panic) p where "m = Panic p" "r = Panic p" "s' = s"
  using assms by (cases m) auto

lemma tryS_cases:
  assumes "tryS m f = (r, s')"
  obtains (ok) x s where "m = (Ok x, s)" "f x s = (r, s')"
    | (fail) e where "m = (Err e, s')" "r = Err e"
    | (panic) p where "m = (Panic p, s')" "r = Panic p"
  using assms by (cases "(m, f)" rule: tryS.cases) auto

lemma get_idx_Ok [simp]: "i < length xs \<Longrightarrow> get_idx xs i = Ok (xs ! i)"
  by (simp add: get_idx_def)

lemma get_idx_eq_Ok: "get_idx xs i = Ok x \<longleftrightarrow> i < length xs \<and> x = xs ! i"
  by (auto simp: get_idx_def)

lemma slice_Ok: "i \<le> j \<Longrightarrow> j \<le> length xs \<Longrightarrow> slice xs i j = Ok (take (j - i) (drop i xs))"
  by (simp add: slice_def)

lemma slice_eq_Ok:
  "slice xs i j = Ok ys \<longleftrightarrow> i \<le> j \<and> j \<le> length xs \<and> ys = take (j - i) (drop i xs)"
  by (auto simp: slice_def)

lemma length_slice: "slice xs i j = Ok ys \<Longrightarrow> length ys = j - i"
  by (auto simp: slice_eq_Ok)

lemma slice_append: "slice xs i j = Ok ys \<Longrightarrow> slice (xs @ zs) i j = Ok ys"
  by (auto simp: slice_eq_Ok)

lemma slice_all [simp]: "slice xs 0 (length xs) = Ok xs"
  by (simp add: slice_def)

lemma slice_end: "slice (xs @ ys) (length xs) (length xs + length ys) = Ok ys"
  by (simp add: slice_def)

section \<open>Decimal printing\<close>

text \<open>The \<open>{N}\<close> of a \<open>format!\<close> string with an unsigned argument.\<close>

fun dec_string :: "nat \<Rightarrow> string" where
  "dec_string n = (if n < 10 then [char_of (48 + n)] else dec_string (n div 10) @ [char_of (48 + n mod 10)])"

declare dec_string.simps [simp del]

section \<open>Big-endian byte strings\<close>

text \<open>The unsigned value of a byte string, most significant byte first.\<close>

definition be_nat :: "bytes \<Rightarrow> nat" where
  "be_nat bs = foldl (\<lambda>r b. r * 256 + unat b) 0 bs"

text \<open>The \<open>k\<close> low-order bytes of a number, most significant byte first.\<close>

fun be_bytes :: "nat \<Rightarrow> nat \<Rightarrow> bytes" where
  "be_bytes 0 n = []"
| "be_bytes (Suc k) n = be_bytes k (n div 256) @ [of_nat n]"

text \<open>The two's complement value.\<close>

definition be_signed :: "bytes \<Rightarrow> int" where
  "be_signed bs = (if bs \<noteq> [] \<and> 128 \<le> unat (hd bs) then int (be_nat bs) - 256 ^ length bs
                   else int (be_nat bs))"

lemma be_nat_Nil [simp]: "be_nat [] = 0"
  by (simp add: be_nat_def)

lemma be_nat_snoc [simp]: "be_nat (bs @ [b]) = be_nat bs * 256 + unat b"
  by (simp add: be_nat_def)

lemma be_nat_append: "be_nat (xs @ ys) = be_nat xs * 256 ^ length ys + be_nat ys"
proof (induction ys rule: rev_induct)
  case (snoc y ys)
  have "be_nat (xs @ ys @ [y]) = be_nat (xs @ ys) * 256 + unat y"
    using be_nat_snoc [of "xs @ ys" y] by simp
  then show ?case using snoc by (simp add: algebra_simps)
qed simp

lemma be_nat_Cons: "be_nat (b # bs) = unat b * 256 ^ length bs + be_nat bs"
  using be_nat_append [of "[b]" bs] by (simp add: be_nat_def)

lemma unat_u8_less [simp]: "unat (b :: u8) < 256"
proof -
  have "unat b < 2 ^ LENGTH(8)" by (rule unsigned_less)
  then show ?thesis by simp
qed

lemma be_nat_less: "be_nat bs < 256 ^ length bs"
proof (induction bs)
  case (Cons b bs)
  have "unat b * 256 ^ length bs + be_nat bs < unat b * 256 ^ length bs + 256 ^ length bs"
    using Cons by simp
  also have "\<dots> = Suc (unat b) * 256 ^ length bs" by simp
  also have "\<dots> \<le> 256 * 256 ^ length bs"
    using unat_u8_less [of b] by (intro mult_right_mono) linarith+
  finally show ?case by (simp add: be_nat_Cons)
qed simp

lemma length_be_bytes [simp]: "length (be_bytes k n) = k"
  by (induction k arbitrary: n) auto

lemma be_nat_be_bytes: "be_nat (be_bytes k n) = n mod 256 ^ k"
proof (induction k arbitrary: n)
  case (Suc k)
  have "be_nat (be_bytes (Suc k) n) = (n div 256 mod 256 ^ k) * 256 + n mod 256"
    by (simp add: Suc unat_of_nat)
  also have "\<dots> = n mod (256 * 256 ^ k)"
    by (simp add: mod_mult2_eq algebra_simps)
  finally show ?case by simp
qed simp

lemma be_nat_be_bytes_id: "n < 256 ^ k \<Longrightarrow> be_nat (be_bytes k n) = n"
  by (simp add: be_nat_be_bytes)

lemma be_nat_inj: "length xs = length ys \<Longrightarrow> be_nat xs = be_nat ys \<Longrightarrow> xs = ys"
proof (induction xs arbitrary: ys rule: rev_induct)
  case (snoc x xs)
  then obtain ys' y where ys: "ys = ys' @ [y]"
    by (cases ys rule: rev_cases) auto
  have eq: "be_nat xs * 256 + unat x = be_nat ys' * 256 + unat y"
    using snoc.prems ys by simp
  then have "(be_nat xs * 256 + unat x) mod 256 = (be_nat ys' * 256 + unat y) mod 256" by simp
  then have "unat x mod 256 = unat y mod 256" by simp
  then have "unat x = unat y" by simp
  with eq have "x = y" "be_nat xs = be_nat ys'" by (auto intro: unsigned_word_eqI)
  with snoc ys show ?case by simp
qed simp

lemma be_bytes_be_nat: "be_bytes (length bs) (be_nat bs) = bs"
  by (rule be_nat_inj) (simp_all add: be_nat_be_bytes be_nat_less)

lemma be_signed_Nil [simp]: "be_signed [] = 0"
  by (simp add: be_signed_def)

lemma hd_ge_128_iff:
  assumes "bs \<noteq> []"
  shows "128 \<le> unat (hd bs) \<longleftrightarrow> 256 ^ length bs \<le> 2 * be_nat bs"
proof -
  obtain b rest where bs: "bs = b # rest" using assms by (cases bs) auto
  define W where "W = (256 ^ length rest :: nat)"
  have r: "be_nat rest < W" unfolding W_def by (rule be_nat_less)
  define P where "P = unat b * W"
  have val: "be_nat bs = P + be_nat rest" "256 ^ length bs = 256 * W"
    by (simp_all add: bs be_nat_Cons W_def P_def)
  show ?thesis
  proof (cases "128 \<le> unat b")
    case True
    then have "128 * W \<le> P" unfolding P_def by (rule mult_right_mono) simp
    then have "256 * W \<le> 2 * (P + be_nat rest)" by simp
    with True val bs show ?thesis by simp
  next
    case False
    then have "P \<le> 127 * W" unfolding P_def by (intro mult_right_mono) auto
    with r have "2 * (P + be_nat rest) < 256 * W" by simp
    with False val bs show ?thesis by simp
  qed
qed

lemma be_signed_range:
  assumes "bs \<noteq> []"
  shows "- (256 ^ length bs) \<le> 2 * be_signed bs \<and> 2 * be_signed bs < 256 ^ length bs"
proof -
  have less: "int (be_nat bs) < 256 ^ length bs"
    using be_nat_less [of bs] of_nat_less_iff [of "be_nat bs" "256 ^ length bs", where ?'a = int] by simp
  have iff: "128 \<le> unat (hd bs) \<longleftrightarrow> (256::int) ^ length bs \<le> 2 * int (be_nat bs)"
    using hd_ge_128_iff [OF assms] of_nat_le_iff [of "256 ^ length bs" "2 * be_nat bs", where ?'a = int]
    by simp
  define W where "W = (256 :: int) ^ length bs"
  show ?thesis
  proof (cases "128 \<le> unat (hd bs)")
    case True
    with assms less iff have "be_signed bs = int (be_nat bs) - W" "W \<le> 2 * int (be_nat bs)" "int (be_nat bs) < W"
      by (simp_all add: be_signed_def W_def)
    then show ?thesis unfolding W_def [symmetric] by linarith
  next
    case False
    with assms less iff have "be_signed bs = int (be_nat bs)" "2 * int (be_nat bs) < W" "0 < W"
      by (simp_all add: be_signed_def W_def)
    then show ?thesis unfolding W_def [symmetric] by linarith
  qed
qed

lemma be_signed_inj:
  assumes "length xs = length ys" "be_signed xs = be_signed ys"
  shows "xs = ys"
proof (cases "xs = []")
  case False
  then have ne: "xs \<noteq> []" "ys \<noteq> []" using assms(1) by auto
  have "int (be_nat xs) mod 256 ^ length xs = be_signed xs mod 256 ^ length xs"
    by (simp add: be_signed_def)
  moreover have "int (be_nat ys) mod 256 ^ length xs = be_signed ys mod 256 ^ length xs"
    using assms(1) by (simp add: be_signed_def)
  moreover have "be_nat xs < 256 ^ length xs" "be_nat ys < 256 ^ length xs"
    using be_nat_less assms(1) by (metis, metis)
  ultimately have "int (be_nat xs mod 256 ^ length xs) = int (be_nat ys mod 256 ^ length xs)"
    using assms(2) by (simp add: of_nat_mod)
  then have "be_nat xs = be_nat ys"
    using \<open>be_nat xs < _\<close> \<open>be_nat ys < _\<close> by (simp only: of_nat_eq_iff mod_less)
  with assms(1) show ?thesis by (rule be_nat_inj)
qed (use assms in simp)

end
