(* ===== verification/ExtLib.thy ===== *)
theory ExtLib
  imports Prelude
begin

unbundle bit_operations_syntax

text \<open>
  The libraries the crate calls and does not contain: \<open>num-bigint\<close> (arbitrary-precision
  integers), \<open>chia-sha2\<close> and \<open>sha3\<close> (digests), \<open>chia-bls\<close> (BLS12-381 points) and
  \<open>k256\<close> / \<open>p256\<close> (ECDSA). They enter the model as one record of functions, an argument
  of every definition that uses them. What the code relies on in \<open>num-bigint\<close> is stated
  as the locale \<open>bigint_laws\<close>, which is interpreted on an executable instance.

  A \<open>BigInt\<close> value is an \<open>int\<close> and its operators (\<open>+\<close>, \<open>-\<close>, \<open>*\<close>,
  \<open>div_floor\<close>, \<open>mod_floor\<close>, shifts, bitwise operators, comparison, \<open>to_u32\<close>,
  \<open>sign\<close>) are those of \<open>int\<close>; the byte conversions, \<open>bits\<close> and \<open>modpow\<close> are
  the fields of \<open>bigint_api\<close>.
\<close>

section \<open>The interfaces\<close>

record bigint_api =
  from_signed_bytes_be :: "bytes \<Rightarrow> int"
  to_signed_bytes_be :: "int \<Rightarrow> bytes"
  from_bytes_be :: "bytes \<Rightarrow> int"
  to_bytes_be :: "int \<Rightarrow> bytes"
  bi_bits :: "int \<Rightarrow> nat"
  bi_modpow :: "int \<Rightarrow> int \<Rightarrow> int \<Rightarrow> int"

record ('g1, 'g2, 'key, 'sig) ext_api = bigint_api +
  sha256 :: "bytes \<Rightarrow> bytes"
  keccak256 :: "bytes \<Rightarrow> bytes"
  g1_default :: 'g1
  g1_from_bytes :: "bytes \<Rightarrow> 'g1 option"
  g1_to_bytes :: "'g1 \<Rightarrow> bytes"
  g1_add :: "'g1 \<Rightarrow> 'g1 \<Rightarrow> 'g1"
  g1_sub :: "'g1 \<Rightarrow> 'g1 \<Rightarrow> 'g1"
  g1_scalar_multiply :: "'g1 \<Rightarrow> bytes \<Rightarrow> 'g1"
  g1_from_integer :: "bytes \<Rightarrow> 'g1"
  hash_to_g1_with_dst :: "bytes \<Rightarrow> bytes \<Rightarrow> 'g1"
  g2_default :: 'g2
  g2_from_bytes :: "bytes \<Rightarrow> 'g2 option"
  g2_to_bytes :: "'g2 \<Rightarrow> bytes"
  g2_add :: "'g2 \<Rightarrow> 'g2 \<Rightarrow> 'g2"
  g2_sub :: "'g2 \<Rightarrow> 'g2 \<Rightarrow> 'g2"
  g2_scalar_multiply :: "'g2 \<Rightarrow> bytes \<Rightarrow> 'g2"
  hash_to_g2_with_dst :: "bytes \<Rightarrow> bytes \<Rightarrow> 'g2"
  aggregate_pairing :: "('g1 \<times> 'g2) list \<Rightarrow> bool"
  aggregate_verify :: "'g2 \<Rightarrow> ('g1 \<times> bytes) list \<Rightarrow> bool"
  r1_from_sec1_bytes :: "bytes \<Rightarrow> 'key option"
  r1_sig_from_slice :: "bytes \<Rightarrow> 'sig option"
  r1_verify_prehash :: "'key \<Rightarrow> bytes \<Rightarrow> 'sig \<Rightarrow> bool"
  k1_from_sec1_bytes :: "bytes \<Rightarrow> 'key option"
  k1_sig_from_slice :: "bytes \<Rightarrow> 'sig option"
  k1_verify_prehash :: "'key \<Rightarrow> bytes \<Rightarrow> 'sig \<Rightarrow> bool"

text \<open>
  The documented behaviour of \<open>num-bigint\<close>: two's complement and unsigned big-endian
  conversion, the shortest signed encoding, the bit length of the magnitude, and modular
  exponentiation that rounds like \<open>mod_floor\<close>.
\<close>

locale bigint_laws =
  fixes B :: "'x bigint_api_scheme"
  assumes from_signed: "v \<noteq> [] \<Longrightarrow> from_signed_bytes_be B v = be_signed v"
    and to_signed_nonempty: "to_signed_bytes_be B n \<noteq> []"
    and to_signed_value: "be_signed (to_signed_bytes_be B n) = n"
    and to_signed_shortest: "v \<noteq> [] \<Longrightarrow> be_signed v = n \<Longrightarrow> length (to_signed_bytes_be B n) \<le> length v"
    and from_unsigned: "from_bytes_be B v = int (be_nat v)"
    and to_unsigned_value: "int (be_nat (to_bytes_be B n)) = \<bar>n\<bar>"
    and bits_upper: "\<bar>n\<bar> < 2 ^ bi_bits B n"
    and bits_lower: "n \<noteq> 0 \<Longrightarrow> 2 ^ bi_bits B n \<le> 2 * \<bar>n\<bar>"
    and bits_zero: "bi_bits B 0 = 0"
    and modpow: "0 \<le> e \<Longrightarrow> m \<noteq> 0 \<Longrightarrow> bi_modpow B b e m = b ^ nat e mod m"

section \<open>Canonical integer atoms\<close>

text \<open>
  CLVM integers are byte strings in two's complement; zero is the empty string. A byte
  string is canonical when no shorter one has the same value.
\<close>

fun canonical :: "bytes \<Rightarrow> bool" where
  "canonical [] = True"
| "canonical [b] = (b \<noteq> 0)"
| "canonical (b0 # b1 # bs) = (\<not> (b0 = 0 \<and> unat b1 < 128) \<and> \<not> (b0 = 255 \<and> 128 \<le> unat b1))"

lemma be_signed_Cons:
  assumes "rest \<noteq> []"
  shows "be_signed (b # rest) =
    (if 128 \<le> unat b then int (unat b) - 256 else int (unat b)) * 256 ^ length rest + int (be_nat rest)"
  by (simp add: be_signed_def be_nat_Cons algebra_simps)

lemma be_signed_singleton: "be_signed [b] = (if 128 \<le> unat b then int (unat b) - 256 else int (unat b))"
  by (simp add: be_signed_def be_nat_Cons)

lemma be_nat_less_int: "int (be_nat bs) < 256 ^ length bs"
  using be_nat_less [of bs] of_nat_less_iff [of "be_nat bs" "256 ^ length bs", where ?'a = int] by simp

lemma hd_ge_128_iff_int:
  "bs \<noteq> [] \<Longrightarrow> 128 \<le> unat (hd bs) \<longleftrightarrow> (256 :: int) ^ length bs \<le> 2 * int (be_nat bs)"
  using hd_ge_128_iff [of bs] of_nat_le_iff [of "256 ^ length bs" "2 * be_nat bs", where ?'a = int]
  by simp

text \<open>A value that fits in one byte less has a redundant leading byte.\<close>

lemma redundant_leading:
  assumes ne: "rest \<noteq> []"
    and lo: "- (256 ^ length rest) \<le> 2 * be_signed (b # rest)"
    and hi: "2 * be_signed (b # rest) < 256 ^ length rest"
  shows "(b = 0 \<and> unat (hd rest) < 128) \<or> (b = 255 \<and> 128 \<le> unat (hd rest))"
proof -
  define W :: int where "W = 256 ^ length rest"
  define r where "r = int (be_nat rest)"
  have W: "0 < W" by (simp add: W_def)
  have r: "0 \<le> r" "r < W" using be_nat_less_int [of rest] by (simp_all add: r_def W_def)
  have top: "128 \<le> unat (hd rest) \<longleftrightarrow> W \<le> 2 * r"
    using hd_ge_128_iff_int [OF ne] by (simp add: W_def r_def)
  have ub: "unat b < 256" by simp
  show ?thesis
  proof (cases "128 \<le> unat b")
    case True
    define k where "k = 256 - int (unat b)"
    have v: "be_signed (b # rest) = r - k * W"
      using be_signed_Cons [OF ne] True by (simp add: k_def W_def r_def algebra_simps)
    have "k = 1"
    proof (rule ccontr)
      assume "k \<noteq> 1"
      then have "2 \<le> k" using ub unfolding k_def by linarith
      then have "2 * W \<le> k * W" using W by (intro mult_right_mono) auto
      with lo v r W show False unfolding W_def [symmetric] by linarith
    qed
    then have "unat b = 255" using ub unfolding k_def by linarith
    then have "unat b = unat (255 :: u8)" by simp
    then have "b = 255" by (simp only: word_unat_eq_iff)
    moreover have "W \<le> 2 * r" using lo v \<open>k = 1\<close> by (simp add: W_def)
    ultimately show ?thesis using top by simp
  next
    case False
    have v: "be_signed (b # rest) = int (unat b) * W + r"
      using be_signed_Cons [OF ne] False by (simp add: W_def r_def)
    have "unat b = 0"
    proof (rule ccontr)
      assume "unat b \<noteq> 0"
      then have "1 \<le> int (unat b)" by linarith
      then have "1 * W \<le> int (unat b) * W" using W by (intro mult_right_mono) auto
      with hi v r W show False unfolding W_def [symmetric] by linarith
    qed
    then have "b = 0" by (simp add: unat_eq_zero)
    moreover have "\<not> W \<le> 2 * r" using hi v \<open>b = 0\<close> by (simp add: W_def)
    ultimately show ?thesis using top by simp
  qed
qed

text \<open>Dropping a redundant byte keeps the value.\<close>

lemma be_signed_zero_ext: "unat (hd rest) < 128 \<Longrightarrow> be_signed (0 # rest) = be_signed rest"
  by (cases "rest = []") (auto simp: be_signed_def be_nat_Cons)

lemma be_signed_ones_ext:
  assumes "rest \<noteq> []" "128 \<le> unat (hd rest)"
  shows "be_signed (255 # rest) = be_signed rest"
  using assms be_signed_Cons [OF assms(1), of 255] by (simp add: be_signed_def)

lemma canonical_shortest:
  assumes "canonical v" "w \<noteq> []" "be_signed v = be_signed w" "v \<noteq> []"
  shows "length v \<le> length w"
proof (rule ccontr)
  assume "\<not> length v \<le> length w"
  then have lt: "length w < length v" by simp
  then obtain b rest where v: "v = b # rest" "rest \<noteq> []"
    using assms(2) by (cases v; cases "tl v"; cases w) auto
  have "length w \<le> length rest" using lt v by simp
  then have "(256 :: int) ^ length w \<le> 256 ^ length rest" by (intro power_increasing) auto
  with be_signed_range [OF assms(2)] have
    "- (256 ^ length rest) \<le> 2 * be_signed v" "2 * be_signed v < 256 ^ length rest"
    using assms(3) by linarith+
  then have "(b = 0 \<and> unat (hd rest) < 128) \<or> (b = 255 \<and> 128 \<le> unat (hd rest))"
    using redundant_leading v by blast
  with assms(1) v show False by (cases rest) auto
qed

lemma canonical_zero: "canonical v \<Longrightarrow> be_signed v = 0 \<Longrightarrow> v = []"
proof (rule ccontr)
  assume c: "canonical v" and z: "be_signed v = 0" and ne: "v \<noteq> []"
  have "be_signed v = be_signed [0]" using z by (simp add: be_signed_singleton)
  then have "length v \<le> length [0 :: u8]" using canonical_shortest c ne by blast
  with ne obtain b where b: "v = [b]" by (cases v) auto
  have "unat b < 256" by simp
  moreover have "(if 128 \<le> unat b then int (unat b) - 256 else int (unat b)) = 0"
    using z b be_signed_singleton [of b] by simp
  ultimately have "unat b = 0" by (simp only: split: if_splits)
  then have "b = 0" by (simp add: unat_eq_zero)
  with c b show False by simp
qed

lemma canonical_unique:
  assumes "canonical v" "canonical w" "be_signed v = be_signed w"
  shows "v = w"
proof (cases "v = [] \<or> w = []")
  case True
  then show ?thesis using assms canonical_zero by (metis be_signed_Nil)
next
  case False
  then have "length v = length w"
    using assms by (metis canonical_shortest le_antisym)
  then show ?thesis using assms(3) by (rule be_signed_inj)
qed

lemma shortest_canonical:
  assumes "v \<noteq> []" "be_signed v \<noteq> 0"
    and short: "\<And>w. w \<noteq> [] \<Longrightarrow> be_signed w = be_signed v \<Longrightarrow> length v \<le> length w"
  shows "canonical v"
proof (cases v rule: canonical.cases)
  case (2 b)
  with assms(2) show ?thesis by (auto simp: be_signed_singleton)
next
  case (3 b0 b1 bs)
  have "\<not> (b0 = 0 \<and> unat b1 < 128)"
    using short [of "b1 # bs"] be_signed_zero_ext [of "b1 # bs"] 3 by auto
  moreover have "\<not> (b0 = 255 \<and> 128 \<le> unat b1)"
    using short [of "b1 # bs"] be_signed_ones_ext [of "b1 # bs"] 3 by auto
  ultimately show ?thesis using 3 by simp
qed simp

section \<open>An executable instance of the laws\<close>

fun ubits :: "nat \<Rightarrow> nat" where
  "ubits n = (if n = 0 then 0 else Suc (ubits (n div 2)))"

declare ubits.simps [simp del]

definition signed_len :: "int \<Rightarrow> nat" where
  "signed_len n = ubits (nat (if n < 0 then - n - 1 else n)) div 8 + 1"

definition ref_to_signed :: "int \<Rightarrow> bytes" where
  "ref_to_signed n = be_bytes (signed_len n) (nat (n mod 256 ^ signed_len n))"

definition ref_to_unsigned :: "int \<Rightarrow> bytes" where
  "ref_to_unsigned n = (let m = nat \<bar>n\<bar> in be_bytes ((ubits m + 7) div 8) m)"

definition ref_bigint :: bigint_api where
  "ref_bigint = \<lparr> from_signed_bytes_be = be_signed, to_signed_bytes_be = ref_to_signed,
     from_bytes_be = (\<lambda>v. int (be_nat v)), to_bytes_be = ref_to_unsigned,
     bi_bits = (\<lambda>n. ubits (nat \<bar>n\<bar>)), bi_modpow = (\<lambda>b e m. b ^ nat e mod m) \<rparr>"

lemma ubits_upper: "n < 2 ^ ubits n"
proof (induction n rule: ubits.induct)
  case (1 n)
  show ?case
  proof (cases "n = 0")
    case False
    with 1 have "n div 2 < 2 ^ ubits (n div 2)" by simp
    then have "n < 2 * 2 ^ ubits (n div 2)" by simp
    with False show ?thesis by (subst ubits.simps) simp
  qed (simp add: ubits.simps)
qed

lemma ubits_lower: "n \<noteq> 0 \<Longrightarrow> 2 ^ ubits n \<le> 2 * n"
proof (induction n rule: ubits.induct)
  case (1 n)
  show ?case
  proof (cases "n div 2 = 0")
    case True
    with "1.prems" show ?thesis by (subst ubits.simps) (simp add: ubits.simps)
  next
    case False
    with 1 have "2 ^ ubits (n div 2) \<le> 2 * (n div 2)" by simp
    also have "\<dots> \<le> n" by simp
    finally show ?thesis using "1.prems" by (subst ubits.simps) simp
  qed
qed

lemma ubits_le: "n < 2 ^ k \<Longrightarrow> ubits n \<le> k"
proof (rule ccontr)
  assume n: "n < 2 ^ k" and "\<not> ubits n \<le> k"
  then have "(2 :: nat) ^ Suc k \<le> 2 ^ ubits n" by (intro power_increasing) auto
  moreover have "n \<noteq> 0" using \<open>\<not> ubits n \<le> k\<close> by (intro notI) (simp add: ubits.simps)
  ultimately show False using ubits_lower [of n] n by simp
qed

lemma ubits_0 [simp]: "ubits 0 = 0"
  by (simp add: ubits.simps)

lemma ubits_1 [simp]: "ubits (Suc 0) = 1"
  by (simp add: ubits.simps)

lemma ubits_div: "n \<noteq> 0 \<Longrightarrow> ubits n = Suc (ubits (n div 2))"
  by (subst ubits.simps) simp

lemma less_ubits_iff: "k < ubits n \<longleftrightarrow> 2 ^ k \<le> n"
proof
  assume k: "k < ubits n"
  then have "n \<noteq> 0" by (intro notI) simp
  have "(2 :: nat) ^ Suc k \<le> 2 ^ ubits n" using k by (intro power_increasing) auto
  then show "2 ^ k \<le> n" using ubits_lower [OF \<open>n \<noteq> 0\<close>] by simp
next
  assume n: "2 ^ k \<le> n"
  show "k < ubits n"
  proof (rule ccontr)
    assume "\<not> k < ubits n"
    then have "(2 :: nat) ^ ubits n \<le> 2 ^ k" by (intro power_increasing) auto
    with n ubits_upper [of n] show False by simp
  qed
qed

lemma pow256: "(256 :: 'a :: comm_semiring_1) ^ k = 2 ^ (8 * k)"
  by (simp add: power_mult)

lemma signed_len_range: "- (256 ^ signed_len n) \<le> 2 * n \<and> 2 * n < 256 ^ signed_len n"
proof -
  define m where "m = nat (if n < 0 then - n - 1 else n)"
  have "ubits m \<le> 8 * signed_len n - 1" by (simp add: signed_len_def m_def [symmetric])
  then have "(2 :: nat) ^ ubits m \<le> 2 ^ (8 * signed_len n - 1)" by (intro power_increasing) auto
  then have "m < 2 ^ (8 * signed_len n - 1)" using ubits_upper [of m] by linarith
  then have lt: "int m < 2 ^ (8 * signed_len n - 1)"
    using of_nat_less_iff [of m "2 ^ (8 * signed_len n - 1)", where ?'a = int] by simp
  have "(256 :: int) ^ signed_len n = 2 * 2 ^ (8 * signed_len n - 1)"
    unfolding pow256 power_Suc [symmetric] by (simp add: signed_len_def)
  with lt show ?thesis by (auto simp: m_def split: if_splits)
qed

lemma signed_len_least:
  assumes "0 < k" "- (256 ^ k) \<le> 2 * n" "2 * n < 256 ^ k"
  shows "signed_len n \<le> k"
proof -
  define m where "m = nat (if n < 0 then - n - 1 else n)"
  have p: "(256 :: int) ^ k = 2 * 2 ^ (8 * k - 1)"
    using assms(1) unfolding pow256 power_Suc [symmetric] by simp
  have "int m < 2 ^ (8 * k - 1)" using assms(2,3) p by (auto simp: m_def split: if_splits)
  then have "m < 2 ^ (8 * k - 1)"
    using of_nat_less_iff [of m "2 ^ (8 * k - 1)", where ?'a = int] by simp
  then have "ubits m \<le> 8 * k - 1" by (rule ubits_le)
  then show ?thesis using assms(1) by (simp add: signed_len_def m_def [symmetric])
qed

lemma be_signed_of_range:
  assumes len: "0 < k" and lo: "- (256 ^ k) \<le> 2 * n" and hi: "2 * n < 256 ^ k"
  shows "be_signed (be_bytes k (nat (n mod 256 ^ k))) = n"
proof -
  define W :: int where "W = 256 ^ k"
  define v where "v = be_bytes k (nat (n mod W))"
  have W: "0 < W" by (simp add: W_def)
  have lv: "length v = k" "v \<noteq> []" using len by (auto simp: v_def simp flip: length_greater_0_conv)
  have "nat (n mod W) < 256 ^ k"
    using W pos_mod_bound [of W n] by (simp add: W_def nat_less_iff)
  then have bv: "int (be_nat v) = n mod W"
    using W by (simp add: v_def be_nat_be_bytes_id)
  have top: "128 \<le> unat (hd v) \<longleftrightarrow> W \<le> 2 * (n mod W)"
    using hd_ge_128_iff_int [OF lv(2)] lv(1) bv by (simp add: W_def)
  have "be_signed v = n"
  proof (cases "n < 0")
    case True
    have "(n + W) mod W = n + W" using True lo W
      by (intro mod_pos_pos_trivial) (auto simp: W_def)
    then have "n mod W = n + W" by simp
    with True lo top bv lv show ?thesis by (simp add: be_signed_def W_def)
  next
    case False
    then have "n mod W = n" using hi W by (intro mod_pos_pos_trivial) (auto simp: W_def)
    with False hi top bv lv show ?thesis by (simp add: be_signed_def W_def)
  qed
  then show ?thesis by (simp add: v_def W_def)
qed

lemma signed_len_pos [simp]: "0 < signed_len n"
  by (simp add: signed_len_def)

lemma ref_to_signed_value: "be_signed (ref_to_signed n) = n"
  unfolding ref_to_signed_def using signed_len_range [of n] by (intro be_signed_of_range) auto

lemma ref_to_signed_nonempty: "ref_to_signed n \<noteq> []"
  unfolding ref_to_signed_def by (metis length_0_conv length_be_bytes less_not_refl signed_len_pos)

lemma ref_to_signed_shortest:
  assumes "v \<noteq> []" "be_signed v = n"
  shows "length (ref_to_signed n) \<le> length v"
  using signed_len_least [of "length v" n] be_signed_range [OF assms(1)] assms
  by (simp add: ref_to_signed_def)

lemma ref_to_unsigned_value: "int (be_nat (ref_to_unsigned n)) = \<bar>n\<bar>"
proof -
  define m where "m = nat \<bar>n\<bar>"
  have "ubits m \<le> 8 * ((ubits m + 7) div 8)" by simp
  then have "(2 :: nat) ^ ubits m \<le> 256 ^ ((ubits m + 7) div 8)"
    unfolding pow256 by (intro power_increasing) auto
  then have "m < 256 ^ ((ubits m + 7) div 8)" using ubits_upper [of m] by linarith
  then show ?thesis
    by (simp add: ref_to_unsigned_def Let_def be_nat_be_bytes_id flip: m_def) (simp add: m_def)
qed

text \<open>The canonical byte string of an integer, the specification of a CLVM integer atom.\<close>

definition int_bytes :: "int \<Rightarrow> bytes" where
  "int_bytes n = (if n = 0 then [] else ref_to_signed n)"

lemma be_signed_int_bytes [simp]: "be_signed (int_bytes n) = n"
  by (simp add: int_bytes_def ref_to_signed_value)

lemma canonical_int_bytes [simp]: "canonical (int_bytes n)"
proof (cases "n = 0")
  case False
  then have "canonical (ref_to_signed n)"
    by (intro shortest_canonical)
       (auto simp: ref_to_signed_value ref_to_signed_nonempty intro: ref_to_signed_shortest)
  with False show ?thesis by (simp add: int_bytes_def)
qed (simp add: int_bytes_def)

lemma int_bytes_be_signed: "canonical v \<Longrightarrow> int_bytes (be_signed v) = v"
  by (rule canonical_unique) auto

lemma canonical_iff: "canonical v \<longleftrightarrow> v = int_bytes (be_signed v)"
  using int_bytes_be_signed canonical_int_bytes by metis

context bigint_laws
begin

text \<open>The laws determine the signed encoding.\<close>

lemma to_signed_eq: "to_signed_bytes_be B n = (if n = 0 then [0] else int_bytes n)"
proof (cases "n = 0")
  case True
  have "length (to_signed_bytes_be B 0) = length [0 :: u8]"
    using to_signed_shortest [of "[0]" 0] to_signed_nonempty [of 0]
    by (cases "to_signed_bytes_be B 0") (auto simp: be_signed_singleton)
  then have "to_signed_bytes_be B 0 = [0]"
    by (rule be_signed_inj) (simp add: to_signed_value be_signed_singleton)
  with True show ?thesis by simp
next
  case False
  then have "canonical (to_signed_bytes_be B n)"
    by (intro shortest_canonical) (auto simp: to_signed_value to_signed_nonempty intro: to_signed_shortest)
  then have "int_bytes (be_signed (to_signed_bytes_be B n)) = to_signed_bytes_be B n"
    by (rule int_bytes_be_signed)
  with False show ?thesis by (simp add: to_signed_value)
qed

end

lemma ref_bits_upper: "\<bar>n\<bar> < 2 ^ ubits (nat \<bar>n\<bar>)"
proof -
  have "\<bar>n\<bar> = int (nat \<bar>n\<bar>)" by simp
  also have "\<dots> < 2 ^ ubits (nat \<bar>n\<bar>)"
    using ubits_upper [of "nat \<bar>n\<bar>"] of_nat_less_iff [of "nat \<bar>n\<bar>" "2 ^ ubits (nat \<bar>n\<bar>)", where ?'a = int] by simp
  finally show ?thesis .
qed

lemma ref_bits_lower:
  assumes "n \<noteq> 0"
  shows "2 ^ ubits (nat \<bar>n\<bar>) \<le> 2 * \<bar>n\<bar>"
proof -
  have "2 ^ ubits (nat \<bar>n\<bar>) \<le> 2 * nat \<bar>n\<bar>" using assms by (intro ubits_lower) simp
  then have "int (2 ^ ubits (nat \<bar>n\<bar>)) \<le> int (2 * nat \<bar>n\<bar>)" by (simp only: of_nat_le_iff)
  then show ?thesis by simp
qed

lemmas ref_laws = ref_to_signed_nonempty ref_to_signed_value ref_to_signed_shortest ref_to_unsigned_value
  ref_bits_upper ref_bits_lower

interpretation ref: bigint_laws ref_bigint
  by unfold_locales (simp_all add: ref_bigint_def ref_laws)

section \<open>The libraries together\<close>

text \<open>
  What the interpreter relies on beyond \<open>num-bigint\<close>: a \<open>sha256\<close> digest has 32 bytes.
\<close>

locale ext_laws = bigint_laws E for E :: "('g1, 'g2, 'key, 'sig, 'x) ext_api_scheme" +
  assumes sha256_length: "length (sha256 E v) = 32"
    and keccak256_length: "length (keccak256 E v) = 32"

text \<open>
  An executable instance: the reference integers, checksums in place of the digests, byte
  strings in place of curve points. It shows that the laws can hold together.
\<close>

definition ref_digest :: "nat \<Rightarrow> bytes \<Rightarrow> bytes" where
  "ref_digest salt v = be_bytes 32 (salt + be_nat v)"

definition ref_point :: "nat \<Rightarrow> bytes \<Rightarrow> bytes option" where
  "ref_point k v = (if length v = k then Some v else None)"

definition ref_pad :: "nat \<Rightarrow> bytes \<Rightarrow> bytes" where
  "ref_pad k v = take k (v @ replicate k 0)"

definition ref_ext :: "(bytes, bytes, bytes, bytes) ext_api" where
  "ref_ext = \<lparr> from_signed_bytes_be = be_signed, to_signed_bytes_be = ref_to_signed,
     from_bytes_be = (\<lambda>v. int (be_nat v)), to_bytes_be = ref_to_unsigned,
     bi_bits = (\<lambda>n. ubits (nat \<bar>n\<bar>)), bi_modpow = (\<lambda>b e m. b ^ nat e mod m),
     sha256 = ref_digest 1, keccak256 = ref_digest 2,
     g1_default = replicate 48 0, g1_from_bytes = ref_point 48, g1_to_bytes = ref_pad 48,
     g1_add = map2 (+), g1_sub = map2 (-), g1_scalar_multiply = (\<lambda>p k. p),
     g1_from_integer = (\<lambda>k. be_bytes 48 (be_nat k)), hash_to_g1_with_dst = (\<lambda>m d. be_bytes 48 (be_nat m)),
     g2_default = replicate 96 0, g2_from_bytes = ref_point 96, g2_to_bytes = ref_pad 96,
     g2_add = map2 (+), g2_sub = map2 (-), g2_scalar_multiply = (\<lambda>p k. p),
     hash_to_g2_with_dst = (\<lambda>m d. be_bytes 96 (be_nat m)),
     aggregate_pairing = (\<lambda>items. items = []), aggregate_verify = (\<lambda>s items. items = []),
     r1_from_sec1_bytes = ref_point 33, r1_sig_from_slice = ref_point 64, r1_verify_prehash = (\<lambda>k m s. False),
     k1_from_sec1_bytes = ref_point 33, k1_sig_from_slice = ref_point 64, k1_verify_prehash = (\<lambda>k m s. False) \<rparr>"

interpretation ref_libs: ext_laws ref_ext
  by unfold_locales (simp_all add: ref_ext_def ref_digest_def ref_laws)

end
