(* ===== verification/Allocator.thy ===== *)
theory Allocator
  imports ExtLib
begin

unbundle bit_operations_syntax

text \<open>
  The CLVM heap, \<open>src/src/allocator.rs\<close>, with \<open>number.rs\<close>, \<open>reduction.rs\<close> and
  \<open>err_utils.rs\<close>. A \<open>NodePtr\<close> is the source's 32-bit word: six tag bits and a 26-bit index
  into the pair table, an index into the atom table, or a small non-negative integer itself.
  An atom of the table is a range of one growing byte vector. The operations are state
  passing functions over the \<open>Allocator\<close> record; a function that takes \<open>&mut self\<close>
  returns the allocator with its outcome, on errors too.
\<close>

section \<open>Node pointers\<close>

definition MAX_NUM_ATOMS :: nat where
  "MAX_NUM_ATOMS = 62500000"

definition MAX_NUM_PAIRS :: nat where
  "MAX_NUM_PAIRS = 62500000"

definition NODE_PTR_IDX_BITS :: nat where
  "NODE_PTR_IDX_BITS = 26"

definition NODE_PTR_IDX_MASK :: u32 where
  "NODE_PTR_IDX_MASK = push_bit NODE_PTR_IDX_BITS 1 - 1"

datatype NodePtr = NodePtr u32

datatype ObjectType = OPair | OBytes | OSmallAtom

fun object_tag :: "ObjectType \<Rightarrow> u32" where
  "object_tag OPair = 0"
| "object_tag OBytes = 1"
| "object_tag OSmallAtom = 2"

definition node_new :: "ObjectType \<Rightarrow> nat \<Rightarrow> NodePtr" where
  "node_new object_type index = NodePtr (push_bit NODE_PTR_IDX_BITS (object_tag object_type) OR of_nat index)"

definition node_NIL :: NodePtr where
  "node_NIL = node_new OSmallAtom 0"

fun object_type :: "NodePtr \<Rightarrow> ('e, ObjectType) outcome" where
  "object_type (NodePtr w) =
     (let t = drop_bit NODE_PTR_IDX_BITS w in
      if t = 0 then Ok OPair
      else if t = 1 then Ok OBytes
      else if t = 2 then Ok OSmallAtom
      else Panic ''internal error: entered unreachable code'')"

fun index :: "NodePtr \<Rightarrow> u32" where
  "index (NodePtr w) = w AND NODE_PTR_IDX_MASK"

definition is_atom :: "NodePtr \<Rightarrow> ('e, bool) outcome" where
  "is_atom p = bindR (object_type p) (\<lambda>t. Ok (t = OBytes \<or> t = OSmallAtom))"

definition is_pair :: "NodePtr \<Rightarrow> ('e, bool) outcome" where
  "is_pair p = bindR (object_type p) (\<lambda>t. Ok (t = OPair))"

section \<open>Errors and reductions\<close>

datatype EvalErr = EvalErr (err_node: NodePtr) (err_msg: string)

datatype Reduction = Reduction (red_cost: u64) (red_node: NodePtr)

type_synonym 'a eval = "(EvalErr, 'a) outcome"
type_synonym Response = "(EvalErr, Reduction) outcome"

definition err :: "NodePtr \<Rightarrow> string \<Rightarrow> 'a eval" where
  "err node msg = Err (EvalErr node msg)"

section \<open>The allocator and its views\<close>

datatype SExp = SAtom | SPair NodePtr NodePtr

datatype NodeVisitor = VBuffer bytes | VU32 u32 | VPair NodePtr NodePtr

datatype Atom = ABorrowed bytes | AU32 bytes nat

record AtomBuf =
  ab_start :: u32
  ab_end :: u32

record IntPair =
  ip_first :: NodePtr
  ip_rest :: NodePtr

record Checkpoint =
  cp_u8s :: nat
  cp_pairs :: nat
  cp_atoms :: nat
  cp_small_atoms :: nat

record Allocator =
  u8_vec :: bytes
  pair_vec :: "IntPair list"
  atom_vec :: "AtomBuf list"
  heap_limit :: nat
  small_atoms :: nat

definition ab_len :: "AtomBuf \<Rightarrow> nat" where
  "ab_len b = unat (ab_end b - ab_start b)"

text \<open>\<open>impl AsRef<[u8]> for Atom\<close>.\<close>

fun as_ref :: "Atom \<Rightarrow> ('e, bytes) outcome" where
  "as_ref (ABorrowed b) = Ok b"
| "as_ref (AU32 b len) = slice b (usize_sub 4 len) (length b)"

text \<open>The loop \<open>for b in v { ret <<= 8; ret |= *b as T; }\<close>.\<close>

definition shift_in :: "'w::len word \<Rightarrow> bytes \<Rightarrow> 'w word" where
  "shift_in ret v = foldl (\<lambda>r b. push_bit 8 r OR ucast b) ret v"

definition to_be_bytes :: "u32 \<Rightarrow> bytes" where
  "to_be_bytes val = be_bytes 4 (unat val)"

definition fits_in_small_atom :: "bytes \<Rightarrow> u32 option" where
  "fits_in_small_atom v =
     (if v \<noteq> [] \<and>
         (length v > 4
          \<or> (length v = 1 \<and> v ! 0 = 0)
          \<or> v ! 0 AND 0x80 \<noteq> 0
          \<or> (v ! 0 = 0 \<and> v ! 1 AND 0x80 = 0)
          \<or> (length v = 4 \<and> v ! 0 > 0x03))
      then None
      else Some (shift_in 0 v))"

definition len_for_value :: "u32 \<Rightarrow> nat" where
  "len_for_value val =
     (if val = 0 then 0
      else if val < 0x80 then 1
      else if val < 0x8000 then 2
      else if val < 0x800000 then 3
      else if val < 0x80000000 then 4
      else 5)"

text \<open>\<open>let buf = val.to_be_bytes(); &buf[4 - len_for_value(val)..]\<close>.\<close>

definition small_atom_buf :: "u32 \<Rightarrow> ('e, bytes) outcome" where
  "small_atom_buf val = slice (to_be_bytes val) (usize_sub 4 (len_for_value val)) 4"

section \<open>Construction and checkpoints\<close>

definition new_limited :: "nat \<Rightarrow> ('e, Allocator) outcome" where
  "new_limited limit =
     (if limit \<le> u32_max
      then Ok \<lparr> u8_vec = [], pair_vec = [], atom_vec = [], heap_limit = usize_sub limit 1, small_atoms = 2 \<rparr>
      else Panic ''assertion failed: heap_limit <= u32::MAX as usize'')"

definition allocator_new :: "('e, Allocator) outcome" where
  "allocator_new = new_limited u32_max"

definition checkpoint :: "Allocator \<Rightarrow> Checkpoint" where
  "checkpoint a = \<lparr> cp_u8s = length (u8_vec a), cp_pairs = length (pair_vec a),
                    cp_atoms = length (atom_vec a), cp_small_atoms = small_atoms a \<rparr>"

definition restore_checkpoint :: "Allocator \<Rightarrow> Checkpoint \<Rightarrow> ('e, unit) outcome \<times> Allocator" where
  "restore_checkpoint a cp =
     (if \<not> length (u8_vec a) \<ge> cp_u8s cp then (Panic ''assertion failed: u8s'', a)
      else if \<not> length (pair_vec a) \<ge> cp_pairs cp then (Panic ''assertion failed: pairs'', a)
      else if \<not> length (atom_vec a) \<ge> cp_atoms cp then (Panic ''assertion failed: atoms'', a)
      else (Ok (), a\<lparr> u8_vec := take (cp_u8s cp) (u8_vec a), pair_vec := take (cp_pairs cp) (pair_vec a),
                     atom_vec := take (cp_atoms cp) (atom_vec a), small_atoms := cp_small_atoms cp \<rparr>))"

definition nil :: "Allocator \<Rightarrow> NodePtr" where
  "nil a = node_new OSmallAtom 0"

definition one :: "Allocator \<Rightarrow> NodePtr" where
  "one a = node_new OSmallAtom 1"

definition check_atom_limit :: "Allocator \<Rightarrow> unit eval" where
  "check_atom_limit a =
     (if length (atom_vec a) + small_atoms a = MAX_NUM_ATOMS then err (nil a) ''too many atoms'' else Ok ())"

section \<open>Allocation\<close>

definition new_atom :: "Allocator \<Rightarrow> bytes \<Rightarrow> NodePtr eval \<times> Allocator" where
  "new_atom a v =
     (let start = of_nat (length (u8_vec a)) :: u32 in
      if usize_sub (heap_limit a) (unat start) < length v then (err (nil a) ''out of memory'', a)
      else let idx = length (atom_vec a) in
        tryR (check_atom_limit a) a (\<lambda>_.
          case fits_in_small_atom v of
            Some ret \<Rightarrow> (Ok (node_new OSmallAtom (unat ret)), a\<lparr> small_atoms := small_atoms a + 1 \<rparr>)
          | None \<Rightarrow>
              let u8s = u8_vec a @ v; end' = of_nat (length u8s) :: u32 in
              (Ok (node_new OBytes idx),
               a\<lparr> u8_vec := u8s, atom_vec := atom_vec a @ [\<lparr> ab_start = start, ab_end = end' \<rparr>] \<rparr>)))"

definition new_small_number :: "Allocator \<Rightarrow> u32 \<Rightarrow> NodePtr eval \<times> Allocator" where
  "new_small_number a v =
     tryR (check_atom_limit a) a (\<lambda>_.
       (Ok (node_new OSmallAtom (unat v)), a\<lparr> small_atoms := small_atoms a + 1 \<rparr>))"

text \<open>\<open>num_traits::ToPrimitive::to_u32\<close>.\<close>

definition to_u32 :: "int \<Rightarrow> u32 option" where
  "to_u32 v = (if 0 \<le> v \<and> v < 2 ^ 32 then Some (of_int v) else None)"

text \<open>The loop that drops redundant leading zero bytes.\<close>

fun strip_zeros :: "bytes \<Rightarrow> bytes" where
  "strip_zeros [] = []"
| "strip_zeros (b # rest) =
     (if b = 0 then
        (if rest \<noteq> [] \<and> hd rest AND 0x80 = 0x80 then b # rest else strip_zeros rest)
      else b # rest)"

definition new_number :: "'x bigint_api_scheme \<Rightarrow> Allocator \<Rightarrow> int \<Rightarrow> NodePtr eval \<times> Allocator" where
  "new_number B a v =
     (case to_u32 v of
        Some val \<Rightarrow>
          if val \<le> NODE_PTR_IDX_MASK then new_small_number a val
          else new_atom a (strip_zeros (to_signed_bytes_be B v))
      | None \<Rightarrow> new_atom a (strip_zeros (to_signed_bytes_be B v)))"

definition new_g1 :: "('g1, 'g2, 'key, 'sig, 'x) ext_api_scheme \<Rightarrow> Allocator \<Rightarrow> 'g1 \<Rightarrow> NodePtr eval \<times> Allocator" where
  "new_g1 E a g1 = new_atom a (g1_to_bytes E g1)"

definition new_g2 :: "('g1, 'g2, 'key, 'sig, 'x) ext_api_scheme \<Rightarrow> Allocator \<Rightarrow> 'g2 \<Rightarrow> NodePtr eval \<times> Allocator" where
  "new_g2 E a g2 = new_atom a (g2_to_bytes E g2)"

definition new_pair :: "Allocator \<Rightarrow> NodePtr \<Rightarrow> NodePtr \<Rightarrow> NodePtr eval \<times> Allocator" where
  "new_pair a first rest =
     (let idx = length (pair_vec a) in
      if idx = MAX_NUM_PAIRS then (err (nil a) ''too many pairs'', a)
      else (Ok (node_new OPair idx),
            a\<lparr> pair_vec := pair_vec a @ [\<lparr> ip_first = first, ip_rest = rest \<rparr>] \<rparr>))"

definition bounds_check :: "NodePtr \<Rightarrow> u32 \<Rightarrow> u32 \<Rightarrow> u32 \<Rightarrow> unit eval" where
  "bounds_check node start end' len =
     (if start > len then err node ''substr start out of bounds''
      else if end' > len then err node ''substr end out of bounds''
      else if end' < start then err node ''substr invalid bounds''
      else Ok ())"

definition new_substr :: "Allocator \<Rightarrow> NodePtr \<Rightarrow> u32 \<Rightarrow> u32 \<Rightarrow> NodePtr eval \<times> Allocator" where
  "new_substr a node start end' =
     tryR (check_atom_limit a) a (\<lambda>_.
     tryR (object_type node) a (\<lambda>t. case t of
       OPair \<Rightarrow> (err node ''(internal error) substr expected atom, got pair'', a)
     | OBytes \<Rightarrow>
         tryR (get_idx (atom_vec a) (unat (index node))) a (\<lambda>atom.
         let atom_len = ab_end atom - ab_start atom in
         tryR (bounds_check node start end' atom_len) a (\<lambda>_.
         let idx = length (atom_vec a) in
         (Ok (node_new OBytes idx),
          a\<lparr> atom_vec := atom_vec a @ [\<lparr> ab_start = ab_start atom + start, ab_end = ab_start atom + end' \<rparr>] \<rparr>)))
     | OSmallAtom \<Rightarrow>
         (let val = index node; len = of_nat (len_for_value val) :: u32 in
          tryR (bounds_check node start end' len) a (\<lambda>_.
          tryR (small_atom_buf val) a (\<lambda>buf.
          tryR (slice buf (unat start) (unat end')) a (\<lambda>substr.
          case fits_in_small_atom substr of
            Some new_val \<Rightarrow>
              (Ok (node_new OSmallAtom (unat new_val)), a\<lparr> small_atoms := small_atoms a + 1 \<rparr>)
          | None \<Rightarrow>
              let s = length (u8_vec a); e = s + length substr; idx = length (atom_vec a) in
              (Ok (node_new OBytes idx),
               a\<lparr> u8_vec := u8_vec a @ substr,
                  atom_vec := atom_vec a @ [\<lparr> ab_start = of_nat s, ab_end = of_nat e \<rparr>] \<rparr>)))))))"

text \<open>
  The loop of \<open>new_concat\<close> over the terms; \<open>start\<close> is the length of the byte vector at
  entry, to which an error truncates it.
\<close>

fun new_concat_loop :: "nat \<Rightarrow> nat \<Rightarrow> Allocator \<Rightarrow> nat \<Rightarrow> NodePtr list \<Rightarrow> nat eval \<times> Allocator" where
  "new_concat_loop start new_size a counter [] = (Ok counter, a)"
| "new_concat_loop start new_size a counter (node # nodes) =
     tryR (object_type node) a (\<lambda>t. case t of
       OPair \<Rightarrow> (err node ''(internal error) concat expected atom, got pair'',
                 a\<lparr> u8_vec := take start (u8_vec a) \<rparr>)
     | OBytes \<Rightarrow>
         tryR (get_idx (atom_vec a) (unat (index node))) a (\<lambda>term.
         if counter + ab_len term > new_size
         then (err node ''(internal error) concat passed invalid new_size'',
               a\<lparr> u8_vec := take start (u8_vec a) \<rparr>)
         else
           tryR (slice (u8_vec a) (unat (ab_start term)) (unat (ab_end term))) a (\<lambda>bytes.
           new_concat_loop start new_size (a\<lparr> u8_vec := u8_vec a @ bytes \<rparr>) (counter + ab_len term) nodes))
     | OSmallAtom \<Rightarrow>
         (let val = index node; len = len_for_value val in
          tryR (small_atom_buf val) a (\<lambda>buf.
          new_concat_loop start new_size (a\<lparr> u8_vec := u8_vec a @ buf \<rparr>) (counter + len) nodes)))"

definition new_concat :: "Allocator \<Rightarrow> nat \<Rightarrow> NodePtr list \<Rightarrow> NodePtr eval \<times> Allocator" where
  "new_concat a new_size nodes =
     tryR (check_atom_limit a) a (\<lambda>_.
     let start = length (u8_vec a) in
     if usize_sub (heap_limit a) start < new_size then (err (nil a) ''out of memory'', a)
     else
       tryS (new_concat_loop start new_size a 0 nodes) (\<lambda>counter a.
       if counter \<noteq> new_size
       then (err (nil a) ''(internal error) concat passed invalid new_size'',
             a\<lparr> u8_vec := take start (u8_vec a) \<rparr>)
       else
         let end' = of_nat (length (u8_vec a)) :: u32; idx = length (atom_vec a) in
         (Ok (node_new OBytes idx),
          a\<lparr> atom_vec := atom_vec a @ [\<lparr> ab_start = of_nat start, ab_end = end' \<rparr>] \<rparr>)))"

section \<open>Reading\<close>

text \<open>The loop \<open>for i in start..end { v <<= 8; v |= u8_vec[i] as u32; }\<close>.\<close>

fun shift_in_range :: "bytes \<Rightarrow> nat list \<Rightarrow> u32 \<Rightarrow> ('e, u32) outcome" where
  "shift_in_range u8s [] acc = Ok acc"
| "shift_in_range u8s (i # is) acc =
     bindR (get_idx u8s i) (\<lambda>b. shift_in_range u8s is (push_bit 8 acc OR ucast b))"

definition bytes_eq_int :: "Allocator \<Rightarrow> AtomBuf \<Rightarrow> u32 \<Rightarrow> ('e, bool) outcome" where
  "bytes_eq_int a atom val =
     (let len = of_nat (len_for_value val) :: u32 in
      if ab_end atom - ab_start atom \<noteq> len then Ok False
      else if val = 0 then Ok True
      else bindR (get_idx (u8_vec a) (unat (ab_start atom))) (\<lambda>b0.
        if b0 AND 0x80 \<noteq> 0 then Ok False
        else bindR (shift_in_range (u8_vec a) [unat (ab_start atom)..<unat (ab_end atom)] 0)
               (\<lambda>atom_val. Ok (val = atom_val))))"

definition atom_range :: "Allocator \<Rightarrow> AtomBuf \<Rightarrow> ('e, bytes) outcome" where
  "atom_range a atom = slice (u8_vec a) (unat (ab_start atom)) (unat (ab_end atom))"

definition atom_eq :: "Allocator \<Rightarrow> NodePtr \<Rightarrow> NodePtr \<Rightarrow> ('e, bool) outcome" where
  "atom_eq a lhs rhs =
     bindR (object_type lhs) (\<lambda>lhs_type.
     bindR (object_type rhs) (\<lambda>rhs_type.
     case (lhs_type, rhs_type) of
       (OPair, _) \<Rightarrow> Panic ''atom_eq() called on pair''
     | (_, OPair) \<Rightarrow> Panic ''atom_eq() called on pair''
     | (OBytes, OBytes) \<Rightarrow>
         bindR (get_idx (atom_vec a) (unat (index lhs))) (\<lambda>l.
         bindR (get_idx (atom_vec a) (unat (index rhs))) (\<lambda>r.
         bindR (atom_range a l) (\<lambda>lb. bindR (atom_range a r) (\<lambda>rb. Ok (lb = rb)))))
     | (OSmallAtom, OSmallAtom) \<Rightarrow> Ok (index lhs = index rhs)
     | (OSmallAtom, OBytes) \<Rightarrow>
         bindR (get_idx (atom_vec a) (unat (index rhs))) (\<lambda>r. bytes_eq_int a r (index lhs))
     | (OBytes, OSmallAtom) \<Rightarrow>
         bindR (get_idx (atom_vec a) (unat (index lhs))) (\<lambda>l. bytes_eq_int a l (index rhs))))"

definition atom :: "Allocator \<Rightarrow> NodePtr \<Rightarrow> ('e, Atom) outcome" where
  "atom a node =
     bindR (object_type node) (\<lambda>t. case t of
       OBytes \<Rightarrow>
         bindR (get_idx (atom_vec a) (unat (index node))) (\<lambda>b.
         bindR (atom_range a b) (\<lambda>bs. Ok (ABorrowed bs)))
     | OSmallAtom \<Rightarrow> Ok (AU32 (to_be_bytes (index node)) (len_for_value (index node)))
     | OPair \<Rightarrow> Panic ''expected atom, got pair'')"

text \<open>\<open>a.atom(node).as_ref()\<close>.\<close>

definition atom_bytes :: "Allocator \<Rightarrow> NodePtr \<Rightarrow> ('e, bytes) outcome" where
  "atom_bytes a node = bindR (atom a node) as_ref"

definition atom_len :: "Allocator \<Rightarrow> NodePtr \<Rightarrow> ('e, nat) outcome" where
  "atom_len a node =
     bindR (object_type node) (\<lambda>t. case t of
       OBytes \<Rightarrow> bindR (get_idx (atom_vec a) (unat (index node))) (\<lambda>b. Ok (ab_len b))
     | OSmallAtom \<Rightarrow> Ok (len_for_value (index node))
     | OPair \<Rightarrow> Panic ''expected atom, got pair'')"

definition small_number :: "Allocator \<Rightarrow> NodePtr \<Rightarrow> ('e, u32 option) outcome" where
  "small_number a node =
     bindR (object_type node) (\<lambda>t. case t of
       OSmallAtom \<Rightarrow> Ok (Some (index node))
     | OBytes \<Rightarrow>
         bindR (get_idx (atom_vec a) (unat (index node))) (\<lambda>b.
         bindR (atom_range a b) (\<lambda>buf. Ok (fits_in_small_atom buf)))
     | OPair \<Rightarrow> Ok None)"

definition number_from_u8 :: "'x bigint_api_scheme \<Rightarrow> bytes \<Rightarrow> int" where
  "number_from_u8 B v = (if length v = 0 then 0 else from_signed_bytes_be B v)"

definition number :: "'x bigint_api_scheme \<Rightarrow> Allocator \<Rightarrow> NodePtr \<Rightarrow> ('e, int) outcome" where
  "number B a node =
     bindR (object_type node) (\<lambda>t. case t of
       OBytes \<Rightarrow>
         bindR (get_idx (atom_vec a) (unat (index node))) (\<lambda>b.
         bindR (atom_range a b) (\<lambda>bs. Ok (number_from_u8 B bs)))
     | OSmallAtom \<Rightarrow> Ok (uint (index node))
     | OPair \<Rightarrow> Panic ''number() calld on pair'')"

definition g1 :: "('g1, 'g2, 'key, 'sig, 'x) ext_api_scheme \<Rightarrow> Allocator \<Rightarrow> NodePtr \<Rightarrow> 'g1 eval" where
  "g1 E a node =
     bindR (object_type node) (\<lambda>t. case t of
       OSmallAtom \<Rightarrow> err node ''atom is not G1 size, 48 bytes''
     | OPair \<Rightarrow> err node ''pair found, expected G1 point''
     | OBytes \<Rightarrow>
         bindR (get_idx (atom_vec a) (unat (index node))) (\<lambda>b.
         if ab_end b - ab_start b \<noteq> 48 then err node ''atom is not G1 size, 48 bytes''
         else bindR (atom_range a b) (\<lambda>array.
           case g1_from_bytes E array of
             Some p \<Rightarrow> Ok p
           | None \<Rightarrow> err node ''atom is not a G1 point'')))"

definition g2 :: "('g1, 'g2, 'key, 'sig, 'x) ext_api_scheme \<Rightarrow> Allocator \<Rightarrow> NodePtr \<Rightarrow> 'g2 eval" where
  "g2 E a node =
     bindR (object_type node) (\<lambda>t. case t of
       OSmallAtom \<Rightarrow> err node ''atom is not G2 size, 96 bytes''
     | OPair \<Rightarrow> err node ''pair found, expected G2 point''
     | OBytes \<Rightarrow>
         bindR (get_idx (atom_vec a) (unat (index node))) (\<lambda>b.
         if ab_end b - ab_start b \<noteq> 96 then err node ''atom is not G2 size, 96 bytes''
         else bindR (atom_range a b) (\<lambda>array.
           case g2_from_bytes E array of
             Some p \<Rightarrow> Ok p
           | None \<Rightarrow> err node ''atom is not a G2 point'')))"

definition node :: "Allocator \<Rightarrow> NodePtr \<Rightarrow> ('e, NodeVisitor) outcome" where
  "node a n =
     bindR (object_type n) (\<lambda>t. case t of
       OBytes \<Rightarrow>
         bindR (get_idx (atom_vec a) (unat (index n))) (\<lambda>b.
         bindR (atom_range a b) (\<lambda>buf. Ok (VBuffer buf)))
     | OSmallAtom \<Rightarrow> Ok (VU32 (index n))
     | OPair \<Rightarrow>
         bindR (get_idx (pair_vec a) (unat (index n))) (\<lambda>p. Ok (VPair (ip_first p) (ip_rest p))))"

definition sexp :: "Allocator \<Rightarrow> NodePtr \<Rightarrow> ('e, SExp) outcome" where
  "sexp a n =
     bindR (object_type n) (\<lambda>t. case t of
       OPair \<Rightarrow> bindR (get_idx (pair_vec a) (unat (index n))) (\<lambda>p. Ok (SPair (ip_first p) (ip_rest p)))
     | _ \<Rightarrow> Ok SAtom)"

definition next_item :: "Allocator \<Rightarrow> NodePtr \<Rightarrow> ('e, (NodePtr \<times> NodePtr) option) outcome" where
  "next_item a n =
     bindR (sexp a n) (\<lambda>s. case s of
       SPair first rest \<Rightarrow> Ok (Some (first, rest))
     | SAtom \<Rightarrow> Ok None)"

text \<open>
  The loop \<open>while let Some((arg, rest)) = a.next(node) { node = rest; ... }\<close>, whose body
  \<open>f\<close> updates the loop's variables \<open>s\<close> or returns early. A list of a well-formed
  allocator visits pairs of decreasing index, so it has at most \<open>length (pair_vec a)\<close> items;
  running out of fuel stands for a loop that does not end.
\<close>

fun while_fuel ::
  "nat \<Rightarrow> Allocator \<Rightarrow> NodePtr \<Rightarrow> 's \<Rightarrow> (NodePtr \<Rightarrow> 's \<Rightarrow> ('e, 's) outcome) \<Rightarrow> ('e, 's) outcome" where
  "while_fuel 0 a n s f = Panic ''the list does not end''"
| "while_fuel (Suc k) a n s f =
     bindR (next_item a n) (\<lambda>r. case r of
       None \<Rightarrow> Ok s
     | Some (arg, rest) \<Rightarrow> bindR (f arg s) (\<lambda>s'. while_fuel k a rest s' f))"

definition while_next ::
  "Allocator \<Rightarrow> NodePtr \<Rightarrow> 's \<Rightarrow> (NodePtr \<Rightarrow> 's \<Rightarrow> ('e, 's) outcome) \<Rightarrow> ('e, 's) outcome" where
  "while_next a n s f = while_fuel (Suc (length (pair_vec a))) a n s f"

end
