(* ===== verification/AllocNode.thy ===== *)
theory AllocNode
  imports Allocator
begin

unbundle bit_operations_syntax

text \<open>
  Node pointers and small atoms (\<open>allocator.rs\<close>): packing a tag and an index into a
  \<open>NodePtr\<close> and taking them apart again, the byte-shifting loops as big-endian numbers, and
  the encoding of small non-negative integers inside the pointer. The main facts are that
  \<open>fits_in_small_atom\<close> accepts exactly the canonical encodings below \<open>2 ^ 26\<close>, and that
  \<open>small_atom_buf\<close> gives back the bytes it accepted.
\<close>

section \<open>Packing and unpacking\<close>

lemma unat_u32_less [simp]: "unat (w :: u32) < 4294967296"
proof -
  have "unat w < 2 ^ LENGTH(32)" by (rule unsigned_less)
  then show ?thesis by simp
qed

lemma mask_eq: "NODE_PTR_IDX_MASK = mask 26"
  by (simp add: NODE_PTR_IDX_MASK_def NODE_PTR_IDX_BITS_def mask_eq_exp_minus_1 push_bit_eq_mult)

lemma unat_mask26 [simp]: "unat (NODE_PTR_IDX_MASK) = 67108863"
  by (simp add: NODE_PTR_IDX_MASK_def NODE_PTR_IDX_BITS_def)

fun node_kind :: "NodePtr \<Rightarrow> ObjectType option" where
  "node_kind (NodePtr w) =
     (let t = drop_bit NODE_PTR_IDX_BITS w in
      if t = 0 then Some OPair else if t = 1 then Some OBytes else if t = 2 then Some OSmallAtom else None)"

definition node_idx :: "NodePtr \<Rightarrow> nat" where
  "node_idx p = unat (index p)"

lemma object_type_kind: "node_kind p = Some t \<Longrightarrow> object_type p = Ok t"
  by (cases p) (auto simp: Let_def split: if_splits)

lemma object_type_none: "node_kind p = None \<Longrightarrow> \<exists>s. object_type p = Panic s"
  by (cases p) (auto simp: Let_def split: if_splits)

lemma object_type_eq_Ok: "object_type p = Ok t \<longleftrightarrow> node_kind p = Some t"
  by (cases p) (auto simp: Let_def split: if_splits)

lemma node_idx_less: "node_idx p < 67108864"
proof (cases p)
  case (NodePtr w)
  have "index p = take_bit 26 w" by (simp add: NodePtr mask_eq take_bit_eq_mask)
  then have "unat (index p) = take_bit 26 (unat w)" by (simp add: unsigned_take_bit_eq)
  then show ?thesis by (simp add: node_idx_def take_bit_eq_mod)
qed

lemma drop_bit_or_word: "drop_bit n (x OR y) = drop_bit n x OR drop_bit n (y :: u32)"
  by (rule bit_word_eqI) (simp add: bit_simps)

lemma node_word_parts:
  assumes "i < 67108864"
  shows "drop_bit 26 (push_bit 26 (object_tag t) OR (of_nat i :: u32)) = object_tag t"
    and "take_bit 26 (push_bit 26 (object_tag t) OR (of_nat i :: u32)) = of_nat i"
proof -
  have i: "take_bit 26 i = i" using assms by (simp add: take_bit_nat_eq_self_iff)
  then have ti: "take_bit 26 (of_nat i :: u32) = of_nat i"
    by (metis take_bit_of_nat)
  have "drop_bit 26 (of_nat i :: u32) = drop_bit 26 (take_bit 26 (of_nat i))" by (simp add: ti)
  also have "\<dots> = 0" by (simp add: drop_bit_take_bit)
  finally have d0: "drop_bit 26 (of_nat i :: u32) = 0" .
  have "drop_bit 26 (push_bit 26 (object_tag t)) = object_tag t" by (cases t) (simp_all add: push_bit_eq_mult drop_bit_eq_div)
  then show "drop_bit 26 (push_bit 26 (object_tag t) OR (of_nat i :: u32)) = object_tag t"
    by (simp add: drop_bit_or_word d0)
  show "take_bit 26 (push_bit 26 (object_tag t) OR (of_nat i :: u32)) = of_nat i"
    by (simp add: ti take_bit_push_bit)
qed

lemma node_kind_new [simp]: "i < 67108864 \<Longrightarrow> node_kind (node_new t i) = Some t"
  unfolding node_new_def node_kind.simps NODE_PTR_IDX_BITS_def Let_def node_word_parts(1)
  by (cases t) simp_all

lemma index_new [simp]: "i < 67108864 \<Longrightarrow> index (node_new t i) = of_nat i"
  unfolding node_new_def index.simps NODE_PTR_IDX_BITS_def mask_eq take_bit_eq_mask [symmetric]
  by (rule node_word_parts(2))

lemma node_idx_new [simp]: "i < 67108864 \<Longrightarrow> node_idx (node_new t i) = i"
  by (simp add: node_idx_def unat_of_nat)

lemma node_new_kind:
  assumes "node_kind p = Some t"
  shows "node_new t (node_idx p) = p"
proof (cases p)
  case (NodePtr w)
  have t: "drop_bit 26 w = object_tag t"
    using assms NodePtr by (auto simp: Let_def NODE_PTR_IDX_BITS_def split: if_splits)
  have i: "(of_nat (node_idx p) :: u32) = take_bit 26 w"
    by (simp add: node_idx_def NodePtr mask_eq take_bit_eq_mask)
  have "push_bit 26 (drop_bit 26 w) OR take_bit 26 w = w"
    by (rule bit_word_eqI) (auto simp: bit_simps)
  then show ?thesis unfolding node_new_def NODE_PTR_IDX_BITS_def i by (simp add: t NodePtr)
qed

lemma node_eqI: "node_kind p = Some t \<Longrightarrow> node_kind q = Some t \<Longrightarrow> node_idx p = node_idx q \<Longrightarrow> p = q"
  by (metis node_new_kind)

section \<open>Shifting bytes into a word\<close>

lemma bit7_iff: "bit (b :: u8) 7 \<longleftrightarrow> 128 \<le> unat b"
proof -
  have "bit b 7 \<longleftrightarrow> bit (unat b) 7" by (simp add: bit_unsigned_iff)
  also have "\<dots> \<longleftrightarrow> odd (unat b div 2 ^ 7)" by (simp only: bit_iff_odd)
  finally have "bit b 7 \<longleftrightarrow> odd (unat b div 2 ^ 7)" .
  moreover have "unat b div 128 < 2" by (rule less_mult_imp_div_less) simp
  then have "unat b div 2 ^ 7 \<le> 1" by simp
  moreover have "128 \<le> unat b \<longleftrightarrow> 1 \<le> unat b div 2 ^ 7" by (simp add: div_greater_zero_iff Suc_le_eq)
  ultimately show ?thesis by (metis even_zero le_antisym less_one linorder_not_less odd_one)
qed

lemma and_bit7: "(b :: u8) AND 0x80 = (if bit b 7 then 0x80 else 0)"
proof -
  have "b AND 2 ^ 7 = (if bit b 7 then 2 ^ 7 else 0)"
    by (rule bit_word_eqI) (auto simp only: bit_and_iff bit_exp_iff bit_0_eq bot_bool_def bot_fun_def split: if_splits)
  then show ?thesis by simp
qed

lemma and_80: "(b :: u8) AND 0x80 = 0 \<longleftrightarrow> unat b < 128"
  by (simp add: and_bit7 bit7_iff not_less)

lemma and_80_eq: "(b :: u8) AND 0x80 = 0x80 \<longleftrightarrow> 128 \<le> unat b"
  by (simp add: and_bit7 bit7_iff)

lemma shift_in_Nil [simp]: "shift_in r [] = r"
  by (simp add: shift_in_def)

lemma shift_in_Cons: "shift_in r (b # bs) = shift_in (push_bit 8 r OR ucast b) bs"
  by (simp add: shift_in_def)

lemma unat_shift_byte:
  assumes "8 \<le> LENGTH('w::len)"
  shows "unat (push_bit 8 (r :: 'w word) OR ucast (b :: u8)) = (unat r * 256 + unat b) mod 2 ^ LENGTH('w)"
proof -
  have "push_bit 8 r + ucast b = push_bit 8 r OR ucast b"
    by (rule disjunctive_add) (auto simp: bit_simps dest: bit_imp_le_length)
  then have "unat (push_bit 8 r OR ucast b) = unat (r * 2 ^ 8 + ucast b)"
    by (simp add: push_bit_eq_mult)
  also have "\<dots> = (unat (r * 2 ^ 8) + unat (ucast b :: 'w word)) mod 2 ^ LENGTH('w)"
    by (simp add: unat_word_ariths)
  also have "unat (ucast b :: 'w word) = unat b"
  proof -
    have "(2 :: nat) ^ 8 \<le> 2 ^ LENGTH('w)" using assms by (intro power_increasing) auto
    moreover have "unat b < 2 ^ 8" by simp
    ultimately have "unat b < 2 ^ LENGTH('w)" by (rule order_less_le_trans [rotated])
    then show ?thesis by (simp add: unsigned_ucast_eq take_bit_nat_eq_self_iff)
  qed
  finally show ?thesis by (simp add: unat_word_ariths take_bit_eq_mod) (metis mod_add_left_eq mod_mult_right_eq)
qed

lemma be_nat_foldl: "foldl (\<lambda>r b. r * 256 + unat b) r bs = r * 256 ^ length bs + be_nat bs"
  by (induction bs arbitrary: r) (simp_all add: be_nat_Cons algebra_simps)

lemma unat_shift_in:
  assumes "8 \<le> LENGTH('w::len)"
  shows "unat (shift_in (r :: 'w word) bs) = (unat r * 256 ^ length bs + be_nat bs) mod 2 ^ LENGTH('w)"
proof (induction bs arbitrary: r)
  case Nil
  then show ?case by (simp add: unsigned_less)
next
  case (Cons b bs)
  have "unat (shift_in r (b # bs)) =
      ((unat r * 256 + unat b) mod 2 ^ LENGTH('w) * 256 ^ length bs + be_nat bs) mod 2 ^ LENGTH('w)"
    by (simp only: shift_in_Cons Cons unat_shift_byte [OF assms])
  also have "\<dots> = ((unat r * 256 + unat b) * 256 ^ length bs + be_nat bs) mod 2 ^ LENGTH('w)"
    by (metis mod_add_left_eq mod_mult_left_eq)
  finally show ?case by (simp add: be_nat_Cons algebra_simps)
qed

lemma unat_shift_in_u32: "be_nat bs < 4294967296 \<Longrightarrow> unat (shift_in 0 bs :: u32) = be_nat bs"
  using unat_shift_in [where ?'w = 32, of 0 bs] by simp

lemma unat_shift_in_u64: "be_nat bs < 18446744073709551616 \<Longrightarrow> unat (shift_in 0 bs :: u64) = be_nat bs"
  using unat_shift_in [where ?'w = 64, of 0 bs] by simp

section \<open>Small atoms\<close>

lemma be_bytes_append: "be_bytes (k + j) n = be_bytes k (n div 256 ^ j) @ be_bytes j n"
  by (induction j arbitrary: n) (simp_all add: div_mult2_eq mult.commute)

lemma drop_be_bytes: "k \<le> m \<Longrightarrow> drop (m - k) (be_bytes m n) = be_bytes k n"
  using be_bytes_append [of "m - k" k n] by simp

lemma signed_len_eqI:
  assumes "0 < k" "- (256 ^ k) \<le> 2 * n" "2 * n < 256 ^ k"
    and "1 < k \<Longrightarrow> \<not> (- (256 ^ (k - 1)) \<le> 2 * n \<and> 2 * n < 256 ^ (k - 1))"
  shows "signed_len n = k"
proof (rule antisym)
  show "signed_len n \<le> k" using assms by (intro signed_len_least) auto
  show "k \<le> signed_len n"
  proof (rule ccontr)
    assume "\<not> k \<le> signed_len n"
    then have le: "signed_len n \<le> k - 1" "1 < k" using signed_len_pos [of n] by linarith+
    then have "(256 :: int) ^ signed_len n \<le> 256 ^ (k - 1)" by (intro power_increasing) auto
    with signed_len_range [of n] assms(4) le(2) show False by linarith
  qed
qed

lemma len_for_value_eq: "len_for_value w = length (int_bytes (uint w))"
proof (cases "w = 0")
  case True
  then show ?thesis by (simp add: len_for_value_def int_bytes_def)
next
  case False
  then have nz: "uint w \<noteq> 0" by (simp add: uint_0_iff)
  have ge: "0 < uint w" using nz uint_ge_0 [of w] by linarith
  have lt: "uint w < 4294967296" using uint_bounded [of w] by simp
  have "signed_len (uint w) = len_for_value w"
    using ge lt False
    by (intro signed_len_eqI) (auto simp: len_for_value_def word_less_def split: if_splits)
  with nz show ?thesis by (simp add: int_bytes_def ref_to_signed_def)
qed

lemma int_bytes_nonneg:
  assumes "0 \<le> n"
  shows "int_bytes n = be_bytes (length (int_bytes n)) (nat n)"
proof (cases "n = 0")
  case False
  have "2 * n < 256 ^ signed_len n" using signed_len_range [of n] by simp
  then have "n mod 256 ^ signed_len n = n" using assms by (intro mod_pos_pos_trivial) auto
  with False show ?thesis by (simp add: int_bytes_def ref_to_signed_def)
qed (simp add: int_bytes_def)

lemma small_atom_buf_eq:
  assumes "unat w < 2147483648"
  shows "small_atom_buf w = Ok (int_bytes (uint w))"
proof -
  have "int (unat w) < 0x80000000" using assms by linarith
  then have "uint w < 0x80000000" by simp
  then have le: "len_for_value w \<le> 4" by (auto simp: len_for_value_def word_less_def)
  have "drop (4 - len_for_value w) (be_bytes 4 (unat w)) = be_bytes (len_for_value w) (unat w)"
    using le by (rule drop_be_bytes)
  also have "\<dots> = int_bytes (uint w)"
    using int_bytes_nonneg [of "uint w"] by (simp add: len_for_value_eq)
  finally show ?thesis using le
    by (simp add: small_atom_buf_def to_be_bytes_def usize_sub_def slice_def len_for_value_eq)
qed

lemma be_signed_nonneg_iff: "v \<noteq> [] \<Longrightarrow> 0 \<le> be_signed v \<longleftrightarrow> unat (hd v) < 128"
  using be_signed_range [of v] hd_ge_128_iff_int [of v] be_nat_less_int [of v]
  by (auto simp: be_signed_def)

lemma be_signed_nonneg: "0 \<le> be_signed v \<Longrightarrow> be_signed v = int (be_nat v)"
  using be_signed_nonneg_iff [of v] by (auto simp: be_signed_def)

lemma be_nat_u8_Cons: "be_nat (b # bs) < (unat b + 1) * 256 ^ length bs"
  using be_nat_less [of bs] by (simp add: be_nat_Cons)

text \<open>\<open>fits_in_small_atom\<close> recognises the canonical encodings of 26-bit integers.\<close>

lemma fits_cond:
  "fits_in_small_atom v =
    (if canonical v \<and> length v \<le> 4 \<and> (v \<noteq> [] \<longrightarrow> unat (hd v) < 128) \<and> (length v = 4 \<longrightarrow> unat (hd v) < 4)
     then Some (shift_in 0 v) else None)"
proof (cases v rule: canonical.cases)
  case (2 b)
  then show ?thesis by (auto simp: fits_in_small_atom_def and_80 not_less)
next
  case (3 b0 b1 bs)
  have "(3 :: u8) < b0 \<longleftrightarrow> \<not> unat b0 < 4" by (auto simp: word_less_nat_alt)
  with 3 show ?thesis by (auto simp: fits_in_small_atom_def and_80 not_less)
qed (simp add: fits_in_small_atom_def)

lemma fits_in_small_atom_Some:
  assumes "fits_in_small_atom v = Some w"
  shows "v = int_bytes (uint w)" and "unat w < 67108864"
proof -
  have c: "canonical v" "length v \<le> 4" "v \<noteq> [] \<Longrightarrow> unat (hd v) < 128"
    "length v = 4 \<Longrightarrow> unat (hd v) < 4" "w = shift_in 0 v"
    using assms by (auto simp: fits_cond split: if_splits)
  have lt: "be_nat v < 67108864"
  proof (cases "length v = 4")
    case True
    then obtain b bs where v: "v = b # bs" "length bs = 3" by (cases v) auto
    have "be_nat v < (unat b + 1) * 256 ^ 3" using be_nat_u8_Cons [of b bs] v by simp
    also have "\<dots> \<le> 4 * 256 ^ 3" using c(4) True v by (intro mult_right_mono) auto
    finally show ?thesis by simp
  next
    case False
    then have "(256 :: nat) ^ length v \<le> 256 ^ 3" using c(2) by (intro power_increasing) auto
    then show ?thesis using be_nat_less [of v] by simp
  qed
  then have w: "unat w = be_nat v" using c(5) by (simp add: unat_shift_in_u32)
  then show "unat w < 67108864" using lt by simp
  have "0 \<le> be_signed v" using c(3) be_signed_nonneg_iff [of v] by (cases "v = []") auto
  then have "be_signed v = int (unat w)" using be_signed_nonneg w by simp
  then have "int_bytes (uint w) = int_bytes (be_signed v)" by simp
  then show "v = int_bytes (uint w)" using int_bytes_be_signed [OF c(1)] by simp
qed

lemma fits_in_small_atom_int_bytes:
  assumes "0 \<le> n" "n < 67108864"
  shows "fits_in_small_atom (int_bytes n) = Some (of_int n)"
proof -
  define v where "v = int_bytes n"
  have c: "canonical v" "be_signed v = n" by (simp_all add: v_def)
  have bn: "int (be_nat v) = n" using be_signed_nonneg [of v] c assms by simp
  have l4: "length v \<le> 4"
  proof (cases "v = []")
    case False
    have "be_signed (be_bytes 4 (nat n)) = n"
      using be_signed_of_range [of 4 n] assms by (simp add: mod_pos_pos_trivial)
    moreover have "be_bytes 4 (nat n) \<noteq> []" using length_be_bytes [of 4 "nat n"] by (metis list.size(3) zero_neq_numeral)
    ultimately show ?thesis using canonical_shortest [of v "be_bytes 4 (nat n)"] c False by simp
  qed simp
  have hd: "v \<noteq> [] \<Longrightarrow> unat (hd v) < 128" using be_signed_nonneg_iff [of v] c assms by simp
  have "length v = 4 \<Longrightarrow> unat (hd v) < 4"
  proof (rule ccontr)
    assume l: "length v = 4" and "\<not> unat (hd v) < 4"
    then obtain b bs where v: "v = b # bs" "length bs = 3" "4 \<le> unat b" by (cases v) auto
    then have "4 * 256 ^ 3 \<le> unat b * 256 ^ 3" by (intro mult_right_mono) auto
    then have "67108864 \<le> be_nat v" using v by (simp add: be_nat_Cons)
    with bn assms show False by simp
  qed
  then have "fits_in_small_atom v = Some (shift_in 0 v)" using c l4 hd by (simp add: fits_cond)
  moreover have "unat (shift_in 0 v :: u32) = nat n"
    using bn assms by (subst unat_shift_in_u32) auto
  then have "uint (shift_in 0 v :: u32) = n" using assms by (metis int_nat_eq uint_nat)
  then have "shift_in 0 v = (of_int n :: u32)" by (metis word_of_int_uint)
  ultimately show ?thesis by (simp add: v_def)
qed

end
