(* ===== verification/AllocHeap.thy ===== *)
theory AllocHeap
  imports AllocNode
begin

unbundle bit_operations_syntax

text \<open>
  The values an allocator holds. A CLVM value is a byte string or a pair; \<open>rep a p t\<close> says
  that node \<open>p\<close> of allocator \<open>a\<close> is the value \<open>t\<close>, and \<open>alloc_ok\<close> is the invariant
  under which every node in range is a value: atoms are ranges of the byte vector, pairs
  point to nodes allocated before them, the counters are within the limits of the code.
  \<open>extends a a'\<close> says that \<open>a'\<close> was reached from \<open>a\<close> by allocation only. The lemmas show
  that every reading operation returns what the value says, that every allocating operation
  extends the allocator and, as long as the byte vector stays below \<open>4 GiB\<close>
  (\<open>heap_ok\<close>), keeps the invariant, returns a node of the specified value and never
  panics, and that restoring a checkpoint gives the earlier allocator back exactly.
\<close>

section \<open>Values and well-formedness\<close>

datatype clvm = CAtom bytes | CPair clvm clvm

definition buf_bytes :: "Allocator \<Rightarrow> AtomBuf \<Rightarrow> bytes" where
  "buf_bytes a b = take (unat (ab_end b) - unat (ab_start b)) (drop (unat (ab_start b)) (u8_vec a))"

definition buf_ok :: "Allocator \<Rightarrow> AtomBuf \<Rightarrow> bool" where
  "buf_ok a b \<longleftrightarrow> unat (ab_start b) \<le> unat (ab_end b) \<and> unat (ab_end b) \<le> length (u8_vec a)"

inductive rep :: "Allocator \<Rightarrow> NodePtr \<Rightarrow> clvm \<Rightarrow> bool" for a where
  rep_buf: "node_kind p = Some OBytes \<Longrightarrow> node_idx p < length (atom_vec a) \<Longrightarrow>
    buf_ok a (atom_vec a ! node_idx p) \<Longrightarrow> bs = buf_bytes a (atom_vec a ! node_idx p) \<Longrightarrow> rep a p (CAtom bs)"
| rep_small: "node_kind p = Some OSmallAtom \<Longrightarrow> bs = int_bytes (uint (index p)) \<Longrightarrow> rep a p (CAtom bs)"
| rep_pair: "node_kind p = Some OPair \<Longrightarrow> node_idx p < length (pair_vec a) \<Longrightarrow>
    rep a (ip_first (pair_vec a ! node_idx p)) l \<Longrightarrow> rep a (ip_rest (pair_vec a ! node_idx p)) r \<Longrightarrow>
    rep a p (CPair l r)"

inductive_cases rep_CAtomE: "rep a p (CAtom bs)"
inductive_cases rep_CPairE: "rep a p (CPair l r)"

definition node_below :: "Allocator \<Rightarrow> nat \<Rightarrow> NodePtr \<Rightarrow> bool" where
  "node_below a i p \<longleftrightarrow>
     (case node_kind p of
        Some OPair \<Rightarrow> node_idx p < i
      | Some OBytes \<Rightarrow> node_idx p < length (atom_vec a)
      | Some OSmallAtom \<Rightarrow> True
      | None \<Rightarrow> False)"

abbreviation node_ok :: "Allocator \<Rightarrow> NodePtr \<Rightarrow> bool" where
  "node_ok a p \<equiv> node_below a (length (pair_vec a)) p"

definition heap_ok :: "Allocator \<Rightarrow> bool" where
  "heap_ok a \<longleftrightarrow> length (u8_vec a) \<le> u32_max"

definition alloc_ok :: "Allocator \<Rightarrow> bool" where
  "alloc_ok a \<longleftrightarrow>
     heap_ok a
     \<and> (\<forall>b \<in> set (atom_vec a). buf_ok a b)
     \<and> (\<forall>i < length (pair_vec a). node_below a i (ip_first (pair_vec a ! i)) \<and> node_below a i (ip_rest (pair_vec a ! i)))
     \<and> length (atom_vec a) + small_atoms a \<le> MAX_NUM_ATOMS
     \<and> length (pair_vec a) \<le> MAX_NUM_PAIRS"

definition extends :: "Allocator \<Rightarrow> Allocator \<Rightarrow> bool" where
  "extends a a' \<longleftrightarrow>
     (\<exists>us ps bs. u8_vec a' = u8_vec a @ us \<and> pair_vec a' = pair_vec a @ ps \<and> atom_vec a' = atom_vec a @ bs)
     \<and> heap_limit a' = heap_limit a \<and> small_atoms a \<le> small_atoms a'"

lemma extends_refl [simp, intro]: "extends a a"
  by (simp add: extends_def)

lemma extends_trans [trans]: "extends a b \<Longrightarrow> extends b c \<Longrightarrow> extends a c"
  by (auto simp: extends_def)

lemma extends_heap_ok: "extends a a' \<Longrightarrow> heap_ok a' \<Longrightarrow> heap_ok a"
  by (auto simp: extends_def heap_ok_def)

lemma extends_node_below: "extends a a' \<Longrightarrow> i \<le> j \<Longrightarrow> node_below a i p \<Longrightarrow> node_below a' j p"
  by (auto simp: extends_def node_below_def split: option.splits ObjectType.splits)

lemma extends_node_ok: "extends a a' \<Longrightarrow> node_ok a p \<Longrightarrow> node_ok a' p"
  by (rule extends_node_below) (auto simp: extends_def)

lemma extends_buf_ok: "extends a a' \<Longrightarrow> buf_ok a b \<Longrightarrow> buf_ok a' b \<and> buf_bytes a' b = buf_bytes a b"
  by (auto simp: extends_def buf_ok_def buf_bytes_def)

lemma rep_extends:
  assumes "rep a p t" "extends a a'"
  shows "rep a' p t"
  using assms(1)
proof induction
  case (rep_buf p bs)
  then have nth: "atom_vec a' ! node_idx p = atom_vec a ! node_idx p" "node_idx p < length (atom_vec a')"
    using assms(2) by (auto simp: extends_def nth_append)
  then show ?case using rep_buf extends_buf_ok [OF assms(2)] by (intro rep.rep_buf) auto
next
  case (rep_pair p l r)
  have "pair_vec a' ! node_idx p = pair_vec a ! node_idx p" "node_idx p < length (pair_vec a')"
    using rep_pair assms(2) by (auto simp: extends_def nth_append)
  then show ?case using rep_pair by (intro rep.rep_pair) auto
qed (auto intro: rep.rep_small)

lemma rep_det: "rep a p t \<Longrightarrow> rep a p u \<Longrightarrow> t = u"
proof (induction arbitrary: u rule: rep.induct)
  case (rep_buf p bs)
  from rep_buf.prems rep_buf.hyps show ?case by (cases rule: rep.cases) auto
next
  case (rep_small p bs)
  from rep_small.prems rep_small.hyps show ?case by (cases rule: rep.cases) auto
next
  case (rep_pair p l r)
  from rep_pair.prems rep_pair.hyps obtain l' r' where u: "u = CPair l' r'"
    "rep a (ip_first (pair_vec a ! node_idx p)) l'" "rep a (ip_rest (pair_vec a ! node_idx p)) r'"
    by (cases rule: rep.cases) auto
  from rep_pair.IH(1) [OF u(2)] rep_pair.IH(2) [OF u(3)] u(1) show ?case by simp
qed

lemma rep_node_ok: "rep a p t \<Longrightarrow> node_ok a p"
  by (cases rule: rep.cases) (auto simp: node_below_def)

text \<open>Every node of a well-formed allocator is a finite tree.\<close>

lemma node_below_rep:
  assumes ok: "alloc_ok a"
  shows "i \<le> length (pair_vec a) \<Longrightarrow> node_below a i p \<Longrightarrow> \<exists>t. rep a p t"
proof (induction i arbitrary: p rule: less_induct)
  case (less i)
  show ?case
  proof (cases "node_kind p")
    case (Some k)
    show ?thesis
    proof (cases k)
      case OPair
      let ?j = "node_idx p"
      have j: "?j < i" "?j < length (pair_vec a)" using less.prems Some OPair by (auto simp: node_below_def)
      then have "node_below a ?j (ip_first (pair_vec a ! ?j))" "node_below a ?j (ip_rest (pair_vec a ! ?j))"
        using ok by (auto simp: alloc_ok_def)
      then obtain l r where "rep a (ip_first (pair_vec a ! ?j)) l" "rep a (ip_rest (pair_vec a ! ?j)) r"
        using less.IH [OF j(1)] j(2) by (meson less_imp_le)
      then show ?thesis using Some OPair j by (blast intro: rep.rep_pair)
    next
      case OBytes
      have "node_idx p < length (atom_vec a)" using less.prems Some OBytes by (auto simp: node_below_def)
      then have "buf_ok a (atom_vec a ! node_idx p)" using ok by (auto simp: alloc_ok_def)
      then show ?thesis using Some OBytes \<open>node_idx p < _\<close> by (blast intro: rep.rep_buf)
    next
      case OSmallAtom
      then show ?thesis using Some by (blast intro: rep.rep_small)
    qed
  qed (use less.prems in \<open>auto simp: node_below_def\<close>)
qed

lemma node_ok_rep: "alloc_ok a \<Longrightarrow> node_ok a p \<Longrightarrow> \<exists>t. rep a p t"
  using node_below_rep by blast

section \<open>Reading a node\<close>

lemma unat_sub_le: "unat (x :: u32) \<le> unat y \<Longrightarrow> unat (y - x) = unat y - unat x"
  by (simp add: unat_sub word_le_nat_alt)

lemma buf_ok_range: "buf_ok a b \<Longrightarrow> atom_range a b = Ok (buf_bytes a b)"
  by (simp add: buf_ok_def buf_bytes_def atom_range_def slice_def)

lemma buf_ok_len: "buf_ok a b \<Longrightarrow> ab_len b = length (buf_bytes a b)"
  by (auto simp: buf_ok_def buf_bytes_def ab_len_def unat_sub_le)

lemma index_unat: "unat (index p) < 2147483648"
  using node_idx_less [of p] by (simp add: node_idx_def)

lemma as_ref_small: "as_ref (AU32 (to_be_bytes w) (len_for_value w)) = small_atom_buf w"
  by (simp add: small_atom_buf_def to_be_bytes_def)

lemma rep_atom_bytes: "rep a p (CAtom bs) \<Longrightarrow> atom_bytes a p = Ok bs"
  by (erule rep_CAtomE)
     (simp_all add: atom_bytes_def atom_def object_type_kind buf_ok_range as_ref_small small_atom_buf_eq index_unat
       node_idx_def del: as_ref.simps(2))

lemma rep_atom_len: "rep a p (CAtom bs) \<Longrightarrow> atom_len a p = Ok (length bs)"
  by (erule rep_CAtomE)
     (simp_all add: atom_len_def object_type_kind buf_ok_len len_for_value_eq node_idx_def)

lemma rep_small_number: "rep a p (CAtom bs) \<Longrightarrow> small_number a p = Ok (fits_in_small_atom bs)"
proof (erule rep_CAtomE)
  assume k: "node_kind p = Some OSmallAtom" and bs: "bs = int_bytes (uint (index p))"
  have "int (node_idx p) < 67108864" using node_idx_less [of p] by linarith
  then have "uint (index p) < 67108864" by (simp add: node_idx_def)
  then have "fits_in_small_atom bs = Some (index p)"
    using fits_in_small_atom_int_bytes [of "uint (index p)"] bs by simp
  with k show ?thesis by (simp add: small_number_def object_type_kind)
qed (simp_all add: small_number_def object_type_kind buf_ok_range node_idx_def)

lemma rep_sexp_atom: "rep a p (CAtom bs) \<Longrightarrow> sexp a p = Ok SAtom"
  by (erule rep_CAtomE) (simp_all add: sexp_def object_type_kind)

text \<open>The components of a pair node.\<close>

definition pfirst :: "Allocator \<Rightarrow> NodePtr \<Rightarrow> NodePtr" where
  "pfirst a p = ip_first (pair_vec a ! node_idx p)"

definition prest :: "Allocator \<Rightarrow> NodePtr \<Rightarrow> NodePtr" where
  "prest a p = ip_rest (pair_vec a ! node_idx p)"

lemma rep_pfirst: "rep a p (CPair l r) \<Longrightarrow> rep a (pfirst a p) l"
  by (auto simp: pfirst_def elim: rep_CPairE)

lemma rep_prest: "rep a p (CPair l r) \<Longrightarrow> rep a (prest a p) r"
  by (auto simp: prest_def elim: rep_CPairE)

lemma rep_sexp_pair: "rep a p (CPair l r) \<Longrightarrow> sexp a p = Ok (SPair (pfirst a p) (prest a p))"
  by (erule rep_CPairE) (simp add: sexp_def object_type_kind node_idx_def pfirst_def prest_def)

lemma rep_node_buffer: "rep a p (CAtom bs) \<Longrightarrow> node_kind p = Some OBytes \<Longrightarrow> node a p = Ok (VBuffer bs)"
  by (erule rep_CAtomE) (simp_all add: node_def object_type_kind buf_ok_range node_idx_def)

lemma rep_node_small: "node_kind p = Some OSmallAtom \<Longrightarrow> node a p = Ok (VU32 (index p))"
  by (simp add: node_def object_type_kind)

lemma rep_small_bytes: "rep a p (CAtom bs) \<Longrightarrow> node_kind p = Some OSmallAtom \<Longrightarrow> bs = int_bytes (uint (index p))"
  by (erule rep_CAtomE) simp_all

lemma rep_atom_kind: "rep a p (CAtom bs) \<Longrightarrow> node_kind p = Some OBytes \<or> node_kind p = Some OSmallAtom"
  by (erule rep_CAtomE) simp_all

lemma rep_pair_kind: "rep a p (CPair l r) \<Longrightarrow> node_kind p = Some OPair"
  by (erule rep_CPairE) simp_all

lemma rep_node_pair: "rep a p (CPair l r) \<Longrightarrow> node a p = Ok (VPair (pfirst a p) (prest a p))"
  by (erule rep_CPairE) (simp add: node_def object_type_kind node_idx_def pfirst_def prest_def)

lemma rep_next_atom: "rep a p (CAtom bs) \<Longrightarrow> next_item a p = Ok None"
  by (simp add: next_item_def rep_sexp_atom)

lemma rep_next_pair: "rep a p (CPair l r) \<Longrightarrow> next_item a p = Ok (Some (pfirst a p, prest a p))"
  by (simp add: next_item_def rep_sexp_pair)

lemma rep_is_pair: "rep a p t \<Longrightarrow> is_pair p = Ok (case t of CPair _ _ \<Rightarrow> True | CAtom _ \<Rightarrow> False)"
  by (erule rep.cases) (simp_all add: is_pair_def object_type_kind)

context bigint_laws
begin

lemma number_from_u8_eq: "number_from_u8 B v = be_signed v"
  by (simp add: number_from_u8_def from_signed)

end

lemma rep_number:
  assumes "bigint_laws B" "rep a p (CAtom bs)"
  shows "number B a p = Ok (be_signed bs)"
  using assms(2)
  by (elim rep_CAtomE)
     (simp_all add: number_def object_type_kind buf_ok_range node_idx_def bigint_laws.number_from_u8_eq [OF assms(1)])

lemma shift_in_range_eq:
  "j \<le> length u8s \<Longrightarrow> shift_in_range u8s [i..<j] acc = Ok (shift_in acc (take (j - i) (drop i u8s)))"
proof (induction "j - i" arbitrary: i acc)
  case 0
  then show ?case by simp
next
  case (Suc k)
  then have i: "i < j" "i < length u8s" by auto
  then have "take (j - i) (drop i u8s) = u8s ! i # take (j - Suc i) (drop (Suc i) u8s)"
    by (metis Cons_nth_drop_Suc Suc_diff_Suc take_Suc_Cons)
  with Suc i show ?case by (simp add: upt_conv_Cons shift_in_Cons)
qed

lemma bytes_eq_int_eq:
  assumes ok: "buf_ok a b" and w: "unat w < 2147483648"
  shows "bytes_eq_int a b w = Ok (buf_bytes a b = int_bytes (uint w))"
proof -
  define bs where "bs = buf_bytes a b"
  define vs where "vs = int_bytes (uint w)"
  have len: "ab_end b - ab_start b = of_nat (len_for_value w) \<longleftrightarrow> length bs = length vs"
  proof -
    have "unat (ab_end b - ab_start b) = length bs" using buf_ok_len [OF ok] by (simp add: ab_len_def bs_def)
    moreover have "unat (of_nat (len_for_value w) :: u32) = length vs"
      by (simp add: unat_of_nat vs_def flip: len_for_value_eq) (simp add: len_for_value_def)
    ultimately show ?thesis by (metis word_unat_eq_iff)
  qed
  have vs4: "length vs \<le> 4"
  proof -
    have "uint w < 2147483648" using w by (metis of_nat_less_numeral_iff uint_nat)
    then have "len_for_value w \<le> 4" by (auto simp: len_for_value_def word_less_def)
    then show ?thesis by (simp add: vs_def len_for_value_eq)
  qed
  have vs0: "vs = [] \<longleftrightarrow> w = 0"
    using len_for_value_eq [of w] by (auto simp: vs_def len_for_value_def split: if_splits)
  have vsval: "be_nat vs = unat w"
    using be_signed_nonneg [of vs] by (simp add: vs_def nat_eq_iff2 flip: uint_nat) (metis of_nat_eq_iff uint_nat)
  consider (len) "length bs \<noteq> length vs" | (zero) "length bs = length vs" "w = 0"
    | (neg) "length bs = length vs" "w \<noteq> 0" "128 \<le> unat (hd bs)"
    | (pos) "length bs = length vs" "w \<noteq> 0" "unat (hd bs) < 128" by linarith
  then have "bytes_eq_int a b w = Ok (bs = vs)"
  proof cases
    case len
    then have "bs \<noteq> vs" by auto
    with len \<open>_ = _ \<longleftrightarrow> length bs = length vs\<close> show ?thesis by (simp add: bytes_eq_int_def)
  next
    case zero
    then show ?thesis using vs0 \<open>_ = _ \<longleftrightarrow> length bs = length vs\<close> by (simp add: bytes_eq_int_def)
  next
    case neg
    have ne: "bs \<noteq> []" using neg vs0 by auto
    then have "unat (ab_start b) < length (u8_vec a)" "u8_vec a ! unat (ab_start b) = hd bs"
      using ok by (auto simp: bs_def buf_bytes_def buf_ok_def hd_take hd_drop_conv_nth)
    moreover have "bs \<noteq> vs" using neg ne be_signed_nonneg_iff [of vs] by (auto simp: vs_def)
    ultimately show ?thesis using neg \<open>_ = _ \<longleftrightarrow> length bs = length vs\<close> by (simp add: bytes_eq_int_def and_80)
  next
    case pos
    have ne: "bs \<noteq> []" using pos vs0 by auto
    then have hd: "unat (ab_start b) < length (u8_vec a)" "u8_vec a ! unat (ab_start b) = hd bs"
      using ok by (auto simp: bs_def buf_bytes_def buf_ok_def hd_take hd_drop_conv_nth)
    have e: "unat (ab_end b) \<le> length (u8_vec a)" using ok by (simp add: buf_ok_def)
    have "(256 :: nat) ^ length bs \<le> 256 ^ 4" using pos vs4 by (intro power_increasing) auto
    then have "be_nat bs < 4294967296" using be_nat_less [of bs] by simp
    then have "w = shift_in 0 bs \<longleftrightarrow> be_nat vs = be_nat bs"
      by (simp add: word_unat_eq_iff [of w] unat_shift_in_u32 vsval)
    also have "\<dots> \<longleftrightarrow> bs = vs" using be_nat_inj pos(1) by metis
    finally show ?thesis using pos hd \<open>_ = _ \<longleftrightarrow> length bs = length vs\<close>
      by (simp add: bytes_eq_int_def and_80 shift_in_range_eq [OF e] flip: buf_bytes_def bs_def)
  qed
  then show ?thesis by (simp add: bs_def vs_def)
qed

lemma int_bytes_inj: "int_bytes m = int_bytes n \<longleftrightarrow> m = n"
  by (metis be_signed_int_bytes)

lemma rep_atom_eq:
  "rep a p (CAtom bs) \<Longrightarrow> rep a q (CAtom cs) \<Longrightarrow> atom_eq a p q = Ok (bs = cs)"
  by (elim rep_CAtomE)
     (auto simp: atom_eq_def object_type_kind buf_ok_range node_idx_def bytes_eq_int_eq index_unat int_bytes_inj word_uint_eq_iff [of "index p"])

text \<open>Following a pair goes to a node allocated before it.\<close>

lemma rep_pair_idx: "rep a n (CPair l r) \<Longrightarrow> node_below a i n \<Longrightarrow> node_idx n < i"
  by (auto simp: node_below_def elim: rep_CPairE)

lemma rep_pair_below:
  assumes "alloc_ok a" "rep a n (CPair l r)"
  shows "node_below a (node_idx n) (pfirst a n)" "node_below a (node_idx n) (prest a n)"
  using assms by (auto simp: alloc_ok_def pfirst_def prest_def elim!: rep_CPairE)

text \<open>The items and the terminator of a CLVM list.\<close>

fun citems :: "clvm \<Rightarrow> clvm list" where
  "citems (CAtom bs) = []"
| "citems (CPair l r) = l # citems r"

fun cend :: "clvm \<Rightarrow> bytes" where
  "cend (CAtom bs) = bs"
| "cend (CPair l r) = cend r"

fun node_items :: "Allocator \<Rightarrow> NodePtr \<Rightarrow> clvm \<Rightarrow> NodePtr list" where
  "node_items a n (CAtom bs) = []"
| "node_items a n (CPair l r) = pfirst a n # node_items a (prest a n) r"

fun node_end :: "Allocator \<Rightarrow> NodePtr \<Rightarrow> clvm \<Rightarrow> NodePtr" where
  "node_end a n (CAtom bs) = n"
| "node_end a n (CPair l r) = node_end a (prest a n) r"

lemma rep_node_items: "rep a n t \<Longrightarrow> list_all2 (rep a) (node_items a n t) (citems t)"
  by (induction t arbitrary: n) (auto dest: rep_pfirst rep_prest)

lemma rep_node_end: "rep a n t \<Longrightarrow> rep a (node_end a n t) (CAtom (cend t))"
  by (induction t arbitrary: n) (auto dest: rep_prest)

text \<open>
  A loop over a list visits the items; its fuel is enough on every well-formed allocator.
\<close>

fun foldR :: "('b \<Rightarrow> 's \<Rightarrow> ('e, 's) outcome) \<Rightarrow> 'b list \<Rightarrow> 's \<Rightarrow> ('e, 's) outcome" where
  "foldR f [] s = Ok s"
| "foldR f (x # xs) s = bindR (f x s) (foldR f xs)"

lemma while_fuel_rep:
  assumes ok: "alloc_ok a"
  shows "rep a n t \<Longrightarrow> node_below a i n \<Longrightarrow> i < k \<Longrightarrow> while_fuel k a n s f = foldR f (node_items a n t) s"
proof (induction t arbitrary: n i k s)
  case (CAtom bs)
  then show ?case by (cases k) (auto simp: rep_next_atom)
next
  case (CPair l r)
  from CPair.prems obtain k' where k: "k = Suc k'" by (cases k) auto
  have lt: "node_idx n < k'" using rep_pair_idx [OF CPair.prems(1,2)] CPair.prems(3) k by simp
  have "while_fuel k' a (prest a n) s' f = foldR f (node_items a (prest a n) r) s'" for s'
    using CPair.IH(2) [OF rep_prest [OF CPair.prems(1)] rep_pair_below(2) [OF ok CPair.prems(1)] lt] .
  then show ?case using k CPair.prems(1) by (cases "f (pfirst a n) s") (simp_all add: rep_next_pair)
qed

lemma while_next_rep:
  assumes "alloc_ok a" "rep a n t"
  shows "while_next a n s f = foldR f (node_items a n t) s"
  unfolding while_next_def using assms rep_node_ok [OF assms(2)] by (intro while_fuel_rep) auto

section \<open>Allocation keeps what was allocated\<close>

named_theorems ext_intros \<open>operations that only append to the allocator\<close>

lemma extends_tryR [ext_intros]:
  "(\<And>x. m = Ok x \<Longrightarrow> extends a (snd (f x))) \<Longrightarrow> extends a (snd (tryR m a f))"
  by (cases m) auto

lemma extends_tryS [ext_intros]:
  "extends a (snd m) \<Longrightarrow> (\<And>x a'. m = (Ok x, a') \<Longrightarrow> extends a' (snd (f x a'))) \<Longrightarrow> extends a (snd (tryS m f))"
  by (cases "(m, f)" rule: tryS.cases) (auto intro: extends_trans)

lemma extends_new_atom [ext_intros]: "extends a (snd (new_atom a v))"
  by (auto simp: new_atom_def Let_def intro!: extends_tryR split: option.splits) (auto simp: extends_def)

lemma extends_new_small_number [ext_intros]: "extends a (snd (new_small_number a v))"
  by (auto simp: new_small_number_def intro!: extends_tryR) (auto simp: extends_def)

lemma extends_new_number [ext_intros]: "extends a (snd (new_number B a v))"
  by (auto simp: new_number_def intro: ext_intros split: option.splits)

lemma extends_new_pair [ext_intros]: "extends a (snd (new_pair a x y))"
  by (auto simp: new_pair_def Let_def extends_def)

lemma extends_new_g1 [ext_intros]: "extends a (snd (new_g1 E a v))"
  by (simp add: new_g1_def extends_new_atom)

lemma extends_new_g2 [ext_intros]: "extends a (snd (new_g2 E a v))"
  by (simp add: new_g2_def extends_new_atom)

lemma extends_new_substr [ext_intros]: "extends a (snd (new_substr a n s e))"
  by (auto simp: new_substr_def Let_def intro!: extends_tryR split: option.splits ObjectType.splits)
     (auto simp: extends_def)

text \<open>
  Between the start of \<open>new_concat\<close> and the loop's end the byte vector grows past \<open>start\<close>
  and nothing else changes; an error truncates it back.
\<close>

lemma concat_loop_extends:
  "start \<le> length (u8_vec a) \<Longrightarrow> take start (u8_vec a) = us \<Longrightarrow>
   \<exists>vs. snd (new_concat_loop start new_size a c ns) = a\<lparr> u8_vec := us @ vs \<rparr>"
proof (induction ns arbitrary: a c)
  case Nil
  have "u8_vec a = us @ drop start (u8_vec a)" using Nil by auto
  then show ?case by (auto intro!: exI [of _ "drop start (u8_vec a)"])
next
  case (Cons n ns)
  have a: "a = a\<lparr> u8_vec := us @ drop start (u8_vec a) \<rparr>" using Cons.prems by auto
  have step: "\<exists>vs. snd (new_concat_loop start new_size (a\<lparr> u8_vec := u8_vec a @ bs \<rparr>) c' ns) = a\<lparr> u8_vec := us @ vs \<rparr>"
    for bs c' using Cons.IH [of "a\<lparr> u8_vec := u8_vec a @ bs \<rparr>" c'] Cons.prems by auto
  have tryR: "\<exists>vs. snd (tryR m a f) = a\<lparr> u8_vec := us @ vs \<rparr>"
    if "\<And>x. m = Ok x \<Longrightarrow> \<exists>vs. snd (f x) = a\<lparr> u8_vec := us @ vs \<rparr>"
    for m :: "'x eval" and f :: "'x \<Rightarrow> nat eval \<times> Allocator"
    using that a by (cases m) auto
  show ?case
    by (auto simp: Let_def Cons.prems intro!: tryR step split: ObjectType.splits) (auto intro: exI [of _ "[]"])
qed

lemma extends_new_concat [ext_intros]: "extends a (snd (new_concat a n ns))"
proof -
  have ext: "extends a (a\<lparr> u8_vec := u8_vec a @ vs \<rparr>)"
       "extends (a\<lparr> u8_vec := u8_vec a @ vs \<rparr>) (a\<lparr> u8_vec := u8_vec a @ vs, atom_vec := atom_vec a @ bs \<rparr>)"
    "extends a (a\<lparr> u8_vec := u8_vec a @ vs, atom_vec := atom_vec a @ bs \<rparr>)" for vs bs
    by (auto simp: extends_def)
  obtain vs where vs: "snd (new_concat_loop (length (u8_vec a)) n a 0 ns) = a\<lparr> u8_vec := u8_vec a @ vs \<rparr>"
    using concat_loop_extends [of "length (u8_vec a)" a "u8_vec a" n 0 ns] by auto
  show ?thesis
  proof (cases "new_concat_loop (length (u8_vec a)) n a 0 ns")
    case (Pair r a')
    then have a': "a' = a\<lparr> u8_vec := u8_vec a @ vs \<rparr>" using vs by simp
    show ?thesis unfolding new_concat_def Let_def
      by (rule extends_tryR) (cases r; simp add: Pair a' ext extends_refl)
  qed
qed

lemma restore_checkpoint_extends:
  "extends a a' \<Longrightarrow> restore_checkpoint a' (checkpoint a) = (Ok (), a)"
  by (auto simp: extends_def restore_checkpoint_def checkpoint_def)

section \<open>Safety\<close>

definition safe :: "(Allocator \<Rightarrow> 'a \<Rightarrow> bool) \<Rightarrow> (clvm \<times> string) set \<Rightarrow> 'a eval \<times> Allocator \<Rightarrow> bool" where
  "safe Q R m \<longleftrightarrow>
     (heap_ok (snd m) \<longrightarrow> alloc_ok (snd m) \<and>
      (case fst m of Ok x \<Rightarrow> Q (snd m) x | Err e \<Rightarrow> (\<exists>t. (t, err_msg e) \<in> R \<and> rep (snd m) (err_node e) t) | Panic _ \<Rightarrow> False))"

text \<open>The resource errors, reported at the nil node.\<close>

definition alloc_msgs :: "(clvm \<times> string) set" where
  "alloc_msgs = {(CAtom [], ''out of memory''), (CAtom [], ''too many atoms''), (CAtom [], ''too many pairs'')}"

lemma safe_Ok: "alloc_ok a \<Longrightarrow> Q a x \<Longrightarrow> safe Q R (Ok x, a)"
  by (simp add: safe_def)

lemma safe_Ok_iff: "safe Q R (Ok x, a) \<longleftrightarrow> (heap_ok a \<longrightarrow> alloc_ok a \<and> Q a x)"
  by (simp add: safe_def)

lemma safe_err: "alloc_ok a \<Longrightarrow> rep a n t \<Longrightarrow> (t, s) \<in> R \<Longrightarrow> safe Q R (err n s, a)"
  by (auto simp: safe_def err_def)

lemma safe_mono: "safe Q R m \<Longrightarrow> (\<And>x. fst m = Ok x \<Longrightarrow> alloc_ok (snd m) \<Longrightarrow> Q (snd m) x \<Longrightarrow> Q' (snd m) x) \<Longrightarrow>
  R \<subseteq> R' \<Longrightarrow> safe Q' R' m"
  by (auto simp: safe_def split: outcome.splits)

lemma safe_tryR:
  assumes "safe P R (m, a)" "\<And>x. m = Ok x \<Longrightarrow> extends a (snd (f x))"
    "\<And>x. m = Ok x \<Longrightarrow> alloc_ok a \<Longrightarrow> P a x \<Longrightarrow> safe Q R (f x)"
  shows "safe Q R (tryR m a f)"
proof (cases m)
  case (Ok x)
  then have "heap_ok (snd (f x)) \<Longrightarrow> heap_ok a" using assms(2) extends_heap_ok by blast
  then show ?thesis using assms(1) assms(3) [OF Ok] Ok by (auto simp: safe_def)
qed (use assms(1) in \<open>auto simp: safe_def\<close>)

lemma safe_tryS:
  assumes "safe P R m" "\<And>x a'. m = (Ok x, a') \<Longrightarrow> extends a' (snd (f x a'))"
    "\<And>x a'. m = (Ok x, a') \<Longrightarrow> alloc_ok a' \<Longrightarrow> P a' x \<Longrightarrow> safe Q R (f x a')"
  shows "safe Q R (tryS m f)"
proof (cases m)
  case (Pair r a')
  show ?thesis
  proof (cases r)
    case (Ok x)
    then have "heap_ok (snd (f x a')) \<Longrightarrow> heap_ok a'" using assms(2) Pair extends_heap_ok by blast
    then show ?thesis using assms(1) assms(3) [of x a'] Pair Ok by (auto simp: safe_def)
  qed (use assms(1) Pair in \<open>auto simp: safe_def\<close>)
qed

lemma node_NIL_kind [simp]: "node_kind node_NIL = Some OSmallAtom" "node_idx node_NIL = 0" "index node_NIL = 0"
  by (simp_all add: node_NIL_def)

lemma node_ok_NIL [simp]: "node_below a i node_NIL"
  by (simp add: node_below_def)

lemma nil_eq [simp]: "nil a = node_NIL"
  by (simp add: nil_def node_NIL_def)

lemma rep_small_new: "i < 67108864 \<Longrightarrow> rep a (node_new OSmallAtom i) (CAtom (int_bytes (int i)))"
  by (intro rep.rep_small) (simp_all add: unat_of_nat uint_nat)

lemma int_bytes_0 [simp]: "int_bytes 0 = []"
  using len_for_value_eq [of 0] by (simp add: len_for_value_def)

lemma int_bytes_1 [simp]: "int_bytes 1 = [1]"
  using int_bytes_be_signed [of "[1]"] by (simp add: be_signed_def be_nat_Cons)

lemma rep_NIL [simp]: "rep a node_NIL (CAtom [])"
  using rep_small_new [of 0 a] by (simp add: node_NIL_def)

lemma safe_err_NIL: "alloc_ok a \<Longrightarrow> (CAtom [], s) \<in> R \<Longrightarrow> safe Q R (err node_NIL s, a)"
  by (rule safe_err [OF _ rep_NIL])

lemma safe_err_nil: "alloc_ok a \<Longrightarrow> (CAtom [], s) \<in> R \<Longrightarrow> safe Q R (err (nil a) s, a)"
  by (simp add: safe_err_NIL)

lemma rep_one: "rep a (one a) (CAtom [1])"
  using rep_small_new [of 1 a] by (simp add: one_def)

lemma safe_check_atom_limit:
  "alloc_ok a \<Longrightarrow> (CAtom [], ''too many atoms'') \<in> R \<Longrightarrow>
   safe (\<lambda>a _. length (atom_vec a) + small_atoms a < MAX_NUM_ATOMS) R (check_atom_limit a, a)"
  by (auto simp: check_atom_limit_def intro!: safe_err safe_Ok) (auto simp: alloc_ok_def)

lemma node_below_cong: "node_below a i p \<Longrightarrow> length (atom_vec a) \<le> length (atom_vec a') \<Longrightarrow> node_below a' i p"
  by (auto simp: node_below_def split: option.splits ObjectType.splits)

lemma alloc_ok_small:
  "alloc_ok a \<Longrightarrow> length (atom_vec a) + small_atoms a < MAX_NUM_ATOMS \<Longrightarrow> alloc_ok (a\<lparr> small_atoms := small_atoms a + 1 \<rparr>)"
  by (auto simp: alloc_ok_def heap_ok_def buf_ok_def intro: node_below_cong [of a])

lemma alloc_ok_bytes:
  assumes "alloc_ok a" "length (u8_vec a @ us) \<le> u32_max"
  shows "alloc_ok (a\<lparr> u8_vec := u8_vec a @ us \<rparr>)"
  using assms by (auto simp: alloc_ok_def heap_ok_def buf_ok_def intro: node_below_cong [of a])

lemma alloc_ok_atom:
  assumes "alloc_ok a" "length (atom_vec a) + small_atoms a < MAX_NUM_ATOMS" "buf_ok a b"
  shows "alloc_ok (a\<lparr> atom_vec := atom_vec a @ [b] \<rparr>)"
proof -
  let ?a = "a\<lparr> atom_vec := atom_vec a @ [b] \<rparr>"
  have "node_below a i p \<Longrightarrow> node_below ?a i p" for i p by (erule node_below_cong) simp
  moreover have "buf_ok ?a c \<longleftrightarrow> buf_ok a c" for c by (simp add: buf_ok_def)
  ultimately show ?thesis using assms by (auto simp: alloc_ok_def heap_ok_def)
qed

lemma alloc_ok_atoms_less: "alloc_ok a \<Longrightarrow> length (atom_vec a) < 67108864"
  by (simp add: alloc_ok_def MAX_NUM_ATOMS_def)

lemma alloc_ok_pairs_less: "alloc_ok a \<Longrightarrow> length (pair_vec a) < 67108864"
  by (simp add: alloc_ok_def MAX_NUM_PAIRS_def)

lemma rep_new_buf:
  "alloc_ok a \<Longrightarrow> buf_ok a b \<Longrightarrow>
   rep (a\<lparr> atom_vec := atom_vec a @ [b] \<rparr>) (node_new OBytes (length (atom_vec a))) (CAtom (buf_bytes a b))"
  using alloc_ok_atoms_less [of a] by (intro rep.rep_buf) (simp_all add: buf_ok_def buf_bytes_def)

lemma safe_new_pair:
  assumes "alloc_ok a" "rep a x l" "rep a y r" "(CAtom [], ''too many pairs'') \<in> R"
  shows "safe (\<lambda>a' p. extends a a' \<and> rep a' p (CPair l r)) R (new_pair a x y)"
proof (cases "length (pair_vec a) = MAX_NUM_PAIRS")
  case True
  then show ?thesis using assms by (auto simp: new_pair_def intro!: safe_err)
next
  case False
  let ?a = "a\<lparr> pair_vec := pair_vec a @ [\<lparr> ip_first = x, ip_rest = y \<rparr>] \<rparr>"
  have ext: "extends a ?a" by (auto simp: extends_def)
  have "node_below a i p \<Longrightarrow> node_below ?a i p" for i p by (erule node_below_cong) simp
  moreover have "buf_ok ?a c \<longleftrightarrow> buf_ok a c" for c by (simp add: buf_ok_def)
  ultimately have "alloc_ok ?a"
    using assms False rep_node_ok [OF assms(2)] rep_node_ok [OF assms(3)]
    by (auto simp: alloc_ok_def heap_ok_def nth_append less_Suc_eq_le)
  moreover have "rep ?a (node_new OPair (length (pair_vec a))) (CPair l r)"
    using alloc_ok_pairs_less [OF assms(1)] rep_extends [OF assms(2) ext] rep_extends [OF assms(3) ext]
    by (intro rep.rep_pair) simp_all
  ultimately show ?thesis using False ext by (auto simp: new_pair_def Let_def intro!: safe_Ok)
qed

lemma safe_new_small_number:
  assumes "alloc_ok a" "unat v < 67108864" "(CAtom [], ''too many atoms'') \<in> R"
  shows "safe (\<lambda>a' p. extends a a' \<and> rep a' p (CAtom (int_bytes (uint v)))) R (new_small_number a v)"
  unfolding new_small_number_def
proof (rule safe_tryR [OF safe_check_atom_limit [OF assms(1,3)]])
  have e: "extends a (a\<lparr> small_atoms := small_atoms a + 1 \<rparr>)" by (simp add: extends_def)
  then show "extends a (snd (Ok (node_new OSmallAtom (unat v)) :: NodePtr eval, a\<lparr>small_atoms := small_atoms a + 1\<rparr>))" by simp
  assume "length (atom_vec a) + small_atoms a < MAX_NUM_ATOMS"
  with assms(1) have "alloc_ok (a\<lparr> small_atoms := small_atoms a + 1 \<rparr>)" by (rule alloc_ok_small)
  then show "safe (\<lambda>a' p. extends a a' \<and> rep a' p (CAtom (int_bytes (uint v)))) R
      (Ok (node_new OSmallAtom (unat v)), a\<lparr>small_atoms := small_atoms a + 1\<rparr>)"
    using e rep_small_new [OF assms(2)] by (intro safe_Ok) simp_all
qed

lemma unat_of_nat_u32: "n \<le> u32_max \<Longrightarrow> unat (of_nat n :: u32) = n"
  by (simp add: unat_of_nat u32_max_def)

lemma appended_buf:
  assumes "length (u8_vec a @ v) \<le> u32_max"
  shows "buf_ok (a\<lparr> u8_vec := u8_vec a @ v \<rparr>)
      \<lparr> ab_start = of_nat (length (u8_vec a)), ab_end = of_nat (length (u8_vec a @ v)) \<rparr>"
    and "buf_bytes (a\<lparr> u8_vec := u8_vec a @ v \<rparr>)
      \<lparr> ab_start = of_nat (length (u8_vec a)), ab_end = of_nat (length (u8_vec a @ v)) \<rparr> = v"
  using assms unat_of_nat_u32 [of "length (u8_vec a)"] unat_of_nat_u32 [of "length (u8_vec a @ v)"]
  by (simp_all add: buf_ok_def buf_bytes_def)

text \<open>Appending bytes and an atom that spans them.\<close>

lemma safe_append_atom:
  assumes a: "alloc_ok a" and l: "length (atom_vec a) + small_atoms a < MAX_NUM_ATOMS"
  shows "safe (\<lambda>a' p. extends a a' \<and> rep a' p (CAtom v)) R
    (Ok (node_new OBytes (length (atom_vec a))),
     a\<lparr> u8_vec := u8_vec a @ v, atom_vec := atom_vec a @
         [\<lparr> ab_start = of_nat (length (u8_vec a)), ab_end = of_nat (length (u8_vec a @ v)) \<rparr>] \<rparr>)"
proof -
  let ?b = "\<lparr> ab_start = of_nat (length (u8_vec a)), ab_end = of_nat (length (u8_vec a @ v)) \<rparr>"
  let ?a1 = "a\<lparr> u8_vec := u8_vec a @ v \<rparr>"
  let ?a2 = "a\<lparr> u8_vec := u8_vec a @ v, atom_vec := atom_vec a @ [?b] \<rparr>"
  have a2: "?a2 = ?a1\<lparr> atom_vec := atom_vec ?a1 @ [?b] \<rparr>" by simp
  have e: "extends a ?a2" by (auto simp: extends_def)
  have "alloc_ok ?a2 \<and> rep ?a2 (node_new OBytes (length (atom_vec a))) (CAtom v)" if "heap_ok ?a2"
  proof -
    have h: "length (u8_vec a @ v) \<le> u32_max" using that by (simp add: heap_ok_def)
    have a1: "alloc_ok ?a1" using a h by (rule alloc_ok_bytes)
    note b = appended_buf [OF h]
    have "alloc_ok ?a2" unfolding a2 using l by (intro alloc_ok_atom a1 b) simp
    moreover have "rep ?a2 (node_new OBytes (length (atom_vec ?a1))) (CAtom (buf_bytes ?a1 ?b))"
      unfolding a2 by (rule rep_new_buf [OF a1 b(1)])
    ultimately show ?thesis by (simp only: b(2)) simp
  qed
  then show ?thesis using e by (simp add: safe_Ok_iff)
qed

lemma safe_bump_small:
  assumes "alloc_ok a" "length (atom_vec a) + small_atoms a < MAX_NUM_ATOMS" "fits_in_small_atom v = Some w"
  shows "safe (\<lambda>a' p. extends a a' \<and> rep a' p (CAtom v)) R
     (Ok (node_new OSmallAtom (unat w)), a\<lparr> small_atoms := small_atoms a + 1 \<rparr>)"
  using assms fits_in_small_atom_Some [OF assms(3)] rep_small_new [of "unat w"]
  by (intro safe_Ok alloc_ok_small) (auto simp: extends_def)

lemma safe_new_atom:
  assumes "alloc_ok a" "alloc_msgs \<subseteq> R"
  shows "safe (\<lambda>a' p. extends a a' \<and> rep a' p (CAtom v)) R (new_atom a v)"
proof -
  have R: "(CAtom [], ''out of memory'') \<in> R" "(CAtom [], ''too many atoms'') \<in> R" using assms(2) by (auto simp: alloc_msgs_def)
  have u: "unat (of_nat (length (u8_vec a)) :: u32) = length (u8_vec a)"
    using assms(1) by (intro unat_of_nat_u32) (simp add: alloc_ok_def heap_ok_def)
  show ?thesis
    unfolding new_atom_def Let_def
  proof (split if_split, intro conjI impI)
    assume "usize_sub (heap_limit a) (unat (of_nat (length (u8_vec a)) :: u32)) < length v"
    then show "safe (\<lambda>a' p. extends a a' \<and> rep a' p (CAtom v)) R (err (nil a) ''out of memory'', a)"
      using assms R by (intro safe_err) auto
  next
    show "safe (\<lambda>a' p. extends a a' \<and> rep a' p (CAtom v)) R
     (tryR (check_atom_limit a) a
       (\<lambda>_. case fits_in_small_atom v of
             None \<Rightarrow> (Ok (node_new OBytes (length (atom_vec a))),
                a\<lparr>u8_vec := u8_vec a @ v, atom_vec := atom_vec a @
                   [\<lparr>ab_start = of_nat (length (u8_vec a)), ab_end = of_nat (length (u8_vec a @ v))\<rparr>]\<rparr>)
           | Some ret \<Rightarrow> (Ok (node_new OSmallAtom (unat ret)), a\<lparr>small_atoms := small_atoms a + 1\<rparr>)))"
      apply (rule safe_tryR [OF safe_check_atom_limit [OF assms(1) R(2)]])
      subgoal by (auto simp: extends_def split: option.split)
      subgoal by (split option.split, intro conjI allI impI safe_append_atom safe_bump_small assms; assumption)
      done
  qed
qed

lemma strip_zeros_canonical: "canonical v \<Longrightarrow> strip_zeros v = v"
  by (cases v rule: canonical.cases) (auto simp: and_80_eq)

lemma strip_to_signed: "bigint_laws B \<Longrightarrow> strip_zeros (to_signed_bytes_be B n) = int_bytes n"
  by (simp add: bigint_laws.to_signed_eq strip_zeros_canonical)

lemma safe_new_number:
  assumes "bigint_laws B" "alloc_ok a" "alloc_msgs \<subseteq> R"
  shows "safe (\<lambda>a' p. extends a a' \<and> rep a' p (CAtom (int_bytes n))) R (new_number B a n)"
proof (cases "0 \<le> n \<and> n < 2 ^ 32 \<and> (of_int n :: u32) \<le> NODE_PTR_IDX_MASK")
  case True
  then have "unat (of_int n :: u32) < 67108864" by (simp add: word_le_nat_alt)
  moreover have "uint (of_int n :: u32) = n" using True by (simp add: uint_word_of_int)
  ultimately show ?thesis
    using safe_new_small_number [OF assms(2), of "of_int n" R] assms(3) True
    by (simp add: new_number_def to_u32_def alloc_msgs_def)
next
  case False
  then have "new_number B a n = new_atom a (int_bytes n)"
    using strip_to_signed [OF assms(1)] by (auto simp: new_number_def to_u32_def)
  then show ?thesis using safe_new_atom [OF assms(2,3)] by simp
qed

lemma buf_ok_slice: "buf_ok a b \<Longrightarrow> slice (u8_vec a) (unat (ab_start b)) (unat (ab_end b)) = Ok (buf_bytes a b)"
  by (simp add: buf_ok_def buf_bytes_def slice_def)

lemma rep_atom_cases:
  assumes "rep a p (CAtom bs)"
  obtains (buf) "node_kind p = Some OBytes" "node_idx p < length (atom_vec a)" "buf_ok a (atom_vec a ! node_idx p)"
      "bs = buf_bytes a (atom_vec a ! node_idx p)"
    | (small) "node_kind p = Some OSmallAtom" "bs = int_bytes (uint (index p))"
  using assms by (elim rep_CAtomE)

lemma concat_loop_rep:
  assumes "list_all2 (\<lambda>n bs. rep a n (CAtom bs)) ns bss" "c + length (concat bss) \<le> new_size"
  shows "new_concat_loop start new_size (a\<lparr> u8_vec := u8_vec a @ vs \<rparr>) c ns =
    (Ok (c + length (concat bss)), a\<lparr> u8_vec := u8_vec a @ vs @ concat bss \<rparr>)"
  using assms
proof (induction arbitrary: c vs rule: list_all2_induct)
  case (Cons n ns bs bss)
  let ?a = "a\<lparr> u8_vec := u8_vec a @ vs \<rparr>"
  have "extends a ?a" by (simp add: extends_def)
  then have "rep ?a n (CAtom bs)" using Cons.hyps rep_extends by blast
  then show ?case
  proof (cases rule: rep_atom_cases)
    case buf
    note slice = buf_ok_slice [OF buf(3)]
    show ?thesis
      using buf Cons.IH [of "c + length bs" "vs @ bs"] Cons.prems buf_ok_len [OF buf(3)] slice [simplified]
      by (simp add: object_type_kind slice [simplified, unfolded node_idx_def] node_idx_def)
  next
    case small
    then show ?thesis
      using Cons.IH [of "c + length bs" "vs @ bs"] Cons.prems
      by (simp add: object_type_kind node_idx_def Let_def small_atom_buf_eq index_unat len_for_value_eq)
  qed
qed simp

lemma safe_new_concat:
  assumes a: "alloc_ok a" and R: "alloc_msgs \<subseteq> R" and ns: "list_all2 (\<lambda>n bs. rep a n (CAtom bs)) ns bss"
    and n: "n = length (concat bss)"
  shows "safe (\<lambda>a' p. extends a a' \<and> rep a' p (CAtom (concat bss))) R (new_concat a n ns)"
proof -
  have R': "(CAtom [], ''out of memory'') \<in> R" "(CAtom [], ''too many atoms'') \<in> R" using R by (auto simp: alloc_msgs_def)
  have "new_concat_loop (length (u8_vec a)) n a 0 ns = (Ok n, a\<lparr> u8_vec := u8_vec a @ concat bss \<rparr>)"
    using concat_loop_rep [OF ns, of 0 n "length (u8_vec a)" "[]"] n by simp
  then have body: "new_concat a n ns = tryR (check_atom_limit a) a (\<lambda>_.
      if usize_sub (heap_limit a) (length (u8_vec a)) < n then (err (nil a) ''out of memory'', a)
      else (Ok (node_new OBytes (length (atom_vec a))),
     a\<lparr> u8_vec := u8_vec a @ concat bss, atom_vec := atom_vec a @
         [\<lparr> ab_start = of_nat (length (u8_vec a)), ab_end = of_nat (length (u8_vec a @ concat bss)) \<rparr>] \<rparr>))"
    by (simp add: new_concat_def Let_def)
  show ?thesis unfolding body
    apply (rule safe_tryR [OF safe_check_atom_limit [OF a R'(2)]])
    subgoal by (auto simp: extends_def)
    subgoal by (split if_split, intro conjI impI safe_append_atom safe_err_nil a R'; simp)
    done
qed

text \<open>What \<open>new_substr\<close> promises, on the bytes of the atom.\<close>

definition substr_spec :: "bytes \<Rightarrow> nat \<Rightarrow> nat \<Rightarrow> string + bytes" where
  "substr_spec bs s e =
     (if s > length bs then Inl ''substr start out of bounds''
      else if e > length bs then Inl ''substr end out of bounds''
      else if e < s then Inl ''substr invalid bounds''
      else Inr (take (e - s) (drop s bs)))"

lemma bounds_check_spec:
  assumes "unat len = length bs"
  shows "bounds_check n s e len =
    (case substr_spec bs (unat s) (unat e) of Inl msg \<Rightarrow> err n msg | Inr v \<Rightarrow> Ok ())"
  using assms by (auto simp: bounds_check_def substr_spec_def word_less_nat_alt)

lemma substr_spec_Inr:
  "substr_spec bs s e = Inr v \<longleftrightarrow> s \<le> e \<and> e \<le> length bs \<and> v = take (e - s) (drop s bs)"
  by (auto simp: substr_spec_def)

lemma sub_buf:
  assumes b: "buf_ok a b" and v: "substr_spec (buf_bytes a b) (unat s) (unat e) = Inr v"
  shows "buf_ok a \<lparr> ab_start = ab_start b + s, ab_end = ab_start b + e \<rparr>"
    and "buf_bytes a \<lparr> ab_start = ab_start b + s, ab_end = ab_start b + e \<rparr> = v"
proof -
  have len: "length (buf_bytes a b) = unat (ab_end b) - unat (ab_start b)"
    using b by (auto simp: buf_bytes_def buf_ok_def)
  have se: "unat s \<le> unat e" "unat (ab_start b) + unat e \<le> unat (ab_end b)"
    and v': "v = take (unat e - unat s) (drop (unat s) (buf_bytes a b))"
    using v b len by (auto simp: substr_spec_Inr buf_ok_def)
  have "unat (ab_start b) + unat s < 4294967296" "unat (ab_start b) + unat e < 4294967296"
    using se unat_u32_less [of "ab_end b"] by linarith+
  then have add: "unat (ab_start b + s) = unat (ab_start b) + unat s" "unat (ab_start b + e) = unat (ab_start b) + unat e"
    by (simp_all add: unat_word_ariths)
  then show "buf_ok a \<lparr> ab_start = ab_start b + s, ab_end = ab_start b + e \<rparr>"
    using se b by (simp add: buf_ok_def)
  show "buf_bytes a \<lparr> ab_start = ab_start b + s, ab_end = ab_start b + e \<rparr> = v"
    using add se v' by (simp add: buf_bytes_def drop_take add.commute min_def)
qed

text \<open>With room for an atom, wrong bounds are an error and right ones give the bytes between them.\<close>

lemma new_substr_wrong:
  assumes n: "rep a n (CAtom bs)" and l: "length (atom_vec a) + small_atoms a < MAX_NUM_ATOMS"
    and sp: "substr_spec bs (unat s) (unat e) = Inl msg"
  shows "new_substr a n s e = (err n msg, a)"
  using n
proof (cases rule: rep_atom_cases)
  case buf
  have "unat (ab_end (atom_vec a ! node_idx n) - ab_start (atom_vec a ! node_idx n)) = length bs"
    using buf_ok_len [OF buf(3)] buf(4) by (simp add: ab_len_def)
  then show ?thesis using buf l bounds_check_spec [of _ bs n s e] sp
    by (simp add: new_substr_def check_atom_limit_def object_type_kind node_idx_def err_def)
next
  case small
  then have "unat (of_nat (len_for_value (index n)) :: u32) = length bs"
    by (simp add: len_for_value_eq [symmetric] unat_of_nat) (simp add: len_for_value_def)
  then show ?thesis using small l bounds_check_spec [of _ bs n s e] sp
    by (simp add: new_substr_def check_atom_limit_def object_type_kind node_idx_def err_def)
qed

lemma safe_substr_small:
  assumes a: "alloc_ok a" and n: "node_kind n = Some OSmallAtom" "bs = int_bytes (uint (index n))"
    and l: "length (atom_vec a) + small_atoms a < MAX_NUM_ATOMS" and sp: "substr_spec bs (unat s) (unat e) = Inr v"
  shows "safe (\<lambda>a' p. extends a a' \<and> rep a' p (CAtom v)) R (new_substr a n s e)"
proof -
  have len: "unat (of_nat (len_for_value (index n)) :: u32) = length bs"
    using n by (simp add: len_for_value_eq [symmetric] unat_of_nat) (simp add: len_for_value_def)
  have bnd: "unat s \<le> unat e" "unat e \<le> length bs" "v = take (unat e - unat s) (drop (unat s) bs)"
    using sp by (simp_all add: substr_spec_Inr)
  have v: "take (unat e - unat s) (drop (unat s) (int_bytes (uint (index n)))) = v" using bnd n(2) by simp
  have eq: "new_substr a n s e =
    (case fits_in_small_atom v of
       Some new_val \<Rightarrow> (Ok (node_new OSmallAtom (unat new_val)), a\<lparr> small_atoms := small_atoms a + 1 \<rparr>)
     | None \<Rightarrow> (Ok (node_new OBytes (length (atom_vec a))),
           a\<lparr> u8_vec := u8_vec a @ v, atom_vec := atom_vec a @
              [\<lparr> ab_start = of_nat (length (u8_vec a)), ab_end = of_nat (length (u8_vec a @ v)) \<rparr>] \<rparr>))"
    using n l bounds_check_spec [OF len, of n s e] sp bnd(1,2)
    by (cases "fits_in_small_atom v")
       (simp_all add: new_substr_def check_atom_limit_def object_type_kind small_atom_buf_eq index_unat slice_Ok
          Let_def v)
  show ?thesis unfolding eq
    by (split option.split, intro conjI allI impI safe_append_atom safe_bump_small a l; assumption)
qed

lemma safe_substr_right:
  assumes a: "alloc_ok a" and n: "rep a n (CAtom bs)" and l: "length (atom_vec a) + small_atoms a < MAX_NUM_ATOMS"
    and sp: "substr_spec bs (unat s) (unat e) = Inr v"
  shows "safe (\<lambda>a' p. extends a a' \<and> rep a' p (CAtom v)) R (new_substr a n s e)"
  using n
proof (cases rule: rep_atom_cases)
  case buf
  let ?b = "atom_vec a ! node_idx n"
  let ?c = "\<lparr> ab_start = ab_start ?b + s, ab_end = ab_start ?b + e \<rparr>"
  have "unat (ab_end ?b - ab_start ?b) = length bs"
    using buf_ok_len [OF buf(3)] buf(4) by (simp add: ab_len_def)
  then have eq: "new_substr a n s e = (Ok (node_new OBytes (length (atom_vec a))), a\<lparr> atom_vec := atom_vec a @ [?c] \<rparr>)"
    using buf l bounds_check_spec [of _ bs n s e] sp
    by (simp add: new_substr_def check_atom_limit_def object_type_kind node_idx_def)
  have c: "buf_ok a ?c" "buf_bytes a ?c = v" using sub_buf [OF buf(3), of s e v] sp buf(4) by auto
  show ?thesis using extends_new_substr [of a n s e] unfolding eq
    by (intro safe_Ok alloc_ok_atom a l c) (use rep_new_buf [OF a c(1)] c(2) in simp)
next
  case small
  then show ?thesis using safe_substr_small [OF a _ _ l sp] by simp
qed

lemma safe_new_substr:
  assumes a: "alloc_ok a" and n: "rep a n (CAtom bs)" and R: "(CAtom [], ''too many atoms'') \<in> R"
    and spec: "sp = substr_spec bs (unat s) (unat e)" "\<And>msg. sp = Inl msg \<Longrightarrow> (CAtom bs, msg) \<in> R"
  shows "safe (\<lambda>a' p. extends a a' \<and> (\<exists>v. sp = Inr v \<and> rep a' p (CAtom v))) R (new_substr a n s e)"
proof (cases "length (atom_vec a) + small_atoms a < MAX_NUM_ATOMS")
  case True
  show ?thesis
  proof (cases sp)
    case (Inl msg)
    then show ?thesis using new_substr_wrong [OF n True, of s e msg] safe_err [OF a n spec(2) [OF Inl]] spec(1) by simp
  next
    case (Inr v)
    then show ?thesis using safe_mono [OF safe_substr_right [OF a n True, of s e v R]] spec(1) by auto
  qed
next
  case False
  then have "new_substr a n s e = (err (nil a) ''too many atoms'', a)"
    using a by (simp add: new_substr_def check_atom_limit_def alloc_ok_def err_def)
  then show ?thesis using a R by (simp add: safe_err_NIL)
qed

lemma alloc_ok_new: "new_limited limit = Ok a \<Longrightarrow> alloc_ok a"
  by (auto simp: new_limited_def alloc_ok_def heap_ok_def MAX_NUM_ATOMS_def MAX_NUM_PAIRS_def split: if_splits)

lemma alloc_ok_restore:
  "alloc_ok a \<Longrightarrow> extends a a' \<Longrightarrow> alloc_ok (snd (restore_checkpoint a' (checkpoint a)))"
  by (simp add: restore_checkpoint_extends)

end
