(* ===== verification/NodeOrder.thy ===== *)
theory NodeOrder
  imports AllocHeap
begin

unbundle bit_operations_syntax

text \<open>
  The order of node pointers, as \<open>allocator.rs\<close> derives it from the word inside. It is the order
  of the tags and, within a tag, of the indices. In a well-formed allocator a pair is greater
  than its halves that are pairs, so that the pairs below a node come before it.
\<close>

instantiation NodePtr :: linorder
begin

fun less_eq_NodePtr :: "NodePtr \<Rightarrow> NodePtr \<Rightarrow> bool" where
  "less_eq_NodePtr (NodePtr v) (NodePtr w) \<longleftrightarrow> v \<le> w"

fun less_NodePtr :: "NodePtr \<Rightarrow> NodePtr \<Rightarrow> bool" where
  "less_NodePtr (NodePtr v) (NodePtr w) \<longleftrightarrow> v < w"

instance
proof
  fix p q r :: NodePtr
  show "p < q \<longleftrightarrow> p \<le> q \<and> \<not> q \<le> p" by (cases p; cases q) auto
  show "p \<le> p" by (cases p) simp
  show "p \<le> q \<Longrightarrow> q \<le> r \<Longrightarrow> p \<le> r" by (cases p; cases q; cases r) simp
  show "p \<le> q \<Longrightarrow> q \<le> p \<Longrightarrow> p = q" by (cases p; cases q) simp
  show "p \<le> q \<or> q \<le> p" by (cases p; cases q) auto
qed

end

lemma node_word: "node_kind (NodePtr w) = Some t \<Longrightarrow> unat w = unat (object_tag t) * 67108864 + node_idx (NodePtr w)"
proof -
  assume "node_kind (NodePtr w) = Some t"
  then have t: "drop_bit 26 w = object_tag t" by (auto simp: Let_def NODE_PTR_IDX_BITS_def split: if_splits)
  have "index (NodePtr w) = take_bit 26 w" by (simp add: mask_eq take_bit_eq_mask)
  then have "node_idx (NodePtr w) = take_bit 26 (unat w)" by (simp add: node_idx_def unsigned_take_bit_eq)
  moreover have "unat (object_tag t) = drop_bit 26 (unat w)"
    unfolding t [symmetric] by (simp add: unsigned_drop_bit_eq take_bit_nat_eq_self)
  ultimately show ?thesis by (simp add: take_bit_eq_mod drop_bit_eq_div)
qed

lemma node_less_iff:
  assumes "node_kind p = Some t" "node_kind q = Some u"
  shows "p < q \<longleftrightarrow> object_tag t < object_tag u \<or> t = u \<and> node_idx p < node_idx q"
proof (cases p; cases q)
  fix v w assume pq: "p = NodePtr v" "q = NodePtr w"
  have "p < q \<longleftrightarrow> unat (object_tag t) * 67108864 + node_idx p < unat (object_tag u) * 67108864 + node_idx q"
    using node_word [of v t] node_word [of w u] assms pq by (simp add: word_less_nat_alt)
  then show ?thesis using node_idx_less [of p] node_idx_less [of q] by (cases t; cases u) auto
qed

text \<open>The halves of a pair that are pairs were allocated before it.\<close>

lemma pair_halves_less:
  assumes "alloc_ok a" "node_kind p = Some OPair" "node_idx p < length (pair_vec a)"
    "q = ip_first (pair_vec a ! node_idx p) \<or> q = ip_rest (pair_vec a ! node_idx p)" "node_kind q = Some OPair"
  shows "q < p"
proof -
  have "node_below a (node_idx p) q" using assms(1,3,4) by (auto simp: alloc_ok_def)
  then show ?thesis using assms(2,5) by (simp add: node_below_def node_less_iff)
qed

end
