(* ===== verification/AllocatorProps.thy ===== *)
theory AllocatorProps
  imports NodeOrder
begin

text \<open>
  The properties of the allocator: the packing of node pointers, the small-atom encoding,
  what each allocation returns and keeps, checkpoints, and comparison of atoms. Each follows
  from the lemmas of \<open>AllocNode\<close> and \<open>AllocHeap\<close>; a witness applies it to a concrete
  allocator.
\<close>

section \<open>Sequences of allocations\<close>

text \<open>One call that allocates, whatever its outcome, and any sequence of such calls.\<close>

inductive alloc_step :: "Allocator \<Rightarrow> Allocator \<Rightarrow> bool" for a where
  step_atom: "alloc_step a (snd (new_atom a v))"
| step_small: "alloc_step a (snd (new_small_number a w))"
| step_number: "alloc_step a (snd (new_number ref_bigint a n))"
| step_pair: "alloc_step a (snd (new_pair a p q))"
| step_substr: "alloc_step a (snd (new_substr a p s e))"
| step_concat: "alloc_step a (snd (new_concat a k ps))"

lemma alloc_step_extends: "alloc_step a a' \<Longrightarrow> extends a a'"
  by (erule alloc_step.cases) (auto intro: ext_intros)

lemma alloc_steps_extends: "alloc_step\<^sup>*\<^sup>* a a' \<Longrightarrow> extends a a'"
  by (induction rule: rtranclp_induct) (auto intro: extends_trans alloc_step_extends)

text \<open>An allocator for the witnesses, as \<open>Allocator::new_limited(100)\<close> makes it.\<close>

definition ex_alloc :: Allocator where
  "ex_alloc = \<lparr> u8_vec = [], pair_vec = [], atom_vec = [], heap_limit = 99, small_atoms = 2 \<rparr>"

lemma new_limited_ex_alloc: "new_limited 100 = Ok ex_alloc"
  by (simp add: new_limited_def ex_alloc_def u32_max_def usize_sub_def)

lemma alloc_ok_ex_alloc: "alloc_ok ex_alloc"
  by (rule alloc_ok_new [OF new_limited_ex_alloc])

text \<open>The allocator after a five byte atom is added to it.\<close>

definition ex_atom_alloc :: Allocator where
  "ex_atom_alloc = \<lparr> u8_vec = [104, 101, 108, 108, 111], pair_vec = [],
     atom_vec = [\<lparr> ab_start = 0, ab_end = 5 \<rparr>], heap_limit = 99, small_atoms = 2 \<rparr>"

definition ex_atom :: NodePtr where
  "ex_atom = node_new OBytes 0"

lemma new_atom_ex: "new_atom ex_alloc [104, 101, 108, 108, 111] = (Ok ex_atom, ex_atom_alloc)"
  by (simp add: new_atom_def ex_alloc_def ex_atom_alloc_def ex_atom_def usize_sub_def check_atom_limit_def
      MAX_NUM_ATOMS_def fits_in_small_atom_def)

lemma ex_atom_ok: "alloc_ok ex_atom_alloc" "rep ex_atom_alloc ex_atom (CAtom [104, 101, 108, 108, 111])"
  using safe_new_atom [OF alloc_ok_ex_alloc, of alloc_msgs "[104, 101, 108, 108, 111]"]
  unfolding new_atom_ex by (auto simp: safe_def heap_ok_def ex_atom_alloc_def u32_max_def)

section \<open>Node pointers and small atoms\<close>

text \<open>
  A node pointer packs a tag and an index into 32 bits and gives both back: for every
  index below 2^26, the object type and the index read from \<open>NodePtr::new\<close> are the ones put
  in, and a pointer with a valid tag is rebuilt from what is read from it.
\<close>

theorem node_ptr_roundtrip:
  assumes "i < 2 ^ 26"
  shows "object_type (node_new t i) = (Ok t :: ObjectType eval) \<and> unat (index (node_new t i)) = i \<and>
    (\<forall>p u. object_type p = (Ok u :: ObjectType eval) \<longrightarrow> node_new u (unat (index p)) = p)"
proof (intro conjI allI impI)
  have i: "i < 67108864" using assms by simp
  show "object_type (node_new t i) = (Ok t :: ObjectType eval)" using i by (simp add: object_type_eq_Ok)
  show "unat (index (node_new t i)) = i" using i by (simp add: unat_of_nat)
  fix p u assume "object_type p = (Ok u :: ObjectType eval)"
  then show "node_new u (unat (index p)) = p" using node_new_kind by (simp add: object_type_eq_Ok node_idx_def)
qed

theorem node_ptr_roundtrip_witness:
  "object_type (node_new OPair 7) = (Ok OPair :: ObjectType eval) \<and> unat (index (node_new OPair 7)) = 7 \<and>
   node_new OBytes (unat (index (NodePtr 67108869))) = NodePtr 67108869"
proof -
  have "object_type (NodePtr 67108869) = (Ok OBytes :: ObjectType eval)" by (simp add: Let_def NODE_PTR_IDX_BITS_def)
  moreover have "(7 :: nat) < 2 ^ 26" by simp
  ultimately show ?thesis using node_ptr_roundtrip by blast
qed

text \<open>
  The small-atom test accepts exactly the shortest encodings of the integers from 0 up to
  2^26: it returns a value for the byte string of an integer in that range and no other byte
  string.
\<close>

theorem fits_in_small_atom_iff:
  "fits_in_small_atom v = Some w \<longleftrightarrow> canonical v \<and> be_signed v = uint w \<and> unat w < 2 ^ 26"
proof
  assume f: "fits_in_small_atom v = Some w"
  from fits_in_small_atom_Some [OF f] show "canonical v \<and> be_signed v = uint w \<and> unat w < 2 ^ 26" by simp
next
  assume r: "canonical v \<and> be_signed v = uint w \<and> unat w < 2 ^ 26"
  have "uint w < 67108864" using r of_nat_less_iff [of "unat w" 67108864, where ?'a = int] by simp
  then have "fits_in_small_atom (int_bytes (uint w)) = Some w"
    using fits_in_small_atom_int_bytes [of "uint w"] by simp
  then show "fits_in_small_atom v = Some w" using r by (metis canonical_iff)
qed

section \<open>Allocation\<close>

text \<open>
  Allocating an atom and reading it back gives the same bytes, on the small path and on
  the heap path: a call of \<open>new_atom\<close> ends with a node whose bytes are the argument, with
  the allocator still well-formed, or with one of the resource errors, never with a panic.
\<close>

theorem new_atom_roundtrip:
  assumes "alloc_ok a" "new_atom a v = (r, a')" "heap_ok a'"
  shows "alloc_ok a' \<and>
    (case r of
       Ok p \<Rightarrow> atom_bytes a' p = (Ok v :: bytes eval) \<and> atom_len a' p = (Ok (length v) :: nat eval)
     | Err e \<Rightarrow> err_msg e \<in> {''out of memory'', ''too many atoms'', ''too many pairs''}
     | Panic _ \<Rightarrow> False)"
  using safe_new_atom [OF assms(1) subset_refl, of v] assms(2,3)
  by (auto simp: safe_def alloc_msgs_def rep_atom_bytes rep_atom_len split: outcome.splits)

theorem new_atom_roundtrip_witness:
  "atom_bytes ex_atom_alloc ex_atom = (Ok [104, 101, 108, 108, 111] :: bytes eval)"
  using new_atom_roundtrip [OF alloc_ok_ex_alloc new_atom_ex]
  by (simp add: heap_ok_def ex_atom_alloc_def u32_max_def)

text \<open>
  Allocating an integer and reading it back gives the same integer, stored as its shortest
  two's complement byte string.
\<close>

theorem new_number_roundtrip:
  assumes "bigint_laws B" "alloc_ok a" "new_number B a n = (Ok p, a')" "heap_ok a'"
  shows "alloc_ok a' \<and> number B a' p = (Ok n :: int eval) \<and> atom_bytes a' p = (Ok (int_bytes n) :: bytes eval)"
  using safe_new_number [OF assms(1,2) subset_refl, of n] assms
  by (auto simp: safe_def rep_atom_bytes rep_number)

theorem new_number_roundtrip_witness:
  "number ref_bigint (ex_alloc\<lparr> small_atoms := 3 \<rparr>) (node_new OSmallAtom 1000) = (Ok 1000 :: int eval)"
proof -
  have "new_number ref_bigint ex_alloc 1000 = (Ok (node_new OSmallAtom 1000), ex_alloc\<lparr> small_atoms := 3 \<rparr>)"
    by (simp add: new_number_def to_u32_def NODE_PTR_IDX_MASK_def NODE_PTR_IDX_BITS_def new_small_number_def check_atom_limit_def
        ex_alloc_def MAX_NUM_ATOMS_def)
  from new_number_roundtrip [OF ref.bigint_laws_axioms alloc_ok_ex_alloc this] show ?thesis
    by (simp add: heap_ok_def ex_alloc_def u32_max_def)
qed

text \<open>
  C35. No sequence of allocations, successful or not, changes what a node allocated before it
  stands for: a node that denotes a value keeps denoting it.
\<close>

theorem allocations_keep_values:
  assumes "alloc_step\<^sup>*\<^sup>* a a'" "rep a p t"
  shows "rep a' p t"
  using rep_extends [OF assms(2) alloc_steps_extends [OF assms(1)]] .

theorem allocations_keep_values_witness:
  "rep (snd (new_pair ex_atom_alloc ex_atom ex_atom)) ex_atom (CAtom [104, 101, 108, 108, 111])"
  using allocations_keep_values [OF r_into_rtranclp [where r = alloc_step, OF step_pair] ex_atom_ok(2)] .

text \<open>
  C34. Restoring a checkpoint gives back exactly the allocator it was taken from, after any
  sequence of allocations, and the assertions of \<open>restore_checkpoint\<close> hold.
\<close>

theorem checkpoint_restore:
  assumes "alloc_step\<^sup>*\<^sup>* a a'"
  shows "restore_checkpoint a' (checkpoint a) = (Ok () :: unit eval, a)"
  using restore_checkpoint_extends [OF alloc_steps_extends [OF assms]] .

theorem checkpoint_restore_witness:
  "restore_checkpoint ex_atom_alloc (checkpoint ex_alloc) = (Ok () :: unit eval, ex_alloc)"
proof -
  have "alloc_step ex_alloc ex_atom_alloc" using step_atom [of ex_alloc "[104, 101, 108, 108, 111]"] new_atom_ex by simp
  from checkpoint_restore [OF r_into_rtranclp [where r = alloc_step, OF this]] show ?thesis .
qed

text \<open>
  Atom equality is equality of the bytes, whichever of the two representations each atom
  has.
\<close>

theorem atom_eq_bytes:
  assumes "rep a p (CAtom bs)" "rep a q (CAtom cs)"
  shows "atom_eq a p q = (Ok (bs = cs) :: bool eval)"
  by (rule rep_atom_eq [OF assms])

theorem atom_eq_bytes_witness:
  "atom_eq ex_atom_alloc ex_atom node_NIL = (Ok False :: bool eval)"
  using atom_eq_bytes [OF ex_atom_ok(2) rep_NIL] by simp

text \<open>
  \<open>new_concat\<close> with the sum of the lengths returns a node with the concatenated bytes, or
  a resource error; the internal error for a wrong size does not occur.
\<close>

theorem new_concat_correct:
  assumes "alloc_ok a" "list_all2 (\<lambda>n bs. rep a n (CAtom bs)) ns bss"
    "new_concat a (length (concat bss)) ns = (r, a')" "heap_ok a'"
  shows "alloc_ok a' \<and>
    (case r of
       Ok p \<Rightarrow> atom_bytes a' p = (Ok (concat bss) :: bytes eval)
     | Err e \<Rightarrow> err_msg e \<in> {''out of memory'', ''too many atoms'', ''too many pairs''}
     | Panic _ \<Rightarrow> False)"
  using safe_new_concat [OF assms(1) subset_refl assms(2) refl] assms(3,4)
  by (auto simp: safe_def alloc_msgs_def rep_atom_bytes split: outcome.splits)

theorem new_concat_correct_witness:
  "\<exists>a' p. new_concat ex_atom_alloc 10 [ex_atom, ex_atom] = (Ok p, a') \<and>
     atom_bytes a' p = (Ok [104, 101, 108, 108, 111, 104, 101, 108, 108, 111] :: bytes eval)"
proof -
  let ?b = "[104, 101, 108, 108, 111] :: bytes"
  have l: "list_all2 (\<lambda>n bs. rep ex_atom_alloc n (CAtom bs)) [ex_atom, ex_atom] [?b, ?b]" using ex_atom_ok(2) by simp
  let ?a = "ex_atom_alloc\<lparr> u8_vec := ?b @ ?b @ ?b, atom_vec := [\<lparr> ab_start = 0, ab_end = 5 \<rparr>, \<lparr> ab_start = 5, ab_end = 15 \<rparr>] \<rparr>"
  have h: "heap_ok ?a" by (simp add: heap_ok_def u32_max_def)
  have len: "length (concat [?b, ?b]) = 10" by simp
  have eq: "new_concat ex_atom_alloc 10 [ex_atom, ex_atom] = (Ok (node_new OBytes 1), ?a)"
    by (simp add: new_concat_def ex_atom_alloc_def ex_atom_def check_atom_limit_def MAX_NUM_ATOMS_def
        object_type_kind get_idx_def ab_len_def usize_sub_def slice_def Let_def)
  from new_concat_correct [OF ex_atom_ok(1) l _ h] eq show ?thesis unfolding len by fastforce
qed

section \<open>The heap limit\<close>

lemma heap_new_atom:
  assumes "length (u8_vec a) \<le> heap_limit a" "heap_limit a \<le> u32_max"
  shows "length (u8_vec (snd (new_atom a v))) \<le> heap_limit a"
proof -
  have "unat (of_nat (length (u8_vec a)) :: u32) = length (u8_vec a)" using assms by (intro unat_of_nat_u32) simp
  then show ?thesis using assms by (auto simp: new_atom_def Let_def check_atom_limit_def err_def usize_sub_def split: option.split)
qed

lemma heap_new_small: "u8_vec (snd (new_small_number a w)) = u8_vec a"
  by (auto simp: new_small_number_def check_atom_limit_def err_def)

lemma heap_new_concat:
  assumes "length (u8_vec a) \<le> heap_limit a" "list_all2 (\<lambda>n bs. rep a n (CAtom bs)) ns bss"
  shows "length (u8_vec (snd (new_concat a (length (concat bss)) ns))) \<le> heap_limit a"
  using assms concat_loop_rep [OF assms(2), of 0 "length (concat bss)" "length (u8_vec a)" "[]"]
  by (auto simp: new_concat_def Let_def check_atom_limit_def err_def usize_sub_def)

lemma heap_new_substr:
  assumes "node_kind p = Some k"
  shows "u8_vec (snd (new_substr a p s e)) = u8_vec a \<or> k = OSmallAtom \<and> length (u8_vec (snd (new_substr a p s e))) \<le> length (u8_vec a) + 4"
proof (cases k)
  case OSmallAtom
  have "unat (index p) < 67108864" using node_idx_less [of p] by (simp add: node_idx_def)
  then have l: "length (int_bytes (uint (index p))) \<le> 4" unfolding len_for_value_eq [symmetric] len_for_value_def
    by (simp add: word_less_nat_alt)
  have "length (u8_vec (snd (new_substr a p s e))) \<le> length (u8_vec a) + 4" using OSmallAtom assms l
    by (auto simp: new_substr_def object_type_kind check_atom_limit_def err_def Let_def small_atom_buf_eq [OF index_unat] slice_def
        bounds_check_def split: option.split)
  with OSmallAtom show ?thesis by blast
qed (use assms in \<open>auto simp: new_substr_def object_type_kind check_atom_limit_def err_def get_idx_def bounds_check_def Let_def\<close>)

lemma heap_ok_new_substr:
  assumes "alloc_ok a" "rep a n t" "new_substr a n s e = (r, a')" "node_kind n = Some OSmallAtom \<Longrightarrow> length (u8_vec a) + 4 \<le> u32_max"
  shows "heap_ok a'"
proof -
  obtain k where k: "node_kind n = Some k" using assms(2) by (auto elim: rep.cases)
  have "length (u8_vec a) \<le> u32_max" using assms(1) by (simp add: alloc_ok_def heap_ok_def)
  then show ?thesis using heap_new_substr [OF k, of a s e] assms(3,4) k by (auto simp: heap_ok_def)
qed

text \<open>
  C36. \<open>new_substr\<close> on an atom returns a node with the bytes between the two bounds, or the
  error of the first bound that is wrong, or the limit on atoms; it does not panic. For a small
  atom, whose bytes are appended without a look at the heap limit, this needs four bytes of room
  below 2^32 - 1, the largest position in the byte vector; for other atoms nothing.
\<close>

theorem new_substr_correct:
  assumes "alloc_ok a" "rep a n (CAtom bs)" "new_substr a n s e = (r, a')"
    "node_kind n = Some OSmallAtom \<Longrightarrow> length (u8_vec a) + 4 \<le> u32_max"
  shows "alloc_ok a' \<and>
    (case r of
       Ok p \<Rightarrow> unat s \<le> unat e \<and> unat e \<le> length bs \<and>
         atom_bytes a' p = (Ok (take (unat e - unat s) (drop (unat s) bs)) :: bytes eval)
     | Err x \<Rightarrow> err_msg x = ''too many atoms'' \<or> substr_spec bs (unat s) (unat e) = Inl (err_msg x)
     | Panic _ \<Rightarrow> False)"
  using safe_new_substr [OF assms(1,2), of "{(CAtom [], ''too many atoms'')} \<union> {x. \<exists>m. x = (CAtom bs, m) \<and> substr_spec bs (unat s) (unat e) = Inl m}" _ s e]
    heap_ok_new_substr [OF assms] assms(3)
  by (auto simp: safe_def substr_spec_Inr rep_atom_bytes split: outcome.splits)

theorem new_substr_correct_witness:
  "atom_bytes (snd (new_substr ex_atom_alloc ex_atom 1 3)) (node_new OBytes 1) = (Ok [101, 108] :: bytes eval) \<and>
   atom_bytes (snd (new_substr ex_atom_alloc (node_new OSmallAtom 511) 1 2)) (node_new OBytes 1) = (Ok [255] :: bytes eval)"
proof -
  have "new_substr ex_atom_alloc ex_atom 1 3 = (Ok (node_new OBytes 1),
      ex_atom_alloc\<lparr> atom_vec := [\<lparr> ab_start = 0, ab_end = 5 \<rparr>, \<lparr> ab_start = 1, ab_end = 3 \<rparr>] \<rparr>)"
    by (simp add: new_substr_def ex_atom_alloc_def ex_atom_def check_atom_limit_def MAX_NUM_ATOMS_def
        object_type_kind get_idx_def bounds_check_def Let_def)
  from new_substr_correct [OF ex_atom_ok this] this have atom:
    "atom_bytes (snd (new_substr ex_atom_alloc ex_atom 1 3)) (node_new OBytes 1) = (Ok [101, 108] :: bytes eval)"
    by (simp add: ex_atom_alloc_def u32_max_def)
  have bytes: "int_bytes 511 = [1, 255]" "fits_in_small_atom [255] = None" by code_simp+
  have buf: "small_atom_buf 511 = Ok [1, 255]" "len_for_value 511 = 2"
    using small_atom_buf_eq [of 511] len_for_value_eq [of 511] bytes(1) by simp_all
  have small: "new_substr ex_atom_alloc (node_new OSmallAtom 511) 1 2 = (Ok (node_new OBytes 1),
      ex_atom_alloc\<lparr> u8_vec := [104, 101, 108, 108, 111, 255], atom_vec := [\<lparr> ab_start = 0, ab_end = 5 \<rparr>, \<lparr> ab_start = 5, ab_end = 6 \<rparr>] \<rparr>)"
    by (simp add: new_substr_def ex_atom_alloc_def check_atom_limit_def MAX_NUM_ATOMS_def
        object_type_kind get_idx_def bounds_check_def Let_def buf bytes slice_def)
  have "rep ex_atom_alloc (node_new OSmallAtom 511) (CAtom [1, 255])"
    using rep_small_new [of 511 ex_atom_alloc] bytes(1) by simp
  from new_substr_correct [OF ex_atom_ok(1) this small] small atom show ?thesis
    by (simp add: ex_atom_alloc_def u32_max_def)
qed

section \<open>Types\<close>

text \<open>The calls that allocate, as data, and what a client owes: nodes that denote values, and small numbers of 26 bits.\<close>

datatype alloc_call =
    CallAtom bytes
  | CallSmall u32
  | CallNumber int
  | CallPair NodePtr NodePtr
  | CallSubstr NodePtr u32 u32
  | CallConcat nat "NodePtr list"

fun perform :: "'x bigint_api_scheme \<Rightarrow> Allocator \<Rightarrow> alloc_call \<Rightarrow> NodePtr eval \<times> Allocator" where
  "perform B a (CallAtom v) = new_atom a v"
| "perform B a (CallSmall w) = new_small_number a w"
| "perform B a (CallNumber n) = new_number B a n"
| "perform B a (CallPair p q) = new_pair a p q"
| "perform B a (CallSubstr p s e) = new_substr a p s e"
| "perform B a (CallConcat k ps) = new_concat a k ps"

fun typed_args :: "Allocator \<Rightarrow> alloc_call \<Rightarrow> bool" where
  "typed_args a (CallSmall w) \<longleftrightarrow> unat w < 67108864"
| "typed_args a (CallPair p q) \<longleftrightarrow> node_ok a p \<and> node_ok a q"
| "typed_args a (CallSubstr p s e) \<longleftrightarrow> node_ok a p"
| "typed_args a (CallConcat k ps) \<longleftrightarrow> (\<forall>p \<in> set ps. \<exists>t. rep a p t)"
| "typed_args a _ \<longleftrightarrow> True"

text \<open>The one call that does not look at the heap limit has to be made with four bytes left.\<close>

fun bytes_left :: "Allocator \<Rightarrow> alloc_call \<Rightarrow> bool" where
  "bytes_left a (CallSubstr p s e) \<longleftrightarrow> (node_kind p = Some OSmallAtom \<longrightarrow> length (u8_vec a) + 4 \<le> heap_limit a)"
| "bytes_left a _ \<longleftrightarrow> True"

text \<open>The allocators a client can get to with such calls.\<close>

inductive reachable :: "'x bigint_api_scheme \<Rightarrow> Allocator \<Rightarrow> bool" for B where
  start: "new_limited limit = (Ok a :: (unit, Allocator) outcome) \<Longrightarrow> 0 < limit \<Longrightarrow> reachable B a"
| call: "reachable B a \<Longrightarrow> typed_args a c \<Longrightarrow> bytes_left a c \<Longrightarrow> perform B a c = (r, a') \<Longrightarrow> reachable B a'"

definition typed_result :: "Allocator \<Rightarrow> NodePtr eval \<Rightarrow> bool" where
  "typed_result a r \<longleftrightarrow> (case r of Ok p \<Rightarrow> node_ok a p | Err e \<Rightarrow> node_ok a (err_node e) | Panic _ \<Rightarrow> False)"

lemma safe_typed:
  assumes "safe Q R m" "heap_ok (snd m)" "\<forall>p. Q (snd m) p \<longrightarrow> (\<exists>t. rep (snd m) p t)"
  shows "alloc_ok (snd m) \<and> typed_result (snd m) (fst m)"
  using assms by (cases "fst m") (auto simp: safe_def typed_result_def dest: rep_node_ok)

text \<open>\<open>new_concat\<close> with whatever size and nodes: it appends the bytes of the nodes, or takes back all it appended.\<close>

lemma concat_loop_any:
  assumes "\<forall>n \<in> set ns. \<exists>t. rep a n t"
  shows "(\<exists>bss. list_all2 (\<lambda>n bs. rep a n (CAtom bs)) ns bss \<and>
      new_concat_loop (length (u8_vec a)) k (a\<lparr> u8_vec := u8_vec a @ vs \<rparr>) c ns =
        (Ok (c + length (concat bss)), a\<lparr> u8_vec := u8_vec a @ vs @ concat bss \<rparr>)) \<or>
    (\<exists>n msg. node_ok a n \<and> new_concat_loop (length (u8_vec a)) k (a\<lparr> u8_vec := u8_vec a @ vs \<rparr>) c ns = (err n msg, a))"
  using assms
proof (induction ns arbitrary: vs c)
  case (Cons n ns)
  let ?a = "a\<lparr> u8_vec := u8_vec a @ vs \<rparr>"
  have "extends a ?a" by (simp add: extends_def)
  obtain t where t: "rep a n t" using Cons.prems by auto
  show ?case
  proof (cases t)
    case (CPair l r)
    then have "node_kind n = Some OPair" using t rep_pair_kind by blast
    then show ?thesis using rep_node_ok [OF t] by (auto simp: object_type_kind err_def)
  next
    case (CAtom bs)
    then have "rep ?a n (CAtom bs)" using t rep_extends \<open>extends a ?a\<close> by blast
    then have "new_concat_loop (length (u8_vec a)) k ?a c (n # ns) = (err n ''(internal error) concat passed invalid new_size'', a) \<or>
      new_concat_loop (length (u8_vec a)) k ?a c (n # ns) = new_concat_loop (length (u8_vec a)) k (a\<lparr> u8_vec := u8_vec a @ vs @ bs \<rparr>) (c + length bs) ns"
    proof (cases rule: rep_atom_cases)
      case buf
      note slice = buf_ok_slice [OF buf(3)]
      show ?thesis using buf buf_ok_len [OF buf(3)] slice [simplified]
        by (simp add: object_type_kind slice [simplified, unfolded node_idx_def] node_idx_def)
    next
      case small
      then show ?thesis by (simp add: object_type_kind node_idx_def Let_def small_atom_buf_eq index_unat len_for_value_eq)
    qed
    then show ?thesis
    proof
      assume "new_concat_loop (length (u8_vec a)) k ?a c (n # ns) = (err n ''(internal error) concat passed invalid new_size'', a)"
      then show ?thesis using rep_node_ok [OF t] by blast
    next
      assume eq: "new_concat_loop (length (u8_vec a)) k ?a c (n # ns) = new_concat_loop (length (u8_vec a)) k (a\<lparr> u8_vec := u8_vec a @ vs @ bs \<rparr>) (c + length bs) ns"
      have "\<forall>n \<in> set ns. \<exists>t. rep a n t" using Cons.prems by simp
      from Cons.IH [OF this, of "vs @ bs" "c + length bs", unfolded append_assoc] show ?thesis
      proof
        assume "\<exists>bss. list_all2 (\<lambda>n bs. rep a n (CAtom bs)) ns bss \<and>
          new_concat_loop (length (u8_vec a)) k (a\<lparr> u8_vec := u8_vec a @ vs @ bs \<rparr>) (c + length bs) ns =
            (Ok (c + length bs + length (concat bss)), a\<lparr> u8_vec := u8_vec a @ vs @ bs @ concat bss \<rparr>)"
        then obtain bss where "list_all2 (\<lambda>n bs. rep a n (CAtom bs)) ns bss"
          "new_concat_loop (length (u8_vec a)) k (a\<lparr> u8_vec := u8_vec a @ vs @ bs \<rparr>) (c + length bs) ns =
            (Ok (c + length bs + length (concat bss)), a\<lparr> u8_vec := u8_vec a @ vs @ bs @ concat bss \<rparr>)" by blast
        then show ?thesis unfolding eq using t CAtom by (intro disjI1 exI [of _ "bs # bss"]) simp
      next
        assume "\<exists>n msg. node_ok a n \<and> new_concat_loop (length (u8_vec a)) k (a\<lparr> u8_vec := u8_vec a @ vs @ bs \<rparr>) (c + length bs) ns = (err n msg, a)"
        then show ?thesis unfolding eq by blast
      qed
    qed
  qed
qed (auto intro: exI [of _ "[]"])

lemma new_concat_any:
  assumes "\<forall>n \<in> set ns. \<exists>t. rep a n t"
  obtains bss where "list_all2 (\<lambda>n bs. rep a n (CAtom bs)) ns bss" "k = length (concat bss)"
    | n msg where "new_concat a k ns = (err n msg, a)" "node_ok a n"
proof -
  have nil: "node_ok a (nil a)" by (simp add: nil_eq node_ok_NIL)
  from concat_loop_any [OF assms, of k "[]" 0] show thesis
  proof (elim disjE exE conjE)
    fix bss assume b: "list_all2 (\<lambda>n bs. rep a n (CAtom bs)) ns bss"
      "new_concat_loop (length (u8_vec a)) k (a\<lparr> u8_vec := u8_vec a @ [] \<rparr>) 0 ns = (Ok (0 + length (concat bss)), a\<lparr> u8_vec := u8_vec a @ [] @ concat bss \<rparr>)"
    show thesis
    proof (cases "k = length (concat bss)")
      case False
      then have "\<exists>msg. new_concat a k ns = (err (nil a) msg, a)" using b(2)
        by (auto simp: new_concat_def Let_def check_atom_limit_def err_def nil_def)
      then show thesis using that(2) nil by blast
    qed (use that(1) b(1) in blast)
  next
    fix n msg assume "node_ok a n" "new_concat_loop (length (u8_vec a)) k (a\<lparr> u8_vec := u8_vec a @ [] \<rparr>) 0 ns = (err n msg, a)"
    then have "\<exists>n msg. new_concat a k ns = (err n msg, a) \<and> node_ok a n" using nil
      by (auto simp: new_concat_def Let_def check_atom_limit_def err_def)
    then show thesis using that(2) by blast
  qed
qed

lemma perform_keeps:
  assumes B: "bigint_laws B" and a: "alloc_ok a" and c: "typed_args a c" and h: "heap_ok (snd (perform B a c))"
  shows "alloc_ok (snd (perform B a c)) \<and> typed_result (snd (perform B a c)) (fst (perform B a c))"
proof (cases c)
  case (CallAtom v)
  then show ?thesis using safe_typed [OF safe_new_atom [OF a subset_refl, of v]] h by auto
next
  case (CallSmall w)
  then show ?thesis using safe_typed [OF safe_new_small_number [OF a, of w alloc_msgs]] h c by (auto simp: alloc_msgs_def)
next
  case (CallNumber n)
  then show ?thesis using safe_typed [OF safe_new_number [OF B a subset_refl, of n]] h by auto
next
  case (CallPair p q)
  then obtain l r where "rep a p l" "rep a q r" using node_ok_rep [OF a] c by fastforce
  then show ?thesis using CallPair safe_typed [OF safe_new_pair [OF a, of p l q r alloc_msgs]] h by (auto simp: alloc_msgs_def)
next
  case (CallSubstr p s e)
  then obtain t where t: "rep a p t" using node_ok_rep [OF a] c by fastforce
  show ?thesis
  proof (cases t)
    case (CAtom bs)
    then show ?thesis using t CallSubstr safe_typed [OF safe_new_substr [OF a, of p bs UNIV _ s e]] h by auto
  next
    case (CPair l r)
    then have "node_kind p = Some OPair" using t rep_pair_kind by blast
    then show ?thesis using CallSubstr a c
      by (auto simp: new_substr_def object_type_kind typed_result_def err_def check_atom_limit_def nil_eq node_ok_NIL)
  qed
next
  case (CallConcat k ps)
  then have "\<forall>p \<in> set ps. \<exists>t. rep a p t" using c by simp
  then show ?thesis
  proof (cases rule: new_concat_any [where k = k])
    case (1 bss)
    then show ?thesis using CallConcat safe_typed [OF safe_new_concat [OF a subset_refl 1]] h by auto
  next
    case (2 n msg)
    then show ?thesis using CallConcat a by (simp add: typed_result_def err_def)
  qed
qed

lemma perform_heap:
  assumes "length (u8_vec a) \<le> heap_limit a" "heap_limit a \<le> u32_max" "typed_args a c" "perform B a c = (r, a')"
  shows "length (u8_vec a') \<le> heap_limit a \<or>
    (\<exists>p s e. c = CallSubstr p s e \<and> node_kind p = Some OSmallAtom \<and> length (u8_vec a') \<le> length (u8_vec a) + 4)"
proof -
  have a': "a' = snd (perform B a c)" by (simp add: assms(4))
  show ?thesis
  proof (cases c)
    case (CallNumber n)
    then show ?thesis unfolding a' using heap_new_atom [OF assms(1,2)] heap_new_small assms(1) by (auto simp: new_number_def split: option.split)
  next
    case (CallSubstr p s e)
    then obtain k where "node_kind p = Some k" using assms(3) by (cases "node_kind p") (auto simp: node_below_def)
    then show ?thesis unfolding a' using heap_new_substr [of p k a s e] CallSubstr assms(1) by auto
  next
    case (CallConcat k ps)
    then have "\<forall>p \<in> set ps. \<exists>t. rep a p t" using assms(3) by simp
    then show ?thesis unfolding a'
      by (cases rule: new_concat_any [where k = k]) (use CallConcat heap_new_concat [OF assms(1)] assms(1) in auto)
  qed (use a' heap_new_atom [OF assms(1,2)] heap_new_small [of a] assms(1) in \<open>auto simp: new_pair_def err_def Let_def\<close>)
qed

text \<open>
  C37. The heap limit holds for every call but one: starting within the limit, a call leaves the
  byte vector within it, or it is \<open>new_substr\<close> on a small atom, which does not look at the limit
  and exceeds it by at most 4 bytes.
\<close>

theorem heap_limit_kept:
  assumes "length (u8_vec a) \<le> heap_limit a" "heap_limit a \<le> u32_max" "typed_args a c" "perform B a c = (r, a')"
  shows "length (u8_vec a') \<le> heap_limit a \<or>
    (\<exists>p s e. c = CallSubstr p s e \<and> node_kind p = Some OSmallAtom \<and> length (u8_vec a') \<le> heap_limit a + 4)"
  using perform_heap [OF assms] assms(1) by fastforce

theorem heap_limit_kept_witness: "length (u8_vec ex_atom_alloc) \<le> heap_limit ex_alloc"
proof -
  have "perform ref_bigint ex_alloc (CallAtom [104, 101, 108, 108, 111]) = (Ok ex_atom, ex_atom_alloc)" by (simp add: new_atom_ex)
  from heap_limit_kept [OF _ _ _ this] show ?thesis
    by (auto simp: ex_alloc_def u32_max_def ex_atom_alloc_def)
qed

lemma perform_within:
  assumes "length (u8_vec a) \<le> heap_limit a" "heap_limit a \<le> u32_max" "typed_args a c" "bytes_left a c" "perform B a c = (r, a')"
  shows "length (u8_vec a') \<le> heap_limit a"
  using perform_heap [OF assms(1-3,5)] assms(4) by auto

lemma perform_extends: "perform B a c = (r, a') \<Longrightarrow> extends a a'"
  using extends_new_number [of a B] by (cases c) (auto dest!: arg_cong [of _ _ snd] intro: ext_intros)

lemma reachable_ok:
  assumes "bigint_laws B" "reachable B a"
  shows "alloc_ok a \<and> length (u8_vec a) \<le> heap_limit a \<and> heap_limit a \<le> u32_max"
  using assms(2)
proof induction
  case (start limit a)
  then show ?case using alloc_ok_new [of limit a] by (auto simp: new_limited_def usize_sub_def split: if_splits)
next
  case (call a c r a')
  then have "length (u8_vec a') \<le> heap_limit a" by (auto intro: perform_within)
  moreover have "heap_limit a' = heap_limit a" using perform_extends [OF call.hyps(4)] by (simp add: extends_def)
  ultimately show ?case using perform_keeps [OF assms(1), of a c] call by (auto simp: heap_ok_def)
qed

text \<open>
  C33. The allocator is well typed: start with an allocator of any positive heap limit and make any
  sequence of allocating calls with nodes of the allocator, small numbers of at most 26 bits (the
  assertion of \<open>new_small_number\<close> in debug builds) and, for \<open>new_substr\<close> on a small atom, at least
  four bytes left below the heap limit. Then after every call atoms are ranges of the byte vector,
  pairs hold nodes allocated before them, the counts and the byte vector are within the limits, and
  the call has returned a node of the new allocator or an error at one; it does not panic.
\<close>

theorem reachable_well_typed:
  assumes "bigint_laws B" "reachable B a" "typed_args a c" "bytes_left a c" "perform B a c = (r, a')"
  shows "alloc_ok a' \<and> length (u8_vec a') \<le> heap_limit a' \<and> typed_result a' r"
proof -
  note a' = reachable_ok [OF assms(1) reachable.call [OF assms(2-5)]]
  then show ?thesis using perform_keeps [OF assms(1) _ assms(3)] reachable_ok [OF assms(1,2)] assms(5) by (auto simp: alloc_ok_def)
qed

theorem reachable_well_typed_witness:
  "alloc_ok ex_atom_alloc \<and> length (u8_vec ex_atom_alloc) \<le> heap_limit ex_atom_alloc \<and> typed_result ex_atom_alloc (Ok ex_atom)"
proof (rule reachable_well_typed [OF ref.bigint_laws_axioms])
  show "reachable ref_bigint ex_alloc" by (rule reachable.start [OF new_limited_ex_alloc]) simp
  show "perform ref_bigint ex_alloc (CallAtom [104, 101, 108, 108, 111]) = (Ok ex_atom, ex_atom_alloc)" by (simp add: new_atom_ex)
qed simp_all

end
