(* ===== verification/OpUtils.thy ===== *)
theory OpUtils
  imports AllocHeap
begin

unbundle bit_operations_syntax

text \<open>
  The argument readers shared by the operators, \<open>src/src/op_utils.rs\<close>, and the cost check of
  \<open>src/src/cost.rs\<close>. Readers return an outcome and leave the allocator alone; the one
  function that allocates, \<open>new_atom_and_cost\<close>, returns it. Signed 32-bit results are the
  integers \<open>sint\<close> reads from the word the code computes.

  The second half specifies them on values: every reader applied to a node of value \<open>t\<close>
  returns what a function of \<open>t\<close> says, its error included.
\<close>

section \<open>Cost check\<close>

type_synonym Cost = u64

definition check_cost :: "Allocator \<Rightarrow> Cost \<Rightarrow> Cost \<Rightarrow> unit eval" where
  "check_cost a cost max_cost =
     (if cost > max_cost then Err (EvalErr (nil a) ''cost exceeded'') else Ok ())"

section \<open>Arguments\<close>

definition MALLOC_COST_PER_BYTE :: Cost where "MALLOC_COST_PER_BYTE = 10"

text \<open>The suffix \<open>if N == 1 { "" } else { "s" }\<close> of the messages.\<close>

definition plural :: "nat \<Rightarrow> string" where
  "plural N = (if N = 1 then '''' else ''s'')"

text \<open>
  The loop of \<open>match_args\<close>, by recursion on the free slots of the array: it stops at the
  first argument past the \<open>N\<close>th.
\<close>

fun match_args :: "nat \<Rightarrow> Allocator \<Rightarrow> NodePtr \<Rightarrow> ('e, NodePtr list option) outcome" where
  "match_args 0 a args =
     bindR (next_item a args) (\<lambda>r. case r of None \<Rightarrow> Ok (Some []) | Some _ \<Rightarrow> Ok None)"
| "match_args (Suc N) a args =
     bindR (next_item a args) (\<lambda>r. case r of
       None \<Rightarrow> Ok None
     | Some (first, rest) \<Rightarrow> bindR (match_args N a rest) (\<lambda>ret. Ok (map_option ((#) first) ret)))"

definition get_args :: "nat \<Rightarrow> Allocator \<Rightarrow> NodePtr \<Rightarrow> string \<Rightarrow> NodePtr list eval" where
  "get_args N a args name =
     bindR (match_args N a args) (\<lambda>r. case r of
       Some ret \<Rightarrow> Ok ret
     | None \<Rightarrow> Err (EvalErr args (name @ '' takes exactly '' @ dec_string N @ '' argument'' @ plural N)))"

fun varargs_loop :: "nat \<Rightarrow> Allocator \<Rightarrow> NodePtr \<Rightarrow> ('e, NodePtr list option) outcome" where
  "varargs_loop 0 a args =
     bindR (next_item a args) (\<lambda>r. case r of None \<Rightarrow> Ok (Some []) | Some _ \<Rightarrow> Ok None)"
| "varargs_loop (Suc N) a args =
     bindR (next_item a args) (\<lambda>r. case r of
       None \<Rightarrow> Ok (Some [])
     | Some (first, rest) \<Rightarrow> bindR (varargs_loop N a rest) (\<lambda>ret. Ok (map_option ((#) first) ret)))"

text \<open>The array is padded with \<open>NodePtr::NIL\<close>; the second component counts the arguments.\<close>

definition get_varargs :: "nat \<Rightarrow> Allocator \<Rightarrow> NodePtr \<Rightarrow> string \<Rightarrow> (NodePtr list \<times> nat) eval" where
  "get_varargs N a args name =
     bindR (varargs_loop N a args) (\<lambda>r. case r of
       Some ret \<Rightarrow> Ok (ret @ replicate (N - length ret) node_NIL, length ret)
     | None \<Rightarrow> err args (name @ '' takes no more than '' @ dec_string N @ '' argument'' @ plural N))"

section \<open>Atoms\<close>

definition util_atom_len :: "Allocator \<Rightarrow> NodePtr \<Rightarrow> string \<Rightarrow> nat eval" where
  "util_atom_len a args op_name =
     bindR (sexp a args) (\<lambda>s. case s of
       SAtom \<Rightarrow> atom_len a args
     | SPair _ _ \<Rightarrow> err args (op_name @ '' requires an atom''))"

fun strip_leading_zeros :: "bytes \<Rightarrow> bytes" where
  "strip_leading_zeros [] = []"
| "strip_leading_zeros (b # buf) = (if b = 0 then strip_leading_zeros buf else b # buf)"

definition uint_atom :: "nat \<Rightarrow> Allocator \<Rightarrow> NodePtr \<Rightarrow> string \<Rightarrow> u64 eval" where
  "uint_atom SIZE a args op_name =
     bindR (node a args) (\<lambda>v. case v of
       VBuffer bytes \<Rightarrow>
         if bytes = [] then Ok 0
         else bindR (get_idx bytes 0) (\<lambda>b0.
           if b0 AND 0x80 \<noteq> 0 then err args (op_name @ '' requires positive int arg'')
           else let buf = strip_leading_zeros bytes in
             if length buf > SIZE then err args (op_name @ '' requires u'' @ dec_string (SIZE * 8) @ '' arg'')
             else Ok (shift_in 0 buf))
     | VU32 val \<Rightarrow> Ok (ucast val)
     | VPair _ _ \<Rightarrow> err args (op_name @ '' requires int arg''))"

definition util_atom :: "Allocator \<Rightarrow> NodePtr \<Rightarrow> string \<Rightarrow> Atom eval" where
  "util_atom a n op_name =
     bindR (is_pair n) (\<lambda>p. if p then err n (op_name @ '' on list'') else atom a n)"

text \<open>\<open>atom(a, n, op_name)?.as_ref()\<close>.\<close>

definition util_atom_bytes :: "Allocator \<Rightarrow> NodePtr \<Rightarrow> string \<Rightarrow> bytes eval" where
  "util_atom_bytes a n op_name = bindR (util_atom a n op_name) as_ref"

definition u32_from_u8_impl :: "bytes \<Rightarrow> bool \<Rightarrow> u32 option" where
  "u32_from_u8_impl buf is_signed =
     (if buf = [] then Some 0
      else if length buf > 4 then None
      else let sign_extend = buf ! 0 AND 0x80 \<noteq> 0;
               ret = if is_signed \<and> sign_extend then 0xffffffff else 0
           in Some (shift_in ret buf))"

definition u32_from_u8 :: "bytes \<Rightarrow> u32 option" where
  "u32_from_u8 buf = u32_from_u8_impl buf False"

definition i32_from_u8 :: "bytes \<Rightarrow> int option" where
  "i32_from_u8 buf = map_option sint (u32_from_u8_impl buf True)"

definition i32_atom :: "Allocator \<Rightarrow> NodePtr \<Rightarrow> string \<Rightarrow> int eval" where
  "i32_atom a args op_name =
     bindR (node a args) (\<lambda>v. case v of
       VBuffer buf \<Rightarrow>
         (case i32_from_u8 buf of
            Some v \<Rightarrow> Ok v
          | None \<Rightarrow> err args (op_name @ '' requires int32 args (with no leading zeros)''))
     | VU32 val \<Rightarrow> Ok (sint val)
     | VPair _ _ \<Rightarrow> err args (op_name @ '' requires int32 args''))"

definition u64_from_bytes :: "bytes \<Rightarrow> u64" where
  "u64_from_bytes buf = (if buf = [] then 0 else shift_in 0 buf)"

definition new_atom_and_cost :: "Allocator \<Rightarrow> Cost \<Rightarrow> bytes \<Rightarrow> Response \<times> Allocator" where
  "new_atom_and_cost a cost buf =
     (let c = of_nat (length buf) * MALLOC_COST_PER_BYTE in
      tryS (new_atom a buf) (\<lambda>n a. (Ok (Reduction (cost + c) n), a)))"

definition GROUP_ORDER :: int where
  "GROUP_ORDER = 0x73eda753299d7d483339d80809a1d80553bda402fffe5bfeffffffff00000001"

definition mod_group_order :: "int \<Rightarrow> int" where
  "mod_group_order n =
     (let remainder = n mod GROUP_ORDER in
      if remainder < 0 then remainder + GROUP_ORDER else remainder)"

definition nilp :: "Allocator \<Rightarrow> NodePtr \<Rightarrow> ('e, bool) outcome" where
  "nilp a n =
     bindR (sexp a n) (\<lambda>s. case s of
       SAtom \<Rightarrow> bindR (atom_len a n) (\<lambda>l. Ok (l = 0))
     | SPair _ _ \<Rightarrow> Ok False)"

definition util_first :: "Allocator \<Rightarrow> NodePtr \<Rightarrow> NodePtr eval" where
  "util_first a n =
     bindR (sexp a n) (\<lambda>s. case s of SPair first _ \<Rightarrow> Ok first | SAtom \<Rightarrow> err n ''first of non-cons'')"

definition util_rest :: "Allocator \<Rightarrow> NodePtr \<Rightarrow> NodePtr eval" where
  "util_rest a n =
     bindR (sexp a n) (\<lambda>s. case s of SPair _ rest \<Rightarrow> Ok rest | SAtom \<Rightarrow> err n ''rest of non-cons'')"

definition int_atom :: "'x bigint_api_scheme \<Rightarrow> Allocator \<Rightarrow> NodePtr \<Rightarrow> string \<Rightarrow> (int \<times> nat) eval" where
  "int_atom B a args op_name =
     bindR (sexp a args) (\<lambda>s. case s of
       SAtom \<Rightarrow> bindR (number B a args) (\<lambda>v. bindR (atom_len a args) (\<lambda>l. Ok (v, l)))
     | SPair _ _ \<Rightarrow> err args (op_name @ '' requires int args''))"

section \<open>Refinement of value-level specifications\<close>

text \<open>
  A value-level computation ends with an error, the value and the message the code reports,
  or with a result. \<open>reads a Q sp m\<close>: the outcome \<open>m\<close>, computed on nodes of \<open>a\<close>, is
  what \<open>sp\<close> says. \<open>refines sp m\<close>: an operator's response is what \<open>sp\<close> says, or one of
  the allocator's resource errors.
\<close>

type_synonym 'a vres = "clvm \<times> string + 'a"

fun bindV :: "'a vres \<Rightarrow> ('a \<Rightarrow> 'b vres) \<Rightarrow> 'b vres" where
  "bindV (Inl e) f = Inl e"
| "bindV (Inr x) f = f x"

fun foldV :: "('b \<Rightarrow> 's \<Rightarrow> 's vres) \<Rightarrow> 'b list \<Rightarrow> 's \<Rightarrow> 's vres" where
  "foldV f [] s = Inr s"
| "foldV f (x # xs) s = bindV (f x s) (foldV f xs)"

definition reads :: "Allocator \<Rightarrow> ('b \<Rightarrow> 'a \<Rightarrow> bool) \<Rightarrow> 'a vres \<Rightarrow> 'b eval \<Rightarrow> bool" where
  "reads a Q sp m \<longleftrightarrow>
     (case sp of
        Inr x \<Rightarrow> \<exists>y. m = Ok y \<and> Q y x
      | Inl (t, s) \<Rightarrow> \<exists>n. m = Err (EvalErr n s) \<and> rep a n t)"

definition refines :: "(Cost \<times> clvm) vres \<Rightarrow> Response \<times> Allocator \<Rightarrow> bool" where
  "refines sp m \<longleftrightarrow>
     safe (\<lambda>a r. \<exists>v. sp = Inr (red_cost r, v) \<and> rep a (red_node r) v) (alloc_msgs \<union> {e. sp = Inl e}) m"

lemma reads_Ok [intro]: "Q y x \<Longrightarrow> reads a Q (Inr x) (Ok y)"
  by (simp add: reads_def)

lemma reads_err [intro]: "rep a n t \<Longrightarrow> reads a Q (Inl (t, s)) (err n s)"
  by (auto simp: reads_def err_def)

lemma reads_Err [intro]: "rep a n t \<Longrightarrow> reads a Q (Inl (t, s)) (Err (EvalErr n s))"
  by (auto simp: reads_def)

lemma reads_Inr: "reads a (=) (Inr x) m \<longleftrightarrow> m = Ok x"
  by (auto simp: reads_def)

lemma reads_bind:
  "reads a P sp m \<Longrightarrow> (\<And>x y. sp = Inr x \<Longrightarrow> P y x \<Longrightarrow> reads a Q (g x) (f y)) \<Longrightarrow> reads a Q (bindV sp g) (bindR m f)"
proof (cases sp)
  case (Inr x)
  assume "reads a P sp m" and step: "\<And>x y. sp = Inr x \<Longrightarrow> P y x \<Longrightarrow> reads a Q (g x) (f y)"
  then obtain y where "m = Ok y" "P y x" using Inr by (auto simp: reads_def)
  with step Inr show ?thesis by simp
qed (auto simp: reads_def)

lemma reads_foldR:
  assumes body: "\<And>n t s s'. rep a n t \<Longrightarrow> S s' s \<Longrightarrow> reads a S (g t s) (f n s')"
  shows "list_all2 (rep a) ns ts \<Longrightarrow> S s' s \<Longrightarrow> reads a S (foldV g ts s) (foldR f ns s')"
  by (induction arbitrary: s s' rule: list_all2_induct) (auto intro!: reads_bind body)

lemma reads_while:
  assumes "alloc_ok a" "rep a n t" "\<And>n t s s'. rep a n t \<Longrightarrow> S s' s \<Longrightarrow> reads a S (g t s) (f n s')" "S s' s"
  shows "reads a S (foldV g (citems t) s) (while_next a n s' f)"
  unfolding while_next_rep [OF assms(1,2)]
  by (rule reads_foldR [OF assms(3) rep_node_items [OF assms(2)] assms(4)])

lemma refines_Ok: "alloc_ok a \<Longrightarrow> rep a n v \<Longrightarrow> refines (Inr (c, v)) (Ok (Reduction c n), a)"
  by (simp add: refines_def safe_def)

lemma refines_err: "alloc_ok a \<Longrightarrow> rep a n t \<Longrightarrow> refines (Inl (t, s)) (err n s, a)"
  by (auto simp: refines_def safe_def err_def)

lemma refines_Err: "alloc_ok a \<Longrightarrow> rep a n t \<Longrightarrow> refines (Inl (t, s)) (Err (EvalErr n s), a)"
  by (auto simp: refines_def safe_def)

lemma refines_tryR:
  assumes "alloc_ok a" "reads a Q sp m" "\<And>x y. sp = Inr x \<Longrightarrow> Q y x \<Longrightarrow> refines (g x) (f y)"
  shows "refines (bindV sp g) (tryR m a f)"
proof (cases sp)
  case (Inl e)
  then show ?thesis using assms(1,2) by (cases e) (auto simp: reads_def refines_def safe_def)
next
  case (Inr x)
  then show ?thesis using assms(2,3) by (auto simp: reads_def)
qed

lemma refines_tryS:
  assumes "safe P alloc_msgs m" "\<And>p a'. m = (Ok p, a') \<Longrightarrow> extends a' (snd (f p a'))"
    "\<And>p a'. m = (Ok p, a') \<Longrightarrow> alloc_ok a' \<Longrightarrow> P a' p \<Longrightarrow> refines sp (f p a')"
  shows "refines sp (tryS m f)"
  unfolding refines_def
proof (rule safe_tryS [OF _ assms(2)])
  show "safe P (alloc_msgs \<union> {e. sp = Inl e}) m" by (rule safe_mono [OF assms(1)]) auto
qed (use assms(3) in \<open>auto simp: refines_def\<close>)

section \<open>The readers on values\<close>

fun v_cost :: "Cost \<Rightarrow> Cost \<Rightarrow> unit vres" where
  "v_cost cost max_cost = (if cost > max_cost then Inl (CAtom [], ''cost exceeded'') else Inr ())"

definition v_args :: "nat \<Rightarrow> clvm \<Rightarrow> string \<Rightarrow> clvm list vres" where
  "v_args N t name =
     (if length (citems t) = N then Inr (citems t)
      else Inl (t, name @ '' takes exactly '' @ dec_string N @ '' argument'' @ plural N))"

definition v_varargs :: "nat \<Rightarrow> clvm \<Rightarrow> string \<Rightarrow> (clvm list \<times> nat) vres" where
  "v_varargs N t name =
     (if length (citems t) \<le> N
      then Inr (citems t @ replicate (N - length (citems t)) (CAtom []), length (citems t))
      else Inl (t, name @ '' takes no more than '' @ dec_string N @ '' argument'' @ plural N))"

fun v_atom :: "string \<Rightarrow> clvm \<Rightarrow> bytes vres" where
  "v_atom msg (CAtom bs) = Inr bs"
| "v_atom msg (CPair l r) = Inl (CPair l r, msg)"

definition v_int :: "string \<Rightarrow> clvm \<Rightarrow> (int \<times> nat) vres" where
  "v_int name t = bindV (v_atom (name @ '' requires int args'') t) (\<lambda>bs. Inr (be_signed bs, length bs))"

definition v_i32 :: "string \<Rightarrow> clvm \<Rightarrow> int vres" where
  "v_i32 name t = bindV (v_atom (name @ '' requires int32 args'') t) (\<lambda>bs.
     if length bs \<le> 4 then Inr (be_signed bs)
     else Inl (t, name @ '' requires int32 args (with no leading zeros)''))"

definition v_uint :: "nat \<Rightarrow> string \<Rightarrow> clvm \<Rightarrow> u64 vres" where
  "v_uint SIZE name t = bindV (v_atom (name @ '' requires int arg'') t) (\<lambda>bs.
     if be_signed bs < 0 then Inl (t, name @ '' requires positive int arg'')
     else if be_signed bs < 256 ^ SIZE then Inr (of_int (be_signed bs))
     else Inl (t, name @ '' requires u'' @ dec_string (SIZE * 8) @ '' arg''))"

declare v_cost.simps [simp del]

lemma reads_check_cost: "reads a (=) (v_cost c m) (check_cost a c m)"
  by (auto simp: check_cost_def reads_def v_cost.simps)

lemma match_args_rep:
  "rep a n t \<Longrightarrow> match_args N a n = Ok (if length (citems t) = N then Some (node_items a n t) else None)"
proof (induction t arbitrary: n N)
  case (CAtom bs)
  then show ?case by (cases N) (simp_all add: rep_next_atom)
next
  case (CPair l r)
  then show ?case by (cases N) (simp_all add: rep_next_pair rep_prest)
qed

lemma varargs_loop_rep:
  "rep a n t \<Longrightarrow> varargs_loop N a n = Ok (if length (citems t) \<le> N then Some (node_items a n t) else None)"
proof (induction t arbitrary: n N)
  case (CAtom bs)
  then show ?case by (cases N) (simp_all add: rep_next_atom)
next
  case (CPair l r)
  then show ?case by (cases N) (simp_all add: rep_next_pair rep_prest)
qed

lemma reads_get_args: "rep a n t \<Longrightarrow> reads a (list_all2 (rep a)) (v_args N t name) (get_args N a n name)"
  by (auto simp: get_args_def v_args_def match_args_rep rep_node_items)

lemma length_node_items [simp]: "length (node_items a n t) = length (citems t)"
  by (induction t arbitrary: n) auto

lemma rep_replicate: "list_all2 (rep a) (replicate k node_NIL) (replicate k (CAtom []))"
  by (simp add: list_all2_conv_all_nth)

lemma reads_get_varargs:
  "rep a n t \<Longrightarrow>
   reads a (rel_prod (list_all2 (rep a)) (=)) (v_varargs N t name) (get_varargs N a n name)"
  by (auto simp: get_varargs_def v_varargs_def varargs_loop_rep rep_node_items rep_replicate
      intro!: reads_Ok reads_err list_all2_appendI)

lemma reads_atom_len:
  "rep a n t \<Longrightarrow> reads a (=) (bindV (v_atom (name @ '' requires an atom'') t) (\<lambda>bs. Inr (length bs))) (util_atom_len a n name)"
  by (cases t) (auto simp: util_atom_len_def rep_sexp_atom rep_sexp_pair rep_atom_len)

lemma reads_atom_bytes:
  "rep a n t \<Longrightarrow> reads a (=) (v_atom (name @ '' on list'') t) (util_atom_bytes a n name)"
proof (cases t)
  case (CAtom bs)
  assume "rep a n t"
  with CAtom show ?thesis
    using rep_is_pair [of a n t] rep_atom_bytes [of a n bs]
    by (auto simp: util_atom_bytes_def util_atom_def reads_def atom_bytes_def rep_is_pair)
next
  case (CPair l r)
  assume "rep a n t"
  with CPair show ?thesis by (auto simp: util_atom_bytes_def util_atom_def rep_is_pair err_def)
qed

lemma reads_int_atom:
  assumes "bigint_laws B" "rep a n t"
  shows "reads a (=) (v_int name t) (int_atom B a n name)"
  using assms(2)
  by (cases t) (auto simp: int_atom_def v_int_def rep_sexp_atom rep_sexp_pair rep_atom_len rep_number [OF assms(1)])

lemma nilp_rep: "rep a n t \<Longrightarrow> nilp a n = Ok (t = CAtom [])"
  by (cases t) (auto simp: nilp_def rep_sexp_atom rep_sexp_pair rep_atom_len)


lemma shift_in_u32: "shift_in (r :: u32) bs = r * 256 ^ length bs + of_nat (be_nat bs)"
proof -
  have "unat (shift_in r bs) = unat (of_nat (unat r * 256 ^ length bs + be_nat bs) :: u32)"
    using unat_shift_in [where ?'w = 32, of r bs] by (simp only: unat_of_nat) simp
  then have "shift_in r bs = of_nat (unat r * 256 ^ length bs + be_nat bs)" by (simp only: word_unat_eq_iff)
  then show ?thesis by simp
qed

lemma i32_from_u8_eq: "i32_from_u8 bs = (if length bs \<le> 4 then Some (be_signed bs) else None)"
proof (cases "bs = [] \<or> 4 < length bs")
  case False
  then have ne: "bs \<noteq> []" and l: "length bs \<le> 4" by auto
  have p32: "(4294967296 :: u32) = 0"
  proof -
    have "(2 :: u32) ^ 32 = 0" by (simp add: exp_eq_zero_iff)
    then show ?thesis by simp
  qed
  have "u32_from_u8_impl bs True = Some (of_int (be_signed bs))"
    using ne l
    by (auto simp: p32 u32_from_u8_impl_def Let_def shift_in_u32 and_80 be_signed_def hd_conv_nth not_less)
  moreover have "(256 :: int) ^ length bs \<le> 256 ^ 4" using l by (intro power_increasing) auto
  then have "- 2147483648 \<le> be_signed bs" "be_signed bs < 2147483648"
    using be_signed_range [OF ne] by simp_all
  then have "sint (of_int (be_signed bs) :: u32) = be_signed bs"
    by (simp add: sint_sbintrunc' signed_take_bit_int_eq_self_iff)
  ultimately show ?thesis using l by (simp add: i32_from_u8_def)
qed (auto simp: i32_from_u8_def u32_from_u8_impl_def)

lemma u32_from_u8_eq: "u32_from_u8 bs = (if length bs \<le> 4 then Some (of_nat (be_nat bs)) else None)"
  by (auto simp: u32_from_u8_def u32_from_u8_impl_def Let_def shift_in_u32)

lemma small_be_signed:
  assumes "rep a n (CAtom bs)" "node_kind n = Some OSmallAtom"
  shows "be_signed bs = uint (index n)" "length bs \<le> 4" "uint (index n) < 67108864"
proof -
  have "int (node_idx n) < 67108864" using node_idx_less [of n] by linarith
  then show lt: "uint (index n) < 67108864" by (simp add: node_idx_def)
  have "len_for_value (index n) \<le> 4" using lt by (auto simp: len_for_value_def word_less_def)
  then show "length bs \<le> 4" using rep_small_bytes [OF assms] by (simp add: len_for_value_eq)
  show "be_signed bs = uint (index n)" using rep_small_bytes [OF assms] by simp
qed

lemma reads_i32_atom:
  assumes "rep a n t"
  shows "reads a (=) (v_i32 name t) (i32_atom a n name)"
proof (cases t)
  case (CAtom bs)
  then have r: "rep a n (CAtom bs)" using assms by simp
  from r show ?thesis
  proof (cases rule: rep_atom_cases)
    case buf
    show ?thesis using CAtom assms
      by (auto simp: i32_atom_def v_i32_def i32_from_u8_eq rep_node_buffer [OF r buf(1)])
  next
    case small
    note s = small_be_signed [OF r small(1)]
    have "sint (index n) = uint (index n)" using s(3) order_trans [OF _ uint_ge_0, of "- 2147483648" "index n"]
      by (simp add: sint_uint signed_take_bit_int_eq_self_iff)
    then show ?thesis using CAtom s by (simp add: i32_atom_def v_i32_def rep_node_small small reads_Inr)
  qed
next
  case (CPair l r)
  then show ?thesis using assms by (auto simp: i32_atom_def v_i32_def rep_node_pair)
qed


lemma be_nat_strip: "be_nat (strip_leading_zeros bs) = be_nat bs"
  by (induction bs) (auto simp: be_nat_Cons)

lemma strip_length_iff: "length (strip_leading_zeros bs) \<le> k \<longleftrightarrow> be_nat bs < 256 ^ k"
proof (cases "strip_leading_zeros bs")
  case Nil
  then show ?thesis using be_nat_strip [of bs] by simp
next
  case (Cons b rest)
  have b: "b \<noteq> 0" using Cons by (induction bs) (auto split: if_splits)
  then have b1: "1 \<le> unat b" by (simp add: Suc_le_eq unat_gt_0)
  have val: "be_nat bs = unat b * 256 ^ length rest + be_nat rest"
    using be_nat_strip [of bs] Cons by (simp add: be_nat_Cons)
  show ?thesis
  proof
    assume "length (strip_leading_zeros bs) \<le> k"
    then have "(256 :: nat) ^ length (strip_leading_zeros bs) \<le> 256 ^ k" by (intro power_increasing) auto
    then show "be_nat bs < 256 ^ k" using be_nat_less [of "strip_leading_zeros bs"] be_nat_strip [of bs] by linarith
  next
    assume lt: "be_nat bs < 256 ^ k"
    have "1 * 256 ^ length rest \<le> unat b * 256 ^ length rest" using b1 by (rule mult_right_mono) simp
    then have "(256 :: nat) ^ length rest < 256 ^ k" using val lt by linarith
    then have "length rest < k" by simp
    then show "length (strip_leading_zeros bs) \<le> k" using Cons by simp
  qed
qed

lemma reads_uint_atom:
  assumes "rep a n t" and sz: "SIZE = 4 \<or> SIZE = 8"
  shows "reads a (=) (v_uint SIZE name t) (uint_atom SIZE a n name)"
proof (cases t)
  case (CAtom bs)
  then have r: "rep a n (CAtom bs)" using assms by simp
  from r show ?thesis
  proof (cases rule: rep_atom_cases)
    case buf
    note node = rep_node_buffer [OF r buf(1)]
    show ?thesis
    proof (cases "bs = [] \<or> be_signed bs < 0")
      case True
      then show ?thesis using CAtom assms be_signed_nonneg_iff [of bs]
        by (auto simp: uint_atom_def v_uint_def node and_80 hd_conv_nth not_less)
    next
      case False
      then have v: "be_signed bs = int (be_nat bs)" and ne: "bs \<noteq> []" and h: "unat (hd bs) < 128"
        using be_signed_nonneg be_signed_nonneg_iff [of bs] by auto
      have fits: "be_signed bs < 256 ^ SIZE \<longleftrightarrow> length (strip_leading_zeros bs) \<le> SIZE"
        unfolding strip_length_iff v by (metis of_nat_less_iff of_nat_numeral of_nat_power)
      have "shift_in 0 (strip_leading_zeros bs) = (of_nat (be_nat bs) :: u64)" if "length (strip_leading_zeros bs) \<le> SIZE"
      proof -
        have "be_nat bs < 256 ^ SIZE" using that strip_length_iff by simp
        also have "(256 :: nat) ^ SIZE \<le> 256 ^ 8" using sz by auto
        finally have lt: "be_nat bs < 18446744073709551616" by simp
        then have "unat (shift_in 0 (strip_leading_zeros bs) :: u64) = be_nat bs"
          using unat_shift_in_u64 [of "strip_leading_zeros bs"] by (simp add: be_nat_strip)
        then show ?thesis using lt by (simp add: word_unat_eq_iff unat_of_nat)
      qed
      then show ?thesis using False ne h CAtom assms fits
        by (auto simp: uint_atom_def v_uint_def node and_80 hd_conv_nth Let_def v)
    qed
  next
    case small
    note s = small_be_signed [OF r small(1)]
    have "(256 :: int) ^ 4 \<le> 256 ^ SIZE" using sz by auto
    then have "uint (index n) < 256 ^ SIZE" using s(3) by simp
    then show ?thesis using CAtom s
      by (simp add: uint_atom_def v_uint_def rep_node_small small reads_Inr)
  qed
next
  case (CPair l r)
  then show ?thesis using assms by (auto simp: uint_atom_def v_uint_def rep_node_pair)
qed

lemma reads_first:
  "rep a n t \<Longrightarrow> reads a (rep a) (case t of CPair l r \<Rightarrow> Inr l | CAtom bs \<Rightarrow> Inl (t, ''first of non-cons'')) (util_first a n)"
  by (cases t) (auto simp: util_first_def rep_sexp_atom rep_sexp_pair intro: rep_pfirst)

lemma reads_rest:
  "rep a n t \<Longrightarrow> reads a (rep a) (case t of CPair l r \<Rightarrow> Inr r | CAtom bs \<Rightarrow> Inl (t, ''rest of non-cons'')) (util_rest a n)"
  by (cases t) (auto simp: util_rest_def rep_sexp_atom rep_sexp_pair intro: rep_prest)

lemma extends_new_atom_and_cost [ext_intros]: "extends a (snd (new_atom_and_cost a c bs))"
  by (auto simp: new_atom_and_cost_def Let_def intro!: ext_intros)

lemma refines_new_atom_and_cost:
  "alloc_ok a \<Longrightarrow> refines (Inr (c + of_nat (length bs) * 10, CAtom bs)) (new_atom_and_cost a c bs)"
  unfolding new_atom_and_cost_def Let_def MALLOC_COST_PER_BYTE_def
  by (rule refines_tryS [OF safe_new_atom]) (auto intro: refines_Ok)

lemma mod_group_order_eq: "mod_group_order n = n mod GROUP_ORDER"
proof -
  have "0 \<le> n mod GROUP_ORDER" by (simp add: GROUP_ORDER_def)
  then show ?thesis by (simp add: mod_group_order_def Let_def)
qed

end
