(* ===== verification/CoreOps.thy ===== *)
theory CoreOps
  imports OpUtils
begin

text \<open>
  The core operators, \<open>src/src/core_ops.rs\<close>: \<open>i c f r l x =\<close>. Each handler takes the
  allocator, the argument list and the remaining cost, and returns a response and the
  allocator. Below each group, the handlers are shown to refine functions on values that say
  what they return, at what cost, and with which error.
\<close>

section \<open>Handlers\<close>

type_synonym OpHandler = "Allocator \<Rightarrow> NodePtr \<Rightarrow> Cost \<Rightarrow> Response \<times> Allocator"

definition FIRST_COST :: Cost where "FIRST_COST = 30"
definition IF_COST :: Cost where "IF_COST = 33"
definition CONS_COST :: Cost where "CONS_COST = 50"
definition REST_COST :: Cost where "REST_COST = 30"
definition LISTP_COST :: Cost where "LISTP_COST = 19"
definition EQ_BASE_COST :: Cost where "EQ_BASE_COST = 117"
definition EQ_COST_PER_BYTE :: Cost where "EQ_COST_PER_BYTE = 1"

lemmas core_costs = FIRST_COST_def IF_COST_def CONS_COST_def REST_COST_def LISTP_COST_def
  EQ_BASE_COST_def EQ_COST_PER_BYTE_def

definition op_if :: OpHandler where
  "op_if a input max_cost =
     tryR (get_args 3 a input ''i'') a (\<lambda>args.
     let cond = args ! 0; affirmative = args ! 1; negative = args ! 2 in
     tryR (nilp a cond) a (\<lambda>c.
     let chosen_node = if c then negative else affirmative in
     (Ok (Reduction IF_COST chosen_node), a)))"

definition op_cons :: OpHandler where
  "op_cons a input max_cost =
     tryR (get_args 2 a input ''c'') a (\<lambda>args.
     let n1 = args ! 0; n2 = args ! 1 in
     tryS (new_pair a n1 n2) (\<lambda>r a. (Ok (Reduction CONS_COST r), a)))"

definition op_first :: OpHandler where
  "op_first a input max_cost =
     tryR (get_args 1 a input ''f'') a (\<lambda>args.
     let n = args ! 0 in
     tryR (util_first a n) a (\<lambda>r. (Ok (Reduction FIRST_COST r), a)))"

definition op_rest :: OpHandler where
  "op_rest a input max_cost =
     tryR (get_args 1 a input ''r'') a (\<lambda>args.
     let n = args ! 0 in
     tryR (util_rest a n) a (\<lambda>r. (Ok (Reduction REST_COST r), a)))"

definition op_listp :: OpHandler where
  "op_listp a input max_cost =
     tryR (get_args 1 a input ''l'') a (\<lambda>args.
     let n = args ! 0 in
     tryR (sexp a n) a (\<lambda>s. case s of
       SPair _ _ \<Rightarrow> (Ok (Reduction LISTP_COST (one a)), a)
     | SAtom \<Rightarrow> (Ok (Reduction LISTP_COST (nil a)), a)))"

definition op_raise :: OpHandler where
  "op_raise a input max_cost =
     (case get_args 1 a input '''' of
        Panic p \<Rightarrow> (Panic p, a)
      | Err _ \<Rightarrow> (err input ''clvm raise'', a)
      | Ok args \<Rightarrow>
          let value = args ! 0 in
          tryR (sexp a value) a (\<lambda>s.
          let throw_value = (case s of SAtom \<Rightarrow> value | SPair _ _ \<Rightarrow> input) in
          (err throw_value ''clvm raise'', a)))"

definition ensure_atom :: "Allocator \<Rightarrow> NodePtr \<Rightarrow> string \<Rightarrow> unit eval" where
  "ensure_atom a n op =
     bindR (sexp a n) (\<lambda>s. case s of
       SAtom \<Rightarrow> Ok ()
     | SPair _ _ \<Rightarrow> Err (EvalErr n (op @ '' on list'')))"

definition op_eq :: OpHandler where
  "op_eq a input max_cost =
     tryR (get_args 2 a input ''='') a (\<lambda>args.
     let s0 = args ! 0; s1 = args ! 1 in
     tryR (ensure_atom a s0 ''='') a (\<lambda>_.
     tryR (ensure_atom a s1 ''='') a (\<lambda>_.
     tryR (atom_eq a s0 s1) a (\<lambda>eq.
     tryR (atom_len a s0) a (\<lambda>l0.
     tryR (atom_len a s1) a (\<lambda>l1.
     let cost = EQ_BASE_COST + (of_nat l0 + of_nat l1) * EQ_COST_PER_BYTE in
     (Ok (Reduction cost (if eq then one a else nil a)), a)))))))"

section \<open>On values\<close>

definition v_if :: "clvm \<Rightarrow> (Cost \<times> clvm) vres" where
  "v_if t = bindV (v_args 3 t ''i'') (\<lambda>ts. Inr (33, if ts ! 0 = CAtom [] then ts ! 2 else ts ! 1))"

definition v_cons :: "clvm \<Rightarrow> (Cost \<times> clvm) vres" where
  "v_cons t = bindV (v_args 2 t ''c'') (\<lambda>ts. Inr (50, CPair (ts ! 0) (ts ! 1)))"

definition v_first :: "clvm \<Rightarrow> (Cost \<times> clvm) vres" where
  "v_first t = bindV (v_args 1 t ''f'') (\<lambda>ts.
     bindV (case ts ! 0 of CPair l r \<Rightarrow> Inr l | CAtom bs \<Rightarrow> Inl (ts ! 0, ''first of non-cons'')) (\<lambda>v. Inr (30, v)))"

definition v_rest :: "clvm \<Rightarrow> (Cost \<times> clvm) vres" where
  "v_rest t = bindV (v_args 1 t ''r'') (\<lambda>ts.
     bindV (case ts ! 0 of CPair l r \<Rightarrow> Inr r | CAtom bs \<Rightarrow> Inl (ts ! 0, ''rest of non-cons'')) (\<lambda>v. Inr (30, v)))"

definition v_bool :: "bool \<Rightarrow> clvm" where
  "v_bool b = CAtom (if b then [1] else [])"

definition is_cpair :: "clvm \<Rightarrow> bool" where
  "is_cpair t = (case t of CPair _ _ \<Rightarrow> True | CAtom _ \<Rightarrow> False)"

definition v_listp :: "clvm \<Rightarrow> (Cost \<times> clvm) vres" where
  "v_listp t = bindV (v_args 1 t ''l'') (\<lambda>ts. Inr (19, v_bool (is_cpair (ts ! 0))))"

definition v_raise :: "clvm \<Rightarrow> (Cost \<times> clvm) vres" where
  "v_raise t = (case citems t of
     [CAtom bs] \<Rightarrow> Inl (CAtom bs, ''clvm raise'')
   | _ \<Rightarrow> Inl (t, ''clvm raise''))"

definition v_eq :: "clvm \<Rightarrow> (Cost \<times> clvm) vres" where
  "v_eq t = bindV (v_args 2 t ''='') (\<lambda>ts.
     bindV (v_atom ''= on list'' (ts ! 0)) (\<lambda>x.
     bindV (v_atom ''= on list'' (ts ! 1)) (\<lambda>y.
     Inr (117 + (of_nat (length x) + of_nat (length y)), v_bool (x = y)))))"

lemma v_args_Inr: "v_args N t name = Inr ts \<longleftrightarrow> ts = citems t \<and> length (citems t) = N"
  by (auto simp: v_args_def)

lemma args_nth: "list_all2 (rep a) ns ts \<Longrightarrow> i < length ts \<Longrightarrow> rep a (ns ! i) (ts ! i)"
  using list_all2_nthD2 by blast

lemma rep_v_bool: "rep a (if b then one a else nil a) (v_bool b)"
  by (simp add: v_bool_def rep_one)

text \<open>
  The step every handler starts with: its arguments are read, or the wrong number of them is
  reported.
\<close>

lemma refines_args:
  assumes "alloc_ok a" "rep a n t"
    "\<And>ns ts. list_all2 (rep a) ns ts \<Longrightarrow> length ts = N \<Longrightarrow> length ns = N \<Longrightarrow> ts = citems t \<Longrightarrow> refines (g ts) (f ns)"
  shows "refines (bindV (v_args N t name) g) (tryR (get_args N a n name) a f)"
  using assms by (intro refines_tryR [OF assms(1) reads_get_args [OF assms(2)]])
    (auto simp: v_args_Inr dest: list_all2_lengthD)

named_theorems op_refines \<open>operators refine their value-level specifications\<close>

lemma refines_op_if [op_refines]: "alloc_ok a \<Longrightarrow> rep a n t \<Longrightarrow> refines (v_if t) (op_if a n m)"
  unfolding op_if_def v_if_def core_costs
  by (rule refines_args) (auto simp: Let_def nilp_rep [OF args_nth] intro!: refines_Ok args_nth)

lemma refines_op_cons [op_refines]: "alloc_ok a \<Longrightarrow> rep a n t \<Longrightarrow> refines (v_cons t) (op_cons a n m)"
  unfolding op_cons_def v_cons_def core_costs
  by (rule refines_args, assumption+)
     (auto simp: Let_def alloc_msgs_def intro!: refines_tryS [OF safe_new_pair] refines_Ok args_nth)

lemma refines_op_first [op_refines]: "alloc_ok a \<Longrightarrow> rep a n t \<Longrightarrow> refines (v_first t) (op_first a n m)"
  unfolding op_first_def v_first_def core_costs
  by (rule refines_args, assumption+)
     (auto simp: Let_def intro!: refines_tryR [OF _ reads_first] refines_Ok args_nth)

lemma refines_op_rest [op_refines]: "alloc_ok a \<Longrightarrow> rep a n t \<Longrightarrow> refines (v_rest t) (op_rest a n m)"
  unfolding op_rest_def v_rest_def core_costs
  by (rule refines_args, assumption+)
     (auto simp: Let_def intro!: refines_tryR [OF _ reads_rest] refines_Ok args_nth)

lemma sexp_rep: "rep a n t \<Longrightarrow> sexp a n = Ok (case t of CAtom _ \<Rightarrow> SAtom | CPair _ _ \<Rightarrow> SPair (pfirst a n) (prest a n))"
  by (cases t) (simp_all add: rep_sexp_atom rep_sexp_pair)

lemma refines_op_listp [op_refines]: "alloc_ok a \<Longrightarrow> rep a n t \<Longrightarrow> refines (v_listp t) (op_listp a n m)"
  unfolding op_listp_def v_listp_def core_costs is_cpair_def v_bool_def
  by (rule refines_args, assumption+)
     (auto simp: Let_def sexp_rep [OF args_nth] intro!: refines_Ok rep_one split: clvm.splits)

lemma refines_op_raise [op_refines]: "alloc_ok a \<Longrightarrow> rep a n t \<Longrightarrow> refines (v_raise t) (op_raise a n m)"
proof (cases "length (citems t) = 1")
  case True
  assume a: "alloc_ok a" and n: "rep a n t"
  from True obtain u where u: "citems t = [u]" by (cases "citems t") auto
  have "reads a (list_all2 (rep a)) (v_args 1 t '''') (get_args 1 a n '''')" using n by (rule reads_get_args)
  then obtain x where x: "get_args 1 a n '''' = Ok [x]" "rep a x u"
    using u by (auto simp: v_args_def reads_def list_all2_Cons2)
  show ?thesis using a n x u unfolding op_raise_def v_raise_def
    by (cases u) (auto simp: sexp_rep [OF x(2)] Let_def intro: refines_err)
next
  case False
  assume a: "alloc_ok a" and n: "rep a n t"
  have "reads a (list_all2 (rep a)) (v_args 1 t '''') (get_args 1 a n '''')" using n by (rule reads_get_args)
  then obtain e where "get_args 1 a n '''' = Err e" using False by (auto simp: v_args_def reads_def)
  moreover have "v_raise t = Inl (t, ''clvm raise'')"
    using False by (auto simp: v_raise_def split: list.splits clvm.splits)
  ultimately show ?thesis using refines_err [OF a n] by (simp add: op_raise_def)
qed

lemma reads_ensure_atom:
  "rep a n t \<Longrightarrow> reads a (\<lambda>_ bs. t = CAtom bs) (v_atom (name @ '' on list'') t) (ensure_atom a n name)"
  by (cases t) (auto simp: ensure_atom_def rep_sexp_atom rep_sexp_pair)

lemma refines_op_eq [op_refines]: "alloc_ok a \<Longrightarrow> rep a n t \<Longrightarrow> refines (v_eq t) (op_eq a n m)"
  unfolding op_eq_def v_eq_def core_costs
proof (rule refines_args, assumption+, unfold Let_def)
  fix ns ts
  assume a: "alloc_ok a" and r: "list_all2 (rep a) ns ts" "length ts = 2"
  have r0: "rep a (ns ! 0) (ts ! 0)" and r1: "rep a (ns ! 1) (ts ! 1)" using r by (auto intro: args_nth)
  show "refines (bindV (v_atom ''= on list'' (ts ! 0)) (\<lambda>x. bindV (v_atom ''= on list'' (ts ! 1)) (\<lambda>y.
       Inr (117 + (of_nat (length x) + of_nat (length y)), v_bool (x = y)))))
    (tryR (ensure_atom a (ns ! 0) ''='') a (\<lambda>_. tryR (ensure_atom a (ns ! 1) ''='') a (\<lambda>_.
     tryR (atom_eq a (ns ! 0) (ns ! 1)) a (\<lambda>eq. tryR (atom_len a (ns ! 0)) a (\<lambda>l0. tryR (atom_len a (ns ! 1)) a (\<lambda>l1.
     (Ok (Reduction (117 + (of_nat l0 + of_nat l1) * 1) (if eq then one a else nil a)), a)))))))"
    using r0 r1 reads_ensure_atom [OF r0, of "''=''"] reads_ensure_atom [OF r1, of "''=''"] a
    by (auto simp: rep_atom_eq rep_atom_len v_bool_def rep_one intro!: refines_tryR refines_Ok)
qed

lemma extends_core_ops [ext_intros]:
  "extends a (snd (op_if a n m))" "extends a (snd (op_cons a n m))" "extends a (snd (op_first a n m))"
  "extends a (snd (op_rest a n m))" "extends a (snd (op_listp a n m))" "extends a (snd (op_raise a n m))"
  "extends a (snd (op_eq a n m))"
  by (auto simp: op_if_def op_cons_def op_first_def op_rest_def op_listp_def op_raise_def op_eq_def Let_def
      intro!: ext_intros split: SExp.splits outcome.splits)

end
