(* ===== verification/MoreOps.thy ===== *)
theory MoreOps
  imports CoreOps
begin

unbundle bit_operations_syntax

text \<open>
  The arithmetic, logic, string, hash and point operators of \<open>src/src/more_ops.rs\<close>, and
  \<open>op_unknown\<close>, which gives every unassigned opcode a cost. Costs are \<open>u64\<close> words and
  wrap as they do in the code. A streaming hasher is the digest of the concatenation of what
  is fed to it.
\<close>

section \<open>Costs\<close>

definition ARITH_BASE_COST :: Cost where "ARITH_BASE_COST = 99"
definition ARITH_COST_PER_ARG :: Cost where "ARITH_COST_PER_ARG = 320"
definition ARITH_COST_PER_BYTE :: Cost where "ARITH_COST_PER_BYTE = 3"
definition LOG_BASE_COST :: Cost where "LOG_BASE_COST = 100"
definition LOG_COST_PER_ARG :: Cost where "LOG_COST_PER_ARG = 264"
definition LOG_COST_PER_BYTE :: Cost where "LOG_COST_PER_BYTE = 3"
definition LOGNOT_BASE_COST :: Cost where "LOGNOT_BASE_COST = 331"
definition LOGNOT_COST_PER_BYTE :: Cost where "LOGNOT_COST_PER_BYTE = 3"
definition MUL_BASE_COST :: Cost where "MUL_BASE_COST = 92"
definition MUL_COST_PER_OP :: Cost where "MUL_COST_PER_OP = 885"
definition MUL_LINEAR_COST_PER_BYTE :: Cost where "MUL_LINEAR_COST_PER_BYTE = 6"
definition MUL_SQUARE_COST_PER_BYTE_DIVIDER :: Cost where "MUL_SQUARE_COST_PER_BYTE_DIVIDER = 128"
definition GR_BASE_COST :: Cost where "GR_BASE_COST = 498"
definition GR_COST_PER_BYTE :: Cost where "GR_COST_PER_BYTE = 2"
definition GRS_BASE_COST :: Cost where "GRS_BASE_COST = 117"
definition GRS_COST_PER_BYTE :: Cost where "GRS_COST_PER_BYTE = 1"
definition STRLEN_BASE_COST :: Cost where "STRLEN_BASE_COST = 173"
definition STRLEN_COST_PER_BYTE :: Cost where "STRLEN_COST_PER_BYTE = 1"
definition CONCAT_BASE_COST :: Cost where "CONCAT_BASE_COST = 142"
definition CONCAT_COST_PER_ARG :: Cost where "CONCAT_COST_PER_ARG = 135"
definition CONCAT_COST_PER_BYTE :: Cost where "CONCAT_COST_PER_BYTE = 3"
definition DIVMOD_BASE_COST :: Cost where "DIVMOD_BASE_COST = 1116"
definition DIVMOD_COST_PER_BYTE :: Cost where "DIVMOD_COST_PER_BYTE = 6"
definition DIV_BASE_COST :: Cost where "DIV_BASE_COST = 988"
definition DIV_COST_PER_BYTE :: Cost where "DIV_COST_PER_BYTE = 4"
definition SHA256_BASE_COST :: Cost where "SHA256_BASE_COST = 87"
definition SHA256_COST_PER_ARG :: Cost where "SHA256_COST_PER_ARG = 134"
definition SHA256_COST_PER_BYTE :: Cost where "SHA256_COST_PER_BYTE = 2"
definition ASHIFT_BASE_COST :: Cost where "ASHIFT_BASE_COST = 596"
definition ASHIFT_COST_PER_BYTE :: Cost where "ASHIFT_COST_PER_BYTE = 3"
definition LSHIFT_BASE_COST :: Cost where "LSHIFT_BASE_COST = 277"
definition LSHIFT_COST_PER_BYTE :: Cost where "LSHIFT_COST_PER_BYTE = 3"
definition BOOL_BASE_COST :: Cost where "BOOL_BASE_COST = 200"
definition BOOL_COST_PER_ARG :: Cost where "BOOL_COST_PER_ARG = 300"
definition POINT_ADD_BASE_COST :: Cost where "POINT_ADD_BASE_COST = 101094"
definition POINT_ADD_COST_PER_ARG :: Cost where "POINT_ADD_COST_PER_ARG = 1343980"
definition PUBKEY_BASE_COST :: Cost where "PUBKEY_BASE_COST = 1325730"
definition PUBKEY_COST_PER_BYTE :: Cost where "PUBKEY_COST_PER_BYTE = 38"
definition MODPOW_BASE_COST :: Cost where "MODPOW_BASE_COST = 17000"
definition MODPOW_COST_PER_BYTE_BASE_VALUE :: Cost where "MODPOW_COST_PER_BYTE_BASE_VALUE = 38"
definition MODPOW_COST_PER_BYTE_EXPONENT :: Cost where "MODPOW_COST_PER_BYTE_EXPONENT = 3"
definition MODPOW_COST_PER_BYTE_MOD :: Cost where "MODPOW_COST_PER_BYTE_MOD = 21"

text \<open>A discount of 153 on the price of the \<open>sha256\<close> call it replaces.\<close>

definition COINID_COST :: Cost where
  "COINID_COST = SHA256_BASE_COST + SHA256_COST_PER_ARG * 3 + SHA256_COST_PER_BYTE * (32 + 32 + 8) - 153"

lemmas more_costs =
  ARITH_BASE_COST_def ARITH_COST_PER_ARG_def ARITH_COST_PER_BYTE_def LOG_BASE_COST_def LOG_COST_PER_ARG_def
  LOG_COST_PER_BYTE_def LOGNOT_BASE_COST_def LOGNOT_COST_PER_BYTE_def MUL_BASE_COST_def MUL_COST_PER_OP_def
  MUL_LINEAR_COST_PER_BYTE_def MUL_SQUARE_COST_PER_BYTE_DIVIDER_def GR_BASE_COST_def GR_COST_PER_BYTE_def
  GRS_BASE_COST_def GRS_COST_PER_BYTE_def STRLEN_BASE_COST_def STRLEN_COST_PER_BYTE_def CONCAT_BASE_COST_def
  CONCAT_COST_PER_ARG_def CONCAT_COST_PER_BYTE_def DIVMOD_BASE_COST_def DIVMOD_COST_PER_BYTE_def
  DIV_BASE_COST_def DIV_COST_PER_BYTE_def SHA256_BASE_COST_def SHA256_COST_PER_ARG_def
  SHA256_COST_PER_BYTE_def ASHIFT_BASE_COST_def ASHIFT_COST_PER_BYTE_def LSHIFT_BASE_COST_def
  LSHIFT_COST_PER_BYTE_def BOOL_BASE_COST_def BOOL_COST_PER_ARG_def POINT_ADD_BASE_COST_def
  POINT_ADD_COST_PER_ARG_def PUBKEY_BASE_COST_def PUBKEY_COST_PER_BYTE_def MODPOW_BASE_COST_def
  MODPOW_COST_PER_BYTE_BASE_VALUE_def MODPOW_COST_PER_BYTE_EXPONENT_def MODPOW_COST_PER_BYTE_MOD_def
  MALLOC_COST_PER_BYTE_def COINID_COST_def

definition limbs_for_int :: "'x bigint_api_scheme \<Rightarrow> int \<Rightarrow> nat" where
  "limbs_for_int B v = (bi_bits B v + 7) div 8"

definition malloc_cost :: "Allocator \<Rightarrow> Cost \<Rightarrow> NodePtr \<Rightarrow> ('e, Reduction) outcome" where
  "malloc_cost a cost ptr =
     bindR (atom_len a ptr) (\<lambda>l.
     let c = of_nat l * MALLOC_COST_PER_BYTE in Ok (Reduction (cost + c) ptr))"

section \<open>Unknown operators\<close>

definition unknown_cost_add :: "Allocator \<Rightarrow> Cost \<Rightarrow> NodePtr \<Rightarrow> Cost \<times> u64 \<Rightarrow> (Cost \<times> u64) eval" where
  "unknown_cost_add a max_cost arg s =
     (let (cost, byte_count) = s; cost = cost + ARITH_COST_PER_ARG in
      bindR (util_atom_len a arg ''unknown op'') (\<lambda>len.
      let byte_count = byte_count + of_nat len in
      bindR (check_cost a (cost + byte_count * ARITH_COST_PER_BYTE) max_cost) (\<lambda>_.
      Ok (cost, byte_count))))"

definition unknown_cost_mul ::
  "Allocator \<Rightarrow> Cost \<Rightarrow> NodePtr \<Rightarrow> Cost \<times> bool \<times> u64 \<Rightarrow> (Cost \<times> bool \<times> u64) eval" where
  "unknown_cost_mul a max_cost arg s =
     (let (cost, first_iter, l0) = s in
      bindR (util_atom_len a arg ''unknown op'') (\<lambda>len.
      if first_iter then Ok (cost, False, of_nat len)
      else
        let l1 = of_nat len;
            cost = cost + MUL_COST_PER_OP;
            cost = cost + (l0 + l1) * MUL_LINEAR_COST_PER_BYTE;
            cost = cost + (l0 * l1) div MUL_SQUARE_COST_PER_BYTE_DIVIDER;
            l0 = l0 + l1
        in bindR (check_cost a cost max_cost) (\<lambda>_. Ok (cost, first_iter, l0))))"

definition unknown_cost_concat :: "Allocator \<Rightarrow> Cost \<Rightarrow> NodePtr \<Rightarrow> Cost \<times> u64 \<Rightarrow> (Cost \<times> u64) eval" where
  "unknown_cost_concat a max_cost arg s =
     (let (cost, total_size) = s; cost = cost + CONCAT_COST_PER_ARG in
      bindR (util_atom_len a arg ''unknown op'') (\<lambda>len.
      let total_size = total_size + of_nat len in
      bindR (check_cost a (cost + total_size * CONCAT_COST_PER_BYTE) max_cost) (\<lambda>_.
      Ok (cost, total_size))))"

definition unknown_cost :: "Allocator \<Rightarrow> u8 \<Rightarrow> NodePtr \<Rightarrow> Cost \<Rightarrow> Cost eval" where
  "unknown_cost a cost_function args max_cost =
     (if cost_function = 0 then Ok 1
      else if cost_function = 1 then
        bindR (while_next a args (ARITH_BASE_COST, 0) (unknown_cost_add a max_cost)) (\<lambda>(cost, byte_count).
        Ok (cost + byte_count * ARITH_COST_PER_BYTE))
      else if cost_function = 2 then
        bindR (while_next a args (MUL_BASE_COST, True, 0) (unknown_cost_mul a max_cost)) (\<lambda>(cost, _, _). Ok cost)
      else if cost_function = 3 then
        bindR (while_next a args (CONCAT_BASE_COST, 0) (unknown_cost_concat a max_cost)) (\<lambda>(cost, total_size).
        Ok (cost + total_size * CONCAT_COST_PER_BYTE))
      else Ok 1)"

definition op_unknown :: "Allocator \<Rightarrow> NodePtr \<Rightarrow> NodePtr \<Rightarrow> Cost \<Rightarrow> Response \<times> Allocator" where
  "op_unknown a opn args max_cost =
     tryR (atom_bytes a opn) a (\<lambda>op.
     if op = [] \<or> (length op \<ge> 2 \<and> op ! 0 = 0xff \<and> op ! 1 = 0xff) then (err opn ''reserved operator'', a)
     else
       let cost_function = drop_bit 6 (op ! (length op - 1) AND 0xc0) in
       (case u32_from_u8 (take (length op - 1) op) of
          None \<Rightarrow> (err opn ''invalid operator'', a)
        | Some v \<Rightarrow>
            let cost_multiplier = ucast v :: u64 in
            tryR (unknown_cost a cost_function args max_cost) a (\<lambda>cost.
            if \<not> cost > 0 then (Panic ''assertion failed: cost > 0'', a)
            else
              tryR (check_cost a cost max_cost) a (\<lambda>_.
              let cost = cost * (cost_multiplier + 1) in
              if cost > of_nat u32_max then (err opn ''invalid operator'', a)
              else (Ok (Reduction cost (nil a)), a)))))"

section \<open>Hashing\<close>

definition PRECOMPUTED_HASHES :: "bytes list" where
  "PRECOMPUTED_HASHES = map (be_bytes 32)
    [0x4bf5122f344554c53bde2ebb8cd2b7e3d1600ad631c385a5d7cce23c7785459a,
     0x9dcf97a184f32623d11a73124ceb99a5709b083721e878a16d78f596718ba7b2,
     0xa12871fee210fb8619291eaea194581cbd2531e4b23759d225f6806923f63222,
     0xc79b932e1e1da3c0e098e5ad2c422937eb904a76cf61d83975a74a68fbb04b99,
     0xa8d5dd63fba471ebcb1f3e8f7c1e1879b7152a6e7298a91ce119a63400ade7c5,
     0xbc5959f43bc6e47175374b6716e53c9a7d72c59424c821336995bad760d9aeb3,
     0x44602a999abbebedf7de0ae1318e4f57e3cb1d67e482a65f9657f7541f3fe4bb,
     0xca6c6588fa01171b200740344d354e8548b7470061fb32a34f4feee470ec281f,
     0x9e6282e4f25e370ce617e21d6fe265e88b9e7b8682cf00059b9d128d9381f09d,
     0xac9e61d54eb6967e212c06aab15408292f8558c48f06f9d705150063c68753b0,
     0xc04b5bb1a5b2eb3e9cd4805420dba5a9d133da5b7adeeafb5474c4adae9faa80,
     0x57bfd1cb0adda3d94315053fda723f2028320faa8338225d99f629e3d46d43a9,
     0x6b6daa8334bbcc8f6b5906b6c04be041d92700b74024f73f50e0a9f0dae5f06f,
     0xc7b89cfb9abf2c4cb212a4840b37d762f4c880b8517b0dadb0c310ded24dd86d,
     0x653b3bb3e18ef84d5b1e8ff9884aecf1950c7a1c98715411c22b987663b86dda,
     0x24255ef5d941493b9978f3aabb0ed07d084ade196d23f463ff058954cbf6e9b6,
     0xaf340aa58ea7d72c2f9a7405f3734167bb27dd2a520d216addef65f8362102b6,
     0x26e7f98cfafee5b213726e22632923bf31bf3e988233235f8f5ca5466b3ac0ed,
     0x115b498ce94335826baa16386cd1e2fde8ca408f6f50f3785964f263cdf37ebe,
     0xd8c50d6282a1ba47f0a23430d177bbfbb72e2b84713745e894f575570f1f3d6e,
     0xdbe726e81a7221a385e007ef9e834a975a4b528c6f55a5d2ece288bee831a3d1,
     0x764c8a3561c7cf261771b4e1969b84c210836f3c034baebac5e49a394a6ee0a9,
     0xdce37f3512b6337d27290436ba9289e2fd6c775494c33668dd177cf811fbd47a,
     0x5809addc9f6926fc5c4e20cf87958858c4454c21cdfc6b02f377f12c06b35cca,
     0xb519be874447e0f0a38ee8ec84ecd2198a9fac778fccce19cc8d87be5d8ed6b1,
     0xae58b7e08e266680e93e46639a2a7e89fde78a6f3c8e4219d1087c406c25c24c,
     0x2986113d3bc27183978188edd7e72c3352c5cd6c8f2de6b65a466fc15bc2b49e,
     0x145bfb83f7b3ef33ac1eada788c187e4d1feb7326bcf340bb060a62e75434854,
     0x387da93c57e24aca43495b2e241399d532048e038ee0ed9ca740c22a06cbce91,
     0xaf2c6f1512d1cabedeaf129e0643863c5741973283e065564f2c00bde7c92fe1,
     0x5df7504bc193ee4c3deadede1459eccca172e87cca35e81f11ce14be5e94acaf,
     0x5d9ae980408df9325fbc46da2612c599ef76949450516ae38bf3b4c64721613d,
     0x3145e7a95720a1db303f2198e796ea848f52b6079b5bf4f47d32fad69c2bce77,
     0xc846f87c9d6bdfaa33038ac78269cfd5a08aa89a0918e99c4c4ae2e804a4f9a3,
     0xb70654fead634e1ede4518ef34872c9d4f083a53773bdbfb75ae926bd3a4ce47,
     0xb71de80778f2783383f5d5a3028af84eab2f18a4eb38968172ca41724dd4b3f4,
     0x3f2d2a889d22530bd1abdc40ff1cbb23ca53ae3f1983e58c70d46a15c120e780]"

text \<open>The small value in the second argument of a call that hashes 1 and a small value.\<close>

definition sha256_small :: "Allocator \<Rightarrow> NodePtr \<Rightarrow> ('e, u32 option) outcome" where
  "sha256_small a input =
     bindR (match_args 2 a input) (\<lambda>r. case r of
       Some [v0, v1] \<Rightarrow>
         bindR (small_number a v0) (\<lambda>s0.
         if s0 = Some 1 then
           bindR (small_number a v1) (\<lambda>s1. case s1 of
             Some val \<Rightarrow> if unat val < length PRECOMPUTED_HASHES then Ok (Some val) else Ok None
           | None \<Rightarrow> Ok None)
         else Ok None)
     | _ \<Rightarrow> Ok None)"

definition sha256_step :: "Allocator \<Rightarrow> Cost \<Rightarrow> NodePtr \<Rightarrow> Cost \<times> nat \<times> bytes \<Rightarrow> (Cost \<times> nat \<times> bytes) eval" where
  "sha256_step a max_cost arg s =
     (let (cost, byte_count, hasher) = s; cost = cost + SHA256_COST_PER_ARG in
      bindR (check_cost a (cost + of_nat byte_count * SHA256_COST_PER_BYTE) max_cost) (\<lambda>_.
      bindR (util_atom_bytes a arg ''sha256'') (\<lambda>blob.
      Ok (cost, byte_count + length blob, hasher @ blob))))"

definition op_sha256 :: "('g1, 'g2, 'key, 'sig, 'x) ext_api_scheme \<Rightarrow> OpHandler" where
  "op_sha256 E a input max_cost =
     (let cost = SHA256_BASE_COST in
      tryR (sha256_small a input) a (\<lambda>small. case small of
        Some val \<Rightarrow>
          let num_bytes = if val > 0 then 2 else 1;
              cost = cost + (num_bytes * SHA256_COST_PER_BYTE + 2 * SHA256_COST_PER_ARG)
          in new_atom_and_cost a cost (PRECOMPUTED_HASHES ! unat val)
      | None \<Rightarrow>
          tryR (while_next a input (cost, 0, []) (sha256_step a max_cost)) a (\<lambda>(cost, byte_count, hasher).
          let cost = cost + of_nat byte_count * SHA256_COST_PER_BYTE in
          new_atom_and_cost a cost (sha256 E hasher))))"

section \<open>Arithmetic\<close>

text \<open>
  The value and the length of an argument read through \<open>a.node(arg)\<close>, as the arithmetic
  loops do it.
\<close>

definition int_arg :: "'x bigint_api_scheme \<Rightarrow> Allocator \<Rightarrow> NodePtr \<Rightarrow> string \<Rightarrow> (int \<times> nat) eval" where
  "int_arg B a arg msg =
     bindR (node a arg) (\<lambda>v. case v of
       VBuffer buf \<Rightarrow> Ok (number_from_u8 B buf, length buf)
     | VU32 val \<Rightarrow> Ok (uint val, len_for_value val)
     | VPair _ _ \<Rightarrow> err arg msg)"

definition add_step ::
  "'x bigint_api_scheme \<Rightarrow> Allocator \<Rightarrow> Cost \<Rightarrow> NodePtr \<Rightarrow> Cost \<times> nat \<times> int \<Rightarrow> (Cost \<times> nat \<times> int) eval" where
  "add_step B a max_cost arg s =
     (let (cost, byte_count, total) = s; cost = cost + ARITH_COST_PER_ARG in
      bindR (check_cost a (cost + of_nat byte_count * ARITH_COST_PER_BYTE) max_cost) (\<lambda>_.
      bindR (int_arg B a arg ''+ requires int args'') (\<lambda>(v, len).
      Ok (cost, byte_count + len, total + v))))"

definition op_add :: "'x bigint_api_scheme \<Rightarrow> OpHandler" where
  "op_add B a input max_cost =
     tryR (while_next a input (ARITH_BASE_COST, 0, 0) (add_step B a max_cost)) a (\<lambda>(cost, byte_count, total).
     tryS (new_number B a total) (\<lambda>total a.
     let cost = cost + of_nat byte_count * ARITH_COST_PER_BYTE in
     (malloc_cost a cost total, a)))"

definition subtract_step ::
  "'x bigint_api_scheme \<Rightarrow> Allocator \<Rightarrow> Cost \<Rightarrow> NodePtr \<Rightarrow> Cost \<times> nat \<times> int \<times> bool \<Rightarrow> (Cost \<times> nat \<times> int \<times> bool) eval" where
  "subtract_step B a max_cost arg s =
     (let (cost, byte_count, total, is_first) = s; cost = cost + ARITH_COST_PER_ARG in
      bindR (check_cost a (cost + of_nat byte_count * ARITH_COST_PER_BYTE) max_cost) (\<lambda>_.
      if is_first then
        bindR (int_atom B a arg ''-'') (\<lambda>(v, len). Ok (cost, len, v, False))
      else
        bindR (int_arg B a arg ''- requires int args'') (\<lambda>(v, len).
        Ok (cost, byte_count + len, total - v, False))))"

definition op_subtract :: "'x bigint_api_scheme \<Rightarrow> OpHandler" where
  "op_subtract B a input max_cost =
     tryR (while_next a input (ARITH_BASE_COST, 0, 0, True) (subtract_step B a max_cost)) a
       (\<lambda>(cost, byte_count, total, _).
     tryS (new_number B a total) (\<lambda>total a.
     let cost = cost + of_nat byte_count * ARITH_COST_PER_BYTE in
     (malloc_cost a cost total, a)))"

definition multiply_step ::
  "'x bigint_api_scheme \<Rightarrow> Allocator \<Rightarrow> Cost \<Rightarrow> NodePtr \<Rightarrow> Cost \<times> bool \<times> int \<times> nat \<Rightarrow> (Cost \<times> bool \<times> int \<times> nat) eval" where
  "multiply_step B a max_cost arg s =
     (let (cost, first_iter, total, l0) = s in
      bindR (check_cost a cost max_cost) (\<lambda>_.
      if first_iter then
        bindR (int_atom B a arg ''*'') (\<lambda>(total, l0). Ok (cost, False, total, l0))
      else
        bindR (int_arg B a arg ''* requires int args'') (\<lambda>(v, l1).
        let total = total * v;
            cost = cost + MUL_COST_PER_OP;
            cost = cost + of_nat (l0 + l1) * MUL_LINEAR_COST_PER_BYTE;
            cost = cost + of_nat (l0 * l1) div MUL_SQUARE_COST_PER_BYTE_DIVIDER
        in Ok (cost, first_iter, total, limbs_for_int B total))))"

definition op_multiply :: "'x bigint_api_scheme \<Rightarrow> OpHandler" where
  "op_multiply B a input max_cost =
     tryR (while_next a input (MUL_BASE_COST, True, 1, 0) (multiply_step B a max_cost)) a (\<lambda>(cost, _, total, _).
     tryS (new_number B a total) (\<lambda>total a. (malloc_cost a cost total, a)))"

definition op_div :: "'x bigint_api_scheme \<Rightarrow> OpHandler" where
  "op_div B a input max_cost =
     tryR (get_args 2 a input ''/'') a (\<lambda>args.
     tryR (int_atom B a (args ! 0) ''/'') a (\<lambda>(a0, a0_len).
     tryR (int_atom B a (args ! 1) ''/'') a (\<lambda>(a1, a1_len).
     let cost = DIV_BASE_COST + of_nat (a0_len + a1_len) * DIV_COST_PER_BYTE in
     if a1 = 0 then (err input ''div with 0'', a)
     else
       let q = a0 div a1 in
       tryS (new_number B a q) (\<lambda>q a. (malloc_cost a cost q, a)))))"

definition op_divmod :: "'x bigint_api_scheme \<Rightarrow> OpHandler" where
  "op_divmod B a input max_cost =
     tryR (get_args 2 a input ''divmod'') a (\<lambda>args.
     tryR (int_atom B a (args ! 0) ''divmod'') a (\<lambda>(a0, a0_len).
     tryR (int_atom B a (args ! 1) ''divmod'') a (\<lambda>(a1, a1_len).
     let cost = DIVMOD_BASE_COST + of_nat (a0_len + a1_len) * DIVMOD_COST_PER_BYTE in
     if a1 = 0 then (err input ''divmod with 0'', a)
     else
       tryS (new_number B a (a0 div a1)) (\<lambda>q1 a.
       tryS (new_number B a (a0 mod a1)) (\<lambda>r1 a.
       tryR (atom_len a q1) a (\<lambda>ql.
       tryR (atom_len a r1) a (\<lambda>rl.
       let c = of_nat (ql + rl) * MALLOC_COST_PER_BYTE in
       tryS (new_pair a q1 r1) (\<lambda>r a. (Ok (Reduction (cost + c) r), a)))))))))"

definition op_mod :: "'x bigint_api_scheme \<Rightarrow> OpHandler" where
  "op_mod B a input max_cost =
     tryR (get_args 2 a input ''mod'') a (\<lambda>args.
     tryR (int_atom B a (args ! 0) ''mod'') a (\<lambda>(a0, a0_len).
     tryR (int_atom B a (args ! 1) ''mod'') a (\<lambda>(a1, a1_len).
     let cost = DIV_BASE_COST + of_nat (a0_len + a1_len) * DIV_COST_PER_BYTE in
     if a1 = 0 then (err input ''mod with 0'', a)
     else
       tryS (new_number B a (a0 mod a1)) (\<lambda>q a. (malloc_cost a cost q, a)))))"

section \<open>Comparison\<close>

definition op_gr :: "'x bigint_api_scheme \<Rightarrow> OpHandler" where
  "op_gr B a input max_cost =
     tryR (get_args 2 a input ''>'') a (\<lambda>args.
     let v0 = args ! 0; v1 = args ! 1 in
     tryR (small_number a v0) a (\<lambda>s0.
     tryR (small_number a v1) a (\<lambda>s1.
     case (s0, s1) of
       (Some lhs, Some rhs) \<Rightarrow>
         let cost = GR_BASE_COST + of_nat (len_for_value lhs + len_for_value rhs) * GR_COST_PER_BYTE in
         (Ok (Reduction cost (if lhs > rhs then one a else nil a)), a)
     | _ \<Rightarrow>
         tryR (int_atom B a v0 ''>'') a (\<lambda>(v0, v0_len).
         tryR (int_atom B a v1 ''>'') a (\<lambda>(v1, v1_len).
         let cost = GR_BASE_COST + of_nat (v0_len + v1_len) * GR_COST_PER_BYTE in
         (Ok (Reduction cost (if v0 > v1 then one a else nil a)), a))))))"

text \<open>The order of byte slices.\<close>

fun slice_gt :: "bytes \<Rightarrow> bytes \<Rightarrow> bool" where
  "slice_gt [] ys = False"
| "slice_gt (x # xs) [] = True"
| "slice_gt (x # xs) (y # ys) = (x > y \<or> (x = y \<and> slice_gt xs ys))"

definition op_gr_bytes :: OpHandler where
  "op_gr_bytes a input max_cost =
     tryR (get_args 2 a input ''>s'') a (\<lambda>args.
     tryR (util_atom_bytes a (args ! 0) ''>s'') a (\<lambda>v0.
     tryR (util_atom_bytes a (args ! 1) ''>s'') a (\<lambda>v1.
     let cost = GRS_BASE_COST + of_nat (length v0 + length v1) * GRS_COST_PER_BYTE in
     (Ok (Reduction cost (if slice_gt v0 v1 then one a else nil a)), a))))"

section \<open>Strings\<close>

definition op_strlen :: "'x bigint_api_scheme \<Rightarrow> OpHandler" where
  "op_strlen B a input max_cost =
     tryR (get_args 1 a input ''strlen'') a (\<lambda>args.
     tryR (util_atom_len a (args ! 0) ''strlen'') a (\<lambda>len.
     tryS (new_number B a (int len)) (\<lambda>size_node a.
     let cost = STRLEN_BASE_COST + of_nat len * STRLEN_COST_PER_BYTE in
     (malloc_cost a cost size_node, a))))"

definition op_substr :: OpHandler where
  "op_substr a input max_cost =
     tryR (get_varargs 3 a input ''substr'') a (\<lambda>(args, argc).
     let a0 = args ! 0; start = args ! 1; end' = args ! 2 in
     if \<not> (2 \<le> argc \<and> argc \<le> 3) then (err input ''substr takes exactly 2 or 3 arguments'', a)
     else
       tryR (util_atom_len a a0 ''substr'') a (\<lambda>len.
       tryR (i32_atom a start ''substr'') a (\<lambda>start.
       tryR (if argc = 3 then i32_atom a end' ''substr'' else Ok (sint (of_nat len :: u32))) a (\<lambda>end'.
       if end' < 0 \<or> start < 0 \<or> nat end' > len \<or> end' < start
       then (err input ''invalid indices for substr'', a)
       else tryS (new_substr a a0 (of_int start) (of_int end')) (\<lambda>r a. (Ok (Reduction 1 r), a))))))"

definition concat_step ::
  "Allocator \<Rightarrow> Cost \<Rightarrow> NodePtr \<Rightarrow> Cost \<times> nat \<times> NodePtr list \<Rightarrow> (Cost \<times> nat \<times> NodePtr list) eval" where
  "concat_step a max_cost arg s =
     (let (cost, total_size, terms) = s; cost = cost + CONCAT_COST_PER_ARG in
      bindR (check_cost a (cost + of_nat total_size * CONCAT_COST_PER_BYTE) max_cost) (\<lambda>_.
      bindR (sexp a arg) (\<lambda>x. case x of
        SPair _ _ \<Rightarrow> err arg ''concat on list''
      | SAtom \<Rightarrow> bindR (atom_len a arg) (\<lambda>len. Ok (cost, total_size + len, terms @ [arg])))))"

definition op_concat :: OpHandler where
  "op_concat a input max_cost =
     tryR (while_next a input (CONCAT_BASE_COST, 0, []) (concat_step a max_cost)) a (\<lambda>(cost, total_size, terms).
     let cost = cost + of_nat total_size * CONCAT_COST_PER_BYTE;
         cost = cost + of_nat total_size * MALLOC_COST_PER_BYTE in
     tryR (check_cost a cost max_cost) a (\<lambda>_.
     tryS (new_concat a total_size terms) (\<lambda>new_atom a. (Ok (Reduction cost new_atom), a))))"

section \<open>Shifts and bitwise logic\<close>

text \<open>\<open>if a1 > 0 { i0 << a1 } else { i0 >> -a1 }\<close>.\<close>

definition shift_int :: "int \<Rightarrow> int \<Rightarrow> int" where
  "shift_int i0 a1 = (if a1 > 0 then i0 * 2 ^ nat a1 else i0 div 2 ^ nat (- a1))"

definition op_ash :: "'x bigint_api_scheme \<Rightarrow> OpHandler" where
  "op_ash B a input max_cost =
     tryR (get_args 2 a input ''ash'') a (\<lambda>args.
     let n0 = args ! 0; n1 = args ! 1 in
     tryR (int_atom B a n0 ''ash'') a (\<lambda>(i0, l0).
     tryR (i32_atom a n1 ''ash'') a (\<lambda>a1.
     if \<not> (-65535 \<le> a1 \<and> a1 \<le> 65535) then (err n1 ''shift too large'', a)
     else
       let v = shift_int i0 a1; l1 = limbs_for_int B v in
       tryS (new_number B a v) (\<lambda>r a.
       let cost = ASHIFT_BASE_COST + of_nat (l0 + l1) * ASHIFT_COST_PER_BYTE in
       (malloc_cost a cost r, a)))))"

definition op_lsh :: "'x bigint_api_scheme \<Rightarrow> OpHandler" where
  "op_lsh B a input max_cost =
     tryR (get_args 2 a input ''lsh'') a (\<lambda>args.
     let n0 = args ! 0; n1 = args ! 1 in
     tryR (util_atom_bytes a n0 ''lsh'') a (\<lambda>b0.
     tryR (i32_atom a n1 ''lsh'') a (\<lambda>a1.
     if \<not> (-65535 \<le> a1 \<and> a1 \<le> 65535) then (err n1 ''shift too large'', a)
     else
       let i0 = from_bytes_be B b0; l0 = length b0; v = shift_int i0 a1; l1 = limbs_for_int B v in
       tryS (new_number B a v) (\<lambda>r a.
       let cost = LSHIFT_BASE_COST + of_nat (l0 + l1) * LSHIFT_COST_PER_BYTE in
       (malloc_cost a cost r, a)))))"

definition binop_step ::
  "'x bigint_api_scheme \<Rightarrow> string \<Rightarrow> (int \<Rightarrow> int \<Rightarrow> int) \<Rightarrow> Allocator \<Rightarrow> Cost \<Rightarrow> NodePtr \<Rightarrow> Cost \<times> nat \<times> int \<Rightarrow> (Cost \<times> nat \<times> int) eval" where
  "binop_step B op_name op_f a max_cost arg s =
     (let (cost, arg_size, total) = s in
      bindR (int_atom B a arg op_name) (\<lambda>(n0, len).
      let total = op_f total n0; arg_size = arg_size + len; cost = cost + LOG_COST_PER_ARG in
      bindR (check_cost a (cost + of_nat arg_size * LOG_COST_PER_BYTE) max_cost) (\<lambda>_.
      Ok (cost, arg_size, total))))"

definition binop_reduction :: "'x bigint_api_scheme \<Rightarrow> string \<Rightarrow> int \<Rightarrow> (int \<Rightarrow> int \<Rightarrow> int) \<Rightarrow> OpHandler" where
  "binop_reduction B op_name initial_value op_f a input max_cost =
     tryR (while_next a input (LOG_BASE_COST, 0, initial_value) (binop_step B op_name op_f a max_cost)) a
       (\<lambda>(cost, arg_size, total).
     let cost = cost + of_nat arg_size * LOG_COST_PER_BYTE in
     tryS (new_number B a total) (\<lambda>total a. (malloc_cost a cost total, a)))"

definition logand_op :: "int \<Rightarrow> int \<Rightarrow> int" where
  "logand_op x y = x AND y"

definition op_logand :: "'x bigint_api_scheme \<Rightarrow> OpHandler" where
  "op_logand B a input max_cost = binop_reduction B ''logand'' (-1) logand_op a input max_cost"

definition logior_op :: "int \<Rightarrow> int \<Rightarrow> int" where
  "logior_op x y = x OR y"

definition op_logior :: "'x bigint_api_scheme \<Rightarrow> OpHandler" where
  "op_logior B a input max_cost = binop_reduction B ''logior'' 0 logior_op a input max_cost"

definition logxor_op :: "int \<Rightarrow> int \<Rightarrow> int" where
  "logxor_op x y = x XOR y"

definition op_logxor :: "'x bigint_api_scheme \<Rightarrow> OpHandler" where
  "op_logxor B a input max_cost = binop_reduction B ''logxor'' 0 logxor_op a input max_cost"

definition op_lognot :: "'x bigint_api_scheme \<Rightarrow> OpHandler" where
  "op_lognot B a input max_cost =
     tryR (get_args 1 a input ''lognot'') a (\<lambda>args.
     tryR (int_atom B a (args ! 0) ''lognot'') a (\<lambda>(n, len).
     let n = NOT n; cost = LOGNOT_BASE_COST + of_nat len * LOGNOT_COST_PER_BYTE in
     tryS (new_number B a n) (\<lambda>r a. (malloc_cost a cost r, a))))"

section \<open>Booleans\<close>

definition op_not :: OpHandler where
  "op_not a input max_cost =
     tryR (get_args 1 a input ''not'') a (\<lambda>args.
     tryR (nilp a (args ! 0)) a (\<lambda>b.
     (Ok (Reduction BOOL_BASE_COST (if b then one a else nil a)), a)))"

definition any_step :: "Allocator \<Rightarrow> Cost \<Rightarrow> NodePtr \<Rightarrow> Cost \<times> bool \<Rightarrow> (Cost \<times> bool) eval" where
  "any_step a max_cost arg s =
     (let (cost, is_any) = s; cost = cost + BOOL_COST_PER_ARG in
      bindR (check_cost a cost max_cost) (\<lambda>_.
      if is_any then Ok (cost, True)
      else bindR (nilp a arg) (\<lambda>b. Ok (cost, \<not> b))))"

definition op_any :: OpHandler where
  "op_any a input max_cost =
     tryR (while_next a input (BOOL_BASE_COST, False) (any_step a max_cost)) a (\<lambda>(cost, is_any).
     (Ok (Reduction cost (if is_any then one a else nil a)), a))"

definition all_step :: "Allocator \<Rightarrow> Cost \<Rightarrow> NodePtr \<Rightarrow> Cost \<times> bool \<Rightarrow> (Cost \<times> bool) eval" where
  "all_step a max_cost arg s =
     (let (cost, is_all) = s; cost = cost + BOOL_COST_PER_ARG in
      bindR (check_cost a cost max_cost) (\<lambda>_.
      if is_all then bindR (nilp a arg) (\<lambda>b. Ok (cost, \<not> b))
      else Ok (cost, False)))"

definition op_all :: OpHandler where
  "op_all a input max_cost =
     tryR (while_next a input (BOOL_BASE_COST, True) (all_step a max_cost)) a (\<lambda>(cost, is_all).
     (Ok (Reduction cost (if is_all then one a else nil a)), a))"

section \<open>Points, coin ids, modular exponentiation\<close>

definition op_pubkey_for_exp :: "('g1, 'g2, 'key, 'sig, 'x) ext_api_scheme \<Rightarrow> OpHandler" where
  "op_pubkey_for_exp E a input max_cost =
     tryR (get_args 1 a input ''pubkey_for_exp'') a (\<lambda>args.
     tryR (int_atom E a (args ! 0) ''pubkey_for_exp'') a (\<lambda>(v0, v0_len).
     let bytes = to_bytes_be E (mod_group_order v0);
         point = g1_from_integer E bytes;
         cost = PUBKEY_BASE_COST + of_nat v0_len * PUBKEY_COST_PER_BYTE in
     tryS (new_g1 E a point) (\<lambda>n a. (Ok (Reduction (cost + 48 * MALLOC_COST_PER_BYTE) n), a))))"

definition point_add_step ::
  "('g1, 'g2, 'key, 'sig, 'x) ext_api_scheme \<Rightarrow> Allocator \<Rightarrow> Cost \<Rightarrow> NodePtr \<Rightarrow> Cost \<times> 'g1 \<Rightarrow> (Cost \<times> 'g1) eval" where
  "point_add_step E a max_cost arg s =
     (let (cost, total) = s in
      bindR (g1 E a arg) (\<lambda>point.
      let cost = cost + POINT_ADD_COST_PER_ARG in
      bindR (check_cost a cost max_cost) (\<lambda>_. Ok (cost, g1_add E total point))))"

definition op_point_add :: "('g1, 'g2, 'key, 'sig, 'x) ext_api_scheme \<Rightarrow> OpHandler" where
  "op_point_add E a input max_cost =
     tryR (while_next a input (POINT_ADD_BASE_COST, g1_default E) (point_add_step E a max_cost)) a (\<lambda>(cost, total).
     tryS (new_g1 E a total) (\<lambda>n a. (Ok (Reduction (cost + 48 * MALLOC_COST_PER_BYTE) n), a)))"

text \<open>The checks on the amount of a coin.\<close>

definition check_amount :: "NodePtr \<Rightarrow> bytes \<Rightarrow> unit eval" where
  "check_amount input amount =
     (if amount \<noteq> [] then
        (if amount ! 0 AND 0x80 \<noteq> 0 then err input ''coinid: invalid amount (may not be negative''
         else if amount = [0] \<or> (length amount > 1 \<and> amount ! 0 = 0 \<and> amount ! 1 AND 0x80 = 0)
         then err input ''coinid: invalid amount (may not have redundant leading zero)''
         else if length amount > 9 \<or> (length amount = 9 \<and> amount ! 0 \<noteq> 0)
         then err input ''coinid: invalid amount (may not exceed max coin amount)''
         else Ok ())
      else Ok ())"

definition op_coinid :: "('g1, 'g2, 'key, 'sig, 'x) ext_api_scheme \<Rightarrow> OpHandler" where
  "op_coinid E a input max_cost =
     tryR (get_args 3 a input ''coinid'') a (\<lambda>args.
     tryR (util_atom_bytes a (args ! 0) ''coinid'') a (\<lambda>parent_coin.
     if length parent_coin \<noteq> 32 then (err input ''coinid: invalid parent coin id (must be 32 bytes)'', a)
     else tryR (util_atom_bytes a (args ! 1) ''coinid'') a (\<lambda>puzzle_hash.
     if length puzzle_hash \<noteq> 32 then (err input ''coinid: invalid puzzle hash (must be 32 bytes)'', a)
     else tryR (util_atom_bytes a (args ! 2) ''coinid'') a (\<lambda>amount.
     tryR (check_amount input amount) a (\<lambda>_.
     let ret = sha256 E (parent_coin @ puzzle_hash @ amount) in
     if length ret \<noteq> 32 then (Panic ''sha256 hash is not 32 bytes'', a)
     else new_atom_and_cost a COINID_COST ret)))))"

definition op_modpow :: "'x bigint_api_scheme \<Rightarrow> OpHandler" where
  "op_modpow B a input max_cost =
     tryR (get_args 3 a input ''modpow'') a (\<lambda>args.
     let cost = MODPOW_BASE_COST in
     tryR (int_atom B a (args ! 0) ''modpow'') a (\<lambda>(base, bsize).
     let cost = cost + of_nat bsize * MODPOW_COST_PER_BYTE_BASE_VALUE in
     tryR (int_atom B a (args ! 1) ''modpow'') a (\<lambda>(exponent, esize).
     let cost = cost + of_nat (esize * esize) * MODPOW_COST_PER_BYTE_EXPONENT in
     tryR (check_cost a cost max_cost) a (\<lambda>_.
     tryR (int_atom B a (args ! 2) ''modpow'') a (\<lambda>(modulus, msize).
     let cost = cost + of_nat (msize * msize) * MODPOW_COST_PER_BYTE_MOD in
     tryR (check_cost a cost max_cost) a (\<lambda>_.
     if exponent < 0 then (err input ''modpow with negative exponent'', a)
     else if modulus = 0 then (err input ''modpow with 0 modulus'', a)
     else
       let ret = bi_modpow B base exponent modulus in
       tryS (new_number B a ret) (\<lambda>ret a. (malloc_cost a cost ret, a))))))))"

end
