(* ===== verification/CryptoOps.thy ===== *)
theory CryptoOps
  imports MoreOps
begin

unbundle bit_operations_syntax

text \<open>
  The BLS12-381 operators of \<open>src/src/bls_ops.rs\<close>, \<open>keccak256\<close> of
  \<open>src/src/keccak256_ops.rs\<close> and the ECDSA verifiers of \<open>src/src/secp_ops.rs\<close>. The
  curve arithmetic, the digests and the signature checks are parameters; what is modelled
  here is what this code does around them: argument shapes and sizes, the order of the
  checks, the costs, the errors.
\<close>

section \<open>BLS12-381\<close>

definition BLS_G1_SUBTRACT_BASE_COST :: Cost where "BLS_G1_SUBTRACT_BASE_COST = 101094"
definition BLS_G1_SUBTRACT_COST_PER_ARG :: Cost where "BLS_G1_SUBTRACT_COST_PER_ARG = 1343980"
definition BLS_G1_MULTIPLY_BASE_COST :: Cost where "BLS_G1_MULTIPLY_BASE_COST = 705500"
definition BLS_G1_MULTIPLY_COST_PER_BYTE :: Cost where "BLS_G1_MULTIPLY_COST_PER_BYTE = 10"
definition BLS_G1_NEGATE_BASE_COST :: Cost where "BLS_G1_NEGATE_BASE_COST = 1396 - 480"
definition BLS_G2_ADD_BASE_COST :: Cost where "BLS_G2_ADD_BASE_COST = 80000"
definition BLS_G2_ADD_COST_PER_ARG :: Cost where "BLS_G2_ADD_COST_PER_ARG = 1950000"
definition BLS_G2_SUBTRACT_BASE_COST :: Cost where "BLS_G2_SUBTRACT_BASE_COST = 80000"
definition BLS_G2_SUBTRACT_COST_PER_ARG :: Cost where "BLS_G2_SUBTRACT_COST_PER_ARG = 1950000"
definition BLS_G2_MULTIPLY_BASE_COST :: Cost where "BLS_G2_MULTIPLY_BASE_COST = 2100000"
definition BLS_G2_MULTIPLY_COST_PER_BYTE :: Cost where "BLS_G2_MULTIPLY_COST_PER_BYTE = 5"
definition BLS_G2_NEGATE_BASE_COST :: Cost where "BLS_G2_NEGATE_BASE_COST = 2164 - 960"
definition BLS_MAP_TO_G1_BASE_COST :: Cost where "BLS_MAP_TO_G1_BASE_COST = 195000"
definition BLS_MAP_TO_G1_COST_PER_BYTE :: Cost where "BLS_MAP_TO_G1_COST_PER_BYTE = 4"
definition BLS_MAP_TO_G1_COST_PER_DST_BYTE :: Cost where "BLS_MAP_TO_G1_COST_PER_DST_BYTE = 4"
definition BLS_MAP_TO_G2_BASE_COST :: Cost where "BLS_MAP_TO_G2_BASE_COST = 815000"
definition BLS_MAP_TO_G2_COST_PER_BYTE :: Cost where "BLS_MAP_TO_G2_COST_PER_BYTE = 4"
definition BLS_MAP_TO_G2_COST_PER_DST_BYTE :: Cost where "BLS_MAP_TO_G2_COST_PER_DST_BYTE = 4"
definition BLS_PAIRING_BASE_COST :: Cost where "BLS_PAIRING_BASE_COST = 3000000"
definition BLS_PAIRING_COST_PER_ARG :: Cost where "BLS_PAIRING_COST_PER_ARG = 1200000"

lemmas bls_costs =
  BLS_G1_SUBTRACT_BASE_COST_def BLS_G1_SUBTRACT_COST_PER_ARG_def BLS_G1_MULTIPLY_BASE_COST_def
  BLS_G1_MULTIPLY_COST_PER_BYTE_def BLS_G1_NEGATE_BASE_COST_def BLS_G2_ADD_BASE_COST_def
  BLS_G2_ADD_COST_PER_ARG_def BLS_G2_SUBTRACT_BASE_COST_def BLS_G2_SUBTRACT_COST_PER_ARG_def
  BLS_G2_MULTIPLY_BASE_COST_def BLS_G2_MULTIPLY_COST_PER_BYTE_def BLS_G2_NEGATE_BASE_COST_def
  BLS_MAP_TO_G1_BASE_COST_def BLS_MAP_TO_G1_COST_PER_BYTE_def BLS_MAP_TO_G1_COST_PER_DST_BYTE_def
  BLS_MAP_TO_G2_BASE_COST_def BLS_MAP_TO_G2_COST_PER_BYTE_def BLS_MAP_TO_G2_COST_PER_DST_BYTE_def
  BLS_PAIRING_BASE_COST_def BLS_PAIRING_COST_PER_ARG_def

definition DST_G2 :: bytes where
  "DST_G2 = map (of_nat \<circ> of_char) ''BLS_SIG_BLS12381G2_XMD:SHA-256_SSWU_RO_AUG_''"

text \<open>The default domain separation tag of \<open>op_bls_map_to_g1\<close>, a literal in the code.\<close>

definition DST_G1 :: bytes where
  "DST_G1 = map (of_nat \<circ> of_char) ''BLS_SIG_BLS12381G1_XMD:SHA-256_SSWU_RO_AUG_''"

definition g1_subtract_step ::
  "('g1, 'g2, 'key, 'sig, 'x) ext_api_scheme \<Rightarrow> Allocator \<Rightarrow> Cost \<Rightarrow> NodePtr \<Rightarrow> Cost \<times> 'g1 \<times> bool \<Rightarrow> (Cost \<times> 'g1 \<times> bool) eval" where
  "g1_subtract_step E a max_cost arg s =
     (let (cost, total, is_first) = s in
      bindR (g1 E a arg) (\<lambda>point.
      let cost = cost + BLS_G1_SUBTRACT_COST_PER_ARG in
      bindR (check_cost a cost max_cost) (\<lambda>_.
      Ok (cost, if is_first then point else g1_sub E total point, False))))"

definition op_bls_g1_subtract :: "('g1, 'g2, 'key, 'sig, 'x) ext_api_scheme \<Rightarrow> OpHandler" where
  "op_bls_g1_subtract E a input max_cost =
     tryR (check_cost a BLS_G1_SUBTRACT_BASE_COST max_cost) a (\<lambda>_.
     tryR (while_next a input (BLS_G1_SUBTRACT_BASE_COST, g1_default E, True) (g1_subtract_step E a max_cost)) a
       (\<lambda>(cost, total, _).
     tryS (new_g1 E a total) (\<lambda>n a. (Ok (Reduction (cost + 48 * MALLOC_COST_PER_BYTE) n), a))))"

definition op_bls_g1_multiply :: "('g1, 'g2, 'key, 'sig, 'x) ext_api_scheme \<Rightarrow> OpHandler" where
  "op_bls_g1_multiply E a input max_cost =
     tryR (get_args 2 a input ''g1_multiply'') a (\<lambda>args.
     let cost = BLS_G1_MULTIPLY_BASE_COST in
     tryR (check_cost a cost max_cost) a (\<lambda>_.
     tryR (g1 E a (args ! 0)) a (\<lambda>total.
     tryR (int_atom E a (args ! 1) ''g1_multiply'') a (\<lambda>(scalar, scalar_len).
     let cost = cost + of_nat scalar_len * BLS_G1_MULTIPLY_COST_PER_BYTE in
     tryR (check_cost a cost max_cost) a (\<lambda>_.
     let scalar = mod_group_order scalar;
         total = g1_scalar_multiply E total (to_bytes_be E scalar) in
     tryS (new_g1 E a total) (\<lambda>n a. (Ok (Reduction (cost + 48 * MALLOC_COST_PER_BYTE) n), a)))))))"

definition op_bls_g1_negate :: "('g1, 'g2, 'key, 'sig, 'x) ext_api_scheme \<Rightarrow> OpHandler" where
  "op_bls_g1_negate E a input max_cost =
     tryR (get_args 1 a input ''g1_negate'') a (\<lambda>args.
     let point = args ! 0 in
     tryR (util_atom_bytes a point ''G1 atom'') a (\<lambda>blob.
     if length blob \<noteq> 48 then (Err (EvalErr point ''atom is not G1 size, 48 bytes''), a)
     else (case g1_from_bytes E blob of
       None \<Rightarrow> (Err (EvalErr point ''atom is not a valid G1 point''), a)
     | Some _ \<Rightarrow>
         if blob ! 0 AND 0xe0 = 0xc0
         then (Ok (Reduction (BLS_G1_NEGATE_BASE_COST + 48 * MALLOC_COST_PER_BYTE) point), a)
         else new_atom_and_cost a BLS_G1_NEGATE_BASE_COST (blob[0 := blob ! 0 XOR 0x20]))))"

definition g2_add_step ::
  "('g1, 'g2, 'key, 'sig, 'x) ext_api_scheme \<Rightarrow> Allocator \<Rightarrow> Cost \<Rightarrow> NodePtr \<Rightarrow> Cost \<times> 'g2 \<Rightarrow> (Cost \<times> 'g2) eval" where
  "g2_add_step E a max_cost arg s =
     (let (cost, total) = s in
      bindR (g2 E a arg) (\<lambda>point.
      let cost = cost + BLS_G2_ADD_COST_PER_ARG in
      bindR (check_cost a cost max_cost) (\<lambda>_. Ok (cost, g2_add E total point))))"

definition op_bls_g2_add :: "('g1, 'g2, 'key, 'sig, 'x) ext_api_scheme \<Rightarrow> OpHandler" where
  "op_bls_g2_add E a input max_cost =
     tryR (check_cost a BLS_G2_ADD_BASE_COST max_cost) a (\<lambda>_.
     tryR (while_next a input (BLS_G2_ADD_BASE_COST, g2_default E) (g2_add_step E a max_cost)) a (\<lambda>(cost, total).
     tryS (new_g2 E a total) (\<lambda>n a. (Ok (Reduction (cost + 96 * MALLOC_COST_PER_BYTE) n), a))))"

definition g2_subtract_step ::
  "('g1, 'g2, 'key, 'sig, 'x) ext_api_scheme \<Rightarrow> Allocator \<Rightarrow> Cost \<Rightarrow> NodePtr \<Rightarrow> Cost \<times> 'g2 \<times> bool \<Rightarrow> (Cost \<times> 'g2 \<times> bool) eval" where
  "g2_subtract_step E a max_cost arg s =
     (let (cost, total, is_first) = s in
      bindR (g2 E a arg) (\<lambda>point.
      let cost = cost + BLS_G2_SUBTRACT_COST_PER_ARG in
      bindR (check_cost a cost max_cost) (\<lambda>_.
      Ok (cost, if is_first then point else g2_sub E total point, False))))"

definition op_bls_g2_subtract :: "('g1, 'g2, 'key, 'sig, 'x) ext_api_scheme \<Rightarrow> OpHandler" where
  "op_bls_g2_subtract E a input max_cost =
     tryR (check_cost a BLS_G2_SUBTRACT_BASE_COST max_cost) a (\<lambda>_.
     tryR (while_next a input (BLS_G2_SUBTRACT_BASE_COST, g2_default E, True) (g2_subtract_step E a max_cost)) a
       (\<lambda>(cost, total, _).
     tryS (new_g2 E a total) (\<lambda>n a. (Ok (Reduction (cost + 96 * MALLOC_COST_PER_BYTE) n), a))))"

definition op_bls_g2_multiply :: "('g1, 'g2, 'key, 'sig, 'x) ext_api_scheme \<Rightarrow> OpHandler" where
  "op_bls_g2_multiply E a input max_cost =
     tryR (get_args 2 a input ''g2_multiply'') a (\<lambda>args.
     let cost = BLS_G2_MULTIPLY_BASE_COST in
     tryR (check_cost a cost max_cost) a (\<lambda>_.
     tryR (g2 E a (args ! 0)) a (\<lambda>total.
     tryR (int_atom E a (args ! 1) ''g2_multiply'') a (\<lambda>(scalar, scalar_len).
     let cost = cost + of_nat scalar_len * BLS_G2_MULTIPLY_COST_PER_BYTE in
     tryR (check_cost a cost max_cost) a (\<lambda>_.
     let scalar = mod_group_order scalar;
         total = g2_scalar_multiply E total (to_bytes_be E scalar) in
     tryS (new_g2 E a total) (\<lambda>n a. (Ok (Reduction (cost + 96 * MALLOC_COST_PER_BYTE) n), a)))))))"

definition op_bls_g2_negate :: "('g1, 'g2, 'key, 'sig, 'x) ext_api_scheme \<Rightarrow> OpHandler" where
  "op_bls_g2_negate E a input max_cost =
     tryR (get_args 1 a input ''g2_negate'') a (\<lambda>args.
     let point = args ! 0 in
     tryR (util_atom_bytes a point ''G2 atom'') a (\<lambda>blob.
     if length blob \<noteq> 96 then (Err (EvalErr point ''atom is not G2 size, 96 bytes''), a)
     else (case g2_from_bytes E blob of
       None \<Rightarrow> (Err (EvalErr point ''atom is not a valid G2 point''), a)
     | Some _ \<Rightarrow>
         if blob ! 0 AND 0xe0 = 0xc0
         then (Ok (Reduction (BLS_G2_NEGATE_BASE_COST + 96 * MALLOC_COST_PER_BYTE) point), a)
         else new_atom_and_cost a BLS_G2_NEGATE_BASE_COST (blob[0 := blob ! 0 XOR 0x20]))))"

definition op_bls_map_to_g1 :: "('g1, 'g2, 'key, 'sig, 'x) ext_api_scheme \<Rightarrow> OpHandler" where
  "op_bls_map_to_g1 E a input max_cost =
     tryR (get_varargs 2 a input ''g1_map'') a (\<lambda>(args, argc).
     if \<not> (1 \<le> argc \<and> argc \<le> 2) then (err input ''g1_map takes exactly 1 or 2 arguments'', a)
     else
     let cost = BLS_MAP_TO_G1_BASE_COST in
     tryR (check_cost a cost max_cost) a (\<lambda>_.
     tryR (util_atom_bytes a (args ! 0) ''g1_map'') a (\<lambda>msg.
     let cost = cost + of_nat (length msg) * BLS_MAP_TO_G1_COST_PER_BYTE in
     tryR (check_cost a cost max_cost) a (\<lambda>_.
     tryR (if argc = 2 then util_atom_bytes a (args ! 1) ''g1_map'' else Ok DST_G1) a (\<lambda>dst.
     let cost = cost + of_nat (length dst) * BLS_MAP_TO_G1_COST_PER_DST_BYTE in
     tryR (check_cost a cost max_cost) a (\<lambda>_.
     let point = hash_to_g1_with_dst E msg dst in
     tryS (new_g1 E a point) (\<lambda>n a. (Ok (Reduction (cost + 48 * MALLOC_COST_PER_BYTE) n), a))))))))"

definition op_bls_map_to_g2 :: "('g1, 'g2, 'key, 'sig, 'x) ext_api_scheme \<Rightarrow> OpHandler" where
  "op_bls_map_to_g2 E a input max_cost =
     tryR (get_varargs 2 a input ''g2_map'') a (\<lambda>(args, argc).
     if \<not> (1 \<le> argc \<and> argc \<le> 2) then (err input ''g2_map takes exactly 1 or 2 arguments'', a)
     else
     let cost = BLS_MAP_TO_G2_BASE_COST in
     tryR (check_cost a cost max_cost) a (\<lambda>_.
     tryR (util_atom_bytes a (args ! 0) ''g2_map'') a (\<lambda>msg.
     let cost = cost + of_nat (length msg) * BLS_MAP_TO_G2_COST_PER_BYTE in
     tryR (if argc = 2 then util_atom_bytes a (args ! 1) ''g2_map'' else Ok DST_G2) a (\<lambda>dst.
     let cost = cost + of_nat (length dst) * BLS_MAP_TO_G2_COST_PER_DST_BYTE in
     tryR (check_cost a cost max_cost) a (\<lambda>_.
     let point = hash_to_g2_with_dst E msg dst in
     tryS (new_g2 E a point) (\<lambda>n a. (Ok (Reduction (cost + 96 * MALLOC_COST_PER_BYTE) n), a)))))))"

text \<open>
  The loops \<open>while !nilp(a, args)\<close>, which take two list elements per iteration. Each
  iteration follows two pairs, so the number of pairs is enough fuel.
\<close>

fun pairing_loop ::
  "('g1, 'g2, 'key, 'sig, 'x) ext_api_scheme \<Rightarrow> nat \<Rightarrow> Allocator \<Rightarrow> Cost \<Rightarrow> NodePtr \<Rightarrow> Cost \<Rightarrow> ('g1 \<times> 'g2) list \<Rightarrow> (Cost \<times> ('g1 \<times> 'g2) list) eval" where
  "pairing_loop E 0 a max_cost args cost items = Panic ''the list does not end''"
| "pairing_loop E (Suc k) a max_cost args cost items =
     bindR (nilp a args) (\<lambda>done.
     if done then Ok (cost, items)
     else
       let cost = cost + BLS_PAIRING_COST_PER_ARG in
       bindR (check_cost a cost max_cost) (\<lambda>_.
       bindR (util_first a args) (\<lambda>n1.
       bindR (g1 E a n1) (\<lambda>p1.
       bindR (util_rest a args) (\<lambda>args.
       bindR (util_first a args) (\<lambda>n2.
       bindR (g2 E a n2) (\<lambda>p2.
       bindR (util_rest a args) (\<lambda>args.
       pairing_loop E k a max_cost args cost (items @ [(p1, p2)])))))))))"

definition op_bls_pairing_identity :: "('g1, 'g2, 'key, 'sig, 'x) ext_api_scheme \<Rightarrow> OpHandler" where
  "op_bls_pairing_identity E a input max_cost =
     tryR (check_cost a BLS_PAIRING_BASE_COST max_cost) a (\<lambda>_.
     tryR (pairing_loop E (Suc (length (pair_vec a))) a max_cost input BLS_PAIRING_BASE_COST []) a (\<lambda>(cost, items).
     if \<not> aggregate_pairing E items then (err input ''bls_pairing_identity failed'', a)
     else (Ok (Reduction cost (nil a)), a)))"

fun verify_loop ::
  "('g1, 'g2, 'key, 'sig, 'x) ext_api_scheme \<Rightarrow> nat \<Rightarrow> Allocator \<Rightarrow> Cost \<Rightarrow> NodePtr \<Rightarrow> Cost \<Rightarrow> ('g1 \<times> bytes) list \<Rightarrow> (Cost \<times> ('g1 \<times> bytes) list) eval" where
  "verify_loop E 0 a max_cost args cost items = Panic ''the list does not end''"
| "verify_loop E (Suc k) a max_cost args cost items =
     bindR (nilp a args) (\<lambda>done.
     if done then Ok (cost, items)
     else
       bindR (util_first a args) (\<lambda>n1.
       bindR (g1 E a n1) (\<lambda>pk.
       bindR (util_rest a args) (\<lambda>args.
       bindR (util_first a args) (\<lambda>n2.
       bindR (util_atom_bytes a n2 ''bls_verify message'') (\<lambda>msg.
       bindR (util_rest a args) (\<lambda>args.
       let cost = cost + BLS_PAIRING_COST_PER_ARG;
           cost = cost + of_nat (length msg) * BLS_MAP_TO_G2_COST_PER_BYTE;
           cost = cost + of_nat (length DST_G2) * BLS_MAP_TO_G2_COST_PER_DST_BYTE in
       bindR (check_cost a cost max_cost) (\<lambda>_.
       verify_loop E k a max_cost args cost (items @ [(pk, msg)])))))))))"

definition op_bls_verify :: "('g1, 'g2, 'key, 'sig, 'x) ext_api_scheme \<Rightarrow> OpHandler" where
  "op_bls_verify E a input max_cost =
     tryR (check_cost a BLS_PAIRING_BASE_COST max_cost) a (\<lambda>_.
     tryR (util_first a input) a (\<lambda>n.
     tryR (g2 E a n) a (\<lambda>signature.
     tryR (util_rest a input) a (\<lambda>args.
     tryR (verify_loop E (Suc (length (pair_vec a))) a max_cost args BLS_PAIRING_BASE_COST []) a (\<lambda>(cost, items).
     if \<not> aggregate_verify E signature items then (err input ''bls_verify failed'', a)
     else (Ok (Reduction cost (nil a)), a))))))"

section \<open>Keccak\<close>

definition KECCAK256_BASE_COST :: Cost where "KECCAK256_BASE_COST = 50"
definition KECCAK256_COST_PER_ARG :: Cost where "KECCAK256_COST_PER_ARG = 160"
definition KECCAK256_COST_PER_BYTE :: Cost where "KECCAK256_COST_PER_BYTE = 2"

definition keccak256_step :: "Allocator \<Rightarrow> Cost \<Rightarrow> NodePtr \<Rightarrow> Cost \<times> nat \<times> bytes \<Rightarrow> (Cost \<times> nat \<times> bytes) eval" where
  "keccak256_step a max_cost arg s =
     (let (cost, byte_count, hasher) = s; cost = cost + KECCAK256_COST_PER_ARG in
      bindR (check_cost a (cost + of_nat byte_count * KECCAK256_COST_PER_BYTE) max_cost) (\<lambda>_.
      bindR (util_atom_bytes a arg ''keccak256'') (\<lambda>blob.
      Ok (cost, byte_count + length blob, hasher @ blob))))"

definition op_keccak256 :: "('g1, 'g2, 'key, 'sig, 'x) ext_api_scheme \<Rightarrow> OpHandler" where
  "op_keccak256 E a input max_cost =
     tryR (while_next a input (KECCAK256_BASE_COST, 0, []) (keccak256_step a max_cost)) a (\<lambda>(cost, byte_count, hasher).
     let cost = cost + of_nat byte_count * KECCAK256_COST_PER_BYTE in
     new_atom_and_cost a cost (keccak256 E hasher))"

section \<open>ECDSA\<close>

definition SECP256R1_VERIFY_COST :: Cost where "SECP256R1_VERIFY_COST = 1850000"
definition SECP256K1_VERIFY_COST :: Cost where "SECP256K1_VERIFY_COST = 1300000"

definition op_secp256r1_verify :: "('g1, 'g2, 'key, 'sig, 'x) ext_api_scheme \<Rightarrow> OpHandler" where
  "op_secp256r1_verify E a input max_cost =
     (let cost = SECP256R1_VERIFY_COST in
      tryR (check_cost a cost max_cost) a (\<lambda>_.
      tryR (get_args 3 a input ''secp256r1_verify'') a (\<lambda>args.
      tryR (util_atom_bytes a (args ! 0) ''secp256r1_verify pubkey'') a (\<lambda>pubkey.
      case r1_from_sec1_bytes E pubkey of
        None \<Rightarrow> (err input ''secp256r1_verify pubkey is not valid'', a)
      | Some verifier \<Rightarrow>
          tryR (util_atom_bytes a (args ! 1) ''secp256r1_verify msg'') a (\<lambda>msg.
          if length msg \<noteq> 32 then (err input ''secp256r1_verify message digest is not 32 bytes'', a)
          else
            tryR (util_atom_bytes a (args ! 2) ''secp256r1_verify sig'') a (\<lambda>sig.
            case r1_sig_from_slice E sig of
              None \<Rightarrow> (err input ''secp256r1_verify sig is not valid'', a)
            | Some sig \<Rightarrow>
                if \<not> r1_verify_prehash E verifier msg sig then (err input ''secp256r1_verify failed'', a)
                else (Ok (Reduction cost (nil a)), a)))))))"

definition op_secp256k1_verify :: "('g1, 'g2, 'key, 'sig, 'x) ext_api_scheme \<Rightarrow> OpHandler" where
  "op_secp256k1_verify E a input max_cost =
     (let cost = SECP256K1_VERIFY_COST in
      tryR (check_cost a cost max_cost) a (\<lambda>_.
      tryR (get_args 3 a input ''secp256k1_verify'') a (\<lambda>args.
      tryR (util_atom_bytes a (args ! 0) ''secp256k1_verify pubkey'') a (\<lambda>pubkey.
      case k1_from_sec1_bytes E pubkey of
        None \<Rightarrow> (err input ''secp256k1_verify pubkey is not valid'', a)
      | Some verifier \<Rightarrow>
          tryR (util_atom_bytes a (args ! 1) ''secp256k1_verify msg'') a (\<lambda>msg.
          if length msg \<noteq> 32 then (err input ''secp256k1_verify message digest is not 32 bytes'', a)
          else
            tryR (util_atom_bytes a (args ! 2) ''secp256k1_verify sig'') a (\<lambda>sig.
            case k1_sig_from_slice E sig of
              None \<Rightarrow> (err input ''secp256k1_verify sig is not valid'', a)
            | Some sig \<Rightarrow>
                if \<not> k1_verify_prehash E verifier msg sig then (err input ''secp256k1_verify failed'', a)
                else (Ok (Reduction cost (nil a)), a)))))))"

end
