(* ===== verification/Dialect.thy ===== *)
theory Dialect
  imports CryptoOps
begin

unbundle bit_operations_syntax

text \<open>
  Dialects, the operator sets \<open>run_program\<close> is generic over: the trait of
  \<open>src/src/dialect.rs\<close> as a record of functions, \<open>ChiaDialect\<close>
  (\<open>src/src/chia_dialect.rs\<close>) and \<open>RuntimeDialect\<close> (\<open>src/src/runtime_dialect.rs\<close>
  with the tables of \<open>src/src/f_table.rs\<close>) as its two implementations.
\<close>

section \<open>The trait\<close>

datatype OperatorSet = DefaultOps | BlsOps | KeccakOps

record dialect =
  quote_kw :: "u32 eval"
  apply_kw :: "u32 eval"
  softfork_kw :: "u32 eval"
  softfork_extension :: "u32 \<Rightarrow> OperatorSet"
  dialect_op :: "Allocator \<Rightarrow> NodePtr \<Rightarrow> NodePtr \<Rightarrow> Cost \<Rightarrow> OperatorSet \<Rightarrow> Response \<times> Allocator"
  allow_unknown_ops :: bool

section \<open>The Chia dialect\<close>

definition NO_UNKNOWN_OPS :: u32 where "NO_UNKNOWN_OPS = 0x0002"
definition LIMIT_HEAP :: u32 where "LIMIT_HEAP = 0x0004"
definition ENABLE_KECCAK_OPS_OUTSIDE_GUARD :: u32 where "ENABLE_KECCAK_OPS_OUTSIDE_GUARD = 0x0100"
definition ENABLE_KECCAK :: u32 where "ENABLE_KECCAK = 0x0200"
definition MEMPOOL_MODE :: u32 where "MEMPOOL_MODE = NO_UNKNOWN_OPS OR LIMIT_HEAP"

definition unknown_operator :: "Allocator \<Rightarrow> NodePtr \<Rightarrow> NodePtr \<Rightarrow> u32 \<Rightarrow> Cost \<Rightarrow> Response \<times> Allocator" where
  "unknown_operator a opn args flags max_cost =
     (if flags AND NO_UNKNOWN_OPS \<noteq> 0 then (err opn ''unimplemented operator'', a)
      else op_unknown a opn args max_cost)"

fun extension_flags :: "OperatorSet \<Rightarrow> u32" where
  "extension_flags DefaultOps = 0"
| "extension_flags BlsOps = 0"
| "extension_flags KeccakOps = ENABLE_KECCAK_OPS_OUTSIDE_GUARD"

text \<open>The \<open>match op\<close> of \<open>ChiaDialect::op\<close>; 62 is in it only when the flag is set.\<close>

definition chia_ops :: "('g1, 'g2, 'key, 'sig, 'x) ext_api_scheme \<Rightarrow> (nat \<times> OpHandler) list" where
  "chia_ops E =
     [(3, op_if), (4, op_cons), (5, op_first), (6, op_rest), (7, op_listp), (8, op_raise), (9, op_eq),
      (10, op_gr_bytes), (11, op_sha256 E), (12, op_substr), (13, op_strlen E), (14, op_concat),
      (16, op_add E), (17, op_subtract E), (18, op_multiply E), (19, op_div E), (20, op_divmod E),
      (21, op_gr E), (22, op_ash E), (23, op_lsh E), (24, op_logand E), (25, op_logior E),
      (26, op_logxor E), (27, op_lognot E), (29, op_point_add E), (30, op_pubkey_for_exp E),
      (32, op_not), (33, op_any), (34, op_all), (48, op_coinid E), (49, op_bls_g1_subtract E),
      (50, op_bls_g1_multiply E), (51, op_bls_g1_negate E), (52, op_bls_g2_add E),
      (53, op_bls_g2_subtract E), (54, op_bls_g2_multiply E), (55, op_bls_g2_negate E),
      (56, op_bls_map_to_g1 E), (57, op_bls_map_to_g2 E), (58, op_bls_pairing_identity E),
      (59, op_bls_verify E), (60, op_modpow E), (61, op_mod E)]"

definition chia_op_lookup :: "('g1, 'g2, 'key, 'sig, 'x) ext_api_scheme \<Rightarrow> u32 \<Rightarrow> u32 \<Rightarrow> OpHandler option" where
  "chia_op_lookup E flags op =
     (if op = 62 \<and> flags AND ENABLE_KECCAK_OPS_OUTSIDE_GUARD \<noteq> 0 then Some (op_keccak256 E)
      else map_of (chia_ops E) (unat op))"

definition chia_dialect_op ::
  "('g1, 'g2, 'key, 'sig, 'x) ext_api_scheme \<Rightarrow> u32 \<Rightarrow> Allocator \<Rightarrow> NodePtr \<Rightarrow> NodePtr \<Rightarrow> Cost \<Rightarrow> OperatorSet \<Rightarrow> Response \<times> Allocator" where
  "chia_dialect_op E self_flags a opn argument_list max_cost extension =
     (let flags = self_flags OR extension_flags extension in
      tryR (atom_len a opn) a (\<lambda>op_len.
      if op_len = 4 then
        tryR (atom_bytes a opn) a (\<lambda>b.
        let opcode = shift_in 0 b :: u32 in
        if opcode = 0x13d61f00 then op_secp256k1_verify E a argument_list max_cost
        else if opcode = 0x1c3a8f00 then op_secp256r1_verify E a argument_list max_cost
        else unknown_operator a opn argument_list flags max_cost)
      else if op_len \<noteq> 1 then unknown_operator a opn argument_list flags max_cost
      else
        tryR (small_number a opn) a (\<lambda>s. case s of
          None \<Rightarrow> unknown_operator a opn argument_list flags max_cost
        | Some op \<Rightarrow>
            (case chia_op_lookup E flags op of
               Some f \<Rightarrow> f a argument_list max_cost
             | None \<Rightarrow> unknown_operator a opn argument_list flags max_cost))))"

definition chia_softfork_extension :: "u32 \<Rightarrow> u32 \<Rightarrow> OperatorSet" where
  "chia_softfork_extension self_flags ext =
     (if ext = 0 then BlsOps
      else if ext = 1 \<and> self_flags AND ENABLE_KECCAK \<noteq> 0 then KeccakOps
      else DefaultOps)"

definition chia_dialect :: "('g1, 'g2, 'key, 'sig, 'x) ext_api_scheme \<Rightarrow> u32 \<Rightarrow> dialect" where
  "chia_dialect E flags =
     \<lparr> quote_kw = Ok 1, apply_kw = Ok 2, softfork_kw = Ok 36,
       softfork_extension = chia_softfork_extension flags,
       dialect_op = chia_dialect_op E flags,
       allow_unknown_ops = (flags AND NO_UNKNOWN_OPS = 0) \<rparr>"

section \<open>The runtime dialect\<close>

definition opcode_lookup :: "('g1, 'g2, 'key, 'sig, 'x) ext_api_scheme \<Rightarrow> (string \<times> OpHandler) list" where
  "opcode_lookup E =
     [(''op_if'', op_if), (''op_cons'', op_cons), (''op_first'', op_first), (''op_rest'', op_rest),
      (''op_listp'', op_listp), (''op_raise'', op_raise), (''op_eq'', op_eq), (''op_sha256'', op_sha256 E),
      (''op_add'', op_add E), (''op_subtract'', op_subtract E), (''op_multiply'', op_multiply E),
      (''op_modpow'', op_modpow E), (''op_divmod'', op_divmod E), (''op_mod'', op_mod E),
      (''op_substr'', op_substr), (''op_strlen'', op_strlen E), (''op_point_add'', op_point_add E),
      (''op_pubkey_for_exp'', op_pubkey_for_exp E), (''op_concat'', op_concat), (''op_gr'', op_gr E),
      (''op_gr_bytes'', op_gr_bytes), (''op_logand'', op_logand E), (''op_logior'', op_logior E),
      (''op_logxor'', op_logxor E), (''op_lognot'', op_lognot E), (''op_ash'', op_ash E),
      (''op_lsh'', op_lsh E), (''op_not'', op_not), (''op_any'', op_any), (''op_all'', op_all),
      (''op_div'', op_div E), (''op_g1_subtract'', op_bls_g1_subtract E),
      (''op_g1_multiply'', op_bls_g1_multiply E), (''op_g1_negate'', op_bls_g1_negate E),
      (''op_g2_add'', op_bls_g2_add E), (''op_g2_subtract'', op_bls_g2_subtract E),
      (''op_g2_multiply'', op_bls_g2_multiply E), (''op_g2_negate'', op_bls_g2_negate E),
      (''op_g1_map'', op_bls_map_to_g1 E), (''op_g2_map'', op_bls_map_to_g2 E),
      (''op_bls_pairing_identity'', op_bls_pairing_identity E), (''op_bls_verify'', op_bls_verify E),
      (''op_secp256k1_verify'', op_secp256k1_verify E), (''op_secp256r1_verify'', op_secp256r1_verify E)]"

definition opcode_by_name :: "('g1, 'g2, 'key, 'sig, 'x) ext_api_scheme \<Rightarrow> string \<Rightarrow> OpHandler option" where
  "opcode_by_name E name = map_of (opcode_lookup E) name"

type_synonym FLookup = "OpHandler option list"

text \<open>The \<open>HashMap\<close> is a list of its entries in the order its iterator yields them.\<close>

fun f_lookup_loop ::
  "('g1, 'g2, 'key, 'sig, 'x) ext_api_scheme \<Rightarrow> (string \<times> bytes) list \<Rightarrow> FLookup \<Rightarrow> FLookup eval" where
  "f_lookup_loop E [] f_lookup = Ok f_lookup"
| "f_lookup_loop E ((name, idx) # entries) f_lookup =
     (if length idx = 1 then
        (case opcode_by_name E name of
           None \<Rightarrow> Panic (''can't find native operator '' @ name)
         | Some op \<Rightarrow> f_lookup_loop E entries (f_lookup[unat (idx ! 0) := Some op]))
      else f_lookup_loop E entries f_lookup)"

definition f_lookup_for_hashmap ::
  "('g1, 'g2, 'key, 'sig, 'x) ext_api_scheme \<Rightarrow> (string \<times> bytes) list \<Rightarrow> FLookup eval" where
  "f_lookup_for_hashmap E op_map = f_lookup_loop E op_map (replicate 256 None)"

definition runtime_dialect_op ::
  "FLookup \<Rightarrow> u32 \<Rightarrow> Allocator \<Rightarrow> NodePtr \<Rightarrow> NodePtr \<Rightarrow> Cost \<Rightarrow> OperatorSet \<Rightarrow> Response \<times> Allocator" where
  "runtime_dialect_op f_lookup flags a opn argument_list max_cost extensions =
     tryR (atom_bytes a opn) a (\<lambda>b.
     tryR (if length b = 1 then get_idx f_lookup (unat (b ! 0)) else Ok None) a (\<lambda>f.
     case f of
       Some f \<Rightarrow> f a argument_list max_cost
     | None \<Rightarrow>
         if flags AND NO_UNKNOWN_OPS \<noteq> 0 then (err opn ''unimplemented operator'', a)
         else op_unknown a opn argument_list max_cost))"

text \<open>\<open>self.quote_kw[0] as u32\<close>.\<close>

definition kw_byte :: "bytes \<Rightarrow> u32 eval" where
  "kw_byte kw = bindR (get_idx kw 0) (\<lambda>b. Ok (ucast b))"

definition runtime_dialect ::
  "('g1, 'g2, 'key, 'sig, 'x) ext_api_scheme \<Rightarrow> (string \<times> bytes) list \<Rightarrow> bytes \<Rightarrow> bytes \<Rightarrow> u32 \<Rightarrow> dialect eval" where
  "runtime_dialect E op_map quote apply_op flags =
     bindR (f_lookup_for_hashmap E op_map) (\<lambda>f_lookup.
     Ok \<lparr> quote_kw = kw_byte quote, apply_kw = kw_byte apply_op, softfork_kw = kw_byte [36],
          softfork_extension = (\<lambda>_. DefaultOps),
          dialect_op = runtime_dialect_op f_lookup flags,
          allow_unknown_ops = (flags AND NO_UNKNOWN_OPS = 0) \<rparr>)"

end
