(* ===== verification/TraversePath.thy ===== *)
theory TraversePath
  imports AllocHeap
begin

unbundle bit_operations_syntax

text \<open>
  Looking up a path in the environment, \<open>src/src/traverse_path.rs\<close>. The bits of the path,
  least significant first, choose the right or the left branch; the most significant set bit
  ends it. \<open>traverse_path\<close> works on the bytes of any atom, \<open>traverse_path_fast\<close> on the value
  of a small atom; both are shown to be the same walk \<open>walk\<close> along the number, with the same
  cost, so that the two agree on every canonical atom.
\<close>

section \<open>Definitions\<close>

definition TRAVERSE_BASE_COST :: u64 where "TRAVERSE_BASE_COST = 40"
definition TRAVERSE_COST_PER_ZERO_BYTE :: u64 where "TRAVERSE_COST_PER_ZERO_BYTE = 4"
definition TRAVERSE_COST_PER_BIT :: u64 where "TRAVERSE_COST_PER_BIT = 4"

lemmas traverse_costs = TRAVERSE_BASE_COST_def TRAVERSE_COST_PER_ZERO_BYTE_def TRAVERSE_COST_PER_BIT_def

definition msb_mask :: "u8 \<Rightarrow> u8" where
  "msb_mask byte =
     (let byte = ucast (byte OR drop_bit 1 byte) :: u32;
          byte = byte OR drop_bit 2 byte;
          byte = byte OR drop_bit 4 byte
      in ucast (drop_bit 1 (byte + 1)))"

fun first_non_zero :: "bytes \<Rightarrow> nat" where
  "first_non_zero [] = 0"
| "first_non_zero (b # buf) = (if b = 0 then 1 + first_non_zero buf else 0)"

text \<open>
  The loop of \<open>traverse_path\<close>. It moves one bit per iteration, so eight times the length of
  the path is enough fuel.
\<close>

fun traverse_loop ::
  "nat \<Rightarrow> Allocator \<Rightarrow> bytes \<Rightarrow> nat \<Rightarrow> u8 \<Rightarrow> nat \<Rightarrow> u8 \<Rightarrow> NodePtr \<Rightarrow> u64 \<Rightarrow> Response" where
  "traverse_loop fuel a node_index first_bit_byte_index last_bitmask byte_idx bitmask arg_list cost =
     (if byte_idx > first_bit_byte_index \<or> bitmask < last_bitmask then
        (case fuel of
           0 \<Rightarrow> Panic ''the path does not end''
         | Suc k \<Rightarrow>
           bindR (get_idx node_index byte_idx) (\<lambda>byte.
           let is_bit_set = byte AND bitmask \<noteq> 0 in
           bindR (sexp a arg_list) (\<lambda>s. case s of
             SAtom \<Rightarrow> err arg_list ''path into atom''
           | SPair left right \<Rightarrow>
               let arg_list = if is_bit_set then right else left;
                   (bitmask, byte_idx) =
                     if bitmask = 0x80 then (0x01, usize_sub byte_idx 1) else (push_bit 1 bitmask, byte_idx)
               in traverse_loop k a node_index first_bit_byte_index last_bitmask byte_idx bitmask arg_list
                    (cost + TRAVERSE_COST_PER_BIT))))
      else Ok (Reduction cost arg_list))"

declare traverse_loop.simps [simp del]

definition traverse_path :: "Allocator \<Rightarrow> bytes \<Rightarrow> NodePtr \<Rightarrow> Response" where
  "traverse_path a node_index args =
     (let first_bit_byte_index = first_non_zero node_index;
          cost = TRAVERSE_BASE_COST + of_nat first_bit_byte_index * TRAVERSE_COST_PER_ZERO_BYTE + TRAVERSE_COST_PER_BIT
      in if first_bit_byte_index \<ge> length node_index then Ok (Reduction cost (nil a))
      else bindR (get_idx node_index first_bit_byte_index) (\<lambda>byte.
        let last_bitmask = msb_mask byte; byte_idx = usize_sub (length node_index) 1 in
        traverse_loop (8 * length node_index) a node_index first_bit_byte_index last_bitmask byte_idx 0x01 args cost))"

fun traverse_fast_loop :: "nat \<Rightarrow> Allocator \<Rightarrow> u32 \<Rightarrow> NodePtr \<Rightarrow> u64 \<Rightarrow> (u64 \<times> NodePtr) eval" where
  "traverse_fast_loop fuel a node_index arg_list num_bits =
     (if node_index \<noteq> 1 then
        (case fuel of
           0 \<Rightarrow> Panic ''the path does not end''
         | Suc k \<Rightarrow>
           bindR (sexp a arg_list) (\<lambda>s. case s of
             SAtom \<Rightarrow> err arg_list ''path into atom''
           | SPair left right \<Rightarrow>
               let is_bit_set = node_index AND 0x01 \<noteq> 0 in
               traverse_fast_loop k a (drop_bit 1 node_index) (if is_bit_set then right else left) (num_bits + 1)))
      else Ok (num_bits, arg_list))"

declare traverse_fast_loop.simps [simp del]

definition traverse_path_fast :: "Allocator \<Rightarrow> u32 \<Rightarrow> NodePtr \<Rightarrow> Response" where
  "traverse_path_fast a node_index args =
     (if node_index = 0 then Ok (Reduction (TRAVERSE_BASE_COST + TRAVERSE_COST_PER_BIT) (nil a))
      else
        bindR (traverse_fast_loop 32 a node_index args 0) (\<lambda>(num_bits, arg_list).
        let cost = TRAVERSE_BASE_COST + TRAVERSE_COST_PER_BIT;
            cost = cost + num_bits * TRAVERSE_COST_PER_BIT;
            cost = if num_bits = 7 \<or> num_bits = 15 \<or> num_bits = 23 \<or> num_bits = 31
                   then cost + TRAVERSE_COST_PER_ZERO_BYTE else cost
        in Ok (Reduction cost arg_list)))"

section \<open>The walk both compute\<close>

fun walk :: "Allocator \<Rightarrow> nat \<Rightarrow> NodePtr \<Rightarrow> NodePtr eval" where
  "walk a n p =
     (if n \<le> 1 then Ok p
      else bindR (sexp a p) (\<lambda>s. case s of
        SAtom \<Rightarrow> err p ''path into atom''
      | SPair left right \<Rightarrow> walk a (n div 2) (if odd n then right else left)))"

declare walk.simps [simp del]

lemma walk_1: "n \<le> 1 \<Longrightarrow> walk a n p = Ok p"
  by (simp add: walk.simps)

lemma fast_loop_walk:
  "unat w \<noteq> 0 \<Longrightarrow> ubits (unat w) \<le> Suc fuel \<Longrightarrow>
   traverse_fast_loop fuel a w p c = bindR (walk a (unat w) p) (\<lambda>q. Ok (c + of_nat (ubits (unat w) - 1), q))"
proof (induction fuel arbitrary: w p c)
  case 0
  then have "\<not> 1 < ubits (unat w)" by simp
  then have "unat w = 1" using 0(1) less_ubits_iff [of 1 "unat w"] by simp
  moreover from this have "w = 1" by (metis unat_1 word_unat_eq_iff)
  ultimately show ?case by (subst traverse_fast_loop.simps) (simp add: walk_1)
next
  case (Suc k)
  show ?case
  proof (cases "w = 1")
    case True
    then show ?thesis by (subst traverse_fast_loop.simps) (simp add: walk_1)
  next
    case False
    then have "unat w \<noteq> 1" by (metis unat_1 word_unat_eq_iff)
    with Suc.prems have ge: "1 < unat w" by simp
    have half: "unat (drop_bit 1 w) = unat w div 2" by (simp add: drop_bit_eq_div unat_div)
    have u: "ubits (unat w) = Suc (ubits (unat w div 2))" "0 < ubits (unat w div 2)"
      using ubits_div [of "unat w"] less_ubits_iff [of 0 "unat w div 2"] ge by auto
    have bit: "w AND 1 \<noteq> 0 \<longleftrightarrow> odd (unat w)"
      by (simp add: and_one_eq mod_2_eq_odd bit_unsigned_iff flip: bit_0)
    have IH: "traverse_fast_loop k a (drop_bit 1 w) q (c + 1)
        = bindR (walk a (unat w div 2) q) (\<lambda>q. Ok (c + 1 + of_nat (ubits (unat w div 2) - 1), q))" for q
      using Suc.IH [of "drop_bit 1 w" q "c + 1"] Suc.prems ge u half by simp
    have c: "c + 1 + of_nat (ubits (unat w div 2) - 1) = c + of_nat (ubits (unat w) - 1)"
      using u by (cases "ubits (unat w div 2)") simp_all
    show ?thesis using False ge unfolding c
      by (subst traverse_fast_loop.simps, subst walk.simps)
         (cases "sexp a p :: SExp eval"; simp add: IH [unfolded c] bit err_def del: One_nat_def split: SExp.split)
  qed
qed

lemma less_8_cases: "(j :: nat) < 8 \<Longrightarrow> j \<in> {0, 1, 2, 3, 4, 5, 6, 7}"
  by auto

lemma msb_mask_eq:
  assumes "b \<noteq> 0"
  shows "msb_mask b = push_bit (ubits (unat b) - 1) 1"
proof -
  define k where "k = ubits (unat b) - 1"
  define x where "x = (ucast (b OR drop_bit 1 b) :: u32)"
  define y where "y = x OR drop_bit 2 x"
  define z where "z = y OR drop_bit 4 y"
  have pos: "0 < ubits (unat b)" using assms by (simp add: less_ubits_iff Suc_le_eq unat_gt_0)
  have k: "2 ^ k \<le> unat b" "unat b < 2 ^ Suc k"
    using pos less_ubits_iff [of k "unat b"] ubits_upper [of "unat b"] by (simp_all add: k_def)
  have bit: "bit b m \<longleftrightarrow> bit (unat b) m" for m by (auto simp: bit_unsigned_iff dest: bit_imp_le_length)
  have "unat b div 2 ^ k = 1" by (rule div_nat_eqI) (use k in simp_all)
  then have top: "bit b k" unfolding bit by (simp add: bit_iff_odd)
  have k7: "k < 8" using top by (auto dest: bit_imp_le_length)
  have above: "m \<le> k" if "bit b m" for m
  proof (rule ccontr)
    assume "\<not> m \<le> k"
    then have "(2 :: nat) ^ Suc k \<le> 2 ^ m" by (intro power_increasing) auto
    then have "unat b div 2 ^ m = 0" using k by simp
    then show False using that unfolding bit by (simp add: bit_iff_odd)
  qed
  have z: "z = mask (Suc k)"
  proof (rule bit_word_eqI)
    fix n :: nat assume "n < LENGTH(32)"
    then have zn: "bit z n \<longleftrightarrow> (\<exists>i \<in> {0, 1, 2, 3, 4, 5, 6, 7}. bit b (n + i))"
      by (auto simp: z_def y_def x_def bit_simps eval_nat_numeral dest: bit_imp_le_length)
    have "bit z n \<longleftrightarrow> n \<le> k"
    proof
      assume "n \<le> k"
      then have "bit b (n + (k - n))" "k - n \<in> {0, 1, 2, 3, 4, 5, 6, 7}" using top k7 by auto
      then show "bit z n" unfolding zn by blast
    qed (use above zn in fastforce)
    then show "bit z n \<longleftrightarrow> bit (mask (Suc k) :: u32) n" using k7 by (auto simp: bit_simps)
  qed
  have "ucast (drop_bit 1 (mask (Suc k) + 1 :: u32)) = (push_bit k 1 :: u8)"
    using less_8_cases [OF k7] by (auto simp: mask_eq_exp_minus_1)
  moreover have "msb_mask b = ucast (drop_bit 1 (z + 1))"
    unfolding msb_mask_def Let_def z_def y_def x_def ..
  ultimately show ?thesis by (simp add: z k_def)
qed

lemma unat_u8_pow: "j < 8 \<Longrightarrow> unat (2 ^ j :: u8) = 2 ^ j"
  by (drule less_8_cases) auto

lemma be_nat_take_Suc: "i < length bs \<Longrightarrow> be_nat (take (Suc i) bs) = be_nat (take i bs) * 256 + unat (bs ! i)"
  by (simp add: take_Suc_conv_app_nth)

text \<open>The bits still to be walked at byte \<open>i\<close> and bit \<open>j\<close>.\<close>

definition path_rest :: "bytes \<Rightarrow> nat \<Rightarrow> nat \<Rightarrow> nat" where
  "path_rest bs i j = be_nat (take (Suc i) bs) div 2 ^ j"

lemma path_rest_odd:
  assumes "i < length bs" "j < 8"
  shows "bs ! i AND push_bit j 1 \<noteq> 0 \<longleftrightarrow> odd (path_rest bs i j)"
proof -
  have e: "(256 :: nat) = 2 ^ (7 - j) * 2 * 2 ^ j"
    using assms(2) by (simp flip: power_Suc2 power_add)
  have "path_rest bs i j = be_nat (take i bs) * 2 ^ (7 - j) * 2 + unat (bs ! i) div 2 ^ j"
    unfolding path_rest_def be_nat_take_Suc [OF assms(1)] e
    using div_mult_self1 [of "2 ^ j" "unat (bs ! i)" "be_nat (take i bs) * 2 ^ (7 - j) * 2"]
    by (simp add: ac_simps)
  then have "odd (path_rest bs i j) \<longleftrightarrow> bit (unat (bs ! i)) j" by (simp add: bit_iff_odd)
  also have "\<dots> \<longleftrightarrow> bit (bs ! i) j" by (simp add: bit_unsigned_iff assms(2))
  finally show ?thesis by (simp add: and_exp_eq_0_iff_not_bit push_bit_of_1)
qed

lemma path_rest_next: "j < 7 \<Longrightarrow> path_rest bs i (Suc j) = path_rest bs i j div 2"
  by (simp add: path_rest_def div_mult2_eq [symmetric] mult.commute)

lemma path_rest_prev: "0 < i \<Longrightarrow> i < length bs \<Longrightarrow> path_rest bs i 7 div 2 = path_rest bs (i - 1) 0"
  using be_nat_take_Suc [of i bs] by (simp add: path_rest_def div_mult2_eq [symmetric])

lemma first_non_zero_nth: "first_non_zero bs < length bs \<Longrightarrow> bs ! first_non_zero bs \<noteq> 0"
  by (induction bs) auto

lemma first_non_zero_le: "first_non_zero bs \<le> length bs"
  by (induction bs) auto

lemma be_nat_first_non_zero: "be_nat (take (first_non_zero bs) bs) = 0"
  by (induction bs) (auto simp: be_nat_Cons)

lemma path_rest_gt_1:
  assumes "first_non_zero bs \<le> i" "i < length bs" "j < 8" "0 < path_rest bs i j"
  shows "1 < path_rest bs i j \<longleftrightarrow>
    first_non_zero bs < i \<or> push_bit j 1 < msb_mask (bs ! first_non_zero bs)"
proof (cases "first_non_zero bs < i")
  case True
  let ?f = "first_non_zero bs"
  have "take i bs = take (Suc ?f) bs @ take (i - Suc ?f) (drop (Suc ?f) bs)"
    using True by (metis Suc_leI le_add_diff_inverse take_add)
  then have "be_nat (take (Suc ?f) bs) * 256 ^ length (take (i - Suc ?f) (drop (Suc ?f) bs)) \<le> be_nat (take i bs)"
    using be_nat_append by (metis le_add1)
  moreover have "0 < be_nat (take (Suc ?f) bs)"
    using True assms be_nat_take_Suc [of ?f bs] first_non_zero_nth [of bs] by (simp add: be_nat_first_non_zero unat_gt_0)
  ultimately have "1 \<le> be_nat (take i bs)" by (metis less_one linorder_not_less mult_is_0 power_not_zero zero_neq_numeral gr_zeroI le_zero_eq)
  then have "256 \<le> be_nat (take (Suc i) bs)" using be_nat_take_Suc [OF assms(2)] by simp
  moreover have "(2 :: nat) ^ j * 2 \<le> 2 ^ 7 * 2" using assms(3) by (intro mult_right_mono power_increasing) auto
  ultimately have "2 * 2 ^ j \<le> be_nat (take (Suc i) bs)" by simp
  then have "2 \<le> path_rest bs i j" unfolding path_rest_def by (simp add: less_eq_div_iff_mult_less_eq)
  with True show ?thesis by simp
next
  case False
  then have i: "i = first_non_zero bs" using assms(1) by simp
  define b where "b = bs ! i"
  have b: "b \<noteq> 0" using first_non_zero_nth assms(2) i by (simp add: b_def)
  have m: "path_rest bs i j = unat b div 2 ^ j"
    using be_nat_take_Suc [OF assms(2)] be_nat_first_non_zero i by (simp add: path_rest_def b_def)
  have ub: "0 < ubits (unat b)" "ubits (unat b) \<le> 8"
    using b ubits_le [of "unat b" 8] by (simp_all add: less_ubits_iff Suc_le_eq unat_gt_0)
  have "push_bit j 1 < msb_mask b \<longleftrightarrow> (2 :: nat) ^ j < 2 ^ (ubits (unat b) - 1)"
    using ub assms(3) msb_mask_eq [OF b] by (simp add: word_less_nat_alt push_bit_of_1 unat_u8_pow)
  also have "\<dots> \<longleftrightarrow> Suc j < ubits (unat b)" using ub by auto
  also have "\<dots> \<longleftrightarrow> 2 * 2 ^ j \<le> unat b" by (simp add: less_ubits_iff)
  also have "\<dots> \<longleftrightarrow> 1 < path_rest bs i j" unfolding m
    using less_eq_div_iff_mult_less_eq [of "2 ^ j" 2 "unat b"] by auto
  finally show ?thesis using False i b_def by simp
qed


lemma slow_loop_walk:
  "first_non_zero bs \<le> i \<Longrightarrow> i < length bs \<Longrightarrow> j < 8 \<Longrightarrow> 0 < path_rest bs i j \<Longrightarrow>
    ubits (path_rest bs i j) \<le> Suc fuel \<Longrightarrow>
    traverse_loop fuel a bs (first_non_zero bs) (msb_mask (bs ! first_non_zero bs)) i (push_bit j 1) p c =
    bindR (walk a (path_rest bs i j) p) (\<lambda>q. Ok (Reduction (c + 4 * of_nat (ubits (path_rest bs i j) - 1)) q))"
proof (induction fuel arbitrary: i j p c)
  case 0
  then have "\<not> 1 < ubits (path_rest bs i j)" by simp
  then have m: "path_rest bs i j = 1" using 0 less_ubits_iff [of 1 "path_rest bs i j"] by simp
  then show ?case using path_rest_gt_1 [OF 0(1-4)] by (subst traverse_loop.simps) (simp add: walk_1)
next
  case (Suc k)
  let ?m = "path_rest bs i j"
  note cond = path_rest_gt_1 [OF Suc.prems(1-4)]
  show ?case
  proof (cases "1 < ?m")
    case False
    then have "?m = 1" using Suc.prems by simp
    with False cond show ?thesis by (subst traverse_loop.simps) (simp add: walk_1)
  next
    case True
    have u: "ubits ?m = Suc (ubits (?m div 2))" "0 < ubits (?m div 2)"
      using ubits_div [of ?m] less_ubits_iff [of 0 "?m div 2"] True by auto
    define i' j' where "i' = (if j = 7 then i - 1 else i)" and "j' = (if j = 7 then 0 else Suc j)"
    have pos: "first_non_zero bs < i" if "j = 7"
    proof (rule ccontr)
      assume "\<not> first_non_zero bs < i"
      then have i: "i = first_non_zero bs" using Suc.prems by simp
      then have "?m = unat (bs ! i) div 128"
        using that be_nat_take_Suc [OF Suc.prems(2)] be_nat_first_non_zero by (simp add: path_rest_def)
      moreover have "unat (bs ! i) < 2 * 128" using unat_u8_less [of "bs ! i"] by simp
      then have "unat (bs ! i) div 128 < 2" by (rule less_mult_imp_div_less)
      ultimately show False using True by simp
    qed
    have m': "path_rest bs i' j' = ?m div 2"
      using path_rest_next [of j bs i] path_rest_prev [of i bs] pos Suc.prems by (auto simp: i'_def j'_def)
    have bm: "(if push_bit j (1 :: u8) = 0x80 then (0x01, usize_sub i 1) else (push_bit 1 (push_bit j 1), i)) = (push_bit j' 1, i')"
      using less_8_cases [OF Suc.prems(3)] pos by (auto simp: i'_def j'_def usize_sub_def)
    have IH: "traverse_loop k a bs (first_non_zero bs) (msb_mask (bs ! first_non_zero bs)) i' (push_bit j' 1) q (c + 4) =
        bindR (walk a (?m div 2) q) (\<lambda>q. Ok (Reduction (c + 4 + 4 * of_nat (ubits (?m div 2) - 1)) q))" for q
      using Suc.IH [of i' j' q "c + 4"] Suc.prems True u pos unfolding m' by (auto simp: i'_def j'_def)
    have c: "c + 4 + 4 * of_nat (ubits (?m div 2) - 1) = c + 4 * of_nat (ubits ?m - 1)"
      using u by (cases "ubits (?m div 2)") (simp_all add: algebra_simps)
    have bit: "bs ! i AND push_bit j 1 \<noteq> 0 \<longleftrightarrow> odd ?m" by (rule path_rest_odd [OF Suc.prems(2,3)])
    show ?thesis using True cond Suc.prems
      unfolding walk.simps [of a ?m] traverse_loop.simps [of "Suc k"] bm bit
      by (simp add: Let_def IH [unfolded c] traverse_costs err_def del: One_nat_def push_bit_of_1)
         (cases "sexp a p :: SExp eval"; simp add: IH [unfolded c] bit [unfolded push_bit_of_1] split: SExp.split)
  qed
qed


section \<open>Both functions\<close>

lemma first_non_zero_length: "first_non_zero bs = length bs \<longleftrightarrow> be_nat bs = 0"
  by (induction bs) (auto simp: be_nat_Cons unat_gt_0)

lemma traverse_path_walk:
  "traverse_path a bs p =
    (if be_nat bs = 0 then Ok (Reduction (44 + 4 * of_nat (length bs)) node_NIL)
     else bindR (walk a (be_nat bs) p) (\<lambda>q.
       Ok (Reduction (44 + 4 * of_nat (first_non_zero bs) + 4 * of_nat (ubits (be_nat bs) - 1)) q)))"
proof (cases "be_nat bs = 0")
  case True
  then have "first_non_zero bs = length bs" by (simp add: first_non_zero_length)
  with True show ?thesis by (simp add: traverse_path_def Let_def traverse_costs)
next
  case False
  then have f: "first_non_zero bs < length bs"
    using first_non_zero_le [of bs] first_non_zero_length [of bs] by linarith
  have u: "ubits (be_nat bs) \<le> 8 * length bs"
    using be_nat_less [of bs] unfolding pow256 by (rule ubits_le)
  have r: "path_rest bs (length bs - 1) 0 = be_nat bs" using f by (simp add: path_rest_def)
  have "usize_sub (length bs) 1 = length bs - 1" using f by (simp add: usize_sub_def)
  then have "traverse_path a bs p = traverse_loop (8 * length bs) a bs (first_non_zero bs)
      (msb_mask (bs ! first_non_zero bs)) (length bs - 1) (push_bit 0 1) p (44 + 4 * of_nat (first_non_zero bs))"
    using f by (simp add: traverse_path_def Let_def traverse_costs mult.commute)
  also have "\<dots> = bindR (walk a (be_nat bs) p) (\<lambda>q.
       Ok (Reduction (44 + 4 * of_nat (first_non_zero bs) + 4 * of_nat (ubits (be_nat bs) - 1)) q))"
    using slow_loop_walk [of bs "length bs - 1" 0 "8 * length bs" a p "44 + 4 * of_nat (first_non_zero bs)"] f u r False
    by simp
  finally show ?thesis using False by simp
qed

lemma be_nat_int_bytes: "be_nat (int_bytes (uint (w :: u32))) = unat w"
  using be_signed_nonneg [of "int_bytes (uint w)"] by (simp add: nat_eq_iff2 flip: uint_nat)
    (metis of_nat_eq_iff uint_nat)

text \<open>A canonical path has a leading zero byte exactly when its bits fill whole bytes.\<close>

lemma first_non_zero_canonical:
  assumes "canonical bs" "0 < be_signed bs"
  shows "first_non_zero bs = (if 8 dvd ubits (be_nat bs) then 1 else 0)"
proof (cases bs)
  case (Cons b rest)
  define W where "W = (256 :: nat) ^ length rest"
  have r: "be_nat rest < W" unfolding W_def by (rule be_nat_less)
  have val: "be_nat bs = unat b * W + be_nat rest" by (simp add: Cons be_nat_Cons W_def)
  have b: "unat b < 128" using be_signed_nonneg_iff [of bs] assms Cons by simp
  show ?thesis
  proof (cases "b = 0")
    case True
    then obtain b1 rest' where rest: "rest = b1 # rest'" "128 \<le> unat b1"
      using assms Cons by (cases rest) auto
    have "256 ^ length rest \<le> 2 * be_nat rest" using hd_ge_128_iff [of rest] rest by simp
    then have "2 ^ (8 * length rest - 1) * 2 \<le> be_nat rest * 2"
      unfolding pow256 power_Suc2 [symmetric] using rest(1) by simp
    then have "8 * length rest - 1 < ubits (be_nat rest)" by (simp add: less_ubits_iff)
    moreover have "ubits (be_nat rest) \<le> 8 * length rest"
      using be_nat_less [of rest] unfolding pow256 by (rule ubits_le)
    ultimately have "ubits (be_nat bs) = 8 * length rest" using val True rest(1) by simp
    moreover have "b1 \<noteq> 0" using rest(2) by auto
    ultimately show ?thesis using True Cons rest by simp
  next
    case False
    then have b1: "1 \<le> unat b" by (simp add: Suc_le_eq unat_gt_0)
    have "1 * W \<le> unat b * W" using b1 by (rule mult_right_mono) simp
    then have "W \<le> be_nat bs" using val by linarith
    then have "8 * length rest < ubits (be_nat bs)" by (simp add: less_ubits_iff W_def pow256)
    moreover have "ubits (be_nat bs) \<le> 8 * length rest + 7"
    proof (rule ubits_le)
      have "unat b * W \<le> 127 * W" using b by (intro mult_right_mono) auto
      then have "be_nat bs < 128 * W" using val r by linarith
      then show "be_nat bs < 2 ^ (8 * length rest + 7)" by (simp add: W_def pow256 power_add)
    qed
    ultimately have "\<not> 8 dvd ubits (be_nat bs)" by presburger
    with False Cons show ?thesis by simp
  qed
qed (use assms in simp)

lemma of_nat_u64_eq: "m < 64 \<Longrightarrow> n < 64 \<Longrightarrow> (of_nat m :: u64) = of_nat n \<longleftrightarrow> m = n"
  by (simp add: word_unat_eq_iff unat_of_nat)

lemma traverse_path_fast_eq: "traverse_path_fast a w p = traverse_path a (int_bytes (uint w)) p"
proof (cases "w = 0")
  case True
  then show ?thesis by (simp add: traverse_path_fast_def traverse_path_walk traverse_costs)
next
  case False
  have w: "unat w \<noteq> 0" using False by (simp add: unat_eq_0)
  define m where "m = ubits (unat w) - 1"
  have "unat w < 2 ^ 32" using unat_u32_less [of w] by simp
  then have k: "ubits (unat w) = Suc m" "m < 32" using ubits_le [of "unat w" 32] less_ubits_iff [of 0 "unat w"] w
    by (simp_all add: m_def)
  have dvd: "8 dvd Suc m \<longleftrightarrow> m = 7 \<or> m = 15 \<or> m = 23 \<or> m = 31" using k(2) by presburger
  have eqs: "(of_nat m :: u64) = 7 \<longleftrightarrow> m = 7" "(of_nat m :: u64) = 15 \<longleftrightarrow> m = 15"
    "(of_nat m :: u64) = 23 \<longleftrightarrow> m = 23" "(of_nat m :: u64) = 31 \<longleftrightarrow> m = 31"
    using of_nat_u64_eq [of m 7] of_nat_u64_eq [of m 15] of_nat_u64_eq [of m 23] of_nat_u64_eq [of m 31] k(2)
    by simp_all
  have "0 < int (unat w)" using w by linarith
  then have pos: "0 < uint w" by simp
  have f: "first_non_zero (int_bytes (uint w)) = (if 8 dvd Suc m then 1 else 0)"
    using first_non_zero_canonical [of "int_bytes (uint w)"] pos by (simp add: be_nat_int_bytes k)
  show ?thesis
    using False w k fast_loop_walk [of w 32 a p 0]
    unfolding traverse_path_fast_def traverse_path_walk be_nat_int_bytes f k(1)
    by (cases "walk a (unat w) p") (simp_all add: Let_def traverse_costs eqs dvd)
qed

text \<open>The walk on values.\<close>

fun cpath :: "nat \<Rightarrow> clvm \<Rightarrow> clvm + clvm" where
  "cpath n t =
     (if n \<le> 1 then Inr t
      else case t of CAtom bs \<Rightarrow> Inl t | CPair l r \<Rightarrow> cpath (n div 2) (if odd n then r else l))"

declare cpath.simps [simp del]

lemma rep_walk:
  "rep a p t \<Longrightarrow>
   (case cpath n t of
      Inr u \<Rightarrow> \<exists>q. walk a n p = Ok q \<and> rep a q u
    | Inl u \<Rightarrow> \<exists>q. walk a n p = err q ''path into atom'' \<and> rep a q u)"
proof (induction t arbitrary: n p)
  case (CAtom bs)
  then show ?case by (subst cpath.simps, subst (1 2) walk.simps) (auto simp: rep_sexp_atom)
next
  case (CPair l r)
  show ?case
  proof (cases "n \<le> 1")
    case True
    then show ?thesis using CPair.prems by (simp add: cpath.simps walk_1)
  next
    case False
    let ?q = "if odd n then prest a p else pfirst a p"
    have w: "walk a n p = walk a (n div 2) ?q"
      using False CPair.prems by (subst walk.simps) (simp add: rep_sexp_pair)
    have c: "cpath n (CPair l r) = cpath (n div 2) (if odd n then r else l)" using False by (subst cpath.simps) simp
    show ?thesis unfolding w c
      using CPair.IH rep_pfirst [OF CPair.prems] rep_prest [OF CPair.prems] by (cases "odd n") simp_all
  qed
qed

end
