(* ===== verification/RunProgram.thy ===== *)
theory RunProgram
  imports Dialect TraversePath
begin

text \<open>
  The interpreter, \<open>src/src/run_program.rs\<close>, in its default build (without the
  \<open>pre-eval\<close> and \<open>counters\<close> features). The four stacks are lists whose head is the last
  element of the \<open>Vec\<close>. One iteration of the main loop is \<open>run_iter\<close>; the loop itself is a
  partial function whose value \<open>None\<close> stands for a run that does not end.
\<close>

section \<open>State\<close>

definition QUOTE_COST :: Cost where "QUOTE_COST = 20"
definition APPLY_COST :: Cost where "APPLY_COST = 90"
definition GUARD_COST :: Cost where "GUARD_COST = 140"
definition OP_COST :: Cost where "OP_COST = 1"
definition STACK_SIZE_LIMIT :: nat where "STACK_SIZE_LIMIT = 20000000"

lemmas run_costs = QUOTE_COST_def APPLY_COST_def GUARD_COST_def OP_COST_def

datatype Operation = Apply | Cons | ExitGuard | SwapEval

record SoftforkGuard =
  expected_cost :: Cost
  allocator_state :: Checkpoint
  operator_set :: OperatorSet

record RunProgramContext =
  allocator :: Allocator
  val_stack :: "NodePtr list"
  env_stack :: "NodePtr list"
  op_stack :: "Operation list"
  softfork_stack :: "SoftforkGuard list"

type_synonym 'a run = "'a eval \<times> RunProgramContext"

definition context_new :: "Allocator \<Rightarrow> RunProgramContext" where
  "context_new a = \<lparr> allocator = a, val_stack = [], env_stack = [], op_stack = [], softfork_stack = [] \<rparr>"

text \<open>A call of the allocator inside the context.\<close>

fun lift_alloc :: "RunProgramContext \<Rightarrow> 'a eval \<times> Allocator \<Rightarrow> 'a run" where
  "lift_alloc self (r, a) = (r, self\<lparr> allocator := a \<rparr>)"

section \<open>Stack operations\<close>

definition pop :: "RunProgramContext \<Rightarrow> NodePtr run" where
  "pop self =
     (case val_stack self of
        [] \<Rightarrow> (err (nil (allocator self)) ''runtime error: value stack empty'', self)
      | k # vs \<Rightarrow> (Ok k, self\<lparr> val_stack := vs \<rparr>))"

definition push :: "RunProgramContext \<Rightarrow> NodePtr \<Rightarrow> unit run" where
  "push self n =
     (if length (val_stack self) = STACK_SIZE_LIMIT then (err n ''value stack limit reached'', self)
      else (Ok (), self\<lparr> val_stack := n # val_stack self \<rparr>))"

definition push_env :: "RunProgramContext \<Rightarrow> NodePtr \<Rightarrow> unit run" where
  "push_env self env =
     (if length (env_stack self) = STACK_SIZE_LIMIT then (err env ''environment stack limit reached'', self)
      else (Ok (), self\<lparr> env_stack := env # env_stack self \<rparr>))"

definition push_op :: "RunProgramContext \<Rightarrow> Operation \<Rightarrow> RunProgramContext" where
  "push_op self op = self\<lparr> op_stack := op # op_stack self \<rparr>"

section \<open>Operations\<close>

definition augment_cost_errors :: "Cost eval \<Rightarrow> NodePtr \<Rightarrow> Cost eval" where
  "augment_cost_errors r max_cost =
     map_err (\<lambda>e. if err_msg e \<noteq> ''cost exceeded'' then e else EvalErr max_cost (err_msg e)) r"

definition cons_op :: "RunProgramContext \<Rightarrow> Cost run" where
  "cons_op self =
     tryS (pop self) (\<lambda>v1 self.
     tryS (pop self) (\<lambda>v2 self.
     tryS (lift_alloc self (new_pair (allocator self) v1 v2)) (\<lambda>p self.
     tryS (push self p) (\<lambda>_ self. (Ok 0, self)))))"

text \<open>
  The loop of \<open>eval_op_atom\<close> over the operands, and the node that ends them. It does not
  touch the allocator, and follows one pair per iteration.
\<close>

fun push_operands :: "nat \<Rightarrow> RunProgramContext \<Rightarrow> NodePtr \<Rightarrow> NodePtr run" where
  "push_operands 0 self operands = (Panic ''the list does not end'', self)"
| "push_operands (Suc k) self operands =
     tryR (sexp (allocator self) operands) self (\<lambda>s. case s of
       SAtom \<Rightarrow> (Ok operands, self)
     | SPair first rest \<Rightarrow>
         tryS (push (push_op self SwapEval) first) (\<lambda>_ self. push_operands k self rest))"

definition eval_op_atom :: "dialect \<Rightarrow> RunProgramContext \<Rightarrow> NodePtr \<Rightarrow> NodePtr \<Rightarrow> NodePtr \<Rightarrow> Cost run" where
  "eval_op_atom D self operator_node operand_list env =
     tryR (small_number (allocator self) operator_node) self (\<lambda>s.
     tryR (quote_kw D) self (\<lambda>q.
     if s = Some q then
       tryS (push self operand_list) (\<lambda>_ self. (Ok QUOTE_COST, self))
     else
       tryS (push_env self env) (\<lambda>_ self.
       tryS (push (push_op self Apply) operator_node) (\<lambda>_ self.
       tryS (push_operands (Suc (length (pair_vec (allocator self)))) self operand_list) (\<lambda>operands self.
       tryR (atom_len (allocator self) operands) self (\<lambda>len.
       if len \<noteq> 0 then (err operand_list ''bad operand list'', self)
       else tryS (push self (nil (allocator self))) (\<lambda>_ self. (Ok OP_COST, self))))))))"

definition eval_pair :: "dialect \<Rightarrow> RunProgramContext \<Rightarrow> NodePtr \<Rightarrow> NodePtr \<Rightarrow> Cost run" where
  "eval_pair D self program env =
     tryR (sexp (allocator self) program) self (\<lambda>s. case s of
       SAtom \<Rightarrow>
         tryR (bindR (node (allocator self) program) (\<lambda>v. case v of
             VBuffer buf \<Rightarrow> traverse_path (allocator self) buf env
           | VU32 val \<Rightarrow> traverse_path_fast (allocator self) val env
           | VPair _ _ \<Rightarrow> Panic ''expected atom, got pair'')) self (\<lambda>r.
         tryS (push self (red_node r)) (\<lambda>_ self. (Ok (red_cost r), self)))
     | SPair op_node op_list \<Rightarrow>
         tryR (sexp (allocator self) op_node) self (\<lambda>t. case t of
           SPair new_operator _ \<Rightarrow>
             tryR (get_args 1 (allocator self) op_node ''in the ((X)...) syntax, the inner list'') self (\<lambda>args.
             let inner = args ! 0 in
             tryR (sexp (allocator self) inner) self (\<lambda>u. case u of
               SPair _ _ \<Rightarrow> (err program ''in ((X)...) syntax X must be lone atom'', self)
             | SAtom \<Rightarrow>
                 tryS (push_env self env) (\<lambda>_ self.
                 tryS (push self new_operator) (\<lambda>_ self.
                 tryS (push self op_list) (\<lambda>_ self.
                 (Ok APPLY_COST, push_op self Apply))))))
         | SAtom \<Rightarrow> eval_op_atom D self op_node op_list env))"

definition swap_eval_op :: "dialect \<Rightarrow> RunProgramContext \<Rightarrow> Cost run" where
  "swap_eval_op D self =
     tryS (pop self) (\<lambda>v2 self.
     tryS (pop self) (\<lambda>program self.
     case env_stack self of
       [] \<Rightarrow> (Err (EvalErr program ''runtime error: env stack empty''), self)
     | env # _ \<Rightarrow>
         tryS (push self v2) (\<lambda>_ self. eval_pair D (push_op self Cons) program env)))"

definition parse_softfork_arguments ::
  "dialect \<Rightarrow> RunProgramContext \<Rightarrow> NodePtr \<Rightarrow> (OperatorSet \<times> NodePtr \<times> NodePtr) eval" where
  "parse_softfork_arguments D self args =
     bindR (get_args 4 (allocator self) args ''softfork'') (\<lambda>as.
     bindR (uint_atom 4 (allocator self) (as ! 1) ''softfork'') (\<lambda>ext.
     let extension = softfork_extension D (ucast ext) in
     if extension = DefaultOps then err args ''unknown softfork extension''
     else Ok (extension, as ! 2, as ! 3)))"

text \<open>\<open>eval_pair(...).map(|c| c + extra)\<close>.\<close>

fun add_cost :: "Cost \<Rightarrow> Cost run \<Rightarrow> Cost run" where
  "add_cost extra (r, self) = (bindR r (\<lambda>c. Ok (c + extra)), self)"

text \<open>
  The softfork branch of \<open>apply_op\<close>, in two parts: once the expected cost is accepted,
  \<open>enter_guard\<close> reads the other arguments and starts the guarded program.
\<close>

definition enter_guard :: "dialect \<Rightarrow> RunProgramContext \<Rightarrow> NodePtr \<Rightarrow> Cost \<Rightarrow> Cost \<Rightarrow> Cost run" where
  "enter_guard D self operand_list expected current_cost =
     (case parse_softfork_arguments D self operand_list of
        Panic p \<Rightarrow> (Panic p, self)
      | Err e \<Rightarrow>
          if allow_unknown_ops D then
            tryS (push self (nil (allocator self))) (\<lambda>_ self. (Ok expected, self))
          else (Err e, self)
      | Ok (ext, prg, env) \<Rightarrow>
          let guard = \<lparr> expected_cost = current_cost + expected,
                        allocator_state = checkpoint (allocator self), operator_set = ext \<rparr>;
              self = self\<lparr> softfork_stack := guard # softfork_stack self \<rparr>
          in add_cost GUARD_COST (eval_pair D (push_op self ExitGuard) prg env))"

definition softfork_op :: "dialect \<Rightarrow> RunProgramContext \<Rightarrow> NodePtr \<Rightarrow> Cost \<Rightarrow> Cost \<Rightarrow> Cost run" where
  "softfork_op D self operand_list current_cost max_cost =
     tryR (util_first (allocator self) operand_list) self (\<lambda>f.
     tryR (uint_atom 8 (allocator self) f ''softfork'') self (\<lambda>expected.
     if expected > max_cost then (err operand_list ''cost exceeded'', self)
     else if expected = 0 then (err operand_list ''cost must be > 0'', self)
     else enter_guard D self operand_list expected current_cost))"

definition apply_op :: "dialect \<Rightarrow> RunProgramContext \<Rightarrow> Cost \<Rightarrow> Cost \<Rightarrow> Cost run" where
  "apply_op D self current_cost max_cost =
     tryS (pop self) (\<lambda>operand_list self.
     tryS (pop self) (\<lambda>operator self.
     case env_stack self of
       [] \<Rightarrow> (err operator ''runtime error: env stack empty'', self)
     | _ # envs \<Rightarrow>
       let self = self\<lparr> env_stack := envs \<rparr> in
       tryR (small_number (allocator self) operator) self (\<lambda>op_atom.
       tryR (apply_kw D) self (\<lambda>ak.
       if op_atom = Some ak then
         tryR (get_args 2 (allocator self) operand_list ''apply'') self (\<lambda>args.
         add_cost APPLY_COST (eval_pair D self (args ! 0) (args ! 1)))
       else
       tryR (softfork_kw D) self (\<lambda>sk.
       if op_atom = Some sk then softfork_op D self operand_list current_cost max_cost
       else
         let current_extensions =
               (case softfork_stack self of sf # _ \<Rightarrow> operator_set sf | [] \<Rightarrow> DefaultOps) in
         tryS (lift_alloc self (dialect_op D (allocator self) operator operand_list max_cost current_extensions)) (\<lambda>r self.
         tryS (push self (red_node r)) (\<lambda>_ self. (Ok (red_cost r), self))))))))"

text \<open>\<open>.expect(msg)\<close> on a call that returns new state: an error is a panic.\<close>

fun expect_ok :: "string \<Rightarrow> 'a run \<Rightarrow> 'a run" where
  "expect_ok msg (Ok x, self) = (Ok x, self)"
| "expect_ok msg (Err e, self) = (Panic msg, self)"
| "expect_ok msg (Panic p, self) = (Panic p, self)"

definition exit_guard :: "RunProgramContext \<Rightarrow> Cost \<Rightarrow> Cost run" where
  "exit_guard self current_cost =
     (case softfork_stack self of
        [] \<Rightarrow> (Panic ''internal error. exiting a softfork that's already been popped'', self)
      | guard # guards \<Rightarrow>
        let self = self\<lparr> softfork_stack := guards \<rparr> in
        if current_cost \<noteq> expected_cost guard
        then (err (nil (allocator self)) ''softfork specified cost mismatch'', self)
        else
          tryS (lift_alloc self (restore_checkpoint (allocator self) (allocator_state guard))) (\<lambda>_ self.
          tryS (expect_ok ''internal error, softfork program did not push value onto stack'' (pop self)) (\<lambda>_ self.
          tryS (push self (nil (allocator self))) (\<lambda>_ self. (Ok 0, self)))))"

section \<open>The main loop\<close>

definition effective_max_cost :: "RunProgramContext \<Rightarrow> Cost \<Rightarrow> Cost" where
  "effective_max_cost self max_cost =
     (case softfork_stack self of sf # _ \<Rightarrow> expected_cost sf | [] \<Rightarrow> max_cost)"

fun augment_run :: "NodePtr \<Rightarrow> Cost run \<Rightarrow> Cost run" where
  "augment_run max_cost_ptr (r, self) = (augment_cost_errors r max_cost_ptr, self)"

text \<open>One iteration: \<open>None\<close> when the loop is left, the new cost otherwise.\<close>

definition run_iter :: "dialect \<Rightarrow> Cost \<Rightarrow> NodePtr \<Rightarrow> Cost \<Rightarrow> RunProgramContext \<Rightarrow> Cost option run" where
  "run_iter D max_cost max_cost_ptr cost self =
     (let effective = effective_max_cost self max_cost in
      if cost > effective then (err max_cost_ptr ''cost exceeded'', self)
      else
        (case op_stack self of
           [] \<Rightarrow> (Ok None, self)
         | op # ops \<Rightarrow>
           let self = self\<lparr> op_stack := ops \<rparr> in
           tryS (case op of
               Apply \<Rightarrow> augment_run max_cost_ptr (apply_op D self cost (effective - cost))
             | ExitGuard \<Rightarrow> exit_guard self cost
             | Cons \<Rightarrow> cons_op self
             | SwapEval \<Rightarrow> augment_run max_cost_ptr (swap_eval_op D self)) (\<lambda>c self.
           (Ok (Some (cost + c)), self))))"

partial_function (option) run_loop ::
  "dialect \<Rightarrow> Cost \<Rightarrow> NodePtr \<Rightarrow> Cost \<Rightarrow> RunProgramContext \<Rightarrow> Cost run option" where
  "run_loop D max_cost max_cost_ptr cost self =
     (case run_iter D max_cost max_cost_ptr cost self of
        (Ok (Some cost'), self') \<Rightarrow> run_loop D max_cost max_cost_ptr cost' self'
      | (Ok None, self') \<Rightarrow> Some (Ok cost, self')
      | (Err e, self') \<Rightarrow> Some (Err e, self')
      | (Panic p, self') \<Rightarrow> Some (Panic p, self'))"

text \<open>The \<open>?\<close> operator before a call that may not return.\<close>

fun tryO :: "'a run \<Rightarrow> ('a \<Rightarrow> RunProgramContext \<Rightarrow> 'b run option) \<Rightarrow> 'b run option" where
  "tryO (Ok x, self) f = f x self"
| "tryO (Err e, self) f = Some (Err e, self)"
| "tryO (Panic p, self) f = Some (Panic p, self)"

definition context_run_program ::
  "'x bigint_api_scheme \<Rightarrow> dialect \<Rightarrow> RunProgramContext \<Rightarrow> NodePtr \<Rightarrow> NodePtr \<Rightarrow> Cost \<Rightarrow> Reduction run option" where
  "context_run_program B D self program env max_cost =
     (let self = self\<lparr> val_stack := [], op_stack := [] \<rparr>;
          max_cost = (if max_cost = 0 then - 1 else max_cost) in
      tryO (lift_alloc self (new_number B (allocator self) (uint max_cost))) (\<lambda>max_cost_ptr self.
      tryO (eval_pair D self program env) (\<lambda>c self.
      map_option (\<lambda>r. tryS r (\<lambda>cost self. tryS (pop self) (\<lambda>n self. (Ok (Reduction cost n), self))))
        (run_loop D max_cost max_cost_ptr (0 + c) self))))"

definition run_program ::
  "'x bigint_api_scheme \<Rightarrow> dialect \<Rightarrow> Allocator \<Rightarrow> NodePtr \<Rightarrow> NodePtr \<Rightarrow> Cost \<Rightarrow> (Response \<times> Allocator) option" where
  "run_program B D a program env max_cost =
     map_option (\<lambda>(r, self). (r, allocator self)) (context_run_program B D (context_new a) program env max_cost)"

end
