(* ===== verification/MoreOpsSpec.thy ===== *)
theory MoreOpsSpec
  imports MoreOps
begin

unbundle bit_operations_syntax

text \<open>
  The operators of \<open>more_ops.rs\<close> on values. For each handler a function of the argument
  value (and the remaining cost) says what it returns, at which cost and with which error;
  the lemmas show that the handler, run on the heap, refines it.
\<close>

section \<open>Building blocks\<close>

definition v_num :: "Cost \<Rightarrow> int \<Rightarrow> (Cost \<times> clvm) vres" where
  "v_num c n = Inr (c + of_nat (length (int_bytes n)) * 10, CAtom (int_bytes n))"

definition v_intarg :: "string \<Rightarrow> clvm \<Rightarrow> (int \<times> nat) vres" where
  "v_intarg msg t = bindV (v_atom msg t) (\<lambda>bs. Inr (be_signed bs, length bs))"

lemma refines_number:
  assumes "bigint_laws B" "alloc_ok a"
  shows "refines (v_num c n) (tryS (new_number B a n) (\<lambda>p a. (malloc_cost a c p, a)))"
  by (rule refines_tryS [OF safe_new_number [OF assms order_refl]])
     (auto simp: v_num_def malloc_cost_def rep_atom_len Let_def MALLOC_COST_PER_BYTE_def intro!: refines_Ok)

lemma reads_int_arg:
  assumes B: "bigint_laws B" and n: "rep a n t"
  shows "reads a (=) (v_intarg msg t) (int_arg B a n msg)"
proof (cases t)
  case (CAtom bs)
  then have r: "rep a n (CAtom bs)" using n by simp
  from r show ?thesis
  proof (cases rule: rep_atom_cases)
    case buf
    show ?thesis
      by (simp add: int_arg_def v_intarg_def CAtom rep_node_buffer [OF r buf(1)] bigint_laws.number_from_u8_eq [OF B] reads_Inr)
  next
    case small
    then show ?thesis
      by (simp add: int_arg_def v_intarg_def CAtom rep_node_small len_for_value_eq reads_Inr)
  qed
next
  case (CPair l r)
  then show ?thesis using n by (auto simp: int_arg_def v_intarg_def rep_node_pair)
qed

lemma extends_number [ext_intros]: "extends a (snd (tryS (new_number B a n) (\<lambda>p a. (f a p, a))))"
  by (intro ext_intros) auto

section \<open>Unknown operators\<close>

definition v_len :: "string \<Rightarrow> clvm \<Rightarrow> nat vres" where
  "v_len name t = bindV (v_atom (name @ '' requires an atom'') t) (\<lambda>bs. Inr (length bs))"

definition v_unknown_add :: "Cost \<Rightarrow> clvm \<Rightarrow> Cost \<times> u64 \<Rightarrow> (Cost \<times> u64) vres" where
  "v_unknown_add m t s = bindV (v_len ''unknown op'' t) (\<lambda>l.
     bindV (v_cost (fst s + 320 + (snd s + of_nat l) * 3) m) (\<lambda>_. Inr (fst s + 320, snd s + of_nat l)))"

definition v_unknown_mul :: "Cost \<Rightarrow> clvm \<Rightarrow> Cost \<times> bool \<times> u64 \<Rightarrow> (Cost \<times> bool \<times> u64) vres" where
  "v_unknown_mul m t s = (case s of (cost, first, l0) \<Rightarrow>
     bindV (v_len ''unknown op'' t) (\<lambda>l.
     if first then Inr (cost, False, of_nat l)
     else
       let cost = cost + 885 + (l0 + of_nat l) * 6 + l0 * of_nat l div 128 in
       bindV (v_cost cost m) (\<lambda>_. Inr (cost, first, l0 + of_nat l))))"

definition v_unknown_concat :: "Cost \<Rightarrow> clvm \<Rightarrow> Cost \<times> u64 \<Rightarrow> (Cost \<times> u64) vres" where
  "v_unknown_concat m t s = bindV (v_len ''unknown op'' t) (\<lambda>l.
     bindV (v_cost (fst s + 135 + (snd s + of_nat l) * 3) m) (\<lambda>_. Inr (fst s + 135, snd s + of_nat l)))"

definition v_unknown_cost :: "u8 \<Rightarrow> clvm \<Rightarrow> Cost \<Rightarrow> Cost vres" where
  "v_unknown_cost f t m =
     (if f = 0 then Inr 1
      else if f = 1 then bindV (foldV (v_unknown_add m) (citems t) (99, 0)) (\<lambda>(c, n). Inr (c + n * 3))
      else if f = 2 then bindV (foldV (v_unknown_mul m) (citems t) (92, True, 0)) (\<lambda>(c, _, _). Inr c)
      else if f = 3 then bindV (foldV (v_unknown_concat m) (citems t) (142, 0)) (\<lambda>(c, n). Inr (c + n * 3))
      else Inr 1)"

definition v_unknown :: "bytes \<Rightarrow> clvm \<Rightarrow> Cost \<Rightarrow> (Cost \<times> clvm) vres" where
  "v_unknown op t m =
     (if op = [] \<or> (length op \<ge> 2 \<and> op ! 0 = 0xff \<and> op ! 1 = 0xff) then Inl (CAtom op, ''reserved operator'')
      else if length op > 5 then Inl (CAtom op, ''invalid operator'')
      else
        bindV (v_unknown_cost (drop_bit 6 (last op AND 0xc0)) t m) (\<lambda>c.
        bindV (v_cost c m) (\<lambda>_.
        let cost = c * (of_nat (be_nat (butlast op)) + 1) in
        if cost > 4294967295 then Inl (CAtom op, ''invalid operator'') else Inr (cost, CAtom []))))"

lemma reads_len: "rep a n t \<Longrightarrow> reads a (=) (v_len name t) (util_atom_len a n name)"
  unfolding v_len_def by (rule reads_atom_len)

lemma reads_unknown_add: "rep a n t \<Longrightarrow> reads a (=) (v_unknown_add m t s) (unknown_cost_add a m n s)"
  unfolding unknown_cost_add_def v_unknown_add_def more_costs
  by (auto simp: Let_def intro!: reads_bind [OF reads_len] reads_bind [OF reads_check_cost] split: prod.splits)

lemma reads_unknown_concat: "rep a n t \<Longrightarrow> reads a (=) (v_unknown_concat m t s) (unknown_cost_concat a m n s)"
  unfolding unknown_cost_concat_def v_unknown_concat_def more_costs
  by (auto simp: Let_def intro!: reads_bind [OF reads_len] reads_bind [OF reads_check_cost] split: prod.splits)

lemma reads_unknown_mul: "rep a n t \<Longrightarrow> reads a (=) (v_unknown_mul m t s) (unknown_cost_mul a m n s)"
  unfolding unknown_cost_mul_def v_unknown_mul_def more_costs
  by (auto simp: Let_def intro!: reads_bind [OF reads_len] reads_bind [OF reads_check_cost] split: prod.splits)

lemma reads_loop:
  assumes "alloc_ok a" "rep a n t" "\<And>n t s. rep a n t \<Longrightarrow> reads a (=) (g t s) (f n s)"
  shows "reads a (=) (foldV g (citems t) s) (while_next a n s f)"
  using assms by (intro reads_while) auto

lemma reads_unknown_cost:
  "alloc_ok a \<Longrightarrow> rep a n t \<Longrightarrow> reads a (=) (v_unknown_cost f t m) (unknown_cost a f n m)"
  unfolding unknown_cost_def v_unknown_cost_def more_costs
  by (auto intro!: reads_bind [OF reads_loop [OF _ _ reads_unknown_add]] reads_bind [OF reads_loop [OF _ _ reads_unknown_mul]]
      reads_bind [OF reads_loop [OF _ _ reads_unknown_concat]])


text \<open>
  The code asserts that this cost is not zero. Sums of \<open>u64\<close> costs could wrap to zero, but
  not below a limit of \<open>2 ^ 62\<close>, because every argument's cost is checked as it is added.
\<close>

lemma unat_add64: "unat x + unat y < 2 ^ 64 \<Longrightarrow> unat (x + y :: u64) = unat x + unat y"
  by (simp add: unat_word_ariths)

lemma unat_mul64: "unat x * unat y < 2 ^ 64 \<Longrightarrow> unat (x * y :: u64) = unat x * unat y"
  by (simp add: unat_word_ariths)

lemma foldV_inv:
  assumes step: "\<And>x s s'. x \<in> set xs \<Longrightarrow> P s \<Longrightarrow> f x s = Inr s' \<Longrightarrow> P s'"
  shows "P s \<Longrightarrow> foldV f xs s = Inr s' \<Longrightarrow> P s'"
  using step
proof (induction xs arbitrary: s)
  case (Cons x xs)
  from Cons.prems(2) obtain s1 where "f x s = Inr s1" "foldV f xs s1 = Inr s'" by (cases "f x s") auto
  with Cons show ?case by (metis list.set_intros)
qed simp

lemma bindV_Inr: "bindV m f = Inr y \<longleftrightarrow> (\<exists>x. m = Inr x \<and> f x = Inr y)"
  by (cases m) auto

lemma v_cost_Inr: "v_cost c m = Inr x \<longleftrightarrow> c \<le> m"
  by (auto simp: v_cost.simps)

lemma v_len_Inr: "v_len name t = Inr l \<longleftrightarrow> (\<exists>bs. t = CAtom bs \<and> l = length bs)"
  by (cases t) (auto simp: v_len_def)

definition atoms_fit :: "clvm list \<Rightarrow> bool" where
  "atoms_fit ts \<longleftrightarrow> (\<forall>bs. CAtom bs \<in> set ts \<longrightarrow> length bs < 2 ^ 32)"

lemma unat_of_nat64: "n < 2 ^ 64 \<Longrightarrow> unat (of_nat n :: u64) = n"
  by (simp add: unat_of_nat)

lemma arith_step_bound:
  assumes "unat c + 3 * unat n \<le> 2 ^ 62" "l < 2 ^ 32" "unat (p :: u64) \<le> 1000"
  shows "unat (c + p + (n + of_nat l) * 3 :: u64) = unat c + unat p + 3 * (unat n + l)"
    and "unat (c + p) = unat c + unat p" "unat (n + of_nat l) = unat n + l"
proof -
  have l: "unat (of_nat l :: u64) = l" using assms(2) by (intro unat_of_nat64) simp
  show nl: "unat (n + of_nat l) = unat n + l" using assms l by (subst unat_add64) auto
  show cp: "unat (c + p) = unat c + unat p" using assms by (subst unat_add64) auto
  have m3: "unat ((n + of_nat l) * 3) = 3 * (unat n + l)" using nl assms by (subst unat_mul64) auto
  show "unat (c + p + (n + of_nat l) * 3) = unat c + unat p + 3 * (unat n + l)"
    using cp m3 assms by (subst unat_add64) auto
qed

lemma v_arith_pos:
  assumes fit: "atoms_fit ts" and m: "unat m \<le> 2 ^ 62" and p: "unat (p :: u64) \<le> 1000" and c0: "0 < unat c0" "unat c0 \<le> 1000"
    and step: "\<And>t s. f t s = bindV (v_len ''unknown op'' t) (\<lambda>l.
      bindV (v_cost (fst s + p + (snd s + of_nat l) * 3) m) (\<lambda>_. Inr (fst s + p, snd s + of_nat l)))"
    and run: "foldV f ts (c0, 0) = Inr (c, n)"
  shows "0 < c + n * 3"
proof -
  let ?P = "\<lambda>(c :: u64, n :: u64). unat c + 3 * unat n \<le> 2 ^ 62 \<and> 0 < unat c"
  have "?P (c, n)"
  proof (rule foldV_inv [of ts ?P f "(c0, 0)" "(c, n)"])
    fix t s s' assume t: "t \<in> set ts" and P: "?P s" and s': "f t s = Inr s'"
    obtain c n where s: "s = (c, n)" by (cases s)
    obtain bs where bs: "t = CAtom bs" "c + p + (n + of_nat (length bs)) * 3 \<le> m" "s' = (c + p, n + of_nat (length bs))"
      using s' unfolding step s by (auto simp: bindV_Inr v_cost_Inr v_len_Inr)
    have l: "length bs < 2 ^ 32" using fit t bs(1) by (auto simp: atoms_fit_def)
    have b: "unat c + 3 * unat n \<le> 2 ^ 62" using P s by simp
    note e = arith_step_bound [OF b l p]
    have "unat c + unat p + 3 * (unat n + length bs) \<le> 2 ^ 62"
      using bs(2) m unfolding word_le_nat_alt e(1) by linarith
    then show "?P s'" using bs(3) e P s by simp
  qed (use run c0 in auto)
  then have P: "unat c + 3 * unat n \<le> 2 ^ 62" "0 < unat c" by auto
  have "unat (n * 3) = 3 * unat n" using P by (subst unat_mul64) auto
  then have "unat (c + n * 3) = unat c + 3 * unat n" using P by (subst unat_add64) auto
  then have "0 < unat (c + n * 3)" using P by simp
  then show ?thesis by (simp add: word_less_nat_alt)
qed

lemma v_mul_pos:
  assumes fit: "atoms_fit ts" and m: "unat m \<le> 2 ^ 62"
    and run: "foldV (v_unknown_mul m) ts (92, True, 0) = Inr (c, b, l)"
  shows "0 < c"
proof -
  let ?P = "\<lambda>(c :: u64, b :: bool, l :: u64). 0 < unat c \<and> unat c \<le> 2 ^ 62 \<and> 6 * unat l \<le> 2 ^ 62"
  have "?P (c, b, l)"
  proof (rule foldV_inv [of ts ?P "v_unknown_mul m" "(92, True, 0)" "(c, b, l)"])
    fix t s s' assume t: "t \<in> set ts" and P: "?P s" and s': "v_unknown_mul m t s = Inr s'"
    obtain c b l where s: "s = (c, b, l)" by (cases s)
    obtain bs where bs: "t = CAtom bs" using s' s by (auto simp: v_unknown_mul_def bindV_Inr v_len_Inr)
    define k where "k = (of_nat (length bs) :: u64)"
    have "length bs < 2 ^ 32" using fit t bs(1) by (auto simp: atoms_fit_def)
    then have k: "unat k < 2 ^ 32" unfolding k_def by (simp add: unat_of_nat64)
    have Pu: "0 < unat c" "unat c \<le> 2 ^ 62" "6 * unat l \<le> 2 ^ 62" using P s by auto
    show "?P s'"
    proof (cases b)
      case True
      then show ?thesis using s' s bs Pu k by (auto simp: v_unknown_mul_def v_len_def k_def [symmetric])
    next
      case False
      define d where "d = c + 885 + (l + k) * 6 + l * k div 128"
      have s': "s' = (d, b, l + k)" "d \<le> m"
        using s' s bs False by (auto simp: v_unknown_mul_def v_len_def k_def d_def Let_def bindV_Inr v_cost_Inr)
      have lk: "unat (l + k) = unat l + unat k" using Pu k by (subst unat_add64) auto
      have m6: "unat ((l + k) * 6) = 6 * (unat l + unat k)" using lk Pu k by (subst unat_mul64) auto
      have c8: "unat (c + 885) = unat c + 885" using Pu by (subst unat_add64) auto
      have c9: "unat (c + 885 + (l + k) * 6) = unat c + 885 + 6 * (unat l + unat k)"
        using c8 m6 Pu k by (subst unat_add64) auto
      have "unat (l * k div 128) = unat (l * k) div 128" by (simp add: unat_div)
      moreover have "unat (l * k) < 2 ^ 64" using unsigned_less [of "l * k"] by simp
      then have "unat (l * k) div 128 < 2 ^ 57" by (intro less_mult_imp_div_less) simp
      ultimately have dv: "unat (l * k div 128) < 2 ^ 57" by simp
      then have d: "unat d = unat c + 885 + 6 * (unat l + unat k) + unat (l * k div 128)"
        unfolding d_def using c9 Pu k by (subst unat_add64) auto
      have "unat d \<le> 2 ^ 62" using s'(2) m by (simp add: word_le_nat_alt)
      then show ?thesis using s' d lk Pu by simp
    qed
  qed (use run in auto)
  then show ?thesis by (simp add: word_less_nat_alt)
qed

lemma v_unknown_cost_pos:
  assumes "atoms_fit (citems t)" "unat m \<le> 2 ^ 62" "v_unknown_cost f t m = Inr c"
  shows "0 < c"
  using assms(3) v_arith_pos [OF assms(1,2), of 320 99 "v_unknown_add m"]
    v_arith_pos [OF assms(1,2), of 135 142 "v_unknown_concat m"] v_mul_pos [OF assms(1,2)]
  by (auto simp: v_unknown_cost_def bindV_Inr v_unknown_add_def v_unknown_concat_def split: if_splits)

lemma rep_atom_fits:
  assumes a: "alloc_ok a" and r: "rep a q (CAtom bs)"
  shows "length bs < 2 ^ 32"
  using r
proof (cases rule: rep_atom_cases)
  case buf
  then have "length bs \<le> length (u8_vec a)" by (simp add: buf_bytes_def)
  then show ?thesis using a by (simp add: alloc_ok_def heap_ok_def u32_max_def)
next
  case small
  then show ?thesis using small_be_signed(2) [OF r] by simp
qed

lemma rep_atoms_fit: "alloc_ok a \<Longrightarrow> rep a n t \<Longrightarrow> atoms_fit (citems t)"
  using rep_node_items rep_atom_fits unfolding atoms_fit_def
  by (metis in_set_conv_nth list_all2_conv_all_nth)

lemma butlast_take: "butlast xs = take (length xs - 1) xs"
  by (simp add: butlast_conv_take)

lemma refines_op_unknown:
  assumes a: "alloc_ok a" and o: "rep a o' (CAtom op)" and n: "rep a n t" and m: "unat m \<le> 2 ^ 62"
  shows "refines (v_unknown op t m) (op_unknown a o' n m)"
proof -
  have l4: "length (take (length op - 1) op) \<le> 4 \<longleftrightarrow> \<not> length op > 5" by auto
  show ?thesis
  proof (cases "op = [] \<or> (length op \<ge> 2 \<and> op ! 0 = 0xff \<and> op ! 1 = 0xff) \<or> length op > 5")
    case True
    then show ?thesis using a o l4
      by (auto simp: op_unknown_def v_unknown_def rep_atom_bytes Let_def u32_from_u8_eq intro!: refines_err)
  next
    case False
    then have op: "op \<noteq> []" "length op \<le> 5" by auto
    have lt: "be_nat (butlast op) < 2 ^ 32"
    proof -
      have "(256 :: nat) ^ length (butlast op) \<le> 256 ^ 4" using op by (intro power_increasing) auto
      then show ?thesis using be_nat_less [of "butlast op"] by simp
    qed
    have mult: "(ucast (of_nat (be_nat (butlast op)) :: u32) :: u64) = of_nat (be_nat (butlast op))"
      using lt by (simp add: word_unat_eq_iff unat_of_nat unsigned_ucast_eq take_bit_nat_eq_self_iff)
    have u: "u32_from_u8 (take (length op - Suc 0) op) = Some (of_nat (be_nat (butlast op)))"
      using op by (simp add: u32_from_u8_eq butlast_take)
    have last: "op ! (length op - Suc 0) = last op" using op by (simp add: last_conv_nth)
    have pos: "0 < c" if "v_unknown_cost f t m = Inr c" for f c
      using v_unknown_cost_pos [OF rep_atoms_fit [OF a n] m that] .
    show ?thesis using False a o
      by (auto simp: op_unknown_def v_unknown_def rep_atom_bytes Let_def u last mult u32_max_def dest: pos
          intro!: refines_tryR [OF a reads_unknown_cost [OF a n]] refines_tryR [OF a reads_check_cost] refines_err refines_Ok)
  qed
qed

lemma extends_op_unknown [ext_intros]: "extends a (snd (op_unknown a op n m))"
  by (auto simp: op_unknown_def Let_def intro!: ext_intros split: option.splits)


section \<open>Arithmetic\<close>

definition v_add_step :: "Cost \<Rightarrow> clvm \<Rightarrow> Cost \<times> nat \<times> int \<Rightarrow> (Cost \<times> nat \<times> int) vres" where
  "v_add_step m t s = (case s of (c, n, tot) \<Rightarrow>
     bindV (v_cost (c + 320 + of_nat n * 3) m) (\<lambda>_.
     bindV (v_intarg ''+ requires int args'' t) (\<lambda>(v, l). Inr (c + 320, n + l, tot + v))))"

definition v_add :: "clvm \<Rightarrow> Cost \<Rightarrow> (Cost \<times> clvm) vres" where
  "v_add t m = bindV (foldV (v_add_step m) (citems t) (99, 0, 0)) (\<lambda>(c, n, tot). v_num (c + of_nat n * 3) tot)"

definition v_subtract_step :: "Cost \<Rightarrow> clvm \<Rightarrow> Cost \<times> nat \<times> int \<times> bool \<Rightarrow> (Cost \<times> nat \<times> int \<times> bool) vres" where
  "v_subtract_step m t s = (case s of (c, n, tot, first) \<Rightarrow>
     bindV (v_cost (c + 320 + of_nat n * 3) m) (\<lambda>_.
     if first then bindV (v_int ''-'' t) (\<lambda>(v, l). Inr (c + 320, l, v, False))
     else bindV (v_intarg ''- requires int args'' t) (\<lambda>(v, l). Inr (c + 320, n + l, tot - v, False))))"

definition v_subtract :: "clvm \<Rightarrow> Cost \<Rightarrow> (Cost \<times> clvm) vres" where
  "v_subtract t m = bindV (foldV (v_subtract_step m) (citems t) (99, 0, 0, True))
     (\<lambda>(c, n, tot, _). v_num (c + of_nat n * 3) tot)"

definition v_limbs :: "int \<Rightarrow> nat" where
  "v_limbs n = (ubits (nat \<bar>n\<bar>) + 7) div 8"

definition v_multiply_step :: "Cost \<Rightarrow> clvm \<Rightarrow> Cost \<times> bool \<times> int \<times> nat \<Rightarrow> (Cost \<times> bool \<times> int \<times> nat) vres" where
  "v_multiply_step m t s = (case s of (c, first, tot, l0) \<Rightarrow>
     bindV (v_cost c m) (\<lambda>_.
     if first then bindV (v_int ''*'' t) (\<lambda>(v, l). Inr (c, False, v, l))
     else bindV (v_intarg ''* requires int args'' t) (\<lambda>(v, l1).
       Inr (c + 885 + of_nat (l0 + l1) * 6 + of_nat (l0 * l1) div 128, first, tot * v, v_limbs (tot * v)))))"

definition v_multiply :: "clvm \<Rightarrow> Cost \<Rightarrow> (Cost \<times> clvm) vres" where
  "v_multiply t m = bindV (foldV (v_multiply_step m) (citems t) (92, True, 1, 0)) (\<lambda>(c, _, tot, _). v_num c tot)"

definition v_div :: "clvm \<Rightarrow> (Cost \<times> clvm) vres" where
  "v_div t = bindV (v_args 2 t ''/'') (\<lambda>ts. bindV (v_int ''/'' (ts ! 0)) (\<lambda>(x, xl). bindV (v_int ''/'' (ts ! 1)) (\<lambda>(y, yl).
     if y = 0 then Inl (t, ''div with 0'') else v_num (988 + of_nat (xl + yl) * 4) (x div y))))"

definition v_divmod :: "clvm \<Rightarrow> (Cost \<times> clvm) vres" where
  "v_divmod t = bindV (v_args 2 t ''divmod'') (\<lambda>ts.
     bindV (v_int ''divmod'' (ts ! 0)) (\<lambda>(x, xl). bindV (v_int ''divmod'' (ts ! 1)) (\<lambda>(y, yl).
     if y = 0 then Inl (t, ''divmod with 0'')
     else
       let q = int_bytes (x div y); r = int_bytes (x mod y) in
       Inr (1116 + of_nat (xl + yl) * 6 + of_nat (length q + length r) * 10, CPair (CAtom q) (CAtom r)))))"

definition v_mod :: "clvm \<Rightarrow> (Cost \<times> clvm) vres" where
  "v_mod t = bindV (v_args 2 t ''mod'') (\<lambda>ts. bindV (v_int ''mod'' (ts ! 0)) (\<lambda>(x, xl). bindV (v_int ''mod'' (ts ! 1)) (\<lambda>(y, yl).
     if y = 0 then Inl (t, ''mod with 0'') else v_num (988 + of_nat (xl + yl) * 4) (x mod y))))"

definition v_modpow :: "clvm \<Rightarrow> Cost \<Rightarrow> (Cost \<times> clvm) vres" where
  "v_modpow t m = bindV (v_args 3 t ''modpow'') (\<lambda>ts.
     bindV (v_int ''modpow'' (ts ! 0)) (\<lambda>(b, bl). bindV (v_int ''modpow'' (ts ! 1)) (\<lambda>(e, el).
     bindV (v_cost (17000 + of_nat bl * 38 + of_nat (el * el) * 3) m) (\<lambda>_.
     bindV (v_int ''modpow'' (ts ! 2)) (\<lambda>(n, nl).
     let cost = 17000 + of_nat bl * 38 + of_nat (el * el) * 3 + of_nat (nl * nl) * 21 in
     bindV (v_cost cost m) (\<lambda>_.
     if e < 0 then Inl (t, ''modpow with negative exponent'')
     else if n = 0 then Inl (t, ''modpow with 0 modulus'')
     else v_num cost (b ^ nat e mod n)))))))"

lemma reads_add_step: "bigint_laws B \<Longrightarrow> rep a n t \<Longrightarrow> reads a (=) (v_add_step m t s) (add_step B a m n s)"
  unfolding add_step_def v_add_step_def more_costs
  by (auto simp: Let_def intro!: reads_bind [OF reads_int_arg] reads_bind [OF reads_check_cost] split: prod.splits)

lemma reads_subtract_step: "bigint_laws B \<Longrightarrow> rep a n t \<Longrightarrow> reads a (=) (v_subtract_step m t s) (subtract_step B a m n s)"
  unfolding subtract_step_def v_subtract_step_def more_costs
  by (auto simp: Let_def intro!: reads_bind [OF reads_int_arg] reads_bind [OF reads_int_atom]
      reads_bind [OF reads_check_cost] split: prod.splits)

lemma ubits_unique:
  assumes "n < 2 ^ k" "n \<noteq> 0" "2 ^ k \<le> 2 * n"
  shows "k = ubits n"
proof (rule antisym)
  show "ubits n \<le> k" using assms(1) by (rule ubits_le)
  show "k \<le> ubits n"
  proof (rule ccontr)
    assume "\<not> k \<le> ubits n"
    then have "(2 :: nat) ^ Suc (ubits n) \<le> 2 ^ k" by (intro power_increasing) auto
    then show False using assms(3) ubits_upper [of n] by simp
  qed
qed

context bigint_laws
begin

lemma bits_eq: "bi_bits B n = ubits (nat \<bar>n\<bar>)"
proof (cases "n = 0")
  case False
  have "int (nat \<bar>n\<bar>) < int (2 ^ bi_bits B n)" using bits_upper [of n] by simp
  moreover have "int (2 ^ bi_bits B n) \<le> int (2 * nat \<bar>n\<bar>)" using bits_lower [OF False] by simp
  ultimately have "nat \<bar>n\<bar> < 2 ^ bi_bits B n" "2 ^ bi_bits B n \<le> 2 * nat \<bar>n\<bar>"
    by (simp_all only: of_nat_less_iff of_nat_le_iff)
  then show ?thesis using False by (intro ubits_unique) auto
qed (simp add: bits_zero)

lemma limbs_for_int_eq: "limbs_for_int B n = v_limbs n"
  by (simp add: limbs_for_int_def v_limbs_def bits_eq)

end

lemma reads_multiply_step: "bigint_laws B \<Longrightarrow> rep a n t \<Longrightarrow> reads a (=) (v_multiply_step m t s) (multiply_step B a m n s)"
  unfolding multiply_step_def v_multiply_step_def more_costs
  by (auto simp: Let_def bigint_laws.limbs_for_int_eq intro!: reads_bind [OF reads_int_arg] reads_bind [OF reads_int_atom]
      reads_bind [OF reads_check_cost] split: prod.splits)

lemma refines_op_add [op_refines]: "bigint_laws B \<Longrightarrow> alloc_ok a \<Longrightarrow> rep a n t \<Longrightarrow> refines (v_add t m) (op_add B a n m)"
  unfolding op_add_def v_add_def more_costs
  by (auto simp: Let_def intro!: refines_tryR [OF _ reads_loop [OF _ _ reads_add_step]] refines_number)

lemma refines_op_subtract [op_refines]:
  "bigint_laws B \<Longrightarrow> alloc_ok a \<Longrightarrow> rep a n t \<Longrightarrow> refines (v_subtract t m) (op_subtract B a n m)"
  unfolding op_subtract_def v_subtract_def more_costs
  by (auto simp: Let_def intro!: refines_tryR [OF _ reads_loop [OF _ _ reads_subtract_step]] refines_number)

lemma refines_op_multiply [op_refines]:
  "bigint_laws B \<Longrightarrow> alloc_ok a \<Longrightarrow> rep a n t \<Longrightarrow> refines (v_multiply t m) (op_multiply B a n m)"
  unfolding op_multiply_def v_multiply_def more_costs
  by (auto simp: Let_def intro!: refines_tryR [OF _ reads_loop [OF _ _ reads_multiply_step]] refines_number)

text \<open>Reading two or three integer arguments.\<close>

lemma refines_int:
  "bigint_laws B \<Longrightarrow> alloc_ok a \<Longrightarrow> rep a n t \<Longrightarrow> (\<And>v l. v_int name t = Inr (v, l) \<Longrightarrow> refines (g v l) (f v l)) \<Longrightarrow>
   refines (bindV (v_int name t) (\<lambda>(v, l). g v l)) (tryR (int_atom B a n name) a (\<lambda>(v, l). f v l))"
  by (rule refines_tryR [OF _ reads_int_atom]) auto

lemma refines_op_div [op_refines]: "bigint_laws B \<Longrightarrow> alloc_ok a \<Longrightarrow> rep a n t \<Longrightarrow> refines (v_div t) (op_div B a n m)"
  unfolding op_div_def v_div_def more_costs
  by (rule refines_args, assumption+)
     (auto simp: Let_def intro!: refines_int refines_err refines_number args_nth)

lemma refines_op_mod [op_refines]: "bigint_laws B \<Longrightarrow> alloc_ok a \<Longrightarrow> rep a n t \<Longrightarrow> refines (v_mod t) (op_mod B a n m)"
  unfolding op_mod_def v_mod_def more_costs
  by (rule refines_args, assumption+)
     (auto simp: Let_def intro!: refines_int refines_err refines_number args_nth)

lemma refines_op_modpow [op_refines]:
  "bigint_laws B \<Longrightarrow> alloc_ok a \<Longrightarrow> rep a n t \<Longrightarrow> refines (v_modpow t m) (op_modpow B a n m)"
  unfolding op_modpow_def v_modpow_def more_costs
  by (rule refines_args, assumption+)
     (auto simp: Let_def bigint_laws.modpow intro!: refines_int refines_tryR [OF _ reads_check_cost] refines_err refines_number args_nth)

lemma refines_divmod_tail:
  assumes B: "bigint_laws B" and a: "alloc_ok a"
  shows "refines (Inr (c + of_nat (length (int_bytes x) + length (int_bytes y)) * 10, CPair (CAtom (int_bytes x)) (CAtom (int_bytes y))))
    (tryS (new_number B a x) (\<lambda>q1 a. tryS (new_number B a y) (\<lambda>r1 a.
       tryR (atom_len a q1) a (\<lambda>ql. tryR (atom_len a r1) a (\<lambda>rl.
       tryS (new_pair a q1 r1) (\<lambda>r a. (Ok (Reduction (c + of_nat (ql + rl) * 10) r), a)))))))"
proof -
  have safe: "safe (\<lambda>a' p. extends a a' \<and> rep a' p (CAtom (int_bytes k))) alloc_msgs (new_number B a k)" if "alloc_ok a" for a k
    using safe_new_number [OF B that order_refl] .
  show ?thesis using a
    by (auto intro!: refines_tryS [OF safe] refines_tryS [OF safe_new_pair] refines_Ok ext_intros
        simp: alloc_msgs_def rep_atom_len rep_atom_len [OF rep_extends] intro: rep_extends simp del: of_nat_add)
qed

lemma refines_op_divmod [op_refines]:
  "bigint_laws B \<Longrightarrow> alloc_ok a \<Longrightarrow> rep a n t \<Longrightarrow> refines (v_divmod t) (op_divmod B a n m)"
  unfolding op_divmod_def v_divmod_def more_costs
  by (rule refines_args, assumption+)
     (auto simp: Let_def intro!: refines_int refines_err refines_divmod_tail args_nth simp del: of_nat_add)

lemma extends_arith [ext_intros]:
  "extends a (snd (op_add B a n m))" "extends a (snd (op_subtract B a n m))" "extends a (snd (op_multiply B a n m))"
  "extends a (snd (op_div B a n m))" "extends a (snd (op_mod B a n m))" "extends a (snd (op_divmod B a n m))"
  "extends a (snd (op_modpow B a n m))"
  by (auto simp: op_add_def op_subtract_def op_multiply_def op_div_def op_mod_def op_divmod_def op_modpow_def Let_def
      intro!: ext_intros split: prod.splits)


section \<open>Comparison\<close>

definition v_gr :: "clvm \<Rightarrow> (Cost \<times> clvm) vres" where
  "v_gr t = bindV (v_args 2 t ''>'') (\<lambda>ts. bindV (v_int ''>'' (ts ! 0)) (\<lambda>(x, xl). bindV (v_int ''>'' (ts ! 1)) (\<lambda>(y, yl).
     Inr (498 + of_nat (xl + yl) * 2, v_bool (x > y)))))"

definition v_gr_bytes :: "clvm \<Rightarrow> (Cost \<times> clvm) vres" where
  "v_gr_bytes t = bindV (v_args 2 t ''>s'') (\<lambda>ts.
     bindV (v_atom ''>s on list'' (ts ! 0)) (\<lambda>x. bindV (v_atom ''>s on list'' (ts ! 1)) (\<lambda>y.
     Inr (117 + of_nat (length x + length y), v_bool (slice_gt x y)))))"

lemma small_number_rep:
  "rep a n t \<Longrightarrow> small_number a n = Ok (case t of CAtom bs \<Rightarrow> fits_in_small_atom bs | CPair _ _ \<Rightarrow> None)"
proof (cases t)
  case (CPair l r)
  assume "rep a n t"
  with CPair have "node_kind n = Some OPair" by (simp add: rep_pair_kind)
  with CPair show ?thesis by (simp add: small_number_def object_type_kind)
qed (simp add: rep_small_number)

lemma refines_op_gr [op_refines]: "bigint_laws B \<Longrightarrow> alloc_ok a \<Longrightarrow> rep a n t \<Longrightarrow> refines (v_gr t) (op_gr B a n m)"
  unfolding op_gr_def v_gr_def more_costs
proof (rule refines_args, assumption+, unfold Let_def)
  fix ns ts
  assume B: "bigint_laws B" and a: "alloc_ok a" and r: "list_all2 (rep a) ns ts" "length ts = 2"
  have r0: "rep a (ns ! 0) (ts ! 0)" and r1: "rep a (ns ! 1) (ts ! 1)" using r by (auto intro: args_nth)
  show "refines (bindV (v_int ''>'' (ts ! 0)) (\<lambda>(x, xl). bindV (v_int ''>'' (ts ! 1)) (\<lambda>(y, yl).
       Inr (498 + of_nat (xl + yl) * 2, v_bool (x > y)))))
    (tryR (small_number a (ns ! 0)) a (\<lambda>s0. tryR (small_number a (ns ! 1)) a (\<lambda>s1.
     case (s0, s1) of
       (Some lhs, Some rhs) \<Rightarrow>
         (Ok (Reduction (498 + of_nat (len_for_value lhs + len_for_value rhs) * 2) (if lhs > rhs then one a else nil a)), a)
     | _ \<Rightarrow>
         tryR (int_atom B a (ns ! 0) ''>'') a (\<lambda>(v0, v0_len). tryR (int_atom B a (ns ! 1) ''>'') a (\<lambda>(v1, v1_len).
         (Ok (Reduction (498 + of_nat (v0_len + v1_len) * 2) (if v0 > v1 then one a else nil a)), a))))))" (is "refines ?sp ?m")
  proof (cases "\<exists>x y lhs rhs. ts ! 0 = CAtom x \<and> ts ! 1 = CAtom y \<and> fits_in_small_atom x = Some lhs \<and> fits_in_small_atom y = Some rhs")
    case True
    then obtain x y lhs rhs where xy: "ts ! 0 = CAtom x" "ts ! 1 = CAtom y"
      "fits_in_small_atom x = Some lhs" "fits_in_small_atom y = Some rhs" by blast
    have "x = int_bytes (uint lhs)" "y = int_bytes (uint rhs)" using xy fits_in_small_atom_Some(1) by auto
    then have "?sp = Inr (498 + of_nat (len_for_value lhs + len_for_value rhs) * 2, v_bool (lhs > rhs))"
      using xy by (simp add: v_int_def len_for_value_eq word_less_def)
    then show ?thesis using xy a by (auto simp: small_number_rep [OF r0] small_number_rep [OF r1, unfolded One_nat_def] v_bool_def rep_one intro!: refines_Ok)
  next
    case False
    define s0 where "s0 = (case ts ! 0 of CAtom bs \<Rightarrow> fits_in_small_atom bs | CPair _ _ \<Rightarrow> None)"
    define s1 where "s1 = (case ts ! 1 of CAtom bs \<Rightarrow> fits_in_small_atom bs | CPair _ _ \<Rightarrow> None)"
    have "s0 = None \<or> s1 = None" using False by (auto simp: s0_def s1_def split: clvm.splits)
    moreover have "?m = (case (s0, s1) of
       (Some lhs, Some rhs) \<Rightarrow>
         (Ok (Reduction (498 + of_nat (len_for_value lhs + len_for_value rhs) * 2) (if lhs > rhs then one a else nil a)), a)
     | _ \<Rightarrow>
         tryR (int_atom B a (ns ! 0) ''>'') a (\<lambda>(v0, v0_len). tryR (int_atom B a (ns ! 1) ''>'') a (\<lambda>(v1, v1_len).
         (Ok (Reduction (498 + of_nat (v0_len + v1_len) * 2) (if v0 > v1 then one a else nil a)), a))))"
      by (simp only: small_number_rep [OF r0] small_number_rep [OF r1] tryR.simps s0_def s1_def)
    ultimately have "?m = tryR (int_atom B a (ns ! 0) ''>'') a (\<lambda>(v0, v0_len). tryR (int_atom B a (ns ! 1) ''>'') a (\<lambda>(v1, v1_len).
         (Ok (Reduction (498 + of_nat (v0_len + v1_len) * 2) (if v0 > v1 then one a else nil a)), a)))"
      by (cases s0; cases s1) simp_all
    then show ?thesis using a r0 r1 B
      by (auto simp: v_bool_def rep_one intro!: refines_int refines_Ok)
  qed
qed

lemma refines_bytes:
  "alloc_ok a \<Longrightarrow> rep a n t \<Longrightarrow> (\<And>bs. t = CAtom bs \<Longrightarrow> refines (g bs) (f bs)) \<Longrightarrow> msg = name @ '' on list'' \<Longrightarrow>
   refines (bindV (v_atom msg t) g) (tryR (util_atom_bytes a n name) a f)"
  by (simp, rule refines_tryR [OF _ reads_atom_bytes], assumption+) (cases t, auto)

lemma refines_op_gr_bytes [op_refines]: "alloc_ok a \<Longrightarrow> rep a n t \<Longrightarrow> refines (v_gr_bytes t) (op_gr_bytes a n m)"
  unfolding op_gr_bytes_def v_gr_bytes_def more_costs
  by (rule refines_args, assumption+)
     (auto simp: Let_def v_bool_def rep_one intro!: refines_bytes refines_Ok args_nth)

section \<open>Strings\<close>

definition v_strlen :: "clvm \<Rightarrow> (Cost \<times> clvm) vres" where
  "v_strlen t = bindV (v_args 1 t ''strlen'') (\<lambda>ts. bindV (v_len ''strlen'' (ts ! 0)) (\<lambda>l.
     v_num (173 + of_nat l) (int l)))"

definition v_substr :: "clvm \<Rightarrow> (Cost \<times> clvm) vres" where
  "v_substr t = bindV (v_varargs 3 t ''substr'') (\<lambda>(ts, argc).
     if \<not> (2 \<le> argc \<and> argc \<le> 3) then Inl (t, ''substr takes exactly 2 or 3 arguments'')
     else
       bindV (v_atom ''substr requires an atom'' (ts ! 0)) (\<lambda>bs.
       bindV (v_i32 ''substr'' (ts ! 1)) (\<lambda>s.
       bindV (if argc = 3 then v_i32 ''substr'' (ts ! 2) else Inr (sint (of_nat (length bs) :: u32))) (\<lambda>e.
       if e < 0 \<or> s < 0 \<or> nat e > length bs \<or> e < s then Inl (t, ''invalid indices for substr'')
       else Inr (1, CAtom (take (nat e - nat s) (drop (nat s) bs)))))))"

definition v_concat_step :: "Cost \<Rightarrow> clvm \<Rightarrow> Cost \<times> bytes \<Rightarrow> (Cost \<times> bytes) vres" where
  "v_concat_step m t s = (case s of (c, acc) \<Rightarrow>
     bindV (v_cost (c + 135 + of_nat (length acc) * 3) m) (\<lambda>_.
     bindV (v_atom ''concat on list'' t) (\<lambda>bs. Inr (c + 135, acc @ bs))))"

definition v_concat :: "clvm \<Rightarrow> Cost \<Rightarrow> (Cost \<times> clvm) vres" where
  "v_concat t m = bindV (foldV (v_concat_step m) (citems t) (142, [])) (\<lambda>(c, acc).
     let cost = c + of_nat (length acc) * 3 + of_nat (length acc) * 10 in
     bindV (v_cost cost m) (\<lambda>_. Inr (cost, CAtom acc)))"

lemma refines_op_strlen [op_refines]: "bigint_laws B \<Longrightarrow> alloc_ok a \<Longrightarrow> rep a n t \<Longrightarrow> refines (v_strlen t) (op_strlen B a n m)"
  unfolding op_strlen_def v_strlen_def more_costs
  by (rule refines_args, assumption+)
     (auto simp: Let_def intro!: refines_tryR [OF _ reads_len] refines_number args_nth)

lemma refines_op_substr [op_refines]:
  assumes a: "alloc_ok a" and n: "rep a n t"
  shows "refines (v_substr t) (op_substr a n m)"
  unfolding op_substr_def v_substr_def Let_def
proof (rule refines_tryR [OF a reads_get_varargs [OF n]])
  fix x y
  assume sp: "v_varargs 3 t ''substr'' = Inr x" and xy: "rel_prod (list_all2 (rep a)) (=) y x"
  obtain ts argc where x: "x = (ts, argc)" by (cases x)
  obtain ns where y: "y = (ns, argc)" and r: "list_all2 (rep a) ns ts" using xy x by (cases y) auto
  have l: "length ts = 3" using sp x by (auto simp: v_varargs_def split: if_splits)
  have r0: "rep a (ns ! 0) (ts ! 0)" and r1: "rep a (ns ! 1) (ts ! 1)" and r2: "rep a (ns ! 2) (ts ! 2)"
    using r l by (auto intro: args_nth)
  have sub: "refines (Inr (1, CAtom (take (nat e - nat s) (drop (nat s) bs))))
      (tryS (new_substr a (ns ! 0) (of_int s) (of_int e)) (\<lambda>r a. (Ok (Reduction 1 r), a)))"
    if bs: "ts ! 0 = CAtom bs" and b: "0 \<le> s" "s \<le> e" "nat e \<le> length bs" for bs s e
  proof -
    have "length bs < 2 ^ 32" using rep_atom_fits [OF a] r0 bs by simp
    then have "0 \<le> s \<and> s < 4294967296" "0 \<le> e \<and> e < 4294967296" using b by auto
    then have "unat (of_int s :: u32) = nat s" "unat (of_int e :: u32) = nat e"
      by (simp_all add: unat_eq_nat_uint uint_word_of_int_eq take_bit_int_eq_self)
    then have sp: "substr_spec bs (unat (of_int s :: u32)) (unat (of_int e :: u32)) = Inr (take (nat e - nat s) (drop (nat s) bs))"
      using b by (simp add: substr_spec_Inr)
    show ?thesis
    proof (rule refines_tryS [OF safe_new_substr [OF a _ _ sp [symmetric]]])
      show "rep a (ns ! 0) (CAtom bs)" using r0 bs by simp
    qed (auto simp: alloc_msgs_def intro: refines_Ok)
  qed
  show "refines (case x of (ts, argc) \<Rightarrow> if \<not> (2 \<le> argc \<and> argc \<le> 3) then Inl (t, ''substr takes exactly 2 or 3 arguments'')
     else bindV (v_atom ''substr requires an atom'' (ts ! 0)) (\<lambda>bs. bindV (v_i32 ''substr'' (ts ! 1)) (\<lambda>s.
       bindV (if argc = 3 then v_i32 ''substr'' (ts ! 2) else Inr (sint (of_nat (length bs) :: u32))) (\<lambda>e.
       if e < 0 \<or> s < 0 \<or> nat e > length bs \<or> e < s then Inl (t, ''invalid indices for substr'')
       else Inr (1, CAtom (take (nat e - nat s) (drop (nat s) bs)))))))
    (case y of (args, argc) \<Rightarrow> if \<not> (2 \<le> argc \<and> argc \<le> 3) then (err n ''substr takes exactly 2 or 3 arguments'', a)
     else tryR (util_atom_len a (args ! 0) ''substr'') a (\<lambda>len. tryR (i32_atom a (args ! 1) ''substr'') a (\<lambda>start.
       tryR (if argc = 3 then i32_atom a (args ! 2) ''substr'' else Ok (sint (of_nat len :: u32))) a (\<lambda>end'.
       if end' < 0 \<or> start < 0 \<or> nat end' > len \<or> end' < start then (err n ''invalid indices for substr'', a)
       else tryS (new_substr a (args ! 0) (of_int start) (of_int end')) (\<lambda>r a. (Ok (Reduction 1 r), a))))))"
  proof (cases "ts ! 0")
    case (CAtom bs)
    have len: "util_atom_len a (ns ! 0) ''substr'' = Ok (length bs)"
      using reads_atom_len [OF r0] CAtom by (simp add: reads_Inr)
    have whole: "refines (Inr (1, CAtom (take (nat (sint (of_nat (length bs) :: u32)) - nat s) (drop (nat s) bs))))
        (tryS (new_substr a (ns ! 0) (of_int s) (of_nat (length bs))) (\<lambda>r a. (Ok (Reduction 1 r), a)))"
      if "0 \<le> s" "s \<le> sint (of_nat (length bs) :: u32)" "nat (sint (of_nat (length bs) :: u32)) \<le> length bs" for s
      using sub [OF CAtom that] by simp
    show ?thesis using a n CAtom sub [OF CAtom] whole
      by (auto simp: x y len intro!: refines_err refines_tryR [OF a reads_i32_atom [OF r1, unfolded One_nat_def]]
          refines_tryR [OF a reads_i32_atom [OF r2]])
  next
    case (CPair l r)
    then show ?thesis using a n reads_atom_len [OF r0, of "''substr''"]
      by (auto simp: x y reads_def intro!: refines_err refines_Err)
  qed
qed


definition concat_rel :: "Allocator \<Rightarrow> Cost \<times> nat \<times> NodePtr list \<Rightarrow> Cost \<times> bytes \<Rightarrow> bool" where
  "concat_rel a s v = (case (s, v) of ((c, n, ns), (c', acc)) \<Rightarrow>
     c = c' \<and> n = length acc \<and> (\<exists>bss. list_all2 (\<lambda>n bs. rep a n (CAtom bs)) ns bss \<and> acc = concat bss))"

lemma reads_concat_step:
  assumes "rep a n t" "concat_rel a s v"
  shows "reads a (concat_rel a) (v_concat_step m t v) (concat_step a m n s)"
proof -
  obtain c ns acc bss where s: "s = (c, length acc, ns)" "v = (c, acc)"
    "list_all2 (\<lambda>n bs. rep a n (CAtom bs)) ns bss" "acc = concat bss"
    using assms(2) by (cases s; cases v) (auto simp: concat_rel_def)
  have ext: "list_all2 (\<lambda>n bs. rep a n (CAtom bs)) (ns @ [n]) (bss @ [bs])" if "t = CAtom bs" for bs
    using s(3) assms(1) that by (simp add: list_all2_appendI)
  show ?thesis unfolding concat_step_def v_concat_step_def s(1,2) Let_def more_costs
    using assms(1) ext s(4)
    by (cases t) (auto simp: rep_sexp_atom rep_sexp_pair rep_atom_len concat_rel_def
        intro!: reads_bind [OF reads_check_cost] reads_Ok exI [of _ "bss @ [bs]" for bs])
qed

lemma refines_op_concat [op_refines]: "alloc_ok a \<Longrightarrow> rep a n t \<Longrightarrow> refines (v_concat t m) (op_concat a n m)"
  unfolding op_concat_def v_concat_def more_costs
  by (rule refines_tryR [OF _ reads_while [OF _ _ reads_concat_step]])
     (auto simp: concat_rel_def Let_def alloc_msgs_def
       intro!: refines_tryR [OF _ reads_check_cost] refines_tryS [OF safe_new_concat] refines_Ok)

lemma extends_string_ops [ext_intros]:
  "extends a (snd (op_gr B a n m))" "extends a (snd (op_gr_bytes a n m))" "extends a (snd (op_strlen B a n m))"
  "extends a (snd (op_substr a n m))" "extends a (snd (op_concat a n m))"
  by (auto simp: op_gr_def op_gr_bytes_def op_strlen_def op_substr_def op_concat_def Let_def
      intro!: ext_intros split: prod.splits option.splits)

section \<open>Shifts, bitwise logic, booleans\<close>

definition v_ash :: "clvm \<Rightarrow> (Cost \<times> clvm) vres" where
  "v_ash t = bindV (v_args 2 t ''ash'') (\<lambda>ts.
     bindV (v_int ''ash'' (ts ! 0)) (\<lambda>(i, l). bindV (v_i32 ''ash'' (ts ! 1)) (\<lambda>k.
     if \<not> (-65535 \<le> k \<and> k \<le> 65535) then Inl (ts ! 1, ''shift too large'')
     else v_num (596 + of_nat (l + v_limbs (shift_int i k)) * 3) (shift_int i k))))"

definition v_lsh :: "clvm \<Rightarrow> (Cost \<times> clvm) vres" where
  "v_lsh t = bindV (v_args 2 t ''lsh'') (\<lambda>ts.
     bindV (v_atom ''lsh on list'' (ts ! 0)) (\<lambda>bs. bindV (v_i32 ''lsh'' (ts ! 1)) (\<lambda>k.
     let v = shift_int (int (be_nat bs)) k in
     if \<not> (-65535 \<le> k \<and> k \<le> 65535) then Inl (ts ! 1, ''shift too large'')
     else v_num (277 + of_nat (length bs + v_limbs v) * 3) v)))"

definition v_binop_step :: "string \<Rightarrow> (int \<Rightarrow> int \<Rightarrow> int) \<Rightarrow> Cost \<Rightarrow> clvm \<Rightarrow> Cost \<times> nat \<times> int \<Rightarrow> (Cost \<times> nat \<times> int) vres" where
  "v_binop_step name f m t s = (case s of (c, n, tot) \<Rightarrow>
     bindV (v_int name t) (\<lambda>(v, l).
     bindV (v_cost (c + 264 + of_nat (n + l) * 3) m) (\<lambda>_. Inr (c + 264, n + l, f tot v))))"

definition v_binop :: "string \<Rightarrow> int \<Rightarrow> (int \<Rightarrow> int \<Rightarrow> int) \<Rightarrow> clvm \<Rightarrow> Cost \<Rightarrow> (Cost \<times> clvm) vres" where
  "v_binop name i f t m = bindV (foldV (v_binop_step name f m) (citems t) (100, 0, i)) (\<lambda>(c, n, tot).
     v_num (c + of_nat n * 3) tot)"

definition v_lognot :: "clvm \<Rightarrow> (Cost \<times> clvm) vres" where
  "v_lognot t = bindV (v_args 1 t ''lognot'') (\<lambda>ts. bindV (v_int ''lognot'' (ts ! 0)) (\<lambda>(v, l).
     v_num (331 + of_nat l * 3) (NOT v)))"

definition v_not :: "clvm \<Rightarrow> (Cost \<times> clvm) vres" where
  "v_not t = bindV (v_args 1 t ''not'') (\<lambda>ts. Inr (200, v_bool (ts ! 0 = CAtom [])))"

definition v_any :: "clvm \<Rightarrow> Cost \<Rightarrow> (Cost \<times> clvm) vres" where
  "v_any t m = bindV (foldV (\<lambda>t (c, b). bindV (v_cost (c + 300) m) (\<lambda>_. Inr (c + 300, b \<or> t \<noteq> CAtom []))) (citems t) (200, False))
     (\<lambda>(c, b). Inr (c, v_bool b))"

definition v_all :: "clvm \<Rightarrow> Cost \<Rightarrow> (Cost \<times> clvm) vres" where
  "v_all t m = bindV (foldV (\<lambda>t (c, b). bindV (v_cost (c + 300) m) (\<lambda>_. Inr (c + 300, b \<and> t \<noteq> CAtom []))) (citems t) (200, True))
     (\<lambda>(c, b). Inr (c, v_bool b))"

lemma refines_i32:
  "alloc_ok a \<Longrightarrow> rep a n t \<Longrightarrow> (\<And>k. v_i32 name t = Inr k \<Longrightarrow> refines (g k) (f k)) \<Longrightarrow>
   refines (bindV (v_i32 name t) g) (tryR (i32_atom a n name) a f)"
  by (rule refines_tryR [OF _ reads_i32_atom]) auto

lemma refines_op_ash [op_refines]: "bigint_laws B \<Longrightarrow> alloc_ok a \<Longrightarrow> rep a n t \<Longrightarrow> refines (v_ash t) (op_ash B a n m)"
  unfolding op_ash_def v_ash_def more_costs
  by (rule refines_args, assumption+)
     (auto simp: Let_def bigint_laws.limbs_for_int_eq intro!: refines_int refines_i32 refines_err refines_number args_nth)

lemma refines_op_lsh [op_refines]: "bigint_laws B \<Longrightarrow> alloc_ok a \<Longrightarrow> rep a n t \<Longrightarrow> refines (v_lsh t) (op_lsh B a n m)"
  unfolding op_lsh_def v_lsh_def more_costs
  by (rule refines_args, assumption+)
     (auto simp: Let_def bigint_laws.limbs_for_int_eq bigint_laws.from_unsigned
       intro!: refines_bytes refines_i32 refines_err refines_number args_nth)

lemma reads_binop_step:
  "bigint_laws B \<Longrightarrow> rep a n t \<Longrightarrow> reads a (=) (v_binop_step name f m t s) (binop_step B name f a m n s)"
  unfolding binop_step_def v_binop_step_def more_costs
  by (auto simp: Let_def intro!: reads_bind [OF reads_int_atom] reads_bind [OF reads_check_cost] split: prod.splits)

lemma refines_binop_reduction:
  "bigint_laws B \<Longrightarrow> alloc_ok a \<Longrightarrow> rep a n t \<Longrightarrow> refines (v_binop name i f t m) (binop_reduction B name i f a n m)"
  unfolding binop_reduction_def v_binop_def more_costs
  by (auto simp: Let_def intro!: refines_tryR [OF _ reads_loop [OF _ _ reads_binop_step]] refines_number)

lemma refines_logic [op_refines]:
  assumes "bigint_laws B" "alloc_ok a" "rep a n t"
  shows "refines (v_binop ''logand'' (-1) (\<lambda>x y. x AND y) t m) (op_logand B a n m)"
    and "refines (v_binop ''logior'' 0 (\<lambda>x y. x OR y) t m) (op_logior B a n m)"
    and "refines (v_binop ''logxor'' 0 (\<lambda>x y. x XOR y) t m) (op_logxor B a n m)"
proof -
  have "logand_op = (\<lambda>x y. x AND y)" "logior_op = (\<lambda>x y. x OR y)" "logxor_op = (\<lambda>x y. x XOR y)"
    by (auto simp: logand_op_def logior_op_def logxor_op_def fun_eq_iff)
  with refines_binop_reduction [OF assms] show
    "refines (v_binop ''logand'' (-1) (\<lambda>x y. x AND y) t m) (op_logand B a n m)"
    "refines (v_binop ''logior'' 0 (\<lambda>x y. x OR y) t m) (op_logior B a n m)"
    "refines (v_binop ''logxor'' 0 (\<lambda>x y. x XOR y) t m) (op_logxor B a n m)"
    by (metis op_logand_def, metis op_logior_def, metis op_logxor_def)
qed

lemma refines_op_lognot [op_refines]: "bigint_laws B \<Longrightarrow> alloc_ok a \<Longrightarrow> rep a n t \<Longrightarrow> refines (v_lognot t) (op_lognot B a n m)"
  unfolding op_lognot_def v_lognot_def more_costs
  by (rule refines_args, assumption+) (auto simp: Let_def intro!: refines_int refines_number args_nth)

lemma refines_op_not [op_refines]: "alloc_ok a \<Longrightarrow> rep a n t \<Longrightarrow> refines (v_not t) (op_not a n m)"
  unfolding op_not_def v_not_def more_costs
  by (rule refines_args, assumption+) (auto simp: nilp_rep [OF args_nth] v_bool_def rep_one intro!: refines_Ok)

lemma refines_op_any [op_refines]: "alloc_ok a \<Longrightarrow> rep a n t \<Longrightarrow> refines (v_any t m) (op_any a n m)"
  unfolding op_any_def v_any_def more_costs
  by (rule refines_tryR [OF _ reads_loop])
     (auto simp: any_step_def Let_def nilp_rep more_costs v_bool_def rep_one intro!: refines_Ok reads_bind [OF reads_check_cost] split: prod.splits)

lemma refines_op_all [op_refines]: "alloc_ok a \<Longrightarrow> rep a n t \<Longrightarrow> refines (v_all t m) (op_all a n m)"
  unfolding op_all_def v_all_def more_costs
  by (rule refines_tryR [OF _ reads_loop])
     (auto simp: all_step_def Let_def nilp_rep more_costs v_bool_def rep_one intro!: refines_Ok reads_bind [OF reads_check_cost] split: prod.splits)

lemma extends_logic_ops [ext_intros]:
  "extends a (snd (op_ash B a n m))" "extends a (snd (op_lsh B a n m))" "extends a (snd (op_logand B a n m))"
  "extends a (snd (op_logior B a n m))" "extends a (snd (op_logxor B a n m))" "extends a (snd (op_lognot B a n m))"
  "extends a (snd (op_not a n m))" "extends a (snd (op_any a n m))" "extends a (snd (op_all a n m))"
  by (auto simp: op_ash_def op_lsh_def op_logand_def op_logior_def op_logxor_def binop_reduction_def op_lognot_def
      op_not_def op_any_def op_all_def Let_def intro!: ext_intros split: prod.splits)


section \<open>Hashing, points, coin ids\<close>

definition v_hash_step :: "string \<Rightarrow> Cost \<Rightarrow> Cost \<Rightarrow> clvm \<Rightarrow> Cost \<times> nat \<times> bytes \<Rightarrow> (Cost \<times> nat \<times> bytes) vres" where
  "v_hash_step name per_arg m t s = (case s of (c, n, acc) \<Rightarrow>
     bindV (v_cost (c + per_arg + of_nat n * 2) m) (\<lambda>_.
     bindV (v_atom (name @ '' on list'') t) (\<lambda>bs. Inr (c + per_arg, n + length bs, acc @ bs))))"

definition v_hash :: "string \<Rightarrow> Cost \<Rightarrow> Cost \<Rightarrow> (bytes \<Rightarrow> bytes) \<Rightarrow> clvm \<Rightarrow> Cost \<Rightarrow> (Cost \<times> clvm) vres" where
  "v_hash name base per_arg h t m = bindV (foldV (v_hash_step name per_arg m) (citems t) (base, 0, [])) (\<lambda>(c, n, acc).
     Inr (c + of_nat n * 2 + of_nat (length (h acc)) * 10, CAtom (h acc)))"

fun v_sha256_small :: "clvm list \<Rightarrow> u32 option" where
  "v_sha256_small [CAtom x, CAtom y] =
     (if x = [1] then
        (case fits_in_small_atom y of
           Some v \<Rightarrow> if unat v < length PRECOMPUTED_HASHES then Some v else None
         | None \<Rightarrow> None)
      else None)"
| "v_sha256_small _ = None"

definition v_sha256 :: "(bytes \<Rightarrow> bytes) \<Rightarrow> clvm \<Rightarrow> Cost \<Rightarrow> (Cost \<times> clvm) vres" where
  "v_sha256 h t m =
     (case v_sha256_small (citems t) of
        Some v \<Rightarrow>
          let d = PRECOMPUTED_HASHES ! unat v in
          Inr (87 + ((if v > 0 then 2 else 1) * 2 + 2 * 134) + of_nat (length d) * 10, CAtom d)
      | None \<Rightarrow> v_hash ''sha256'' 87 134 h t m)"

lemma fits_one_iff: "fits_in_small_atom bs = Some 1 \<longleftrightarrow> bs = [1]"
  using fits_in_small_atom_int_bytes [of 1] fits_in_small_atom_Some(1) [of bs 1] by auto

lemma sha256_small_rep:
  assumes "rep a n t"
  shows "sha256_small a n = Ok (v_sha256_small (citems t))"
proof (cases "length (citems t) = 2")
  case True
  then obtain u v where uv: "citems t = [u, v]" by (auto simp: length_Suc_conv numeral_2_eq_2)
  have "list_all2 (rep a) (node_items a n t) [u, v]" using rep_node_items [OF assms] uv by simp
  then obtain x y where xy: "node_items a n t = [x, y]" "rep a x u" "rep a y v"
    by (auto simp: list_all2_Cons2)
  show ?thesis
    using True
    by (cases u; cases v)
       (simp_all add: sha256_small_def match_args_rep [OF assms] uv xy small_number_rep [OF xy(2)] small_number_rep [OF xy(3)]
         fits_one_iff split: option.split)
next
  case False
  then have "v_sha256_small (citems t) = None" by (cases "citems t" rule: v_sha256_small.cases) auto
  with False show ?thesis by (simp add: sha256_small_def match_args_rep [OF assms])
qed

lemma reads_sha256_step: "rep a n t \<Longrightarrow> reads a (=) (v_hash_step ''sha256'' 134 m t s) (sha256_step a m n s)"
  unfolding sha256_step_def v_hash_step_def more_costs
  by (auto simp: Let_def intro!: reads_bind [OF reads_atom_bytes [where name = "''sha256''", simplified]]
      reads_bind [OF reads_check_cost] split: prod.splits)

lemma refines_op_sha256 [op_refines]: "alloc_ok a \<Longrightarrow> rep a n t \<Longrightarrow> refines (v_sha256 (sha256 E) t m) (op_sha256 E a n m)"
proof (cases "v_sha256_small (citems t)")
  case None
  assume a: "alloc_ok a" and n: "rep a n t"
  then show ?thesis using None
    unfolding op_sha256_def v_sha256_def v_hash_def more_costs Let_def
    by (auto simp: sha256_small_rep intro!: refines_tryR [OF _ reads_loop [OF _ _ reads_sha256_step]] refines_new_atom_and_cost)
next
  case (Some v)
  assume a: "alloc_ok a" and n: "rep a n t"
  then show ?thesis using Some
    unfolding op_sha256_def v_sha256_def more_costs Let_def
    by (simp add: sha256_small_rep refines_new_atom_and_cost)
qed

definition v_point :: "string \<Rightarrow> nat \<Rightarrow> (bytes \<Rightarrow> 'p option) \<Rightarrow> clvm \<Rightarrow> 'p vres" where
  "v_point G sz from_bytes t =
     bindV (v_atom (''pair found, expected '' @ G @ '' point'') t) (\<lambda>bs.
     if length bs \<noteq> sz then Inl (t, ''atom is not '' @ G @ '' size, '' @ dec_string sz @ '' bytes'')
     else (case from_bytes bs of Some p \<Rightarrow> Inr p | None \<Rightarrow> Inl (t, ''atom is not a '' @ G @ '' point'')))"

lemma dec_string_48 [simp]: "dec_string 48 = ''48''" "dec_string 96 = ''96''"
  by code_simp+

lemma buf_ok_size_iff:
  "buf_ok a b \<Longrightarrow> k < 100 \<Longrightarrow> ab_end b - ab_start b = (of_nat k :: u32) \<longleftrightarrow> length (buf_bytes a b) = k"
  using buf_ok_len [of a b] by (simp add: ab_len_def word_unat_eq_iff unat_of_nat)

lemma reads_g1: "rep a n t \<Longrightarrow> reads a (=) (v_point ''G1'' 48 (g1_from_bytes E) t) (g1 E a n)"
proof (cases t)
  case (CAtom bs)
  assume "rep a n t"
  then have r: "rep a n (CAtom bs)" using CAtom by simp
  from r show ?thesis
  proof (cases rule: rep_atom_cases)
    case buf
    show ?thesis using buf CAtom r buf_ok_size_iff [OF buf(3), of 48]
      by (auto simp: g1_def v_point_def object_type_kind node_idx_def buf_ok_range split: option.splits)
  next
    case small
    then show ?thesis using CAtom r small_be_signed(2) [OF r small(1)] by (auto simp: g1_def v_point_def object_type_kind)
  qed
next
  case (CPair l r)
  assume "rep a n t"
  with CPair show ?thesis using rep_pair_kind [of a n l r] by (auto simp: g1_def v_point_def object_type_kind)
qed

lemma reads_g2: "rep a n t \<Longrightarrow> reads a (=) (v_point ''G2'' 96 (g2_from_bytes E) t) (g2 E a n)"
proof (cases t)
  case (CAtom bs)
  assume "rep a n t"
  then have r: "rep a n (CAtom bs)" using CAtom by simp
  from r show ?thesis
  proof (cases rule: rep_atom_cases)
    case buf
    show ?thesis using buf CAtom r buf_ok_size_iff [OF buf(3), of 96]
      by (auto simp: g2_def v_point_def object_type_kind node_idx_def buf_ok_range split: option.splits)
  next
    case small
    then show ?thesis using CAtom r small_be_signed(2) [OF r small(1)] by (auto simp: g2_def v_point_def object_type_kind)
  qed
next
  case (CPair l r)
  assume "rep a n t"
  with CPair show ?thesis using rep_pair_kind [of a n l r] by (auto simp: g2_def v_point_def object_type_kind)
qed

lemma refines_new_g1: "alloc_ok a \<Longrightarrow> refines (Inr (c, CAtom (g1_to_bytes E p))) (tryS (new_g1 E a p) (\<lambda>n a. (Ok (Reduction c n), a)))"
  unfolding new_g1_def by (rule refines_tryS [OF safe_new_atom]) (auto intro: refines_Ok)

lemma refines_new_g2: "alloc_ok a \<Longrightarrow> refines (Inr (c, CAtom (g2_to_bytes E p))) (tryS (new_g2 E a p) (\<lambda>n a. (Ok (Reduction c n), a)))"
  unfolding new_g2_def by (rule refines_tryS [OF safe_new_atom]) (auto intro: refines_Ok)

definition v_pubkey_for_exp :: "('g1, 'g2, 'key, 'sig, 'x) ext_api_scheme \<Rightarrow> clvm \<Rightarrow> (Cost \<times> clvm) vres" where
  "v_pubkey_for_exp E t = bindV (v_args 1 t ''pubkey_for_exp'') (\<lambda>ts. bindV (v_int ''pubkey_for_exp'' (ts ! 0)) (\<lambda>(v, l).
     Inr (1325730 + of_nat l * 38 + 480, CAtom (g1_to_bytes E (g1_from_integer E (to_bytes_be E (v mod GROUP_ORDER)))))))"

definition v_point_add :: "('g1, 'g2, 'key, 'sig, 'x) ext_api_scheme \<Rightarrow> clvm \<Rightarrow> Cost \<Rightarrow> (Cost \<times> clvm) vres" where
  "v_point_add E t m = bindV (foldV (\<lambda>t (c, p). bindV (v_point ''G1'' 48 (g1_from_bytes E) t) (\<lambda>q.
       bindV (v_cost (c + 1343980) m) (\<lambda>_. Inr (c + 1343980, g1_add E p q)))) (citems t) (101094, g1_default E))
     (\<lambda>(c, p). Inr (c + 480, CAtom (g1_to_bytes E p)))"

definition v_amount :: "clvm \<Rightarrow> bytes \<Rightarrow> unit vres" where
  "v_amount t v =
     (if be_signed v < 0 then Inl (t, ''coinid: invalid amount (may not be negative'')
      else if \<not> canonical v then Inl (t, ''coinid: invalid amount (may not have redundant leading zero)'')
      else if be_signed v \<ge> 2 ^ 64 then Inl (t, ''coinid: invalid amount (may not exceed max coin amount)'')
      else Inr ())"

definition v_coinid :: "(bytes \<Rightarrow> bytes) \<Rightarrow> clvm \<Rightarrow> (Cost \<times> clvm) vres" where
  "v_coinid h t = bindV (v_args 3 t ''coinid'') (\<lambda>ts.
     bindV (v_atom ''coinid on list'' (ts ! 0)) (\<lambda>parent.
     if length parent \<noteq> 32 then Inl (t, ''coinid: invalid parent coin id (must be 32 bytes)'')
     else bindV (v_atom ''coinid on list'' (ts ! 1)) (\<lambda>puzzle.
     if length puzzle \<noteq> 32 then Inl (t, ''coinid: invalid puzzle hash (must be 32 bytes)'')
     else bindV (v_atom ''coinid on list'' (ts ! 2)) (\<lambda>amount.
     bindV (v_amount t amount) (\<lambda>_. Inr (800, CAtom (h (parent @ puzzle @ amount))))))))"

lemma refines_op_pubkey_for_exp [op_refines]:
  "bigint_laws E \<Longrightarrow> alloc_ok a \<Longrightarrow> rep a n t \<Longrightarrow> refines (v_pubkey_for_exp E t) (op_pubkey_for_exp E a n m)"
  unfolding op_pubkey_for_exp_def v_pubkey_for_exp_def more_costs
  by (rule refines_args, assumption+)
     (auto simp: Let_def mod_group_order_eq intro!: refines_int refines_new_g1 args_nth)

lemma refines_op_point_add [op_refines]:
  "alloc_ok a \<Longrightarrow> rep a n t \<Longrightarrow> refines (v_point_add E t m) (op_point_add E a n m)"
  unfolding op_point_add_def v_point_add_def more_costs
  by (rule refines_tryR [OF _ reads_loop])
     (auto simp: point_add_step_def Let_def more_costs intro!: refines_new_g1 reads_bind [OF reads_g1] reads_bind [OF reads_check_cost]
       split: prod.splits)


lemma canonical_amount_bound:
  assumes c: "canonical v" and p: "0 \<le> be_signed v" and ne: "v \<noteq> []"
  shows "be_signed v \<ge> 2 ^ 64 \<longleftrightarrow> length v > 9 \<or> (length v = 9 \<and> v ! 0 \<noteq> 0)"
proof -
  obtain b rest where v: "v = b # rest" using ne by (cases v) auto
  have val: "be_signed v = int (be_nat v)" using p by (rule be_signed_nonneg)
  have n: "be_nat v = unat b * 256 ^ length rest + be_nat rest" by (simp add: v be_nat_Cons)
  have big: "(2 :: int) ^ 64 \<le> be_signed v \<longleftrightarrow> 256 ^ 8 \<le> be_nat v"
  proof -
    have "(2 :: int) ^ 64 = int (256 ^ 8)" by simp
    then show ?thesis unfolding val by (simp only: of_nat_le_iff)
  qed
  consider (short) "length v \<le> 8" | (nine) "length v = 9" | (long) "length v > 9" by linarith
  then show ?thesis
  proof cases
    case short
    then have "(256 :: nat) ^ length v \<le> 256 ^ 8" by (intro power_increasing) auto
    then have "\<not> 256 ^ 8 \<le> be_nat v" using be_nat_less [of v] by linarith
    then show ?thesis unfolding big using short by auto
  next
    case nine
    then have r: "length rest = 8" using v by simp
    show ?thesis
    proof (cases "b = 0")
      case True
      then show ?thesis unfolding big using n r be_nat_less [of rest] nine v by simp
    next
      case False
      then have "1 * 256 ^ 8 \<le> unat b * 256 ^ 8" by (intro mult_right_mono) (auto simp: Suc_le_eq unat_gt_0)
      moreover have "be_nat v = unat b * 256 ^ 8 + be_nat rest" using n r by simp
      ultimately have "256 ^ 8 \<le> be_nat v" by linarith
      then show ?thesis unfolding big using nine False v by simp
    qed
  next
    case long
    have "256 ^ 9 \<le> 2 * be_nat v"
    proof (cases "b = 0")
      case True
      then obtain b1 rest' where rest: "rest = b1 # rest'" "128 \<le> unat b1" using c v long by (cases rest) auto
      then have "256 ^ length rest \<le> 2 * be_nat rest" using hd_ge_128_iff [of rest] by simp
      moreover have "(256 :: nat) ^ 9 \<le> 256 ^ length rest" using long v by (intro power_increasing) auto
      ultimately show ?thesis using n True by simp
    next
      case False
      then have "1 * 256 ^ length rest \<le> unat b * 256 ^ length rest" by (intro mult_right_mono) (auto simp: Suc_le_eq unat_gt_0)
      moreover have "(256 :: nat) ^ 9 \<le> 256 ^ length rest" using long v by (intro power_increasing) auto
      ultimately show ?thesis using n by linarith
    qed
    then have "256 ^ 8 \<le> be_nat v" by simp
    then show ?thesis unfolding big using long by simp
  qed
qed

lemma redundant_iff:
  assumes "0 \<le> be_signed v" "v \<noteq> []"
  shows "(v = [0] \<or> (length v > 1 \<and> v ! 0 = 0 \<and> v ! 1 AND 0x80 = 0)) \<longleftrightarrow> \<not> canonical v"
proof (cases v rule: canonical.cases)
  case (3 b0 b1 bs)
  then have "b0 \<noteq> 255" using be_signed_nonneg_iff [of v] assms by auto
  then show ?thesis using 3 by (auto simp: and_80)
qed (use assms in auto)

lemma reads_check_amount: "rep a n t \<Longrightarrow> reads a (=) (v_amount t v) (check_amount n v)"
proof (cases "v = []")
  case False
  assume r: "rep a n t"
  have neg: "v ! 0 AND 0x80 \<noteq> 0 \<longleftrightarrow> be_signed v < 0"
    using be_signed_nonneg_iff [OF False] False by (auto simp: and_80 hd_conv_nth not_less)
  show ?thesis
  proof (cases "be_signed v < 0")
    case True
    then show ?thesis using False r neg by (auto simp: check_amount_def v_amount_def)
  next
    case nn: False
    then have p: "0 \<le> be_signed v" by simp
    show ?thesis
      using nn r False unfolding check_amount_def v_amount_def neg redundant_iff [OF p False]
      by (cases "canonical v") (auto simp: canonical_amount_bound [OF _ p False, symmetric])
  qed
qed (auto simp: check_amount_def v_amount_def)

lemma refines_op_coinid [op_refines]:
  assumes h: "\<And>x. length (sha256 E x) = 32" and a: "alloc_ok a" and n: "rep a n t"
  shows "refines (v_coinid (sha256 E) t) (op_coinid E a n m)"
proof -
  have fin: "refines (Inr (800, CAtom (sha256 E x))) (new_atom_and_cost a 480 (sha256 E x))" for x
    using refines_new_atom_and_cost [OF a, of 480 "sha256 E x"] by (simp add: h)
  show ?thesis
    unfolding op_coinid_def v_coinid_def more_costs
    by (rule refines_args [OF a n])
       (auto simp: Let_def h a n intro!: refines_bytes refines_err refines_tryR [OF _ reads_check_amount] args_nth fin)
qed

lemma extends_misc_ops [ext_intros]:
  "extends a (snd (op_sha256 E a n m))" "extends a (snd (op_pubkey_for_exp E a n m))" "extends a (snd (op_point_add E a n m))"
  "extends a (snd (op_coinid E a n m))"
  by (auto simp: op_sha256_def op_pubkey_for_exp_def op_point_add_def op_coinid_def Let_def
      intro!: ext_intros split: prod.splits option.splits)

end
