(* ===== verification/CryptoOpsSpec.thy ===== *)
theory CryptoOpsSpec
  imports CryptoOps MoreOpsSpec
begin

unbundle bit_operations_syntax

text \<open>
  The cryptographic operators on values, over the same library parameters as the handlers,
  and that the handlers refine them.
\<close>

section \<open>BLS12-381\<close>

definition v_g1_subtract :: "('g1, 'g2, 'key, 'sig, 'x) ext_api_scheme \<Rightarrow> clvm \<Rightarrow> Cost \<Rightarrow> (Cost \<times> clvm) vres" where
  "v_g1_subtract E t m = bindV (v_cost 101094 m) (\<lambda>_.
     bindV (foldV (\<lambda>t (c, p, first). bindV (v_point ''G1'' 48 (g1_from_bytes E) t) (\<lambda>q.
         bindV (v_cost (c + 1343980) m) (\<lambda>_. Inr (c + 1343980, if first then q else g1_sub E p q, False)))) (citems t) (101094, g1_default E, True))
       (\<lambda>(c, p, _). Inr (c + 480, CAtom (g1_to_bytes E p))))"

definition v_g1_multiply :: "('g1, 'g2, 'key, 'sig, 'x) ext_api_scheme \<Rightarrow> clvm \<Rightarrow> Cost \<Rightarrow> (Cost \<times> clvm) vres" where
  "v_g1_multiply E t m = bindV (v_args 2 t ''g1_multiply'') (\<lambda>ts.
     bindV (v_cost 705500 m) (\<lambda>_. bindV (v_point ''G1'' 48 (g1_from_bytes E) (ts ! 0)) (\<lambda>p.
     bindV (v_int ''g1_multiply'' (ts ! 1)) (\<lambda>(k, l).
     bindV (v_cost (705500 + of_nat l * 10) m) (\<lambda>_.
     Inr (705500 + of_nat l * 10 + 480, CAtom (g1_to_bytes E (g1_scalar_multiply E p (to_bytes_be E (k mod GROUP_ORDER))))))))))"

definition v_g1_negate :: "('g1, 'g2, 'key, 'sig, 'x) ext_api_scheme \<Rightarrow> clvm \<Rightarrow> (Cost \<times> clvm) vres" where
  "v_g1_negate E t = bindV (v_args 1 t ''g1_negate'') (\<lambda>ts. bindV (v_atom ''G1 atom on list'' (ts ! 0)) (\<lambda>bs.
     if length bs \<noteq> 48 then Inl (ts ! 0, ''atom is not G1 size, 48 bytes'')
     else if g1_from_bytes E bs = None then Inl (ts ! 0, ''atom is not a valid G1 point'')
     else Inr (916 + 480, CAtom (if bs ! 0 AND 0xe0 = 0xc0 then bs else bs[0 := bs ! 0 XOR 0x20]))))"

definition v_g2_subtract :: "('g1, 'g2, 'key, 'sig, 'x) ext_api_scheme \<Rightarrow> clvm \<Rightarrow> Cost \<Rightarrow> (Cost \<times> clvm) vres" where
  "v_g2_subtract E t m = bindV (v_cost 80000 m) (\<lambda>_.
     bindV (foldV (\<lambda>t (c, p, first). bindV (v_point ''G2'' 96 (g2_from_bytes E) t) (\<lambda>q.
         bindV (v_cost (c + 1950000) m) (\<lambda>_. Inr (c + 1950000, if first then q else g2_sub E p q, False)))) (citems t) (80000, g2_default E, True))
       (\<lambda>(c, p, _). Inr (c + 960, CAtom (g2_to_bytes E p))))"

definition v_g2_multiply :: "('g1, 'g2, 'key, 'sig, 'x) ext_api_scheme \<Rightarrow> clvm \<Rightarrow> Cost \<Rightarrow> (Cost \<times> clvm) vres" where
  "v_g2_multiply E t m = bindV (v_args 2 t ''g2_multiply'') (\<lambda>ts.
     bindV (v_cost 2100000 m) (\<lambda>_. bindV (v_point ''G2'' 96 (g2_from_bytes E) (ts ! 0)) (\<lambda>p.
     bindV (v_int ''g2_multiply'' (ts ! 1)) (\<lambda>(k, l).
     bindV (v_cost (2100000 + of_nat l * 5) m) (\<lambda>_.
     Inr (2100000 + of_nat l * 5 + 960, CAtom (g2_to_bytes E (g2_scalar_multiply E p (to_bytes_be E (k mod GROUP_ORDER))))))))))"

definition v_g2_negate :: "('g1, 'g2, 'key, 'sig, 'x) ext_api_scheme \<Rightarrow> clvm \<Rightarrow> (Cost \<times> clvm) vres" where
  "v_g2_negate E t = bindV (v_args 1 t ''g2_negate'') (\<lambda>ts. bindV (v_atom ''G2 atom on list'' (ts ! 0)) (\<lambda>bs.
     if length bs \<noteq> 96 then Inl (ts ! 0, ''atom is not G2 size, 96 bytes'')
     else if g2_from_bytes E bs = None then Inl (ts ! 0, ''atom is not a valid G2 point'')
     else Inr (1204 + 960, CAtom (if bs ! 0 AND 0xe0 = 0xc0 then bs else bs[0 := bs ! 0 XOR 0x20]))))"

definition v_g2_add :: "('g1, 'g2, 'key, 'sig, 'x) ext_api_scheme \<Rightarrow> clvm \<Rightarrow> Cost \<Rightarrow> (Cost \<times> clvm) vres" where
  "v_g2_add E t m = bindV (v_cost 80000 m) (\<lambda>_.
     bindV (foldV (\<lambda>t (c, p). bindV (v_point ''G2'' 96 (g2_from_bytes E) t) (\<lambda>q.
         bindV (v_cost (c + 1950000) m) (\<lambda>_. Inr (c + 1950000, g2_add E p q)))) (citems t) (80000, g2_default E))
       (\<lambda>(c, p). Inr (c + 960, CAtom (g2_to_bytes E p))))"

definition v_map_to_g1 :: "('g1, 'g2, 'key, 'sig, 'x) ext_api_scheme \<Rightarrow> clvm \<Rightarrow> Cost \<Rightarrow> (Cost \<times> clvm) vres" where
  "v_map_to_g1 E t m = bindV (v_varargs 2 t ''g1_map'') (\<lambda>(ts, argc).
     if \<not> (1 \<le> argc \<and> argc \<le> 2) then Inl (t, ''g1_map takes exactly 1 or 2 arguments'')
     else bindV (v_cost 195000 m) (\<lambda>_.
       bindV (v_atom ''g1_map on list'' (ts ! 0)) (\<lambda>msg.
       bindV (v_cost (195000 + of_nat (length msg) * 4) m) (\<lambda>_.
       bindV (if argc = 2 then v_atom ''g1_map on list'' (ts ! 1) else Inr DST_G1) (\<lambda>dst.
       let cost = 195000 + of_nat (length msg) * 4 + of_nat (length dst) * 4 in
       bindV (v_cost cost m) (\<lambda>_.
       Inr (cost + 480, CAtom (g1_to_bytes E (hash_to_g1_with_dst E msg dst)))))))))"

definition v_map_to_g2 :: "('g1, 'g2, 'key, 'sig, 'x) ext_api_scheme \<Rightarrow> clvm \<Rightarrow> Cost \<Rightarrow> (Cost \<times> clvm) vres" where
  "v_map_to_g2 E t m = bindV (v_varargs 2 t ''g2_map'') (\<lambda>(ts, argc).
     if \<not> (1 \<le> argc \<and> argc \<le> 2) then Inl (t, ''g2_map takes exactly 1 or 2 arguments'')
     else bindV (v_cost 815000 m) (\<lambda>_.
       bindV (v_atom ''g2_map on list'' (ts ! 0)) (\<lambda>msg.
       bindV (if argc = 2 then v_atom ''g2_map on list'' (ts ! 1) else Inr DST_G2) (\<lambda>dst.
       let cost = 815000 + of_nat (length msg) * 4 + of_nat (length dst) * 4 in
       bindV (v_cost cost m) (\<lambda>_.
       Inr (cost + 960, CAtom (g2_to_bytes E (hash_to_g2_with_dst E msg dst))))))))"

text \<open>The flat list of pairs of the pairing operators; the end of the list must be nil.\<close>

fun v_pairing :: "('g1, 'g2, 'key, 'sig, 'x) ext_api_scheme \<Rightarrow> Cost \<Rightarrow> clvm \<Rightarrow> Cost \<Rightarrow> ('g1 \<times> 'g2) list \<Rightarrow> (Cost \<times> ('g1 \<times> 'g2) list) vres" where
  "v_pairing E m t cost items =
     (if t = CAtom [] then Inr (cost, items)
      else
        bindV (v_cost (cost + 1200000) m) (\<lambda>_.
        case t of
          CAtom bs \<Rightarrow> Inl (t, ''first of non-cons'')
        | CPair x r \<Rightarrow>
            bindV (v_point ''G1'' 48 (g1_from_bytes E) x) (\<lambda>p.
            (case r of
               CAtom bs \<Rightarrow> Inl (r, ''first of non-cons'')
             | CPair y r' \<Rightarrow>
                 bindV (v_point ''G2'' 96 (g2_from_bytes E) y) (\<lambda>q. v_pairing E m r' (cost + 1200000) (items @ [(p, q)]))))))"

declare v_pairing.simps [simp del]

definition v_pairing_identity :: "('g1, 'g2, 'key, 'sig, 'x) ext_api_scheme \<Rightarrow> clvm \<Rightarrow> Cost \<Rightarrow> (Cost \<times> clvm) vres" where
  "v_pairing_identity E t m = bindV (v_cost 3000000 m) (\<lambda>_. bindV (v_pairing E m t 3000000 []) (\<lambda>(c, items).
     if \<not> aggregate_pairing E items then Inl (t, ''bls_pairing_identity failed'') else Inr (c, CAtom [])))"

fun v_verify :: "('g1, 'g2, 'key, 'sig, 'x) ext_api_scheme \<Rightarrow> Cost \<Rightarrow> clvm \<Rightarrow> Cost \<Rightarrow> ('g1 \<times> bytes) list \<Rightarrow> (Cost \<times> ('g1 \<times> bytes) list) vres" where
  "v_verify E m t cost items =
     (if t = CAtom [] then Inr (cost, items)
      else
        (case t of
          CAtom bs \<Rightarrow> Inl (t, ''first of non-cons'')
        | CPair x r \<Rightarrow>
            bindV (v_point ''G1'' 48 (g1_from_bytes E) x) (\<lambda>p.
            (case r of
               CAtom bs \<Rightarrow> Inl (r, ''first of non-cons'')
             | CPair y r' \<Rightarrow>
                 bindV (v_atom ''bls_verify message on list'' y) (\<lambda>msg.
                 let cost = cost + 1200000 + of_nat (length msg) * 4 + of_nat (length DST_G2) * 4 in
                 bindV (v_cost cost m) (\<lambda>_. v_verify E m r' cost (items @ [(p, msg)])))))))"

declare v_verify.simps [simp del]

definition v_bls_verify :: "('g1, 'g2, 'key, 'sig, 'x) ext_api_scheme \<Rightarrow> clvm \<Rightarrow> Cost \<Rightarrow> (Cost \<times> clvm) vres" where
  "v_bls_verify E t m = bindV (v_cost 3000000 m) (\<lambda>_.
     case t of
       CAtom bs \<Rightarrow> Inl (t, ''first of non-cons'')
     | CPair s r \<Rightarrow>
         bindV (v_point ''G2'' 96 (g2_from_bytes E) s) (\<lambda>sig.
         bindV (v_verify E m r 3000000 []) (\<lambda>(c, items).
         if \<not> aggregate_verify E sig items then Inl (t, ''bls_verify failed'') else Inr (c, CAtom []))))"

section \<open>ECDSA\<close>

definition v_secp_verify ::
  "string \<Rightarrow> Cost \<Rightarrow> (bytes \<Rightarrow> 'key option) \<Rightarrow> (bytes \<Rightarrow> 'sig option) \<Rightarrow> ('key \<Rightarrow> bytes \<Rightarrow> 'sig \<Rightarrow> bool) \<Rightarrow> clvm \<Rightarrow> Cost \<Rightarrow> (Cost \<times> clvm) vres" where
  "v_secp_verify name cost key_of sig_of verify t m = bindV (v_cost cost m) (\<lambda>_. bindV (v_args 3 t name) (\<lambda>ts.
     bindV (v_atom (name @ '' pubkey on list'') (ts ! 0)) (\<lambda>pk.
     case key_of pk of
       None \<Rightarrow> Inl (t, name @ '' pubkey is not valid'')
     | Some key \<Rightarrow>
         bindV (v_atom (name @ '' msg on list'') (ts ! 1)) (\<lambda>msg.
         if length msg \<noteq> 32 then Inl (t, name @ '' message digest is not 32 bytes'')
         else bindV (v_atom (name @ '' sig on list'') (ts ! 2)) (\<lambda>sig.
           case sig_of sig of
             None \<Rightarrow> Inl (t, name @ '' sig is not valid'')
           | Some s \<Rightarrow> if \<not> verify key msg s then Inl (t, name @ '' failed'') else Inr (cost, CAtom []))))))"

section \<open>Refinement\<close>

lemma rep_nth_atom: "list_all2 (rep a) ns ts \<Longrightarrow> i < length ts \<Longrightarrow> ts ! i = CAtom bs \<Longrightarrow> rep a (ns ! i) (CAtom bs)"
  using args_nth by metis

lemma refines_new_sized:
  "alloc_ok a \<Longrightarrow> length bs = 48 \<Longrightarrow> refines (Inr (1396, CAtom bs)) (new_atom_and_cost a 916 bs)"
  "alloc_ok a \<Longrightarrow> length bs = 96 \<Longrightarrow> refines (Inr (2164, CAtom bs)) (new_atom_and_cost a 1204 bs)"
  using refines_new_atom_and_cost [of a 916 bs] refines_new_atom_and_cost [of a 1204 bs] by simp_all

lemma refines_op_bls_g1_subtract [op_refines]:
  "alloc_ok a \<Longrightarrow> rep a n t \<Longrightarrow> refines (v_g1_subtract E t m) (op_bls_g1_subtract E a n m)"
  unfolding op_bls_g1_subtract_def v_g1_subtract_def more_costs bls_costs
  by (rule refines_tryR [OF _ reads_check_cost], assumption, rule refines_tryR [OF _ reads_loop])
     (auto simp: g1_subtract_step_def Let_def bls_costs intro!: refines_new_g1 reads_bind [OF reads_g1] reads_bind [OF reads_check_cost]
       split: prod.splits)

lemma refines_op_bls_g1_multiply [op_refines]:
  "bigint_laws E \<Longrightarrow> alloc_ok a \<Longrightarrow> rep a n t \<Longrightarrow> refines (v_g1_multiply E t m) (op_bls_g1_multiply E a n m)"
  unfolding op_bls_g1_multiply_def v_g1_multiply_def more_costs bls_costs
  by (rule refines_args, assumption+)
     (auto simp: Let_def mod_group_order_eq intro!: refines_int refines_tryR [OF _ reads_check_cost]
       refines_tryR [OF _ reads_g1] refines_new_g1 args_nth)

lemma refines_op_bls_g1_negate [op_refines]:
  "alloc_ok a \<Longrightarrow> rep a n t \<Longrightarrow> refines (v_g1_negate E t) (op_bls_g1_negate E a n m)"
  unfolding op_bls_g1_negate_def v_g1_negate_def more_costs bls_costs
  by (rule refines_args, assumption+)
     (auto simp: Let_def intro!: refines_bytes refines_Err refines_Ok refines_new_sized args_nth rep_nth_atom split: option.splits)

lemma refines_op_bls_g2_subtract [op_refines]:
  "alloc_ok a \<Longrightarrow> rep a n t \<Longrightarrow> refines (v_g2_subtract E t m) (op_bls_g2_subtract E a n m)"
  unfolding op_bls_g2_subtract_def v_g2_subtract_def more_costs bls_costs
  by (rule refines_tryR [OF _ reads_check_cost], assumption, rule refines_tryR [OF _ reads_loop])
     (auto simp: g2_subtract_step_def Let_def bls_costs intro!: refines_new_g2 reads_bind [OF reads_g2] reads_bind [OF reads_check_cost]
       split: prod.splits)

lemma refines_op_bls_g2_multiply [op_refines]:
  "bigint_laws E \<Longrightarrow> alloc_ok a \<Longrightarrow> rep a n t \<Longrightarrow> refines (v_g2_multiply E t m) (op_bls_g2_multiply E a n m)"
  unfolding op_bls_g2_multiply_def v_g2_multiply_def more_costs bls_costs
  by (rule refines_args, assumption+)
     (auto simp: Let_def mod_group_order_eq intro!: refines_int refines_tryR [OF _ reads_check_cost]
       refines_tryR [OF _ reads_g2] refines_new_g2 args_nth)

lemma refines_op_bls_g2_negate [op_refines]:
  "alloc_ok a \<Longrightarrow> rep a n t \<Longrightarrow> refines (v_g2_negate E t) (op_bls_g2_negate E a n m)"
  unfolding op_bls_g2_negate_def v_g2_negate_def more_costs bls_costs
  by (rule refines_args, assumption+)
     (auto simp: Let_def intro!: refines_bytes refines_Err refines_Ok refines_new_sized args_nth rep_nth_atom split: option.splits)

lemma refines_op_bls_g2_add [op_refines]:
  "alloc_ok a \<Longrightarrow> rep a n t \<Longrightarrow> refines (v_g2_add E t m) (op_bls_g2_add E a n m)"
  unfolding op_bls_g2_add_def v_g2_add_def more_costs bls_costs
  by (rule refines_tryR [OF _ reads_check_cost], assumption, rule refines_tryR [OF _ reads_loop])
     (auto simp: g2_add_step_def Let_def bls_costs intro!: refines_new_g2 reads_bind [OF reads_g2] reads_bind [OF reads_check_cost]
       split: prod.splits)

text \<open>A flat list is shorter than the pair table, so the loops do not run out of fuel.\<close>

lemma v_pairing_atom:
  "v_pairing E m (CAtom bs) c items =
    (if bs = [] then Inr (c, items) else bindV (v_cost (c + 1200000) m) (\<lambda>_. Inl (CAtom bs, ''first of non-cons'')))"
  by (subst v_pairing.simps) simp

lemma v_pairing_pair:
  "v_pairing E m (CPair x r) c items =
    bindV (v_cost (c + 1200000) m) (\<lambda>_. bindV (v_point ''G1'' 48 (g1_from_bytes E) x) (\<lambda>p.
      case r of
        CAtom bs \<Rightarrow> Inl (r, ''first of non-cons'')
      | CPair y r' \<Rightarrow> bindV (v_point ''G2'' 96 (g2_from_bytes E) y) (\<lambda>q. v_pairing E m r' (c + 1200000) (items @ [(p, q)]))))"
  by (subst v_pairing.simps) simp

lemma v_verify_atom:
  "v_verify E m (CAtom bs) c items = (if bs = [] then Inr (c, items) else Inl (CAtom bs, ''first of non-cons''))"
  by (subst v_verify.simps) simp

lemma v_verify_pair:
  "v_verify E m (CPair x r) c items =
    bindV (v_point ''G1'' 48 (g1_from_bytes E) x) (\<lambda>p.
      case r of
        CAtom bs \<Rightarrow> Inl (r, ''first of non-cons'')
      | CPair y r' \<Rightarrow> bindV (v_atom ''bls_verify message on list'' y) (\<lambda>msg.
          let cost = c + 1200000 + of_nat (length msg) * 4 + of_nat (length DST_G2) * 4 in
          bindV (v_cost cost m) (\<lambda>_. v_verify E m r' cost (items @ [(p, msg)]))))"
  by (subst v_verify.simps) simp

lemma util_first_pair: "rep a n (CPair l r) \<Longrightarrow> util_first a n = Ok (pfirst a n)"
  by (simp add: util_first_def rep_sexp_pair)

lemma util_rest_pair: "rep a n (CPair l r) \<Longrightarrow> util_rest a n = Ok (prest a n)"
  by (simp add: util_rest_def rep_sexp_pair)

lemma util_first_atom: "rep a n (CAtom bs) \<Longrightarrow> util_first a n = err n ''first of non-cons''"
  by (simp add: util_first_def rep_sexp_atom)

lemmas util_reps = util_first_pair util_rest_pair util_first_atom

lemma pairing_loop_rep:
  assumes ok: "alloc_ok a"
  shows "rep a n t \<Longrightarrow> node_below a i n \<Longrightarrow> i < k \<Longrightarrow> reads a (=) (v_pairing E m t c items) (pairing_loop E k a m n c items)"
proof (induction k arbitrary: n t i c items)
  case (Suc k)
  show ?case
  proof (cases t)
    case (CAtom bs)
    then show ?thesis using Suc.prems
      by (auto simp: v_pairing_atom Let_def nilp_rep bls_costs util_reps err_def intro!: reads_bind [OF reads_check_cost])
  next
    case (CPair x r)
    have n: "rep a n (CPair x r)" using Suc.prems CPair by simp
    have px: "rep a (pfirst a n) x" and pr: "rep a (prest a n) r" using rep_pfirst [OF n] rep_prest [OF n] by auto
    have lt: "node_idx n < i" using n Suc.prems(2) by (rule rep_pair_idx)
    show ?thesis
    proof (cases r)
      case (CAtom bs)
      then show ?thesis using CPair n pr
        by (auto simp: v_pairing_pair Let_def nilp_rep bls_costs util_reps err_def
            intro!: reads_bind [OF reads_check_cost] reads_bind [OF reads_g1 [OF px]])
    next
      case p2: (CPair y r')
      then have n2: "rep a (prest a n) (CPair y r')" using pr by simp
      have py: "rep a (pfirst a (prest a n)) y" and pr': "rep a (prest a (prest a n)) r'"
        using rep_pfirst [OF n2] rep_prest [OF n2] by auto
      have "node_idx (prest a n) < node_idx n" using n2 rep_pair_below(2) [OF ok n] by (rule rep_pair_idx)
      then have "node_idx (prest a n) < k" using lt Suc.prems(3) by simp
      then have IH: "reads a (=) (v_pairing E m r' c' items') (pairing_loop E k a m (prest a (prest a n)) c' items')" for c' items'
        using Suc.IH [OF pr' rep_pair_below(2) [OF ok n2]] by simp
      show ?thesis using CPair n p2 n2
        by (auto simp: v_pairing_pair Let_def nilp_rep bls_costs util_reps
            intro!: reads_bind [OF reads_check_cost] reads_bind [OF reads_g1 [OF px]] reads_bind [OF reads_g2 [OF py]] IH)
    qed
  qed
qed simp

lemma verify_loop_rep:
  assumes ok: "alloc_ok a"
  shows "rep a n t \<Longrightarrow> node_below a i n \<Longrightarrow> i < k \<Longrightarrow> reads a (=) (v_verify E m t c items) (verify_loop E k a m n c items)"
proof (induction k arbitrary: n t i c items)
  case (Suc k)
  show ?case
  proof (cases t)
    case (CAtom bs)
    then show ?thesis using Suc.prems
      by (auto simp: v_verify_atom Let_def nilp_rep bls_costs util_reps err_def)
  next
    case (CPair x r)
    have n: "rep a n (CPair x r)" using Suc.prems CPair by simp
    have px: "rep a (pfirst a n) x" and pr: "rep a (prest a n) r" using rep_pfirst [OF n] rep_prest [OF n] by auto
    have lt: "node_idx n < i" using n Suc.prems(2) by (rule rep_pair_idx)
    show ?thesis
    proof (cases r)
      case (CAtom bs)
      then show ?thesis using CPair n pr
        by (auto simp: v_verify_pair Let_def nilp_rep bls_costs util_reps err_def intro!: reads_bind [OF reads_g1 [OF px]])
    next
      case p2: (CPair y r')
      then have n2: "rep a (prest a n) (CPair y r')" using pr by simp
      have py: "rep a (pfirst a (prest a n)) y" and pr': "rep a (prest a (prest a n)) r'"
        using rep_pfirst [OF n2] rep_prest [OF n2] by auto
      have "node_idx (prest a n) < node_idx n" using n2 rep_pair_below(2) [OF ok n] by (rule rep_pair_idx)
      then have "node_idx (prest a n) < k" using lt Suc.prems(3) by simp
      then have IH: "reads a (=) (v_verify E m r' c' items') (verify_loop E k a m (prest a (prest a n)) c' items')" for c' items'
        using Suc.IH [OF pr' rep_pair_below(2) [OF ok n2]] by simp
      show ?thesis using CPair n p2 n2
        by (auto simp: v_verify_pair Let_def nilp_rep bls_costs util_reps
            intro!: reads_bind [OF reads_check_cost] reads_bind [OF reads_g1 [OF px]]
              reads_bind [OF reads_atom_bytes [OF py, of "''bls_verify message''", simplified]] IH)
    qed
  qed
qed simp

lemma refines_op_bls_pairing_identity [op_refines]:
  "alloc_ok a \<Longrightarrow> rep a n t \<Longrightarrow> refines (v_pairing_identity E t m) (op_bls_pairing_identity E a n m)"
  unfolding op_bls_pairing_identity_def v_pairing_identity_def bls_costs
  by (rule refines_tryR [OF _ reads_check_cost], assumption, rule refines_tryR [OF _ pairing_loop_rep])
     (auto intro!: refines_err refines_Ok dest: rep_node_ok)

lemma refines_op_bls_verify [op_refines]:
  assumes a: "alloc_ok a" and n: "rep a n t"
  shows "refines (v_bls_verify E t m) (op_bls_verify E a n m)"
proof (cases t)
  case (CAtom bs)
  then show ?thesis using a n
    by (auto simp: op_bls_verify_def v_bls_verify_def bls_costs util_reps err_def
        intro!: refines_tryR [OF _ reads_check_cost] refines_Err)
next
  case (CPair s r)
  have n': "rep a n (CPair s r)" using n CPair by simp
  have ps: "rep a (pfirst a n) s" and pr: "rep a (prest a n) r" using rep_pfirst [OF n'] rep_prest [OF n'] by auto
  have loop: "reads a (=) (v_verify E m r c items) (verify_loop E (Suc (length (pair_vec a))) a m (prest a n) c items)" for c items
    by (rule verify_loop_rep [OF a pr rep_node_ok [OF pr]]) simp
  show ?thesis using a n n' CPair
    by (auto simp: op_bls_verify_def v_bls_verify_def bls_costs util_reps simp del: verify_loop.simps
        intro!: refines_tryR [OF _ reads_check_cost] refines_tryR [OF _ reads_g2 [OF ps]] refines_tryR [OF _ loop] refines_err refines_Ok)
qed

lemma refines_map_to [op_refines]:
  assumes a: "alloc_ok a" and n: "rep a n t"
  shows "refines (v_map_to_g1 E t m) (op_bls_map_to_g1 E a n m)" "refines (v_map_to_g2 E t m) (op_bls_map_to_g2 E a n m)"
proof -
  have args: "rep a (ns ! 0) (ts ! 0) \<and> rep a (ns ! Suc 0) (ts ! Suc 0)"
    if "v_varargs 2 t name = Inr (ts, argc)" "list_all2 (rep a) ns ts" for name ns ts argc
    using that by (auto simp: v_varargs_def intro!: args_nth split: if_splits)
  show "refines (v_map_to_g1 E t m) (op_bls_map_to_g1 E a n m)"
    unfolding op_bls_map_to_g1_def v_map_to_g1_def bls_costs Let_def more_costs
    by (rule refines_tryR [OF a reads_get_varargs [OF n]])
       (auto simp: a n dest!: args intro!: refines_err refines_tryR [OF _ reads_check_cost] refines_bytes refines_new_g1)
  show "refines (v_map_to_g2 E t m) (op_bls_map_to_g2 E a n m)"
    unfolding op_bls_map_to_g2_def v_map_to_g2_def bls_costs Let_def more_costs
    by (rule refines_tryR [OF a reads_get_varargs [OF n]])
       (auto simp: a n dest!: args intro!: refines_err refines_tryR [OF _ reads_check_cost] refines_bytes refines_new_g2)
qed

lemma reads_keccak256_step: "rep a n t \<Longrightarrow> reads a (=) (v_hash_step ''keccak256'' 160 m t s) (keccak256_step a m n s)"
  unfolding keccak256_step_def v_hash_step_def KECCAK256_COST_PER_ARG_def KECCAK256_COST_PER_BYTE_def
  by (auto simp: Let_def intro!: reads_bind [OF reads_atom_bytes [where name = "''keccak256''", simplified]]
      reads_bind [OF reads_check_cost] split: prod.splits)

lemma refines_op_keccak256 [op_refines]:
  "alloc_ok a \<Longrightarrow> rep a n t \<Longrightarrow> refines (v_hash ''keccak256'' 50 160 (keccak256 E) t m) (op_keccak256 E a n m)"
  unfolding op_keccak256_def v_hash_def KECCAK256_BASE_COST_def KECCAK256_COST_PER_BYTE_def Let_def
  by (auto intro!: refines_tryR [OF _ reads_loop [OF _ _ reads_keccak256_step]] refines_new_atom_and_cost)

lemma refines_op_secp256r1_verify [op_refines]:
  "alloc_ok a \<Longrightarrow> rep a n t \<Longrightarrow>
   refines (v_secp_verify ''secp256r1_verify'' 1850000 (r1_from_sec1_bytes E) (r1_sig_from_slice E) (r1_verify_prehash E) t m)
     (op_secp256r1_verify E a n m)"
  unfolding op_secp256r1_verify_def v_secp_verify_def SECP256R1_VERIFY_COST_def Let_def
  by (rule refines_tryR [OF _ reads_check_cost], assumption, rule refines_args, assumption+)
     (auto intro!: refines_bytes refines_err refines_Ok args_nth split: option.splits)

lemma refines_op_secp256k1_verify [op_refines]:
  "alloc_ok a \<Longrightarrow> rep a n t \<Longrightarrow>
   refines (v_secp_verify ''secp256k1_verify'' 1300000 (k1_from_sec1_bytes E) (k1_sig_from_slice E) (k1_verify_prehash E) t m)
     (op_secp256k1_verify E a n m)"
  unfolding op_secp256k1_verify_def v_secp_verify_def SECP256K1_VERIFY_COST_def Let_def
  by (rule refines_tryR [OF _ reads_check_cost], assumption, rule refines_args, assumption+)
     (auto intro!: refines_bytes refines_err refines_Ok args_nth split: option.splits)

lemma extends_crypto_ops [ext_intros]:
  "extends a (snd (op_bls_g1_subtract E a n m))" "extends a (snd (op_bls_g1_multiply E a n m))"
  "extends a (snd (op_bls_g1_negate E a n m))" "extends a (snd (op_bls_g2_add E a n m))"
  "extends a (snd (op_bls_g2_subtract E a n m))" "extends a (snd (op_bls_g2_multiply E a n m))"
  "extends a (snd (op_bls_g2_negate E a n m))" "extends a (snd (op_bls_map_to_g1 E a n m))"
  "extends a (snd (op_bls_map_to_g2 E a n m))" "extends a (snd (op_bls_pairing_identity E a n m))"
  "extends a (snd (op_bls_verify E a n m))" "extends a (snd (op_keccak256 E a n m))"
  "extends a (snd (op_secp256r1_verify E a n m))" "extends a (snd (op_secp256k1_verify E a n m))"
  by (auto simp: op_bls_g1_subtract_def op_bls_g1_multiply_def op_bls_g1_negate_def op_bls_g2_add_def
      op_bls_g2_subtract_def op_bls_g2_multiply_def op_bls_g2_negate_def op_bls_map_to_g1_def op_bls_map_to_g2_def
      op_bls_pairing_identity_def op_bls_verify_def op_keccak256_def op_secp256r1_verify_def op_secp256k1_verify_def Let_def
      intro!: ext_intros split: prod.splits option.splits)

end
