(* ===== verification/DialectSpec.thy ===== *)
theory DialectSpec
  imports Dialect CryptoOpsSpec
begin

unbundle bit_operations_syntax

text \<open>
  What the interpreter relies on in a dialect, as the locale \<open>dialect_laws\<close>: the keyword
  accessors do not panic, an operator call only allocates, and its response is the one a
  function on values gives. The Chia dialect satisfies it, with the operator table on values
  \<open>v_chia_op\<close>, and so does every runtime dialect with one-byte keywords.
\<close>

section \<open>The interface\<close>

locale dialect_laws =
  fixes D :: dialect
    and vop :: "bytes \<Rightarrow> clvm \<Rightarrow> Cost \<Rightarrow> OperatorSet \<Rightarrow> (Cost \<times> clvm) vres"
    and quote_op apply_op softfork_op :: u32
  assumes quote: "quote_kw D = Ok quote_op"
    and apply_kw: "apply_kw D = Ok apply_op"
    and softfork: "softfork_kw D = Ok softfork_op"
    and op_extends: "extends a (snd (dialect_op D a p n m ext))"
    and op_respects: "alloc_ok a \<Longrightarrow> rep a p (CAtom op) \<Longrightarrow> rep a n t \<Longrightarrow> unat m \<le> 2 ^ 62 \<Longrightarrow>
      refines (vop op t m ext) (dialect_op D a p n m ext)"

section \<open>The Chia operators on values\<close>

type_synonym v_handler = "clvm \<Rightarrow> Cost \<Rightarrow> (Cost \<times> clvm) vres"

definition v_chia_ops :: "('g1, 'g2, 'key, 'sig, 'x) ext_api_scheme \<Rightarrow> (nat \<times> v_handler) list" where
  "v_chia_ops E =
     [(3, \<lambda>t m. v_if t), (4, \<lambda>t m. v_cons t), (5, \<lambda>t m. v_first t), (6, \<lambda>t m. v_rest t), (7, \<lambda>t m. v_listp t),
      (8, \<lambda>t m. v_raise t), (9, \<lambda>t m. v_eq t), (10, \<lambda>t m. v_gr_bytes t), (11, v_sha256 (sha256 E)),
      (12, \<lambda>t m. v_substr t), (13, \<lambda>t m. v_strlen t), (14, v_concat), (16, v_add), (17, v_subtract), (18, v_multiply),
      (19, \<lambda>t m. v_div t), (20, \<lambda>t m. v_divmod t), (21, \<lambda>t m. v_gr t), (22, \<lambda>t m. v_ash t), (23, \<lambda>t m. v_lsh t),
      (24, v_binop ''logand'' (-1) (\<lambda>x y. x AND y)), (25, v_binop ''logior'' 0 (\<lambda>x y. x OR y)),
      (26, v_binop ''logxor'' 0 (\<lambda>x y. x XOR y)), (27, \<lambda>t m. v_lognot t), (29, v_point_add E),
      (30, \<lambda>t m. v_pubkey_for_exp E t), (32, \<lambda>t m. v_not t), (33, v_any), (34, v_all),
      (48, \<lambda>t m. v_coinid (sha256 E) t), (49, v_g1_subtract E), (50, v_g1_multiply E), (51, \<lambda>t m. v_g1_negate E t),
      (52, v_g2_add E), (53, v_g2_subtract E), (54, v_g2_multiply E), (55, \<lambda>t m. v_g2_negate E t),
      (56, v_map_to_g1 E), (57, v_map_to_g2 E), (58, v_pairing_identity E), (59, v_bls_verify E), (60, v_modpow),
      (61, \<lambda>t m. v_mod t)]"

definition v_chia_lookup :: "('g1, 'g2, 'key, 'sig, 'x) ext_api_scheme \<Rightarrow> u32 \<Rightarrow> u32 \<Rightarrow> v_handler option" where
  "v_chia_lookup E flags op =
     (if op = 62 \<and> flags AND ENABLE_KECCAK_OPS_OUTSIDE_GUARD \<noteq> 0 then Some (v_hash ''keccak256'' 50 160 (keccak256 E))
      else map_of (v_chia_ops E) (unat op))"

definition v_unknown_operator :: "u32 \<Rightarrow> bytes \<Rightarrow> v_handler" where
  "v_unknown_operator flags op t m =
     (if flags AND NO_UNKNOWN_OPS \<noteq> 0 then Inl (CAtom op, ''unimplemented operator'') else v_unknown op t m)"

definition v_chia_op ::
  "('g1, 'g2, 'key, 'sig, 'x) ext_api_scheme \<Rightarrow> u32 \<Rightarrow> bytes \<Rightarrow> clvm \<Rightarrow> Cost \<Rightarrow> OperatorSet \<Rightarrow> (Cost \<times> clvm) vres" where
  "v_chia_op E self_flags op t m ext =
     (let flags = self_flags OR extension_flags ext in
      if length op = 4 then
        (if be_nat op = 0x13d61f00
         then v_secp_verify ''secp256k1_verify'' 1300000 (k1_from_sec1_bytes E) (k1_sig_from_slice E) (k1_verify_prehash E) t m
         else if be_nat op = 0x1c3a8f00
         then v_secp_verify ''secp256r1_verify'' 1850000 (r1_from_sec1_bytes E) (r1_sig_from_slice E) (r1_verify_prehash E) t m
         else v_unknown_operator flags op t m)
      else if length op \<noteq> 1 then v_unknown_operator flags op t m
      else
        (case fits_in_small_atom op of
           None \<Rightarrow> v_unknown_operator flags op t m
         | Some k \<Rightarrow>
             (case v_chia_lookup E flags k of
                Some f \<Rightarrow> f t m
              | None \<Rightarrow> v_unknown_operator flags op t m)))"

text \<open>A handler and its specification.\<close>

definition handler_rel :: "OpHandler \<Rightarrow> v_handler \<Rightarrow> bool" where
  "handler_rel f g \<longleftrightarrow>
     (\<forall>a n m. extends a (snd (f a n m))) \<and> (\<forall>a n t m. alloc_ok a \<longrightarrow> rep a n t \<longrightarrow> refines (g t m) (f a n m))"

lemma find_append: "find P (xs @ ys) = (case find P xs of None \<Rightarrow> find P ys | Some x \<Rightarrow> Some x)"
  by (induction xs) auto

lemma map_of_rel:
  "list_all2 (rel_prod (=) R) xs ys \<Longrightarrow> rel_option R (map_of xs k) (map_of ys k)"
  by (induction rule: list_all2_induct) auto

context ext_laws
begin

lemma chia_ops_rel: "list_all2 (rel_prod (=) handler_rel) (chia_ops E) (v_chia_ops E)"
  by (simp add: chia_ops_def v_chia_ops_def handler_rel_def ext_intros op_refines bigint_laws_axioms sha256_length)

lemma chia_lookup_rel: "rel_option handler_rel (chia_op_lookup E flags op) (v_chia_lookup E flags op)"
  using map_of_rel [OF chia_ops_rel]
  by (auto simp: chia_op_lookup_def v_chia_lookup_def handler_rel_def ext_intros op_refines)

end

lemma extends_unknown_operator: "extends a (snd (unknown_operator a p n flags m))"
  by (simp add: unknown_operator_def ext_intros)

lemma refines_unknown_operator:
  "alloc_ok a \<Longrightarrow> rep a p (CAtom op) \<Longrightarrow> rep a n t \<Longrightarrow> unat m \<le> 2 ^ 62 \<Longrightarrow>
   refines (v_unknown_operator flags op t m) (unknown_operator a p n flags m)"
  by (auto simp: v_unknown_operator_def unknown_operator_def intro: refines_err refines_op_unknown)

lemma unat_opcode: "length op = 4 \<Longrightarrow> unat (shift_in 0 op :: u32) = be_nat op"
  using be_nat_less [of op] by (intro unat_shift_in_u32) simp

context ext_laws
begin

lemma chia_extends: "extends a (snd (chia_dialect_op E flags a p n m ext))"
proof -
  have "extends a (snd (f a n m))" if "chia_op_lookup E fl op = Some f" for fl op f
    using chia_lookup_rel [of fl op] that by (auto simp: option_rel_Some1 handler_rel_def)
  then show ?thesis
    by (auto simp: chia_dialect_op_def Let_def extends_unknown_operator ext_intros intro!: extends_tryR split: option.splits)
qed

lemma chia_respects:
  assumes a: "alloc_ok a" and p: "rep a p (CAtom op)" and n: "rep a n t" and m: "unat m \<le> 2 ^ 62"
  shows "refines (v_chia_op E flags op t m ext) (chia_dialect_op E flags a p n m ext)"
proof -
  define fl where "fl = flags OR extension_flags ext"
  note unknown = refines_unknown_operator [OF a p n m, of fl]
  have len: "atom_len a p = Ok (length op)" "atom_bytes a p = Ok op" "small_number a p = Ok (fits_in_small_atom op)"
    using p by (simp_all add: rep_atom_len rep_atom_bytes rep_small_number)
  consider (four) "length op = 4" | (one) "length op = 1" | (other) "length op \<noteq> 4" "length op \<noteq> 1" by blast
  then show ?thesis
  proof cases
    case four
    have "shift_in 0 op = (0x13d61f00 :: u32) \<longleftrightarrow> be_nat op = 0x13d61f00"
      "shift_in 0 op = (0x1c3a8f00 :: u32) \<longleftrightarrow> be_nat op = 0x1c3a8f00"
      using unat_opcode [OF four] by (simp_all add: word_unat_eq_iff)
    then show ?thesis using four unknown a n
      by (simp add: chia_dialect_op_def v_chia_op_def Let_def len op_refines flip: fl_def)
  next
    case one
    show ?thesis
    proof (cases "fits_in_small_atom op")
      case None
      then show ?thesis using one unknown by (simp add: chia_dialect_op_def v_chia_op_def Let_def len flip: fl_def)
    next
      case (Some k)
      show ?thesis
        using one unknown Some chia_lookup_rel [of fl k] a n
        by (cases "chia_op_lookup E fl k")
           (auto simp: chia_dialect_op_def v_chia_op_def Let_def len option_rel_Some1 handler_rel_def simp flip: fl_def)
    qed
  next
    case other
    then show ?thesis using unknown by (simp add: chia_dialect_op_def v_chia_op_def Let_def len flip: fl_def)
  qed
qed

end

sublocale ext_laws \<subseteq> chia: dialect_laws "chia_dialect E flags" "v_chia_op E flags" 1 2 36 for flags
  by unfold_locales (simp_all add: chia_dialect_def chia_extends chia_respects)

section \<open>The runtime dialects on values\<close>

definition v_opcode_lookup :: "('g1, 'g2, 'key, 'sig, 'x) ext_api_scheme \<Rightarrow> (string \<times> v_handler) list" where
  "v_opcode_lookup E =
     [(''op_if'', \<lambda>t m. v_if t), (''op_cons'', \<lambda>t m. v_cons t), (''op_first'', \<lambda>t m. v_first t), (''op_rest'', \<lambda>t m. v_rest t),
      (''op_listp'', \<lambda>t m. v_listp t), (''op_raise'', \<lambda>t m. v_raise t), (''op_eq'', \<lambda>t m. v_eq t), (''op_sha256'', v_sha256 (sha256 E)),
      (''op_add'', v_add), (''op_subtract'', v_subtract), (''op_multiply'', v_multiply),
      (''op_modpow'', v_modpow), (''op_divmod'', \<lambda>t m. v_divmod t), (''op_mod'', \<lambda>t m. v_mod t),
      (''op_substr'', \<lambda>t m. v_substr t), (''op_strlen'', \<lambda>t m. v_strlen t), (''op_point_add'', v_point_add E),
      (''op_pubkey_for_exp'', \<lambda>t m. v_pubkey_for_exp E t), (''op_concat'', v_concat), (''op_gr'', \<lambda>t m. v_gr t),
      (''op_gr_bytes'', \<lambda>t m. v_gr_bytes t), (''op_logand'', v_binop ''logand'' (-1) (\<lambda>x y. x AND y)),
      (''op_logior'', v_binop ''logior'' 0 (\<lambda>x y. x OR y)), (''op_logxor'', v_binop ''logxor'' 0 (\<lambda>x y. x XOR y)),
      (''op_lognot'', \<lambda>t m. v_lognot t), (''op_ash'', \<lambda>t m. v_ash t), (''op_lsh'', \<lambda>t m. v_lsh t), (''op_not'', \<lambda>t m. v_not t),
      (''op_any'', v_any), (''op_all'', v_all), (''op_div'', \<lambda>t m. v_div t), (''op_g1_subtract'', v_g1_subtract E),
      (''op_g1_multiply'', v_g1_multiply E), (''op_g1_negate'', \<lambda>t m. v_g1_negate E t),
      (''op_g2_add'', v_g2_add E), (''op_g2_subtract'', v_g2_subtract E),
      (''op_g2_multiply'', v_g2_multiply E), (''op_g2_negate'', \<lambda>t m. v_g2_negate E t),
      (''op_g1_map'', v_map_to_g1 E), (''op_g2_map'', v_map_to_g2 E),
      (''op_bls_pairing_identity'', v_pairing_identity E), (''op_bls_verify'', v_bls_verify E),
      (''op_secp256k1_verify'',
        v_secp_verify ''secp256k1_verify'' 1300000 (k1_from_sec1_bytes E) (k1_sig_from_slice E) (k1_verify_prehash E)),
      (''op_secp256r1_verify'',
        v_secp_verify ''secp256r1_verify'' 1850000 (r1_from_sec1_bytes E) (r1_sig_from_slice E) (r1_verify_prehash E))]"

text \<open>The operator a byte is bound to: the last entry for it wins.\<close>

definition v_runtime_lookup :: "('g1, 'g2, 'key, 'sig, 'x) ext_api_scheme \<Rightarrow> (string \<times> bytes) list \<Rightarrow> u8 \<Rightarrow> v_handler option" where
  "v_runtime_lookup E op_map b =
     (case find (\<lambda>(name, idx). idx = [b]) (rev op_map) of
        Some (name, _) \<Rightarrow> map_of (v_opcode_lookup E) name
      | None \<Rightarrow> None)"

definition v_runtime_op ::
  "('g1, 'g2, 'key, 'sig, 'x) ext_api_scheme \<Rightarrow> (string \<times> bytes) list \<Rightarrow> u32 \<Rightarrow> bytes \<Rightarrow> clvm \<Rightarrow> Cost \<Rightarrow> OperatorSet \<Rightarrow> (Cost \<times> clvm) vres" where
  "v_runtime_op E op_map flags op t m ext =
     (case (if length op = 1 then v_runtime_lookup E op_map (op ! 0) else None) of
        Some f \<Rightarrow> f t m
      | None \<Rightarrow> v_unknown_operator flags op t m)"

context ext_laws
begin

lemma opcode_lookup_rel: "list_all2 (rel_prod (=) handler_rel) (opcode_lookup E) (v_opcode_lookup E)"
  by (simp add: opcode_lookup_def v_opcode_lookup_def handler_rel_def ext_intros op_refines bigint_laws_axioms sha256_length)

lemma f_lookup_loop_rel:
  assumes "f_lookup_loop E entries tbl = Ok fs" "length tbl = 256"
  shows "length fs = 256 \<and>
    (case find (\<lambda>(name, idx). idx = [b]) (rev entries) of
       Some (name, _) \<Rightarrow> rel_option handler_rel (fs ! unat b) (map_of (v_opcode_lookup E) name)
     | None \<Rightarrow> fs ! unat b = tbl ! unat b)"
  using assms
proof (induction entries arbitrary: tbl)
  case (Cons e entries)
  obtain name idx where e: "e = (name, idx)" by (cases e)
  show ?case
  proof (cases "length idx = 1")
    case True
    then obtain c where c: "idx = [c]" by (cases idx) auto
    from Cons.prems True e obtain op where op: "opcode_by_name E name = Some op"
      and run: "f_lookup_loop E entries (tbl[unat c := Some op]) = Ok fs" by (auto simp: c split: option.splits)
    have rel: "rel_option handler_rel (Some op) (map_of (v_opcode_lookup E) name)"
      using map_of_rel [OF opcode_lookup_rel, of name] op by (simp add: opcode_by_name_def)
    have "unat c < 256" by simp
    then have "tbl[unat c := Some op] ! unat b = (if c = b then Some op else tbl ! unat b)"
      using Cons.prems(2) by (auto simp: nth_list_update word_unat_eq_iff)
    then show ?thesis
      using Cons.IH [OF run] Cons.prems(2) rel c e
      by (auto simp: find_append split: option.splits if_splits)
  next
    case False
    then have run: "f_lookup_loop E entries tbl = Ok fs" using Cons.prems e by simp
    have "idx \<noteq> [b]" using False by auto
    then show ?thesis using Cons.IH [OF run] Cons.prems(2) e by (auto simp: find_append split: option.splits)
  qed
qed simp

lemma runtime_lookup_rel:
  assumes "f_lookup_for_hashmap E op_map = Ok fs"
  shows "length fs = 256" "rel_option handler_rel (fs ! unat b) (v_runtime_lookup E op_map b)"
proof -
  have l: "f_lookup_loop E op_map (replicate 256 None) = Ok fs" using assms by (simp add: f_lookup_for_hashmap_def)
  have "unat b < 256" by simp
  then show "length fs = 256" "rel_option handler_rel (fs ! unat b) (v_runtime_lookup E op_map b)"
    using f_lookup_loop_rel [OF l, of b] by (auto simp: v_runtime_lookup_def split: option.splits)
qed

lemma runtime_dialect_laws:
  assumes D: "runtime_dialect E op_map (q # qs) (p # ps) flags = Ok D"
  shows "dialect_laws D (v_runtime_op E op_map flags) (ucast q) (ucast p) 36"
proof -
  from D obtain fs where fs: "f_lookup_for_hashmap E op_map = Ok fs"
    and Deq: "D = \<lparr> quote_kw = kw_byte (q # qs), apply_kw = kw_byte (p # ps), softfork_kw = kw_byte [36],
          softfork_extension = (\<lambda>_. DefaultOps), dialect_op = runtime_dialect_op fs flags,
          allow_unknown_ops = (flags AND NO_UNKNOWN_OPS = 0) \<rparr>"
    by (auto simp: runtime_dialect_def bindR_eq_Ok)
  note rel = runtime_lookup_rel [OF fs]
  have handler: "handler_rel f g" if "fs ! unat b = Some f" "v_runtime_lookup E op_map b = Some g" for b f g
    using rel(2) [of b] that by simp
  have ext: "extends a (snd (f a n m))" if "fs ! unat b = Some f" for f a n m and b :: u8
    using rel(2) [of b] that by (auto simp: option_rel_Some1 handler_rel_def)
  show ?thesis
  proof
    show "extends a (snd (dialect_op D a x n m e))" for a x n m e
      using ext rel(1)
      by (auto simp: Deq runtime_dialect_op_def get_idx_eq_Ok ext_intros intro!: extends_tryR split: option.splits if_splits)
  next
    fix a x op n t and m :: Cost and e
    assume a: "alloc_ok a" and x: "rep a x (CAtom op)" and n: "rep a n t" and m: "unat m \<le> 2 ^ 62"
    have unk: "refines (v_unknown_operator flags op t m)
        (if flags AND NO_UNKNOWN_OPS \<noteq> 0 then (err x ''unimplemented operator'', a) else op_unknown a x n m)"
      using refines_unknown_operator [OF a x n m, of flags] by (simp add: unknown_operator_def)
    show "refines (v_runtime_op E op_map flags op t m e) (dialect_op D a x n m e)"
      using unk rel(1) rel(2) [of "op ! 0"] handler [of "op ! 0"] a n
      by (cases "fs ! unat (op ! 0)"; cases "v_runtime_lookup E op_map (op ! 0)")
         (auto simp: Deq runtime_dialect_op_def v_runtime_op_def rep_atom_bytes [OF x] handler_rel_def)
  qed (simp_all add: Deq kw_byte_def)
qed

end

end
