(* ===== verification/RunProgramSim.thy ===== *)
theory RunProgramSim
  imports RunProgram DialectSpec
begin

text \<open>
  The interpreter on values: the same machine as \<open>RunProgram\<close>, with CLVM values in place of
  heap nodes and no allocator. The lemmas show that the heap machine simulates it step by
  step: with the stacks well-formed (each operation finds its operands, each \<open>Apply\<close> an
  operator atom and an environment, each guard a checkpoint the allocator extends), a step
  of the code does what the value machine does, keeps the stacks well-formed, and never
  panics or reports an internal error. Restoring a guard's checkpoint gives back the
  allocator of its entry, in which everything below it on the stacks still has its value.
\<close>

section \<open>The machine on values\<close>

record vctx =
  v_vals :: "clvm list"
  v_envs :: "clvm list"
  v_ops :: "Operation list"
  v_guards :: "(Cost \<times> OperatorSet) list"

definition v_pop :: "vctx \<Rightarrow> (clvm \<times> vctx) vres" where
  "v_pop s = (case v_vals s of
     [] \<Rightarrow> Inl (CAtom [], ''runtime error: value stack empty'')
   | v # vs \<Rightarrow> Inr (v, s\<lparr> v_vals := vs \<rparr>))"

definition v_push :: "vctx \<Rightarrow> clvm \<Rightarrow> vctx vres" where
  "v_push s v =
     (if length (v_vals s) = STACK_SIZE_LIMIT then Inl (v, ''value stack limit reached'')
      else Inr (s\<lparr> v_vals := v # v_vals s \<rparr>))"

definition v_push_env :: "vctx \<Rightarrow> clvm \<Rightarrow> vctx vres" where
  "v_push_env s e =
     (if length (v_envs s) = STACK_SIZE_LIMIT then Inl (e, ''environment stack limit reached'')
      else Inr (s\<lparr> v_envs := e # v_envs s \<rparr>))"

definition v_push_op :: "vctx \<Rightarrow> Operation \<Rightarrow> vctx" where
  "v_push_op s op = s\<lparr> v_ops := op # v_ops s \<rparr>"

definition v_cons_op :: "vctx \<Rightarrow> (Cost \<times> vctx) vres" where
  "v_cons_op s = bindV (v_pop s) (\<lambda>(x, s). bindV (v_pop s) (\<lambda>(y, s). bindV (v_push s (CPair x y)) (\<lambda>s. Inr (0, s))))"

fun v_push_operands :: "vctx \<Rightarrow> clvm \<Rightarrow> (bytes \<times> vctx) vres" where
  "v_push_operands s (CAtom bs) = Inr (bs, s)"
| "v_push_operands s (CPair f r) = bindV (v_push (v_push_op s SwapEval) f) (\<lambda>s. v_push_operands s r)"

definition v_eval_op_atom :: "u32 \<Rightarrow> vctx \<Rightarrow> bytes \<Rightarrow> clvm \<Rightarrow> clvm \<Rightarrow> (Cost \<times> vctx) vres" where
  "v_eval_op_atom q s op args env =
     (if fits_in_small_atom op = Some q then bindV (v_push s args) (\<lambda>s. Inr (20, s))
      else
        bindV (v_push_env s env) (\<lambda>s.
        bindV (v_push (v_push_op s Apply) (CAtom op)) (\<lambda>s.
        bindV (v_push_operands s args) (\<lambda>(bs, s).
        if bs \<noteq> [] then Inl (args, ''bad operand list'')
        else bindV (v_push s (CAtom [])) (\<lambda>s. Inr (1, s))))))"

definition v_path :: "bytes \<Rightarrow> clvm \<Rightarrow> (Cost \<times> clvm) vres" where
  "v_path bs env =
     (if be_nat bs = 0 then Inr (44 + 4 * of_nat (length bs), CAtom [])
      else (case cpath (be_nat bs) env of
        Inr u \<Rightarrow> Inr (44 + 4 * of_nat (first_non_zero bs) + 4 * of_nat (ubits (be_nat bs) - 1), u)
      | Inl u \<Rightarrow> Inl (u, ''path into atom'')))"

definition v_eval :: "u32 \<Rightarrow> vctx \<Rightarrow> clvm \<Rightarrow> clvm \<Rightarrow> (Cost \<times> vctx) vres" where
  "v_eval q s prog env =
     (case prog of
        CAtom bs \<Rightarrow> bindV (v_path bs env) (\<lambda>(c, v). bindV (v_push s v) (\<lambda>s. Inr (c, s)))
      | CPair (CAtom op) args \<Rightarrow> v_eval_op_atom q s op args env
      | CPair (CPair x y) args \<Rightarrow>
          bindV (v_args 1 (CPair x y) ''in the ((X)...) syntax, the inner list'') (\<lambda>ts.
          if is_cpair (ts ! 0) then Inl (prog, ''in ((X)...) syntax X must be lone atom'')
          else
            bindV (v_push_env s env) (\<lambda>s. bindV (v_push s x) (\<lambda>s. bindV (v_push s args) (\<lambda>s.
            Inr (90, v_push_op s Apply))))))"

definition v_swap_eval :: "u32 \<Rightarrow> vctx \<Rightarrow> (Cost \<times> vctx) vres" where
  "v_swap_eval q s =
     bindV (v_pop s) (\<lambda>(v2, s). bindV (v_pop s) (\<lambda>(prog, s).
     case v_envs s of
       [] \<Rightarrow> Inl (prog, ''runtime error: env stack empty'')
     | env # _ \<Rightarrow> bindV (v_push s v2) (\<lambda>s. v_eval q (v_push_op s Cons) prog env)))"

definition v_softfork_args :: "dialect \<Rightarrow> clvm \<Rightarrow> (OperatorSet \<times> clvm \<times> clvm) vres" where
  "v_softfork_args D args =
     bindV (v_args 4 args ''softfork'') (\<lambda>ts.
     bindV (v_uint 4 ''softfork'' (ts ! 1)) (\<lambda>e.
     let ext = softfork_extension D (ucast e) in
     if ext = DefaultOps then Inl (args, ''unknown softfork extension'') else Inr (ext, ts ! 2, ts ! 3)))"

definition v_first_arg :: "clvm \<Rightarrow> clvm vres" where
  "v_first_arg t = (case t of CPair l r \<Rightarrow> Inr l | CAtom bs \<Rightarrow> Inl (t, ''first of non-cons''))"

definition v_add_cost :: "Cost \<Rightarrow> (Cost \<times> vctx) vres \<Rightarrow> (Cost \<times> vctx) vres" where
  "v_add_cost extra m = bindV m (\<lambda>(c, s). Inr (c + extra, s))"

type_synonym v_op = "bytes \<Rightarrow> clvm \<Rightarrow> Cost \<Rightarrow> OperatorSet \<Rightarrow> (Cost \<times> clvm) vres"

definition v_extensions :: "vctx \<Rightarrow> OperatorSet" where
  "v_extensions s = (case v_guards s of (_, ext) # _ \<Rightarrow> ext | [] \<Rightarrow> DefaultOps)"

definition v_enter_guard :: "dialect \<Rightarrow> u32 \<Rightarrow> vctx \<Rightarrow> clvm \<Rightarrow> Cost \<Rightarrow> Cost \<Rightarrow> (Cost \<times> vctx) vres" where
  "v_enter_guard D q s args expected current_cost =
     (case v_softfork_args D args of
        Inl e \<Rightarrow>
          if allow_unknown_ops D then bindV (v_push s (CAtom [])) (\<lambda>s. Inr (expected, s)) else Inl e
      | Inr (ext, prog, env) \<Rightarrow>
          let s = s\<lparr> v_guards := (current_cost + expected, ext) # v_guards s \<rparr> in
          v_add_cost 140 (v_eval q (v_push_op s ExitGuard) prog env))"

definition v_softfork :: "dialect \<Rightarrow> u32 \<Rightarrow> vctx \<Rightarrow> clvm \<Rightarrow> Cost \<Rightarrow> Cost \<Rightarrow> (Cost \<times> vctx) vres" where
  "v_softfork D q s args current_cost max_cost =
     bindV (v_first_arg args) (\<lambda>f.
     bindV (v_uint 8 ''softfork'' f) (\<lambda>expected.
     if expected > max_cost then Inl (args, ''cost exceeded'')
     else if expected = 0 then Inl (args, ''cost must be > 0'')
     else v_enter_guard D q s args expected current_cost))"

definition v_apply :: "dialect \<Rightarrow> v_op \<Rightarrow> u32 \<Rightarrow> u32 \<Rightarrow> u32 \<Rightarrow> vctx \<Rightarrow> Cost \<Rightarrow> Cost \<Rightarrow> (Cost \<times> vctx) vres" where
  "v_apply D vop q ak sk s current_cost max_cost =
     bindV (v_pop s) (\<lambda>(args, s). bindV (v_pop s) (\<lambda>(opv, s).
     case v_envs s of
       [] \<Rightarrow> Inl (opv, ''runtime error: env stack empty'')
     | _ # envs \<Rightarrow>
       let s = s\<lparr> v_envs := envs \<rparr>; op = (case opv of CAtom bs \<Rightarrow> bs | CPair _ _ \<Rightarrow> []) in
       if fits_in_small_atom op = Some ak then
         bindV (v_args 2 args ''apply'') (\<lambda>ts. v_add_cost 90 (v_eval q s (ts ! 0) (ts ! 1)))
       else if fits_in_small_atom op = Some sk then v_softfork D q s args current_cost max_cost
       else
         bindV (vop op args max_cost (v_extensions s)) (\<lambda>(c, v).
         bindV (v_push s v) (\<lambda>s. Inr (c, s)))))"

definition v_exit_guard :: "vctx \<Rightarrow> Cost \<Rightarrow> (Cost \<times> vctx) vres" where
  "v_exit_guard s current_cost =
     (case v_guards s of
        [] \<Rightarrow> Inl (CAtom [], ''internal error. exiting a softfork that's already been popped'')
      | (expected, _) # gs \<Rightarrow>
        if current_cost \<noteq> expected then Inl (CAtom [], ''softfork specified cost mismatch'')
        else
          bindV (v_pop (s\<lparr> v_guards := gs \<rparr>)) (\<lambda>(_, s).
          bindV (v_push s (CAtom [])) (\<lambda>s. Inr (0, s))))"

definition v_effective :: "vctx \<Rightarrow> Cost \<Rightarrow> Cost" where
  "v_effective s max_cost = (case v_guards s of (e, _) # _ \<Rightarrow> e | [] \<Rightarrow> max_cost)"

fun v_augment :: "clvm \<Rightarrow> 'a vres \<Rightarrow> 'a vres" where
  "v_augment mv (Inl (t, msg)) = Inl (if msg \<noteq> ''cost exceeded'' then t else mv, msg)"
| "v_augment mv (Inr x) = Inr x"

definition v_iter :: "dialect \<Rightarrow> v_op \<Rightarrow> u32 \<Rightarrow> u32 \<Rightarrow> u32 \<Rightarrow> Cost \<Rightarrow> Cost \<Rightarrow> vctx \<Rightarrow> (Cost \<times> vctx) option vres" where
  "v_iter D vop q ak sk max_cost cost s =
     (let mv = CAtom (int_bytes (uint max_cost)); effective = v_effective s max_cost in
      if cost > effective then Inl (mv, ''cost exceeded'')
      else
        (case v_ops s of
           [] \<Rightarrow> Inr None
         | op # ops \<Rightarrow>
           let s = s\<lparr> v_ops := ops \<rparr> in
           bindV (case op of
               Apply \<Rightarrow> v_augment mv (v_apply D vop q ak sk s cost (effective - cost))
             | ExitGuard \<Rightarrow> v_exit_guard s cost
             | Cons \<Rightarrow> v_cons_op s
             | SwapEval \<Rightarrow> v_augment mv (v_swap_eval q s)) (\<lambda>(c, s).
           Inr (Some (cost + c, s)))))"

section \<open>Well-formed stacks\<close>

text \<open>
  \<open>stk\<close> relates the stacks of the two machines when one more value is about to be pushed.
  \<open>mp\<close> is the node that holds the cost limit, of value \<open>mv\<close>.
\<close>

fun stk :: "NodePtr \<Rightarrow> clvm \<Rightarrow> Allocator \<Rightarrow> Operation list \<Rightarrow> NodePtr list \<Rightarrow> NodePtr list \<Rightarrow> SoftforkGuard list \<Rightarrow>
    clvm list \<Rightarrow> clvm list \<Rightarrow> (Cost \<times> OperatorSet) list \<Rightarrow> bool" where
  "stk mp mv a [] vs es gs Vs Es Gs \<longleftrightarrow> vs = [] \<and> es = [] \<and> gs = [] \<and> Vs = [] \<and> Es = [] \<and> Gs = []"
| "stk mp mv a (Cons # ops) vs es gs Vs Es Gs \<longleftrightarrow>
     (\<exists>v vs' V Vs'. vs = v # vs' \<and> Vs = V # Vs' \<and> rep a v V \<and> stk mp mv a ops vs' es gs Vs' Es Gs)"
| "stk mp mv a (SwapEval # ops) vs es gs Vs Es Gs \<longleftrightarrow>
     (\<exists>v vs' V Vs'. vs = v # vs' \<and> Vs = V # Vs' \<and> rep a v V \<and> stk mp mv a ops vs' es gs Vs' Es Gs)
     \<and> (\<exists>e es' E Es'. es = e # es' \<and> Es = E # Es' \<and> rep a e E)"
| "stk mp mv a (Apply # ops) vs es gs Vs Es Gs \<longleftrightarrow>
     (\<exists>v vs' op Vs' e es' E Es'. vs = v # vs' \<and> Vs = CAtom op # Vs' \<and> rep a v (CAtom op) \<and>
        es = e # es' \<and> Es = E # Es' \<and> rep a e E \<and> stk mp mv a ops vs' es' gs Vs' Es' Gs)"
| "stk mp mv a (ExitGuard # ops) vs es gs Vs Es Gs \<longleftrightarrow>
     (\<exists>g gs' Gs' a0. gs = g # gs' \<and> Gs = (expected_cost g, operator_set g) # Gs' \<and>
        allocator_state g = checkpoint a0 \<and> extends a0 a \<and> alloc_ok a0 \<and> rep a0 mp mv \<and>
        stk mp mv a0 ops vs es gs' Vs Es Gs')"

lemma stk_mono: "extends a a' \<Longrightarrow> stk mp mv a ops vs es gs Vs Es Gs \<Longrightarrow> stk mp mv a' ops vs es gs Vs Es Gs"
proof (induction ops arbitrary: vs es gs Vs Es Gs)
  case (Cons op ops)
  note ext = rep_extends [OF _ Cons.prems(1)] extends_trans [OF _ Cons.prems(1)]
  show ?case
  proof (cases op)
    case Apply
    with Cons.prems show ?thesis using Cons.IH [OF Cons.prems(1)] ext(1) by fastforce
  next
    case Cons
    with Cons.prems show ?thesis using Cons.IH [OF Cons.prems(1)] ext(1) by fastforce
  next
    case ExitGuard
    with Cons.prems obtain g gs' Gs' a0 where
      "gs = g # gs'" "Gs = (expected_cost g, operator_set g) # Gs'" "allocator_state g = checkpoint a0"
      "extends a0 a" "alloc_ok a0" "rep a0 mp mv" "stk mp mv a0 ops vs es gs' Vs Es Gs'" by auto
    with ext(2) ExitGuard show ?thesis unfolding ExitGuard stk.simps by blast
  next
    case SwapEval
    with Cons.prems show ?thesis using Cons.IH [OF Cons.prems(1)] ext(1) by fastforce
  qed
qed simp

lemma stk_length:
  "stk mp mv a ops vs es gs Vs Es Gs \<Longrightarrow> length vs = length Vs \<and> length es = length Es \<and>
     Gs = map (\<lambda>g. (expected_cost g, operator_set g)) gs"
proof (induction ops arbitrary: a vs es gs Vs Es Gs)
  case (Cons op ops)
  then show ?case by (cases op) fastforce+
qed simp

definition pend :: "NodePtr \<Rightarrow> clvm \<Rightarrow> RunProgramContext \<Rightarrow> vctx \<Rightarrow> bool" where
  "pend mp mv self s \<longleftrightarrow>
     stk mp mv (allocator self) (op_stack self) (val_stack self) (env_stack self) (softfork_stack self)
       (v_vals s) (v_envs s) (v_guards s)
     \<and> v_ops s = op_stack self \<and> alloc_ok (allocator self) \<and> rep (allocator self) mp mv"

definition full :: "NodePtr \<Rightarrow> clvm \<Rightarrow> RunProgramContext \<Rightarrow> vctx \<Rightarrow> bool" where
  "full mp mv self s \<longleftrightarrow>
     (\<exists>v vs V Vs. val_stack self = v # vs \<and> v_vals s = V # Vs \<and> rep (allocator self) v V \<and>
        pend mp mv (self\<lparr> val_stack := vs \<rparr>) (s\<lparr> v_vals := Vs \<rparr>))"

section \<open>Steps that do not allocate\<close>

definition vsim :: "Allocator \<Rightarrow> ('b \<Rightarrow> RunProgramContext \<Rightarrow> 'a \<Rightarrow> bool) \<Rightarrow> 'a vres \<Rightarrow> 'b run \<Rightarrow> bool" where
  "vsim a Q sp m \<longleftrightarrow>
     allocator (snd m) = a \<and>
     (case fst m of
        Ok x \<Rightarrow> \<exists>y. sp = Inr y \<and> Q x (snd m) y
      | Err e \<Rightarrow> \<exists>t. sp = Inl (t, err_msg e) \<and> rep a (err_node e) t
      | Panic _ \<Rightarrow> False)"

lemma vsim_Ok: "allocator self = a \<Longrightarrow> Q x self y \<Longrightarrow> vsim a Q (Inr y) (Ok x, self)"
  by (simp add: vsim_def)

lemma vsim_err: "allocator self = a \<Longrightarrow> rep a n t \<Longrightarrow> vsim a Q (Inl (t, s)) (err n s, self)"
  by (simp add: vsim_def err_def)

lemma vsim_Err: "allocator self = a \<Longrightarrow> rep a n t \<Longrightarrow> vsim a Q (Inl (t, s)) (Err (EvalErr n s), self)"
  by (simp add: vsim_def)

lemma vsim_tryS:
  assumes "vsim a P sp m" "\<And>x self y. P x self y \<Longrightarrow> allocator self = a \<Longrightarrow> vsim a Q (g y) (f x self)"
  shows "vsim a Q (bindV sp g) (tryS m f)"
proof (cases m)
  case (Pair r self)
  show ?thesis
  proof (cases r)
    case (Ok x)
    then obtain y where y: "sp = Inr y" "P x self y" and a: "allocator self = a"
      using assms(1) Pair by (auto simp: vsim_def)
    from assms(2) [OF y(2) a] show ?thesis unfolding Pair Ok y(1) by simp
  qed (use assms(1) Pair in \<open>auto simp: vsim_def\<close>)
qed

lemma vsim_err_tryS: "allocator self = a \<Longrightarrow> rep a n t \<Longrightarrow> vsim a Q (Inl (t, s)) (tryS (err n s, self) f)"
  by (simp add: vsim_def err_def)

lemma vsim_tryR:
  assumes "reads a P sp m" "allocator self = a" "\<And>x y. sp = Inr x \<Longrightarrow> P y x \<Longrightarrow> vsim a Q (g x) (f y)"
  shows "vsim a Q (bindV sp g) (tryR m self f)"
proof (cases sp)
  case (Inl e)
  then show ?thesis using assms(1,2) by (cases e) (auto simp: vsim_def reads_def)
next
  case (Inr x)
  then show ?thesis using assms(1,3) by (auto simp: reads_def)
qed

lemma vsim_push:
  assumes "length (val_stack self) = length (v_vals s)" "allocator self = a" "rep a n t"
    "vsim a Q (g (s\<lparr> v_vals := t # v_vals s \<rparr>)) (f () (self\<lparr> val_stack := n # val_stack self \<rparr>))"
  shows "vsim a Q (bindV (v_push s t) g) (tryS (push self n) f)"
  using assms by (auto simp: v_push_def push_def intro: vsim_err_tryS)

lemma vsim_push_env:
  assumes "length (env_stack self) = length (v_envs s)" "allocator self = a" "rep a n t"
    "vsim a Q (g (s\<lparr> v_envs := t # v_envs s \<rparr>)) (f () (self\<lparr> env_stack := n # env_stack self \<rparr>))"
  shows "vsim a Q (bindV (v_push_env s t) g) (tryS (push_env self n) f)"
  using assms by (auto simp: v_push_env_def push_env_def intro: vsim_err_tryS)

lemma pend_lengths:
  "pend mp mv self s \<Longrightarrow> length (val_stack self) = length (v_vals s)"
  "pend mp mv self s \<Longrightarrow> length (env_stack self) = length (v_envs s)"
  by (auto simp: pend_def dest: stk_length)

lemma vsim_push_operands:
  assumes "pend mp mv self s" "allocator self = a" "rep a n t" "node_below a k n"
    "env_stack self = e # es" "v_envs s = E # Es" "rep a e E"
  shows "vsim a (\<lambda>n' self' (bs, s'). rep a n' (CAtom bs) \<and> pend mp mv self' s')
    (v_push_operands s t) (push_operands (Suc k) self n)"
  using assms
proof (induction t arbitrary: self s n k)
  case (CAtom bs)
  then show ?case by (auto simp: rep_sexp_atom intro!: vsim_Ok)
next
  case (CPair l r)
  note a = CPair.prems(2) and n = CPair.prems(3)
  obtain k' where k: "k = Suc k'" using rep_pair_idx [OF n CPair.prems(4)] by (cases k) auto
  have ok: "alloc_ok a" using CPair.prems(1) a by (simp add: pend_def)
  have "node_below a k' (prest a n)"
    using rep_pair_below(2) [OF ok n] rep_pair_idx [OF n CPair.prems(4)] k
    by (auto simp: node_below_def split: option.splits ObjectType.splits)
  moreover have "pend mp mv (self\<lparr> op_stack := SwapEval # op_stack self, val_stack := pfirst a n # val_stack self \<rparr>)
      (s\<lparr> v_ops := SwapEval # v_ops s, v_vals := l # v_vals s \<rparr>)"
    using CPair.prems rep_pfirst [OF n] by (auto simp: pend_def)
  ultimately have "vsim a (\<lambda>n' self' (bs, s'). rep a n' (CAtom bs) \<and> pend mp mv self' s')
      (v_push_operands (s\<lparr> v_ops := SwapEval # v_ops s, v_vals := l # v_vals s \<rparr>) r)
      (push_operands k (self\<lparr> op_stack := SwapEval # op_stack self, val_stack := pfirst a n # val_stack self \<rparr>) (prest a n))"
    unfolding k by (intro CPair.IH(2)) (use CPair.prems rep_prest [OF n] in auto)
  then show ?case
    using n a pend_lengths [OF CPair.prems(1)]
    by (auto simp: rep_sexp_pair v_push_op_def push_op_def intro!: vsim_push rep_pfirst)
qed

lemma reads_path:
  assumes p: "rep a p (CAtom bs)" and e: "rep a env t"
  shows "reads a (\<lambda>r (c, v). red_cost r = c \<and> rep a (red_node r) v) (v_path bs t)
    (bindR (node a p) (\<lambda>v. case v of
        VBuffer buf \<Rightarrow> traverse_path a buf env
      | VU32 val \<Rightarrow> traverse_path_fast a val env
      | VPair _ _ \<Rightarrow> Panic ''expected atom, got pair''))"
proof -
  have path: "reads a (\<lambda>r (c, v). red_cost r = c \<and> rep a (red_node r) v) (v_path bs t) (traverse_path a bs env)"
    using rep_walk [OF e, of "be_nat bs"]
    by (auto simp: traverse_path_walk v_path_def err_def split: sum.splits intro!: reads_Err reads_Ok)
  from p show ?thesis
  proof (cases rule: rep_atom_cases)
    case buf
    then show ?thesis using path by (simp add: rep_node_buffer [OF p])
  next
    case small
    then show ?thesis using path rep_small_bytes [OF p] by (simp add: rep_node_small traverse_path_fast_eq)
  qed
qed

definition eval_done :: "NodePtr \<Rightarrow> clvm \<Rightarrow> Cost \<Rightarrow> RunProgramContext \<Rightarrow> Cost \<times> vctx \<Rightarrow> bool" where
  "eval_done mp mv c self r \<longleftrightarrow> fst r = c \<and> full mp mv self (snd r)"

lemma eval_done_push:
  assumes "pend mp mv self s" "allocator self = a" "rep a n t"
  shows "vsim a (eval_done mp mv) (bindV (v_push s t) (\<lambda>s. Inr (c, s))) (tryS (push self n) (\<lambda>_ self. (Ok c, self)))"
proof (rule vsim_push [OF pend_lengths(1) [OF assms(1)] assms(2,3)])
  show "vsim a (eval_done mp mv) (Inr (c, s\<lparr> v_vals := t # v_vals s \<rparr>)) (Ok c, self\<lparr> val_stack := n # val_stack self \<rparr>)"
    using assms by (auto simp: eval_done_def full_def pend_def intro!: vsim_Ok)
qed

lemma vsim_eval_op_atom:
  assumes q: "quote_kw D = Ok q" and pend: "pend mp mv self s" and a: "allocator self = a"
    and op: "rep a p (CAtom op)" and n: "rep a n t" and e: "rep a env E"
  shows "vsim a (eval_done mp mv) (v_eval_op_atom q s op t E) (eval_op_atom D self p n env)"
proof (cases "fits_in_small_atom op = Some q")
  case True
  then show ?thesis
    using eval_done_push [OF pend a n] op a q
    by (simp add: v_eval_op_atom_def eval_op_atom_def rep_small_number run_costs)
next
  case False
  define self' where "self' = self\<lparr> env_stack := env # env_stack self, op_stack := Apply # op_stack self, val_stack := p # val_stack self \<rparr>"
  define s' where "s' = s\<lparr> v_envs := E # v_envs s, v_ops := Apply # v_ops s, v_vals := CAtom op # v_vals s \<rparr>"
  have p': "pend mp mv self' s'" using pend op e a by (auto simp: pend_def self'_def s'_def)
  have ops: "vsim a (\<lambda>n' self' (bs, s'). rep a n' (CAtom bs) \<and> pend mp mv self' s')
      (v_push_operands s' t) (push_operands (Suc (length (pair_vec a))) self' n)"
    by (rule vsim_push_operands [OF p' _ n rep_node_ok [OF n], where es = "env_stack self" and Es = "v_envs s"])
       (use a e in \<open>auto simp: self'_def s'_def\<close>)
  have rest: "vsim a (eval_done mp mv)
      (bindV (v_push_operands s' t) (\<lambda>(bs, s). if bs \<noteq> [] then Inl (t, ''bad operand list'')
         else bindV (v_push s (CAtom [])) (\<lambda>s. Inr (1, s))))
      (tryS (push_operands (Suc (length (pair_vec a))) self' n) (\<lambda>operands self.
       tryR (atom_len (allocator self) operands) self (\<lambda>len.
       if len \<noteq> 0 then (err n ''bad operand list'', self)
       else tryS (push self (nil (allocator self))) (\<lambda>_ self. (Ok OP_COST, self)))))"
    by (rule vsim_tryS [OF ops])
       (use n in \<open>auto simp: rep_atom_len run_costs intro!: vsim_err eval_done_push\<close>)
  show ?thesis
    using False pend_lengths [OF pend] a op e q rest
    by (auto simp: v_eval_op_atom_def eval_op_atom_def rep_small_number v_push_op_def push_op_def self'_def s'_def
        intro!: vsim_push vsim_push_env)
qed

text \<open>The \<open>((X) ...)\<close> form: the tail of \<open>eval_pair\<close> once the operator is known to be a pair.\<close>

lemma vsim_eval_inner:
  assumes pend: "pend mp mv self s" and a: "allocator self = a" and n: "rep a n t"
    and f: "rep a (pfirst a n) (CPair x y)" and r: "rep a (prest a n) args" and e: "rep a env E"
  shows "vsim a (eval_done mp mv)
    (bindV (v_args 1 (CPair x y) ''in the ((X)...) syntax, the inner list'') (\<lambda>ts.
        if is_cpair (ts ! 0) then Inl (t, ''in ((X)...) syntax X must be lone atom'')
        else
          bindV (v_push_env s E) (\<lambda>s. bindV (v_push s x) (\<lambda>s. bindV (v_push s args) (\<lambda>s.
          Inr (90, v_push_op s Apply))))))
    (tryR (get_args 1 a (pfirst a n) ''in the ((X)...) syntax, the inner list'') self (\<lambda>args.
           let inner = args ! 0 in
           tryR (sexp a inner) self (\<lambda>u. case u of
             SPair _ _ \<Rightarrow> (err n ''in ((X)...) syntax X must be lone atom'', self)
           | SAtom \<Rightarrow>
               tryS (push_env self env) (\<lambda>_ self.
               tryS (push self (pfirst a (pfirst a n))) (\<lambda>_ self.
               tryS (push self (prest a n)) (\<lambda>_ self.
               (Ok APPLY_COST, push_op self Apply)))))))"
proof (rule vsim_tryR [OF reads_get_args [OF f] a])
  fix ts ns assume sp: "v_args 1 (CPair x y) ''in the ((X)...) syntax, the inner list'' = Inr ts"
    and ns: "list_all2 (rep a) ns ts"
  have ts: "ts = [x]" using sp by (cases y) (auto simp: v_args_def split: if_splits)
  then obtain m where m: "ns = [m]" "rep a m x" using ns by (auto simp: list_all2_Cons2)
  have x: "rep a (pfirst a (pfirst a n)) x" by (rule rep_pfirst [OF f])
  show "vsim a (eval_done mp mv)
      (if is_cpair (ts ! 0) then Inl (t, ''in ((X)...) syntax X must be lone atom'')
       else bindV (v_push_env s E) (\<lambda>s. bindV (v_push s x) (\<lambda>s. bindV (v_push s args) (\<lambda>s.
        Inr (90, v_push_op s Apply)))))
      (let inner = ns ! 0 in
         tryR (sexp a inner) self (\<lambda>u. case u of
           SPair _ _ \<Rightarrow> (err n ''in ((X)...) syntax X must be lone atom'', self)
         | SAtom \<Rightarrow>
             tryS (push_env self env) (\<lambda>_ self.
             tryS (push self (pfirst a (pfirst a n))) (\<lambda>_ self.
             tryS (push self (prest a n)) (\<lambda>_ self.
             (Ok APPLY_COST, push_op self Apply))))))"
  proof (cases x)
    case (CPair u v)
    then show ?thesis using m n a ts by (auto simp: is_cpair_def rep_sexp_pair intro: vsim_err)
  next
    case (CAtom op)
    then show ?thesis using m ts x pend pend_lengths [OF pend] a e r
      by (auto simp: is_cpair_def rep_sexp_atom run_costs eval_done_def full_def pend_def v_push_op_def push_op_def
          intro!: vsim_push vsim_push_env vsim_Ok)
  qed
qed

lemma vsim_eval_pair:
  assumes q: "quote_kw D = Ok q" and pend: "pend mp mv self s" and a: "allocator self = a"
    and n: "rep a n t" and e: "rep a env E"
  shows "vsim a (eval_done mp mv) (v_eval q s t E) (eval_pair D self n env)"
proof (cases t)
  case (CAtom bs)
  then have n': "rep a n (CAtom bs)" using n by simp
  show ?thesis unfolding CAtom v_eval_def eval_pair_def a
    using reads_path [OF n' e]
    by (auto simp: rep_sexp_atom [OF n'] a intro!: vsim_tryR eval_done_push pend)
next
  case (CPair f args)
  then have n': "rep a n (CPair f args)" using n by simp
  note f = rep_pfirst [OF n'] and r = rep_prest [OF n']
  show ?thesis
  proof (cases f)
    case (CAtom op)
    then show ?thesis
      using vsim_eval_op_atom [OF q pend a _ r e] f CPair
      by (simp add: v_eval_def eval_pair_def a rep_sexp_pair [OF n'] rep_sexp_atom)
  next
    case inner: (CPair x y)
    then have f': "rep a (pfirst a n) (CPair x y)" using f by simp
    show ?thesis using vsim_eval_inner [OF pend a n f' r e]
      unfolding CPair inner
      by (simp add: v_eval_def eval_pair_def a rep_sexp_pair [OF n'] rep_sexp_pair [OF f'] CPair inner)
  qed
qed

section \<open>Steps of the loop\<close>

text \<open>
  The outcome of a step, as long as the byte vector stays in the range of a \<open>u32\<close>: what the
  value machine says, or one of the allocator's resource errors; never a panic. The node of
  the cost limit keeps its value, which \<open>augment_cost_errors\<close> relies on.
\<close>

definition osim :: "NodePtr \<Rightarrow> clvm \<Rightarrow> ('b \<Rightarrow> RunProgramContext \<Rightarrow> 'a \<Rightarrow> bool) \<Rightarrow> 'a vres \<Rightarrow> 'b run \<Rightarrow> bool" where
  "osim mp mv Q sp m \<longleftrightarrow>
     (heap_ok (allocator (snd m)) \<longrightarrow>
      rep (allocator (snd m)) mp mv \<and>
      (case fst m of
         Ok x \<Rightarrow> \<exists>y. sp = Inr y \<and> Q x (snd m) y
       | Err e \<Rightarrow> \<exists>t. (sp = Inl (t, err_msg e) \<or> (t, err_msg e) \<in> alloc_msgs) \<and> rep (allocator (snd m)) (err_node e) t
       | Panic _ \<Rightarrow> False))"

lemma vsim_osim: "vsim a Q sp m \<Longrightarrow> rep a mp mv \<Longrightarrow> osim mp mv Q sp m"
  by (auto simp: vsim_def osim_def split: outcome.splits)

lemma vsim_weaken: "vsim a P sp m \<Longrightarrow> (\<And>x self y. P x self y \<Longrightarrow> Q x self y) \<Longrightarrow> vsim a Q sp m"
  unfolding vsim_def by (cases "fst m") auto

lemma vsim_add_cost:
  "vsim a (eval_done mp mv) sp m \<Longrightarrow> vsim a (eval_done mp mv) (v_add_cost x sp) (add_cost x m)"
  by (cases m; cases "fst m") (auto simp: v_add_cost_def vsim_def eval_done_def)

lemma osim_augment:
  "osim mp mv Q sp m \<Longrightarrow> osim mp mv Q (v_augment mv sp) (augment_run mp m)"
proof (cases m; cases "fst m")
  fix r self assume m: "m = (r, self)" and o: "osim mp mv Q sp m"
  { fix x assume "fst m = Ok x" then show ?thesis using m o by (auto simp: osim_def augment_cost_errors_def) }
  { fix p assume "fst m = Panic p" then show ?thesis using m o by (auto simp: osim_def augment_cost_errors_def) }
  { fix e assume "fst m = Err e"
    then show ?thesis using m o by (cases e) (auto simp: osim_def augment_cost_errors_def alloc_msgs_def) }
qed

lemma osim_alloc:
  assumes "safe P R (fst m, allocator (snd m))" "m = lift_alloc self m'"
    "rep (allocator self) mp mv" "extends (allocator self) (snd m')"
    "\<And>t s. (t, s) \<in> R \<Longrightarrow> sp = Inl (t, s) \<or> (t, s) \<in> alloc_msgs"
    "\<And>x a. m' = (Ok x, a) \<Longrightarrow> alloc_ok a \<Longrightarrow> P a x \<Longrightarrow> osim mp mv Q sp (f x (self\<lparr> allocator := a \<rparr>))"
    "\<And>x self. allocator (snd (f x self)) = allocator self"
  shows "osim mp mv Q sp (tryS m f)"
proof (cases m')
  case (Pair r a)
  then have m: "m = (r, self\<lparr> allocator := a \<rparr>)" using assms(2) by simp
  have rep: "rep a mp mv" using rep_extends [OF assms(3,4)] Pair by simp
  show ?thesis
  proof (cases r)
    case (Ok x)
    show ?thesis
    proof (cases "heap_ok a")
      case True
      then have "alloc_ok a" "P a x" using assms(1) m Ok by (auto simp: safe_def)
      then show ?thesis using assms(6) Pair Ok m by simp
    next
      case False
      then show ?thesis using assms(7) m Ok by (simp add: osim_def)
    qed
  next
    case (Err e)
    then show ?thesis using assms(1,5) m rep by (fastforce simp: osim_def safe_def)
  next
    case (Panic p)
    then show ?thesis using assms(1) m by (auto simp: osim_def safe_def)
  qed
qed

lemma osim_cons_op:
  assumes "full mp mv (self\<lparr> op_stack := Cons # op_stack self \<rparr>) (s\<lparr> v_ops := Cons # v_ops s \<rparr>)"
  shows "osim mp mv (eval_done mp mv) (v_cons_op s) (cons_op self)"
proof -
  let ?a = "allocator self"
  obtain x y vs X Y Vs where
    st: "val_stack self = x # y # vs" "v_vals s = X # Y # Vs" "rep ?a x X" "rep ?a y Y"
      "stk mp mv ?a (op_stack self) vs (env_stack self) (softfork_stack self) Vs (v_envs s) (v_guards s)"
      "v_ops s = op_stack self" and ok: "alloc_ok ?a" "rep ?a mp mv"
    using assms by (auto simp: full_def pend_def)
  have len: "length vs = length Vs" using stk_length [OF st(5)] by simp
  have pair: "safe (\<lambda>a' p. extends ?a a' \<and> rep a' p (CPair X Y)) alloc_msgs (new_pair ?a x y)"
    by (rule safe_new_pair [OF ok(1) st(3,4)]) (simp add: alloc_msgs_def)
  let ?self = "self\<lparr> val_stack := vs \<rparr>" and ?s = "s\<lparr> v_vals := Vs \<rparr>"
  have "osim mp mv (eval_done mp mv) (bindV (v_push ?s (CPair X Y)) (\<lambda>s. Inr (0, s)))
      (tryS (lift_alloc ?self (new_pair ?a x y)) (\<lambda>p self. tryS (push self p) (\<lambda>_ self. (Ok 0, self))))"
  proof (rule osim_alloc [where m' = "new_pair ?a x y" and self = ?self, OF _ refl])
    show "safe (\<lambda>a' p. extends ?a a' \<and> rep a' p (CPair X Y)) alloc_msgs
        (fst (lift_alloc ?self (new_pair ?a x y)), allocator (snd (lift_alloc ?self (new_pair ?a x y))))"
      using pair by (cases "new_pair ?a x y") simp
    fix p a' assume a': "alloc_ok a'" "extends ?a a' \<and> rep a' p (CPair X Y)"
    have "pend mp mv (?self\<lparr> allocator := a' \<rparr>) ?s"
      using st ok a' by (auto simp: pend_def intro: stk_mono rep_extends)
    then show "osim mp mv (eval_done mp mv) (bindV (v_push ?s (CPair X Y)) (\<lambda>s. Inr (0, s)))
        (tryS (push (?self\<lparr> allocator := a' \<rparr>) p) (\<lambda>_ self. (Ok 0, self)))"
      using a' ok by (intro vsim_osim [of a'] eval_done_push) (auto intro: rep_extends)
  qed (use ok in \<open>auto simp: ext_intros push_def err_def\<close>)
  then show ?thesis using st by (simp add: v_cons_op_def cons_op_def v_pop_def pop_def)
qed

lemma osim_swap_eval:
  assumes "quote_kw D = Ok q" "full mp mv (self\<lparr> op_stack := SwapEval # op_stack self \<rparr>) (s\<lparr> v_ops := SwapEval # v_ops s \<rparr>)"
  shows "osim mp mv (eval_done mp mv) (v_swap_eval q s) (swap_eval_op D self)"
proof -
  let ?a = "allocator self"
  obtain x y vs X Y Vs e es E Es where
    st: "val_stack self = x # y # vs" "v_vals s = X # Y # Vs" "rep ?a x X" "rep ?a y Y"
      "stk mp mv ?a (op_stack self) vs (env_stack self) (softfork_stack self) Vs (v_envs s) (v_guards s)"
      "env_stack self = e # es" "v_envs s = E # Es" "rep ?a e E" "v_ops s = op_stack self"
    and ok: "alloc_ok ?a" "rep ?a mp mv"
    using assms(2) by (auto simp: full_def pend_def)
  have len: "length vs = length Vs" using stk_length [OF st(5)] by simp
  have "pend mp mv (self\<lparr> val_stack := x # vs, op_stack := Cons # op_stack self \<rparr>) (s\<lparr> v_vals := X # Vs, v_ops := Cons # v_ops s \<rparr>)"
    using st ok by (auto simp: pend_def)
  from vsim_eval_pair [OF assms(1) this _ st(4,8)]
  have "vsim ?a (eval_done mp mv) (v_swap_eval q s) (swap_eval_op D self)"
    using st len by (auto simp: v_swap_eval_def swap_eval_op_def v_pop_def pop_def v_push_op_def push_op_def intro!: vsim_push)
  then show ?thesis using ok(2) by (rule vsim_osim)
qed

lemma reads_softfork_args:
  assumes "rep (allocator self) n t"
  shows "reads (allocator self) (\<lambda>(x, p, e) (x', P, E). x = x' \<and> rep (allocator self) p P \<and> rep (allocator self) e E)
    (v_softfork_args D t) (parse_softfork_arguments D self n)"
  unfolding v_softfork_args_def parse_softfork_arguments_def
proof (rule reads_bind [OF reads_get_args [OF assms]])
  fix ts ns assume "v_args 4 t ''softfork'' = Inr ts" and l: "list_all2 (rep (allocator self)) ns ts"
  then have "length ts = 4" by (auto simp: v_args_def split: if_splits)
  then have i: "rep (allocator self) (ns ! i) (ts ! i)" if "i < 4" for i
    using l that by (auto simp: list_all2_conv_all_nth)
  show "reads (allocator self) (\<lambda>(x, p, e) (x', P, E). x = x' \<and> rep (allocator self) p P \<and> rep (allocator self) e E)
      (bindV (v_uint 4 ''softfork'' (ts ! 1)) (\<lambda>e. let ext = softfork_extension D (ucast e)
         in if ext = DefaultOps then Inl (t, ''unknown softfork extension'') else Inr (ext, ts ! 2, ts ! 3)))
      (bindR (uint_atom 4 (allocator self) (ns ! 1) ''softfork'') (\<lambda>ext. let extension = softfork_extension D (ucast ext)
         in if extension = DefaultOps then err n ''unknown softfork extension'' else Ok (extension, ns ! 2, ns ! 3)))"
    by (rule reads_bind [OF reads_uint_atom]) (use i assms in \<open>auto simp: Let_def\<close>)
qed

text \<open>Every guard expects a cost within the limit of the run.\<close>

definition guards_ok :: "Cost \<Rightarrow> vctx \<Rightarrow> bool" where
  "guards_ok max_cost s \<longleftrightarrow> (\<forall>g \<in> set (v_guards s). fst g \<le> max_cost)"

lemma v_effective_le: "guards_ok max_cost s \<Longrightarrow> v_effective s max_cost \<le> max_cost"
  by (auto simp: guards_ok_def v_effective_def split: list.splits)

lemma effective_eq: "full mp mv self s \<Longrightarrow> effective_max_cost self m = v_effective s m"
  by (auto simp: full_def pend_def effective_max_cost_def v_effective_def dest!: stk_length split: list.splits)

lemma extensions_eq: "pend mp mv self s \<Longrightarrow>
  (case softfork_stack self of sf # _ \<Rightarrow> operator_set sf | [] \<Rightarrow> DefaultOps) = v_extensions s"
  by (auto simp: pend_def v_extensions_def dest!: stk_length split: list.splits)

lemma vsim_enter_guard:
  assumes q: "quote_kw D = Ok q" and pend: "pend mp mv self s" and a: "allocator self = a" and n: "rep a n t"
  shows "vsim a (eval_done mp mv) (v_enter_guard D q s t expected cost) (enter_guard D self n expected cost)"
proof -
  have args: "reads a (\<lambda>(x, p, e) (x', P, E). x = x' \<and> rep a p P \<and> rep a e E)
      (v_softfork_args D t) (parse_softfork_arguments D self n)"
    using reads_softfork_args [of self n t D] n a by simp
  show ?thesis
  proof (cases "v_softfork_args D t")
    case (Inl e)
    then obtain m msg where e: "parse_softfork_arguments D self n = Err (EvalErr m msg)" "snd e = msg" "rep a m (fst e)"
      using args by (cases e) (auto simp: reads_def)
    then have "vsim a (eval_done mp mv) (Inl e) (Err (EvalErr m msg), self)" using a by (cases e) (auto intro: vsim_Err)
    moreover have "vsim a (eval_done mp mv) (bindV (v_push s (CAtom [])) (\<lambda>s. Inr (expected, s)))
        (tryS (push self (nil a)) (\<lambda>_ self. (Ok expected, self)))"
      by (rule eval_done_push [OF pend a]) simp
    ultimately show ?thesis using Inl e a by (simp add: v_enter_guard_def enter_guard_def)
  next
    case (Inr r)
    then obtain ext P E p env where r: "r = (ext, P, E)" "parse_softfork_arguments D self n = Ok (ext, p, env)"
        "rep a p P" "rep a env E"
      using args by (cases r) (auto simp: reads_def)
    let ?g = "\<lparr> expected_cost = cost + expected, allocator_state = checkpoint a, operator_set = ext \<rparr>"
    have "pend mp mv (self\<lparr> softfork_stack := ?g # softfork_stack self, op_stack := ExitGuard # op_stack self \<rparr>)
        (s\<lparr> v_guards := (cost + expected, ext) # v_guards s, v_ops := ExitGuard # v_ops s \<rparr>)"
      using pend a by (auto simp: pend_def)
    from vsim_add_cost [OF vsim_eval_pair [OF q this _ r(3,4)], of 140] show ?thesis
      using r Inr a by (simp add: v_enter_guard_def enter_guard_def v_push_op_def push_op_def run_costs)
  qed
qed

lemma vsim_softfork:
  assumes "quote_kw D = Ok q" "pend mp mv self s" "allocator self = a" "rep a n t"
  shows "vsim a (eval_done mp mv) (v_softfork D q s t cost max_cost) (softfork_op D self n cost max_cost)"
  unfolding v_softfork_def softfork_op_def v_first_arg_def assms(3)
  by (rule vsim_tryR [OF reads_first [OF assms(4)] assms(3)], rule vsim_tryR [OF reads_uint_atom assms(3)])
     (use assms in \<open>auto intro!: vsim_err vsim_enter_guard\<close>)

lemma osim_exit_guard:
  assumes "full mp mv (self\<lparr> op_stack := ExitGuard # op_stack self \<rparr>) (s\<lparr> v_ops := ExitGuard # v_ops s \<rparr>)"
  shows "osim mp mv (eval_done mp mv) (v_exit_guard s cost) (exit_guard self cost)"
proof -
  let ?a = "allocator self"
  obtain v vs V Vs g gs Gs a0 where
    st: "val_stack self = v # vs" "v_vals s = V # Vs" "rep ?a v V"
      "softfork_stack self = g # gs" "v_guards s = (expected_cost g, operator_set g) # Gs"
      "allocator_state g = checkpoint a0" "extends a0 ?a" "alloc_ok a0" "rep a0 mp mv"
      "stk mp mv a0 (op_stack self) vs (env_stack self) gs Vs (v_envs s) Gs" "v_ops s = op_stack self"
      "rep ?a mp mv"
    using assms by (auto simp: full_def pend_def)
  let ?self = "self\<lparr> softfork_stack := gs, allocator := a0, val_stack := vs \<rparr>" and ?s = "s\<lparr> v_guards := Gs, v_vals := Vs \<rparr>"
  have "pend mp mv ?self ?s" using st by (auto simp: pend_def)
  then have "osim mp mv (eval_done mp mv) (bindV (v_push ?s (CAtom [])) (\<lambda>s. Inr (0, s)))
      (tryS (push ?self (nil a0)) (\<lambda>_ self. (Ok 0, self)))"
    using st(9) by (intro vsim_osim [of a0] eval_done_push) auto
  moreover have "osim mp mv (eval_done mp mv) (Inl (CAtom [], ''softfork specified cost mismatch''))
      (err (nil ?a) ''softfork specified cost mismatch'', self\<lparr> softfork_stack := gs \<rparr>)"
    using st(12) by (intro vsim_osim [of ?a] vsim_err) auto
  ultimately show ?thesis using st
    by (auto simp: v_exit_guard_def exit_guard_def v_pop_def pop_def restore_checkpoint_extends)
qed

context dialect_laws
begin

lemma osim_apply:
  assumes f: "full mp mv (self\<lparr> op_stack := Apply # op_stack self \<rparr>) (s\<lparr> v_ops := Apply # v_ops s \<rparr>)"
    and m: "unat max_cost \<le> 2 ^ 62"
  shows "osim mp mv (eval_done mp mv) (v_apply D vop quote_op apply_op softfork_op s cost max_cost) (RunProgram.apply_op D self cost max_cost)"
proof -
  let ?a = "allocator self"
  obtain n p vs N op Vs e es E Es where
    st: "val_stack self = n # p # vs" "v_vals s = N # CAtom op # Vs" "rep ?a n N" "rep ?a p (CAtom op)"
      "env_stack self = e # es" "v_envs s = E # Es"
      "stk mp mv ?a (op_stack self) vs es (softfork_stack self) Vs Es (v_guards s)" "v_ops s = op_stack self"
    and ok: "alloc_ok ?a" "rep ?a mp mv"
    using f by (auto simp: full_def pend_def)
  let ?self = "self\<lparr> val_stack := vs, env_stack := es \<rparr>" and ?s = "s\<lparr> v_vals := Vs, v_envs := Es \<rparr>"
  have pend: "pend mp mv ?self ?s" using st ok by (auto simp: pend_def)
  note unf = st RunProgram.apply_op_def v_apply_def pop_def v_pop_def rep_small_number [OF st(4)] apply_kw softfork Let_def
  consider (ap) "fits_in_small_atom op = Some apply_op"
    | (sf) "fits_in_small_atom op \<noteq> Some apply_op" "fits_in_small_atom op = Some softfork_op"
    | (op) "fits_in_small_atom op \<noteq> Some apply_op" "fits_in_small_atom op \<noteq> Some softfork_op" by blast
  then show ?thesis
  proof cases
    case ap
    have "vsim ?a (eval_done mp mv)
        (bindV (v_args 2 N ''apply'') (\<lambda>ts. v_add_cost 90 (v_eval quote_op ?s (ts ! 0) (ts ! 1))))
        (tryR (get_args 2 ?a n ''apply'') ?self (\<lambda>args. add_cost APPLY_COST (eval_pair D ?self (args ! 0) (args ! 1))))"
      unfolding run_costs
      by (rule vsim_tryR [OF reads_get_args [OF st(3)]])
         (auto simp: v_args_def list_all2_conv_all_nth intro!: vsim_add_cost vsim_eval_pair quote pend split: if_splits)
    then show ?thesis using ap by (intro vsim_osim [OF _ ok(2)]) (simp add: unf)
  next
    case sf
    then show ?thesis
      using vsim_osim [OF vsim_softfork [OF quote pend _ st(3), of cost max_cost] ok(2)] by (simp add: unf)
  next
    case op
    let ?m = "dialect_op D ?a p n max_cost (v_extensions ?s)"
    have "osim mp mv (eval_done mp mv)
        (bindV (vop op N max_cost (v_extensions ?s)) (\<lambda>(c, v). bindV (v_push ?s v) (\<lambda>s. Inr (c, s))))
        (tryS (lift_alloc ?self ?m) (\<lambda>r self. tryS (push self (red_node r)) (\<lambda>_ self. (Ok (red_cost r), self))))"
    proof (rule osim_alloc [where m' = ?m and self = ?self, OF _ refl])
      let ?P = "\<lambda>a r. \<exists>v. vop op N max_cost (v_extensions ?s) = Inr (red_cost r, v) \<and> rep a (red_node r) v"
      show "safe ?P (alloc_msgs \<union> {e. vop op N max_cost (v_extensions ?s) = Inl e})
          (fst (lift_alloc ?self ?m), allocator (snd (lift_alloc ?self ?m)))"
        using op_respects [OF ok(1) st(4,3) m, of "v_extensions ?s"] by (cases ?m) (simp add: refines_def)
      fix r a' assume m: "?m = (Ok r, a')" and a': "alloc_ok a'" "?P a' r"
      have ext: "extends ?a a'" using op_extends [of ?a p n max_cost "v_extensions ?s"] m by simp
      have "pend mp mv (?self\<lparr> allocator := a' \<rparr>) ?s"
        using st ok a' ext by (auto simp: pend_def intro: stk_mono rep_extends)
      then show "osim mp mv (eval_done mp mv)
          (bindV (vop op N max_cost (v_extensions ?s)) (\<lambda>(c, v). bindV (v_push ?s v) (\<lambda>s. Inr (c, s))))
          (tryS (push (?self\<lparr> allocator := a' \<rparr>) (red_node r)) (\<lambda>_ self. (Ok (red_cost r), self)))"
        using a' rep_extends [OF ok(2) ext] by (auto intro!: vsim_osim [of a'] eval_done_push)
    qed (use ok op_extends in \<open>auto simp: push_def err_def\<close>)
    then show ?thesis using op extensions_eq [OF pend] by (simp add: unf)
  qed
qed

lemma osim_iter:
  assumes f: "full mp mv self s" and mv: "mv = CAtom (int_bytes (uint max_cost))"
    and m: "unat max_cost \<le> 2 ^ 62" "guards_ok max_cost s"
  shows "osim mp mv (\<lambda>r self' r'. rel_option (\<lambda>c (c', s'). c' = c \<and> full mp mv self' s') r r')
    (v_iter D vop quote_op apply_op softfork_op max_cost cost s) (run_iter D max_cost mp cost self)"
    (is "osim mp mv ?Q _ _")
proof -
  have rep: "rep (allocator self) mp mv" using f by (auto simp: full_def pend_def)
  have ops: "v_ops s = op_stack self" using f by (auto simp: full_def pend_def)
  have eff: "effective_max_cost self max_cost = v_effective s max_cost" by (rule effective_eq [OF f])
  have lim: "unat (v_effective s max_cost - cost) \<le> 2 ^ 62" if "cost \<le> v_effective s max_cost"
    using that m(1) v_effective_le [OF m(2)] by (simp add: word_le_nat_alt unat_sub)
  show ?thesis
  proof (cases "cost > v_effective s max_cost")
    case True
    then show ?thesis using rep mv by (auto simp: v_iter_def run_iter_def eff osim_def err_def)
  next
    case False
    show ?thesis
    proof (cases "op_stack self")
      case Nil
      then show ?thesis using False rep ops by (auto simp: v_iter_def run_iter_def eff osim_def)
    next
      case (Cons op ops')
      let ?self = "self\<lparr> op_stack := ops' \<rparr>" and ?s = "s\<lparr> v_ops := ops' \<rparr>"
      have f': "full mp mv (?self\<lparr> op_stack := op # op_stack ?self \<rparr>) (?s\<lparr> v_ops := op # v_ops ?s \<rparr>)"
        using f Cons ops by (simp add: full_def pend_def)
      have step: "osim mp mv (eval_done mp mv) sp r \<Longrightarrow>
          osim mp mv ?Q (bindV sp (\<lambda>(c, s). Inr (Some (cost + c, s)))) (tryS r (\<lambda>c self. (Ok (Some (cost + c)), self)))" for sp r
        by (cases r; cases "fst r") (auto simp: osim_def eval_done_def)
      show ?thesis
        using False Cons ops f' lim
        by (cases op) (auto simp: v_iter_def run_iter_def eff Let_def simp flip: mv
            intro!: step osim_augment osim_apply osim_exit_guard osim_cons_op osim_swap_eval [OF quote])
    qed
  qed
qed

end

section \<open>The guards of the value machine\<close>

lemma v_push_guards: "v_push s t = Inr s' \<Longrightarrow> v_guards s' = v_guards s"
  by (auto simp: v_push_def split: if_splits)

lemma v_push_env_guards: "v_push_env s t = Inr s' \<Longrightarrow> v_guards s' = v_guards s"
  by (auto simp: v_push_env_def split: if_splits)

lemma v_push_op_guards [simp]: "v_guards (v_push_op s op) = v_guards s"
  by (simp add: v_push_op_def)

lemma v_pop_guards: "v_pop s = Inr (v, s') \<Longrightarrow> v_guards s' = v_guards s"
  by (auto simp: v_pop_def split: list.splits)

lemma bindV_eq_Inr: "bindV m f = Inr y \<longleftrightarrow> (\<exists>x. m = Inr x \<and> f x = Inr y)"
  by (cases m) auto

lemma list_case_Inr: "(case l of [] \<Rightarrow> Inl e | x # xs \<Rightarrow> f x xs) = Inr y \<longleftrightarrow> (\<exists>x xs. l = x # xs \<and> f x xs = Inr y)"
  by (cases l) auto

lemma v_push_operands_guards: "v_push_operands s t = Inr (bs, s') \<Longrightarrow> v_guards s' = v_guards s"
  by (induction t arbitrary: s) (auto simp: bindV_eq_Inr dest: v_push_guards)

lemmas v_guard_facts = v_push_guards v_push_env_guards v_pop_guards v_push_operands_guards

lemma v_eval_guards: "v_eval q s t E = Inr (c, s') \<Longrightarrow> v_guards s' = v_guards s"
  by (auto simp: v_eval_def v_eval_op_atom_def bindV_eq_Inr split: clvm.splits if_splits dest!: v_guard_facts)

lemma v_cons_op_guards: "v_cons_op s = Inr (c, s') \<Longrightarrow> v_guards s' = v_guards s"
  by (auto simp: v_cons_op_def bindV_eq_Inr dest!: v_guard_facts)

lemma v_swap_eval_guards: "v_swap_eval q s = Inr (c, s') \<Longrightarrow> v_guards s' = v_guards s"
proof -
  assume "v_swap_eval q s = Inr (c, s')"
  then obtain v2 s1 prog s2 env s3 where "v_pop s = Inr (v2, s1)" "v_pop s1 = Inr (prog, s2)"
      "v_push s2 v2 = Inr s3" "v_eval q (v_push_op s3 Cons) prog env = Inr (c, s')"
    by (auto simp: v_swap_eval_def bindV_eq_Inr list_case_Inr)
  then show ?thesis by (auto dest!: v_guard_facts v_eval_guards)
qed

lemma v_exit_guard_guards: "v_exit_guard s cost = Inr (c, s') \<Longrightarrow> \<exists>g. v_guards s = g # v_guards s'"
  by (fastforce simp: v_exit_guard_def bindV_eq_Inr split: list.splits if_splits dest: v_guard_facts)

lemma v_enter_guard_ok:
  assumes "guards_ok m s" "cost + expected \<le> m" "v_enter_guard D q s t expected cost = Inr (c, s')"
  shows "guards_ok m s'"
  using assms
  by (auto simp: v_enter_guard_def v_add_cost_def bindV_eq_Inr Let_def guards_ok_def
      split: sum.splits if_splits prod.splits dest!: v_push_guards v_eval_guards)

lemma v_apply_guards_ok:
  assumes ok: "guards_ok m s" and c: "cost \<le> lim" "lim \<le> m"
    and r: "v_apply D vop q ak sk s cost (lim - cost) = Inr (c', s')"
  shows "guards_ok m s'"
proof -
  have sum: "cost + expected \<le> m" if "expected \<le> lim - cost" for expected
  proof -
    have "unat expected \<le> unat lim - unat cost" using that c by (simp add: word_le_nat_alt unat_sub)
    then have "unat (cost + expected) = unat cost + unat expected" "unat cost + unat expected \<le> unat m"
      using c unsigned_less [of lim, where ?'a = nat] unat_add_lem [of cost expected] by (auto simp: word_le_nat_alt)
    then show ?thesis by (simp add: word_le_nat_alt)
  qed
  have eq: "guards_ok m u" if "v_guards u = v_guards s" for u using ok that by (simp add: guards_ok_def)
  from r obtain args s1 opv s2 e envs where
      p: "v_pop s = Inr (args, s1)" "v_pop s1 = Inr (opv, s2)" "v_envs s2 = e # envs"
    by (auto simp: v_apply_def bindV_eq_Inr list_case_Inr)
  let ?s = "s2\<lparr> v_envs := envs \<rparr>" and ?op = "case opv of CAtom bs \<Rightarrow> bs | CPair _ _ \<Rightarrow> []"
  have g: "v_guards ?s = v_guards s" using p by (auto dest!: v_pop_guards)
  consider ts c where "v_eval q ?s (ts ! 0) (ts ! 1) = Inr (c, s')"
    | expected where "expected \<le> lim - cost" "v_enter_guard D q ?s args expected cost = Inr (c', s')"
    | v where "v_push ?s v = Inr s'"
    using r p by (auto simp: v_apply_def v_softfork_def v_add_cost_def bindV_eq_Inr Let_def not_less split: if_splits)
  then show ?thesis
  proof cases
    case 2
    then show ?thesis using v_enter_guard_ok [OF eq sum] g by blast
  qed (use g eq in \<open>auto dest!: v_push_guards v_eval_guards\<close>)
qed

lemma v_augment_Inr: "v_augment mv m = Inr x \<longleftrightarrow> m = Inr x"
  by (cases "(mv, m)" rule: v_augment.cases) auto

lemma v_iter_guards_ok:
  assumes ok: "guards_ok m s" and r: "v_iter D vop q ak sk m cost s = Inr (Some (c', s'))"
  shows "guards_ok m s'"
proof -
  have eq: "guards_ok m u" if "v_guards u = v_guards s" for u using ok that by (simp add: guards_ok_def)
  have tl: "guards_ok m u" if "v_guards s = g # v_guards u" for u g using ok that by (simp add: guards_ok_def)
  obtain op ops where ops: "v_ops s = op # ops" and lim: "cost \<le> v_effective s m"
    using r by (auto simp: v_iter_def Let_def not_less split: if_splits list.splits)
  let ?s = "s\<lparr> v_ops := ops \<rparr>"
  show ?thesis
  proof (cases op)
    case Apply
    then show ?thesis using r ops v_apply_guards_ok [OF eq lim v_effective_le [OF ok], of ?s]
      by (auto simp: v_iter_def Let_def bindV_eq_Inr v_augment_Inr split: if_splits)
  qed (use r ops in \<open>auto simp: v_iter_def Let_def bindV_eq_Inr v_augment_Inr split: if_splits
        dest!: v_cons_op_guards v_swap_eval_guards v_exit_guard_guards intro: eq tl\<close>)
qed

end
