(* ===== verification/RunLoop.thy ===== *)
theory RunLoop
  imports RunProgramSim
begin

text \<open>
  The whole run. \<open>v_run_program\<close> is the machine on values run to its end. A call of
  \<open>run_program\<close> that returns gives the cost and the value of that run, its error, or a
  resource error of the allocator, provided the byte vector never outgrows the \<open>u32\<close> range
  on the way. The cost it reports never exceeds the limit, whatever the dialect does.
\<close>

section \<open>The run on values\<close>

partial_function (option) v_run ::
  "dialect \<Rightarrow> v_op \<Rightarrow> u32 \<Rightarrow> u32 \<Rightarrow> u32 \<Rightarrow> Cost \<Rightarrow> Cost \<Rightarrow> vctx \<Rightarrow> (Cost \<times> clvm) vres option" where
  "v_run D vop q ak sk max_cost cost s =
     (case v_iter D vop q ak sk max_cost cost s of
        Inl e \<Rightarrow> Some (Inl e)
      | Inr None \<Rightarrow> Some (bindV (v_pop s) (\<lambda>(v, s). Inr (cost, v)))
      | Inr (Some (cost', s')) \<Rightarrow> v_run D vop q ak sk max_cost cost' s')"

definition cost_limit :: "Cost \<Rightarrow> Cost" where
  "cost_limit max_cost = (if max_cost = 0 then - 1 else max_cost)"

definition v_start :: vctx where
  "v_start = \<lparr> v_vals = [], v_envs = [], v_ops = [], v_guards = [] \<rparr>"

definition v_run_program ::
  "dialect \<Rightarrow> v_op \<Rightarrow> u32 \<Rightarrow> u32 \<Rightarrow> u32 \<Rightarrow> clvm \<Rightarrow> clvm \<Rightarrow> Cost \<Rightarrow> (Cost \<times> clvm) vres option" where
  "v_run_program D vop q ak sk prog env max_cost =
     (case v_eval q v_start prog env of
        Inl e \<Rightarrow> Some (Inl e)
      | Inr (c, s) \<Rightarrow> v_run D vop q ak sk (cost_limit max_cost) c s)"

section \<open>Reachable states\<close>

inductive reach :: "dialect \<Rightarrow> Cost \<Rightarrow> NodePtr \<Rightarrow> Cost \<Rightarrow> RunProgramContext \<Rightarrow> Cost \<Rightarrow> RunProgramContext \<Rightarrow> bool"
  for D max_cost mp cost self where
  here: "reach D max_cost mp cost self cost self"
| more: "reach D max_cost mp cost self c s \<Longrightarrow> run_iter D max_cost mp c s = (Ok (Some c'), s') \<Longrightarrow>
    reach D max_cost mp cost self c' s'"

lemma reach_step:
  assumes "run_iter D max_cost mp cost self = (Ok (Some cost'), self')" "reach D max_cost mp cost' self' c s"
  shows "reach D max_cost mp cost self c s"
  using assms(2) by induction (auto intro: reach.intros assms(1))

text \<open>A run that returns stops at a reachable state whose iteration leaves the loop.\<close>

definition stops :: "dialect \<Rightarrow> Cost \<Rightarrow> NodePtr \<Rightarrow> Cost \<Rightarrow> RunProgramContext \<Rightarrow> Cost run \<Rightarrow> bool" where
  "stops D max_cost mp cost self y \<longleftrightarrow>
     (case run_iter D max_cost mp cost self of
        (Ok (Some _), _) \<Rightarrow> False
      | (Ok None, self') \<Rightarrow> y = (Ok cost, self')
      | (Err e, self') \<Rightarrow> y = (Err e, self')
      | (Panic p, self') \<Rightarrow> y = (Panic p, self'))"

lemma run_loop_reach:
  "run_loop D max_cost mp cost self = Some y \<Longrightarrow>
   \<exists>c s. reach D max_cost mp cost self c s \<and> stops D max_cost mp c s y"
proof (rule run_loop.raw_induct [where P = "\<lambda>D max_cost mp cost self y.
    \<exists>c s. reach D max_cost mp cost self c s \<and> stops D max_cost mp c s y"])
  fix loop D max_cost mp cost self y
  assume IH: "\<And>D max_cost mp cost self y. loop D max_cost mp cost self = Some y \<Longrightarrow>
      \<exists>c s. reach D max_cost mp cost self c s \<and> stops D max_cost mp c s y"
    and body: "(case run_iter D max_cost mp cost self of
        (Ok (Some cost'), self') \<Rightarrow> loop D max_cost mp cost' self'
      | (Ok None, self') \<Rightarrow> Some (Ok cost, self')
      | (Err e, self') \<Rightarrow> Some (Err e, self')
      | (Panic p, self') \<Rightarrow> Some (Panic p, self')) = Some y"
  show "\<exists>c s. reach D max_cost mp cost self c s \<and> stops D max_cost mp c s y"
  proof (cases "\<exists>cost' self'. run_iter D max_cost mp cost self = (Ok (Some cost'), self')")
    case True
    then obtain cost' self' where it: "run_iter D max_cost mp cost self = (Ok (Some cost'), self')" by blast
    have "loop D max_cost mp cost' self' = Some y" using body it by simp
    from IH [OF this] obtain c s where "reach D max_cost mp cost' self' c s" "stops D max_cost mp c s y" by blast
    with reach_step [OF it] show ?thesis by blast
  next
    case False
    then have "stops D max_cost mp cost self y" using body
      by (auto simp: stops_def split: prod.splits outcome.splits option.splits)
    then show ?thesis by (blast intro: reach.here)
  qed
qed

section \<open>The cost of a run\<close>

text \<open>
  A guard is on the guard stack for every \<open>ExitGuard\<close> on the operation stack. When the
  operation stack is empty no guard is left, and the limit in force is the run's own.
\<close>

definition balanced :: "RunProgramContext \<Rightarrow> bool" where
  "balanced self \<longleftrightarrow> length (softfork_stack self) = count_list (op_stack self) ExitGuard"

definition keeps :: "RunProgramContext \<Rightarrow> 'a run \<Rightarrow> bool" where
  "keeps self m \<longleftrightarrow> softfork_stack (snd m) = softfork_stack self \<and>
     count_list (op_stack (snd m)) ExitGuard = count_list (op_stack self) ExitGuard"

lemma keeps_refl [intro]: "keeps self (r, self)"
  by (simp add: keeps_def)

lemma keeps_tryS: "keeps self m \<Longrightarrow> (\<And>x self'. keeps self' (f x self')) \<Longrightarrow> keeps self (tryS m f)"
  by (cases "(m, f)" rule: tryS.cases) (auto simp: keeps_def)

lemma keeps_tryR: "(\<And>x. keeps self (f x)) \<Longrightarrow> keeps self (tryR m self f)"
  by (cases m) (auto simp: keeps_def)

lemma keeps_update: "keeps (g self) m \<Longrightarrow> softfork_stack (g self) = softfork_stack self \<Longrightarrow>
    count_list (op_stack (g self)) ExitGuard = count_list (op_stack self) ExitGuard \<Longrightarrow> keeps self m"
  by (simp add: keeps_def)

lemma keeps_stack: "keeps self (pop self)" "keeps self (push self n)" "keeps self (push_env self n)"
  "keeps self (lift_alloc self m)"
  by (cases m; auto simp: keeps_def pop_def push_def push_env_def split: list.splits)+

lemma keeps_push_op: "keeps self (push (push_op self SwapEval) n)" "keeps self (push (push_op self Apply) n)"
  by (auto simp: keeps_def push_op_def push_def)

lemma keeps_push_operands: "keeps self (push_operands k self n)"
  by (induction k arbitrary: self n) (auto intro!: keeps_tryR keeps_tryS keeps_push_op split: SExp.split)

lemmas keeps_intros = keeps_refl keeps_tryR keeps_tryS keeps_push_op keeps_stack keeps_push_operands

lemma keeps_eval_pair: "keeps self (eval_pair D self n env)"
proof -
  have op: "keeps self (Ok c, push_op self Apply)" for self c by (simp add: keeps_def push_op_def)
  show ?thesis unfolding eval_pair_def eval_op_atom_def
    by (auto simp: Let_def intro!: keeps_intros op split: SExp.split)
qed

lemma keeps_eval: "op_stack s = op_stack self \<or> op_stack s = Cons # op_stack self \<Longrightarrow> softfork_stack s = softfork_stack self \<Longrightarrow>
    keeps self (eval_pair D s n env)"
  using keeps_eval_pair [of s D n env] by (auto simp: keeps_def)

lemma keeps_add_cost: "keeps self m \<Longrightarrow> keeps self (add_cost c m)"
  by (cases m) (simp add: keeps_def)

lemma keeps_cons_op: "keeps self (cons_op self)"
  unfolding cons_op_def by (auto intro!: keeps_intros)

lemma keeps_swap_eval: "keeps self (swap_eval_op D self)"
  unfolding swap_eval_op_def by (auto simp: push_op_def intro!: keeps_intros keeps_eval split: list.split)

text \<open>Entering a guard pushes one entry on each of the two stacks.\<close>

definition grows :: "RunProgramContext \<Rightarrow> 'a run \<Rightarrow> bool" where
  "grows self m \<longleftrightarrow> keeps self m \<or>
     length (softfork_stack (snd m)) = Suc (length (softfork_stack self)) \<and>
     count_list (op_stack (snd m)) ExitGuard = Suc (count_list (op_stack self) ExitGuard)"

lemma grows_keeps: "keeps self m \<Longrightarrow> grows self m"
  by (simp add: grows_def)

lemma grows_trans: "keeps self (r, s) \<Longrightarrow> grows s m \<Longrightarrow> grows self m"
  by (auto simp: keeps_def grows_def)

lemma grows_tryS: "keeps self m \<Longrightarrow> (\<And>x self'. grows self' (f x self')) \<Longrightarrow> grows self (tryS m f)"
proof (cases "(m, f)" rule: tryS.cases)
  case (1 x s g)
  assume "keeps self m" "\<And>x self'. grows self' (f x self')"
  with 1 have "keeps self (Ok x, s)" "grows s (f x s)" by auto
  from grows_trans [OF this] show ?thesis using 1 by simp
qed (auto simp: grows_def keeps_def)

lemma grows_tryR: "(\<And>x. grows self (f x)) \<Longrightarrow> grows self (tryR m self f)"
  by (cases m) (auto simp: keeps_def grows_def)

lemma grows_enter_guard: "grows self (enter_guard D self n expected cost)"
proof -
  have "grows self (add_cost c (eval_pair D (push_op (self\<lparr> softfork_stack := g # softfork_stack self \<rparr>) ExitGuard) p e))" for c g p e
    using keeps_add_cost [OF keeps_eval_pair [of "push_op (self\<lparr> softfork_stack := g # softfork_stack self \<rparr>) ExitGuard" D p e]]
    by (simp add: grows_def keeps_def push_op_def)
  then show ?thesis unfolding enter_guard_def
    by (auto simp: Let_def intro!: grows_keeps keeps_intros split: outcome.split)
qed

lemma grows_apply: "grows self (apply_op D self cost max_cost)"
proof -
  have env: "grows self m \<longleftrightarrow> grows (self\<lparr> env_stack := es \<rparr>) m" for self es and m :: "Cost run"
    by (simp add: grows_def keeps_def)
  have lt: "grows self' (let self = self'\<lparr> env_stack := es \<rparr> in h self)"
    if "\<And>self. grows self (h self)" for self' es and h :: "RunProgramContext \<Rightarrow> Cost run"
    using that env [of self' _ es] by simp
  have dial: "grows self (let e = x in tryS (lift_alloc self (d e)) (\<lambda>r self. tryS (push self (red_node r)) (\<lambda>_ self. (Ok (red_cost r), self))))"
    for self x and d :: "OperatorSet \<Rightarrow> Response \<times> Allocator"
    by (auto simp: Let_def intro!: grows_keeps keeps_intros)
  have r: "grows self (r, self)" for self and r :: "Cost eval" by (simp add: grows_def keeps_refl)
  have "grows self (softfork_op D self n cost max_cost)" for self n
    unfolding softfork_op_def by (auto intro!: grows_tryR grows_enter_guard r)
  then show ?thesis unfolding apply_op_def
    by (auto intro!: grows_tryS grows_tryR keeps_stack lt dial r
        grows_keeps [OF keeps_add_cost [OF keeps_eval_pair]] split: list.split)
qed

lemma expect_ok_Ok: "expect_ok msg m = (Ok x, s) \<longleftrightarrow> m = (Ok x, s)"
  by (cases "(msg, m)" rule: expect_ok.cases) auto

lemma lift_alloc_stacks: "lift_alloc self m = (r, s) \<Longrightarrow> softfork_stack s = softfork_stack self \<and> op_stack s = op_stack self"
  by (cases m) auto

lemma exit_guard_shrinks:
  assumes "exit_guard self cost = (Ok c, self')"
  shows "length (softfork_stack self) = Suc (length (softfork_stack self')) \<and> op_stack self' = op_stack self"
proof (cases "softfork_stack self")
  case (Cons g gs)
  obtain a s1 n s2 where "lift_alloc (self\<lparr> softfork_stack := gs \<rparr>) (restore_checkpoint (allocator self) (allocator_state g)) = (Ok a, s1)"
      "pop s1 = (Ok n, s2)" "push s2 (nil (allocator s2)) = (Ok (), self')"
    using assms by (auto simp: exit_guard_def Let_def tryS_eq_Ok expect_ok_Ok err_def Cons split: if_splits)
  then show ?thesis using Cons
    by (auto simp: pop_def push_def err_def split: list.splits if_splits dest!: lift_alloc_stacks)
qed (use assms in \<open>simp add: exit_guard_def\<close>)

lemma balanced_iter:
  assumes "balanced self" "run_iter D max_cost mp cost self = (Ok (Some cost'), self')"
  shows "balanced self'"
proof -
  obtain op ops where ops: "op_stack self = op # ops"
    using assms(2) by (auto simp: run_iter_def Let_def err_def split: if_splits list.splits)
  let ?self = "self\<lparr> op_stack := ops \<rparr>"
  have aug: "augment_run mp m = (Ok c, s) \<Longrightarrow> m = (Ok c, s)" for m c s
    by (cases m; cases "fst m") (auto simp: augment_cost_errors_def)
  show ?thesis
  proof (cases op)
    case ExitGuard
    then show ?thesis using assms ops
      by (auto simp: run_iter_def Let_def tryS_eq_Ok err_def balanced_def split: if_splits dest!: exit_guard_shrinks)
  next
    case Apply
    then obtain c where "apply_op D ?self cost (effective_max_cost self max_cost - cost) = (Ok c, self')"
      using assms ops by (auto simp: run_iter_def Let_def tryS_eq_Ok err_def split: if_splits dest!: aug)
    then show ?thesis using grows_apply [of ?self D cost "effective_max_cost self max_cost - cost"] Apply assms(1) ops
      by (auto simp: grows_def keeps_def balanced_def)
  next
    case Cons
    then show ?thesis using assms ops keeps_cons_op [of ?self]
      by (auto simp: run_iter_def Let_def tryS_eq_Ok err_def balanced_def keeps_def split: if_splits)
  next
    case SwapEval
    then show ?thesis using assms ops keeps_swap_eval [of ?self D]
      by (auto simp: run_iter_def Let_def tryS_eq_Ok err_def balanced_def keeps_def split: if_splits dest!: aug)
  qed
qed

lemma balanced_reach: "reach D max_cost mp cost self c s \<Longrightarrow> balanced self \<Longrightarrow> balanced s"
  by (induction rule: reach.induct) (auto intro: balanced_iter)

lemma stops_Ok:
  "stops D max_cost mp c s (Ok cost, s') \<Longrightarrow> balanced s \<Longrightarrow> cost = c \<and> s' = s \<and> op_stack s = [] \<and> c \<le> max_cost"
  by (auto simp: stops_def run_iter_def Let_def err_def balanced_def effective_max_cost_def not_less tryS_eq_Ok
      split: if_splits list.splits prod.splits outcome.splits option.splits)

lemma run_loop_cost:
  assumes "run_loop D max_cost mp cost self = Some (Ok c, self')" "balanced self"
  shows "c \<le> max_cost" "op_stack self' = []"
proof -
  obtain c' s where r: "reach D max_cost mp cost self c' s" and s: "stops D max_cost mp c' s (Ok c, self')"
    using run_loop_reach [OF assms(1)] by blast
  from stops_Ok [OF s balanced_reach [OF r assms(2)]] show "c \<le> max_cost" "op_stack self' = []" by auto
qed

lemma tryO_eq_Ok: "tryO m f = Some (Ok y, s') \<longleftrightarrow> (\<exists>x s. m = (Ok x, s) \<and> f x s = Some (Ok y, s'))"
  by (cases "(m, f)" rule: tryO.cases) auto

lemma run_program_cost_le:
  assumes "run_program B D a program env max_cost = Some (Ok (Reduction cost n), a')"
  shows "cost \<le> cost_limit max_cost"
proof -
  let ?m = "cost_limit max_cost" and ?self = "context_new a"
  obtain r self where run: "context_run_program B D ?self program env max_cost = Some (r, self)" "r = Ok (Reduction cost n)"
    using assms by (auto simp: run_program_def)
  obtain mp s1 c s2 where n: "lift_alloc ?self (new_number B a (uint ?m)) = (Ok mp, s1)"
    and e: "eval_pair D s1 program env = (Ok c, s2)"
    and l: "map_option (\<lambda>r. tryS r (\<lambda>cost self. tryS (pop self) (\<lambda>n self. (Ok (Reduction cost n), self))))
        (run_loop D ?m mp c s2) = Some (r, self)"
    using run unfolding context_run_program_def Let_def cost_limit_def context_new_def
    by (simp del: lift_alloc.simps add: tryO_eq_Ok) blast
  have "balanced s2"
    using keeps_eval_pair [of s1 D program env] e lift_alloc_stacks [OF n] by (simp add: balanced_def keeps_def context_new_def)
  moreover obtain self' where "run_loop D ?m mp c s2 = Some (Ok cost, self')"
    using l run(2) by (auto simp: tryS_eq_Ok)
  ultimately show ?thesis using run_loop_cost(1) by blast
qed

section \<open>The run simulates the value machine\<close>

context dialect_laws
begin

lemma reach_sim:
  assumes "reach D max_cost mp cost self c t" "full mp (CAtom (int_bytes (uint max_cost))) self s" "guards_ok max_cost s"
    "unat max_cost \<le> 2 ^ 62" "\<forall>c t. reach D max_cost mp cost self c t \<longrightarrow> heap_ok (allocator t)"
  shows "\<exists>u. full mp (CAtom (int_bytes (uint max_cost))) t u \<and> guards_ok max_cost u \<and>
    v_run D vop quote_op apply_op softfork_op max_cost cost s = v_run D vop quote_op apply_op softfork_op max_cost c u"
  using assms(1)
proof induction
  case here
  show ?case using assms by blast
next
  case (more c t c' t')
  then obtain u where u: "full mp (CAtom (int_bytes (uint max_cost))) t u" "guards_ok max_cost u"
      "v_run D vop quote_op apply_op softfork_op max_cost cost s = v_run D vop quote_op apply_op softfork_op max_cost c u" by blast
  have "heap_ok (allocator t')" using assms(5) reach.more [OF more.hyps] by blast
  then obtain u' where u': "v_iter D vop quote_op apply_op softfork_op max_cost c u = Inr (Some (c', u'))"
      "full mp (CAtom (int_bytes (uint max_cost))) t' u'"
    using osim_iter [OF u(1) refl assms(4) u(2), of c] more.hyps(2) by (auto simp: osim_def option_rel_Some1)
  have "v_run D vop quote_op apply_op softfork_op max_cost c u = v_run D vop quote_op apply_op softfork_op max_cost c' u'"
    by (subst v_run.simps) (simp add: u')
  with u u' v_iter_guards_ok [OF u(2) u'(1)] show ?case by auto
qed

lemma run_loop_sim:
  assumes "run_loop D max_cost mp cost self = Some (r, self')"
    and full: "full mp (CAtom (int_bytes (uint max_cost))) self s" and g: "guards_ok max_cost s" and m: "unat max_cost \<le> 2 ^ 62"
    and h: "\<forall>c t. reach D max_cost mp cost self c t \<longrightarrow> heap_ok (allocator t)" "heap_ok (allocator self')"
  shows "case r of
      Ok c \<Rightarrow> \<exists>n v. val_stack self' = [n] \<and> rep (allocator self') n v \<and> v_run D vop quote_op apply_op softfork_op max_cost cost s = Some (Inr (c, v))
    | Err e \<Rightarrow> \<exists>t. (v_run D vop quote_op apply_op softfork_op max_cost cost s = Some (Inl (t, err_msg e)) \<or> (t, err_msg e) \<in> alloc_msgs)
        \<and> rep (allocator self') (err_node e) t
    | Panic _ \<Rightarrow> False"
proof -
  obtain c t where rt: "reach D max_cost mp cost self c t" and st: "stops D max_cost mp c t (r, self')"
    using run_loop_reach [OF assms(1)] by blast
  obtain u where u: "full mp (CAtom (int_bytes (uint max_cost))) t u" "guards_ok max_cost u"
      "v_run D vop quote_op apply_op softfork_op max_cost cost s = v_run D vop quote_op apply_op softfork_op max_cost c u"
    using reach_sim [OF rt full g m h(1)] by blast
  note it = osim_iter [OF u(1) refl m u(2), of c]
  show ?thesis
  proof (cases r)
    case (Ok c')
    then have t: "run_iter D max_cost mp c t = (Ok None, self')" "c' = c"
      using st by (auto simp: stops_def split: prod.splits outcome.splits option.splits)
    then have "self' = t" "op_stack t = []"
      by (auto simp: run_iter_def Let_def err_def tryS_eq_Ok split: if_splits list.splits)
    moreover have "v_iter D vop quote_op apply_op softfork_op max_cost c u = Inr None"
      using it t h(2) by (auto simp: osim_def)
    ultimately show ?thesis using u(1) t(2) Ok unfolding u(3)
      by (subst v_run.simps) (auto simp: full_def pend_def v_pop_def)
  next
    case (Err e)
    then have t: "run_iter D max_cost mp c t = (Err e, self')"
      using st by (auto simp: stops_def split: prod.splits outcome.splits option.splits)
    have "v_run D vop quote_op apply_op softfork_op max_cost c u = Some (Inl x)"
      if "v_iter D vop quote_op apply_op softfork_op max_cost c u = Inl x" for x
      using that by (subst v_run.simps) simp
    then show ?thesis using it t h(2) Err u(3) by (fastforce simp: osim_def)
  next
    case (Panic p)
    then have t: "run_iter D max_cost mp c t = (Panic p, self')"
      using st by (auto simp: stops_def split: prod.splits outcome.splits option.splits)
    then show ?thesis using it h(2) by (auto simp: osim_def)
  qed
qed

end

text \<open>The states a call of \<open>run_program\<close> goes through, from the first evaluation on.\<close>

definition run_states ::
  "'x bigint_api_scheme \<Rightarrow> dialect \<Rightarrow> Allocator \<Rightarrow> NodePtr \<Rightarrow> NodePtr \<Rightarrow> Cost \<Rightarrow> RunProgramContext set" where
  "run_states B D a program env max_cost =
     {t. \<exists>mp s1 c s2 c'. lift_alloc (context_new a) (new_number B a (uint (cost_limit max_cost))) = (Ok mp, s1) \<and>
        (t = s1 \<or> eval_pair D s1 program env = (Ok c, s2) \<and> reach D (cost_limit max_cost) mp c s2 c' t)}"

text \<open>How the response of a run corresponds to the result of the run on values.\<close>

definition good_end :: "(Cost \<times> clvm) vres option \<Rightarrow> Reduction eval \<Rightarrow> Allocator \<Rightarrow> bool" where
  "good_end sp r a \<longleftrightarrow>
     (case r of
        Ok x \<Rightarrow> \<exists>v. sp = Some (Inr (red_cost x, v)) \<and> rep a (red_node x) v
      | Err e \<Rightarrow> \<exists>t. (sp = Some (Inl (t, err_msg e)) \<or> (t, err_msg e) \<in> alloc_msgs) \<and> rep a (err_node e) t
      | Panic _ \<Rightarrow> False)"

context dialect_laws
begin

lemma run_program_sim:
  assumes B: "bigint_laws B" and a: "alloc_ok a" and p: "rep a p P" and e: "rep a e E"
    and m: "unat (cost_limit max_cost) \<le> 2 ^ 62"
    and run: "run_program B D a p e max_cost = Some (r, a')"
    and h: "\<And>t. t \<in> run_states B D a p e max_cost \<Longrightarrow> heap_ok (allocator t)" "heap_ok a'"
  shows "good_end (v_run_program D vop quote_op apply_op softfork_op P E max_cost) r a'"
proof -
  let ?m = "cost_limit max_cost" and ?self = "context_new a"
  obtain self where ctx: "tryO (lift_alloc ?self (new_number B a (uint ?m))) (\<lambda>mp s1.
      tryO (eval_pair D s1 p e) (\<lambda>c s2.
      map_option (\<lambda>r. tryS r (\<lambda>cost self. tryS (pop self) (\<lambda>n self. (Ok (Reduction cost n), self))))
        (run_loop D ?m mp c s2))) = Some (r, self)" and a': "a' = allocator self"
    using run by (auto simp: run_program_def context_run_program_def Let_def cost_limit_def context_new_def)
  obtain r1 a1 where nn: "new_number B a (uint ?m) = (r1, a1)" by (cases "new_number B a (uint ?m)") auto
  have safe: "safe (\<lambda>a' p. extends a a' \<and> rep a' p (CAtom (int_bytes (uint ?m)))) alloc_msgs (r1, a1)"
    using safe_new_number [OF B a, of alloc_msgs "uint ?m"] nn by simp
  show ?thesis
  proof (cases r1)
    case (Ok mp)
    let ?s1 = "?self\<lparr> allocator := a1 \<rparr>" and ?mv = "CAtom (int_bytes (uint ?m))"
    have "?s1 \<in> run_states B D a p e max_cost" using nn Ok by (simp add: run_states_def)
    then have a1: "alloc_ok a1" "extends a a1" "rep a1 mp ?mv" using h(1) [of ?s1] safe Ok by (auto simp: safe_def)
    have pend: "pend mp ?mv ?s1 v_start" using a1 by (simp add: pend_def v_start_def context_new_def)
    obtain r2 s2 where ev: "eval_pair D ?s1 p e = (r2, s2)" by (cases "eval_pair D ?s1 p e")
    have sim: "vsim a1 (eval_done mp ?mv) (v_eval quote_op v_start P E) (r2, s2)"
      using vsim_eval_pair [OF quote pend _ rep_extends [OF p a1(2)] rep_extends [OF e a1(2)]] ev by simp
    show ?thesis
    proof (cases r2)
      case (Err x)
      then show ?thesis using sim ctx nn \<open>r1 = Ok mp\<close> ev a'
        by (auto simp: vsim_def good_end_def v_run_program_def)
    next
      case (Panic x)
      then show ?thesis using sim by (simp add: vsim_def)
    next
      case (Ok c)
      then obtain s where s: "v_eval quote_op v_start P E = Inr (c, s)" "full mp ?mv s2 s"
        using sim by (auto simp: vsim_def eval_done_def)
      have g: "guards_ok ?m s" using v_eval_guards [OF s(1)] by (simp add: guards_ok_def v_start_def)
      have hh: "\<forall>c' t. reach D ?m mp c s2 c' t \<longrightarrow> heap_ok (allocator t)"
      proof (intro allI impI)
        fix c' t assume "reach D ?m mp c s2 c' t"
        then show "heap_ok (allocator t)" using h(1) [of t] nn ev Ok \<open>r1 = Ok mp\<close> by (auto simp: run_states_def)
      qed
      obtain y where y: "run_loop D ?m mp c s2 = Some y"
          "tryS y (\<lambda>cost self. tryS (pop self) (\<lambda>n self. (Ok (Reduction cost n), self))) = (r, self)"
        using ctx nn \<open>r1 = Ok mp\<close> ev Ok by auto
      obtain r3 s3 where y3: "y = (r3, s3)" by (cases y)
      have al: "allocator s3 = a'"
        using y(2) a' unfolding y3 by (cases r3) (auto simp: pop_def err_def split: list.splits)
      have "run_loop D ?m mp c s2 = Some (r3, s3)" "heap_ok (allocator s3)" using y(1) y3 al h(2) by simp_all
      from run_loop_sim [OF this(1) s(2) g m hh this(2)]
      show ?thesis using y(2) y3 s(1) al
        by (cases r3) (auto simp: good_end_def v_run_program_def pop_def)
    qed
  next
    case (Err x)
    then show ?thesis using ctx nn safe a' h(2) by (auto simp: safe_def good_end_def)
  next
    case (Panic x)
    then show ?thesis using ctx nn safe a' h(2) by (auto simp: safe_def)
  qed
qed

end

end
