(* ===== verification/RunEnds.thy ===== *)
theory RunEnds
  imports RunLoop
begin

text \<open>
  Runs end. Every iteration of the interpreter either adds to the cost or shortens the stack
  of operations, and no addition wraps around as long as the limit is at most \<open>2^61\<close> and an
  operator never reports a cost of \<open>2^63\<close> or more. So a run with such a limit returns, on
  whatever allocator, program and environment it is started.
\<close>

section \<open>The cost of an evaluation step\<close>

lemma atom_range_length: "atom_range a b = Ok bs \<Longrightarrow> length bs < 2 ^ 32"
proof -
  assume "atom_range a b = Ok bs"
  then have "length bs \<le> unat (ab_end b)" by (auto simp: atom_range_def slice_def split: if_splits)
  also have "unat (ab_end b) < 2 ^ 32" using unsigned_less [of "ab_end b"] by simp
  finally show ?thesis .
qed

lemma node_buffer_length: "node a n = Ok (VBuffer bs) \<Longrightarrow> length bs < 2 ^ 32"
  by (clarsimp simp: node_def bindR_eq_Ok) (auto simp: bindR_eq_Ok split: ObjectType.split_asm dest: atom_range_length)

lemma unat_u64: "n < 2 ^ 64 \<Longrightarrow> unat (of_nat n :: u64) = n"
  by (simp add: unsigned_of_nat take_bit_nat_eq_self)

lemma first_non_zero_length_le: "first_non_zero bs \<le> length bs"
  by (induction bs) auto

lemma traverse_path_cost:
  assumes "traverse_path a bs env = Ok r" "length bs < 2 ^ 32"
  shows "1 \<le> unat (red_cost r)" "unat (red_cost r) < 2 ^ 40"
proof -
  have "be_nat bs < 2 ^ (8 * length bs)" using be_nat_less [of bs] by (simp add: power_mult)
  then have "ubits (be_nat bs) \<le> 8 * length bs" by (rule ubits_le)
  then have b: "ubits (be_nat bs) - 1 \<le> 8 * length bs" by simp
  have "\<exists>k \<le> 12 * length bs. red_cost r = of_nat (44 + 4 * k)"
  proof (cases "be_nat bs = 0")
    case True
    then have "red_cost r = of_nat (44 + 4 * length bs)" using assms(1) by (auto simp: traverse_path_walk)
    then show ?thesis by (intro exI [of _ "length bs"]) simp
  next
    case False
    then have "red_cost r = 44 + 4 * of_nat (first_non_zero bs) + 4 * of_nat (ubits (be_nat bs) - 1)"
      using assms(1) by (auto simp: traverse_path_walk bindR_eq_Ok)
    also have "\<dots> = of_nat (44 + 4 * (first_non_zero bs + (ubits (be_nat bs) - 1)))" by (simp only: of_nat_add of_nat_mult) simp
    finally have "red_cost r = of_nat (44 + 4 * (first_non_zero bs + (ubits (be_nat bs) - 1)))" .
    then show ?thesis using b first_non_zero_length_le [of bs]
      by (intro exI [of _ "first_non_zero bs + (ubits (be_nat bs) - 1)"]) simp
  qed
  then obtain k where k: "k \<le> 12 * length bs" "red_cost r = of_nat (44 + 4 * k)" by blast
  then have "unat (red_cost r) = 44 + 4 * k" using assms(2) by (simp only: k(2)) (rule unat_u64, simp)
  then show "1 \<le> unat (red_cost r)" "unat (red_cost r) < 2 ^ 40" using k(1) assms(2) by simp_all
qed

lemma traverse_fast_cost:
  assumes "traverse_path_fast a w env = Ok r"
  shows "1 \<le> unat (red_cost r)" "unat (red_cost r) < 2 ^ 40"
proof -
  have "len_for_value w \<le> 5" by (simp add: len_for_value_def)
  then have "length (int_bytes (uint w)) < 2 ^ 32" by (simp add: len_for_value_eq)
  from traverse_path_cost [OF assms [unfolded traverse_path_fast_eq] this] show "1 \<le> unat (red_cost r)" "unat (red_cost r) < 2 ^ 40" .
qed

lemma path_node_cost:
  assumes "bindR (node a p) (\<lambda>v. case v of VBuffer buf \<Rightarrow> traverse_path a buf env | VU32 val \<Rightarrow> traverse_path_fast a val env
      | VPair _ _ \<Rightarrow> Panic ''expected atom, got pair'') = Ok r"
  shows "1 \<le> unat (red_cost r) \<and> unat (red_cost r) < 2 ^ 40"
proof -
  obtain v where v: "(node a p :: NodeVisitor eval) = Ok v" "(case v of VBuffer buf \<Rightarrow> traverse_path a buf env | VU32 val \<Rightarrow> traverse_path_fast a val env
      | VPair _ _ \<Rightarrow> Panic ''expected atom, got pair'') = Ok r" using assms by (auto simp: bindR_eq_Ok)
  then show ?thesis using traverse_path_cost [OF _ node_buffer_length] traverse_fast_cost by (cases v) auto
qed

lemma eval_pair_cost:
  assumes "eval_pair D self p env = (Ok c, self')"
  shows "1 \<le> unat c \<and> unat c < 2 ^ 40"
proof -
  have op: "c = 1 \<or> c = 20" if "eval_op_atom D self n l env = (Ok c, self')" for n l
    using that by (auto simp: eval_op_atom_def tryS_eq_Ok tryR_eq_Ok run_costs err_def split: if_splits)
  obtain s where s: "(sexp (allocator self) p :: SExp eval) = Ok s" using assms by (auto simp: eval_pair_def tryR_eq_Ok)
  show ?thesis
  proof (cases s)
    case SAtom
    then show ?thesis using assms s by (auto simp: eval_pair_def tryR_eq_Ok tryS_eq_Ok dest!: path_node_cost)
  next
    case (SPair n l)
    obtain t where t: "(sexp (allocator self) n :: SExp eval) = Ok t" using assms s SPair by (auto simp: eval_pair_def tryR_eq_Ok)
    show ?thesis
    proof (cases t)
      case SAtom
      then have "eval_op_atom D self n l env = (Ok c, self')" using assms s \<open>s = _\<close> t by (simp add: eval_pair_def)
      from op [OF this] show ?thesis by auto
    next
      case (SPair x y)
      then have "c = 90" using assms s \<open>s = _\<close> t
        by (clarsimp simp: eval_pair_def tryR_eq_Ok Let_def) (auto simp: tryS_eq_Ok err_def run_costs split: SExp.split_asm)
      then show ?thesis by simp
    qed
  qed
qed

section \<open>What one iteration does to the stacks and the cost\<close>

definition guards_le :: "Cost \<Rightarrow> RunProgramContext \<Rightarrow> bool" where
  "guards_le m self \<longleftrightarrow> (\<forall>g \<in> set (softfork_stack self). expected_cost g \<le> m)"

definition same_stacks :: "RunProgramContext \<Rightarrow> RunProgramContext \<Rightarrow> bool" where
  "same_stacks self self' \<longleftrightarrow> op_stack self' = op_stack self \<and> softfork_stack self' = softfork_stack self"

lemma same_stacks_ops:
  "pop self = (Ok n, s) \<Longrightarrow> same_stacks self s" "push self n = (Ok u, s) \<Longrightarrow> same_stacks self s"
  "lift_alloc self m = (Ok x, s) \<Longrightarrow> same_stacks self s"
  by (auto simp: same_stacks_def pop_def push_def err_def split: list.splits if_splits dest!: lift_alloc_stacks)

lemma same_stacks_trans: "same_stacks s s1 \<Longrightarrow> same_stacks s1 s2 \<Longrightarrow> same_stacks s s2"
  by (simp add: same_stacks_def)

lemma cons_op_stacks: "cons_op self = (Ok c, s) \<Longrightarrow> c = 0 \<and> same_stacks self s"
  by (auto simp: cons_op_def tryS_eq_Ok simp del: lift_alloc.simps dest!: same_stacks_ops intro: same_stacks_trans)

lemma augment_run_Ok: "augment_run mp m = (Ok c, s) \<longleftrightarrow> m = (Ok c, s)"
  by (cases m; cases "fst m") (auto simp: augment_cost_errors_def)

lemma add_cost_Ok: "add_cost extra m = (Ok c, s) \<longleftrightarrow> (\<exists>c0. m = (Ok c0, s) \<and> c = c0 + extra)"
  by (cases m; cases "fst m") auto

text \<open>
  \<open>moves m self (c, s)\<close>: the operation, taken from the stack before \<open>self\<close>, keeps the guards
  below the limit and either costs something or leaves the stack of operations as it is.
\<close>

definition moves :: "Cost \<Rightarrow> RunProgramContext \<Rightarrow> Cost \<Rightarrow> RunProgramContext \<Rightarrow> bool" where
  "moves m self c s \<longleftrightarrow> guards_le m s \<and> unat c < 2 ^ 63 \<and> (1 \<le> unat c \<or> length (op_stack s) \<le> length (op_stack self))"

lemma moves_eval:
  assumes "eval_pair D s1 p env = (Ok c, s)" "guards_le m s1" "unat extra < 2 ^ 40"
  shows "moves m self (c + extra) s"
proof -
  have "guards_le m s" using keeps_eval_pair [of s1 D p env] assms(1,2) by (simp add: keeps_def guards_le_def)
  moreover have "unat (c + extra) = unat c + unat extra"
    using eval_pair_cost [OF assms(1)] assms(3) by (subst unat_add_lem [THEN iffD1]) simp_all
  ultimately show ?thesis using eval_pair_cost [OF assms(1)] assms(3) by (simp add: moves_def)
qed

lemma moves_exit_guard:
  assumes "exit_guard self cost = (Ok c, s)" "guards_le m self"
  shows "moves m self c s"
proof (cases "softfork_stack self")
  case (Cons g gs)
  let ?self = "self\<lparr> softfork_stack := gs \<rparr>"
  have "c = 0 \<and> same_stacks ?self s"
    using assms(1) Cons by (auto simp: exit_guard_def Let_def tryS_eq_Ok expect_ok_Ok err_def simp del: lift_alloc.simps
        split: if_splits dest!: same_stacks_ops intro: same_stacks_trans)
  then show ?thesis using assms(2) Cons by (simp add: moves_def same_stacks_def guards_le_def)
qed (use assms in \<open>simp add: exit_guard_def\<close>)

lemma moves_swap_eval:
  assumes "swap_eval_op D self = (Ok c, s)" "guards_le m self"
  shows "moves m self c s"
proof -
  obtain v2 s1 p s2 env envs s3 where s: "pop self = (Ok v2, s1)" "pop s1 = (Ok p, s2)" "env_stack s2 = env # envs"
      "push s2 v2 = (Ok (), s3)" "eval_pair D (push_op s3 Cons) p env = (Ok c, s)"
    using assms(1) by (clarsimp simp: swap_eval_op_def tryS_eq_Ok) (auto simp: tryS_eq_Ok split: list.split_asm)
  have "same_stacks self s3" using s by (auto dest!: same_stacks_ops intro: same_stacks_trans)
  then have "guards_le m (push_op s3 Cons)" using assms(2) by (simp add: guards_le_def same_stacks_def push_op_def)
  from moves_eval [OF s(5) this, of 0] show ?thesis by simp
qed

lemma moves_enter_guard:
  assumes "enter_guard D self n expected cost = (Ok c, s)" "guards_le m self" "cost + expected \<le> m" "0 < expected" "unat expected < 2 ^ 63"
  shows "moves m self c s"
proof (cases "parse_softfork_arguments D self n")
  case (Ok x)
  obtain ext prg env where x: "x = (ext, prg, env)" by (cases x)
  let ?g = "\<lparr> expected_cost = cost + expected, allocator_state = checkpoint (allocator self), operator_set = ext \<rparr>"
  obtain c0 where c0: "eval_pair D (push_op (self\<lparr> softfork_stack := ?g # softfork_stack self \<rparr>) ExitGuard) prg env = (Ok c0, s)"
      "c = c0 + GUARD_COST" using assms(1) Ok x by (auto simp: enter_guard_def Let_def add_cost_Ok)
  have "guards_le m (push_op (self\<lparr> softfork_stack := ?g # softfork_stack self \<rparr>) ExitGuard)"
    using assms(2,3) by (simp add: guards_le_def push_op_def)
  from moves_eval [OF c0(1) this, of GUARD_COST] c0(2) show ?thesis by (simp add: GUARD_COST_def)
next
  case (Err e)
  then have "c = expected \<and> same_stacks self s" using assms(1)
    by (auto simp: enter_guard_def tryS_eq_Ok split: if_splits dest!: same_stacks_ops)
  then show ?thesis using assms(2,4,5) by (simp add: moves_def guards_le_def same_stacks_def word_less_nat_alt)
qed (use assms(1) in \<open>simp add: enter_guard_def\<close>)

section \<open>Dialects whose operators have bounded costs\<close>

locale metered_dialect =
  fixes D :: dialect
  assumes op_cost: "dialect_op D a p n m ext = (Ok r, a') \<Longrightarrow> unat m \<le> 2 ^ 61 \<Longrightarrow> unat (red_cost r) < 2 ^ 63"
begin

lemma moves_softfork:
  assumes "softfork_op D self n cost limit = (Ok c, s)" "guards_le m self" "cost \<le> m" "limit \<le> m - cost" "unat m \<le> 2 ^ 61"
  shows "moves m self c s"
proof -
  obtain expected where e: "\<not> limit < expected" "expected \<noteq> 0" "enter_guard D self n expected cost = (Ok c, s)"
    using assms(1) by (auto simp: softfork_op_def tryR_eq_Ok err_def split: if_splits)
  have "unat expected \<le> unat limit" "unat limit \<le> unat (m - cost)" using e(1) assms(4) by (auto simp: word_le_nat_alt not_less)
  then have "unat expected \<le> unat m - unat cost" using unat_sub [OF assms(3)] by simp
  then have x: "unat cost + unat expected \<le> unat m" "unat expected < 2 ^ 63" using assms(3,5) by (auto simp: word_le_nat_alt)
  then have "unat (cost + expected) = unat cost + unat expected"
    using assms(5) by (subst unat_add_lem [THEN iffD1]) simp_all
  then have "cost + expected \<le> m" using x(1) by (simp add: word_le_nat_alt)
  with moves_enter_guard [OF e(3) assms(2)] e(2) x(2) show ?thesis by (simp add: word_gt_0)
qed

lemma moves_apply:
  assumes "apply_op D self cost limit = (Ok c, s)" "guards_le m self" "cost \<le> m" "limit \<le> m - cost" "unat m \<le> 2 ^ 61"
  shows "moves m self c s"
proof -
  obtain n s1 p s2 env envs where s: "pop self = (Ok n, s1)" "pop s1 = (Ok p, s2)" "env_stack s2 = env # envs"
    using assms(1) by (clarsimp simp: apply_op_def tryS_eq_Ok) (auto simp: err_def split: list.split_asm)
  define s3 where "s3 = s2\<lparr> env_stack := envs \<rparr>"
  have st: "same_stacks self s3" using s by (auto simp: s3_def same_stacks_def dest!: same_stacks_ops)
  then have g: "guards_le m s3" using assms(2) by (simp add: guards_le_def same_stacks_def)
  have mv: "moves m s3 c s \<Longrightarrow> ?thesis" using st by (simp add: moves_def same_stacks_def)
  from assms(1) s consider
      args where "add_cost APPLY_COST (eval_pair D s3 (args ! 0) (args ! 1)) = (Ok c, s)"
    | "softfork_op D s3 n cost limit = (Ok c, s)"
    | ext where "tryS (lift_alloc s3 (dialect_op D (allocator s3) p n limit ext)) (\<lambda>r self.
         tryS (push self (red_node r)) (\<lambda>_ self. (Ok (red_cost r), self))) = (Ok c, s)"
    by (auto simp: apply_op_def tryR_eq_Ok Let_def s3_def simp del: lift_alloc.simps split: if_splits)
  then show ?thesis
  proof cases
    case (1 args)
    then show ?thesis using moves_eval [OF _ g, of D _ _ _ _ APPLY_COST] by (auto simp: add_cost_Ok APPLY_COST_def)
  next
    case 2
    from mv [OF moves_softfork [OF 2 g assms(3-5)]] show ?thesis .
  next
    case (3 ext)
    then obtain r s4 where r: "lift_alloc s3 (dialect_op D (allocator s3) p n limit ext) = (Ok r, s4)"
        "push s4 (red_node r) = (Ok (), s)" "c = red_cost r" by (auto simp: tryS_eq_Ok simp del: lift_alloc.simps)
    have "limit \<le> m" using assms(3,4) word_sub_le order_trans by blast
    then have "unat limit \<le> 2 ^ 61" using assms(5) by (simp add: word_le_nat_alt)
    moreover obtain a' where "dialect_op D (allocator s3) p n limit ext = (Ok r, a')"
      using r(1) by (cases "dialect_op D (allocator s3) p n limit ext") auto
    ultimately have "unat c < 2 ^ 63" using op_cost r(3) by blast
    moreover have "same_stacks s3 s" using r by (auto dest!: same_stacks_ops intro: same_stacks_trans simp del: lift_alloc.simps)
    ultimately show ?thesis using mv g by (auto simp: moves_def same_stacks_def guards_le_def)
  qed
qed

lemma iteration_moves:
  assumes "run_iter D m mp cost self = (Ok (Some cost'), s)" "guards_le m self" "unat m \<le> 2 ^ 61"
  shows "guards_le m s \<and> (unat cost < unat cost' \<or> unat cost = unat cost' \<and> length (op_stack s) < length (op_stack self))"
proof -
  let ?e = "effective_max_cost self m"
  have e: "?e \<le> m" using assms(2) by (auto simp: effective_max_cost_def guards_le_def split: list.splits)
  obtain op ops where ops: "op_stack self = op # ops" "cost \<le> ?e"
    using assms(1) by (auto simp: run_iter_def Let_def err_def split: if_splits list.splits)
  let ?self = "self\<lparr> op_stack := ops \<rparr>"
  have g: "guards_le m ?self" using assms(2) by (simp add: guards_le_def)
  obtain c where c: "cost' = cost + c" "(case op of
      Apply \<Rightarrow> augment_run mp (apply_op D ?self cost (?e - cost)) | ExitGuard \<Rightarrow> exit_guard ?self cost
    | Cons \<Rightarrow> cons_op ?self | SwapEval \<Rightarrow> augment_run mp (swap_eval_op D ?self)) = (Ok c, s)"
    using assms(1) ops by (auto simp: run_iter_def Let_def tryS_eq_Ok not_less [symmetric])
  have lim: "cost \<le> m" "?e - cost \<le> m - cost" using ops(2) e by (auto simp: word_le_nat_alt unat_sub)
  have "moves m ?self c s"
  proof (cases op)
    case Apply
    then show ?thesis using c(2) moves_apply [OF _ g lim assms(3)] by (simp add: augment_run_Ok)
  next
    case Cons
    then show ?thesis using c(2) g by (auto simp: moves_def same_stacks_def guards_le_def dest!: cons_op_stacks)
  next
    case ExitGuard
    then show ?thesis using c(2) moves_exit_guard [OF _ g] by simp
  next
    case SwapEval
    then show ?thesis using c(2) moves_swap_eval [OF _ g] by (simp add: augment_run_Ok)
  qed
  moreover have "unat cost \<le> 2 ^ 61" using lim(1) assms(3) by (simp add: word_le_nat_alt)
  ultimately show ?thesis using ops(1) unfolding c(1) moves_def
    by (subst (1 2) unat_add_lem [THEN iffD1]) auto
qed

theorem run_loop_returns:
  assumes "guards_le m self" "unat m \<le> 2 ^ 61"
  shows "\<exists>r s. run_loop D m mp cost self = Some (r, s)"
  using assms(1)
proof (induction "(2 ^ 64 - unat cost, length (op_stack self))" arbitrary: cost self rule: wf_induct_rule [OF wf_lex_prod [OF wf_less_than wf_less_than]])
  case (1 cost self)
  show ?case
  proof (cases "\<exists>cost' s. run_iter D m mp cost self = (Ok (Some cost'), s)")
    case True
    then obtain cost' s where it: "run_iter D m mp cost self = (Ok (Some cost'), s)" by blast
    from iteration_moves [OF this 1(2) assms(2)] have "guards_le m s"
        "((2 ^ 64 - unat cost', length (op_stack s)), 2 ^ 64 - unat cost, length (op_stack self)) \<in> less_than <*lex*> less_than"
      using unsigned_less [of cost', where ?'a = nat] by auto
    from 1(1) [OF this(2,1)] show ?thesis using it by (subst run_loop.simps) simp
  next
    case False
    obtain r s where it: "run_iter D m mp cost self = (r, s)" by fastforce
    show ?thesis
    proof (cases r)
      case (Ok x)
      with False it have "x = None" by (cases x) auto
      then show ?thesis using it Ok by (subst run_loop.simps) simp
    qed (use it in \<open>subst run_loop.simps, simp\<close>)+
  qed
qed

theorem run_returns:
  assumes "0 < max_cost" "unat max_cost \<le> 2 ^ 61"
  shows "\<exists>r a'. run_program B D a program env max_cost = Some (r, a')"
proof -
  have "\<exists>r s. context_run_program B D (context_new a) program env max_cost = Some (r, s)"
  proof -
    have ends: "\<exists>r s. tryO m f = Some (r, s)" if "\<And>x s. m = (Ok x, s) \<Longrightarrow> \<exists>r s'. f x s = Some (r, s')"
      for m :: "'z run" and f :: "'z \<Rightarrow> RunProgramContext \<Rightarrow> Reduction run option"
      using that by (cases "(m, f)" rule: tryO.cases) auto
    have "\<exists>r s. map_option (\<lambda>r. tryS r (\<lambda>cost self. tryS (pop self) (\<lambda>n self. (Ok (Reduction cost n), self))))
        (run_loop D max_cost mp c s2) = Some (r, s)"
      if s: "lift_alloc (context_new a) (new_number B a (uint max_cost)) = (Ok mp, s1)" "eval_pair D s1 program env = (Ok c, s2)"
      for mp s1 c s2
    proof -
    have "guards_le max_cost s2" using keeps_eval_pair [of s1 D program env] lift_alloc_stacks [OF s(1)] s(2)
      by (simp add: keeps_def guards_le_def context_new_def)
      from run_loop_returns [OF this assms(2), of mp c] obtain r s where "run_loop D max_cost mp c s2 = Some (r, s)" by blast
      then show ?thesis by (metis option.simps(9) prod.exhaust)
    qed
    then show ?thesis using assms(1) unfolding context_run_program_def Let_def
      by (intro ends) (auto simp: context_new_def simp del: lift_alloc.simps intro!: ends)
  qed
  then show ?thesis by (auto simp: run_program_def)
qed

end

end
