(* ===== verification/OpCosts.thy ===== *)
theory OpCosts
  imports RunEnds
begin

text \<open>
  No operator reports a cost of \<open>2^63\<close> or more when its limit is at most \<open>2^61\<close>, whatever
  the allocator holds. With this, both dialects are metered and their runs end.
\<close>

named_theorems priced_intros
named_theorems length_bounds

section \<open>Bounds on words\<close>

lemma unat_plus_le: "unat (a + b) \<le> unat a + unat (b :: 'a::len word)"
  by (simp add: unat_word_ariths)

lemma unat_times_le: "unat (a * b) \<le> unat a * unat (b :: 'a::len word)"
  by (simp add: unat_word_ariths)

lemma unat_of_nat_le: "unat (of_nat n :: 'a::len word) \<le> n"
  by (simp add: unsigned_of_nat take_bit_eq_mod)

lemma unat_linear_le: "unat (c + of_nat n * k) \<le> unat c + n * unat (k :: 'a::len word)"
proof -
  have "unat (of_nat n * k) \<le> n * unat k"
    using unat_times_le [of "of_nat n" k] unat_of_nat_le [where ?'a = 'a, of n] by (meson le_trans mult_le_mono1)
  then show ?thesis using unat_plus_le [of c "of_nat n * k"] by linarith
qed

text \<open>A base cost and a cost per byte.\<close>

lemma unat_linear_less:
  assumes "unat c < 2 ^ 62" "n < 2 ^ 40" "unat (k :: u64) < 2 ^ 20"
  shows "unat (c + of_nat n * k) < 2 ^ 62 + 2 ^ 60"
proof -
  have "n * unat k < 2 ^ 40 * 2 ^ 20" using assms(2,3) by (intro mult_strict_mono) auto
  then show ?thesis using unat_linear_le [of c n k] assms(1) by simp
qed

section \<open>Lengths of atoms\<close>

lemma len_for_value_less: "len_for_value w < 2 ^ 32"
  by (simp add: len_for_value_def)

lemma ab_len_less: "ab_len b < 2 ^ 32"
  using unsigned_less [of "ab_end b - ab_start b", where ?'a = nat] by (simp add: ab_len_def)

lemma atom_len_less [length_bounds]: "atom_len a n = Ok l \<Longrightarrow> l < 2 ^ 32"
  by (clarsimp simp: atom_len_def bindR_eq_Ok)
     (use ab_len_less len_for_value_less in \<open>auto simp: bindR_eq_Ok split: ObjectType.split_asm\<close>)

lemma util_atom_len_less [length_bounds]: "util_atom_len a n s = Ok l \<Longrightarrow> l < 2 ^ 32"
  by (clarsimp simp: util_atom_len_def bindR_eq_Ok) (auto simp: err_def split: SExp.split_asm dest: atom_len_less)

lemma atom_bytes_less: "atom_bytes a n = Ok bs \<Longrightarrow> length bs < 2 ^ 32"
proof -
  assume "atom_bytes a n = Ok bs"
  then show ?thesis
    by (clarsimp simp: atom_bytes_def atom_def bindR_eq_Ok)
       (auto simp: bindR_eq_Ok slice_eq_Ok to_be_bytes_def split: ObjectType.split_asm dest: atom_range_length)
qed

lemma util_atom_bytes_less [length_bounds]: "util_atom_bytes a n s = Ok bs \<Longrightarrow> length bs < 2 ^ 32"
  using atom_bytes_less by (auto simp: util_atom_bytes_def util_atom_def atom_bytes_def bindR_eq_Ok err_def split: if_splits)

lemma int_atom_less [length_bounds]: "int_atom B a n s = Ok (v, l) \<Longrightarrow> l < 2 ^ 32"
  by (clarsimp simp: int_atom_def bindR_eq_Ok) (auto simp: bindR_eq_Ok err_def split: SExp.split_asm dest: atom_len_less)

lemma int_arg_less [length_bounds]: "int_arg B a n s = Ok (v, l) \<Longrightarrow> l < 2 ^ 32"
  by (clarsimp simp: int_arg_def bindR_eq_Ok)
     (use len_for_value_less in \<open>auto simp: err_def split: NodeVisitor.split_asm dest: node_buffer_length\<close>)

section \<open>Responses with a bounded cost\<close>

definition priced :: "Response \<times> Allocator \<Rightarrow> bool" where
  "priced m \<longleftrightarrow> (\<forall>r a'. m = (Ok r, a') \<longrightarrow> unat (red_cost r) < 2 ^ 63)"

lemma priced_tryR [priced_intros]: "(\<And>x. m = Ok x \<Longrightarrow> priced (f x)) \<Longrightarrow> priced (tryR m a f)"
  by (cases m) (auto simp: priced_def)

lemma priced_tryS [priced_intros]: "(\<And>x a'. m = (Ok x, a') \<Longrightarrow> priced (f x a')) \<Longrightarrow> priced (tryS m f)"
  by (cases "(m, f)" rule: tryS.cases) (auto simp: priced_def)

lemma priced_error [priced_intros]: "priced (err n s, a)" "priced (Err e, a)" "priced (Panic p, a)"
  by (simp_all add: priced_def err_def)

lemma priced_Ok [priced_intros]: "unat c < 2 ^ 63 \<Longrightarrow> priced (Ok (Reduction c n), a)"
  by (simp add: priced_def)

lemma priced_if [priced_intros]: "(b \<Longrightarrow> priced x) \<Longrightarrow> (\<not> b \<Longrightarrow> priced y) \<Longrightarrow> priced (if b then x else y)"
  by simp

lemma priced_prod [priced_intros]: "(\<And>y z. x = (y, z) \<Longrightarrow> priced (f y z)) \<Longrightarrow> priced (case x of (y, z) \<Rightarrow> f y z)"
  by (cases x) simp

lemma priced_option [priced_intros]:
  "(x = None \<Longrightarrow> priced y) \<Longrightarrow> (\<And>z. x = Some z \<Longrightarrow> priced (f z)) \<Longrightarrow> priced (case x of None \<Rightarrow> y | Some z \<Rightarrow> f z)"
  by (cases x) simp_all

lemma priced_sexp [priced_intros]:
  "priced y \<Longrightarrow> (\<And>l r. priced (f l r)) \<Longrightarrow> priced (case x of SAtom \<Rightarrow> y | SPair l r \<Rightarrow> f l r)"
  by (cases x) simp_all

lemma priced_malloc [priced_intros]:
  assumes "unat c < 2 ^ 62 + 2 ^ 61"
  shows "priced (malloc_cost a c p, a')"
proof -
  have "unat (c + of_nat l * MALLOC_COST_PER_BYTE) < 2 ^ 63" if "atom_len a p = (Ok l :: nat eval)" for l
  proof -
    have "l < 2 ^ 32" using that by (rule atom_len_less)
    then show ?thesis using unat_linear_le [of c l MALLOC_COST_PER_BYTE] assms by (simp add: MALLOC_COST_PER_BYTE_def)
  qed
  then show ?thesis by (auto simp: priced_def malloc_cost_def bindR_eq_Ok Let_def)
qed

lemma priced_new_atom [priced_intros]:
  assumes "unat c < 2 ^ 62 + 2 ^ 61" "length bs < 2 ^ 32"
  shows "priced (new_atom_and_cost a c bs)"
  unfolding new_atom_and_cost_def Let_def
  using unat_linear_le [of c "length bs" MALLOC_COST_PER_BYTE] assms
  by (intro priced_intros) (simp add: MALLOC_COST_PER_BYTE_def)

section \<open>Operators without a loop\<close>

lemma unat_linear_63: "unat c < 2 ^ 62 \<Longrightarrow> n < 2 ^ 40 \<Longrightarrow> unat (k :: u64) < 2 ^ 20 \<Longrightarrow> unat (c + of_nat n * k) < 2 ^ 63"
  and unat_linear_62: "unat c < 2 ^ 62 \<Longrightarrow> n < 2 ^ 40 \<Longrightarrow> unat (k :: u64) < 2 ^ 20 \<Longrightarrow> unat (c + of_nat n * k) < 2 ^ 62 + 2 ^ 61"
  using unat_linear_less by fastforce+

lemma unat_linear_two:
  assumes "unat c < 2 ^ 62" "n < 2 ^ 40" "unat (k :: u64) < 2 ^ 20" "n' < 2 ^ 40" "unat (k' :: u64) < 2 ^ 20"
  shows "unat (c + of_nat n * k + of_nat n' * k') < 2 ^ 63"
proof -
  have "n' * unat k' < 2 ^ 40 * 2 ^ 20" using assms(4,5) by (intro mult_strict_mono) auto
  then show ?thesis using unat_linear_le [of "c + of_nat n * k" n' k'] unat_linear_less [OF assms(1-3)] by simp
qed

lemma unat_plus_63: "unat c < 2 ^ 62 + 2 ^ 61 \<Longrightarrow> unat k < 2 ^ 60 \<Longrightarrow> unat (c + k :: u64) < 2 ^ 63"
  using unat_plus_le [of c k] by simp

lemma checked: "check_cost a c m = Ok u \<Longrightarrow> unat m \<le> 2 ^ 61 \<Longrightarrow> unat c \<le> 2 ^ 61"
  by (auto simp: check_cost_def word_less_nat_alt split: if_splits)

lemmas op_costs = core_costs more_costs bls_costs KECCAK256_BASE_COST_def KECCAK256_COST_PER_ARG_def KECCAK256_COST_PER_BYTE_def
  SECP256R1_VERIFY_COST_def SECP256K1_VERIFY_COST_def

lemma priced_core:
  "priced (op_if a n m)" "priced (op_cons a n m)" "priced (op_first a n m)" "priced (op_rest a n m)"
  "priced (op_listp a n m)"
  unfolding op_if_def op_cons_def op_first_def op_rest_def op_listp_def Let_def
  by (intro priced_intros; simp add: op_costs)+

lemma priced_raise: "priced (op_raise a n m)"
  unfolding op_raise_def Let_def by (auto intro: priced_intros split: outcome.split)

lemma priced_eq: "priced (op_eq a n m)"
  unfolding op_eq_def Let_def of_nat_add [symmetric]
  by (intro priced_intros unat_linear_63; auto simp: op_costs dest!: length_bounds)

lemma priced_arith:
  "priced (op_div B a n m)" "priced (op_mod B a n m)" "priced (op_gr_bytes a n m)" "priced (op_strlen B a n m)"
  "priced (op_substr a n m)" "priced (op_lognot B a n m)" "priced (op_not a n m)"
  unfolding op_div_def op_mod_def op_gr_bytes_def op_strlen_def op_substr_def op_lognot_def op_not_def Let_def
  by (intro priced_intros unat_linear_62 unat_linear_63; auto simp: op_costs dest!: length_bounds)+

lemma priced_gr: "priced (op_gr B a n m)"
  unfolding op_gr_def Let_def
  by (intro priced_intros unat_linear_63) (auto simp: op_costs len_for_value_def dest!: length_bounds)

lemma priced_divmod: "priced (op_divmod B a n m)"
  unfolding op_divmod_def Let_def
  by (intro priced_intros unat_linear_two; auto simp: op_costs dest!: length_bounds)

lemma priced_pubkey: "priced (op_pubkey_for_exp E a n m)"
  unfolding op_pubkey_for_exp_def Let_def
  by (intro priced_intros unat_plus_63 unat_linear_62; auto simp: op_costs dest!: length_bounds)

lemma priced_secp: "priced (op_secp256r1_verify E a n m)" "priced (op_secp256k1_verify E a n m)"
  unfolding op_secp256r1_verify_def op_secp256k1_verify_def Let_def
  by (intro priced_intros; simp add: op_costs)+

lemma priced_negate: "priced (op_bls_g1_negate E a n m)" "priced (op_bls_g2_negate E a n m)"
  unfolding op_bls_g1_negate_def op_bls_g2_negate_def Let_def
  by (intro priced_intros; simp add: op_costs)+

lemma priced_unknown: "priced (op_unknown a p n m)"
  unfolding op_unknown_def Let_def
  by (intro priced_intros) (auto simp: word_less_nat_alt not_less u32_max_def)

lemma priced_multiply_point:
  assumes "unat m \<le> 2 ^ 61"
  shows "priced (op_bls_g1_multiply E a n m)" "priced (op_bls_g2_multiply E a n m)"
  unfolding op_bls_g1_multiply_def op_bls_g2_multiply_def Let_def
  by (intro priced_intros unat_plus_63; use assms in \<open>auto simp: op_costs dest!: checked\<close>)+

lemma priced_map:
  assumes "unat m \<le> 2 ^ 61"
  shows "priced (op_bls_map_to_g1 E a n m)" "priced (op_bls_map_to_g2 E a n m)"
  unfolding op_bls_map_to_g1_def op_bls_map_to_g2_def Let_def
  by (intro priced_intros unat_plus_63; use assms in \<open>auto simp: op_costs dest!: checked\<close>)+

lemma priced_modpow: "unat m \<le> 2 ^ 61 \<Longrightarrow> priced (op_modpow B a n m)"
  unfolding op_modpow_def Let_def
  by (intro priced_intros; auto simp: op_costs dest!: checked)

section \<open>Loops over the arguments\<close>

lemma while_next_inv:
  assumes "while_next a n s f = Ok s'" "I s" "\<And>x s s'. I s \<Longrightarrow> f x s = Ok s' \<Longrightarrow> I s'"
  shows "I s'"
proof -
  have "while_fuel k a n s f = Ok s' \<Longrightarrow> I s \<Longrightarrow> I s'" for k
  proof (induction k arbitrary: n s)
    case (Suc k)
    then show ?case using assms(3) by (fastforce simp: bindR_eq_Ok split: option.splits)
  qed simp
  then show ?thesis using assms(1,2) unfolding while_next_def by blast
qed

text \<open>
  The cost so far and the bytes still to be charged, \<open>k\<close> each, stay near the limit, because
  every iteration checks them.
\<close>

definition charged :: "Cost \<Rightarrow> u64 \<Rightarrow> Cost \<Rightarrow> nat \<Rightarrow> bool" where
  "charged m k cost n \<longleftrightarrow> unat cost + n * unat k \<le> unat m + 2 ^ 40"

lemma unat_linear_eq:
  fixes c k :: u64
  assumes "unat c + n * unat k < 2 ^ 64"
  shows "unat (c + of_nat n * k) = unat c + n * unat k"
proof -
  have "unat (c + of_nat n * k) = (unat c + n * unat k) mod 2 ^ 64"
    by (simp add: unat_word_ariths unsigned_of_nat take_bit_eq_mod mod_simps)
  then show ?thesis using assms by simp
qed

lemma check_cost_exact:
  assumes "check_cost a (c + of_nat n * k) m = Ok u" "unat c + n * unat k < 2 ^ 64"
  shows "unat c + n * unat k \<le> unat m"
  using assms unat_linear_eq [OF assms(2)] by (auto simp: check_cost_def word_less_nat_alt split: if_splits)

text \<open>
  A step that charges \<open>A\<close> per argument and \<open>k\<close> per byte, and checks the cost before or after
  it reads the argument.
\<close>

definition counts :: "Cost \<Rightarrow> u64 \<Rightarrow> Cost \<Rightarrow> (NodePtr \<Rightarrow> Cost \<times> nat \<times> 's \<Rightarrow> (Cost \<times> nat \<times> 's) eval) \<Rightarrow> bool" where
  "counts m k A step \<longleftrightarrow> unat A < 2 ^ 30 \<and> unat k < 2 ^ 8 \<and> (\<forall>x cost n y cost' n' y'. step x (cost, n, y) = Ok (cost', n', y') \<longrightarrow>
     cost' = cost + A \<and> n' < n + 2 ^ 32 \<and>
     ((\<exists>a. check_cost a (cost + A + of_nat n * k) m = Ok ()) \<or> (\<exists>a. check_cost a (cost + A + of_nat n' * k) m = Ok ())))"

lemma charged_step:
  assumes "charged m k cost n" "unat m \<le> 2 ^ 61" "unat A < 2 ^ 30" "unat k < 2 ^ 8" "n' < n + 2 ^ 32"
    "check_cost a (cost + A + of_nat n * k) m = Ok () \<or> check_cost a (cost + A + of_nat n' * k) m = Ok ()"
  shows "charged m k (cost + A) n'"
proof -
  have "n' * unat k \<le> n * unat k + 2 ^ 32 * unat k" using assms(5) by (simp flip: add_mult_distrib)
  then have n': "n' * unat k \<le> n * unat k + 2 ^ 40" using assms(4) by simp
  have c: "unat (cost + A) + n * unat k \<le> 2 ^ 61 + 2 ^ 40 + 2 ^ 30"
    using unat_plus_le [of cost A] assms(1-3) by (simp add: charged_def)
  from assms(6) show ?thesis
  proof
    assume "check_cost a (cost + A + of_nat n * k) m = Ok ()"
    from check_cost_exact [OF this] c n' show ?thesis by (simp add: charged_def)
  next
    assume "check_cost a (cost + A + of_nat n' * k) m = Ok ()"
    from check_cost_exact [OF this] c n' show ?thesis by (simp add: charged_def)
  qed
qed

lemma charged_cost:
  assumes "charged m k cost n" "unat m \<le> 2 ^ 61"
  shows "unat (cost + of_nat n * k) < 2 ^ 62" "unat cost < 2 ^ 62"
proof -
  have "unat cost + n * unat k < 2 ^ 62" using assms by (simp add: charged_def)
  then show "unat (cost + of_nat n * k) < 2 ^ 62" "unat cost < 2 ^ 62" using unat_linear_le [of cost n k] by linarith+
qed

lemma counts_charged:
  assumes "counts m k A step" "unat c0 \<le> 2 ^ 40" "unat m \<le> 2 ^ 61"
    and "while_next a n (c0, 0, y) step = Ok (cost, l, y')"
  shows "charged m k cost l"
proof -
  have A: "unat A < 2 ^ 30" "unat k < 2 ^ 8" using assms(1) by (simp_all add: counts_def)
  have "case (cost, l, y') of (cost, l, _) \<Rightarrow> charged m k cost l"
  proof (rule while_next_inv [OF assms(4)])
    fix x s s'
    assume s: "case s of (cost, l, _) \<Rightarrow> charged m k cost l" "step x s = Ok s'"
    obtain cost n y cost' n' y' where "s = (cost, n, y)" "s' = (cost', n', y')" by (cases s, cases s')
    with s assms(1) show "case s' of (cost, l, _) \<Rightarrow> charged m k cost l"
      unfolding counts_def using charged_step [OF _ assms(3) A] by (auto; blast)
  qed (use assms(2) in \<open>simp add: charged_def\<close>)
  then show ?thesis by simp
qed

lemma counted:
  assumes "counts m k A step" "while_next a n (c0, 0, y) step = Ok (cost, l, y')" "unat c0 \<le> 2 ^ 40" "unat m \<le> 2 ^ 61"
  shows "unat (cost + of_nat l * k) < 2 ^ 62 + 2 ^ 61"
  using charged_cost(1) [OF counts_charged [OF assms(1,3,4,2)] assms(4)] by simp

lemma base_costs:
  "unat ARITH_BASE_COST \<le> 2 ^ 40" "unat LOG_BASE_COST \<le> 2 ^ 40" "unat SHA256_BASE_COST \<le> 2 ^ 40"
  "unat KECCAK256_BASE_COST \<le> 2 ^ 40"
  by (simp_all add: op_costs)

lemma counts_steps:
  "counts m ARITH_COST_PER_BYTE ARITH_COST_PER_ARG (add_step B a m)"
  "counts m SHA256_COST_PER_BYTE SHA256_COST_PER_ARG (sha256_step a m)"
  "counts m CONCAT_COST_PER_BYTE CONCAT_COST_PER_ARG (concat_step a m)"
  "counts m LOG_COST_PER_BYTE LOG_COST_PER_ARG (binop_step B nm f a m)"
  "counts m KECCAK256_COST_PER_BYTE KECCAK256_COST_PER_ARG (keccak256_step a m)"
  "counts m ARITH_COST_PER_BYTE ARITH_COST_PER_ARG (subtract_step B a m)"
  by (auto simp: counts_def op_costs add_step_def sha256_step_def concat_step_def binop_step_def keccak256_step_def subtract_step_def
      Let_def bindR_eq_Ok err_def dest!: length_bounds split: if_splits SExp.split_asm)

lemma priced_add: "unat m \<le> 2 ^ 61 \<Longrightarrow> priced (op_add B a n m)"
  unfolding op_add_def Let_def by (intro priced_intros) (auto intro: counted [OF counts_steps(1) _ base_costs(1), simplified])

lemma priced_subtract: "unat m \<le> 2 ^ 61 \<Longrightarrow> priced (op_subtract B a n m)"
  unfolding op_subtract_def Let_def by (intro priced_intros) (auto intro: counted [OF counts_steps(6) _ base_costs(1), simplified])

lemma priced_binop: "unat m \<le> 2 ^ 61 \<Longrightarrow> priced (binop_reduction B nm i f a n m)"
  unfolding binop_reduction_def Let_def by (intro priced_intros) (auto intro: counted [OF counts_steps(4) _ base_costs(2), simplified])

lemma priced_logic:
  assumes "unat m \<le> 2 ^ 61"
  shows "priced (op_logand B a n m)" "priced (op_logior B a n m)" "priced (op_logxor B a n m)"
  unfolding op_logand_def op_logior_def op_logxor_def by (rule priced_binop [OF assms])+

lemma priced_concat: "unat m \<le> 2 ^ 61 \<Longrightarrow> priced (op_concat a n m)"
  unfolding op_concat_def Let_def by (intro priced_intros) (auto dest!: checked)

text \<open>Loops that charge a fixed cost per argument and check it.\<close>

lemma paid_loop:
  assumes "while_next a n (c0, y) step = Ok (cost, y')" "unat c0 \<le> 2 ^ 61" "unat m \<le> 2 ^ 61"
    and "\<And>x cost y cost' y'. step x (cost, y) = Ok (cost', y') \<Longrightarrow> \<exists>a. check_cost a cost' m = Ok ()"
  shows "unat cost \<le> 2 ^ 61"
proof -
  have "case (cost, y') of (cost, _) \<Rightarrow> unat cost \<le> 2 ^ 61"
  proof (rule while_next_inv [OF assms(1)])
    fix x s s'
    assume s: "step x s = Ok s'"
    obtain cost y cost' y' where "s = (cost, y)" "s' = (cost', y')" by (cases s, cases s')
    with s assms(4) checked [OF _ assms(3)] show "case s' of (cost, _) \<Rightarrow> unat cost \<le> 2 ^ 61" by fastforce
  qed (use assms(2) in simp)
  then show ?thesis by simp
qed

lemma paid_steps:
  "any_step a m x (cost, y) = Ok (cost', y') \<Longrightarrow> \<exists>a. check_cost a cost' m = Ok ()"
  "all_step a m x (cost, y) = Ok (cost', y') \<Longrightarrow> \<exists>a. check_cost a cost' m = Ok ()"
  "point_add_step E a m x (cost, z) = Ok (cost', z') \<Longrightarrow> \<exists>a. check_cost a cost' m = Ok ()"
  "g1_subtract_step E a m x (cost, v) = Ok (cost', v') \<Longrightarrow> \<exists>a. check_cost a cost' m = Ok ()"
  "g2_add_step E a m x (cost, w) = Ok (cost', w') \<Longrightarrow> \<exists>a. check_cost a cost' m = Ok ()"
  "g2_subtract_step E a m x (cost, u) = Ok (cost', u') \<Longrightarrow> \<exists>a. check_cost a cost' m = Ok ()"
  by (auto simp: any_step_def all_step_def point_add_step_def g1_subtract_step_def g2_add_step_def g2_subtract_step_def
      Let_def bindR_eq_Ok split: if_splits prod.splits)


lemma priced_paid:
  assumes "unat m \<le> 2 ^ 61"
  shows "priced (op_any a n m)" "priced (op_all a n m)" "priced (op_point_add E a n m)" "priced (op_bls_g1_subtract E a n m)"
    "priced (op_bls_g2_add E a n m)" "priced (op_bls_g2_subtract E a n m)"
  unfolding op_any_def op_all_def op_point_add_def op_bls_g1_subtract_def op_bls_g2_add_def op_bls_g2_subtract_def
  by (intro priced_intros unat_plus_63; clarify?; (drule paid_loop [OF _ _ assms]; (rule paid_steps)?)?; auto simp: op_costs)+

lemma pairing_loop_cost:
  assumes "unat m \<le> 2 ^ 61"
  shows "pairing_loop E k a m args cost items = Ok (cost', items') \<Longrightarrow> unat cost \<le> 2 ^ 61 \<Longrightarrow> unat cost' \<le> 2 ^ 61"
proof (induction k arbitrary: args cost items)
  case (Suc k)
  then show ?case using checked [OF _ assms] by (fastforce simp: bindR_eq_Ok Let_def split: if_splits)
qed simp

lemma verify_loop_cost:
  assumes "unat m \<le> 2 ^ 61"
  shows "verify_loop E k a m args cost items = Ok (cost', items') \<Longrightarrow> unat cost \<le> 2 ^ 61 \<Longrightarrow> unat cost' \<le> 2 ^ 61"
proof (induction k arbitrary: args cost items)
  case (Suc k)
  then show ?case using checked [OF _ assms] by (fastforce simp: bindR_eq_Ok Let_def split: if_splits)
qed simp

lemma priced_pairing:
  assumes "unat m \<le> 2 ^ 61"
  shows "priced (op_bls_pairing_identity E a n m)" "priced (op_bls_verify E a n m)"
  unfolding op_bls_pairing_identity_def op_bls_verify_def
  by (intro priced_intros; clarify; (drule pairing_loop_cost [OF assms] verify_loop_cost [OF assms]); auto simp: op_costs)+

section \<open>Digests and big integers\<close>

context ext_laws
begin

lemma priced_sha256:
  assumes "unat m \<le> 2 ^ 61"
  shows "priced (op_sha256 E a n m)"
proof -
  have h: "length (PRECOMPUTED_HASHES ! i) = 32" if "i < length PRECOMPUTED_HASHES" for i
    using that unfolding PRECOMPUTED_HASHES_def length_map by (simp only: nth_map length_be_bytes)
  have small: "unat v < length PRECOMPUTED_HASHES" if "sha256_small a n = (Ok (Some v) :: u32 option eval)" for v
    using that unfolding sha256_small_def
    by (clarsimp simp: bindR_eq_Ok) (auto simp: bindR_eq_Ok split: option.split_asm list.split_asm if_splits)
  show ?thesis unfolding op_sha256_def Let_def
    using assms by (intro priced_intros)
      (auto simp: op_costs sha256_length h [OF small] intro: counted [OF counts_steps(2) _ base_costs(3), simplified])
qed

lemma priced_keccak256: "unat m \<le> 2 ^ 61 \<Longrightarrow> priced (op_keccak256 E a n m)"
  unfolding op_keccak256_def Let_def
  by (intro priced_intros) (auto simp: keccak256_length intro: counted [OF counts_steps(5) _ base_costs(4), simplified])

lemma priced_coinid: "priced (op_coinid E a n m)"
  unfolding op_coinid_def Let_def by (intro priced_intros) (simp_all add: op_costs)

end

lemma div_abs_le: "\<bar>x div p\<bar> \<le> \<bar>x\<bar>" if "1 \<le> p" for x p :: int
proof (cases "0 \<le> x")
  case True
  then have "0 \<le> x div p" using that by (simp add: pos_imp_zdiv_nonneg_iff)
  moreover have "x div p \<le> x" using True that by (metis div_by_1 zdiv_mono2 zero_less_one)
  ultimately show ?thesis by simp
next
  case False
  then have "x div p < 0" using that by (simp add: pos_imp_zdiv_neg_iff)
  moreover have "x div 1 \<le> x div p" using False that by (intro zdiv_mono2_neg) auto
  ultimately show ?thesis using False by simp
qed

context bigint_laws
begin

lemma limbs_le: "\<bar>n\<bar> < 2 ^ (8 * k) \<Longrightarrow> limbs_for_int B n \<le> k"
proof (cases "n = 0")
  case False
  assume "\<bar>n\<bar> < 2 ^ (8 * k)"
  then have "(2 :: int) ^ bi_bits B n < 2 ^ Suc (8 * k)" using bits_lower [OF False] by simp
  then have "bi_bits B n < Suc (8 * k)" by (rule power_less_imp_less_exp [rotated]) simp
  then show ?thesis by (simp add: limbs_for_int_def)
qed (simp add: limbs_for_int_def bits_zero)

lemma number_from_u8_less: "\<bar>number_from_u8 B bs\<bar> < 2 ^ (8 * length bs)"
proof (cases "bs = []")
  case False
  have "(256 :: int) ^ length bs = 2 ^ (8 * length bs)" "(0 :: int) < 2 ^ (8 * length bs)" by (simp_all add: power_mult)
  then have "\<bar>be_signed bs\<bar> < 2 ^ (8 * length bs)" using be_signed_range [OF False] by linarith
  then show ?thesis using from_signed [OF False] False by (simp add: number_from_u8_def)
qed (simp add: number_from_u8_def)

lemma uint_less: "\<bar>uint w\<bar> < 2 ^ (8 * len_for_value w)" for w :: u32
proof -
  have "uint w < 2 ^ (8 * len_for_value w)"
    using unsigned_less [of w, where ?'a = int] by (auto simp: len_for_value_def word_less_def)
  then show ?thesis by simp
qed

lemma int_arg_value: "int_arg B a n s = Ok (v, l) \<Longrightarrow> \<bar>v\<bar> < 2 ^ (8 * l)"
  by (clarsimp simp: int_arg_def bindR_eq_Ok)
     (use number_from_u8_less uint_less in \<open>auto simp: err_def split: NodeVisitor.split_asm\<close>)

lemma int_atom_value: "int_atom B a n s = Ok (v, l) \<Longrightarrow> \<bar>v\<bar> < 2 ^ (8 * l)"
proof -
  assume "int_atom B a n s = Ok (v, l)"
  then have "number B a n = (Ok v :: int eval) \<and> atom_len a n = (Ok l :: nat eval)"
    by (clarsimp simp: int_atom_def bindR_eq_Ok) (auto simp: bindR_eq_Ok err_def split: SExp.split_asm)
  then have v: "number B a n = (Ok v :: int eval)" and l: "atom_len a n = (Ok l :: nat eval)" by auto
  have "length bs = ab_len b" if "atom_range a b = (Ok bs :: bytes eval)" for b bs
    using that by (auto simp: atom_range_def slice_eq_Ok ab_len_def unat_sub word_le_nat_alt)
  note len = this
  obtain t where t: "object_type n = (Ok t :: ObjectType eval)" using l by (auto simp: atom_len_def bindR_eq_Ok)
  show ?thesis
  proof (cases t)
    case OBytes
    then obtain b bs where "get_idx (atom_vec a) (unat (index n)) = (Ok b :: AtomBuf eval)" "atom_range a b = (Ok bs :: bytes eval)"
        "v = number_from_u8 B bs" "l = ab_len b" using v l t by (auto simp: number_def atom_len_def bindR_eq_Ok)
    then show ?thesis using number_from_u8_less len by metis
  qed (use v l t uint_less in \<open>auto simp: number_def atom_len_def\<close>)
qed

lemma multiply_cost:
  fixes cost :: Cost
  assumes "unat cost \<le> 2 ^ 61" "6 * l0 \<le> unat cost + 2 ^ 36" "l1 < 2 ^ 32"
  defines "c \<equiv> cost + MUL_COST_PER_OP + of_nat (l0 + l1) * MUL_LINEAR_COST_PER_BYTE + of_nat (l0 * l1) div MUL_SQUARE_COST_PER_BYTE_DIVIDER"
  shows "unat c < 2 ^ 62 + 2 ^ 58" "6 * (l0 + l1) \<le> unat c"
proof -
  let ?q = "(of_nat (l0 * l1) :: u64) div MUL_SQUARE_COST_PER_BYTE_DIVIDER"
  have q: "unat ?q < 2 ^ 57" using unsigned_less [of "of_nat (l0 * l1) :: u64", where ?'a = nat]
    by (simp add: unat_div MUL_SQUARE_COST_PER_BYTE_DIVIDER_def less_mult_imp_div_less)
  have p: "unat (cost + MUL_COST_PER_OP) = unat cost + 885" using assms(1)
    by (subst unat_add_lem [THEN iffD1]) (simp_all add: MUL_COST_PER_OP_def)
  have "unat (cost + MUL_COST_PER_OP + of_nat (l0 + l1) * MUL_LINEAR_COST_PER_BYTE) = unat cost + 885 + (l0 + l1) * 6"
    using unat_linear_eq [of "cost + MUL_COST_PER_OP" "l0 + l1" MUL_LINEAR_COST_PER_BYTE] assms(1-3) p
    by (simp add: MUL_LINEAR_COST_PER_BYTE_def)
  moreover have "unat c = unat (cost + MUL_COST_PER_OP + of_nat (l0 + l1) * MUL_LINEAR_COST_PER_BYTE) + unat ?q"
    unfolding c_def using q assms(1-3) calculation by (subst unat_add_lem [THEN iffD1]) simp_all
  ultimately show "unat c < 2 ^ 62 + 2 ^ 58" "6 * (l0 + l1) \<le> unat c" using q assms(1-3) by simp_all
qed

lemma multiply_loop_cost:
  assumes "while_next a n (MUL_BASE_COST, True, 1, 0) (multiply_step B a m) = Ok (cost, y)" "unat m \<le> 2 ^ 61"
  shows "unat cost < 2 ^ 62 + 2 ^ 61"
proof -
  let ?I = "\<lambda>(cost :: Cost, first, v, l). unat cost < 2 ^ 62 + 2 ^ 58 \<and> (\<not> first \<longrightarrow> \<bar>v :: int\<bar> < 2 ^ (8 * l) \<and> 6 * l \<le> unat cost + 2 ^ 36)"
  have "?I (cost, y)"
  proof (rule while_next_inv [OF assms(1), where I = ?I])
    fix x s s'
    assume I: "?I s" and st: "multiply_step B a m x s = Ok s'"
    obtain c fst' v l where s: "s = (c, fst', v, l)" by (cases s)
    have c: "unat c \<le> 2 ^ 61" using st checked [OF _ assms(2)] by (auto simp: multiply_step_def s bindR_eq_Ok)
    show "?I s'"
    proof (cases fst')
      case True
      then obtain v' l' where "int_atom B a x ''*'' = Ok (v', l')" "s' = (c, False, v', l')"
        using st by (auto simp: multiply_step_def s bindR_eq_Ok)
      then show ?thesis using c int_atom_value int_atom_less by fastforce
    next
      case False
      obtain w l' where w: "int_arg B a x ''* requires int args'' = Ok (w, l')" "s' = (c + MUL_COST_PER_OP +
          of_nat (l + l') * MUL_LINEAR_COST_PER_BYTE + of_nat (l * l') div MUL_SQUARE_COST_PER_BYTE_DIVIDER,
          False, v * w, limbs_for_int B (v * w))"
        using st False by (auto simp: multiply_step_def s bindR_eq_Ok Let_def)
      have vw: "\<bar>v\<bar> < 2 ^ (8 * l)" "6 * l \<le> unat c + 2 ^ 36" "\<bar>w\<bar> < 2 ^ (8 * l')" "l' < 2 ^ 32"
        using I s False int_arg_value [OF w(1)] int_arg_less [OF w(1)] by auto
      have "\<bar>v * w\<bar> < 2 ^ (8 * l) * 2 ^ (8 * l')" unfolding abs_mult using vw(1,3) by (intro mult_strict_mono') auto
      then have "limbs_for_int B (v * w) \<le> l + l'" by (intro limbs_le) (simp add: power_add distrib_left)
      moreover have "\<bar>v * w\<bar> < 2 ^ (8 * limbs_for_int B (v * w))"
      proof -
        have "\<bar>v * w\<bar> < 2 ^ bi_bits B (v * w)" by (rule bits_upper)
        also have "\<dots> \<le> 2 ^ (8 * limbs_for_int B (v * w))" by (intro power_increasing) (auto simp: limbs_for_int_def)
        finally show ?thesis .
      qed
      ultimately show ?thesis using multiply_cost [OF c vw(2,4)] w(2) by auto
    qed
  qed (simp add: MUL_BASE_COST_def)
  then show ?thesis by (auto split: prod.splits)
qed

lemma priced_multiply: "unat m \<le> 2 ^ 61 \<Longrightarrow> priced (op_multiply B a n m)"
  unfolding op_multiply_def by (intro priced_intros) (use multiply_loop_cost in force)

lemma shift_limbs:
  assumes "\<bar>i\<bar> < 2 ^ (8 * l)" "-65535 \<le> k" "k \<le> 65535"
  shows "limbs_for_int B (shift_int i k) \<le> l + 8192"
proof (rule limbs_le)
  define N :: nat where "N = 8 * 8192"
  have N: "nat k \<le> N" using assms(3) by (simp add: N_def)
  have "\<bar>shift_int i k\<bar> \<le> \<bar>i\<bar> * 2 ^ N"
  proof (cases "0 < k")
    case True
    have "(2 :: int) ^ nat k \<le> 2 ^ N" using N by (intro power_increasing) auto
    then show ?thesis using True by (simp add: shift_int_def abs_mult mult_left_mono)
  next
    case False
    have "\<bar>i div 2 ^ nat (- k)\<bar> \<le> \<bar>i\<bar>" by (rule div_abs_le) simp
    also have "\<dots> = \<bar>i\<bar> * 1" by simp
    also have "\<dots> \<le> \<bar>i\<bar> * 2 ^ N" by (intro mult_left_mono one_le_power) auto
    finally show ?thesis using False by (simp add: shift_int_def)
  qed
  also have "\<dots> < 2 ^ (8 * l) * 2 ^ N" using assms(1) by (intro mult_strict_right_mono zero_less_power) auto
  also have "\<dots> = 2 ^ (8 * (l + 8192))" by (simp only: distrib_left power_add N_def)
  finally show "\<bar>shift_int i k\<bar> < 2 ^ (8 * (l + 8192))" .
qed

lemma shift_length: "\<bar>i\<bar> < 2 ^ (8 * l) \<Longrightarrow> l < 2 ^ 32 \<Longrightarrow> -65535 \<le> k \<Longrightarrow> k \<le> 65535 \<Longrightarrow>
    l + limbs_for_int B (shift_int i k) < 2 ^ 40"
  using shift_limbs [of i l k] by simp

lemma priced_ash: "priced (op_ash B a n m)"
  unfolding op_ash_def Let_def
proof (intro priced_intros unat_linear_62)
  fix x y i l and k :: int
  assume "int_atom B a (x ! 0) ''ash'' = Ok y" "y = (i, l)" "\<not> \<not> (- 65535 \<le> k \<and> k \<le> 65535)"
  then show "l + limbs_for_int B (shift_int i k) < 2 ^ 40"
    using shift_length int_atom_value int_atom_less by blast
qed (simp_all add: op_costs)

lemma priced_lsh: "priced (op_lsh B a n m)"
  unfolding op_lsh_def Let_def
proof (intro priced_intros unat_linear_62)
  fix x bs and k :: int
  assume "util_atom_bytes a (x ! 0) ''lsh'' = Ok bs" "\<not> \<not> (- 65535 \<le> k \<and> k \<le> 65535)"
  moreover have "\<bar>from_bytes_be B bs\<bar> < 2 ^ (8 * length bs)"
    using be_nat_less_int [of bs] by (simp add: from_unsigned power_mult)
  ultimately show "length bs + limbs_for_int B (shift_int (from_bytes_be B bs) k) < 2 ^ 40"
    using shift_length util_atom_bytes_less by blast
qed (simp_all add: op_costs)

end

section \<open>The dialects\<close>

context ext_laws
begin

lemma priced_chia_ops: "unat m \<le> 2 ^ 61 \<Longrightarrow> \<forall>(c, f) \<in> set (chia_ops E). priced (f a n m)"
  by (simp add: chia_ops_def priced_core priced_raise priced_eq priced_arith priced_gr priced_divmod priced_pubkey priced_negate
      priced_multiply_point priced_map priced_modpow priced_add priced_subtract priced_logic priced_concat priced_paid priced_pairing
      priced_sha256 priced_coinid priced_multiply priced_ash priced_lsh)

lemma priced_lookup:
  assumes "chia_op_lookup E flags op = Some f" "unat m \<le> 2 ^ 61"
  shows "priced (f a n m)"
proof (cases "op = 62 \<and> flags AND ENABLE_KECCAK_OPS_OUTSIDE_GUARD \<noteq> 0")
  case True
  then show ?thesis using assms priced_keccak256 by (auto simp: chia_op_lookup_def)
next
  case False
  then have "(unat op, f) \<in> set (chia_ops E)" using assms(1) by (auto simp: chia_op_lookup_def dest: map_of_SomeD)
  then show ?thesis using priced_chia_ops [OF assms(2)] by blast
qed

lemma priced_unknown_operator: "priced (unknown_operator a p n flags m)"
  unfolding unknown_operator_def by (intro priced_intros priced_unknown)

lemma priced_chia: "unat m \<le> 2 ^ 61 \<Longrightarrow> priced (chia_dialect_op E flags a p n m ext)"
  unfolding chia_dialect_op_def Let_def
  by (intro priced_intros priced_secp priced_unknown_operator priced_lookup) auto

end

sublocale ext_laws \<subseteq> chia_metered: metered_dialect "chia_dialect E flags" for flags
  by unfold_locales (use priced_chia in \<open>simp add: chia_dialect_def priced_def; blast\<close>)

end
