(* ===== verification/InterpreterProps.thy ===== *)
theory InterpreterProps
  imports RunLoop OpCosts AllocatorProps
begin

text \<open>
  The properties of the interpreter: path lookup, the cost limit, and the correspondence of a run on the heap with the run on values.
\<close>

context ext_laws
begin

lemma chia_op_refines:
  "alloc_ok a \<Longrightarrow> rep a p (CAtom op) \<Longrightarrow> rep a n t \<Longrightarrow> unat m \<le> 2 ^ 62 \<Longrightarrow>
   refines (v_chia_op E flags op t m ext) (dialect_op (chia_dialect E flags) a p n m ext)"
  by (rule chia.op_respects)

lemmas chia_run = chia.run_program_sim

lemma chia_run_returns:
  "0 < max_cost \<Longrightarrow> unat max_cost \<le> 2 ^ 61 \<Longrightarrow>
   \<exists>r a'. run_program B (chia_dialect E flags) a program env max_cost = Some (r, a')"
  by (rule chia_metered.run_returns)

end

section \<open>A program for the witnesses\<close>

text \<open>The program \<open>(q . 5)\<close> in an allocator of its own.\<close>

definition ex_quote_alloc :: Allocator where
  "ex_quote_alloc = \<lparr> u8_vec = [], pair_vec = [\<lparr> ip_first = node_new OSmallAtom 1, ip_rest = node_new OSmallAtom 5 \<rparr>],
     atom_vec = [], heap_limit = 99, small_atoms = 3 \<rparr>"

definition ex_quote :: NodePtr where
  "ex_quote = node_new OPair 0"

lemma ex_bytes: "int_bytes 5 = [5]" "int_bytes 32 = [32]"
  by code_simp+

lemma ex_quote_ok: "alloc_ok ex_quote_alloc" "rep ex_quote_alloc ex_quote (CPair (CAtom [1]) (CAtom [5]))"
proof -
  show "alloc_ok ex_quote_alloc"
    by (simp add: ex_quote_alloc_def alloc_ok_def heap_ok_def node_below_def u32_max_def MAX_NUM_ATOMS_def MAX_NUM_PAIRS_def)
  have "rep ex_quote_alloc (node_new OSmallAtom 5) (CAtom [5])" "rep ex_quote_alloc (node_new OSmallAtom 1) (CAtom [1])"
    using rep_small_new [of 5 ex_quote_alloc] rep_small_new [of 1 ex_quote_alloc] ex_bytes by simp_all
  then show "rep ex_quote_alloc ex_quote (CPair (CAtom [1]) (CAtom [5]))"
    unfolding ex_quote_def by (intro rep.rep_pair) (simp_all add: ex_quote_alloc_def)
qed

definition ex_quote_end :: Allocator where
  "ex_quote_end = ex_quote_alloc\<lparr> small_atoms := 4 \<rparr>"

definition ex_quote_state :: RunProgramContext where
  "ex_quote_state = \<lparr> allocator = ex_quote_end, val_stack = [node_new OSmallAtom 5], env_stack = [],
     op_stack = [], softfork_stack = [] \<rparr>"

lemma ex_start:
  "new_number ref_bigint ex_quote_alloc 1000 = (Ok (node_new OSmallAtom 1000), ex_quote_end)"
  by (simp add: new_number_def to_u32_def NODE_PTR_IDX_MASK_def NODE_PTR_IDX_BITS_def new_small_number_def
      check_atom_limit_def ex_quote_alloc_def ex_quote_end_def MAX_NUM_ATOMS_def)

lemma ex_eval:
  "eval_pair (chia_dialect ref_ext flags)
     \<lparr> allocator = ex_quote_end, val_stack = [], env_stack = [], op_stack = [], softfork_stack = [] \<rparr> ex_quote node_NIL =
   (Ok 20, ex_quote_state)"
  by (simp add: eval_pair_def eval_op_atom_def sexp_def object_type_kind ex_quote_def get_idx_def ex_quote_end_def
      ex_quote_alloc_def small_number_def chia_dialect_def push_def STACK_SIZE_LIMIT_def QUOTE_COST_def ex_quote_state_def)

lemma ex_iter: "run_iter (chia_dialect ref_ext flags) 1000 mp 20 ex_quote_state = (Ok None, ex_quote_state)"
  by (simp add: run_iter_def ex_quote_state_def effective_max_cost_def)

lemma ex_run:
  "run_program ref_bigint (chia_dialect ref_ext flags) ex_quote_alloc ex_quote node_NIL 1000 =
     Some (Ok (Reduction 20 (node_new OSmallAtom 5)), ex_quote_end)"
  by (simp add: run_program_def context_run_program_def context_new_def ex_start ex_eval run_loop.simps ex_iter)
     (simp add: ex_quote_state_def pop_def)

lemma ex_states:
  assumes "t \<in> run_states ref_bigint (chia_dialect ref_ext flags) ex_quote_alloc ex_quote node_NIL 1000"
  shows "heap_ok (allocator t)"
proof -
  have r: "allocator t = ex_quote_end" if "reach (chia_dialect ref_ext flags) 1000 mp 20 ex_quote_state c t" for mp c t
  proof -
    have "c = 20 \<and> t = ex_quote_state" using that by induction (auto simp: ex_iter)
    then show ?thesis by (simp add: ex_quote_state_def)
  qed
  have "allocator t = ex_quote_end"
    using assms ex_start by (auto simp: run_states_def cost_limit_def context_new_def ex_eval dest: r)
  then show ?thesis by (simp add: heap_ok_def ex_quote_end_def ex_quote_alloc_def u32_max_def)
qed

section \<open>Paths\<close>

text \<open>
  C7. The fast path lookup for small atoms agrees with the general one: on every 32-bit value
  and every environment, the response of \<open>traverse_path_fast\<close> (cost, node or error) is that of
  \<open>traverse_path\<close> on the bytes the value stands for.
\<close>

theorem traverse_path_fast_equiv:
  "traverse_path_fast a w args = traverse_path a (int_bytes (uint w)) args"
  by (rule traverse_path_fast_eq)

text \<open>
  C8. Path lookup follows the bits of the path from the least significant one: the response of
  \<open>traverse_path\<close> on an environment of value \<open>t\<close> is the node of the subtree that the path
  selects, with a cost of 44, 4 per leading zero byte and 4 per bit, or the error
  \<open>path into atom\<close> at the atom the path runs into.
\<close>

theorem traverse_path_correct:
  assumes "rep a env t"
  shows "case v_path path t of
      Inr (c, u) \<Rightarrow> \<exists>q. traverse_path a path env = Ok (Reduction c q) \<and> rep a q u
    | Inl (u, msg) \<Rightarrow> msg = ''path into atom'' \<and> (\<exists>q. traverse_path a path env = Err (EvalErr q msg) \<and> rep a q u)"
  using rep_walk [OF assms, of "be_nat path"]
  by (auto simp: traverse_path_walk v_path_def err_def split: sum.splits)

theorem traverse_path_correct_witness:
  "\<exists>q. traverse_path ex_quote_alloc [3] ex_quote = Ok (Reduction 48 q) \<and> rep ex_quote_alloc q (CAtom [5])"
proof -
  have "v_path [3] (CPair (CAtom [1]) (CAtom [5])) = Inr (48, CAtom [5])" by code_simp
  with traverse_path_correct [OF ex_quote_ok(2), of "[3]"] show ?thesis by simp
qed

section \<open>Runs\<close>

text \<open>
  C3. A run never reports a cost above its limit: whatever the dialect does, a response of
  \<open>run_program\<close> with a result carries a cost of at most \<open>max_cost\<close>, with 0 standing for the
  largest cost.
\<close>

theorem run_program_cost_bound:
  assumes "run_program B D a program env max_cost = Some (Ok (Reduction cost n), a')"
  shows "max_cost \<noteq> 0 \<longrightarrow> cost \<le> max_cost"
  using run_program_cost_le [OF assms] by (simp add: cost_limit_def split: if_splits)

theorem run_program_cost_bound_witness:
  "run_program ref_bigint (chia_dialect ref_ext 0) ex_quote_alloc ex_quote node_NIL 1000 =
     Some (Ok (Reduction 20 (node_new OSmallAtom 5)), ex_quote_end) \<and> (20 :: Cost) \<le> 1000"
  using run_program_cost_bound [OF ex_run] ex_run [of 0] by simp

text \<open>
  C1. A run on the heap is the run on values: under the Chia dialect, with a well-formed allocator, a
  program and an environment that denote values, a limit between 1 and 2^62, and as long as the byte
  vector has at most 2^32 - 1 bytes in every state of the run and at its end, a call of \<open>run_program\<close>
  that returns gives the cost and a node of the value that \<open>v_run_program\<close> computes, its error, or
  a resource error of the allocator; it does not panic and reports no internal error of the
  stacks. The condition on the byte vector is not ensured by the allocator, since \<open>new_substr\<close> can
  exceed the heap limit; it is one on the run alone, and for limits up to 2^34 the cost ensures it.
\<close>

theorem run_program_refines:
  assumes "ext_laws E" "bigint_laws B" "alloc_ok a" "rep a p P" "rep a e V"
    "0 < max_cost" "unat max_cost \<le> 2 ^ 62"
    "run_program B (chia_dialect E flags) a p e max_cost = Some (r, a')"
    "\<forall>s \<in> run_states B (chia_dialect E flags) a p e max_cost. heap_ok (allocator s)" "heap_ok a'"
  shows "good_end (v_run_program (chia_dialect E flags) (v_chia_op E flags) 1 2 36 P V max_cost) r a'"
proof -
  have "cost_limit max_cost = max_cost" using assms(6) by (auto simp: cost_limit_def)
  then show ?thesis
    using ext_laws.chia_run [OF assms(1-5) _ assms(8)] assms(7,9,10) by simp
qed

theorem run_program_refines_witness:
  "v_run_program (chia_dialect ref_ext 0) (v_chia_op ref_ext 0) 1 2 36 (CPair (CAtom [1]) (CAtom [5])) (CAtom []) 1000 =
     Some (Inr (20, CAtom [5]))"
proof -
  have h: "heap_ok ex_quote_end" by (simp add: heap_ok_def ex_quote_end_def ex_quote_alloc_def u32_max_def)
  have r: "rep ex_quote_end (node_new OSmallAtom 5) (CAtom [5])"
    using rep_small_new [of 5 ex_quote_end] ex_bytes by simp
  have "good_end (v_run_program (chia_dialect ref_ext 0) (v_chia_op ref_ext 0) 1 2 36 (CPair (CAtom [1]) (CAtom [5])) (CAtom []) 1000)
      (Ok (Reduction 20 (node_new OSmallAtom 5))) ex_quote_end"
    by (rule run_program_refines [OF ref_libs.ext_laws_axioms ref.bigint_laws_axioms ex_quote_ok rep_NIL _ _ ex_run _ h])
       (auto intro: ex_states)
  then show ?thesis using rep_det [OF r] by (auto simp: good_end_def)
qed

text \<open>
  C4. A run ends: with a cost limit between 1 and 2^61, \<open>run_program\<close> under the Chia dialect
  returns a result, an error or a panic on every allocator, program and environment, well-formed
  or not. No program makes the interpreter loop: every iteration of it adds to the cost or
  shortens the stack of operations.
\<close>

theorem run_program_returns:
  assumes "ext_laws E" "0 < max_cost" "unat max_cost \<le> 2 ^ 61"
  shows "\<exists>r a'. run_program B (chia_dialect E flags) a program env max_cost = Some (r, a')"
  by (rule ext_laws.chia_run_returns [OF assms])

theorem run_program_returns_witness:
  "\<exists>r a'. run_program ref_bigint (chia_dialect ref_ext 0) ex_quote_alloc ex_quote ex_quote 11000000000 = Some (r, a')"
  by (rule run_program_returns [OF ref_libs.ext_laws_axioms]) simp_all

end
