(* ===== verification/AtomCodec.thy ===== *)
theory AtomCodec
  imports AllocHeap
begin

unbundle bit_operations_syntax

text \<open>
  The encoding of atoms: \<open>src/src/serde/write_atom.rs\<close>, \<open>parse_atom.rs\<close>,
  \<open>serialized_length.rs\<close>, \<open>errors.rs\<close> and \<open>utils.rs\<close>, with the parts of
  \<open>std::io\<close> they use. A reader is a cursor over a byte slice; a call that fails gives no
  cursor back, because every caller passes the error on. A writer is any type with a
  \<open>write_all\<close> that appends to what was written or fails.
\<close>

section \<open>Readers and writers\<close>

datatype ErrorKind = InvalidInput | InvalidData | UnexpectedEof | OutOfMemory | OtherKind

datatype io_error = IoErr (io_kind: ErrorKind) (io_msg: string)

type_synonym 'a io = "(io_error, 'a) outcome"

record Cursor =
  get_ref :: bytes
  position :: nat

definition cursor_new :: "bytes \<Rightarrow> Cursor" where
  "cursor_new b = \<lparr> get_ref = b, position = 0 \<rparr>"

definition remaining :: "Cursor \<Rightarrow> bytes" where
  "remaining f = drop (position f) (get_ref f)"

definition read_exact :: "nat \<Rightarrow> Cursor \<Rightarrow> (bytes \<times> Cursor) io" where
  "read_exact n f =
     (if length (remaining f) < n then Err (IoErr UnexpectedEof ''failed to fill whole buffer'')
      else Ok (take n (remaining f), f\<lparr> position := position f + n \<rparr>))"

definition seek_current :: "nat \<Rightarrow> Cursor \<Rightarrow> Cursor" where
  "seek_current n f = f\<lparr> position := position f + n \<rparr>"

definition bad_encoding :: io_error where
  "bad_encoding = IoErr InvalidInput ''bad encoding''"

definition internal_error :: io_error where
  "internal_error = IoErr InvalidInput ''internal error''"

definition io_from_eval :: "EvalErr \<Rightarrow> io_error" where
  "io_from_eval v = IoErr OtherKind (err_msg v)"

text \<open>\<open>copy_exactly\<close> hands the bytes it reads to a writer that never fails.\<close>

definition copy_exactly :: "Cursor \<Rightarrow> nat \<Rightarrow> (bytes \<times> Cursor) io" where
  "copy_exactly f expected_size =
     (let blob = take expected_size (remaining f); count = length blob in
      if count < expected_size then Err (IoErr UnexpectedEof ''copy terminated early'')
      else Ok (blob, f\<lparr> position := position f + count \<rparr>))"

definition skip_bytes :: "Cursor \<Rightarrow> nat \<Rightarrow> Cursor io" where
  "skip_bytes f sz = bindR (copy_exactly f sz) (\<lambda>(_, f). Ok f)"

type_synonym 'w write_all = "'w \<Rightarrow> bytes \<Rightarrow> unit io \<times> 'w"

section \<open>Writing an atom\<close>

definition write_atom_encoding_prefix_with_size :: "'w write_all \<Rightarrow> 'w \<Rightarrow> u8 \<Rightarrow> u64 \<Rightarrow> unit io \<times> 'w" where
  "write_atom_encoding_prefix_with_size wr f atom_0 sz =
     (if sz = 0 then wr f [0x80]
      else if sz = 1 \<and> atom_0 < 0x80 then (Ok (), f)
      else if sz < 0x40 then wr f [0x80 OR ucast sz]
      else if sz < 0x2000 then wr f [0xc0 OR ucast (drop_bit 8 sz), ucast sz]
      else if sz < 0x100000 then
        wr f [ucast (0xe0 OR drop_bit 16 sz), ucast (drop_bit 8 sz AND 0xff), ucast (sz AND 0xff)]
      else if sz < 0x8000000 then
        wr f [ucast (0xf0 OR drop_bit 24 sz), ucast (drop_bit 16 sz AND 0xff), ucast (drop_bit 8 sz AND 0xff),
              ucast (sz AND 0xff)]
      else if sz < 0x400000000 then
        wr f [ucast (0xf8 OR drop_bit 32 sz), ucast (drop_bit 24 sz AND 0xff), ucast (drop_bit 16 sz AND 0xff),
              ucast (drop_bit 8 sz AND 0xff), ucast (sz AND 0xff)]
      else (Err (IoErr InvalidData ''atom too big''), f))"

definition write_atom :: "'w write_all \<Rightarrow> 'w \<Rightarrow> bytes \<Rightarrow> unit io \<times> 'w" where
  "write_atom wr f v =
     (let u8_0 = (if v \<noteq> [] then v ! 0 else 0) in
      tryS (write_atom_encoding_prefix_with_size wr f u8_0 (of_nat (length v))) (\<lambda>_ f. wr f v))"

section \<open>Reading an atom\<close>

definition MAX_SINGLE_BYTE :: u8 where "MAX_SINGLE_BYTE = 0x7f"

definition leading_ones :: "u8 \<Rightarrow> nat" where
  "leading_ones b = length (takeWhile (bit b) [7, 6, 5, 4, 3, 2, 1, 0])"

definition decode_size_with_offset :: "Cursor \<Rightarrow> u8 \<Rightarrow> ((nat \<times> u64) \<times> Cursor) io" where
  "decode_size_with_offset f initial_b =
     (if initial_b AND 0x80 = 0 then Err internal_error
      else
        let atom_start_offset = leading_ones initial_b in
        if atom_start_offset \<ge> 8 then Err bad_encoding
        else
          let bit_mask = drop_bit atom_start_offset (0xff :: u8); b = initial_b AND bit_mask in
          bindR (if atom_start_offset > 1 then read_exact (atom_start_offset - 1) f else Ok ([], f)) (\<lambda>(rest, f).
          let size_blob = b # rest in
          if length size_blob > 6 then Err bad_encoding
          else
            let atom_size = foldl (\<lambda>s b. push_bit 8 s + ucast b) (0 :: u64) size_blob in
            if atom_size \<ge> 0x400000000 then Err bad_encoding
            else Ok ((atom_start_offset, atom_size), f)))"

definition decode_size :: "Cursor \<Rightarrow> u8 \<Rightarrow> (u64 \<times> Cursor) io" where
  "decode_size f initial_b = bindR (decode_size_with_offset f initial_b) (\<lambda>((_, s), f). Ok (s, f))"

definition parse_atom_ptr :: "Cursor \<Rightarrow> u8 \<Rightarrow> (bytes \<times> Cursor) io" where
  "parse_atom_ptr f first_byte =
     (if first_byte \<le> MAX_SINGLE_BYTE then
        bindR (slice (get_ref f) (usize_sub (position f) 1) (position f)) (\<lambda>blob. Ok (blob, f))
      else
        bindR (decode_size f first_byte) (\<lambda>(blob_size, f).
        let pos = position f in
        if length (get_ref f) < pos + unat blob_size then Err bad_encoding
        else
          let f = seek_current (unat blob_size) f in
          bindR (slice (get_ref f) pos (pos + unat blob_size)) (\<lambda>blob. Ok (blob, f))))"

definition parse_atom :: "Allocator \<Rightarrow> u8 \<Rightarrow> Cursor \<Rightarrow> (NodePtr \<times> Cursor) io \<times> Allocator" where
  "parse_atom a first_byte f =
     (if first_byte = 0x01 then (Ok (one a, f), a)
      else if first_byte = 0x80 then (Ok (nil a, f), a)
      else
        tryR (parse_atom_ptr f first_byte) a (\<lambda>(blob, f).
        let (r, a) = new_atom a blob in (map_err io_from_eval (bindR r (\<lambda>n. Ok (n, f))), a)))"

definition parse_path :: "Cursor \<Rightarrow> (bytes \<times> Cursor) io" where
  "parse_path f = bindR (read_exact 1 f) (\<lambda>(buf1, f). parse_atom_ptr f (buf1 ! 0))"

section \<open>Lengths\<close>

definition serialized_length_atom :: "bytes \<Rightarrow> u32" where
  "serialized_length_atom buf =
     (let lb = of_nat (length buf) :: u32 in
      if lb = 0 \<or> (lb = 1 \<and> buf ! 0 < 128) then 1
      else if lb < 0x40 then 1 + lb
      else if lb < 0x2000 then 2 + lb
      else if lb < 0x100000 then 3 + lb
      else if lb < 0x8000000 then 4 + lb
      else 5 + lb)"

definition serialized_length_small_number :: "u32 \<Rightarrow> u32" where
  "serialized_length_small_number val = of_nat (len_for_value val) + 1"

end
