(* ===== verification/AtomCodecSpec.thy ===== *)
theory AtomCodecSpec
  imports AtomCodec
begin

unbundle bit_operations_syntax

text \<open>
  The encoding of atoms as a format: a byte below 0x80 stands for itself; any other atom is
  a length prefix and its bytes. A prefix of \<open>k\<close> bytes starts with \<open>k\<close> one bits and a
  zero, and holds the length in the remaining \<open>7 k - 1\<close> bits. The writer uses the shortest
  prefix, the reader accepts any up to six bytes for lengths below \<open>2 ^ 34\<close>.
\<close>

section \<open>The format\<close>

definition size_prefix :: "nat \<Rightarrow> nat \<Rightarrow> bytes" where
  "size_prefix k n = of_nat (256 - 2 ^ (8 - k) + n div 256 ^ (k - 1)) # be_bytes (k - 1) n"

definition prefix_ok :: "nat \<Rightarrow> nat \<Rightarrow> bool" where
  "prefix_ok k n \<longleftrightarrow> 1 \<le> k \<and> k \<le> 6 \<and> n < 2 ^ (7 * k - 1) \<and> n < 2 ^ 34"

definition shortest_prefix :: "nat \<Rightarrow> nat" where
  "shortest_prefix n =
     (if n < 0x40 then 1 else if n < 0x2000 then 2 else if n < 0x100000 then 3 else if n < 0x8000000 then 4 else 5)"

text \<open>\<open>atom_enc bs s\<close>: the bytes \<open>s\<close> are an encoding of the atom \<open>bs\<close>.\<close>

definition atom_enc :: "bytes \<Rightarrow> bytes \<Rightarrow> bool" where
  "atom_enc bs s \<longleftrightarrow>
     (\<exists>b. unat b < 128 \<and> bs = [b] \<and> s = [b]) \<or> (\<exists>k. prefix_ok k (length bs) \<and> s = size_prefix k (length bs) @ bs)"

definition atom_ser :: "bytes \<Rightarrow> bytes" where
  "atom_ser bs =
     (if length bs = 1 \<and> unat (bs ! 0) < 128 then bs else size_prefix (shortest_prefix (length bs)) (length bs) @ bs)"

lemma shortest_prefix_ok: "n < 2 ^ 34 \<Longrightarrow> prefix_ok (shortest_prefix n) n"
  by (auto simp: shortest_prefix_def prefix_ok_def)

lemma shortest_prefix_least: "prefix_ok k n \<Longrightarrow> shortest_prefix n \<le> k"
proof -
  assume ok: "prefix_ok k n"
  then have "k \<in> {1, 2, 3, 4, 5, 6}" by (auto simp: prefix_ok_def)
  with ok show ?thesis by (auto simp: shortest_prefix_def prefix_ok_def)
qed

lemma atom_enc_ser: "length bs < 2 ^ 34 \<Longrightarrow> atom_enc bs (atom_ser bs)"
proof -
  assume l: "length bs < 2 ^ 34"
  have "\<exists>b. bs = [b]" if "length bs = 1" using that by (cases bs) auto
  then show ?thesis using shortest_prefix_ok [OF l] by (auto simp: atom_enc_def atom_ser_def)
qed

lemma length_atom_ser:
  "length (atom_ser bs) = (if length bs = 1 \<and> unat (bs ! 0) < 128 then 1 else shortest_prefix (length bs) + length bs)"
  by (auto simp: atom_ser_def size_prefix_def shortest_prefix_def)

text \<open>No encoding of an atom is shorter than the writer's.\<close>

lemma atom_ser_shortest: "atom_enc bs s \<Longrightarrow> length (atom_ser bs) \<le> length s"
proof -
  assume "atom_enc bs s"
  then consider b where "unat b < 128" "bs = [b]" "s = [b]"
    | k where "prefix_ok k (length bs)" "s = size_prefix k (length bs) @ bs" by (auto simp: atom_enc_def)
  then show ?thesis
  proof cases
    case 2
    then show ?thesis using shortest_prefix_least [OF 2(1)]
      by (auto simp: length_atom_ser size_prefix_def prefix_ok_def)
  qed (simp add: length_atom_ser)
qed

section \<open>Bytes of a length\<close>

lemma leading_ones_table:
  "\<forall>i \<in> set [0..<256]. leading_ones (of_nat i :: u8) =
     (if i < 128 then 0 else if i < 192 then 1 else if i < 224 then 2 else if i < 240 then 3
      else if i < 248 then 4 else if i < 252 then 5 else if i < 254 then 6 else if i < 255 then 7 else 8)"
  by code_simp

lemma mask_table:
  "\<forall>i \<in> set [128..<255]. (of_nat i :: u8) AND drop_bit (leading_ones (of_nat i)) 0xff =
     of_nat (i - (256 - 2 ^ (8 - leading_ones (of_nat i :: u8))))"
  by code_simp

lemmas leading_ones_tab = leading_ones_table [unfolded set_upt, rule_format]
lemmas mask_tab = mask_table [unfolded set_upt, rule_format]

lemma leading_ones_unat:
  "leading_ones b =
     (if unat b < 128 then 0 else if unat b < 192 then 1 else if unat b < 224 then 2 else if unat b < 240 then 3
      else if unat b < 248 then 4 else if unat b < 252 then 5 else if unat b < 254 then 6 else if unat b < 255 then 7 else 8)"
  using leading_ones_tab [of "unat b"] by simp

lemma leading_ones_iff:
  assumes "1 \<le> k" "k \<le> 7"
  shows "leading_ones b = k \<longleftrightarrow> 256 - 2 ^ (8 - k) \<le> unat b \<and> unat b < 256 - 2 ^ (7 - k)"
proof -
  have "k \<in> {1, 2, 3, 4, 5, 6, 7}" using assms by auto
  then show ?thesis by (auto simp: leading_ones_unat)
qed

lemma masked_byte:
  assumes "leading_ones b = k" "1 \<le> k" "k \<le> 7"
  shows "unat (b AND drop_bit k 0xff) = unat b - (256 - 2 ^ (8 - k))"
proof -
  have r: "256 - 2 ^ (8 - k) \<le> unat b" "unat b < 256 - 2 ^ (7 - k)" using assms leading_ones_iff by auto
  have "k \<in> {1, 2, 3, 4, 5, 6, 7}" using assms by auto
  then have "128 \<le> unat b" "unat b < 255" using r by auto
  then have "b AND drop_bit k 0xff = of_nat (unat b - (256 - 2 ^ (8 - k)))"
    using mask_tab [of "unat b"] assms(1) by simp
  moreover have "unat b - (256 - 2 ^ (8 - k)) < 256" by (rule le_less_trans [OF diff_le_self unat_u8_less])
  ultimately show ?thesis by (simp add: unat_of_nat)
qed

lemma size_fold: "foldl (\<lambda>s b. push_bit 8 s + ucast b) (0 :: u64) bs = of_nat (be_nat bs)"
  by (induction bs rule: rev_induct) (simp_all add: push_bit_eq_mult)

section \<open>The decoder\<close>

lemma be_nat_prefix:
  assumes "n < 2 ^ (7 * k - 1)" "1 \<le> k" "k \<le> 7"
  shows "n div 256 ^ (k - 1) < 2 ^ (7 - k)" "n = n div 256 ^ (k - 1) * 256 ^ (k - 1) + be_nat (be_bytes (k - 1) n)"
proof -
  have "(256 :: nat) ^ (k - 1) = 2 ^ (8 * (k - 1))" by (simp add: power_mult)
  then have "(2 :: nat) ^ (7 * k - 1) = 2 ^ (7 - k) * 256 ^ (k - 1)" using assms by (simp flip: power_add)
  then show "n div 256 ^ (k - 1) < 2 ^ (7 - k)" using assms(1) by (simp add: less_mult_imp_div_less)
  show "n = n div 256 ^ (k - 1) * 256 ^ (k - 1) + be_nat (be_bytes (k - 1) n)"
    unfolding be_nat_be_bytes by (rule div_mult_mod_eq [symmetric])
qed

lemma size_prefix_hd:
  assumes "prefix_ok k n"
  shows "unat (hd (size_prefix k n)) = 256 - 2 ^ (8 - k) + n div 256 ^ (k - 1)" "leading_ones (hd (size_prefix k n)) = k"
proof -
  have k: "1 \<le> k" "k \<le> 7" "n < 2 ^ (7 * k - 1)" using assms by (auto simp: prefix_ok_def)
  have q: "n div 256 ^ (k - 1) < 2 ^ (7 - k)" by (rule be_nat_prefix [OF k(3,1,2)])
  have ar: "x \<le> 128 \<Longrightarrow> y < x \<Longrightarrow> 256 - 2 * x + y < 256 - x" for x y :: nat by linarith
  have p: "(2 :: nat) ^ (8 - k) = 2 * 2 ^ (7 - k)" using k by (simp add: Suc_diff_le flip: power_Suc)
  have "(2 :: nat) ^ (8 - k) \<le> 2 ^ 8" by (rule power_increasing) auto
  then have lt: "256 - 2 ^ (8 - k) + n div 256 ^ (k - 1) < 256 - 2 ^ (7 - k)"
    using ar [of "2 ^ (7 - k)" "n div 256 ^ (k - 1)"] p q by simp
  then show u: "unat (hd (size_prefix k n)) = 256 - 2 ^ (8 - k) + n div 256 ^ (k - 1)"
    by (simp add: size_prefix_def unat_of_nat del: of_nat_add)
  show "leading_ones (hd (size_prefix k n)) = k" using leading_ones_iff [OF k(1,2)] lt u by simp
qed

lemma size_prefix_value:
  assumes "prefix_ok k n"
  shows "be_nat ((hd (size_prefix k n) AND drop_bit k 0xff) # tl (size_prefix k n)) = n"
proof -
  have k: "1 \<le> k" "k \<le> 7" "n < 2 ^ (7 * k - 1)" using assms by (auto simp: prefix_ok_def)
  show ?thesis
    using masked_byte [OF size_prefix_hd(2) [OF assms] k(1,2)] be_nat_prefix(2) [OF k(3,1,2)] size_prefix_hd(1) [OF assms]
    by (simp add: be_nat_Cons size_prefix_def)
qed

lemma size_prefix_decoded:
  assumes "leading_ones b = k" "1 \<le> k" "k \<le> 6" "length rest = k - 1" "be_nat ((b AND drop_bit k 0xff) # rest) < 2 ^ 34"
  defines "n \<equiv> be_nat ((b AND drop_bit k 0xff) # rest)"
  shows "prefix_ok k n" "size_prefix k n = b # rest"
proof -
  have r: "256 - 2 ^ (8 - k) \<le> unat b" "unat b < 256 - 2 ^ (7 - k)" using assms leading_ones_iff [of k b] by auto
  have u: "unat (b AND drop_bit k 0xff) = unat b - (256 - 2 ^ (8 - k))" using masked_byte [OF assms(1,2)] assms(3) by simp
  have q: "n div 256 ^ (k - 1) = unat b - (256 - 2 ^ (8 - k))" "n mod 256 ^ (k - 1) = be_nat rest"
    using be_nat_less [of rest] unfolding assms(4) [symmetric] by (simp_all add: n_def be_nat_Cons u)
  have "be_bytes (k - 1) n = rest" by (rule be_nat_inj) (use assms(4) q(2) in \<open>simp_all add: be_nat_be_bytes\<close>)
  then   show "size_prefix k n = b # rest" using r q by (simp add: size_prefix_def del: of_nat_add)
  have "(2 :: nat) ^ (8 - k) = 2 * 2 ^ (7 - k)" using assms by (simp add: Suc_diff_le flip: power_Suc)
  moreover have "256 - 2 * x \<le> y \<Longrightarrow> y < 256 - x \<Longrightarrow> y - (256 - 2 * x) < x" for x y :: nat by linarith
  ultimately have "n div 256 ^ (k - 1) < 2 ^ (7 - k)" using r q(1) by simp
  then have "n < 2 ^ (7 - k) * 256 ^ (k - 1)" by (simp add: div_less_iff_less_mult)
  also have "(256 :: nat) ^ (k - 1) = 2 ^ (8 * (k - 1))" by (simp add: power_mult)
  also have "(2 :: nat) ^ (7 - k) * 2 ^ (8 * (k - 1)) = 2 ^ (7 * k - 1)" using assms(2,3) by (simp flip: power_add)
  finally show "prefix_ok k n" using assms by (simp add: prefix_ok_def)
qed

definition advance :: "nat \<Rightarrow> Cursor \<Rightarrow> Cursor" where
  "advance n f = f\<lparr> position := position f + n \<rparr>"

lemma advance_simps [simp]:
  "position (advance n f) = position f + n" "get_ref (advance n f) = get_ref f" "advance m (advance n f) = advance (n + m) f"
  "remaining (advance n f) = drop n (remaining f)" "advance 0 f = f"
  by (simp_all add: advance_def remaining_def add.commute)

lemma decode_Ok_iff:
  "decode_size_with_offset f b = Ok ((k, s), f') \<longleftrightarrow>
     (\<exists>n. prefix_ok k n \<and> k - 1 \<le> length (remaining f) \<and> b # take (k - 1) (remaining f) = size_prefix k n \<and>
        s = of_nat n \<and> f' = advance (k - 1) f)"
    (is "?l \<longleftrightarrow> ?r")
proof
  assume l: ?l
  let ?k = "leading_ones b" and ?rest = "take (leading_ones b - 1) (remaining f)"
  let ?n = "be_nat ((b AND drop_bit ?k 0xff) # ?rest)"
  have pos: "\<not> b AND 0x80 = 0 \<Longrightarrow> 1 \<le> ?k" by (auto simp: and_80 leading_ones_unat)
  have k: "1 \<le> ?k" "?k \<le> 6" "k = ?k" "?k - 1 \<le> length (remaining f)" "s = of_nat ?n" "s < 0x400000000"
      "f' = advance (?k - 1) f"
    using l pos
    by (auto simp: decode_size_with_offset_def Let_def bindR_eq_Ok read_exact_def advance_def size_fold simp del: foldl_Cons split: if_splits)
  have "length ?rest = ?k - 1" using k by simp
  moreover have "?n < 256 ^ 6"
  proof -
    have "?n < 256 ^ length ((b AND drop_bit ?k 0xff) # ?rest)" by (rule be_nat_less)
    also have "\<dots> \<le> 256 ^ 6" using k by (intro power_increasing) auto
    finally show ?thesis .
  qed
  then have "?n < 2 ^ 34" using k(5,6) by (simp add: word_less_nat_alt unat_of_nat)
  ultimately have "prefix_ok ?k ?n" "size_prefix ?k ?n = b # ?rest"
    using size_prefix_decoded [OF refl k(1,2)] by blast+
  then show ?r using k by auto
next
  assume ?r
  then obtain n where n: "prefix_ok k n" "k - 1 \<le> length (remaining f)" "b # take (k - 1) (remaining f) = size_prefix k n"
      "s = of_nat n" "f' = advance (k - 1) f" by blast
  have k: "1 \<le> k" "k \<le> 6" "n < 2 ^ 34" using n(1) by (auto simp: prefix_ok_def)
  have b: "leading_ones b = k" "be_nat ((b AND drop_bit k 0xff) # take (k - 1) (remaining f)) = n"
    using size_prefix_hd(2) [OF n(1)] size_prefix_value [OF n(1)] unfolding n(3) [symmetric] by simp_all
  have "(of_nat n :: u64) < 0x400000000" using k(3) by (simp add: word_less_nat_alt unat_of_nat)
  moreover have "\<not> b AND 0x80 = 0" using b(1) k(1) by (auto simp: and_80 leading_ones_unat split: if_splits)
  ultimately show ?l using b k n
    by (auto simp: decode_size_with_offset_def Let_def read_exact_def advance_def size_fold not_le simp del: foldl_Cons)
qed

lemma bindR_eq_Err: "bindR m f = Err e \<longleftrightarrow> m = Err e \<or> (\<exists>x. m = Ok x \<and> f x = Err e)"
  by (cases m) auto

lemma decode_no_panic: "decode_size_with_offset f b \<noteq> Panic p"
  by (auto simp: decode_size_with_offset_def Let_def bindR_eq_Panic read_exact_def split: if_splits)

lemma decode_size_Ok_iff:
  "decode_size f b = Ok (s, f') \<longleftrightarrow> (\<exists>k. decode_size_with_offset f b = Ok ((k, s), f'))"
  by (auto simp: decode_size_def bindR_eq_Ok)

lemma remaining_Cons: "remaining f = b # r \<Longrightarrow> position f < length (get_ref f) \<and> get_ref f ! position f = b"
  by (metis drop_eq_Nil hd_drop_conv_nth linorder_not_less list.distinct(1) list.sel(1) remaining_def)

lemma read_one:
  "read_exact 1 f = (case remaining f of [] \<Rightarrow> Err (IoErr UnexpectedEof ''failed to fill whole buffer'') | b # _ \<Rightarrow> Ok ([b], advance 1 f))"
  by (auto simp: read_exact_def advance_def split: list.split)

text \<open>A reader that has taken the first byte of an atom reads the rest of it.\<close>

lemma parse_atom_ptr_complete:
  assumes rem: "remaining f = s @ rest" and enc: "atom_enc bs s"
  shows "parse_atom_ptr (advance 1 f) (hd s) = Ok (bs, advance (length s) f)"
  using enc unfolding atom_enc_def
proof (elim disjE exE conjE)
  fix b assume b: "unat b < 128" "bs = [b]" "s = [b]"
  then have "position f < length (get_ref f)" "get_ref f ! position f = b" using remaining_Cons rem by auto
  then have "slice (get_ref f) (position f) (Suc (position f)) = (Ok [b] :: bytes io)"
    by (simp add: slice_def take_Suc_conv_app_nth hd_drop_conv_nth take_Suc)
  then show ?thesis using b
    by (simp add: parse_atom_ptr_def MAX_SINGLE_BYTE_def word_le_nat_alt usize_sub_def)
next
  fix k assume k: "prefix_ok k (length bs)" "s = size_prefix k (length bs) @ bs"
  let ?p = "size_prefix k (length bs)"
  have lp: "length ?p = k" "1 \<le> k" "length bs < 2 ^ 34" using k(1) by (auto simp: size_prefix_def prefix_ok_def)
  have p: "?p = hd s # take (k - 1) (drop 1 (remaining f))" and l: "k - 1 \<le> length (drop 1 (remaining f))"
    using rem k(2) lp by (cases ?p; auto)+
  have dec: "decode_size (advance 1 f) (hd s) = Ok (of_nat (length bs), advance k f)"
    unfolding decode_size_Ok_iff decode_Ok_iff
    by (rule exI [of _ k], rule exI [of _ "length bs"]) (use k(1) p l lp in simp)
  have hd: "\<not> hd s \<le> MAX_SINGLE_BYTE"
    using size_prefix_hd(2) [OF k(1)] p lp by (cases ?p) (auto simp: MAX_SINGLE_BYTE_def word_le_nat_alt leading_ones_unat split: if_splits)
  have u: "unat (of_nat (length bs) :: u64) = length bs" using lp(3) by (simp add: unat_of_nat)
  have ref: "drop (position f) (get_ref f) = ?p @ bs @ rest" using rem k(2) by (simp add: remaining_def)
  have "length (get_ref f) - position f = k + length bs + length rest" using arg_cong [OF ref, of length] lp(1) by simp
  then have "length (get_ref f) = position f + (k + length bs + length rest)" using lp(2) by linarith
  moreover have "drop (position f + k) (get_ref f) = bs @ rest"
    using arg_cong [OF ref, of "drop k"] lp(1) by (simp add: add.commute)
  ultimately show ?thesis
    using hd dec u lp k(2) by (simp add: parse_atom_ptr_def Let_def slice_def seek_current_def advance_def)
qed

lemma parse_atom_ptr_sound:
  assumes rem: "remaining f = b # r" and ok: "parse_atom_ptr (advance 1 f) b = Ok (bs, f')"
  shows "\<exists>s rest. remaining f = s @ rest \<and> hd s = b \<and> atom_enc bs s \<and> f' = advance (length s) f"
proof (cases "b \<le> MAX_SINGLE_BYTE")
  case True
  have "position f < length (get_ref f)" "get_ref f ! position f = b" using remaining_Cons [OF rem] by auto
  then have "slice (get_ref f) (position f) (Suc (position f)) = (Ok [b] :: bytes io)"
    by (simp add: slice_def take_Suc_conv_app_nth hd_drop_conv_nth take_Suc)
  then have "bs = [b]" "f' = advance 1 f" using True ok by (auto simp: parse_atom_ptr_def usize_sub_def)
  moreover have "unat b < 128" using True by (simp add: MAX_SINGLE_BYTE_def word_le_nat_alt)
  ultimately show ?thesis using rem by (intro exI [of _ "[b]"] exI [of _ r]) (simp add: atom_enc_def)
next
  case False
  then obtain sz f1 where d: "decode_size (advance 1 f) b = Ok (sz, f1)"
    and len: "\<not> length (get_ref f1) < position f1 + unat sz"
    and sl: "slice (get_ref f1) (position f1) (position f1 + unat sz) = (Ok bs :: bytes io)"
    and f': "f' = seek_current (unat sz) f1"
    using ok by (auto simp: parse_atom_ptr_def bindR_eq_Ok Let_def seek_current_def split: if_splits)
  then obtain k n where kn: "prefix_ok k n" "k - 1 \<le> length r" "b # take (k - 1) r = size_prefix k n" "sz = of_nat n"
      "f1 = advance k f"
    using rem by (auto simp: decode_size_Ok_iff decode_Ok_iff prefix_ok_def)
  have n: "unat sz = n" and k: "1 \<le> k" using kn(1,4) by (auto simp: unat_of_nat prefix_ok_def)
  have bs: "bs = take n (drop k (remaining f))" "length bs = n"
    using sl kn(5) n by (auto simp: slice_eq_Ok remaining_def add.commute)
  have "remaining f = size_prefix k n @ drop (k - 1) r"
    unfolding kn(3) [symmetric] rem by simp
  moreover have "drop k (remaining f) = drop (k - 1) r" unfolding rem using k by (cases k) auto
  with bs(1) have "bs = take n (drop (k - 1) r)" by simp
  ultimately have "remaining f = (size_prefix k n @ bs) @ drop n (drop (k - 1) r)"
    by (metis append.assoc append_take_drop_id)
  moreover have "atom_enc bs (size_prefix k n @ bs)" using kn(1) bs(2) by (auto simp: atom_enc_def)
  moreover have "f' = advance (length (size_prefix k n @ bs)) f"
    using f' kn(5) n bs(2) k by (simp add: seek_current_def size_prefix_def advance_def)
  moreover have "hd (size_prefix k n @ bs) = b" by (simp flip: kn(3))
  ultimately show ?thesis by blast
qed

lemma parse_atom_ptr_no_panic:
  assumes "remaining f = b # r" shows "parse_atom_ptr (advance 1 f) b \<noteq> Panic p"
  using assms decode_no_panic [of "advance 1 f" b] remaining_Cons [OF assms]
  by (auto simp: parse_atom_ptr_def decode_size_def bindR_eq_Panic slice_def usize_sub_def Let_def seek_current_def split: if_splits)

lemma atom_enc_hd:
  assumes "atom_enc bs s" shows "s \<noteq> []" "hd s \<noteq> 0xff" "hd s \<noteq> 0xfe"
    "hd s = 0x80 \<Longrightarrow> bs = [] \<and> s = [0x80]" "hd s = 1 \<Longrightarrow> bs = [1] \<and> s = [1]"
proof -
  from assms consider b where "unat b < 128" "bs = [b]" "s = [b]"
    | k where "prefix_ok k (length bs)" "s = size_prefix k (length bs) @ bs" by (auto simp: atom_enc_def)
  then have "s \<noteq> [] \<and> hd s \<noteq> 0xff \<and> hd s \<noteq> 0xfe \<and> (hd s = 0x80 \<longrightarrow> bs = [] \<and> s = [0x80]) \<and> (hd s = 1 \<longrightarrow> bs = [1] \<and> s = [1])"
  proof cases
    case 1
    then show ?thesis by auto
  next
    case (2 k)
    have k: "1 \<le> k" "k \<le> 6" using 2(1) by (auto simp: prefix_ok_def)
    have hd: "hd s = hd (size_prefix k (length bs))" "s \<noteq> []" using 2(2) by (simp_all add: size_prefix_def)
    have lo: "leading_ones (hd s) = k" using size_prefix_hd(2) [OF 2(1)] hd by simp
    have "hd s = 0x80 \<Longrightarrow> k = 1" using lo by (auto simp: leading_ones_unat)
    moreover have "k = 1 \<Longrightarrow> hd s = 0x80 \<Longrightarrow> length bs = 0"
      using size_prefix_hd(1) [OF 2(1)] hd by simp
    moreover have "bs = [] \<Longrightarrow> k = 1 \<Longrightarrow> s = [0x80]" using 2(2) by (simp add: size_prefix_def)
    moreover have "leading_ones 0xff = 8" "leading_ones 0xfe = 7" "leading_ones 1 = 0" by (simp_all add: leading_ones_unat)
    then have "hd s \<noteq> 0xff" "hd s \<noteq> 0xfe" "hd s \<noteq> 1" using lo k by auto
    ultimately show ?thesis using hd(2) by blast
  qed
  then show "s \<noteq> []" "hd s \<noteq> 0xff" "hd s \<noteq> 0xfe"
    "hd s = 0x80 \<Longrightarrow> bs = [] \<and> s = [0x80]" "hd s = 1 \<Longrightarrow> bs = [1] \<and> s = [1]" by auto
qed

section \<open>The writer's prefix\<close>

lemma or_table:
  "\<forall>k \<in> set [1..<6]. \<forall>i \<in> set [0..<2 ^ (7 - k)].
     (of_nat (256 - 2 ^ (8 - k)) :: u8) OR of_nat i = of_nat (256 - 2 ^ (8 - k) + i)"
  by code_simp

lemma or_marker:
  assumes "k \<in> {1, 2, 3, 4, 5}" "i < 2 ^ (7 - k)"
  shows "(of_nat (256 - 2 ^ (8 - k)) :: u8) OR of_nat i = of_nat (256 - 2 ^ (8 - k) + i)"
proof -
  have "k \<in> set [1..<6]" "i \<in> set [0..<2 ^ (7 - k)]" using assms by auto
  then show ?thesis using or_table by blast
qed

lemma ucast_drop:
  assumes "n < 2 ^ 64" shows "(ucast (drop_bit m (of_nat n :: u64)) :: u8) = of_nat (n div 2 ^ m)"
proof -
  have "unat (of_nat n :: u64) = n" using assms by (simp add: unat_of_nat)
  then have "unat (drop_bit m (of_nat n :: u64)) = n div 2 ^ m"
    by (simp only: unat_drop_bit_eq) (simp add: drop_bit_eq_div)
  then show ?thesis using of_nat_unat [of "drop_bit m (of_nat n :: u64)", where ?'a = "8 word"] by simp
qed

lemma ucast_low: "(ucast (w AND 0xff :: u64) :: u8) = ucast w"
proof -
  have "(0xff :: u64) = mask 8" by (simp add: mask_eq_exp_minus_1)
  then have "w AND 0xff = take_bit 8 w" by (simp only: take_bit_eq_mask)
  then show ?thesis by (simp only:) (rule bit_word_eqI, simp add: bit_simps)
qed

lemma prefix_marker:
  assumes "k \<in> {1, 2, 3, 4, 5}" "n < 2 ^ (7 * k - 1)" "(c :: u8) = of_nat (256 - 2 ^ (8 - k))"
  shows "c OR of_nat (n div 256 ^ (k - 1)) = of_nat (256 - 2 ^ (8 - k) + n div 256 ^ (k - 1))"
  unfolding assms(3) using assms(1) be_nat_prefix(1) [of n k] assms(2) by (intro or_marker) auto

text \<open>The prefix, byte by byte, for each of the five widths the writer uses.\<close>

lemma size_prefix_cases:
  "n < 0x40 \<Longrightarrow> size_prefix 1 n = [0x80 OR of_nat n]"
  "n < 0x2000 \<Longrightarrow> size_prefix 2 n = [0xc0 OR of_nat (n div 2 ^ 8), of_nat n]"
  "n < 0x100000 \<Longrightarrow> size_prefix 3 n = [0xe0 OR of_nat (n div 2 ^ 16), of_nat (n div 2 ^ 8), of_nat n]"
  "n < 0x8000000 \<Longrightarrow> size_prefix 4 n =
     [0xf0 OR of_nat (n div 2 ^ 24), of_nat (n div 2 ^ 16), of_nat (n div 2 ^ 8), of_nat n]"
  "n < 0x400000000 \<Longrightarrow> size_prefix 5 n =
     [0xf8 OR of_nat (n div 2 ^ 32), of_nat (n div 2 ^ 24), of_nat (n div 2 ^ 16), of_nat (n div 2 ^ 8), of_nat n]"
proof -
  have e: "be_bytes 4 = be_bytes (Suc (Suc (Suc (Suc 0))))" "be_bytes 3 = be_bytes (Suc (Suc (Suc 0)))"
    "be_bytes 2 = be_bytes (Suc (Suc 0))" "be_bytes 1 = be_bytes (Suc 0)" by (simp_all add: eval_nat_numeral)
  have b: "be_bytes 4 n = [of_nat (n div 2 ^ 24), of_nat (n div 2 ^ 16), of_nat (n div 2 ^ 8), of_nat n]"
    "be_bytes 3 n = [of_nat (n div 2 ^ 16), of_nat (n div 2 ^ 8), of_nat n]"
    "be_bytes 2 n = [of_nat (n div 2 ^ 8), of_nat n]" "be_bytes 1 n = [of_nat n]" for n
    unfolding e by (simp_all add: div_mult2_eq [symmetric] del: of_nat_Suc)
  show "n < 0x40 \<Longrightarrow> size_prefix 1 n = [0x80 OR of_nat n]"
    using prefix_marker [of 1 n "0x80"] by (simp add: size_prefix_def)
  show "n < 0x2000 \<Longrightarrow> size_prefix 2 n = [0xc0 OR of_nat (n div 2 ^ 8), of_nat n]"
    using prefix_marker [of 2 n "0xc0"] b(4) by (simp add: size_prefix_def)
  show "n < 0x100000 \<Longrightarrow> size_prefix 3 n = [0xe0 OR of_nat (n div 2 ^ 16), of_nat (n div 2 ^ 8), of_nat n]"
    using prefix_marker [of 3 n "0xe0"] b(3) by (simp add: size_prefix_def)
  show "n < 0x8000000 \<Longrightarrow> size_prefix 4 n =
     [0xf0 OR of_nat (n div 2 ^ 24), of_nat (n div 2 ^ 16), of_nat (n div 2 ^ 8), of_nat n]"
    using prefix_marker [of 4 n "0xf0"] b(2) by (simp add: size_prefix_def)
  show "n < 0x400000000 \<Longrightarrow> size_prefix 5 n =
     [0xf8 OR of_nat (n div 2 ^ 32), of_nat (n div 2 ^ 24), of_nat (n div 2 ^ 16), of_nat (n div 2 ^ 8), of_nat n]"
    using prefix_marker [of 5 n "0xf8"] b(1) by (simp add: size_prefix_def)
qed

lemma write_prefix_eq:
  assumes "n < 2 ^ 34" "\<not> (n = 1 \<and> b < 0x80)"
  shows "write_atom_encoding_prefix_with_size wr f b (of_nat n) = wr f (size_prefix (shortest_prefix n) n)"
proof -
  have lt: "n < 2 ^ 64" using assms(1) by simp
  have cmp: "(of_nat n :: u64) < of_nat m \<longleftrightarrow> n < m" if "m < 2 ^ 64" for m
    using that lt by (simp add: word_less_nat_alt unat_of_nat)
  have eq: "(of_nat n :: u64) = of_nat m \<longleftrightarrow> n = m" if "m < 2 ^ 64" for m
    using that lt by (simp add: word_unat_eq_iff unat_of_nat)
  note d = ucast_drop [OF lt]
  have u: "(ucast (of_nat n :: u64) :: u8) = of_nat n" using d [where m = 0] by simp
  have hi: "(ucast (c OR drop_bit m (of_nat n :: u64)) :: u8) = ucast c OR of_nat (n div 2 ^ m)" for c m
    by (simp only: unsigned_or_eq d)
  note body = write_atom_encoding_prefix_with_size_def
  show ?thesis
    using assms cmp [of "0x40"] cmp [of "0x2000"] cmp [of "0x100000"] cmp [of "0x8000000"] cmp [of "0x400000000"]
      eq [of 0] eq [of 1] size_prefix_cases [of n]
    by (auto simp: body hi ucast_low u d shortest_prefix_def)
qed

section \<open>Byte sinks\<close>

text \<open>
  What the serializers rely on of a writer: as long as the bytes fit, they are appended; a
  write that does not fit fails with the out-of-memory error. \<open>fits w n\<close> says that \<open>n\<close> more
  bytes fit.
\<close>

definition out_of_memory :: io_error where
  "out_of_memory = IoErr OutOfMemory ''out of memory''"

locale byte_sink =
  fixes write_all :: "'w write_all" and written :: "'w \<Rightarrow> bytes" and fits :: "'w \<Rightarrow> nat \<Rightarrow> bool"
  assumes write_fits: "fits w (length b) \<Longrightarrow>
      \<exists>w'. write_all w b = (Ok (), w') \<and> written w' = written w @ b \<and> (\<forall>n. fits w' n \<longleftrightarrow> fits w (length b + n))"
    and write_full: "\<not> fits w (length b) \<Longrightarrow> \<exists>w'. write_all w b = (Err out_of_memory, w')"
    and fits_less: "fits w (m + n) \<Longrightarrow> fits w m"
begin

definition puts :: "'w \<Rightarrow> bytes \<Rightarrow> unit io \<times> 'w \<Rightarrow> bool" where
  "puts w b m \<longleftrightarrow>
     (if fits w (length b) then
        fst m = Ok () \<and> written (snd m) = written w @ b \<and> (\<forall>n. fits (snd m) n \<longleftrightarrow> fits w (length b + n))
      else fst m = Err out_of_memory)"

lemma puts_write_all: "puts w b (write_all w b)"
  using write_fits [of w b] write_full [of w b] by (auto simp: puts_def)

lemma puts_Nil: "fits w 0 \<Longrightarrow> puts w [] (Ok (), w)"
  by (simp add: puts_def)

lemma puts_seq:
  assumes "puts w b m" "\<And>w'. m = (Ok (), w') \<Longrightarrow> puts w' c (k w')"
  shows "puts w (b @ c) (tryS m (\<lambda>_. k))"
proof (cases "fits w (length b)")
  case True
  with assms(1) obtain w' where m: "m = (Ok (), w')" "written w' = written w @ b"
    "\<And>n. fits w' n \<longleftrightarrow> fits w (length b + n)" by (cases m) (auto simp: puts_def)
  with assms(2) [OF m(1)] show ?thesis by (simp add: puts_def add.assoc)
next
  case False
  then have "\<not> fits w (length (b @ c))" using fits_less [of w "length b" "length c"] by auto
  with False assms(1) show ?thesis by (cases m) (auto simp: puts_def)
qed

lemma puts_write_atom:
  assumes "length v < 2 ^ 34"
  shows "puts f (atom_ser v) (write_atom write_all f v)"
proof (cases "length v = 1 \<and> v ! 0 < 0x80")
  case True
  then have "atom_ser v = v" by (simp add: atom_ser_def word_less_nat_alt)
  moreover have "write_atom write_all f v = write_all f v"
    using True by (auto simp: write_atom_def write_atom_encoding_prefix_with_size_def)
  ultimately show ?thesis using puts_write_all by simp
next
  case False
  then have "atom_ser v = size_prefix (shortest_prefix (length v)) (length v) @ v"
    by (auto simp: atom_ser_def word_less_nat_alt)
  moreover have "write_atom_encoding_prefix_with_size write_all f (if v \<noteq> [] then v ! 0 else 0) (of_nat (length v)) =
      write_all f (size_prefix (shortest_prefix (length v)) (length v))"
    by (rule write_prefix_eq [OF assms]) (use False in auto)
  ultimately show ?thesis
    by (simp only: write_atom_def Let_def) (intro puts_seq puts_write_all)
qed

end

text \<open>The length functions agree with the writer below 4 GiB.\<close>

lemma serialized_length_atom_eq:
  assumes "length buf < 2 ^ 32 - 5"
  shows "unat (serialized_length_atom buf) = length (atom_ser buf)"
proof -
  define n where "n = length buf"
  have u: "unat (of_nat m :: u32) = m" if "m < 2 ^ 32" for m using that by (simp add: unat_of_nat)
  have lt: "n < 2 ^ 32 - 5" using assms by (simp add: n_def)
  have cmp: "(of_nat n :: u32) < of_nat m \<longleftrightarrow> n < m" if "m < 2 ^ 32" for m
    using that lt u [of n] by (simp add: word_less_nat_alt unat_of_nat)
  have eq: "(of_nat n :: u32) = of_nat m \<longleftrightarrow> n = m" if "m < 2 ^ 32" for m
    using that lt by (simp add: word_unat_eq_iff unat_of_nat)
  have add: "unat (of_nat k + of_nat n :: u32) = k + n" if "k \<le> 5" for k
    using that lt u [of "k + n"] by simp
  show ?thesis
    using cmp [of "0x40"] cmp [of "0x2000"] cmp [of "0x100000"] cmp [of "0x8000000"] eq [of 0] eq [of 1]
      add [of 1] add [of 2] add [of 3] add [of 4] add [of 5] lt
    unfolding length_atom_ser serialized_length_atom_def Let_def n_def [symmetric] shortest_prefix_def
    by (auto simp: word_less_nat_alt)
qed

end
