(* ===== verification/StreamFormat.thy ===== *)
theory StreamFormat
  imports AtomCodecSpec
begin

text \<open>
  The serialized form of a value, as a relation between bytes and values, and the interface
  the stream readers of \<open>src/src/serde\<close> share. Each of them runs a stack of parse
  operations over a cursor; they differ in what they keep of the values read so far
  (nodes, hashes, the shape of the tree, nothing) and in whether they resolve
  back-references. The locale states what one turn of such a loop does; the theorem proved
  in it once says that the loop consumes exactly one serialized value, that it fails with a
  resource error, or that the bytes hold no value.
\<close>

section \<open>The format\<close>

datatype ParseOp = PSExp | PCons

text \<open>
  \<open>parses R vs s t\<close>: with the stack \<open>vs\<close> of values read so far, a list with the latest
  first, the bytes \<open>s\<close> are a serialization of \<open>t\<close>. \<open>R\<close> looks up the path of a
  back-reference in the stack.
\<close>

inductive parses :: "(bytes \<Rightarrow> clvm \<Rightarrow> clvm option) \<Rightarrow> clvm \<Rightarrow> bytes \<Rightarrow> clvm \<Rightarrow> bool" for R where
  parses_atom: "atom_enc bs e \<Longrightarrow> parses R vs e (CAtom bs)"
| parses_pair: "parses R vs sl l \<Longrightarrow> parses R (CPair l vs) sr r \<Longrightarrow> parses R vs (0xff # sl @ sr) (CPair l r)"
| parses_ref: "atom_enc p e \<Longrightarrow> R p vs = Some t \<Longrightarrow> parses R vs (0xfe # e) t"

inductive_cases parses_pairE: "parses R vs (0xff # s) t"
inductive_cases parses_refE: "parses R vs (0xfe # s) t"

definition no_refs :: "bytes \<Rightarrow> clvm \<Rightarrow> clvm option" where
  "no_refs p vs = None"

definition parsable :: "(bytes \<Rightarrow> clvm \<Rightarrow> clvm option) \<Rightarrow> clvm \<Rightarrow> bytes \<Rightarrow> bool" where
  "parsable R vs s \<longleftrightarrow> (\<exists>e t rest. s = e @ rest \<and> parses R vs e t)"

text \<open>The encodings form a prefix code.\<close>

lemma atom_enc_prefix:
  assumes "atom_enc bs e" "atom_enc bs' e'" "e @ x = e' @ x'"
  shows "bs = bs' \<and> e = e'"
proof -
  let ?f = "cursor_new (e @ x)"
  have hd: "hd e = hd e'" using assms(3) atom_enc_hd(1) [OF assms(1)] atom_enc_hd(1) [OF assms(2)]
    by (metis hd_append2)
  have "remaining ?f = e @ x" "remaining ?f = e' @ x'" using assms(3) by (simp_all add: remaining_def cursor_new_def)
  from parse_atom_ptr_complete [OF this(1) assms(1)] parse_atom_ptr_complete [OF this(2) assms(2)] hd
  have eq: "bs = bs'" "advance (length e) ?f = advance (length e') ?f" by simp_all
  from arg_cong [OF eq(2), of position] have "length e = length e'" by (simp add: cursor_new_def)
  with assms(3) eq(1) show ?thesis by simp
qed

lemma parses_nonempty: "parses R vs e t \<Longrightarrow> e \<noteq> []"
  by (erule parses.cases) (auto dest: atom_enc_hd(1))

lemma parses_hd: "parses R vs e t \<Longrightarrow> b # s = e @ x \<Longrightarrow> hd e = b"
  using parses_nonempty by (metis hd_append2 list.sel(1))

lemma parses_atom_iff:
  assumes "atom_enc bs e" "e @ x = e' @ x'"
  shows "parses R vs e' t \<longleftrightarrow> e' = e \<and> t = CAtom bs"
proof
  assume p: "parses R vs e' t"
  have "hd e' = hd e" using assms(2) atom_enc_hd(1) [OF assms(1)] parses_nonempty [OF p] by (metis hd_append2)
  with p atom_enc_hd(2,3) [OF assms(1)] show "e' = e \<and> t = CAtom bs"
    by (cases rule: parses.cases) (auto dest: atom_enc_prefix [OF assms(1) _ assms(2)])
qed (use assms(1) in \<open>auto intro: parses_atom\<close>)

lemma parses_unique:
  assumes "parses R vs e t" "parses R vs e' t'" "e @ x = e' @ x'"
  shows "e = e' \<and> t = t'"
  using assms
proof (induction arbitrary: e' t' x x')
  case (parses_atom bs e vs)
  then show ?case using parses_atom_iff [OF parses_atom.hyps parses_atom.prems(2)] by simp
next
  case (parses_pair vs sl l sr r)
  have "hd e' = 0xff" using parses_hd [OF parses_pair.prems(1), of "0xff" "sl @ sr @ x" x'] parses_pair.prems(2) by simp
  with parses_pair.prems(1) obtain sl' l' sr' r' where e': "e' = 0xff # sl' @ sr'" "t' = CPair l' r'"
      "parses R vs sl' l'" "parses R (CPair l' vs) sr' r'"
    by (cases rule: parses.cases) (auto dest: atom_enc_hd(2))
  have "sl = sl' \<and> l = l'" using parses_pair.IH(1) [OF e'(3)] parses_pair.prems(2) e'(1) by simp
  with e' parses_pair.IH(2) [of sr' r' x x'] parses_pair.prems(2) show ?case by simp
next
  case (parses_ref p e vs t)
  have "hd e' = 0xfe" using parses_hd [OF parses_ref.prems(1), of "0xfe" "e @ x" x'] parses_ref.prems(2) by simp
  with parses_ref.prems(1) obtain p' e1 where e': "e' = 0xfe # e1" "atom_enc p' e1" "R p' vs = Some t'"
    by (cases rule: parses.cases) (auto dest: atom_enc_hd(3))
  then show ?case using atom_enc_prefix [OF parses_ref.hyps(1) e'(2)] parses_ref.prems(2) parses_ref.hyps(2) by auto
qed

text \<open>A byte string starts with at most one serialized value.\<close>

lemma parses_the:
  assumes "parses R vs e t" "s = e @ rest"
  shows "(\<exists>e' rest' t'. s = e' @ rest' \<and> parses R vs e' t' \<and> P e' t') \<longleftrightarrow> P e t"
  using parses_unique [OF assms(1)] assms by metis

lemma parsable_pairE:
  assumes "parsable R vs (0xff # s)" "s = sl @ s'" "parses R vs sl l"
  shows "parsable R (CPair l vs) s'"
proof -
  obtain e t rest where p: "0xff # s = e @ rest" "parses R vs e t" using assms(1) by (auto simp: parsable_def)
  then have "hd e = 0xff" using parses_hd by metis
  with p(2) obtain sl' l' sr' r' where e: "e = 0xff # sl' @ sr'" "parses R vs sl' l'" "parses R (CPair l' vs) sr' r'"
    by (cases rule: parses.cases) (auto dest: atom_enc_hd(2))
  then have "sl = sl' \<and> l = l'" using parses_unique [OF assms(3) e(2), of s' "sr' @ rest"] p(1) assms(2) by simp
  with e p(1) assms(2) show ?thesis by (auto simp: parsable_def)
qed

lemma parsable_pair_left: "parsable R vs (0xff # s) \<Longrightarrow> parsable R vs s"
proof -
  assume "parsable R vs (0xff # s)"
  then obtain e t rest where p: "0xff # s = e @ rest" "parses R vs e t" by (auto simp: parsable_def)
  then have "hd e = 0xff" using parses_hd by metis
  with p(2) p(1) show ?thesis
    by (cases rule: parses.cases) (auto simp: parsable_def dest: atom_enc_hd(2))
qed

lemma parsable_byte:
  assumes "parsable R vs (b # s)" "b \<noteq> 0xff" "b \<noteq> 0xfe"
  shows "\<exists>bs e rest. b # s = e @ rest \<and> atom_enc bs e"
proof -
  obtain e t rest where p: "b # s = e @ rest" "parses R vs e t" using assms(1) by (auto simp: parsable_def)
  then have "hd e = b" using parses_hd by metis
  with p(2,1) assms(2,3) show ?thesis by (cases rule: parses.cases) auto
qed

lemma parsable_refE:
  assumes "parsable R vs (0xfe # s)"
  shows "\<exists>p e rest t. s = e @ rest \<and> atom_enc p e \<and> R p vs = Some t"
proof -
  obtain e t rest where p: "0xfe # s = e @ rest" "parses R vs e t" using assms(1) by (auto simp: parsable_def)
  then have "hd e = 0xfe" using parses_hd by metis
  with p(2) p(1) show ?thesis by (cases rule: parses.cases) (auto dest: atom_enc_hd(3))
qed

section \<open>Stream readers\<close>

text \<open>
  \<open>good s vs\<close>: the state \<open>s\<close> stands for the stack \<open>vs\<close>. \<open>ext\<close> relates a state to the later
  states of the same run. \<open>res_err s o\<close> and \<open>parse_err s o\<close>: the outcome \<open>o\<close> of a run
  that went through \<open>s\<close> is a resource error, or an error about the bytes.
\<close>

locale stream_reader =
  fixes loop :: "'s \<Rightarrow> Cursor \<Rightarrow> ParseOp list \<Rightarrow> 'o"
    and R :: "bytes \<Rightarrow> clvm \<Rightarrow> clvm option"
    and good :: "'s \<Rightarrow> clvm \<Rightarrow> bool"
    and ext :: "'s \<Rightarrow> 's \<Rightarrow> bool"
    and res_err :: "'s \<Rightarrow> 'o \<Rightarrow> bool"
    and parse_err :: "'s \<Rightarrow> 'o \<Rightarrow> bool"
  assumes ext_refl: "ext s s"
    and ext_trans: "ext s s1 \<Longrightarrow> ext s1 s2 \<Longrightarrow> ext s s2"
    and res_err_ext: "ext s s1 \<Longrightarrow> res_err s1 o1 \<Longrightarrow> res_err s o1"
    and parse_err_ext: "ext s s1 \<Longrightarrow> parse_err s1 o1 \<Longrightarrow> parse_err s o1"
    and eof: "good s vs \<Longrightarrow> remaining f = [] \<Longrightarrow> parse_err s (loop s f (PSExp # ops))"
    and pair_byte: "remaining f = 0xff # r \<Longrightarrow> loop s f (PSExp # ops) = loop s (advance 1 f) (PSExp # PSExp # PCons # ops)"
    and atom_bytes: "good s vs \<Longrightarrow> remaining f = e @ r \<Longrightarrow> atom_enc bs e \<Longrightarrow>
      res_err s (loop s f (PSExp # ops)) \<or>
      (\<exists>s'. ext s s' \<and> good s' (CPair (CAtom bs) vs) \<and> loop s f (PSExp # ops) = loop s' (advance (length e) f) ops)"
    and bad_atom: "good s vs \<Longrightarrow> remaining f = b # r \<Longrightarrow> b \<noteq> 0xff \<Longrightarrow> b \<noteq> 0xfe \<Longrightarrow>
      \<nexists>bs e rest. remaining f = e @ rest \<and> atom_enc bs e \<Longrightarrow> parse_err s (loop s f (PSExp # ops))"
    and ref_bytes: "good s vs \<Longrightarrow> remaining f = 0xfe # e @ r \<Longrightarrow> atom_enc p e \<Longrightarrow> R p vs = Some t \<Longrightarrow>
      res_err s (loop s f (PSExp # ops)) \<or>
      (\<exists>s'. ext s s' \<and> good s' (CPair t vs) \<and> loop s f (PSExp # ops) = loop s' (advance (Suc (length e)) f) ops)"
    and bad_ref: "good s vs \<Longrightarrow> remaining f = 0xfe # r \<Longrightarrow>
      \<nexists>p e rest t. r = e @ rest \<and> atom_enc p e \<and> R p vs = Some t \<Longrightarrow> parse_err s (loop s f (PSExp # ops))"
    and cons_op: "good s (CPair rt (CPair lt vs)) \<Longrightarrow>
      res_err s (loop s f (PCons # ops)) \<or>
      (\<exists>s'. ext s s' \<and> good s' (CPair (CPair lt rt) vs) \<and> loop s f (PCons # ops) = loop s' f ops)"
begin

definition reads :: "'s \<Rightarrow> clvm \<Rightarrow> Cursor \<Rightarrow> ParseOp list \<Rightarrow> bool" where
  "reads s vs f ops \<longleftrightarrow>
     res_err s (loop s f (PSExp # ops)) \<or>
     parse_err s (loop s f (PSExp # ops)) \<and> \<not> parsable R vs (remaining f) \<or>
     (\<exists>e t rest s'. remaining f = e @ rest \<and> parses R vs e t \<and> ext s s' \<and> good s' (CPair t vs) \<and>
        loop s f (PSExp # ops) = loop s' (advance (length e) f) ops)"

lemma readsI:
  assumes "remaining f = e @ rest" "parses R vs e t"
    "res_err s (loop s f (PSExp # ops)) \<or>
     (\<exists>s'. ext s s' \<and> good s' (CPair t vs) \<and> loop s f (PSExp # ops) = loop s' (advance (length e) f) ops)"
  shows "reads s vs f ops"
  using assms unfolding reads_def by blast

lemma reads_pair:
  assumes rem: "remaining f = 0xff # r" and good: "good s vs"
    and l: "reads s vs (advance 1 f) (PSExp # PCons # ops)"
    and r: "\<And>e rest t s'. r = e @ rest \<Longrightarrow> e \<noteq> [] \<Longrightarrow> good s' (CPair t vs) \<Longrightarrow>
      reads s' (CPair t vs) (advance (Suc (length e)) f) (PCons # ops)"
  shows "reads s vs f ops"
proof -
  have eq: "loop s f (PSExp # ops) = loop s (advance 1 f) (PSExp # PSExp # PCons # ops)" by (rule pair_byte [OF rem])
  from l consider "res_err s (loop s f (PSExp # ops))"
    | "parse_err s (loop s f (PSExp # ops))" "\<not> parsable R vs r"
    | sl lt rest s1 where "r = sl @ rest" "parses R vs sl lt" "ext s s1" "good s1 (CPair lt vs)"
        "loop s f (PSExp # ops) = loop s1 (advance (Suc (length sl)) f) (PSExp # PCons # ops)"
    unfolding reads_def eq using rem by auto
  then show ?thesis
  proof cases
    case 2
    then show ?thesis using parsable_pair_left rem unfolding reads_def by metis
  next
    case (3 sl lt rest s1)
    let ?f = "advance (Suc (length sl)) f" and ?vs = "CPair lt vs"
    have rem1: "remaining ?f = rest" using rem 3(1) by simp
    have "reads s1 ?vs ?f (PCons # ops)" using r 3(1,2,4) parses_nonempty by blast
    then consider "res_err s1 (loop s f (PSExp # ops))"
      | "parse_err s1 (loop s f (PSExp # ops))" "\<not> parsable R ?vs rest"
      | sr rt rest' s2 where "rest = sr @ rest'" "parses R ?vs sr rt" "ext s1 s2" "good s2 (CPair rt ?vs)"
          "loop s f (PSExp # ops) = loop s2 (advance (length sr) ?f) (PCons # ops)"
      unfolding reads_def 3(5) rem1 by blast
    then show ?thesis
    proof cases
      case 1
      then show ?thesis unfolding reads_def using res_err_ext [OF 3(3)] by blast
    next
      case 2
      then have "\<not> parsable R vs (remaining f)" unfolding rem using parsable_pairE [OF _ 3(1,2)] by blast
      with 2 show ?thesis unfolding reads_def using parse_err_ext [OF 3(3)] by blast
    next
      case (3 sr rt rest' s2)
      note outer = \<open>ext s s1\<close> \<open>r = sl @ rest\<close> \<open>parses R vs sl lt\<close>
      have p: "parses R vs (0xff # sl @ sr) (CPair lt rt)" by (rule parses_pair [OF outer(3) 3(2)])
      have rm: "remaining f = (0xff # sl @ sr) @ rest'" using rem outer(2) 3(1) by simp
      have "advance (length sr) ?f = advance (length (0xff # sl @ sr)) f" by (simp add: add.commute)
      with 3(5) have eq2: "loop s f (PSExp # ops) = loop s2 (advance (length (0xff # sl @ sr)) f) (PCons # ops)" by simp
      have "ext s s2" by (rule ext_trans [OF outer(1) 3(3)])
      with cons_op [OF 3(4), of "advance (length (0xff # sl @ sr)) f" ops] show ?thesis
        by (intro readsI [OF rm p]) (unfold eq2, meson res_err_ext ext_trans)
    qed
  qed (simp add: reads_def)
qed

theorem reads_value: "good s vs \<Longrightarrow> reads s vs f ops"
proof (induction "length (remaining f)" arbitrary: s vs f ops rule: less_induct)
  case (less f s vs ops)
  show ?case
  proof (cases "remaining f")
    case Nil
    then have "\<not> parsable R vs (remaining f)" by (auto simp: parsable_def dest: parses_nonempty)
    with eof [OF less.prems Nil] show ?thesis unfolding reads_def by blast
  next
    case (Cons b r)
    consider "b = 0xff" | "b = 0xfe" | "b \<noteq> 0xff" "b \<noteq> 0xfe" by blast
    then show ?thesis
    proof cases
      case 1
      have rem: "remaining f = 0xff # r" using Cons 1 by simp
      have l: "reads s vs (advance 1 f) (PSExp # PCons # ops)" using Cons less.prems by (intro less.hyps) simp_all
      have r: "reads s' (CPair t vs) (advance (Suc (length e)) f) (PCons # ops)"
        if "r = e @ rest" "e \<noteq> []" "good s' (CPair t vs)" for e rest t s' using Cons that by (intro less.hyps) simp_all
      show ?thesis by (rule reads_pair [OF rem less.prems l r])
    next
      case 2
      then have rem: "remaining f = 0xfe # r" using Cons by simp
      show ?thesis
      proof (cases "\<exists>p e rest t. r = e @ rest \<and> atom_enc p e \<and> R p vs = Some t")
        case True
        then obtain p e rest t where e: "r = e @ rest" "atom_enc p e" "R p vs = Some t" by blast
        have "remaining f = (0xfe # e) @ rest" using rem e(1) by simp
        then show ?thesis using ref_bytes [OF less.prems _ e(2,3), of f rest ops] rem e(1)
          by (intro readsI [OF _ parses_ref [where R = R, OF e(2,3)]]) simp_all
      next
        case False
        then have "\<not> parsable R vs (remaining f)" using parsable_refE rem by metis
        with bad_ref [OF less.prems rem False] show ?thesis unfolding reads_def by blast
      qed
    next
      case 3
      show ?thesis
      proof (cases "\<exists>bs e rest. remaining f = e @ rest \<and> atom_enc bs e")
        case True
        then obtain bs e rest where e: "remaining f = e @ rest" "atom_enc bs e" by blast
        show ?thesis by (rule readsI [OF e(1) parses_atom [OF e(2)] atom_bytes [OF less.prems e]])
      next
        case False
        then have "\<not> parsable R vs (remaining f)" using parsable_byte [OF _ 3] Cons by metis
        with bad_atom [OF less.prems Cons 3 False] show ?thesis unfolding reads_def by blast
      qed
    qed
  qed
qed

lemma reads_cases [consumes 1, case_names resource malformed parsed]:
  assumes "good s vs"
  obtains "res_err s (loop s f (PSExp # ops))"
    | "parse_err s (loop s f (PSExp # ops))" "\<not> parsable R vs (remaining f)"
    | e t rest s' where "remaining f = e @ rest" "parses R vs e t" "ext s s'" "good s' (CPair t vs)"
        "loop s f (PSExp # ops) = loop s' (advance (length e) f) ops"
  using reads_value [OF assms, of f ops] unfolding reads_def by blast

end

end
