(* ===== verification/Ser.thy ===== *)
theory Ser
  imports AtomCodecSpec
begin

text \<open>
  Serialization of a node: \<open>src/src/serde/ser.rs\<close>. The loop pops a stack of nodes that is
  bounded only by the structure of the tree, so it is a partial function; it is shown to
  return on every node that holds a value and to write exactly the serialization of that
  value, or to fail with the out-of-memory error when the value does not fit the limit.
\<close>

section \<open>The operations\<close>

definition CONS_BOX_MARKER :: u8 where "CONS_BOX_MARKER = 0xff"

record 'w LimitedWriter =
  lw_inner :: 'w
  lw_limit :: nat

definition limited_writer_new :: "'w \<Rightarrow> nat \<Rightarrow> 'w LimitedWriter" where
  "limited_writer_new w limit = \<lparr> lw_inner = w, lw_limit = limit \<rparr>"

definition into_inner :: "'w LimitedWriter \<Rightarrow> 'w" where
  "into_inner w = lw_inner w"

text \<open>A cursor over a vector, written at its end.\<close>

definition vec_write_all :: "bytes write_all" where
  "vec_write_all v buf = (Ok (), v @ buf)"

definition limited_write_all :: "'w write_all \<Rightarrow> 'w LimitedWriter write_all" where
  "limited_write_all wr w buf =
     (if lw_limit w < length buf then (Err (IoErr OutOfMemory ''out of memory''), w)
      else case wr (lw_inner w) buf of
        (Ok _, inner) \<Rightarrow> (Ok (), w\<lparr> lw_inner := inner, lw_limit := lw_limit w - length buf \<rparr>)
      | (Err e, inner) \<Rightarrow> (Err e, w\<lparr> lw_inner := inner \<rparr>)
      | (Panic p, inner) \<Rightarrow> (Panic p, w\<lparr> lw_inner := inner \<rparr>))"

text \<open>\<open>?\<close> inside a loop that may not return.\<close>

definition tryP :: "('e, 'a) outcome \<times> 's \<Rightarrow> ('a \<Rightarrow> 's \<Rightarrow> (('e, 'b) outcome \<times> 's) option) \<Rightarrow>
    (('e, 'b) outcome \<times> 's) option" where
  "tryP m k = (case m of (Ok x, s) \<Rightarrow> k x s | (Err e, s) \<Rightarrow> Some (Err e, s) | (Panic p, s) \<Rightarrow> Some (Panic p, s))"

lemma tryP_simps [simp]:
  "tryP (Ok x, s) k = k x s" "tryP (Err e, s) k = Some (Err e, s)" "tryP (Panic p, s) k = Some (Panic p, s)"
  by (simp_all add: tryP_def)

lemma tryP_tryS: "tryP (tryS m f) k = tryP m (\<lambda>x s. tryP (f x s) k)"
  by (cases "(m, f)" rule: tryS.cases) auto

lemma tryP_mono [partial_function_mono]:
  assumes "\<And>x s. mono_option (\<lambda>f. K f x s)"
  shows "mono_option (\<lambda>f. tryP m (K f))"
proof -
  obtain r s where m: "m = (r, s)" by fastforce
  show ?thesis using assms by (cases r) (auto simp: m tryP_def intro: option.const_mono)
qed

partial_function (option) node_to_stream_loop ::
    "'w write_all \<Rightarrow> Allocator \<Rightarrow> NodePtr list \<Rightarrow> 'w \<Rightarrow> (unit io \<times> 'w) option" where
  "node_to_stream_loop wr a values f =
     (case values of
        [] \<Rightarrow> Some (Ok (), f)
      | v # values \<Rightarrow>
          (case node a v of
             Ok (VBuffer buf) \<Rightarrow> tryP (write_atom wr f buf) (\<lambda>_. node_to_stream_loop wr a values)
           | Ok (VU32 val) \<Rightarrow>
               tryP (tryR (small_atom_buf val) f (write_atom wr f)) (\<lambda>_. node_to_stream_loop wr a values)
           | Ok (VPair left right) \<Rightarrow>
               tryP (wr f [CONS_BOX_MARKER]) (\<lambda>_. node_to_stream_loop wr a (left # right # values))
           | Err e \<Rightarrow> Some (Err e, f)
           | Panic p \<Rightarrow> Some (Panic p, f)))"

definition node_to_stream :: "'w write_all \<Rightarrow> Allocator \<Rightarrow> NodePtr \<Rightarrow> 'w \<Rightarrow> (unit io \<times> 'w) option" where
  "node_to_stream wr a n f = node_to_stream_loop wr a [n] f"

definition node_to_bytes_limit :: "Allocator \<Rightarrow> NodePtr \<Rightarrow> nat \<Rightarrow> bytes io option" where
  "node_to_bytes_limit a n limit =
     map_option (\<lambda>(r, w). bindR r (\<lambda>_. Ok (into_inner w)))
       (node_to_stream (limited_write_all vec_write_all) a n (limited_writer_new [] limit))"

definition node_to_bytes :: "Allocator \<Rightarrow> NodePtr \<Rightarrow> bytes io option" where
  "node_to_bytes a n = node_to_bytes_limit a n 2000000"

section \<open>Writers are byte sinks\<close>

interpretation vec_sink: byte_sink vec_write_all "\<lambda>v. v" "\<lambda>_ _. True"
  by unfold_locales (auto simp: vec_write_all_def)

interpretation limited_sink:
  byte_sink "limited_write_all vec_write_all" "lw_inner :: bytes LimitedWriter \<Rightarrow> bytes" "\<lambda>w n. n \<le> lw_limit w"
  by unfold_locales (auto simp: limited_write_all_def vec_write_all_def out_of_memory_def)

section \<open>The serialization of a value\<close>

fun cser :: "clvm \<Rightarrow> bytes" where
  "cser (CAtom bs) = atom_ser bs"
| "cser (CPair l r) = CONS_BOX_MARKER # cser l @ cser r"

lemma rep_atom_length: "rep a p (CAtom bs) \<Longrightarrow> length bs < 2 ^ 32"
proof (erule rep_CAtomE)
  assume "bs = int_bytes (uint (index p))"
  then have "length bs = len_for_value (index p)" using len_for_value_eq [of "index p"] by simp
  then show ?thesis by (simp add: len_for_value_def split: if_splits)
next
  assume b: "buf_ok a (atom_vec a ! node_idx p)" "bs = buf_bytes a (atom_vec a ! node_idx p)"
  have "length bs \<le> unat (ab_end (atom_vec a ! node_idx p))" using b by (simp add: buf_bytes_def)
  also have "\<dots> < 2 ^ 32" using unsigned_less [of "ab_end (atom_vec a ! node_idx p)"] by simp
  finally show ?thesis .
qed

context byte_sink
begin

lemma node_to_stream_atom:
  assumes "rep a v (CAtom bs)"
  shows "node_to_stream_loop write_all a (v # vs) f =
    tryP (write_atom write_all f bs) (\<lambda>_. node_to_stream_loop write_all a vs)"
  using rep_atom_kind [OF assms]
proof
  assume k: "node_kind v = Some OSmallAtom"
  then have "small_atom_buf (index v) = (Ok bs :: bytes io)"
    using rep_small_bytes [OF assms k] by (simp add: small_atom_buf_eq index_unat)
  then show ?thesis by (subst node_to_stream_loop.simps) (simp add: rep_node_small [OF k])
qed (subst node_to_stream_loop.simps, simp add: rep_node_buffer [OF assms])

text \<open>Popping a node writes its value and goes on with the rest of the stack.\<close>

lemma node_to_stream_value:
  assumes "rep a v t"
  shows "\<exists>m. puts f (cser t) m \<and> node_to_stream_loop write_all a (v # vs) f = tryP m (\<lambda>_. node_to_stream_loop write_all a vs)"
  using assms
proof (induction t arbitrary: v vs f rule: clvm.induct)
  case (CAtom bs)
  have "length bs < 2 ^ 34" using rep_atom_length [OF CAtom] by simp
  then show ?case unfolding node_to_stream_atom [OF CAtom] cser.simps by (blast intro: puts_write_atom)
next
  case (CPair l r)
  let ?m = "write_all f [CONS_BOX_MARKER]" and ?k = "\<lambda>_. node_to_stream_loop write_all a vs"
  have unfold: "node_to_stream_loop write_all a (v # vs) f =
      tryP ?m (\<lambda>_. node_to_stream_loop write_all a (pfirst a v # prest a v # vs))"
    by (subst node_to_stream_loop.simps) (simp add: rep_node_pair [OF CPair.prems])
  define ml where "ml = (\<lambda>f. SOME m. puts f (cser l) m \<and> node_to_stream_loop write_all a (pfirst a v # prest a v # vs) f =
      tryP m (\<lambda>_. node_to_stream_loop write_all a (prest a v # vs)))"
  have l: "puts f (cser l) (ml f)" "node_to_stream_loop write_all a (pfirst a v # prest a v # vs) f =
      tryP (ml f) (\<lambda>_. node_to_stream_loop write_all a (prest a v # vs))" for f
    using someI_ex [OF CPair.IH(1) [OF rep_pfirst [OF CPair.prems], of f "prest a v # vs"]] by (simp_all add: ml_def)
  define mr where "mr = (\<lambda>f. SOME m. puts f (cser r) m \<and> node_to_stream_loop write_all a (prest a v # vs) f = tryP m ?k)"
  have r: "puts f (cser r) (mr f)" "node_to_stream_loop write_all a (prest a v # vs) f = tryP (mr f) ?k" for f
    using someI_ex [OF CPair.IH(2) [OF rep_prest [OF CPair.prems], of f vs]] by (simp_all add: mr_def)
  have "puts f ([CONS_BOX_MARKER] @ cser l @ cser r) (tryS ?m (\<lambda>_ f. tryS (ml f) (\<lambda>_. mr)))"
    by (intro puts_seq puts_write_all l r)
  then show ?case unfolding unfold l(2) r(2) by (intro exI conjI) (simp, simp only: tryP_tryS)
qed

lemma node_to_stream_puts:
  assumes "rep a v t"
  shows "\<exists>m. node_to_stream write_all a v f = Some m \<and> puts f (cser t) m"
proof -
  obtain m where m: "puts f (cser t) m"
      "node_to_stream write_all a v f = tryP m (\<lambda>_. node_to_stream_loop write_all a [])"
    using node_to_stream_value [OF assms, of f "[]"] by (auto simp: node_to_stream_def)
  have nil: "node_to_stream_loop write_all a [] = (\<lambda>f. Some (Ok (), f))"
    by (rule ext) (subst node_to_stream_loop.simps, simp)
  have "tryP m (\<lambda>_. node_to_stream_loop write_all a []) = Some m" unfolding nil by (cases m, cases "fst m") auto
  with m show ?thesis by simp
qed

end

lemma node_to_bytes_limit_eq:
  assumes "rep a v t"
  shows "node_to_bytes_limit a v limit =
    Some (if length (cser t) \<le> limit then Ok (cser t) else Err out_of_memory)"
proof -
  obtain m where "node_to_stream (limited_write_all vec_write_all) a v (limited_writer_new [] limit) = Some m"
      "limited_sink.puts (limited_writer_new [] limit) (cser t) m"
    using limited_sink.node_to_stream_puts [OF assms] by blast
  then show ?thesis
    by (cases m) (auto simp: node_to_bytes_limit_def limited_sink.puts_def limited_writer_new_def into_inner_def)
qed

end
