(* ===== verification/De.thy ===== *)
theory De
  imports StreamFormat Ser
begin

text \<open>
  Deserialization without back-references: \<open>src/src/serde/de.rs\<close>. The loop is a stream
  reader whose states are an allocator and a stack of nodes.
\<close>

section \<open>The operations\<close>

lemma tryS_cong [fundef_cong]:
  "m = m' \<Longrightarrow> (\<And>x s. m' = (Ok x, s) \<Longrightarrow> f x s = g x s) \<Longrightarrow> tryS m f = tryS m' g"
  by (cases "(m', g)" rule: tryS.cases) auto

lemma tryR_cong [fundef_cong]:
  "m = m' \<Longrightarrow> s = s' \<Longrightarrow> (\<And>x. m' = Ok x \<Longrightarrow> f x = g x) \<Longrightarrow> tryR m s f = tryR m' s' g"
  by (cases m') auto

lemma bindR_cong [fundef_cong]:
  "m = m' \<Longrightarrow> (\<And>x. m' = Ok x \<Longrightarrow> f x = g x) \<Longrightarrow> bindR m f = bindR m' g"
  by (cases m') auto

lemma read_exact_remaining: "read_exact n f = Ok (b, f') \<Longrightarrow> length (remaining f) = n + length (remaining f')"
  by (auto simp: read_exact_def remaining_def split: if_splits)

lemma parse_atom_ptr_remaining: "parse_atom_ptr f b = Ok (bs, f') \<Longrightarrow> length (remaining f') \<le> length (remaining f)"
  by (auto simp: parse_atom_ptr_def decode_size_def decode_size_with_offset_def bindR_eq_Ok Let_def seek_current_def
      remaining_def dest!: read_exact_remaining split: if_splits)

lemma map_err_eq_Ok [simp]: "map_err g m = Ok x \<longleftrightarrow> m = Ok x"
  by (cases m) auto

lemma parse_atom_remaining: "parse_atom a b f = (Ok (n, f'), a') \<Longrightarrow> length (remaining f') \<le> length (remaining f)"
  by (auto simp: parse_atom_def tryR_eq_Ok bindR_eq_Ok Let_def case_prod_beta' dest!: parse_atom_ptr_remaining split: if_splits)

function node_from_stream_loop ::
    "Allocator \<Rightarrow> NodePtr list \<Rightarrow> Cursor \<Rightarrow> ParseOp list \<Rightarrow> (NodePtr \<times> Cursor) io \<times> Allocator" where
  "node_from_stream_loop a values f [] =
     ((case values of v # _ \<Rightarrow> Ok (v, f) | [] \<Rightarrow> Panic ''unwrap''), a)"
| "node_from_stream_loop a values f (PSExp # ops) =
     tryR (read_exact 1 f) a (\<lambda>(b, f).
     if b ! 0 = CONS_BOX_MARKER then node_from_stream_loop a values f (PSExp # PSExp # PCons # ops)
     else
       tryS (parse_atom a (b ! 0) f) (\<lambda>(v, f) a. node_from_stream_loop a (v # values) f ops))"
| "node_from_stream_loop a values f (PCons # ops) =
     (case values of
        v2 # v1 # values \<Rightarrow>
          tryS (let (r, a) = new_pair a v1 v2 in (map_err io_from_eval r, a))
            (\<lambda>v a. node_from_stream_loop a (v # values) f ops)
      | _ \<Rightarrow> (Panic ''unwrap'', a))"
  by pat_completeness auto
termination
  by (relation "measure (\<lambda>(a, values, f, ops). 3 * length (remaining f) + length ops)")
    (auto dest!: read_exact_remaining parse_atom_remaining)

declare node_from_stream_loop.simps [simp del]

definition node_from_stream :: "Allocator \<Rightarrow> Cursor \<Rightarrow> (NodePtr \<times> Cursor) io \<times> Allocator" where
  "node_from_stream a f = node_from_stream_loop a [] f [PSExp]"

definition node_from_bytes :: "Allocator \<Rightarrow> bytes \<Rightarrow> NodePtr io \<times> Allocator" where
  "node_from_bytes a b = (let (r, a) = node_from_stream a (cursor_new b) in (bindR r (\<lambda>(n, _). Ok n), a))"

section \<open>Allocation within the heap limit\<close>

text \<open>
  A deserializer allocates atoms and pairs only. On an allocator whose bytes are within its
  heap limit these operations keep the invariant without any further condition.
\<close>

definition tight :: "Allocator \<Rightarrow> bool" where
  "tight a \<longleftrightarrow> alloc_ok a \<and> length (u8_vec a) \<le> heap_limit a \<and> heap_limit a \<le> u32_max"

definition alloc_errs :: "io_error set" where
  "alloc_errs = {IoErr OtherKind ''out of memory'', IoErr OtherKind ''too many atoms'', IoErr OtherKind ''too many pairs''}"

definition format_errs :: "io_error set" where
  "format_errs = {bad_encoding, IoErr UnexpectedEof ''failed to fill whole buffer''}"

definition allocates :: "Allocator \<Rightarrow> clvm \<Rightarrow> NodePtr eval \<times> Allocator \<Rightarrow> bool" where
  "allocates a t m \<longleftrightarrow>
     tight (snd m) \<and> extends a (snd m) \<and>
     ((\<exists>p. fst m = Ok p \<and> rep (snd m) p t) \<or> (\<exists>e. fst m = Err e \<and> io_from_eval e \<in> alloc_errs))"

lemma allocatesI:
  assumes "safe (\<lambda>a' p. extends a a' \<and> rep a' p t) alloc_msgs m" "extends a (snd m)"
    "length (u8_vec (snd m)) \<le> heap_limit a" "tight a"
  shows "allocates a t m"
proof -
  have "heap_limit (snd m) = heap_limit a" using assms(2) by (simp add: extends_def)
  moreover have "heap_ok (snd m)" using assms(3,4) by (simp add: heap_ok_def tight_def)
  ultimately show ?thesis using assms
    by (auto simp: allocates_def tight_def safe_def alloc_msgs_def alloc_errs_def io_from_eval_def split: outcome.splits)
qed

lemma allocates_new_atom:
  assumes t: "tight a" shows "allocates a (CAtom v) (new_atom a v)"
proof (rule allocatesI [OF safe_new_atom _ _ t])
  have u: "unat (of_nat (length (u8_vec a)) :: u32) = length (u8_vec a)"
    using t by (intro unat_of_nat_u32) (simp add: tight_def)
  show "length (u8_vec (snd (new_atom a v))) \<le> heap_limit a"
    using t u by (auto simp: new_atom_def Let_def check_atom_limit_def err_def tight_def usize_sub_def split: option.split)
qed (use t in \<open>auto simp: tight_def intro: ext_intros\<close>)

lemma allocates_new_pair:
  assumes t: "tight a" and "rep a x l" "rep a y r" shows "allocates a (CPair l r) (new_pair a x y)"
proof (rule allocatesI [OF safe_new_pair _ _ t])
  show "length (u8_vec (snd (new_pair a x y))) \<le> heap_limit a" using t by (simp add: new_pair_def Let_def tight_def)
qed (use assms in \<open>auto simp: tight_def alloc_msgs_def intro: ext_intros\<close>)

lemma allocatesE:
  assumes "allocates a t m"
  obtains (ok) p a' where "m = (Ok p, a')" "tight a'" "extends a a'" "rep a' p t"
    | (fail) e a' where "m = (Err e, a')" "tight a'" "extends a a'" "io_from_eval e \<in> alloc_errs"
  using assms by (cases m) (auto simp: allocates_def)

section \<open>The loop is a stream reader\<close>

definition stack_value :: "clvm list \<Rightarrow> clvm" where
  "stack_value ts = foldr CPair ts (CAtom [])"

definition de_good :: "Allocator \<times> NodePtr list \<Rightarrow> clvm \<Rightarrow> bool" where
  "de_good s vs \<longleftrightarrow> (case s of (a, values) \<Rightarrow> tight a \<and> (\<exists>ts. list_all2 (rep a) values ts \<and> vs = stack_value ts))"

definition de_ext :: "Allocator \<times> 'a \<Rightarrow> Allocator \<times> 'a \<Rightarrow> bool" where
  "de_ext s s' \<longleftrightarrow> extends (fst s) (fst s')"

definition de_err :: "io_error set \<Rightarrow> Allocator \<times> 'a \<Rightarrow> 'r io \<times> Allocator \<Rightarrow> bool" where
  "de_err es s m \<longleftrightarrow> (\<exists>e \<in> es. fst m = Err e) \<and> tight (snd m) \<and> extends (fst s) (snd m)"

lemma stack_value_CPair: "CPair t vs = stack_value ts \<Longrightarrow> \<exists>ts'. ts = t # ts' \<and> vs = stack_value ts'"
  by (cases ts) (auto simp: stack_value_def)

lemma de_good_pop:
  assumes "de_good (a, values) (CPair t vs)"
  obtains p vals' where "values = p # vals'" "rep a p t" "de_good (a, vals') vs"
proof -
  obtain ts where "tight a" "list_all2 (rep a) values (t # ts)" "vs = stack_value ts"
    using assms by (auto simp: de_good_def dest!: stack_value_CPair)
  then show thesis using that by (auto simp: de_good_def list_all2_Cons2)
qed

lemma de_good_push:
  assumes "de_good (a, values) vs" "extends a a'" "tight a'" "rep a' p t"
  shows "de_good (a', p # values) (CPair t vs)"
proof -
  obtain ts where ts: "list_all2 (rep a) values ts" "vs = stack_value ts" using assms(1) by (auto simp: de_good_def)
  have "list_all2 (rep a') values ts" by (rule list_all2_mono [OF ts(1)]) (rule rep_extends [OF _ assms(2)])
  then show ?thesis using assms(3,4) ts(2)
    by (auto simp: de_good_def stack_value_def intro!: exI [of _ "t # ts"])
qed

lemma de_good_tight: "de_good (a, values) vs \<Longrightarrow> tight a"
  by (auto simp: de_good_def)

lemma parse_atom_ptr_errs: "parse_atom_ptr f b = Err e \<Longrightarrow> \<not> b \<le> MAX_SINGLE_BYTE \<Longrightarrow> e \<in> format_errs"
proof -
  assume "parse_atom_ptr f b = Err e" "\<not> b \<le> MAX_SINGLE_BYTE"
  moreover from this(2) have "\<not> b AND 0x80 = 0" by (auto simp: and_80 MAX_SINGLE_BYTE_def word_le_nat_alt)
  ultimately show ?thesis
    by (auto simp: parse_atom_ptr_def decode_size_def decode_size_with_offset_def read_exact_def slice_def Let_def
        format_errs_def seek_current_def bindR_eq_Err split: if_splits)
qed

lemma parse_atom_complete:
  assumes t: "tight a" and rem: "remaining f = e @ r" and enc: "atom_enc bs e"
  obtains m where "allocates a (CAtom bs) m"
    "parse_atom a (hd e) (advance 1 f) = (map_err io_from_eval (bindR (fst m) (\<lambda>n. Ok (n, advance (length e) f))), snd m)"
proof -
  consider "hd e = 1" | "hd e = 0x80" | "hd e \<noteq> 1" "hd e \<noteq> 0x80" by blast
  then show thesis
  proof cases
    case 1
    then show thesis using atom_enc_hd(5) [OF enc] t rep_one [of a]
      by (intro that [of "(Ok (one a), a)"]) (auto simp: allocates_def parse_atom_def)
  next
    case 2
    then show thesis using atom_enc_hd(4) [OF enc] t
      by (intro that [of "(Ok (nil a), a)"]) (auto simp: allocates_def parse_atom_def)
  next
    case 3
    then show thesis using parse_atom_ptr_complete [OF rem enc] allocates_new_atom [OF t, of bs]
      by (intro that [of "new_atom a bs"]) (simp_all add: parse_atom_def Let_def case_prod_beta')
  qed
qed

lemma parse_atom_ptr_bad:
  assumes rem: "remaining f = b # r" and no: "\<nexists>bs e rest. remaining f = e @ rest \<and> atom_enc bs e"
  shows "\<exists>e \<in> format_errs. parse_atom_ptr (advance 1 f) b = Err e" and "b \<noteq> 0x80" and "b \<noteq> 1"
proof -
  have big: "\<not> b \<le> MAX_SINGLE_BYTE"
  proof
    assume "b \<le> MAX_SINGLE_BYTE"
    then have "atom_enc [b] [b]" by (simp add: atom_enc_def MAX_SINGLE_BYTE_def word_le_nat_alt)
    with no show False using rem by (metis append_Cons append_Nil)
  qed
  then show "b \<noteq> 1" by (auto simp: MAX_SINGLE_BYTE_def word_le_nat_alt)
  have "atom_enc [] [0x80]" using atom_enc_ser [of "[]"] by (simp add: atom_ser_def size_prefix_def shortest_prefix_def)
  with no show "b \<noteq> 0x80" using rem by (metis append_Cons append_Nil)
  have "parse_atom_ptr (advance 1 f) b \<noteq> Ok x" for x using parse_atom_ptr_sound [OF rem, of "fst x" "snd x"] no by auto
  then obtain e where "parse_atom_ptr (advance 1 f) b = Err e"
    using parse_atom_ptr_no_panic [OF rem] by (cases "parse_atom_ptr (advance 1 f) b") auto
  then show "\<exists>e \<in> format_errs. parse_atom_ptr (advance 1 f) b = Err e" using parse_atom_ptr_errs [OF _ big] by auto
qed

lemma parse_atom_bad:
  assumes "remaining f = b # r" "\<nexists>bs e rest. remaining f = e @ rest \<and> atom_enc bs e"
  shows "\<exists>e \<in> format_errs. parse_atom a b (advance 1 f) = (Err e, a)"
  using parse_atom_ptr_bad [OF assms] by (auto simp: parse_atom_def)

lemma de_loop_eof:
  "remaining f = [] \<Longrightarrow> node_from_stream_loop a vals f (PSExp # ops) = (Err (IoErr UnexpectedEof ''failed to fill whole buffer''), a)"
  by (subst node_from_stream_loop.simps, subst read_one) simp

lemma de_loop_byte:
  "remaining f = b # r \<Longrightarrow> node_from_stream_loop a vals f (PSExp # ops) =
     (if b = 0xff then node_from_stream_loop a vals (advance 1 f) (PSExp # PSExp # PCons # ops)
      else tryS (parse_atom a b (advance 1 f)) (\<lambda>(v, f) a. node_from_stream_loop a (v # vals) f ops))"
  by (subst node_from_stream_loop.simps, subst read_one) (simp add: CONS_BOX_MARKER_def)

lemma de_loop_bad:
  assumes "remaining f = b # r" "b \<noteq> 0xff" "\<nexists>bs e rest. remaining f = e @ rest \<and> atom_enc bs e" "tight a"
  shows "de_err format_errs (a, vals) (node_from_stream_loop a vals f (PSExp # ops))"
  using parse_atom_bad [OF assms(1,3), of a] assms(2,4) unfolding de_loop_byte [OF assms(1)] by (auto simp: de_err_def)

abbreviation de_loop :: "Allocator \<times> NodePtr list \<Rightarrow> Cursor \<Rightarrow> ParseOp list \<Rightarrow> (NodePtr \<times> Cursor) io \<times> Allocator" where
  "de_loop s \<equiv> node_from_stream_loop (fst s) (snd s)"

lemma no_enc_fe: "remaining f = 0xfe # r \<Longrightarrow> \<nexists>bs e rest. remaining f = e @ rest \<and> atom_enc bs e"
  by (metis atom_enc_hd(1,3) hd_append2 list.sel(1))

interpretation de_reader: stream_reader de_loop no_refs de_good de_ext "de_err alloc_errs" "de_err format_errs"
proof (unfold_locales, goal_cases)
  case (5 s vs f ops)
  then show ?case by (cases s) (simp add: de_loop_eof de_err_def format_errs_def de_good_tight)
next
  case (6 f r s ops)
  then show ?case by (simp only: de_loop_byte simp_thms if_True)
next
  case (7 s vs f e r bs ops)
  obtain a vals where s: "s = (a, vals)" by fastforce
  obtain b r' where rem: "remaining f = b # r'" "b = hd e" using 7(2) atom_enc_hd(1) [OF 7(3)] by (cases e) auto
  obtain m where m: "allocates a (CAtom bs) m"
      "parse_atom a (hd e) (advance 1 f) = (map_err io_from_eval (bindR (fst m) (\<lambda>n. Ok (n, advance (length e) f))), snd m)"
    using parse_atom_complete [OF de_good_tight 7(2,3)] 7(1) s by blast
  have eq: "de_loop s f (PSExp # ops) = tryS (parse_atom a (hd e) (advance 1 f)) (\<lambda>(v, f) a. node_from_stream_loop a (v # vals) f ops)"
    using atom_enc_hd(2) [OF 7(3)] s rem(2) unfolding de_loop_byte [OF rem(1)] by simp
  from m(1) show ?case
  proof (cases rule: allocatesE)
    case (ok p a')
    then have "de_loop s f (PSExp # ops) = de_loop (a', p # vals) (advance (length e) f) ops" unfolding eq m(2) by simp
    then show ?thesis using de_good_push [of a vals vs a' p] 7(1) ok s by (auto simp: de_ext_def)
  next
    case (fail er a')
    then show ?thesis using s unfolding eq m(2) by (simp add: de_err_def)
  qed
next
  case (8 s vs f b r ops)
  then show ?case using de_loop_bad [OF 8(2,3,5)] by (cases s) (auto dest: de_good_tight)
next
  case (10 s vs f r ops)
  then show ?case using de_loop_bad [OF 10(2) _ no_enc_fe [OF 10(2)]] by (cases s) (auto dest: de_good_tight)
next
  case (11 s rt lt vs f ops)
  obtain a vals where s: "s = (a, vals)" by fastforce
  with 11 obtain x y vals' where v: "vals = y # x # vals'" "rep a x lt" "rep a y rt" "de_good (a, vals') vs"
    by (auto elim!: de_good_pop)
  note t = de_good_tight [OF v(4)]
  show ?case using allocates_new_pair [OF t v(2,3)]
  proof (cases rule: allocatesE)
    case (ok p a')
    then have "de_loop s f (PCons # ops) = de_loop (a', p # vals') f ops"
      using s v(1) by (subst node_from_stream_loop.simps) simp
    then show ?thesis using de_good_push [OF v(4) ok(3,2,4)] ok s by (auto simp: de_ext_def)
  next
    case (fail e a')
    then show ?thesis using s v(1) by (auto simp: node_from_stream_loop.simps de_err_def)
  qed
qed (auto simp: de_ext_def de_err_def no_refs_def intro: extends_trans)

text \<open>What a call on a byte string gives.\<close>

lemma node_from_bytes_cases:
  assumes "tight a"
  shows "case node_from_bytes a b of
      (Ok n, a') \<Rightarrow> tight a' \<and> extends a a' \<and> (\<exists>e rest t. b = e @ rest \<and> parses no_refs (CAtom []) e t \<and> rep a' n t)
    | (Err er, a') \<Rightarrow> tight a' \<and> extends a a' \<and>
        (er \<in> alloc_errs \<or> er \<in> format_errs \<and> \<not> parsable no_refs (CAtom []) b)
    | (Panic p, a') \<Rightarrow> False"
proof -
  let ?f = "cursor_new b"
  have rem: "remaining ?f = b" by (simp add: remaining_def cursor_new_def)
  have "de_good (a, []) (CAtom [])" using assms by (simp add: de_good_def stack_value_def)
  then show ?thesis
  proof (cases rule: de_reader.reads_cases [where f = ?f and ops = "[]"])
    case (parsed e t rest s)
    obtain a' vals where s: "s = (a', vals)" by fastforce
    obtain n vals' where n: "vals = n # vals'" "rep a' n t" using parsed(4) s by (auto elim: de_good_pop)
    have "node_from_bytes a b = (Ok n, a')"
      using parsed(5) s n(1) by (simp add: node_from_bytes_def node_from_stream_def node_from_stream_loop.simps(1))
    then show ?thesis using parsed s n de_good_tight rem by (auto simp: de_ext_def)
  qed (use rem in \<open>auto simp: node_from_bytes_def node_from_stream_def de_err_def split: prod.splits\<close>)
qed

section \<open>Round trip\<close>

fun atoms_ok :: "clvm \<Rightarrow> bool" where
  "atoms_ok (CAtom bs) \<longleftrightarrow> length bs < 2 ^ 34"
| "atoms_ok (CPair l r) \<longleftrightarrow> atoms_ok l \<and> atoms_ok r"

lemma rep_atoms_ok: "rep a p t \<Longrightarrow> atoms_ok t"
proof (induction t arbitrary: p rule: clvm.induct)
  case (CAtom bs)
  then show ?case using rep_atom_length [OF CAtom] by simp
next
  case (CPair l r)
  then show ?case using rep_pfirst rep_prest by fastforce
qed

lemma parses_cser: "atoms_ok t \<Longrightarrow> parses R vs (cser t) t"
proof (induction t arbitrary: vs)
  case (CAtom bs)
  then show ?case by (simp add: parses_atom atom_enc_ser)
next
  case (CPair l r)
  then show ?case by (simp add: CONS_BOX_MARKER_def parses_pair)
qed

lemma node_from_bytes_cser:
  assumes "tight a" "atoms_ok t"
  shows "case node_from_bytes a (cser t @ rest) of
      (Ok n, a') \<Rightarrow> tight a' \<and> extends a a' \<and> rep a' n t
    | (Err er, a') \<Rightarrow> tight a' \<and> extends a a' \<and> er \<in> alloc_errs
    | (Panic p, a') \<Rightarrow> False"
proof -
  have p: "parses no_refs (CAtom []) (cser t) t" by (rule parses_cser [OF assms(2)])
  then have "parsable no_refs (CAtom []) (cser t @ rest)" by (auto simp: parsable_def)
  then show ?thesis using node_from_bytes_cases [OF assms(1), of "cser t @ rest"] parses_unique [OF p]
    by (fastforce split: prod.splits outcome.splits)
qed

section \<open>Paths of back-references\<close>

lemma parse_path_complete:
  assumes "remaining f = e @ r" "atom_enc p e"
  shows "parse_path f = Ok (p, advance (length e) f)"
proof -
  obtain b r' where "remaining f = b # r'" "b = hd e" using assms(1) atom_enc_hd(1) [OF assms(2)] by (cases e) auto
  then show ?thesis using parse_atom_ptr_complete [OF assms] by (simp only: parse_path_def read_one) simp
qed

lemma parse_path_bad:
  assumes "\<nexists>p e rest. remaining f = e @ rest \<and> atom_enc p e"
  shows "\<exists>e \<in> format_errs. parse_path f = Err e"
proof (cases "remaining f")
  case Nil
  then show ?thesis by (simp only: parse_path_def read_one) (simp add: format_errs_def)
next
  case (Cons b r)
  obtain e where e: "parse_atom_ptr (advance 1 f) b = Err e" "e \<in> format_errs"
    using parse_atom_ptr_bad [OF Cons assms] by blast
  then show ?thesis using Cons by (simp only: parse_path_def read_one) simp
qed

lemma parse_path_remaining: "parse_path f = Ok (p, f') \<Longrightarrow> length (remaining f') < length (remaining f)"
  by (auto simp: parse_path_def bindR_eq_Ok dest!: read_exact_remaining parse_atom_ptr_remaining)

end
