(* ===== verification/Tools.thy ===== *)
theory Tools
  imports De TraversePath
begin

text \<open>
  The stream tools of \<open>src/src/serde/tools.rs\<close>: the length of a serialized value, trusted
  (back-references are skipped) and checked (back-references are resolved on a tree that
  keeps only the shape of the values), and the tree hash of a stream. The SHA-256 function
  of \<open>chia_sha2\<close> is the parameter \<open>H\<close>. Each loop is a stream reader.
\<close>

section \<open>The operations\<close>

definition BACK_REFERENCE :: u8 where "BACK_REFERENCE = 0xfe"

lemma seek_current_remaining: "length (remaining (seek_current n f)) \<le> length (remaining f)"
  by (simp add: remaining_def seek_current_def)

lemma decode_size_remaining: "decode_size f b = Ok (n, f') \<Longrightarrow> length (remaining f') \<le> length (remaining f)"
  by (auto simp: decode_size_def decode_size_with_offset_def bindR_eq_Ok Let_def dest!: read_exact_remaining split: if_splits)

text \<open>The counter of the trusted walk is an \<open>i32\<close>.\<close>

function serialized_length_trusted_loop :: "Cursor \<Rightarrow> 32 word \<Rightarrow> Cursor io" where
  "serialized_length_trusted_loop f ops_counter =
     (if 0 < sint ops_counter then
        let ops_counter = ops_counter - 1 in
        bindR (read_exact 1 f) (\<lambda>(b, f).
        if b ! 0 = CONS_BOX_MARKER then serialized_length_trusted_loop f (ops_counter + 2)
        else if b ! 0 = BACK_REFERENCE then
          bindR (read_exact 1 f) (\<lambda>(first_byte, f).
          if first_byte ! 0 > MAX_SINGLE_BYTE then
            bindR (decode_size f (first_byte ! 0)) (\<lambda>(path_size, f).
            let f = seek_current (unat path_size) f in
            if length (get_ref f) < position f then Err bad_encoding
            else serialized_length_trusted_loop f ops_counter)
          else serialized_length_trusted_loop f ops_counter)
        else if b ! 0 = 0x80 \<or> b ! 0 \<le> MAX_SINGLE_BYTE then serialized_length_trusted_loop f ops_counter
        else
          bindR (decode_size f (b ! 0)) (\<lambda>(blob_size, f).
          let f = seek_current (unat blob_size) f in
          if length (get_ref f) < position f then Err bad_encoding
          else serialized_length_trusted_loop f ops_counter))
      else Ok f)"
  by pat_completeness auto
termination
  by (relation "measure (\<lambda>(f, _). length (remaining f))")
    (auto dest!: read_exact_remaining decode_size_remaining intro: le_less_trans [OF seek_current_remaining])

declare serialized_length_trusted_loop.simps [simp del]

definition serialized_length_from_bytes_trusted :: "bytes \<Rightarrow> nat io" where
  "serialized_length_from_bytes_trusted b =
     bindR (serialized_length_trusted_loop (cursor_new b) 1) (\<lambda>f. Ok (position f))"

definition hash_atom :: "(bytes \<Rightarrow> bytes) \<Rightarrow> bytes \<Rightarrow> bytes" where
  "hash_atom H buf = H ([1] @ buf)"

definition hash_pair :: "(bytes \<Rightarrow> bytes) \<Rightarrow> bytes \<Rightarrow> bytes \<Rightarrow> bytes" where
  "hash_pair H left right = H ([2] @ left @ right)"

function tree_hash_loop :: "(bytes \<Rightarrow> bytes) \<Rightarrow> bytes list \<Rightarrow> Cursor \<Rightarrow> ParseOp list \<Rightarrow> (bytes \<times> Cursor) io" where
  "tree_hash_loop H values f [] = (case values of v # _ \<Rightarrow> Ok (v, f) | [] \<Rightarrow> Panic ''unwrap'')"
| "tree_hash_loop H values f (PSExp # ops) =
     bindR (read_exact 1 f) (\<lambda>(b, f).
     if b ! 0 = CONS_BOX_MARKER then tree_hash_loop H values f (PSExp # PSExp # PCons # ops)
     else if b ! 0 = 0x80 then tree_hash_loop H (hash_atom H [] # values) f ops
     else if b ! 0 \<le> MAX_SINGLE_BYTE then tree_hash_loop H (hash_atom H b # values) f ops
     else
       bindR (decode_size f (b ! 0)) (\<lambda>(blob_size, f).
       bindR (slice (get_ref f) (position f) (length (get_ref f))) (\<lambda>blob.
       if length blob < unat blob_size then Err bad_encoding
       else
         bindR (slice blob 0 (unat blob_size)) (\<lambda>atom.
         tree_hash_loop H (hash_atom H atom # values) (f\<lparr> position := position f + unat blob_size \<rparr>) ops))))"
| "tree_hash_loop H values f (PCons # ops) =
     (case values of
        v2 # v1 # values \<Rightarrow> tree_hash_loop H (hash_pair H v1 v2 # values) f ops
      | _ \<Rightarrow> Panic ''unwrap'')"
  by pat_completeness auto
termination
  by (relation "measure (\<lambda>(H, values, f, ops). 3 * length (remaining f) + length ops)")
    (auto dest!: read_exact_remaining decode_size_remaining simp: remaining_def)

declare tree_hash_loop.simps [simp del]

definition tree_hash_from_stream :: "(bytes \<Rightarrow> bytes) \<Rightarrow> Cursor \<Rightarrow> (bytes \<times> Cursor) io" where
  "tree_hash_from_stream H f = tree_hash_loop H [] f [PSExp]"

function serialized_length_loop :: "Allocator \<Rightarrow> NodePtr \<Rightarrow> Cursor \<Rightarrow> ParseOp list \<Rightarrow> nat io" where
  "serialized_length_loop a values f [] =
     bindR (sexp a values) (\<lambda>s. case s of SPair _ _ \<Rightarrow> Ok (position f) | SAtom \<Rightarrow> Err bad_encoding)"
| "serialized_length_loop a values f (PSExp # ops) =
     bindR (read_exact 1 f) (\<lambda>(b, f).
     if b ! 0 = CONS_BOX_MARKER then serialized_length_loop a values f (PSExp # PSExp # PCons # ops)
     else if b ! 0 = BACK_REFERENCE then
       bindR (parse_path f) (\<lambda>(path, f).
       bindR (map_err io_from_eval (traverse_path a path values)) (\<lambda>back_reference.
       case new_pair a (red_node back_reference) values of (r, a) \<Rightarrow>
       bindR (map_err io_from_eval r) (\<lambda>values. serialized_length_loop a values f ops)))
     else if b ! 0 = 0x80 \<or> b ! 0 \<le> MAX_SINGLE_BYTE then
       (case new_pair a (nil a) values of (r, a) \<Rightarrow>
        bindR (map_err io_from_eval r) (\<lambda>values. serialized_length_loop a values f ops))
     else
       bindR (decode_size f (b ! 0)) (\<lambda>(blob_size, f).
       let f = seek_current (unat blob_size) f in
       if length (get_ref f) < position f then Err bad_encoding
       else
         (case new_pair a (nil a) values of (r, a) \<Rightarrow>
          bindR (map_err io_from_eval r) (\<lambda>values. serialized_length_loop a values f ops))))"
| "serialized_length_loop a values f (PCons # ops) =
     bindR (sexp a values) (\<lambda>s. case s of
       SPair v1 v2 \<Rightarrow>
         bindR (sexp a v2) (\<lambda>s. case s of
           SPair v3 v4 \<Rightarrow>
             (case new_pair a v3 v1 of (r, a) \<Rightarrow>
              bindR (map_err io_from_eval r) (\<lambda>new_root.
              case new_pair a new_root v4 of (r, a) \<Rightarrow>
              bindR (map_err io_from_eval r) (\<lambda>values. serialized_length_loop a values f ops)))
         | SAtom \<Rightarrow> Err bad_encoding)
     | SAtom \<Rightarrow> Err bad_encoding)"
  by pat_completeness auto
termination
  by (relation "measure (\<lambda>(a, values, f, ops). 3 * length (remaining f) + length ops)")
    (auto dest!: read_exact_remaining decode_size_remaining parse_path_remaining
      intro: le_less_trans [OF mult_le_mono2 [OF seek_current_remaining]])

declare serialized_length_loop.simps [simp del]

definition serialized_length_from_bytes :: "bytes \<Rightarrow> nat io" where
  "serialized_length_from_bytes b =
     bindR allocator_new (\<lambda>a. serialized_length_loop a (nil a) (cursor_new b) [PSExp])"

end
