(* ===== verification/ToolsSpec.thy ===== *)
theory ToolsSpec
  imports Tools
begin

text \<open>
  What the stream tools compute, in terms of the format: each of them is a stream reader,
  so that each either consumes one serialized value or rejects the bytes.
\<close>

section \<open>One atom\<close>

lemma atom_enc_small: "atom_enc bs e \<Longrightarrow> hd e \<le> MAX_SINGLE_BYTE \<Longrightarrow> e = [hd e] \<and> bs = [hd e]"
proof -
  assume enc: "atom_enc bs e" and s: "hd e \<le> MAX_SINGLE_BYTE"
  from enc consider b where "bs = [b]" "e = [b]" | k where "prefix_ok k (length bs)" "e = size_prefix k (length bs) @ bs"
    by (auto simp: atom_enc_def)
  then show ?thesis
  proof cases
    case (2 k)
    have "128 \<le> unat (hd (size_prefix k (length bs)))" "1 \<le> k"
      using size_prefix_hd(2) [OF 2(1)] 2(1) by (auto simp: leading_ones_unat prefix_ok_def split: if_splits)
    then show ?thesis using 2(2) s by (simp add: size_prefix_def MAX_SINGLE_BYTE_def word_le_nat_alt)
  qed simp
qed

lemma decode_atom:
  assumes "remaining f = e @ r" "atom_enc bs e" "\<not> hd e \<le> MAX_SINGLE_BYTE"
  obtains sz f1 where "decode_size (advance 1 f) (hd e) = Ok (sz, f1)" "position f1 + unat sz \<le> length (get_ref f1)"
    "take (unat sz) (drop (position f1) (get_ref f1)) = bs" "seek_current (unat sz) f1 = advance (length e) f"
  using parse_atom_ptr_complete [OF assms(1,2)] assms(3) that
  by (auto simp: parse_atom_ptr_def bindR_eq_Ok Let_def slice_eq_Ok seek_current_def split: if_splits)

lemma decode_bad:
  assumes "remaining f = b # r" "\<nexists>bs e rest. remaining f = e @ rest \<and> atom_enc bs e"
  shows "\<not> b \<le> MAX_SINGLE_BYTE" "b \<noteq> 0x80"
    "(\<exists>e \<in> format_errs. decode_size (advance 1 f) b = Err e) \<or>
     (\<exists>sz f1. decode_size (advance 1 f) b = Ok (sz, f1) \<and> length (get_ref f1) < position f1 + unat sz)"
proof -
  obtain e where e: "parse_atom_ptr (advance 1 f) b = Err e" "e \<in> format_errs" using parse_atom_ptr_bad [OF assms] by blast
  show big: "\<not> b \<le> MAX_SINGLE_BYTE"
  proof
    assume "b \<le> MAX_SINGLE_BYTE"
    with e(1) show False by (auto simp: parse_atom_ptr_def slice_def bindR_eq_Err split: if_splits)
  qed
  show "b \<noteq> 0x80" using parse_atom_ptr_bad [OF assms] by blast
  from big e show "(\<exists>e \<in> format_errs. decode_size (advance 1 f) b = Err e) \<or>
     (\<exists>sz f1. decode_size (advance 1 f) b = Ok (sz, f1) \<and> length (get_ref f1) < position f1 + unat sz)"
    by (auto simp: parse_atom_ptr_def bindR_eq_Err Let_def seek_current_def slice_def split: if_splits)
qed

section \<open>The trusted length\<close>

text \<open>One turn of the loop, and the loop with a counter that cannot overflow.\<close>

definition trusted_skip :: "Cursor \<Rightarrow> u8 \<Rightarrow> Cursor io" where
  "trusted_skip f b =
     (if b \<le> MAX_SINGLE_BYTE then Ok f
      else bindR (decode_size f b) (\<lambda>(sz, f).
        if length (get_ref f) < position f + unat sz then Err bad_encoding else Ok (seek_current (unat sz) f)))"

definition trusted_turn :: "Cursor \<Rightarrow> (bool \<times> Cursor) io" where
  "trusted_turn f =
     bindR (read_exact 1 f) (\<lambda>(b, f).
     if b ! 0 = 0xff then Ok (True, f)
     else if b ! 0 = 0xfe then
       bindR (read_exact 1 f) (\<lambda>(b, f). bindR (trusted_skip f (b ! 0)) (\<lambda>f. Ok (False, f)))
     else if b ! 0 = 0x80 then Ok (False, f)
     else bindR (trusted_skip f (b ! 0)) (\<lambda>f. Ok (False, f)))"

lemma trusted_skip_remaining: "trusted_skip f b = Ok f' \<Longrightarrow> length (remaining f') \<le> length (remaining f)"
  by (auto simp: trusted_skip_def bindR_eq_Ok dest!: decode_size_remaining
      intro: le_trans [OF seek_current_remaining] split: if_splits)

lemma trusted_turn_remaining: "trusted_turn f = Ok (p, f') \<Longrightarrow> length (remaining f') < length (remaining f)"
  by (auto simp: trusted_turn_def bindR_eq_Ok dest!: read_exact_remaining trusted_skip_remaining split: if_splits)

function trusted_nat :: "Cursor \<Rightarrow> nat \<Rightarrow> Cursor io" where
  "trusted_nat f 0 = Ok f"
| "trusted_nat f (Suc n) = bindR (trusted_turn f) (\<lambda>(p, f). trusted_nat f (if p then n + 2 else n))"
  by pat_completeness auto
termination
  by (relation "measure (\<lambda>(f, _). length (remaining f))") (auto dest: trusted_turn_remaining)

declare trusted_nat.simps [simp del]

lemma bindR_bindR: "bindR (bindR m f) g = bindR m (\<lambda>x. bindR (f x) g)"
  by (cases m) auto

lemma bindR_if: "bindR (if c then m else m') g = (if c then bindR m g else bindR m' g)"
  by simp

lemma trusted_loop_turn:
  "serialized_length_trusted_loop f c =
     (if 0 < sint c then bindR (trusted_turn f) (\<lambda>(p, f). serialized_length_trusted_loop f (if p then c + 1 else c - 1))
      else Ok f)"
proof -
  have len: "length (get_ref (seek_current n g)) < position (seek_current n g) \<longleftrightarrow> length (get_ref g) < position g + n" for n g
    by (simp add: seek_current_def)
  have skip: "bindR (bindR (trusted_skip g b) (\<lambda>f. Ok (False, f))) K =
      (if MAX_SINGLE_BYTE < b then bindR (decode_size g b) (\<lambda>(sz, f).
        if length (get_ref f) < position f + unat sz then Err bad_encoding else K (False, seek_current (unat sz) f))
       else K (False, g))" for g b and K :: "bool \<times> Cursor \<Rightarrow> Cursor io"
    by (cases "decode_size g b") (auto simp: trusted_skip_def not_less)
  show ?thesis
    by (subst serialized_length_trusted_loop.simps)
      (auto simp: trusted_turn_def bindR_bindR [of "read_exact _ _"] bindR_if skip Let_def len CONS_BOX_MARKER_def
        BACK_REFERENCE_def case_prod_beta' linorder_not_less [symmetric] add.commute intro!: bindR_cong)
qed

lemma trusted_nat_eq:
  "length (remaining f) + n < 2 ^ 31 \<Longrightarrow> serialized_length_trusted_loop f (of_nat n) = trusted_nat f n"
proof (induction f n rule: trusted_nat.induct)
  case (1 f)
  then show ?case by (subst trusted_loop_turn) (simp add: trusted_nat.simps)
next
  case (2 f n)
  have "sint (of_nat (Suc n) :: 32 word) = int (Suc n)"
    using 2(2) by (simp add: signed_of_nat signed_take_bit_int_eq_self del: of_nat_Suc)
  then have pos: "0 < sint (of_nat (Suc n) :: 32 word)" by simp
  have c: "(of_nat (Suc n) :: 32 word) + 1 = of_nat (n + 2)" "(of_nat (Suc n) :: 32 word) - 1 = of_nat n" by simp_all
  have "serialized_length_trusted_loop f' (of_nat (if p then n + 2 else n)) = trusted_nat f' (if p then n + 2 else n)"
    if t: "trusted_turn f = Ok (p, f')" for p f'
    using 2(1) [OF t refl] trusted_turn_remaining [OF t] 2(2) by simp
  then show ?case using pos
    by (subst trusted_loop_turn, subst trusted_nat.simps) (auto simp: c if_distrib simp del: of_nat_Suc intro!: bindR_cong)
qed

lemma skip_atom:
  assumes "remaining f = e @ r" "atom_enc bs e"
  shows "trusted_skip (advance 1 f) (hd e) = Ok (advance (length e) f)"
proof (cases "hd e \<le> MAX_SINGLE_BYTE")
  case True
  then have "length e = 1" using atom_enc_small [OF assms(2)] by (cases e) auto
  with True show ?thesis by (simp add: trusted_skip_def)
next
  case False
  then show ?thesis by (rule decode_atom [OF assms]) (use False in \<open>auto simp: trusted_skip_def\<close>)
qed

lemma skip_bad:
  assumes "remaining f = b # r" "\<nexists>bs e rest. remaining f = e @ rest \<and> atom_enc bs e"
  shows "\<exists>e \<in> format_errs. trusted_skip (advance 1 f) b = Err e"
  using decode_bad [OF assms] by (auto simp: trusted_skip_def format_errs_def)

lemma turn_eof: "remaining f = [] \<Longrightarrow> \<exists>e \<in> format_errs. trusted_turn f = Err e"
  by (simp only: trusted_turn_def read_one) (simp add: format_errs_def)

lemma turn_byte:
  "remaining f = b # r \<Longrightarrow> trusted_turn f =
     (if b = 0xff then Ok (True, advance 1 f)
      else if b = 0xfe then
        bindR (read_exact 1 (advance 1 f)) (\<lambda>(b, f). bindR (trusted_skip f (b ! 0)) (\<lambda>f. Ok (False, f)))
      else if b = 0x80 then Ok (False, advance 1 f)
      else bindR (trusted_skip (advance 1 f) b) (\<lambda>f. Ok (False, f)))"
  by (subst trusted_turn_def, subst read_one) simp

lemma turn_atom:
  assumes "remaining f = e @ r" "atom_enc bs e"
  shows "trusted_turn f = Ok (False, advance (length e) f)"
proof -
  obtain b r' where rem: "remaining f = b # r'" "b = hd e" using assms(1) atom_enc_hd(1) [OF assms(2)] by (cases e) auto
  show ?thesis unfolding turn_byte [OF rem(1)]
    using rem(2) skip_atom [OF assms] atom_enc_hd(2,3,4) [OF assms(2)] by auto
qed

lemma turn_bad:
  assumes "remaining f = b # r" "b \<noteq> 0xff" "b \<noteq> 0xfe" "\<nexists>bs e rest. remaining f = e @ rest \<and> atom_enc bs e"
  shows "\<exists>e \<in> format_errs. trusted_turn f = Err e"
  using skip_bad [OF assms(1,4)] decode_bad(2) [OF assms(1,4)] assms(2,3) unfolding turn_byte [OF assms(1)] by auto

lemma turn_ref:
  assumes "remaining f = 0xfe # e @ r" "atom_enc p e"
  shows "trusted_turn f = Ok (False, advance (Suc (length e)) f)"
proof -
  have rem: "remaining (advance 1 f) = e @ r" using assms(1) by simp
  obtain b r' where b: "remaining (advance 1 f) = b # r'" "b = hd e" using rem atom_enc_hd(1) [OF assms(2)] by (cases e) auto
  have "read_exact 1 (advance 1 f) = Ok ([b], advance 1 (advance 1 f))" using b(1) by (simp only: read_one) simp
  then show ?thesis unfolding turn_byte [OF assms(1)] using skip_atom [OF rem assms(2)] b(2) by simp
qed

lemma turn_bad_ref:
  assumes "remaining f = 0xfe # r" "\<nexists>p e rest. r = e @ rest \<and> atom_enc p e"
  shows "\<exists>e \<in> format_errs. trusted_turn f = Err e"
proof (cases r)
  case Nil
  then have "read_exact 1 (advance 1 f) = Err (IoErr UnexpectedEof ''failed to fill whole buffer'')"
    using assms(1) by (simp only: read_one) simp
  then show ?thesis unfolding turn_byte [OF assms(1)] by (simp add: format_errs_def)
next
  case (Cons b r')
  have rem: "remaining (advance 1 f) = b # r'" using assms(1) Cons by simp
  then have "read_exact 1 (advance 1 f) = Ok ([b], advance 1 (advance 1 f))" by (simp only: read_one) simp
  then show ?thesis unfolding turn_byte [OF assms(1)] using skip_bad [OF rem] assms by auto
qed

definition any_ref :: "bytes \<Rightarrow> clvm \<Rightarrow> clvm option" where
  "any_ref p vs = Some (CAtom [])"

definition trusted_ops :: "unit \<Rightarrow> Cursor \<Rightarrow> ParseOp list \<Rightarrow> Cursor io" where
  "trusted_ops _ f ops = trusted_nat f (length (filter (\<lambda>x. x = PSExp) ops))"

lemma trusted_ops_PSExp:
  "trusted_ops s f (PSExp # ops) = bindR (trusted_turn f) (\<lambda>(p, f). trusted_ops s f (if p then PSExp # PSExp # PCons # ops else ops))"
  by (subst trusted_ops_def) (auto simp: trusted_nat.simps(2) trusted_ops_def intro!: bindR_cong)

definition rejects :: "io_error set \<Rightarrow> 's \<Rightarrow> 'a io \<Rightarrow> bool" where
  "rejects es s m \<longleftrightarrow> (\<exists>e \<in> es. m = Err e)"

interpretation trusted_reader:
  stream_reader trusted_ops any_ref "\<lambda>_ _. True" "\<lambda>_ _. True" "rejects {}" "rejects format_errs"
proof (unfold_locales, goal_cases)
  case (5 s vs f ops)
  then show ?case using turn_eof [of f] by (auto simp: trusted_ops_PSExp rejects_def)
next
  case (6 f r s ops)
  then show ?case by (subst trusted_ops_PSExp) (simp add: turn_byte)
next
  case (7 s vs f e r bs ops)
  then show ?case by (subst (2) trusted_ops_PSExp) (auto simp: turn_atom)
next
  case (8 s vs f b r ops)
  then show ?case using turn_bad [OF 8(2-5)] by (auto simp: trusted_ops_PSExp rejects_def)
next
  case (9 s vs f e r p t ops)
  then show ?case by (subst (2) trusted_ops_PSExp) (auto simp: turn_ref)
next
  case (10 s vs f r ops)
  then show ?case using turn_bad_ref [OF 10(2)] by (auto simp: trusted_ops_PSExp rejects_def any_ref_def)
qed (auto simp: rejects_def trusted_ops_def)

lemma parses_any_ref: "parses R vs e t \<Longrightarrow> \<exists>t'. parses any_ref ws e t'"
proof (induction arbitrary: ws rule: parses.induct)
  case (parses_pair vs sl l sr r)
  then show ?case by (meson parses.parses_pair)
next
  case (parses_ref p e vs t)
  have "any_ref p ws = Some (CAtom [])" by (simp add: any_ref_def)
  then show ?case using parses.parses_ref [OF parses_ref(1)] by blast
qed (auto intro: parses.intros)

lemma trusted_length_eq:
  assumes "length b < 2 ^ 31 - 1"
  shows "serialized_length_from_bytes_trusted b = Ok n \<longleftrightarrow>
      (\<exists>e rest t. b = e @ rest \<and> parses any_ref (CAtom []) e t \<and> n = length e)"
    and "serialized_length_from_bytes_trusted b = Err er \<Longrightarrow> er \<in> format_errs"
    and "serialized_length_from_bytes_trusted b \<noteq> Panic p"
proof -
  let ?f = "cursor_new b"
  have rem: "remaining ?f = b" by (simp add: remaining_def cursor_new_def)
  have eq: "serialized_length_trusted_loop ?f 1 = trusted_ops () ?f [PSExp]"
    using trusted_nat_eq [of ?f 1] assms rem by (simp add: trusted_ops_def)
  have "(serialized_length_from_bytes_trusted b = Ok n \<longleftrightarrow>
      (\<exists>e rest t. b = e @ rest \<and> parses any_ref (CAtom []) e t \<and> n = length e)) \<and>
     (serialized_length_from_bytes_trusted b = Err er \<longrightarrow> er \<in> format_errs) \<and>
     serialized_length_from_bytes_trusted b \<noteq> Panic p"
    using TrueI
  proof (cases rule: trusted_reader.reads_cases [where f = ?f and ops = "[]" and vs = "CAtom []" and s = "()"])
    case (malformed)
    then show ?thesis using rem eq
      by (auto simp: serialized_length_from_bytes_trusted_def rejects_def parsable_def)
  next
    case (parsed e t rest)
    have "serialized_length_from_bytes_trusted b = Ok (length e)"
      using parsed(5) eq by (simp add: serialized_length_from_bytes_trusted_def trusted_ops_def trusted_nat.simps cursor_new_def)
    moreover have "(\<exists>e rest t. b = e @ rest \<and> parses any_ref (CAtom []) e t \<and> n = length e) \<longleftrightarrow> n = length e"
      by (rule parses_the [OF parsed(2)]) (use parsed(1) rem in simp)
    ultimately show ?thesis by auto
  qed (simp_all add: rejects_def)
  then show "serialized_length_from_bytes_trusted b = Ok n \<longleftrightarrow>
      (\<exists>e rest t. b = e @ rest \<and> parses any_ref (CAtom []) e t \<and> n = length e)"
    "serialized_length_from_bytes_trusted b = Err er \<Longrightarrow> er \<in> format_errs"
    "serialized_length_from_bytes_trusted b \<noteq> Panic p" by blast+
qed

section \<open>The tree hash\<close>

fun tree_hash :: "(bytes \<Rightarrow> bytes) \<Rightarrow> clvm \<Rightarrow> bytes" where
  "tree_hash H (CAtom bs) = H (1 # bs)"
| "tree_hash H (CPair l r) = H (2 # tree_hash H l @ tree_hash H r)"

definition hash_good :: "(bytes \<Rightarrow> bytes) \<Rightarrow> bytes list \<Rightarrow> clvm \<Rightarrow> bool" where
  "hash_good H hs vs \<longleftrightarrow> (\<exists>ts. hs = map (tree_hash H) ts \<and> vs = stack_value ts)"

lemma hash_good_push: "hash_good H hs vs \<Longrightarrow> hash_good H (tree_hash H t # hs) (CPair t vs)"
proof -
  assume "hash_good H hs vs"
  then obtain ts where "hs = map (tree_hash H) ts" "vs = stack_value ts" by (auto simp: hash_good_def)
  then have "tree_hash H t # hs = map (tree_hash H) (t # ts) \<and> CPair t vs = stack_value (t # ts)" by (simp add: stack_value_def)
  then show ?thesis unfolding hash_good_def by (rule exI)
qed

lemma hash_good_pop: "hash_good H hs (CPair t vs) \<Longrightarrow> \<exists>hs'. hs = tree_hash H t # hs' \<and> hash_good H hs' vs"
  by (auto simp: hash_good_def dest!: stack_value_CPair)

lemma hash_loop_eof: "remaining f = [] \<Longrightarrow> rejects format_errs s (tree_hash_loop H hs f (PSExp # ops))"
  by (subst tree_hash_loop.simps, subst read_one) (simp add: rejects_def format_errs_def)

lemma hash_loop_byte:
  "remaining f = b # r \<Longrightarrow> tree_hash_loop H hs f (PSExp # ops) =
     (if b = 0xff then tree_hash_loop H hs (advance 1 f) (PSExp # PSExp # PCons # ops)
      else if b = 0x80 then tree_hash_loop H (hash_atom H [] # hs) (advance 1 f) ops
      else if b \<le> MAX_SINGLE_BYTE then tree_hash_loop H (hash_atom H [b] # hs) (advance 1 f) ops
      else
        bindR (decode_size (advance 1 f) b) (\<lambda>(blob_size, f).
        bindR (slice (get_ref f) (position f) (length (get_ref f))) (\<lambda>blob.
        if length blob < unat blob_size then Err bad_encoding
        else
          bindR (slice blob 0 (unat blob_size)) (\<lambda>atom.
          tree_hash_loop H (hash_atom H atom # hs) (f\<lparr> position := position f + unat blob_size \<rparr>) ops))))"
  by (subst tree_hash_loop.simps, subst read_one) (simp add: CONS_BOX_MARKER_def)

lemma hash_loop_atom:
  assumes "remaining f = e @ r" "atom_enc bs e"
  shows "tree_hash_loop H hs f (PSExp # ops) = tree_hash_loop H (tree_hash H (CAtom bs) # hs) (advance (length e) f) ops"
proof -
  obtain b r' where rem: "remaining f = b # r'" "b = hd e" using assms(1) atom_enc_hd(1) [OF assms(2)] by (cases e) auto
  consider "b = 0x80" | "b \<noteq> 0x80" "b \<le> MAX_SINGLE_BYTE" | "b \<noteq> 0x80" "\<not> hd e \<le> MAX_SINGLE_BYTE" using rem(2) by blast
  then show ?thesis
  proof cases
    case 1
    then show ?thesis unfolding hash_loop_byte [OF rem(1)] using rem(2) atom_enc_hd(4) [OF assms(2)] by (simp add: hash_atom_def)
  next
    case 2
    then have "e = [b]" "bs = [b]" using atom_enc_small [OF assms(2)] rem(2) by simp_all
    with 2 show ?thesis unfolding hash_loop_byte [OF rem(1)] using atom_enc_hd(2) [OF assms(2)] by (simp add: hash_atom_def)
  next
    case 3
    show ?thesis
    proof (rule decode_atom [OF assms 3(2)])
      fix sz f1 assume d: "decode_size (advance 1 f) (hd e) = Ok (sz, f1)" "position f1 + unat sz \<le> length (get_ref f1)"
        "take (unat sz) (drop (position f1) (get_ref f1)) = bs" "seek_current (unat sz) f1 = advance (length e) f"
      have l: "\<not> length (get_ref f1) - position f1 < unat sz" "position f1 \<le> length (get_ref f1)" using d(2) by linarith+
      show ?thesis unfolding hash_loop_byte [OF rem(1)]
        using d 3 rem(2) atom_enc_hd(2) [OF assms(2)] l by (simp add: slice_def hash_atom_def seek_current_def)
    qed
  qed
qed

lemma hash_loop_bad:
  assumes "remaining f = b # r" "b \<noteq> 0xff" "\<nexists>bs e rest. remaining f = e @ rest \<and> atom_enc bs e"
  shows "rejects format_errs s (tree_hash_loop H hs f (PSExp # ops))"
proof -
  have pos: "position f1 \<le> length (get_ref f1)" if d: "decode_size (advance 1 f) b = Ok (sz, f1)" for sz f1
  proof -
    obtain k where "k - 1 \<le> length (remaining (advance 1 f))" "f1 = advance (k - 1) (advance 1 f)"
      using d by (auto simp: decode_size_Ok_iff decode_Ok_iff)
    then show ?thesis using remaining_Cons [OF assms(1)] by (auto simp: remaining_def)
  qed
  show ?thesis using decode_bad [OF assms(1,3)] assms(2) pos unfolding hash_loop_byte [OF assms(1)]
    by (fastforce simp: rejects_def slice_def format_errs_def)
qed

interpretation hash_reader: stream_reader "tree_hash_loop H" no_refs "hash_good H" "\<lambda>_ _. True" "rejects {}" "rejects format_errs"
  for H :: "bytes \<Rightarrow> bytes"
proof (unfold_locales, goal_cases)
  case (6 f r s ops)
  then show ?case by (simp only: hash_loop_byte if_True simp_thms)
next
  case (7 s vs f e r bs ops)
  then show ?case using hash_loop_atom [OF 7(2,3), of H s ops] hash_good_push [OF 7(1), of "CAtom bs"] by auto
next
  case (8 s vs f b r ops)
  then show ?case by (intro hash_loop_bad) auto
next
  case (10 s vs f r ops)
  then show ?case by (intro hash_loop_bad [OF 10(2)] no_enc_fe) auto
next
  case (11 s rt lt vs f ops)
  then obtain hs where hs: "s = tree_hash H rt # tree_hash H lt # hs" "hash_good H hs vs" by (auto dest!: hash_good_pop)
  then have "tree_hash_loop H s f (PCons # ops) = tree_hash_loop H (tree_hash H (CPair lt rt) # hs) f ops"
    by (subst tree_hash_loop.simps) (simp add: hash_pair_def)
  then show ?case using hash_good_push [OF hs(2)] by blast
qed (auto simp: rejects_def no_refs_def intro: hash_loop_eof [unfolded rejects_def])

lemma tree_hash_from_stream_cases:
  "case tree_hash_from_stream H f of
      Ok (h, f') \<Rightarrow> \<exists>e rest t. remaining f = e @ rest \<and> parses no_refs (CAtom []) e t \<and> h = tree_hash H t \<and> f' = advance (length e) f
    | Err er \<Rightarrow> er \<in> format_errs \<and> \<not> parsable no_refs (CAtom []) (remaining f)
    | Panic p \<Rightarrow> False"
proof -
  have "hash_good H [] (CAtom [])" by (simp add: hash_good_def stack_value_def)
  then show ?thesis
  proof (cases rule: hash_reader.reads_cases [where f = f and ops = "[]"])
    case (parsed e t rest s)
    obtain hs where "s = tree_hash H t # hs" using hash_good_pop [OF parsed(4)] by blast
    then have "tree_hash_from_stream H f = Ok (tree_hash H t, advance (length e) f)"
      using parsed(5) by (simp add: tree_hash_from_stream_def tree_hash_loop.simps(1))
    then show ?thesis using parsed by auto
  qed (auto simp: rejects_def tree_hash_from_stream_def)
qed

section \<open>The checked length\<close>

text \<open>
  The allocator of this reader holds the shape of the stack: every atom is nil. A path
  leads into the shape exactly when it leads into the value.
\<close>

fun shape :: "clvm \<Rightarrow> clvm" where
  "shape (CAtom bs) = CAtom []"
| "shape (CPair l r) = CPair (shape l) (shape r)"

definition ref_lookup :: "bytes \<Rightarrow> clvm \<Rightarrow> clvm option" where
  "ref_lookup p vs =
     (if be_nat p = 0 then Some (CAtom []) else case cpath (be_nat p) vs of Inr t \<Rightarrow> Some t | Inl _ \<Rightarrow> None)"

lemma cpath_shape: "cpath n (shape t) = map_sum shape shape (cpath n t)"
proof (induction t arbitrary: n)
  case (CAtom bs)
  then show ?case by (subst (1 2) cpath.simps) simp
next
  case (CPair l r)
  then show ?case by (subst (1 2) cpath.simps) simp
qed

lemma ref_lookup_shape: "ref_lookup p (shape vs) = map_option shape (ref_lookup p vs)"
  by (auto simp: ref_lookup_def cpath_shape split: sum.split)

lemma traverse_ref:
  assumes "rep a v vs"
  shows "case ref_lookup p vs of
      Some t \<Rightarrow> \<exists>red. map_err io_from_eval (traverse_path a p v) = Ok red \<and> rep a (red_node red) t
    | None \<Rightarrow> map_err io_from_eval (traverse_path a p v) = Err (IoErr OtherKind ''path into atom'')"
  using rep_walk [OF assms, of "be_nat p"]
  by (auto simp: traverse_path_walk ref_lookup_def err_def io_from_eval_def split: sum.splits)

definition path_errs :: "io_error set" where
  "path_errs = insert (IoErr OtherKind ''path into atom'') format_errs"

definition len_good :: "Allocator \<times> NodePtr \<Rightarrow> clvm \<Rightarrow> bool" where
  "len_good s vs \<longleftrightarrow> tight (fst s) \<and> rep (fst s) (snd s) (shape vs)"

abbreviation len_loop :: "Allocator \<times> NodePtr \<Rightarrow> Cursor \<Rightarrow> ParseOp list \<Rightarrow> nat io" where
  "len_loop s \<equiv> serialized_length_loop (fst s) (snd s)"

definition len_push :: "Allocator \<Rightarrow> NodePtr \<Rightarrow> NodePtr \<Rightarrow> Cursor \<Rightarrow> ParseOp list \<Rightarrow> nat io" where
  "len_push a x values f ops =
     (case new_pair a x values of (r, a) \<Rightarrow>
      bindR (map_err io_from_eval r) (\<lambda>values. serialized_length_loop a values f ops))"

lemma len_push_cases:
  assumes "len_good s vs" "rep (fst s) x (shape t)"
  shows "rejects alloc_errs s (len_push (fst s) x (snd s) f ops) \<or>
    (\<exists>s'. de_ext s s' \<and> len_good s' (CPair t vs) \<and> len_push (fst s) x (snd s) f ops = len_loop s' f ops)"
proof -
  have t: "tight (fst s)" and r: "rep (fst s) (snd s) (shape vs)" using assms(1) by (auto simp: len_good_def)
  from allocates_new_pair [OF t assms(2) r] show ?thesis
  proof (cases rule: allocatesE)
    case (ok p a')
    then show ?thesis by (intro disjI2 exI [of _ "(a', p)"]) (simp add: len_push_def len_good_def de_ext_def)
  qed (simp add: len_push_def rejects_def)
qed

lemma len_loop_eof: "remaining f = [] \<Longrightarrow> rejects path_errs s (serialized_length_loop a v f (PSExp # ops))"
  by (subst serialized_length_loop.simps, subst read_one) (simp add: rejects_def path_errs_def format_errs_def)

lemma len_loop_byte:
  "remaining f = b # r \<Longrightarrow> serialized_length_loop a v f (PSExp # ops) =
     (if b = 0xff then serialized_length_loop a v (advance 1 f) (PSExp # PSExp # PCons # ops)
      else if b = 0xfe then
        bindR (parse_path (advance 1 f)) (\<lambda>(path, f).
        bindR (map_err io_from_eval (traverse_path a path v)) (\<lambda>back_reference. len_push a (red_node back_reference) v f ops))
      else if b = 0x80 then len_push a (nil a) v (advance 1 f) ops
      else bindR (trusted_skip (advance 1 f) b) (\<lambda>f. len_push a (nil a) v f ops))"
proof -
  assume rem: "remaining f = b # r"
  have len: "length (get_ref (seek_current n g)) < position (seek_current n g) \<longleftrightarrow> length (get_ref g) < position g + n" for n g
    by (simp add: seek_current_def)
  have skip: "bindR (trusted_skip g b) K =
      (if b \<le> MAX_SINGLE_BYTE then K g else bindR (decode_size g b) (\<lambda>(sz, f).
        if length (get_ref f) < position f + unat sz then Err bad_encoding else K (seek_current (unat sz) f)))"
    for g and K :: "Cursor \<Rightarrow> nat io"
    by (cases "decode_size g b") (auto simp: trusted_skip_def)
  show ?thesis
    using rem by (subst serialized_length_loop.simps, subst read_one, unfold nil_eq)
      (simp add: CONS_BOX_MARKER_def BACK_REFERENCE_def skip len_push_def Let_def len)
qed

lemma len_ref:
  assumes "len_good s vs" "remaining f = 0xfe # e @ r" "atom_enc p e" "ref_lookup p vs = Some t"
  shows "rejects alloc_errs s (len_loop s f (PSExp # ops)) \<or>
    (\<exists>s'. de_ext s s' \<and> len_good s' (CPair t vs) \<and> len_loop s f (PSExp # ops) = len_loop s' (advance (Suc (length e)) f) ops)"
proof -
  have rem: "remaining (advance 1 f) = e @ r" using assms(2) by simp
  have "ref_lookup p (shape vs) = Some (shape t)" using assms(4) by (simp add: ref_lookup_shape)
  with traverse_ref [of "fst s" "snd s" "shape vs" p] assms(1) obtain red where
      red: "map_err io_from_eval (traverse_path (fst s) p (snd s)) = Ok red" "rep (fst s) (red_node red) (shape t)"
    by (auto simp: len_good_def)
  then have "len_loop s f (PSExp # ops) = len_push (fst s) (red_node red) (snd s) (advance (Suc (length e)) f) ops"
    unfolding len_loop_byte [OF assms(2)] using parse_path_complete [OF rem assms(3)] by simp
  then show ?thesis using len_push_cases [OF assms(1) red(2)] by simp
qed

lemma len_bad_ref:
  assumes "len_good s vs" "remaining f = 0xfe # r" "\<nexists>p e rest t. r = e @ rest \<and> atom_enc p e \<and> ref_lookup p vs = Some t"
  shows "rejects path_errs s (len_loop s f (PSExp # ops))"
proof -
  have rem: "remaining (advance 1 f) = r" using assms(2) by simp
  show ?thesis
  proof (cases "\<exists>p e rest. r = e @ rest \<and> atom_enc p e")
    case True
    then obtain p e rest where e: "r = e @ rest" "atom_enc p e" by blast
    then have "ref_lookup p vs = None" using assms(3) by (metis not_Some_eq)
    then have "ref_lookup p (shape vs) = None" by (simp add: ref_lookup_shape)
    with traverse_ref [of "fst s" "snd s" "shape vs" p] assms(1)
    show ?thesis unfolding len_loop_byte [OF assms(2)] using parse_path_complete [OF _ e(2), of "advance 1 f" rest] rem e(1)
      by (simp add: len_good_def rejects_def path_errs_def)
  next
    case False
    then show ?thesis unfolding len_loop_byte [OF assms(2)] using parse_path_bad [of "advance 1 f"] rem
      by (auto simp: rejects_def path_errs_def)
  qed
qed

lemma len_cons:
  assumes "len_good s (CPair rt (CPair lt vs))"
  shows "rejects alloc_errs s (len_loop s f (PCons # ops)) \<or>
    (\<exists>s'. de_ext s s' \<and> len_good s' (CPair (CPair lt rt) vs) \<and> len_loop s f (PCons # ops) = len_loop s' f ops)"
proof -
  let ?a = "fst s" and ?v = "snd s"
  have t: "tight ?a" and r: "rep ?a ?v (CPair (shape rt) (CPair (shape lt) (shape vs)))" using assms by (auto simp: len_good_def)
  note r2 = rep_prest [OF r]
  let ?v2 = "prest ?a ?v"
  have eq: "len_loop s f (PCons # ops) =
      (case new_pair ?a (pfirst ?a ?v2) (pfirst ?a ?v) of (r, a) \<Rightarrow>
       bindR (map_err io_from_eval r) (\<lambda>new_root. len_push a new_root (prest ?a ?v2) f ops))"
    by (subst serialized_length_loop.simps) (simp add: rep_sexp_pair [OF r] rep_sexp_pair [OF r2] len_push_def)
  from allocates_new_pair [OF t rep_pfirst [OF r2] rep_pfirst [OF r]] show ?thesis
  proof (cases rule: allocatesE)
    case (ok p a')
    have "len_good (a', prest ?a ?v2) vs" using rep_extends [OF rep_prest [OF r2] ok(3)] ok(2) by (simp add: len_good_def)
    from len_push_cases [OF this, of p "CPair lt rt" f ops] ok show ?thesis unfolding eq
      by (auto simp: rejects_def de_ext_def intro: extends_trans)
  next
    case (fail e a')
    then show ?thesis unfolding eq by (simp add: rejects_def)
  qed
qed

interpretation len_reader: stream_reader len_loop ref_lookup len_good de_ext "rejects alloc_errs" "rejects path_errs"
proof (unfold_locales, goal_cases)
  case (6 f r s ops)
  then show ?case by (simp only: len_loop_byte if_True simp_thms)
next
  case (7 s vs f e r bs ops)
  obtain b r' where rem: "remaining f = b # r'" "b = hd e" using 7(2) atom_enc_hd(1) [OF 7(3)] by (cases e) auto
  have "len_loop s f (PSExp # ops) = len_push (fst s) (nil (fst s)) (snd s) (advance (length e) f) ops"
    using rem(2) skip_atom [OF 7(2,3)] atom_enc_hd(2,3,4) [OF 7(3)] unfolding len_loop_byte [OF rem(1)] by auto
  then show ?case using len_push_cases [OF 7(1), of "nil (fst s)" "CAtom bs"] by simp
next
  case (8 s vs f b r ops)
  then show ?case using skip_bad [OF 8(2,5)] decode_bad(2) [OF 8(2,5)]
    unfolding len_loop_byte [OF 8(2)] by (auto simp: rejects_def path_errs_def)
next
  case (9 s vs f e r p t ops)
  then show ?case by (rule len_ref)
next
  case (10 s vs f r ops)
  then show ?case by (rule len_bad_ref)
next
  case (11 s rt lt vs f ops)
  then show ?case by (rule len_cons)
qed (auto simp: rejects_def de_ext_def intro: extends_trans len_loop_eof [unfolded rejects_def])

lemma tight_new: "allocator_new = Ok a \<Longrightarrow> tight a"
  by (auto simp: allocator_new_def new_limited_def tight_def alloc_ok_def heap_ok_def usize_sub_def u32_max_def
      MAX_NUM_ATOMS_def split: if_splits)

lemma serialized_length_cases:
  "case serialized_length_from_bytes b of
      Ok n \<Rightarrow> \<exists>e rest t. b = e @ rest \<and> parses ref_lookup (CAtom []) e t \<and> n = length e
    | Err er \<Rightarrow> er \<in> alloc_errs \<or> er \<in> path_errs \<and> \<not> parsable ref_lookup (CAtom []) b
    | Panic p \<Rightarrow> False"
proof -
  let ?f = "cursor_new b"
  have rem: "remaining ?f = b" by (simp add: remaining_def cursor_new_def)
  obtain a where a: "allocator_new = (Ok a :: Allocator io)" by (simp add: allocator_new_def new_limited_def)
  have eq: "serialized_length_from_bytes b = len_loop (a, node_NIL) ?f [PSExp]" by (simp add: serialized_length_from_bytes_def a)
  have "len_good (a, node_NIL) (CAtom [])" using tight_new [OF a] by (simp add: len_good_def)
  then show ?thesis
  proof (cases rule: len_reader.reads_cases [where f = ?f and ops = "[]"])
    case (parsed e t rest s)
    have "rep (fst s) (snd s) (CPair (shape t) (CAtom []))" using parsed(4) by (simp add: len_good_def)
    then have "serialized_length_from_bytes b = Ok (length e)"
      unfolding eq parsed(5) by (simp add: serialized_length_loop.simps(1) rep_sexp_pair cursor_new_def)
    then show ?thesis using parsed rem by auto
  qed (use rem eq in \<open>auto simp: rejects_def\<close>)
qed

end
