(* ===== verification/DeBr.thy ===== *)
theory DeBr
  imports ToolsSpec
begin

text \<open>
  Deserialization with back-references: \<open>src/src/serde/de_br.rs\<close>. The values read so far
  are a list in the allocator, and the path of a back-reference is looked up in that list.
  The callback of the caller is the function \<open>cb\<close> on a state of the caller's choice.
\<close>

section \<open>The operations\<close>

definition io_new_pair :: "Allocator \<Rightarrow> NodePtr \<Rightarrow> NodePtr \<Rightarrow> NodePtr io \<times> Allocator" where
  "io_new_pair a l r = (let (r, a) = new_pair a l r in (map_err io_from_eval r, a))"

function node_from_backrefs_loop :: "('c \<Rightarrow> NodePtr \<Rightarrow> 'c) \<Rightarrow> Allocator \<Rightarrow> 'c \<Rightarrow> NodePtr \<Rightarrow> Cursor \<Rightarrow> ParseOp list \<Rightarrow>
    (NodePtr \<times> 'c \<times> Cursor) io \<times> Allocator" where
  "node_from_backrefs_loop cb a c values f [] =
     tryR (sexp a values) a (\<lambda>s. case s of
       SPair v1 _ \<Rightarrow> (Ok (v1, c, f), a)
     | SAtom \<Rightarrow> (Panic ''unexpected atom'', a))"
| "node_from_backrefs_loop cb a c values f (PSExp # ops) =
     tryR (read_exact 1 f) a (\<lambda>(b, f).
     if b ! 0 = CONS_BOX_MARKER then node_from_backrefs_loop cb a c values f (PSExp # PSExp # PCons # ops)
     else if b ! 0 = BACK_REFERENCE then
       tryR (parse_path f) a (\<lambda>(path, f).
       tryR (map_err io_from_eval (traverse_path a path values)) a (\<lambda>reduction.
       let back_reference = red_node reduction; c = cb c back_reference in
       tryS (io_new_pair a back_reference values) (\<lambda>values a.
       node_from_backrefs_loop cb a c values f ops)))
     else
       tryS (parse_atom a (b ! 0) f) (\<lambda>(new_atom, f) a.
       tryS (io_new_pair a new_atom values) (\<lambda>values a.
       node_from_backrefs_loop cb a c values f ops)))"
| "node_from_backrefs_loop cb a c values f (PCons # ops) =
     tryR (sexp a values) a (\<lambda>s. case s of
       SPair right rest \<Rightarrow>
         tryR (sexp a rest) a (\<lambda>s. case s of
           SPair left rest \<Rightarrow>
             tryS (io_new_pair a left right) (\<lambda>new_root a.
             tryS (io_new_pair a new_root rest) (\<lambda>values a.
             node_from_backrefs_loop cb a c values f ops))
         | SAtom \<Rightarrow> (Panic ''internal error'', a))
     | SAtom \<Rightarrow> (Panic ''internal error'', a))"
  by pat_completeness auto
termination
  by (relation "measure (\<lambda>(cb, a, c, values, f, ops). 3 * length (remaining f) + length ops)")
    (auto dest!: read_exact_remaining parse_atom_remaining parse_path_remaining)

declare node_from_backrefs_loop.simps [simp del]

definition node_from_stream_backrefs ::
    "('c \<Rightarrow> NodePtr \<Rightarrow> 'c) \<Rightarrow> Allocator \<Rightarrow> 'c \<Rightarrow> Cursor \<Rightarrow> (NodePtr \<times> 'c \<times> Cursor) io \<times> Allocator" where
  "node_from_stream_backrefs cb a c f = node_from_backrefs_loop cb a c (nil a) f [PSExp]"

definition node_from_bytes_backrefs :: "Allocator \<Rightarrow> bytes \<Rightarrow> NodePtr io \<times> Allocator" where
  "node_from_bytes_backrefs a b =
     (let (r, a) = node_from_stream_backrefs (\<lambda>u _. u) a () (cursor_new b) in (bindR r (\<lambda>(n, _). Ok n), a))"

definition node_from_bytes_backrefs_record :: "Allocator \<Rightarrow> bytes \<Rightarrow> (NodePtr \<times> NodePtr set) io \<times> Allocator" where
  "node_from_bytes_backrefs_record a b =
     (let (r, a) = node_from_stream_backrefs (\<lambda>backrefs n. insert n backrefs) a {} (cursor_new b) in
      (bindR r (\<lambda>(n, backrefs, _). Ok (n, backrefs)), a))"

section \<open>The loop is a stream reader\<close>

text \<open>
  The state of the run: the allocator, the callback's state and the list of values. The
  callback's state satisfies a predicate that depends on the allocator and that calls on
  nodes of the allocator preserve.
\<close>

definition br_good :: "(Allocator \<Rightarrow> 'c \<Rightarrow> bool) \<Rightarrow> Allocator \<times> 'c \<times> NodePtr \<Rightarrow> clvm \<Rightarrow> bool" where
  "br_good P s vs \<longleftrightarrow> (case s of (a, c, v) \<Rightarrow> tight a \<and> rep a v vs \<and> P a c)"

locale backref_callback =
  fixes cb :: "'c \<Rightarrow> NodePtr \<Rightarrow> 'c" and P :: "Allocator \<Rightarrow> 'c \<Rightarrow> bool"
  assumes P_extends: "P a c \<Longrightarrow> extends a a' \<Longrightarrow> P a' c"
    and P_call: "P a c \<Longrightarrow> rep a n t \<Longrightarrow> P a (cb c n)"

lemma io_new_pair_cases:
  assumes "tight a" "rep a x l" "rep a y r"
  obtains (ok) p a' where "io_new_pair a x y = (Ok p, a')" "tight a'" "extends a a'" "rep a' p (CPair l r)"
    | (fail) e a' where "io_new_pair a x y = (Err e, a')" "tight a'" "extends a a'" "e \<in> alloc_errs"
  using allocates_new_pair [OF assms] by (elim allocatesE) (auto simp: io_new_pair_def)

lemma br_loop_eof:
  "remaining f = [] \<Longrightarrow> node_from_backrefs_loop cb a c v f (PSExp # ops) = (Err (IoErr UnexpectedEof ''failed to fill whole buffer''), a)"
  by (subst node_from_backrefs_loop.simps, subst read_one) simp

lemma br_loop_byte:
  "remaining f = b # r \<Longrightarrow> node_from_backrefs_loop cb a c v f (PSExp # ops) =
     (if b = 0xff then node_from_backrefs_loop cb a c v (advance 1 f) (PSExp # PSExp # PCons # ops)
      else if b = 0xfe then
       tryR (parse_path (advance 1 f)) a (\<lambda>(path, f).
       tryR (map_err io_from_eval (traverse_path a path v)) a (\<lambda>red.
       tryS (io_new_pair a (red_node red) v) (\<lambda>values a. node_from_backrefs_loop cb a (cb c (red_node red)) values f ops)))
     else
       tryS (parse_atom a b (advance 1 f)) (\<lambda>(new_atom, f) a.
       tryS (io_new_pair a new_atom v) (\<lambda>values a. node_from_backrefs_loop cb a c values f ops)))"
  by (subst node_from_backrefs_loop.simps, subst read_one) (simp add: CONS_BOX_MARKER_def BACK_REFERENCE_def Let_def)

context backref_callback
begin

abbreviation br_loop :: "Allocator \<times> 'c \<times> NodePtr \<Rightarrow> Cursor \<Rightarrow> ParseOp list \<Rightarrow> (NodePtr \<times> 'c \<times> Cursor) io \<times> Allocator" where
  "br_loop s \<equiv> node_from_backrefs_loop cb (fst s) (fst (snd s)) (snd (snd s))"

text \<open>Pushing a node of value \<open>t\<close> on the list of values.\<close>

lemma br_push:
  assumes "tight a" "rep a v vs" "P a c" "rep a x t"
  shows "de_err alloc_errs (a, z) (tryS (io_new_pair a x v) (\<lambda>values a. node_from_backrefs_loop cb a c values f ops)) \<or>
    (\<exists>s'. de_ext (a, z) s' \<and> br_good P s' (CPair t vs) \<and>
      tryS (io_new_pair a x v) (\<lambda>values a. node_from_backrefs_loop cb a c values f ops) = br_loop s' f ops)"
  using assms(1,4,2)
proof (cases rule: io_new_pair_cases)
  case (ok p a')
  then show ?thesis using P_extends [OF assms(3) ok(3)]
    by (intro disjI2 exI [of _ "(a', c, p)"]) (simp add: de_ext_def br_good_def)
qed (simp add: de_err_def)

lemma br_err_trans:
  "extends a a' \<Longrightarrow> de_err es (a', z') m \<Longrightarrow> de_err es (a, z) m"
  "extends a a' \<Longrightarrow> de_ext (a', z') s \<Longrightarrow> de_ext (a, z) s"
  by (auto simp: de_err_def de_ext_def intro: extends_trans)

text \<open>The turns of the loop, one lemma for each kind of item.\<close>

lemma br_atom:
  assumes "br_good P s vs" "remaining f = e @ r" "atom_enc bs e"
  shows "de_err alloc_errs s (br_loop s f (PSExp # ops)) \<or>
    (\<exists>s'. de_ext s s' \<and> br_good P s' (CPair (CAtom bs) vs) \<and> br_loop s f (PSExp # ops) = br_loop s' (advance (length e) f) ops)"
proof -
  obtain a c v where s: "s = (a, c, v)" by (cases s) auto
  have g: "tight a" "rep a v vs" "P a c" using assms(1) s by (auto simp: br_good_def)
  obtain b r' where rem: "remaining f = b # r'" "b = hd e" using assms(2) atom_enc_hd(1) [OF assms(3)] by (cases e) auto
  obtain m where m: "allocates a (CAtom bs) m"
      "parse_atom a (hd e) (advance 1 f) = (map_err io_from_eval (bindR (fst m) (\<lambda>n. Ok (n, advance (length e) f))), snd m)"
    using parse_atom_complete [OF g(1) assms(2,3)] by blast
  have eq: "br_loop s f (PSExp # ops) = tryS (parse_atom a (hd e) (advance 1 f)) (\<lambda>(new_atom, f) a.
       tryS (io_new_pair a new_atom v) (\<lambda>values a. node_from_backrefs_loop cb a c values f ops))"
    using atom_enc_hd(2,3) [OF assms(3)] s rem(2) unfolding br_loop_byte [OF rem(1)] by simp
  from m(1) show ?thesis
  proof (cases rule: allocatesE)
    case (ok p a')
    have "br_loop s f (PSExp # ops) = tryS (io_new_pair a' p v) (\<lambda>values a. node_from_backrefs_loop cb a c values (advance (length e) f) ops)"
      unfolding eq m(2) ok(1) by simp
    with br_push [OF ok(2) rep_extends [OF g(2) ok(3)] P_extends [OF g(3) ok(3)] ok(4), of "(c, v)" "advance (length e) f" ops]
    show ?thesis unfolding s by (simp only:) (blast intro: br_err_trans [OF ok(3)])
  next
    case (fail er a')
    then show ?thesis using s unfolding eq m(2) by (simp add: de_err_def)
  qed
qed

lemma br_ref:
  assumes "br_good P s vs" "remaining f = 0xfe # e @ r" "atom_enc p e" "ref_lookup p vs = Some t"
  shows "de_err alloc_errs s (br_loop s f (PSExp # ops)) \<or>
    (\<exists>s'. de_ext s s' \<and> br_good P s' (CPair t vs) \<and> br_loop s f (PSExp # ops) = br_loop s' (advance (Suc (length e)) f) ops)"
proof -
  obtain a c v where s: "s = (a, c, v)" by (cases s) auto
  have g: "tight a" "rep a v vs" "P a c" using assms(1) s by (auto simp: br_good_def)
  have rem: "remaining (advance 1 f) = e @ r" using assms(2) by simp
  obtain red where red: "map_err io_from_eval (traverse_path a p v) = Ok red" "rep a (red_node red) t"
    using traverse_ref [OF g(2), of p] assms(4) by auto
  have "br_loop s f (PSExp # ops) = tryS (io_new_pair a (red_node red) v)
      (\<lambda>values a. node_from_backrefs_loop cb a (cb c (red_node red)) values (advance (Suc (length e)) f) ops)"
    unfolding br_loop_byte [OF assms(2)] using parse_path_complete [OF rem assms(3)] red(1) s by simp
  then show ?thesis using br_push [OF g(1,2) P_call [OF g(3) red(2)] red(2)] s by simp
qed

lemma br_bad_ref:
  assumes "br_good P s vs" "remaining f = 0xfe # r" "\<not> (\<exists>p e rest t. r = e @ rest \<and> atom_enc p e \<and> ref_lookup p vs = Some t)"
  shows "de_err path_errs s (br_loop s f (PSExp # ops))"
proof -
  obtain a c v where s: "s = (a, c, v)" by (cases s) auto
  have g: "tight a" "rep a v vs" "P a c" using assms(1) s by (auto simp: br_good_def)
  have rem: "remaining (advance 1 f) = r" using assms(2) by simp
  show ?thesis
  proof (cases "\<exists>p e rest. r = e @ rest \<and> atom_enc p e")
    case True
    then obtain p e rest where e: "r = e @ rest" "atom_enc p e" by blast
    then have "ref_lookup p vs = None" using assms(3) by (metis not_Some_eq)
    then have "map_err io_from_eval (traverse_path a p v) = Err (IoErr OtherKind ''path into atom'')"
      using traverse_ref [OF g(2), of p] by simp
    then show ?thesis unfolding br_loop_byte [OF assms(2)] using parse_path_complete [OF _ e(2), of "advance 1 f" rest] rem e(1) s g(1)
      by (simp add: de_err_def path_errs_def)
  next
    case False
    then show ?thesis unfolding br_loop_byte [OF assms(2)] using parse_path_bad [of "advance 1 f"] rem s g(1)
      by (auto simp: de_err_def path_errs_def)
  qed
qed

lemma br_cons:
  assumes "br_good P s (CPair rt (CPair lt vs))"
  shows "de_err alloc_errs s (br_loop s f (PCons # ops)) \<or>
    (\<exists>s'. de_ext s s' \<and> br_good P s' (CPair (CPair lt rt) vs) \<and> br_loop s f (PCons # ops) = br_loop s' f ops)"
proof -
  obtain a c v where s: "s = (a, c, v)" by (cases s) auto
  have g: "tight a" "rep a v (CPair rt (CPair lt vs))" "P a c" using assms s by (auto simp: br_good_def)
  note r2 = rep_prest [OF g(2)]
  let ?v2 = "prest a v"
  have eq: "br_loop s f (PCons # ops) = tryS (io_new_pair a (pfirst a ?v2) (pfirst a v)) (\<lambda>new_root a'.
      tryS (io_new_pair a' new_root (prest a ?v2)) (\<lambda>values a. node_from_backrefs_loop cb a c values f ops))"
    using s by (subst node_from_backrefs_loop.simps) (simp add: rep_sexp_pair [OF g(2)] rep_sexp_pair [OF r2])
  from g(1) rep_pfirst [OF r2] rep_pfirst [OF g(2)] show ?thesis
  proof (cases rule: io_new_pair_cases)
    case (ok p a')
    have "br_loop s f (PCons # ops) = tryS (io_new_pair a' p (prest a ?v2)) (\<lambda>values a. node_from_backrefs_loop cb a c values f ops)"
      unfolding eq ok(1) by simp
    with br_push [OF ok(2) rep_extends [OF rep_prest [OF r2] ok(3)] P_extends [OF g(3) ok(3)] ok(4), of "(c, v)" f ops]
    show ?thesis unfolding s by (simp only:) (blast intro: br_err_trans [OF ok(3)])
  next
    case (fail e a')
    then show ?thesis using s unfolding eq by (simp add: de_err_def)
  qed
qed

end

sublocale backref_callback \<subseteq> br: stream_reader br_loop ref_lookup "br_good P" de_ext "de_err alloc_errs" "de_err path_errs"
proof (unfold_locales, goal_cases)
  case (5 s vs f ops)
  then show ?case by (cases s) (simp add: br_loop_eof de_err_def path_errs_def format_errs_def br_good_def)
next
  case (6 f r s ops)
  then show ?case by (simp only: br_loop_byte simp_thms if_True)
next
  case (7 s vs f e r bs ops)
  then show ?case by (rule br_atom)
next
  case (8 s vs f b r ops)
  then show ?case using parse_atom_bad [OF 8(2,5), of "fst s"] unfolding br_loop_byte [OF 8(2)]
    by (cases s) (auto simp: de_err_def path_errs_def br_good_def)
next
  case (9 s vs f e r p t ops)
  then show ?case by (rule br_ref)
next
  case (10 s vs f r ops)
  then show ?case by (rule br_bad_ref)
next
  case (11 s rt lt vs f ops)
  then show ?case by (rule br_cons)
qed (auto simp: de_ext_def de_err_def intro: extends_trans)

context backref_callback
begin

lemma node_from_stream_backrefs_cases:
  assumes "tight a" "P a c"
  shows "case node_from_stream_backrefs cb a c f of
      (Ok (n, c', f'), a') \<Rightarrow> tight a' \<and> extends a a' \<and> P a' c' \<and>
        (\<exists>e rest t. remaining f = e @ rest \<and> parses ref_lookup (CAtom []) e t \<and> rep a' n t \<and> f' = advance (length e) f)
    | (Err er, a') \<Rightarrow> tight a' \<and> extends a a' \<and>
        (er \<in> alloc_errs \<or> er \<in> path_errs \<and> \<not> parsable ref_lookup (CAtom []) (remaining f))
    | (Panic p, a') \<Rightarrow> False"
proof -
  have eq: "node_from_stream_backrefs cb a c f = br_loop (a, c, node_NIL) f [PSExp]" by (simp add: node_from_stream_backrefs_def)
  have "br_good P (a, c, node_NIL) (CAtom [])" using assms by (simp add: br_good_def)
  then show ?thesis
  proof (cases rule: br.reads_cases [where f = f and ops = "[]"])
    case (parsed e t rest s)
    obtain a' c' v where s: "s = (a', c', v)" by (cases s) auto
    have g: "tight a'" "rep a' v (CPair t (CAtom []))" "P a' c'" using parsed(4) s by (auto simp: br_good_def)
    have "node_from_stream_backrefs cb a c f = (Ok (pfirst a' v, c', advance (length e) f), a')"
      unfolding eq parsed(5) s by (simp add: node_from_backrefs_loop.simps(1) rep_sexp_pair [OF g(2)])
    then show ?thesis using parsed(1-3) g rep_pfirst [OF g(2)] s by (auto simp: de_ext_def)
  qed (auto simp: eq de_err_def)
qed

end

interpretation ignore: backref_callback "\<lambda>u _. u" "\<lambda>_ (_ :: unit). True"
  by unfold_locales auto

interpretation recorder: backref_callback "\<lambda>backrefs n. insert n backrefs" "\<lambda>a backrefs. \<forall>n \<in> backrefs. \<exists>t. rep a n t"
  by unfold_locales (blast intro: rep_extends, blast)

lemma node_from_bytes_backrefs_cases:
  assumes "tight a"
  shows "case node_from_bytes_backrefs a b of
      (Ok n, a') \<Rightarrow> tight a' \<and> extends a a' \<and> (\<exists>e rest t. b = e @ rest \<and> parses ref_lookup (CAtom []) e t \<and> rep a' n t)
    | (Err er, a') \<Rightarrow> tight a' \<and> extends a a' \<and> (er \<in> alloc_errs \<or> er \<in> path_errs \<and> \<not> parsable ref_lookup (CAtom []) b)
    | (Panic p, a') \<Rightarrow> False"
proof -
  have "remaining (cursor_new b) = b" by (simp add: remaining_def cursor_new_def)
  with ignore.node_from_stream_backrefs_cases [OF assms TrueI, of "cursor_new b"] show ?thesis
    by (auto simp: node_from_bytes_backrefs_def split: prod.splits outcome.splits)
qed

end
