(* ===== verification/DeTree.thy ===== *)
theory DeTree
  imports ToolsSpec
begin

text \<open>
  The flat form of a serialized tree: \<open>src/src/serde/de_tree.rs\<close>. One entry per object, in
  the order of their first bytes, with the range of its serialization; an atom also has the
  offset of its data, a pair the index of its right child. Positions count bytes of the
  stream and stay far below \<open>2^64\<close>; indices are stored in 32 bits.
\<close>

section \<open>The operations\<close>

datatype ParsedTriple =
    TAtom (t_start: nat) (t_end: nat) (t_atom_offset: nat)
  | TPair (t_start: nat) (t_end: nat) (t_right_index: u32)

datatype ParseOpRef = ParseObj | SaveEnd nat | SaveRightIndex nat

definition sha_blobs :: "(bytes \<Rightarrow> bytes) \<Rightarrow> bytes list \<Rightarrow> bytes" where
  "sha_blobs H blobs = H (concat blobs)"

definition tree_hash_for_byte :: "(bytes \<Rightarrow> bytes) \<Rightarrow> u8 \<Rightarrow> bool \<Rightarrow> bytes option" where
  "tree_hash_for_byte H b calculate_tree_hashes = (if calculate_tree_hashes then Some (sha_blobs H [[1, b]]) else None)"

definition skip_or_sha_bytes :: "(bytes \<Rightarrow> bytes) \<Rightarrow> Cursor \<Rightarrow> nat \<Rightarrow> bool \<Rightarrow> (bytes option \<times> Cursor) io" where
  "skip_or_sha_bytes H f sz calculate_tree_hashes =
     (if calculate_tree_hashes then bindR (copy_exactly f sz) (\<lambda>(blob, f). Ok (Some (H ([1] @ blob)), f))
      else bindR (skip_bytes f sz) (\<lambda>f. Ok (None, f)))"

definition push_tree_hash :: "bool \<Rightarrow> bytes list \<Rightarrow> bytes option \<Rightarrow> bytes list io" where
  "push_tree_hash calculate_tree_hashes tree_hashes h =
     (if calculate_tree_hashes then
        (case h of Some h \<Rightarrow> Ok (tree_hashes @ [h]) | None \<Rightarrow> Panic ''failed unwrap'')
      else Ok tree_hashes)"

text \<open>The three arms of the loop, over the triples, the hashes, the position and the stream.\<close>

type_synonym triples_state = "ParsedTriple list \<times> bytes list \<times> nat \<times> Cursor"

definition parse_atom_triple :: "(bytes \<Rightarrow> bytes) \<Rightarrow> bool \<Rightarrow> u8 \<Rightarrow> nat \<Rightarrow> triples_state \<Rightarrow> triples_state io" where
  "parse_atom_triple H calculate_tree_hashes b start = (\<lambda>(r, tree_hashes, cursor, f).
     bindR (if b \<le> MAX_SINGLE_BYTE then Ok ((start + 1, 0, tree_hash_for_byte H b calculate_tree_hashes), f)
            else
              bindR (decode_size_with_offset f b) (\<lambda>((atom_offset, atom_size), f).
              bindR (skip_or_sha_bytes H f (unat atom_size) calculate_tree_hashes) (\<lambda>(h, f).
              Ok ((start + atom_offset + unat atom_size, atom_offset, h), f)))) (\<lambda>((end', atom_offset, h), f).
     bindR (push_tree_hash calculate_tree_hashes tree_hashes h) (\<lambda>tree_hashes.
     Ok (r @ [TAtom start end' atom_offset], tree_hashes, end', f))))"

definition save_end :: "(bytes \<Rightarrow> bytes) \<Rightarrow> bool \<Rightarrow> nat \<Rightarrow> triples_state \<Rightarrow> triples_state io" where
  "save_end H calculate_tree_hashes i = (\<lambda>(r, tree_hashes, cursor, f).
     bindR (get_idx r i) (\<lambda>obj. case obj of
       TPair start _ right_index \<Rightarrow>
         bindR (if calculate_tree_hashes then
                  bindR (get_idx tree_hashes (i + 1)) (\<lambda>left.
                  bindR (get_idx tree_hashes (unat right_index)) (\<lambda>right.
                  let h = sha_blobs H [[2], left, right] in
                  if i < length tree_hashes then Ok (tree_hashes[i := h]) else Panic ''index out of bounds''))
                else Ok tree_hashes) (\<lambda>tree_hashes.
         Ok (r[i := TPair start cursor right_index], tree_hashes, cursor, f))
     | TAtom _ _ _ \<Rightarrow> Panic ''internal error: SaveEnd''))"

definition save_right_index :: "nat \<Rightarrow> triples_state \<Rightarrow> triples_state io" where
  "save_right_index i = (\<lambda>(r, tree_hashes, cursor, f).
     bindR (get_idx r i) (\<lambda>obj. case obj of
       TPair start end' _ \<Rightarrow> Ok (r[i := TPair start end' (of_nat (length r))], tree_hashes, cursor, f)
     | TAtom _ _ _ \<Rightarrow> Panic ''internal error: SaveRightIndex''))"

lemma copy_exactly_eq:
  "copy_exactly f n =
     (if n \<le> length (remaining f) then Ok (take n (remaining f), advance n f) else Err (IoErr UnexpectedEof ''copy terminated early''))"
  by (auto simp: copy_exactly_def Let_def advance_def)

lemma skip_or_sha_bytes_eq:
  "skip_or_sha_bytes H f n calc =
     (if n \<le> length (remaining f) then Ok (if calc then Some (H ([1] @ take n (remaining f))) else None, advance n f)
      else Err (IoErr UnexpectedEof ''copy terminated early''))"
  by (simp add: skip_or_sha_bytes_def skip_bytes_def copy_exactly_eq)

lemma parse_atom_triple_remaining:
  "parse_atom_triple H calc b start (r, hs, cursor, f) = Ok (r', hs', cursor', f') \<Longrightarrow> length (remaining f') \<le> length (remaining f)"
  by (auto simp: parse_atom_triple_def bindR_eq_Ok skip_or_sha_bytes_eq decode_Ok_iff split: if_splits)

lemma save_end_remaining: "save_end H calc i (r, hs, cursor, f) = Ok (r', hs', cursor', f') \<Longrightarrow> f' = f"
  by (clarsimp simp: save_end_def bindR_eq_Ok) (auto simp: bindR_eq_Ok split: ParsedTriple.split_asm)

lemma save_right_index_remaining: "save_right_index i (r, hs, cursor, f) = Ok (r', hs', cursor', f') \<Longrightarrow> f' = f"
  by (clarsimp simp: save_right_index_def bindR_eq_Ok) (auto split: ParsedTriple.split_asm)

function triples_loop :: "(bytes \<Rightarrow> bytes) \<Rightarrow> bool \<Rightarrow> triples_state \<Rightarrow> ParseOpRef list \<Rightarrow> triples_state io" where
  "triples_loop H calc st [] = Ok st"
| "triples_loop H calc (r, tree_hashes, cursor, f) (ParseObj # ops) =
     bindR (read_exact 1 f) (\<lambda>(b, f).
     let start = cursor; cursor = cursor + 1; b = b ! 0 in
     if b = CONS_BOX_MARKER then
       let i = length r in
       triples_loop H calc
         (r @ [TPair start 0 0], if calc then tree_hashes @ [replicate 32 0] else tree_hashes, cursor, f)
         (ParseObj # SaveRightIndex i # ParseObj # SaveEnd i # ops)
     else bindR (parse_atom_triple H calc b start (r, tree_hashes, cursor, f)) (\<lambda>st. triples_loop H calc st ops))"
| "triples_loop H calc st (SaveEnd i # ops) = bindR (save_end H calc i st) (\<lambda>st. triples_loop H calc st ops)"
| "triples_loop H calc st (SaveRightIndex i # ops) = bindR (save_right_index i st) (\<lambda>st. triples_loop H calc st ops)"
  by pat_completeness auto
termination
  by (relation "measure (\<lambda>(H, calc, (r, hs, cursor, f), ops). 5 * length (remaining f) + length ops)")
    (auto dest!: read_exact_remaining parse_atom_triple_remaining save_end_remaining save_right_index_remaining)

declare triples_loop.simps [simp del]

definition parse_triples :: "(bytes \<Rightarrow> bytes) \<Rightarrow> Cursor \<Rightarrow> bool \<Rightarrow> (ParsedTriple list \<times> bytes list option) io" where
  "parse_triples H f calculate_tree_hashes =
     bindR (triples_loop H calculate_tree_hashes ([], [], 0, f) [ParseObj]) (\<lambda>(r, tree_hashes, _, _).
     Ok (r, if calculate_tree_hashes then Some tree_hashes else None))"

end
