(* ===== verification/DeTreeSpec.thy ===== *)
theory DeTreeSpec
  imports DeTree
begin

text \<open>
  The flat form of a tree read back: every entry denotes one object of the tree, in the
  order of a walk from the root with the left child first.
\<close>

section \<open>The flat form\<close>

lemma unat_u32: "n < 2 ^ 32 \<Longrightarrow> unat (of_nat n :: u32) = n"
  by (simp add: unsigned_of_nat take_bit_nat_eq_self)

fun preorder :: "clvm \<Rightarrow> clvm list" where
  "preorder (CAtom bs) = [CAtom bs]"
| "preorder (CPair l r) = CPair l r # preorder l @ preorder r"

lemma preorder_hd: "preorder t \<noteq> []" "preorder t ! 0 = t"
  by (cases t; simp)+

text \<open>What an entry means, as the documentation of the type states it.\<close>

inductive denotes :: "bytes \<Rightarrow> ParsedTriple list \<Rightarrow> nat \<Rightarrow> clvm \<Rightarrow> bool" for blob trs where
  denotes_atom: "i < length trs \<Longrightarrow> trs ! i = TAtom s e off \<Longrightarrow> blob ! s \<noteq> 0xff \<Longrightarrow> s + off \<le> e \<Longrightarrow> e \<le> length blob \<Longrightarrow>
    denotes blob trs i (CAtom (take (e - (s + off)) (drop (s + off) blob)))"
| denotes_pair: "i < length trs \<Longrightarrow> trs ! i = TPair s e j \<Longrightarrow> blob ! s = 0xff \<Longrightarrow> denotes blob trs (i + 1) l \<Longrightarrow>
    denotes blob trs (unat j) r \<Longrightarrow> denotes blob trs i (CPair l r)"

text \<open>The entries of one serialized value at the position \<open>p\<close>, the first with index \<open>i\<close>.\<close>

inductive flat :: "nat \<Rightarrow> nat \<Rightarrow> bytes \<Rightarrow> clvm \<Rightarrow> ParsedTriple list \<Rightarrow> bool" where
  flat_atom: "atom_enc bs e \<Longrightarrow> flat i p e (CAtom bs) [TAtom p (p + length e) (length e - length bs)]"
| flat_pair: "flat (Suc i) (Suc p) sl l tl' \<Longrightarrow> flat (Suc i + length tl') (Suc p + length sl) sr r tr \<Longrightarrow>
    flat i p (0xff # sl @ sr) (CPair l r)
      (TPair p (p + Suc (length sl + length sr)) (of_nat (Suc i + length tl')) # tl' @ tr)"

lemma atom_enc_data:
  assumes "atom_enc bs e"
  shows "length bs \<le> length e" "drop (length e - length bs) e = bs"
  using assms by (auto simp: atom_enc_def)

lemma flat_length: "flat i p e t trs \<Longrightarrow> length trs = length (preorder t) \<and> length trs \<le> length e \<and> trs \<noteq> []"
proof (induction rule: flat.induct)
  case (flat_atom bs e i p)
  then show ?case using atom_enc_hd(1) by (cases e) auto
qed auto

lemma flat_first: "flat i p e t trs \<Longrightarrow> t_start (trs ! 0) = p \<and> t_end (trs ! 0) = p + length e"
  by (induction rule: flat.induct) auto

lemma flat_denotes:
  assumes "flat i p e t trs" "blob = x @ e @ y" "length x = p" "all = A @ trs @ B" "length A = i" "length all < 2 ^ 32" "k < length trs"
  shows "denotes blob all (i + k) (preorder t ! k)"
  using assms
proof (induction arbitrary: x y A B k rule: flat.induct)
  case (flat_atom bs e i p)
  have "blob ! p = hd e" using flat_atom.prems(1,2) atom_enc_hd(1) [OF flat_atom.hyps] by (cases e) (auto simp: nth_append)
  then have "blob ! p \<noteq> 0xff" using atom_enc_hd(2) [OF flat_atom.hyps] by simp
  moreover have "all ! i = TAtom p (p + length e) (length e - length bs)" "i < length all"
    using flat_atom.prems(3,4) by (auto simp: nth_append)
  moreover have "take (p + length e - (p + (length e - length bs))) (drop (p + (length e - length bs)) blob) = bs"
    using flat_atom.prems(1,2) atom_enc_data [OF flat_atom.hyps] by auto
  ultimately show ?case using denotes_atom [of i all p "p + length e" "length e - length bs" blob] atom_enc_data(1) [OF flat_atom.hyps]
      flat_atom.prems by simp
next
  case (flat_pair i p sl l tl' sr r tr)
  let ?n = "length tl'"
  let ?h = "TPair p (p + Suc (length sl + length sr)) (of_nat (Suc i + ?n))"
  have L: "denotes blob all (Suc i + k) (preorder l ! k)" if "k < ?n" for k
    using flat_pair.IH(1) [of "x @ [0xff]" "sr @ y" "A @ [?h]" "tr @ B" k] flat_pair.prems that by simp
  have R: "denotes blob all (Suc i + ?n + k) (preorder r ! k)" if "k < length tr" for k
    using flat_pair.IH(2) [of "x @ 0xff # sl" y "A @ ?h # tl'" B k] flat_pair.prems that by simp
  note len = flat_length [OF flat_pair.hyps(1)] flat_length [OF flat_pair.hyps(2)]
  have ln: "0 < ?n" "0 < length tr" using len by auto
  have "denotes blob all (Suc i) l" using L [OF ln(1)] preorder_hd(2) [of l] by simp
  moreover have "unat (of_nat (Suc i + ?n) :: u32) = Suc i + ?n" using flat_pair.prems(3-5)
    by (intro unat_u32) simp
  then have "denotes blob all (unat (of_nat (Suc i + ?n) :: u32)) r"
    unfolding \<open>unat _ = _\<close> using R [OF ln(2)] preorder_hd(2) [of r] by simp
  moreover have "all ! i = ?h" "i < length all" using flat_pair.prems(3,4) by (auto simp: nth_append)
  moreover have "blob ! p = 0xff" using flat_pair.prems(1,2) by (auto simp: nth_append)
  ultimately have root: "denotes blob all i (CPair l r)" by (intro denotes_pair) (simp_all del: of_nat_add of_nat_Suc)
  show ?case
  proof (cases k)
    case (Suc k')
    show ?thesis
    proof (cases "k' < ?n")
      case True
      then show ?thesis using L [OF True] len Suc by (simp add: nth_append)
    next
      case False
      then have "k' - ?n < length tr" "Suc i + ?n + (k' - ?n) = i + k" using flat_pair.prems(6) Suc by auto
      with R [of "k' - ?n"] show ?thesis using False len Suc by (simp add: nth_append)
    qed
  qed (use root in simp)
qed

section \<open>The loop\<close>

definition triple_errs :: "io_error set" where
  "triple_errs = insert (IoErr UnexpectedEof ''copy terminated early'') format_errs"

lemma parses_no_refs: "parses no_refs vs e t \<Longrightarrow> parses no_refs vs' e t"
proof (induction arbitrary: vs' rule: parses.induct)
  case (parses_pair vs sl l sr r)
  then show ?case by (blast intro: parses.parses_pair)
qed (auto intro: parses_atom simp: no_refs_def)

lemma parsable_no_refs: "parsable no_refs vs s \<longleftrightarrow> parsable no_refs vs' s"
  unfolding parsable_def using parses_no_refs by blast

lemma decode_atom_offset:
  assumes "remaining f = e @ r" "atom_enc bs e" "\<not> hd e \<le> MAX_SINGLE_BYTE"
  obtains sz f1 where "decode_size_with_offset (advance 1 f) (hd e) = Ok ((length e - length bs, sz), f1)" "unat sz = length bs"
    "take (length bs) (remaining f1) = bs" "length bs \<le> length (remaining f1)" "advance (length bs) f1 = advance (length e) f"
proof -
  obtain sz f1 where d: "decode_size (advance 1 f) (hd e) = Ok (sz, f1)" "position f1 + unat sz \<le> length (get_ref f1)"
    "take (unat sz) (drop (position f1) (get_ref f1)) = bs" "seek_current (unat sz) f1 = advance (length e) f"
    using decode_atom [OF assms] .
  have sz: "unat sz = length bs" using d(2,3) by auto
  from d(1) obtain k n where k: "decode_size_with_offset (advance 1 f) (hd e) = Ok ((k, sz), f1)" "f1 = advance (k - 1) (advance 1 f)"
    "prefix_ok k n" by (auto simp: decode_size_Ok_iff decode_Ok_iff)
  have "position (seek_current (unat sz) f1) = position (advance (length e) f)" using d(4) by simp
  then have "k = length e - length bs" using k(2,3) sz by (simp add: seek_current_def prefix_ok_def)
  with k(1) show thesis
    by (intro that) (use d sz in \<open>simp_all add: remaining_def seek_current_def advance_def\<close>)
qed

lemma triples_loop_byte:
  "remaining f = b # s \<Longrightarrow> triples_loop H calc (r, hs, cur, f) (ParseObj # ops) =
     (if b = 0xff then
        triples_loop H calc (r @ [TPair cur 0 0], if calc then hs @ [replicate 32 0] else hs, cur + 1, advance 1 f)
          (ParseObj # SaveRightIndex (length r) # ParseObj # SaveEnd (length r) # ops)
      else bindR (parse_atom_triple H calc b cur (r, hs, cur + 1, advance 1 f)) (\<lambda>st. triples_loop H calc st ops))"
  by (subst triples_loop.simps, subst read_one) (simp add: CONS_BOX_MARKER_def Let_def)

definition hash_entries :: "(bytes \<Rightarrow> bytes) \<Rightarrow> bool \<Rightarrow> clvm \<Rightarrow> bytes list" where
  "hash_entries H calc t = (if calc then map (tree_hash H) (preorder t) else [])"

lemma parse_atom_triple_enc:
  assumes "remaining f = e @ s" "atom_enc bs e"
  shows "parse_atom_triple H calc (hd e) cur (r, hs, cur + 1, advance 1 f) =
    Ok (r @ [TAtom cur (cur + length e) (length e - length bs)], hs @ hash_entries H calc (CAtom bs), cur + length e,
      advance (length e) f)"
proof (cases "hd e \<le> MAX_SINGLE_BYTE")
  case True
  then obtain b where "e = [b]" "bs = [b]" using atom_enc_small [OF assms(2)] by blast
  with True show ?thesis
    by (simp add: parse_atom_triple_def push_tree_hash_def hash_entries_def tree_hash_for_byte_def sha_blobs_def)
next
  case False
  obtain sz f1 where d: "decode_size_with_offset (advance 1 f) (hd e) = Ok ((length e - length bs, sz), f1)" "unat sz = length bs"
    "take (length bs) (remaining f1) = bs" "length bs \<le> length (remaining f1)" "advance (length bs) f1 = advance (length e) f"
    by (rule decode_atom_offset [OF assms False])
  then show ?thesis using False atom_enc_data(1) [OF assms(2)]
    by (simp add: parse_atom_triple_def skip_or_sha_bytes_eq push_tree_hash_def hash_entries_def)
qed

lemma parse_atom_triple_bad:
  assumes "remaining f = b # s" "\<nexists>bs e rest. remaining f = e @ rest \<and> atom_enc bs e"
  shows "\<exists>er \<in> triple_errs. parse_atom_triple H calc b cur (r, hs, cur + 1, advance 1 f) = Err er"
proof -
  note bad = decode_bad [OF assms]
  from bad(3) show ?thesis
  proof (elim disjE exE bexE conjE)
    fix er assume "er \<in> format_errs" "decode_size (advance 1 f) b = Err er"
    then show ?thesis using bad(1)
      by (auto simp: parse_atom_triple_def triple_errs_def decode_size_def bindR_eq_Err)
  next
    fix sz f1 assume d: "decode_size (advance 1 f) b = Ok (sz, f1)" "length (get_ref f1) < position f1 + unat sz"
    then obtain k where k: "decode_size_with_offset (advance 1 f) b = Ok ((k, sz), f1)" by (auto simp: decode_size_Ok_iff)
    have "position f1 \<le> length (get_ref f1)"
      using k remaining_Cons [OF assms(1)] by (auto simp: decode_Ok_iff remaining_def)
    then have "\<not> unat sz \<le> length (remaining f1)" using d(2) by (auto simp: remaining_def)
    with k show ?thesis using bad(1) by (simp add: parse_atom_triple_def skip_or_sha_bytes_eq triple_errs_def)
  qed
qed

text \<open>The two operations on an entry that was pushed before the entries of its children.\<close>

lemma save_right_index_entry:
  "save_right_index (length r) (r @ TPair s e j # tl', hs, cur, f) =
     Ok (r @ TPair s e (of_nat (Suc (length r + length tl'))) # tl', hs, cur, f)"
  by (simp add: save_right_index_def get_idx_def)

lemma save_end_entry:
  assumes "j < 2 ^ 32" "calc \<longrightarrow> length hs = length r \<and> j = Suc (length r + length hl)"
    "calc \<longrightarrow> hl \<noteq> [] \<and> hr \<noteq> []"
  shows "save_end H calc (length r) (r @ TPair s e (of_nat j) # ts, if calc then hs @ h # hl @ hr else hs', cur, f) =
     Ok (r @ TPair s cur (of_nat j) # ts, if calc then hs @ H (2 # hd hl @ hd hr) # hl @ hr else hs', cur, f)"
proof -
  note j = unat_u32 [OF assms(1)]
  have l: "(hs @ h # hl @ hr) ! (length hs + 1) = hd hl" "(hs @ h # hl @ hr) ! Suc (length hs + length hl) = hd hr" if calc
    using assms(3) that by (auto simp: nth_append hd_conv_nth)
  show ?thesis using assms(2,3) l j by (cases calc) (auto simp: save_end_def get_idx_def sha_blobs_def list_update_append)
qed

text \<open>One object: it is rejected, or its entries are appended and the loop goes on after it.\<close>

definition reads_object :: "(bytes \<Rightarrow> bytes) \<Rightarrow> bool \<Rightarrow> triples_state \<Rightarrow> ParseOpRef list \<Rightarrow> bool" where
  "reads_object H calc st ops \<longleftrightarrow> (case st of (r, hs, cur, f) \<Rightarrow>
     (\<exists>er \<in> triple_errs. triples_loop H calc st (ParseObj # ops) = Err er \<and> \<not> parsable no_refs (CAtom []) (remaining f)) \<or>
     (\<exists>e rest t trs. remaining f = e @ rest \<and> parses no_refs (CAtom []) e t \<and> flat (length r) cur e t trs \<and>
        triples_loop H calc st (ParseObj # ops) =
          triples_loop H calc (r @ trs, hs @ hash_entries H calc t, cur + length e, advance (length e) f) ops))"

lemma reads_object_cases [consumes 1, case_names malformed parsed]:
  assumes "reads_object H calc (r, hs, cur, f) ops"
  obtains er where "er \<in> triple_errs" "triples_loop H calc (r, hs, cur, f) (ParseObj # ops) = Err er"
      "\<not> parsable no_refs (CAtom []) (remaining f)"
    | e rest t trs where "remaining f = e @ rest" "parses no_refs (CAtom []) e t" "flat (length r) cur e t trs"
      "triples_loop H calc (r, hs, cur, f) (ParseObj # ops) =
         triples_loop H calc (r @ trs, hs @ hash_entries H calc t, cur + length e, advance (length e) f) ops"
  using assms unfolding reads_object_def by auto

lemma reads_object_pair:
  assumes rem: "remaining f = 0xff # s" and small: "length r + length (remaining f) < 2 ^ 32" and hs: "calc \<longrightarrow> length hs = length r"
    and l: "reads_object H calc (r @ [TPair cur 0 0], if calc then hs @ [replicate 32 0] else hs, cur + 1, advance 1 f)
      (SaveRightIndex (length r) # ParseObj # SaveEnd (length r) # ops)"
    and r: "\<And>e rest r' hs' cur'. s = e @ rest \<Longrightarrow> e \<noteq> [] \<Longrightarrow> length r' \<le> length r + Suc (length e) \<Longrightarrow>
      calc \<longrightarrow> length hs' = length r' \<Longrightarrow> reads_object H calc (r', hs', cur', advance (Suc (length e)) f) (SaveEnd (length r) # ops)"
  shows "reads_object H calc (r, hs, cur, f) ops"
proof -
  let ?loop = "triples_loop H calc (r, hs, cur, f) (ParseObj # ops)"
  let ?z = "if calc then hs @ [replicate 32 0] else hs"
  have eq: "?loop = triples_loop H calc (r @ [TPair cur 0 0], ?z, cur + 1, advance 1 f)
      (ParseObj # SaveRightIndex (length r) # ParseObj # SaveEnd (length r) # ops)"
    by (simp add: triples_loop_byte [OF rem])
  from l show ?thesis
  proof (cases rule: reads_object_cases)
    case (malformed er)
    then show ?thesis unfolding reads_object_def eq using rem parsable_pair_left by fastforce
  next
    case (parsed sl rest lt tl')
    note L = flat_length [OF parsed(3)]
    have s: "s = sl @ rest" using parsed(1) rem by simp
    let ?j = "Suc (length r + length tl')"
    let ?r1 = "r @ TPair cur 0 (of_nat ?j) # tl'" and ?h1 = "?z @ hash_entries H calc lt" and ?f1 = "advance (Suc (length sl)) f"
    have eq1: "?loop = triples_loop H calc (?r1, ?h1, cur + 1 + length sl, ?f1) (ParseObj # SaveEnd (length r) # ops)"
      unfolding eq parsed(4) using save_right_index_entry [of r cur 0 0 tl'] by (subst triples_loop.simps) simp
    have "calc \<longrightarrow> length ?h1 = length ?r1" using hs L by (simp add: hash_entries_def)
    then have "reads_object H calc (?r1, ?h1, cur + 1 + length sl, ?f1) (SaveEnd (length r) # ops)"
      using L parses_nonempty [OF parsed(2)] by (intro r [OF s]) simp_all
    then show ?thesis
    proof (cases rule: reads_object_cases)
      case (malformed er)
      then have "\<not> parsable no_refs (CAtom []) rest" using rem s by simp
      then have "\<not> parsable no_refs (CPair lt (CAtom [])) rest" using parsable_no_refs by blast
      then have "\<not> parsable no_refs (CAtom []) (remaining f)" unfolding rem using parsable_pairE [OF _ s parsed(2)] by blast
      then show ?thesis unfolding reads_object_def eq1 using malformed by blast
    next
      case (parsed sr rest' rt tr)
      note outer = \<open>parses no_refs (CAtom []) sl lt\<close> \<open>flat (length (r @ [TPair cur 0 0])) (cur + 1) sl lt tl'\<close>
      let ?e = "0xff # sl @ sr" and ?f2 = "advance (length (0xff # sl @ sr)) f"
      let ?fin = "cur + length ?e"
      let ?trs = "TPair cur ?fin (of_nat ?j) # tl' @ tr"
      have rest: "rest = sr @ rest'" using parsed(1) rem s by simp
      have p: "parses no_refs (CAtom []) ?e (CPair lt rt)" using parses_pair [OF outer(1) parses_no_refs [OF parsed(2)]] .
      have fl: "flat (length r) cur ?e (CPair lt rt) ?trs"
        using flat_pair [of "length r" cur sl lt tl' sr rt tr] outer(2) parsed(3) by simp
      have len: "?j < 2 ^ 32" using small rem s L parses_nonempty [OF parsed(2)] rest by (cases sr) auto
      have "save_end H calc (length r) (r @ TPair cur 0 (of_nat ?j) # tl' @ tr,
          if calc then hs @ replicate 32 0 # hash_entries H calc lt @ hash_entries H calc rt else hs, ?fin, ?f2) =
        Ok (r @ TPair cur ?fin (of_nat ?j) # tl' @ tr,
          if calc then hs @ H (2 # hd (hash_entries H calc lt) @ hd (hash_entries H calc rt)) # hash_entries H calc lt @ hash_entries H calc rt
          else hs, ?fin, ?f2)"
        by (rule save_end_entry [OF len]) (use hs L preorder_hd(1) in \<open>auto simp: hash_entries_def\<close>)
      moreover have "(if calc then hs @ H (2 # hd (hash_entries H calc lt) @ hd (hash_entries H calc rt)) # hash_entries H calc lt @ hash_entries H calc rt
          else hs) = hs @ hash_entries H calc (CPair lt rt)"
        using preorder_hd by (auto simp: hash_entries_def hd_map hd_conv_nth)
      moreover have "?h1 @ hash_entries H calc rt =
          (if calc then hs @ replicate 32 0 # hash_entries H calc lt @ hash_entries H calc rt else hs)"
        by (simp add: hash_entries_def)
      ultimately have "?loop = triples_loop H calc (r @ ?trs, hs @ hash_entries H calc (CPair lt rt), ?fin, ?f2) ops"
        unfolding eq1 parsed(4) by (subst triples_loop.simps) (simp add: add.commute add.left_commute)
      moreover have "remaining f = ?e @ rest'" using rem s rest by simp
      ultimately show ?thesis unfolding reads_object_def using p fl by blast
    qed
  qed
qed

lemma reads_object_all:
  "length r + length (remaining f) < 2 ^ 32 \<Longrightarrow> calc \<longrightarrow> length hs = length r \<Longrightarrow> reads_object H calc (r, hs, cur, f) ops"
proof (induction "length (remaining f)" arbitrary: r hs cur f ops rule: less_induct)
  case (less f r hs cur ops)
  show ?case
  proof (cases "remaining f")
    case Nil
    then have "\<not> parsable no_refs (CAtom []) (remaining f)" by (auto simp: parsable_def dest: parses_nonempty)
    moreover have "triples_loop H calc (r, hs, cur, f) (ParseObj # ops) = Err (IoErr UnexpectedEof ''failed to fill whole buffer'')"
      using Nil by (subst triples_loop.simps, subst read_one) simp
    ultimately show ?thesis by (auto simp: reads_object_def triple_errs_def format_errs_def)
  next
    case (Cons b s)
    show ?thesis
    proof (cases "b = 0xff")
      case True
      show ?thesis
      proof (rule reads_object_pair [OF Cons [unfolded True] less.prems])
        show "reads_object H calc (r @ [TPair cur 0 0], if calc then hs @ [replicate 32 0] else hs, cur + 1, advance 1 f)
            (SaveRightIndex (length r) # ParseObj # SaveEnd (length r) # ops)"
          by (rule less.hyps) (use Cons less.prems in simp_all)
        show "reads_object H calc (r', hs', cur', advance (Suc (length e)) f) (SaveEnd (length r) # ops)"
          if "s = e @ rest" "length r' \<le> length r + Suc (length e)" "calc \<longrightarrow> length hs' = length r'" for e rest r' hs' cur'
          by (rule less.hyps) (use Cons less.prems that in simp_all)
      qed
    next
      case False
      note loop = triples_loop_byte [OF Cons, of H calc r hs cur ops]
      show ?thesis
      proof (cases "\<exists>bs e rest. remaining f = e @ rest \<and> atom_enc bs e")
        case True
        then obtain bs e rest where e: "remaining f = e @ rest" "atom_enc bs e" by blast
        have "hd e = b" using e(1) Cons atom_enc_hd(1) [OF e(2)] by (cases e) auto
        with loop False parse_atom_triple_enc [OF e, of H calc cur r hs] have
          "triples_loop H calc (r, hs, cur, f) (ParseObj # ops) =
            triples_loop H calc (r @ [TAtom cur (cur + length e) (length e - length bs)], hs @ hash_entries H calc (CAtom bs),
              cur + length e, advance (length e) f) ops" by simp
        then show ?thesis unfolding reads_object_def using e(1) parses_atom [OF e(2)] flat_atom [OF e(2)] by blast
      next
        case bad: False
        have "\<not> parsable no_refs (CAtom []) (remaining f)"
        proof
          assume "parsable no_refs (CAtom []) (remaining f)"
          then obtain e t rest where e: "remaining f = e @ rest" and p: "parses no_refs (CAtom []) e t" by (auto simp: parsable_def)
          from p show False using e False bad Cons by (cases rule: parses.cases) (auto simp: no_refs_def)
        qed
        moreover obtain er where "er \<in> triple_errs" "parse_atom_triple H calc b cur (r, hs, cur + 1, advance 1 f) = Err er"
          using parse_atom_triple_bad [OF Cons bad] by blast
        ultimately show ?thesis unfolding reads_object_def using loop False by auto
      qed
    qed
  qed
qed

lemma parse_triples_cases:
  assumes "length b < 2 ^ 32"
  shows "case parse_triples H (cursor_new b) calc of
      Ok (r, hs) \<Rightarrow> \<exists>e rest t. b = e @ rest \<and> parses no_refs (CAtom []) e t \<and>
        length r = length (preorder t) \<and> (\<forall>i < length r. denotes b r i (preorder t ! i)) \<and> t_end (r ! 0) = length e \<and>
        hs = (if calc then Some (map (tree_hash H) (preorder t)) else None)
    | Err er \<Rightarrow> er \<in> triple_errs \<and> \<not> parsable no_refs (CAtom []) b
    | Panic p \<Rightarrow> False"
proof -
  have rem: "remaining (cursor_new b) = b" by (simp add: remaining_def cursor_new_def)
  have "reads_object H calc ([], [], 0, cursor_new b) []" using assms by (intro reads_object_all) (simp_all add: rem)
  then show ?thesis
  proof (cases rule: reads_object_cases)
    case (malformed er)
    then show ?thesis by (simp add: parse_triples_def rem)
  next
    case (parsed e rest t trs)
    have "length trs \<le> length b" using flat_length [OF parsed(3)] parsed(1) rem by auto
    then have "\<forall>i < length trs. denotes b trs i (preorder t ! i)"
      using flat_denotes [OF parsed(3), of b "[]" rest trs "[]" "[]"] parsed(1) rem assms by simp
    moreover have "parse_triples H (cursor_new b) calc = Ok (trs, if calc then Some (map (tree_hash H) (preorder t)) else None)"
      using parsed(4) by (simp add: parse_triples_def triples_loop.simps(1) hash_entries_def)
    ultimately show ?thesis using parsed(1,2) rem flat_length [OF parsed(3)] flat_first [OF parsed(3)] by auto
  qed
qed

end
