(* ===== verification/SerdeProps.thy ===== *)
theory SerdeProps
  imports DeBr DeTreeSpec InterpreterProps
begin

text \<open>
  The properties of the serializers and deserializers, with the concrete inputs at which
  their hypotheses hold.
\<close>

section \<open>A concrete tree\<close>

definition ex_tree :: clvm where
  "ex_tree = CPair (CAtom [1]) (CAtom [5])"

lemma ex_tight: "tight ex_alloc" "tight ex_quote_alloc"
  using alloc_ok_ex_alloc ex_quote_ok(1) by (simp_all add: tight_def ex_alloc_def ex_quote_alloc_def u32_max_def)

lemma ex_rep: "rep ex_quote_alloc ex_quote ex_tree"
  using ex_quote_ok(2) by (simp add: ex_tree_def)

lemma ex_cser: "cser ex_tree = [0xff, 1, 5]"
  by (simp add: ex_tree_def atom_ser_def CONS_BOX_MARKER_def)

text \<open>The length of a small atom, and a run that resolves a back-reference to the first value.\<close>

lemma ex_length: "serialized_length_from_bytes [5, 7] = Ok 1"
proof -
  have r: "remaining (cursor_new [5, 7]) = 5 # [7]" and p: "position (cursor_new [5, 7]) = 0"
    by (simp_all add: remaining_def cursor_new_def)
  show ?thesis
    by (simp add: serialized_length_from_bytes_def allocator_new_def new_limited_def len_loop_byte [OF r] trusted_skip_def
        MAX_SINGLE_BYTE_def len_push_def new_pair_def MAX_NUM_PAIRS_def serialized_length_loop.simps(1) sexp_def
        object_type_kind get_idx_def p)
qed

definition ex_record_alloc :: Allocator where
  "ex_record_alloc = ex_alloc\<lparr> small_atoms := 3, pair_vec :=
     [\<lparr> ip_first = node_new OSmallAtom 5, ip_rest = node_NIL \<rparr>,
      \<lparr> ip_first = node_new OSmallAtom 5, ip_rest = node_new OPair 0 \<rparr>,
      \<lparr> ip_first = node_new OSmallAtom 5, ip_rest = node_new OSmallAtom 5 \<rparr>,
      \<lparr> ip_first = node_new OPair 2, ip_rest = node_NIL \<rparr>] \<rparr>"

lemma ex_record:
  "node_from_bytes_backrefs_record ex_alloc [0xff, 5, 0xfe, 2] =
     (Ok (node_new OPair 2, {node_new OSmallAtom 5}), ex_record_alloc)"
proof -
  let ?f = "cursor_new [0xff, 5, 0xfe, 2]"
  have r: "remaining ?f = 0xff # [5, 0xfe, 2]" "remaining (advance 1 ?f) = 5 # [0xfe, 2]"
      "remaining (advance 2 ?f) = 0xfe # [2]" "remaining (advance 3 ?f) = [2] @ []"
    by (simp_all add: remaining_def cursor_new_def)
  have atom5: "parse_atom ex_alloc 5 (advance 2 ?f) = (Ok (node_new OSmallAtom 5, advance 2 ?f), ex_alloc\<lparr> small_atoms := 3 \<rparr>)"
    by (simp add: parse_atom_def parse_atom_ptr_def MAX_SINGLE_BYTE_def slice_def usize_sub_def cursor_new_def new_atom_def
        ex_alloc_def check_atom_limit_def MAX_NUM_ATOMS_def fits_in_small_atom_def shift_in_def)
  have "atom_enc [2] [2]" by (simp add: atom_enc_def)
  note path2 = parse_path_complete [OF r(4) this]
  have a: "pair_vec ex_alloc = []" by (simp add: ex_alloc_def)
  have be: "be_nat [2] = 2" by (simp add: be_nat_def)
  note step = node_from_backrefs_loop.simps(1,3) io_new_pair_def new_pair_def MAX_NUM_PAIRS_def sexp_def object_type_kind
    get_idx_def a Let_def traverse_path_walk walk_1
  note byte = br_loop_byte [OF r(1)] br_loop_byte [OF r(2)] br_loop_byte [OF r(3)]
  note n = numeral_2_eq_2 numeral_3_eq_3
  show ?thesis
    unfolding node_from_bytes_backrefs_record_def node_from_stream_backrefs_def byte(1) Let_def ex_record_alloc_def n
    by (simp add: byte(2) [simplified] byte(3) [simplified, unfolded n] atom5 [unfolded n] path2 [simplified, unfolded n]
        step be [unfolded n] walk.simps [of _ "Suc (Suc 0)"])
qed

section \<open>Atoms\<close>

text \<open>
  What \<open>write_atom\<close> writes for an atom of fewer than 2^34 bytes, \<open>parse_atom_ptr\<close> reads back: the
  reader that has taken the first byte returns the atom and leaves the cursor after it,
  whatever follows in the stream.
\<close>

theorem write_parse_atom:
  assumes "length v < 2 ^ 34"
  shows "\<exists>s. write_atom vec_write_all out v = (Ok (), out @ s) \<and>
    parse_atom_ptr (advance 1 (cursor_new (s @ rest))) (hd s) = Ok (v, advance (length s) (cursor_new (s @ rest)))"
proof (intro exI conjI)
  have "remaining (cursor_new (atom_ser v @ rest)) = atom_ser v @ rest" by (simp add: remaining_def cursor_new_def)
  then show "parse_atom_ptr (advance 1 (cursor_new (atom_ser v @ rest))) (hd (atom_ser v)) =
      Ok (v, advance (length (atom_ser v)) (cursor_new (atom_ser v @ rest)))"
    by (rule parse_atom_ptr_complete [OF _ atom_enc_ser [OF assms]])
  show "write_atom vec_write_all out v = (Ok (), out @ atom_ser v)"
    using vec_sink.puts_write_atom [OF assms, of out] by (cases "write_atom vec_write_all out v") (simp add: vec_sink.puts_def)
qed

theorem write_parse_atom_witness:
  "\<exists>s. write_atom vec_write_all [] (replicate 100 7) = (Ok (), [] @ s) \<and>
    parse_atom_ptr (advance 1 (cursor_new (s @ [9]))) (hd s) =
      Ok (replicate 100 7, advance (length s) (cursor_new (s @ [9])))"
  using write_parse_atom [of "replicate 100 7" "[]" "[9]"] by simp

text \<open>
  \<open>serialized_length_atom\<close> is the number of bytes \<open>write_atom\<close> writes, for atoms whose
  encoding is shorter than 4 GiB.
\<close>

theorem serialized_length_atom_correct:
  assumes "length buf < 2 ^ 32 - 5" "write_atom vec_write_all [] buf = (Ok (), s)"
  shows "unat (serialized_length_atom buf) = length s"
proof -
  have "length buf < 2 ^ 34" using assms(1) by simp
  then have "s = atom_ser buf" using vec_sink.puts_write_atom [of buf "[]"] assms(2) by (simp add: vec_sink.puts_def)
  then show ?thesis using serialized_length_atom_eq [OF assms(1)] by simp
qed

theorem serialized_length_atom_correct_witness: "unat (serialized_length_atom [200]) = length [0x81, 200 :: u8]"
proof -
  have "write_atom vec_write_all [] [200] = (Ok (), [0x81, 200])" by code_simp
  from serialized_length_atom_correct [OF _ this] show ?thesis by simp
qed

section \<open>Serialization\<close>

text \<open>
  C23. \<open>node_to_bytes_limit\<close> returns on every node that denotes a value: it gives the
  serialization of the value when that fits the limit, and the out-of-memory error
  otherwise.
\<close>

theorem node_to_bytes_limit_correct:
  assumes "rep a n t"
  shows "node_to_bytes_limit a n limit = Some (if length (cser t) \<le> limit then Ok (cser t) else Err out_of_memory)"
  by (rule node_to_bytes_limit_eq [OF assms])

theorem node_to_bytes_limit_correct_witness:
  "node_to_bytes_limit ex_quote_alloc ex_quote 3 = Some (Ok [0xff, 1, 5]) \<and>
   node_to_bytes_limit ex_quote_alloc ex_quote 2 = Some (Err out_of_memory)"
  using node_to_bytes_limit_correct [OF ex_rep] by (simp add: ex_cser)

text \<open>
  C24. \<open>node_from_bytes\<close> accepts exactly the byte strings that start with a serialized
  value: on a well-formed allocator it returns a node of that value and keeps the
  allocator's contents, or reports that the bytes hold no value, or a resource error of the
  allocator. It never panics.
\<close>

theorem node_from_bytes_correct:
  assumes "tight a"
  shows "case node_from_bytes a b of
      (Ok n, a') \<Rightarrow> tight a' \<and> extends a a' \<and> (\<exists>e rest t. b = e @ rest \<and> parses no_refs (CAtom []) e t \<and> rep a' n t)
    | (Err er, a') \<Rightarrow> tight a' \<and> extends a a' \<and>
        (er \<in> alloc_errs \<or> er \<in> format_errs \<and> \<not> parsable no_refs (CAtom []) b)
    | (Panic p, a') \<Rightarrow> False"
  by (rule node_from_bytes_cases [OF assms])

theorem node_from_bytes_correct_witness:
  "case node_from_bytes ex_alloc [0xff, 1, 5] of
      (Ok n, a') \<Rightarrow> tight a' \<and> extends ex_alloc a' \<and>
        (\<exists>e rest t. [0xff, 1, 5] = e @ rest \<and> parses no_refs (CAtom []) e t \<and> rep a' n t)
    | (Err er, a') \<Rightarrow> tight a' \<and> extends ex_alloc a' \<and>
        (er \<in> alloc_errs \<or> er \<in> format_errs \<and> \<not> parsable no_refs (CAtom []) [0xff, 1, 5])
    | (Panic p, a') \<Rightarrow> False"
  by (rule node_from_bytes_correct [OF ex_tight(1)])

text \<open>
  C22. Serializing a node and deserializing the bytes, in any well-formed allocator and
  whatever bytes follow, gives a node of the same value, unless that allocator runs out of
  space.
\<close>

theorem serialize_roundtrip:
  assumes "rep a n t" "node_to_bytes_limit a n limit = Some (Ok b)" "tight a1"
  shows "case node_from_bytes a1 (b @ rest) of
      (Ok n', a') \<Rightarrow> tight a' \<and> extends a1 a' \<and> rep a' n' t
    | (Err er, a') \<Rightarrow> tight a' \<and> extends a1 a' \<and> er \<in> alloc_errs
    | (Panic p, a') \<Rightarrow> False"
proof -
  have "b = cser t" using assms(2) unfolding node_to_bytes_limit_eq [OF assms(1)] by (simp split: if_splits)
  then show ?thesis using node_from_bytes_cser [OF assms(3) rep_atoms_ok [OF assms(1)]] by simp
qed

theorem serialize_roundtrip_witness:
  "case node_from_bytes ex_alloc ([0xff, 1, 5] @ []) of
      (Ok n', a') \<Rightarrow> tight a' \<and> extends ex_alloc a' \<and> rep a' n' ex_tree
    | (Err er, a') \<Rightarrow> tight a' \<and> extends ex_alloc a' \<and> er \<in> alloc_errs
    | (Panic p, a') \<Rightarrow> False"
proof -
  have "node_to_bytes_limit ex_quote_alloc ex_quote 3 = Some (Ok [0xff, 1, 5])"
    by (simp add: node_to_bytes_limit_eq [OF ex_rep] ex_cser)
  from serialize_roundtrip [OF ex_rep this ex_tight(1)] show ?thesis .
qed

section \<open>Back-references\<close>

text \<open>
  C12. \<open>node_from_bytes_backrefs\<close> accepts exactly the byte strings that start with a value
  serialized with back-references, each path looked up in the list of the values read
  before it; it returns a node of that value, a format or path error, or a resource error,
  and the two internal panics of the code cannot happen.
\<close>

theorem node_from_bytes_backrefs_correct:
  assumes "tight a"
  shows "case node_from_bytes_backrefs a b of
      (Ok n, a') \<Rightarrow> tight a' \<and> extends a a' \<and> (\<exists>e rest t. b = e @ rest \<and> parses ref_lookup (CAtom []) e t \<and> rep a' n t)
    | (Err er, a') \<Rightarrow> tight a' \<and> extends a a' \<and> (er \<in> alloc_errs \<or> er \<in> path_errs \<and> \<not> parsable ref_lookup (CAtom []) b)
    | (Panic p, a') \<Rightarrow> False"
  by (rule node_from_bytes_backrefs_cases [OF assms])

theorem node_from_bytes_backrefs_correct_witness:
  "case node_from_bytes_backrefs ex_alloc [0xff, 0x82, 1, 2, 0xfe, 2] of
      (Ok n, a') \<Rightarrow> tight a' \<and> extends ex_alloc a' \<and>
        (\<exists>e rest t. [0xff, 0x82, 1, 2, 0xfe, 2] = e @ rest \<and> parses ref_lookup (CAtom []) e t \<and> rep a' n t)
    | (Err er, a') \<Rightarrow> tight a' \<and> extends ex_alloc a' \<and>
        (er \<in> alloc_errs \<or> er \<in> path_errs \<and> \<not> parsable ref_lookup (CAtom []) [0xff, 0x82, 1, 2, 0xfe, 2])
    | (Panic p, a') \<Rightarrow> False"
  by (rule node_from_bytes_backrefs_correct [OF ex_tight(1)])

text \<open>
  The nodes that \<open>node_from_bytes_backrefs_record\<close> reports as targets of
  back-references all denote values of the resulting allocator, and the node it returns is
  the one \<open>node_from_bytes_backrefs\<close> specifies.
\<close>

theorem backrefs_record_nodes:
  assumes "tight a" "node_from_bytes_backrefs_record a b = (Ok (n, backrefs), a')"
  shows "(\<forall>m. m \<in> backrefs \<longrightarrow> (\<exists>u. rep a' m u)) \<and> (\<exists>e rest t. b = e @ rest \<and> parses ref_lookup (CAtom []) e t \<and> rep a' n t)"
proof -
  have rem: "remaining (cursor_new b) = b" by (simp add: remaining_def cursor_new_def)
  obtain f' where run: "node_from_stream_backrefs (\<lambda>backrefs n. insert n backrefs) a {} (cursor_new b) = (Ok (n, backrefs, f'), a')"
    using assms(2) by (auto simp: node_from_bytes_backrefs_record_def bindR_eq_Ok split: prod.splits)
  from recorder.node_from_stream_backrefs_cases [OF assms(1), of "{}" "cursor_new b"] show ?thesis
    unfolding run rem by auto
qed

theorem backrefs_record_nodes_witness: "\<exists>u. rep ex_record_alloc (node_new OSmallAtom 5) u"
  using backrefs_record_nodes [OF ex_tight(1) ex_record] by blast

section \<open>Stream tools\<close>

text \<open>
  C31. \<open>tree_hash_from_stream\<close> returns the tree hash of the value at the cursor and leaves
  the cursor after it, or rejects bytes that hold no value. It never panics, and it fails
  for no other reason.
\<close>

theorem tree_hash_from_stream_correct:
  "case tree_hash_from_stream H f of
      Ok (h, f') \<Rightarrow> \<exists>e rest t. remaining f = e @ rest \<and> parses no_refs (CAtom []) e t \<and> h = tree_hash H t \<and> f' = advance (length e) f
    | Err er \<Rightarrow> er \<in> format_errs \<and> \<not> parsable no_refs (CAtom []) (remaining f)
    | Panic p \<Rightarrow> False"
  by (rule tree_hash_from_stream_cases)

text \<open>
  On buffers below 2 GiB the trusted length agrees with the checked one: whenever the
  checked function returns a length, the trusted one returns the same.
\<close>

theorem trusted_length_agrees:
  assumes "length b < 2 ^ 31 - 1" "serialized_length_from_bytes b = Ok n"
  shows "serialized_length_from_bytes_trusted b = Ok n"
proof -
  obtain e rest t where e: "b = e @ rest" "parses ref_lookup (CAtom []) e t" "n = length e"
    using serialized_length_cases [of b] assms(2) by auto
  then show ?thesis unfolding trusted_length_eq(1) [OF assms(1)] using parses_any_ref by blast
qed

theorem trusted_length_agrees_witness: "serialized_length_from_bytes_trusted [5, 7] = Ok 1"
  using trusted_length_agrees [of "[5, 7]", OF _ ex_length] by simp

section \<open>The flat form of a tree\<close>

text \<open>
  C25. On streams below 4 GiB \<open>parse_triples\<close> returns one entry per object of the serialized
  value: each entry denotes its object, an atom by the range of its bytes and a pair by the
  next entry and the entry of its right index, in the order of a walk from the root; with
  hashes asked for, the hash beside an entry is the tree hash of the object. It rejects
  exactly the streams that hold no value, and its internal panics cannot happen.
\<close>

theorem parse_triples_correct:
  assumes "length b < 2 ^ 32"
  shows "case parse_triples H (cursor_new b) calculate_tree_hashes of
      Ok (r, hs) \<Rightarrow> \<exists>e rest t. b = e @ rest \<and> parses no_refs (CAtom []) e t \<and>
        length r = length (preorder t) \<and> (\<forall>i < length r. denotes b r i (preorder t ! i)) \<and> t_end (r ! 0) = length e \<and>
        hs = (if calculate_tree_hashes then Some (map (tree_hash H) (preorder t)) else None)
    | Err er \<Rightarrow> er \<in> triple_errs \<and> \<not> parsable no_refs (CAtom []) b
    | Panic p \<Rightarrow> False"
  by (rule parse_triples_cases [OF assms])

theorem parse_triples_correct_witness:
  "case parse_triples id (cursor_new [0xff, 1, 0x81, 200]) True of
      Ok (r, hs) \<Rightarrow> \<exists>e rest t. [0xff, 1, 0x81, 200] = e @ rest \<and> parses no_refs (CAtom []) e t \<and>
        length r = length (preorder t) \<and> (\<forall>i < length r. denotes [0xff, 1, 0x81, 200] r i (preorder t ! i)) \<and>
        t_end (r ! 0) = length e \<and> hs = (if True then Some (map (tree_hash id) (preorder t)) else None)
    | Err er \<Rightarrow> er \<in> triple_errs \<and> \<not> parsable no_refs (CAtom []) [0xff, 1, 0x81, 200]
    | Panic p \<Rightarrow> False"
  by (rule parse_triples_correct) simp

end
