(* ===== verification/ObjectCache.thy ===== *)
theory ObjectCache
  imports ToolsSpec
begin

text \<open>
  Memoized functions on nodes: \<open>src/src/serde/object_cache.rs\<close> and \<open>bytes32.rs\<close>. The hash
  map of an \<open>ObjectCache\<close> is a partial map and its function reads only that map. The
  traversal is a partial function, since it is bounded only by the structure of the tree;
  it is shown to return on every node that denotes a value. The locale states what a cached
  function has to satisfy for the cache to hold its values, and is interpreted on the two
  functions of the code.
\<close>

section \<open>The operations\<close>

definition hash_blob :: "(bytes \<Rightarrow> bytes) \<Rightarrow> bytes \<Rightarrow> bytes" where
  "hash_blob H blob = H blob"

definition hash_blobs :: "(bytes \<Rightarrow> bytes) \<Rightarrow> bytes list \<Rightarrow> bytes" where
  "hash_blobs H blobs = H (concat blobs)"

type_synonym 't node_cache = "NodePtr \<rightharpoonup> 't"
type_synonym 't CachedFunction = "'t node_cache \<Rightarrow> Allocator \<Rightarrow> NodePtr \<Rightarrow> 't option io"

record 't ObjectCache =
  oc_cache :: "'t node_cache"
  oc_f :: "'t CachedFunction"

definition object_cache_new :: "'t CachedFunction \<Rightarrow> 't ObjectCache" where
  "object_cache_new f = \<lparr> oc_cache = Map.empty, oc_f = f \<rparr>"

definition get_from_cache :: "'t ObjectCache \<Rightarrow> NodePtr \<Rightarrow> 't option" where
  "get_from_cache self n = oc_cache self n"

definition set_cache :: "'t ObjectCache \<Rightarrow> NodePtr \<Rightarrow> 't \<Rightarrow> 't ObjectCache" where
  "set_cache self n v = self\<lparr> oc_cache := (oc_cache self)(n \<mapsto> v) \<rparr>"

partial_function (option) calculate_loop ::
    "Allocator \<Rightarrow> NodePtr option \<Rightarrow> NodePtr list \<Rightarrow> 't ObjectCache \<Rightarrow> (unit io \<times> 't ObjectCache) option" where
  "calculate_loop a stop_token obj_list self =
     (case obj_list of
        [] \<Rightarrow> Some (Ok (), self)
      | n # obj_list \<Rightarrow>
          if stop_token = Some n then Some (Ok (), self)
          else case get_from_cache self n of
            Some _ \<Rightarrow> calculate_loop a stop_token obj_list self
          | None \<Rightarrow>
              tryP (oc_f self (oc_cache self) a n, self) (\<lambda>v self.
              case v of
                None \<Rightarrow>
                  tryP (sexp a n, self) (\<lambda>s self.
                  case s of
                    SPair left right \<Rightarrow> calculate_loop a stop_token (right # left # n # obj_list) self
                  | SAtom \<Rightarrow> Some (Panic ''f returned `None` for atom'', self))
              | Some v \<Rightarrow> calculate_loop a stop_token obj_list (set_cache self n v)))"

definition calculate :: "'t ObjectCache \<Rightarrow> Allocator \<Rightarrow> NodePtr \<Rightarrow> NodePtr option \<Rightarrow> (unit io \<times> 't ObjectCache) option" where
  "calculate self a root_node stop_token = calculate_loop a stop_token [root_node] self"

definition get_or_calculate ::
    "'t ObjectCache \<Rightarrow> Allocator \<Rightarrow> NodePtr \<Rightarrow> NodePtr option \<Rightarrow> ('t option io \<times> 't ObjectCache) option" where
  "get_or_calculate self a n stop_token =
     map_option (\<lambda>(r, self). (bindR r (\<lambda>_. Ok (get_from_cache self n)), self)) (calculate self a n stop_token)"

definition treehash :: "(bytes \<Rightarrow> bytes) \<Rightarrow> bytes CachedFunction" where
  "treehash H cache a n =
     bindR (sexp a n) (\<lambda>s. case s of
       SPair left right \<Rightarrow>
         Ok (case cache left of
           None \<Rightarrow> None
         | Some left_value \<Rightarrow> map_option (\<lambda>right_value. hash_blobs H [[2], left_value, right_value]) (cache right))
     | SAtom \<Rightarrow> bindR (atom_bytes a n) (\<lambda>buf. Ok (Some (hash_blobs H [[1], buf]))))"

definition saturating_add :: "u64 \<Rightarrow> u64 \<Rightarrow> u64" where
  "saturating_add x y = (if unat x + unat y < 2 ^ 64 then x + y else - 1)"

definition serialized_length :: "u64 CachedFunction" where
  "serialized_length cache a n =
     bindR (sexp a n) (\<lambda>s. case s of
       SPair left right \<Rightarrow>
         Ok (case cache left of
           None \<Rightarrow> None
         | Some left_value \<Rightarrow>
             map_option (\<lambda>right_value. saturating_add (saturating_add 1 left_value) right_value) (cache right))
     | SAtom \<Rightarrow> bindR (atom_bytes a n) (\<lambda>buf. Ok (Some (ucast (serialized_length_atom buf)))))"

section \<open>Cached functions\<close>

text \<open>\<open>free a st n t\<close>: node \<open>n\<close> denotes \<open>t\<close> and the stop token does not occur below it.\<close>

inductive free :: "Allocator \<Rightarrow> NodePtr option \<Rightarrow> NodePtr \<Rightarrow> clvm \<Rightarrow> bool" for a st where
  free_atom: "st \<noteq> Some n \<Longrightarrow> rep a n (CAtom bs) \<Longrightarrow> free a st n (CAtom bs)"
| free_pair: "st \<noteq> Some n \<Longrightarrow> rep a n (CPair l r) \<Longrightarrow> free a st (pfirst a n) l \<Longrightarrow> free a st (prest a n) r \<Longrightarrow>
    free a st n (CPair l r)"

inductive_cases free_CPairE: "free a st n (CPair l r)"

lemma free_rep: "free a st n t \<Longrightarrow> rep a n t"
  by (erule free.cases) auto

lemma free_stop: "free a st n t \<Longrightarrow> st \<noteq> Some n"
  by (erule free.cases) auto

lemma free_None: "rep a n t \<Longrightarrow> free a None n t"
proof (induction t arbitrary: n rule: clvm.induct)
  case (CAtom bs)
  then show ?case by (auto intro: free_atom)
next
  case (CPair l r)
  then show ?case using rep_pfirst rep_prest by (blast intro: free_pair)
qed

lemma free_extends: "free a st n t \<Longrightarrow> extends a a' \<Longrightarrow> free a' st n t"
proof (induction rule: free.induct)
  case (free_pair n l r)
  have "node_idx n < length (pair_vec a)" using free_pair.hyps(2) by (auto elim: rep_CPairE)
  then have "pfirst a' n = pfirst a n" "prest a' n = prest a n"
    using free_pair.prems by (auto simp: pfirst_def prest_def extends_def nth_append)
  with free_pair show ?case using rep_extends by (metis free.free_pair)
qed (auto intro: free_atom rep_extends)

locale cached_function =
  fixes f :: "'t CachedFunction" and val :: "clvm \<Rightarrow> 't"
  assumes f_atom: "rep a n (CAtom bs) \<Longrightarrow> f c a n = Ok (Some (val (CAtom bs)))"
    and f_pair: "rep a n (CPair l r) \<Longrightarrow> c (pfirst a n) = Some (val l) \<Longrightarrow> c (prest a n) = Some (val r) \<Longrightarrow>
      f c a n = Ok (Some (val (CPair l r)))"
    and f_missing: "rep a n (CPair l r) \<Longrightarrow> c (pfirst a n) = None \<or> c (prest a n) = None \<Longrightarrow> f c a n = Ok None"
begin

text \<open>The cache holds values of nodes that lie clear of the stop token.\<close>

definition cache_ok :: "Allocator \<Rightarrow> NodePtr option \<Rightarrow> 't ObjectCache \<Rightarrow> bool" where
  "cache_ok a st oc \<longleftrightarrow> oc_f oc = f \<and> (\<forall>n v. oc_cache oc n = Some v \<longrightarrow> (\<exists>t. free a st n t \<and> v = val t))"

lemma cache_ok_new: "cache_ok a st (object_cache_new f)"
  by (simp add: cache_ok_def object_cache_new_def)

lemma cache_ok_value: "cache_ok a st oc \<Longrightarrow> rep a n t \<Longrightarrow> get_from_cache oc n = Some v \<Longrightarrow> free a st n t \<and> v = val t"
  unfolding cache_ok_def get_from_cache_def using rep_det free_rep by metis

lemma cache_ok_set: "cache_ok a st oc \<Longrightarrow> free a st n t \<Longrightarrow> cache_ok a st (set_cache oc n (val t))"
  by (auto simp: cache_ok_def set_cache_def)

lemma cache_ok_extends: "cache_ok a st oc \<Longrightarrow> extends a a' \<Longrightarrow> cache_ok a' st oc"
  unfolding cache_ok_def using free_extends by blast

definition cached :: "'t ObjectCache \<Rightarrow> NodePtr \<Rightarrow> clvm \<Rightarrow> bool" where
  "cached oc n t \<longleftrightarrow> get_from_cache oc n = Some (val t)"

text \<open>
  Taking a node of value \<open>t\<close> from the work list: if the stop token lies below the node the
  loop may end there; otherwise it goes on with the value of the node in the cache.
\<close>

definition computes :: "Allocator \<Rightarrow> NodePtr option \<Rightarrow> NodePtr \<Rightarrow> clvm \<Rightarrow> 't ObjectCache \<Rightarrow> bool" where
  "computes a st n t oc \<longleftrightarrow>
     (\<forall>ns. (\<not> free a st n t \<and> (\<exists>oc'. cache_ok a st oc' \<and> calculate_loop a st (n # ns) oc = Some (Ok (), oc'))) \<or>
       (\<exists>oc'. cache_ok a st oc' \<and> oc_cache oc \<subseteq>\<^sub>m oc_cache oc' \<and> cached oc' n t \<and>
          calculate_loop a st (n # ns) oc = calculate_loop a st ns oc'))"

lemma calculate_stop: "calculate_loop a (Some n) (n # ns) oc = Some (Ok (), oc)"
  by (subst calculate_loop.simps) simp

lemma calculate_hit: "st \<noteq> Some n \<Longrightarrow> get_from_cache oc n = Some v \<Longrightarrow> calculate_loop a st (n # ns) oc = calculate_loop a st ns oc"
  by (subst calculate_loop.simps) simp

lemma calculate_set:
  "cache_ok a st oc \<Longrightarrow> st \<noteq> Some n \<Longrightarrow> get_from_cache oc n = None \<Longrightarrow> f (oc_cache oc) a n = Ok (Some v) \<Longrightarrow>
   calculate_loop a st (n # ns) oc = calculate_loop a st ns (set_cache oc n v)"
  by (subst calculate_loop.simps) (simp add: cache_ok_def)

lemma calculate_children:
  "cache_ok a st oc \<Longrightarrow> st \<noteq> Some n \<Longrightarrow> get_from_cache oc n = None \<Longrightarrow> f (oc_cache oc) a n = Ok None \<Longrightarrow> rep a n (CPair l r) \<Longrightarrow>
   calculate_loop a st (n # ns) oc = calculate_loop a st (prest a n # pfirst a n # n # ns) oc"
  by (subst calculate_loop.simps) (simp add: cache_ok_def rep_sexp_pair)

lemma set_cache_le: "get_from_cache oc n = None \<Longrightarrow> oc_cache oc \<subseteq>\<^sub>m oc_cache (set_cache oc n v)"
  by (auto simp: map_le_def set_cache_def get_from_cache_def)

lemma cached_set: "cached (set_cache oc n (val t)) n t"
  by (simp add: cached_def set_cache_def get_from_cache_def)

lemma computesI_set:
  assumes "cache_ok a st oc" "get_from_cache oc n = None" "f (oc_cache oc) a n = Ok (Some (val t))" "free a st n t"
  shows "computes a st n t oc"
  unfolding computes_def calculate_set [OF assms(1) free_stop [OF assms(4)] assms(2,3)]
  using cache_ok_set [OF assms(1,4)] set_cache_le [OF assms(2)] cached_set by blast

lemma computes_cases:
  assumes "cache_ok a st oc" "rep a n t" "st \<noteq> Some n \<Longrightarrow> get_from_cache oc n = None \<Longrightarrow> computes a st n t oc"
  shows "computes a st n t oc"
proof -
  consider "st = Some n" | v where "st \<noteq> Some n" "get_from_cache oc n = Some v"
    | "st \<noteq> Some n" "get_from_cache oc n = None" by (cases "get_from_cache oc n") auto
  then show ?thesis
  proof cases
    case 1
    then show ?thesis using assms(1) by (auto simp: computes_def calculate_stop dest: free_stop)
  next
    case 2
    then show ?thesis using assms(1) cache_ok_value [OF assms(1,2)] unfolding computes_def calculate_hit [OF 2]
      by (intro allI disjI2 exI [of _ oc]) (simp add: cached_def)
  qed (rule assms(3))
qed

lemma computes_node: "cache_ok a st oc \<Longrightarrow> rep a n t \<Longrightarrow> computes a st n t oc"
proof (induction t arbitrary: n oc rule: clvm.induct)
  case (CAtom bs)
  show ?case
    by (rule computes_cases [OF CAtom], rule computesI_set [OF CAtom(1)]) (use CAtom in \<open>auto simp: f_atom intro: free_atom\<close>)
next
  case (CPair l r)
  note node = CPair.prems(2)
  have value_free: "free a st (pfirst a n) l \<and> free a st (prest a n) r"
    if "cache_ok a st oc2" "cached oc2 (pfirst a n) l" "cached oc2 (prest a n) r" for oc2
    using that cache_ok_value [OF that(1) rep_pfirst [OF node]] cache_ok_value [OF that(1) rep_prest [OF node]] by (auto simp: cached_def)
  have both: "computes a st n (CPair l r) oc2"
    if "cache_ok a st oc2" "cached oc2 (pfirst a n) l" "cached oc2 (prest a n) r" for oc2
    by (rule computes_cases [OF that(1) node], rule computesI_set [OF that(1)])
      (use that node value_free in \<open>auto simp: f_pair cached_def get_from_cache_def intro: free_pair\<close>)
  show ?case
  proof (rule computes_cases [OF CPair.prems])
    assume st: "st \<noteq> Some n" and miss: "get_from_cache oc n = None"
    show "computes a st n (CPair l r) oc"
    proof (cases "oc_cache oc (pfirst a n) = None \<or> oc_cache oc (prest a n) = None")
      case False
      then obtain vl vr where "get_from_cache oc (pfirst a n) = Some vl" "get_from_cache oc (prest a n) = Some vr"
        by (auto simp: get_from_cache_def)
      then show ?thesis using cache_ok_value [OF CPair.prems(1)] rep_pfirst [OF node] rep_prest [OF node]
        by (intro both [OF CPair.prems(1)]) (simp_all add: cached_def)
    next
      case True
      note unfold = calculate_children [OF CPair.prems(1) st miss f_missing [OF node True] node]
      note right = CPair.IH(2) [OF CPair.prems(1) rep_prest [OF node]]
      note left = CPair.IH(1) [OF _ rep_pfirst [OF node]]
      have keep: "cached oc2 (prest a n) r" if "cached oc1 (prest a n) r" "oc_cache oc1 \<subseteq>\<^sub>m oc_cache oc2" for oc1 oc2
        using that by (auto simp: cached_def get_from_cache_def map_le_def dom_def)
      have sub: "free a st (pfirst a n) l" "free a st (prest a n) r" if "free a st n (CPair l r)"
        using that by (auto elim: free_CPairE)
      show ?thesis
        unfolding computes_def
      proof (intro allI)
        fix ns
        let ?stops = "\<lambda>m. \<not> free a st n (CPair l r) \<and> (\<exists>oc'. cache_ok a st oc' \<and> m = Some (Ok (), oc'))"
        let ?l = "calculate_loop a st (n # ns) oc"
        from right consider "?stops ?l" | oc1 where "cache_ok a st oc1" "oc_cache oc \<subseteq>\<^sub>m oc_cache oc1" "cached oc1 (prest a n) r"
            "?l = calculate_loop a st (pfirst a n # n # ns) oc1" unfolding computes_def unfold using sub(2) by blast
        then show "?stops ?l \<or> (\<exists>oc'. cache_ok a st oc' \<and> oc_cache oc \<subseteq>\<^sub>m oc_cache oc' \<and> cached oc' n (CPair l r) \<and>
            ?l = calculate_loop a st ns oc')"
        proof cases
          case (2 oc1)
          from left [OF 2(1)] consider "?stops ?l" | oc2 where "cache_ok a st oc2" "oc_cache oc1 \<subseteq>\<^sub>m oc_cache oc2"
              "cached oc2 (pfirst a n) l" "?l = calculate_loop a st (n # ns) oc2" unfolding computes_def 2(4) using sub(1) by blast
          then show ?thesis
          proof cases
            case (2 oc2)
            have "computes a st n (CPair l r) oc2" by (rule both [OF 2(1,3) keep [OF \<open>cached oc1 (prest a n) r\<close> 2(2)]])
            then show ?thesis unfolding computes_def 2(4) using \<open>oc_cache oc \<subseteq>\<^sub>m oc_cache oc1\<close> 2(2)
              by (meson map_le_trans)
          qed blast
        qed blast
      qed
    qed
  qed
qed

text \<open>What a caller gets: the value, and nothing only when the stop token lies below the node.\<close>

lemma get_or_calculate_cases:
  assumes "cache_ok a st oc" "rep a n t"
  obtains oc' where "get_or_calculate oc a n st = Some (Ok (if free a st n t then Some (val t) else None), oc')" "cache_ok a st oc'"
proof -
  have nil: "calculate_loop a st [] oc' = Some (Ok (), oc')" for oc' :: "'t ObjectCache" by (subst calculate_loop.simps) simp
  from spec [OF computes_node [OF assms, unfolded computes_def], of "[]"] consider
      oc' where "\<not> free a st n t" "cache_ok a st oc'" "calculate_loop a st [n] oc = Some (Ok (), oc')"
    | oc' where "cache_ok a st oc'" "cached oc' n t" "calculate_loop a st [n] oc = Some (Ok (), oc')"
    unfolding nil by blast
  then show thesis
  proof cases
    case (1 oc')
    then have "get_from_cache oc' n = None" using cache_ok_value [OF 1(2) assms(2)] by (cases "get_from_cache oc' n") auto
    then show thesis using 1 that [of oc'] by (simp add: get_or_calculate_def calculate_def)
  next
    case (2 oc')
    then have "free a st n t" using cache_ok_value [OF 2(1) assms(2)] by (auto simp: cached_def)
    then show thesis using 2 that [of oc'] by (simp add: get_or_calculate_def calculate_def cached_def)
  qed
qed

end

interpretation hash_cache: cached_function "treehash H" "tree_hash H" for H :: "bytes \<Rightarrow> bytes"
  by unfold_locales (auto simp: treehash_def hash_blobs_def rep_sexp_atom rep_atom_bytes rep_sexp_pair split: option.split)

fun slen :: "clvm \<Rightarrow> u64" where
  "slen (CAtom bs) = ucast (serialized_length_atom bs)"
| "slen (CPair l r) = saturating_add (saturating_add 1 (slen l)) (slen r)"

interpretation length_cache: cached_function serialized_length slen
  by unfold_locales (auto simp: serialized_length_def rep_sexp_atom rep_atom_bytes rep_sexp_pair split: option.split)

end
