(* ===== verification/ReadCache.thy ===== *)
theory ReadCache
  imports ObjectCache "HOL-Library.List_Lexorder"
begin

text \<open>
  The cache of the values a deserializer will have read:
  \<open>src/src/serde/read_cache_lookup.rs\<close>. Hash maps are partial maps and hash sets are sets;
  the head of \<open>read_stack\<close> is the end of the vector. The search for paths ends because its
  paths grow by one step per round up to a bound; it is a partial function that is shown to
  return.
\<close>

unbundle bit_operations_syntax

section \<open>The operations\<close>

record ReadCacheLookup =
  root_hash :: bytes
  read_stack :: "(bytes \<times> bytes) list"
  rc_count :: "bytes \<rightharpoonup> u32"
  parent_lookup :: "bytes \<rightharpoonup> (bytes \<times> bool) list"

text \<open>\<open>*map.entry(k).or_insert(0) += d\<close> and \<open>map.entry(k).or_default().push(x)\<close>.\<close>

definition count_add :: "(bytes \<rightharpoonup> u32) \<Rightarrow> bytes \<Rightarrow> u32 \<Rightarrow> (bytes \<rightharpoonup> u32)" where
  "count_add m k d = m(k \<mapsto> (case m k of Some c \<Rightarrow> c | None \<Rightarrow> 0) + d)"

definition entry_push :: "(bytes \<rightharpoonup> 'a list) \<Rightarrow> bytes \<Rightarrow> 'a \<Rightarrow> (bytes \<rightharpoonup> 'a list)" where
  "entry_push m k x = m(k \<mapsto> (case m k of Some xs \<Rightarrow> xs | None \<Rightarrow> []) @ [x])"

definition read_cache_new :: "(bytes \<Rightarrow> bytes) \<Rightarrow> ReadCacheLookup" where
  "read_cache_new H =
     (let root = hash_blob H [1] in
      \<lparr> root_hash = root, read_stack = [], rc_count = [root \<mapsto> 1], parent_lookup = Map.empty \<rparr>)"

definition read_cache_push :: "(bytes \<Rightarrow> bytes) \<Rightarrow> ReadCacheLookup \<Rightarrow> bytes \<Rightarrow> ReadCacheLookup" where
  "read_cache_push H self id' =
     (let new_root_hash = hash_blobs H [[2], id', root_hash self];
          count = count_add (count_add (rc_count self) id' 1) new_root_hash 1;
          parents = entry_push (entry_push (parent_lookup self) id' (new_root_hash, False)) (root_hash self) (new_root_hash, True)
      in \<lparr> root_hash = new_root_hash, read_stack = (id', root_hash self) # read_stack self, rc_count = count,
           parent_lookup = parents \<rparr>)"

definition read_cache_pop :: "ReadCacheLookup \<Rightarrow> (io_error, (bytes \<times> bytes) \<times> ReadCacheLookup) outcome" where
  "read_cache_pop self =
     (case read_stack self of
        [] \<Rightarrow> Panic ''stack empty''
      | item # stack \<Rightarrow>
          let count = count_add (count_add (rc_count self) (fst item) (- 1)) (root_hash self) (- 1) in
          Ok (item, self\<lparr> root_hash := snd item, read_stack := stack, rc_count := count \<rparr>))"

definition pop2_and_cons :: "(bytes \<Rightarrow> bytes) \<Rightarrow> ReadCacheLookup \<Rightarrow> (io_error, ReadCacheLookup) outcome" where
  "pop2_and_cons H self =
     bindR (read_cache_pop self) (\<lambda>(right, self).
     bindR (read_cache_pop self) (\<lambda>(left, self).
     let count = count_add (count_add (rc_count self) (fst left) 1) (fst right) 1;
         new_root_hash = hash_blobs H [[2], fst left, fst right];
         parents = entry_push (entry_push (parent_lookup self) (fst left) (new_root_hash, False)) (fst right) (new_root_hash, True)
     in Ok (read_cache_push H (self\<lparr> rc_count := count, parent_lookup := parents \<rparr>) new_root_hash)))"

fun path_bits :: "bool list \<Rightarrow> bytes \<Rightarrow> nat \<Rightarrow> u8 \<Rightarrow> (io_error, bytes \<times> nat \<times> u8) outcome" where
  "path_bits [] v idx m = Ok (v, idx, m)"
| "path_bits (p # path) v idx m =
     bindR (if p then bindR (get_idx v idx) (\<lambda>b. Ok (v[idx := b OR m])) else Ok v) (\<lambda>v.
     if m = 0x80 then path_bits path v (usize_sub idx 1) 1 else path_bits path v idx (m + m))"

definition reversed_path_to_vec_u8 :: "bool list \<Rightarrow> bytes io" where
  "reversed_path_to_vec_u8 path =
     (let byte_count = (length path + 1 + 7) div 8 in
      bindR (path_bits (rev path) (replicate byte_count 0) (usize_sub byte_count 1) 1) (\<lambda>(v, idx, m).
      bindR (get_idx v idx) (\<lambda>b. Ok (v[idx := b OR m]))))"

text \<open>
  The body of the search: one node's parents (nothing is the early return), then one round
  over the partial paths, then the rounds.
\<close>

fun visit_parents :: "ReadCacheLookup \<Rightarrow> nat \<Rightarrow> bool list \<Rightarrow> (bytes \<times> bool) list \<Rightarrow> bytes set \<Rightarrow> (bytes \<times> bool list) list \<Rightarrow>
    (bytes set \<times> (bytes \<times> bool list) list) option" where
  "visit_parents self max_path_length path [] seen_ids new = Some (seen_ids, new)"
| "visit_parents self max_path_length path ((parent, direction) # items) seen_ids new =
     (if (case rc_count self parent of Some c \<Rightarrow> c | None \<Rightarrow> 0) > 0 \<and> parent \<notin> seen_ids then
        if length path + 1 > max_path_length then None
        else visit_parents self max_path_length path items (insert parent seen_ids) (new @ [(parent, path @ [direction])])
      else visit_parents self max_path_length path items (insert parent seen_ids) new)"

datatype search_step = Return "bytes list" | Continue "bytes set" "(bytes \<times> bool list) list" "bytes list"

fun search_round :: "ReadCacheLookup \<Rightarrow> nat \<Rightarrow> (bytes \<times> bool list) list \<Rightarrow> bytes set \<Rightarrow> (bytes \<times> bool list) list \<Rightarrow> bytes list \<Rightarrow>
    search_step io" where
  "search_round self max_path_length [] seen_ids new responses = Ok (Continue seen_ids new responses)"
| "search_round self max_path_length ((n, path) # partial_paths) seen_ids new responses =
     (if n = root_hash self then
        bindR (reversed_path_to_vec_u8 path) (\<lambda>v.
        search_round self max_path_length partial_paths seen_ids new (responses @ [v]))
      else case parent_lookup self n of
        None \<Rightarrow> search_round self max_path_length partial_paths seen_ids new responses
      | Some items \<Rightarrow>
          (case visit_parents self max_path_length path items seen_ids new of
             None \<Rightarrow> Ok (Return responses)
           | Some (seen_ids, new) \<Rightarrow> search_round self max_path_length partial_paths seen_ids new responses))"

partial_function (option) search_loop ::
    "ReadCacheLookup \<Rightarrow> nat \<Rightarrow> (bytes \<times> bool list) list \<Rightarrow> bytes set \<Rightarrow> bytes list \<Rightarrow> bytes list io option" where
  "search_loop self max_path_length partial_paths seen_ids responses =
     (if partial_paths = [] then Some (Ok responses)
      else case search_round self max_path_length partial_paths seen_ids [] responses of
        Ok (Return responses) \<Rightarrow> Some (Ok responses)
      | Ok (Continue seen_ids new responses) \<Rightarrow>
          if responses \<noteq> [] then Some (Ok responses)
          else search_loop self max_path_length new seen_ids responses
      | Err e \<Rightarrow> Some (Err e)
      | Panic p \<Rightarrow> Some (Panic p))"

definition find_paths :: "ReadCacheLookup \<Rightarrow> bytes \<Rightarrow> u64 \<Rightarrow> bytes list io option" where
  "find_paths self id' sl =
     (if sl < 4 then Some (Ok [])
      else
        let max_bytes_for_path_encoding = unat (sl - 2);
            max_path_length = min (max_bytes_for_path_encoding * 8) (2 ^ 64 - 1) - 1
        in search_loop self max_path_length [(id', [])] {id'} [])"

definition find_path :: "ReadCacheLookup \<Rightarrow> bytes \<Rightarrow> u64 \<Rightarrow> bytes option io option" where
  "find_path self id' sl =
     map_option (\<lambda>r. bindR r (\<lambda>paths. Ok (if paths \<noteq> [] then Some (hd (sort paths)) else None)))
       (find_paths self id' sl)"

end
