(* ===== verification/ReadCacheSpec.thy ===== *)
theory ReadCacheSpec
  imports ReadCache
begin

unbundle bit_operations_syntax

text \<open>
  Every path the read cache returns leads from the deserializer's stack to the value asked
  for. The cache stores only hashes, so this holds as long as the hash function has no
  collision among the values that occur on that stack.
\<close>

section \<open>Paths as bytes\<close>

fun bits_value :: "bool list \<Rightarrow> nat" where
  "bits_value [] = 0"
| "bits_value (b # bs) = of_bool b + 2 * bits_value bs"

definition path_nat :: "bool list \<Rightarrow> nat" where
  "path_nat path = foldl (\<lambda>v d. 2 * v + of_bool d) 1 path"

lemma path_nat_snoc: "path_nat (p @ [d]) = 2 * path_nat p + of_bool d"
  by (simp add: path_nat_def)

lemma path_nat_Nil [simp]: "path_nat [] = 1"
  by (simp add: path_nat_def)

lemma path_nat_bits: "path_nat p = bits_value (rev p) + 2 ^ length p"
  by (induction p rule: rev_induct) (simp_all add: path_nat_snoc)

lemma path_nat_pos: "0 < path_nat p"
  by (simp add: path_nat_bits)

lemma or_bit_table:
  "\<forall>k \<in> set [0..<8]. \<forall>i \<in> set [0..<2 ^ k]. unat ((of_nat i :: u8) OR 2 ^ k) = i + 2 ^ k"
  by code_simp

lemma or_bit: "k < 8 \<Longrightarrow> unat (x :: u8) < 2 ^ k \<Longrightarrow> unat (x OR 2 ^ k) = unat x + 2 ^ k"
  using or_bit_table [rule_format, of k "unat x"] by simp

lemma bit_mask_table: "\<forall>k \<in> set [0..<8]. (2 :: u8) ^ k = 0x80 \<longleftrightarrow> k = 7"
  by code_simp

lemma be_nat_update:
  "i < length v \<Longrightarrow> unat x = unat (v ! i) + d \<Longrightarrow> be_nat (v[i := x]) = be_nat v + d * 256 ^ (length v - 1 - i)"
proof (induction v arbitrary: i)
  case (Cons b v)
  then show ?case by (cases i) (simp_all add: be_nat_Cons algebra_simps)
qed simp

lemma set_bit_value:
  assumes "i < length v" "k < 8" "unat (v ! i) < 2 ^ k"
  shows "be_nat (v[i := v ! i OR 2 ^ k]) = be_nat v + 2 ^ k * 256 ^ (length v - 1 - i)"
  by (rule be_nat_update [OF assms(1)]) (rule or_bit [OF assms(2,3)])

lemma path_bits_value:
  assumes "idx < length v" "k < 8" "unat (v ! idx) < 2 ^ k" "\<forall>i < idx. v ! i = 0" "length bits + k < 8 * (idx + 1)"
  shows "\<exists>v' idx' m'. path_bits bits v idx (2 ^ k) = Ok (v', idx', m') \<and> idx' < length v' \<and> length v' = length v \<and>
    be_nat (v'[idx' := v' ! idx' OR m']) =
      be_nat v + (bits_value bits + 2 ^ length bits) * 2 ^ k * 256 ^ (length v - 1 - idx)"
  using assms
proof (induction bits arbitrary: v idx k)
  case Nil
  then show ?case using set_bit_value [of idx v k] by simp
next
  case (Cons p bits)
  define v1 where "v1 = (if p then v[idx := v ! idx OR 2 ^ k] else v)"
  define W where "W = (256 :: nat) ^ (length v - 1 - idx)"
  have v1: "length v1 = length v" "\<forall>i < idx. v1 ! i = 0" "be_nat v1 = be_nat v + of_bool p * 2 ^ k * W"
    using Cons.prems set_bit_value [OF Cons.prems(1-3)] by (simp_all add: v1_def W_def)
  have mask: "(2 :: u8) ^ k = 0x80 \<longleftrightarrow> k = 7" using bit_mask_table Cons.prems(2) by simp
  have step: "path_bits (p # bits) v idx (2 ^ k) =
      (if k = 7 then path_bits bits v1 (usize_sub idx 1) 1 else path_bits bits v1 idx (2 ^ Suc k))"
    using Cons.prems(1) by (simp add: v1_def mask)
  show ?case
  proof (cases "k = 7")
    case True
    then have idx: "0 < idx" using Cons.prems(5) by simp
    have IH: "\<exists>v' idx' m'. path_bits bits v1 (idx - 1) (2 ^ 0) = Ok (v', idx', m') \<and> idx' < length v' \<and> length v' = length v1 \<and>
        be_nat (v'[idx' := v' ! idx' OR m']) =
          be_nat v1 + (bits_value bits + 2 ^ length bits) * 2 ^ 0 * 256 ^ (length v1 - 1 - (idx - 1))"
      using Cons.prems idx v1 True by (intro Cons.IH) auto
    have "(256 :: nat) ^ (length v1 - 1 - (idx - 1)) = 256 * W"
      unfolding W_def v1(1) using idx Cons.prems(1) by (simp add: Suc_diff_Suc flip: power_Suc)
    then show ?thesis using IH idx v1(1,3) True unfolding step W_def [symmetric] by (simp add: usize_sub_def algebra_simps)
  next
    case False
    have lt: "unat (v1 ! idx) < 2 ^ Suc k"
      using Cons.prems(1,3) or_bit [OF Cons.prems(2,3)] by (auto simp: v1_def)
    have IH: "\<exists>v' idx' m'. path_bits bits v1 idx (2 ^ Suc k) = Ok (v', idx', m') \<and> idx' < length v' \<and> length v' = length v1 \<and>
        be_nat (v'[idx' := v' ! idx' OR m']) =
          be_nat v1 + (bits_value bits + 2 ^ length bits) * 2 ^ Suc k * 256 ^ (length v1 - 1 - idx)"
      using Cons.prems False v1 lt by (intro Cons.IH) auto
    show ?thesis using IH [unfolded v1(1), folded W_def] v1(1,3) False unfolding step W_def [symmetric] by (simp add: algebra_simps)
  qed
qed

lemma reversed_path_value:
  "\<exists>v. reversed_path_to_vec_u8 path = Ok v \<and> be_nat v = path_nat path \<and> length v = length path div 8 + 1"
proof -
  define n where "n = (length path + 1 + 7) div 8"
  have n: "0 < n" "length path < 8 * n" "n = length path div 8 + 1" by (simp_all add: n_def)
  have "\<exists>v' idx' m'. path_bits (rev path) (replicate n 0) (n - 1) (2 ^ 0) = Ok (v', idx', m') \<and>
      idx' < length v' \<and> length v' = length (replicate n (0 :: u8)) \<and>
      be_nat (v'[idx' := v' ! idx' OR m']) = be_nat (replicate n 0) +
        (bits_value (rev path) + 2 ^ length (rev path)) * 2 ^ 0 * 256 ^ (length (replicate n (0 :: u8)) - 1 - (n - 1))"
    using n(1,2) by (intro path_bits_value) auto
  moreover have "be_nat (replicate n 0) = 0" by (induction n) (simp_all add: be_nat_Cons)
  ultimately obtain v' idx' m' where v': "path_bits (rev path) (replicate n 0) (n - 1) 1 = Ok (v', idx', m')"
      "idx' < length v'" "length v' = n" "be_nat (v'[idx' := v' ! idx' OR m']) = path_nat path"
    by (auto simp: path_nat_bits)
  have "usize_sub n 1 = n - 1" using n(1) by (simp add: usize_sub_def)
  then have "reversed_path_to_vec_u8 path = Ok (v'[idx' := v' ! idx' OR m'])"
    unfolding reversed_path_to_vec_u8_def Let_def n_def [symmetric] using v' by simp
  then show ?thesis using v'(3,4) n(3) by simp
qed

section \<open>Values without hash collisions\<close>

text \<open>
  A set of values that contains the parts of its members and on which the tree hash is
  injective.
\<close>

locale hash_universe =
  fixes H :: "bytes \<Rightarrow> bytes" and U :: "clvm set"
  assumes parts: "CPair l r \<in> U \<Longrightarrow> l \<in> U \<and> r \<in> U"
    and collision_free: "inj_on (tree_hash H) U"
begin

lemma same_hash: "s \<in> U \<Longrightarrow> t \<in> U \<Longrightarrow> tree_hash H s = tree_hash H t \<Longrightarrow> s = t"
  using collision_free by (auto dest: inj_onD)

fun stack_hashes :: "clvm \<Rightarrow> (bytes \<times> bytes) list \<Rightarrow> bool" where
  "stack_hashes (CAtom bs) stk \<longleftrightarrow> bs = [] \<and> stk = []"
| "stack_hashes (CPair x vs) stk \<longleftrightarrow> (\<exists>stk'. stk = (tree_hash H x, tree_hash H vs) # stk' \<and> stack_hashes vs stk')"

definition parent_ok :: "bytes \<Rightarrow> bytes \<times> bool \<Rightarrow> bool" where
  "parent_ok n e \<longleftrightarrow> (\<exists>l r. CPair l r \<in> U \<and> fst e = tree_hash H (CPair l r) \<and> n = tree_hash H (if snd e then r else l))"

definition parents_ok :: "(bytes \<rightharpoonup> (bytes \<times> bool) list) \<Rightarrow> bool" where
  "parents_ok m \<longleftrightarrow> (\<forall>n es. m n = Some es \<longrightarrow> list_all (parent_ok n) es)"

definition cache_inv :: "clvm \<Rightarrow> ReadCacheLookup \<Rightarrow> bool" where
  "cache_inv vs rc \<longleftrightarrow>
     vs \<in> U \<and> root_hash rc = tree_hash H vs \<and> stack_hashes vs (read_stack rc) \<and> parents_ok (parent_lookup rc)"

lemma parents_ok_push: "parents_ok m \<Longrightarrow> parent_ok n e \<Longrightarrow> parents_ok (entry_push m n e)"
  by (auto simp: parents_ok_def entry_push_def split: option.splits)

lemma parent_okI:
  "CPair l r \<in> U \<Longrightarrow> parent_ok (tree_hash H l) (tree_hash H (CPair l r), False)"
  "CPair l r \<in> U \<Longrightarrow> parent_ok (tree_hash H r) (tree_hash H (CPair l r), True)"
  by (force simp: parent_ok_def)+

lemma hash_blobs_pair: "hash_blobs H [[2], tree_hash H l, tree_hash H r] = tree_hash H (CPair l r)"
  by (simp add: hash_blobs_def)

lemma cache_inv_new: "CAtom [] \<in> U \<Longrightarrow> cache_inv (CAtom []) (read_cache_new H)"
  by (simp add: cache_inv_def read_cache_new_def hash_blob_def parents_ok_def Let_def)

lemma cache_inv_push:
  assumes "cache_inv vs rc" "CPair t vs \<in> U"
  shows "cache_inv (CPair t vs) (read_cache_push H rc (tree_hash H t))"
  using assms unfolding cache_inv_def read_cache_push_def Let_def
  by (auto simp: hash_blobs_pair simp del: tree_hash.simps intro!: parents_ok_push parent_okI)

lemma pop_top:
  assumes "cache_inv (CPair t vs) rc"
  obtains rc' where "read_cache_pop rc = Ok ((tree_hash H t, tree_hash H vs), rc')" "cache_inv vs rc'"
  using assms parts [of t vs] by (auto simp: cache_inv_def read_cache_pop_def Let_def simp del: tree_hash.simps)

lemma pop2_and_cons_inv:
  assumes "cache_inv (CPair r (CPair l vs)) rc" "CPair (CPair l r) vs \<in> U"
  obtains rc' where "pop2_and_cons H rc = Ok rc'" "cache_inv (CPair (CPair l r) vs) rc'"
proof -
  obtain rc1 where rc1: "read_cache_pop rc = Ok ((tree_hash H r, tree_hash H (CPair l vs)), rc1)" "cache_inv (CPair l vs) rc1"
    by (rule pop_top [OF assms(1)])
  obtain rc2 where rc2: "read_cache_pop rc1 = Ok ((tree_hash H l, tree_hash H vs), rc2)" "cache_inv vs rc2"
    by (rule pop_top [OF rc1(2)])
  have pair: "CPair l r \<in> U" using parts [OF assms(2)] by simp
  define rc3 where "rc3 = rc2\<lparr> rc_count := count_add (count_add (rc_count rc2) (tree_hash H l) 1) (tree_hash H r) 1,
      parent_lookup := entry_push (entry_push (parent_lookup rc2) (tree_hash H l) (tree_hash H (CPair l r), False))
        (tree_hash H r) (tree_hash H (CPair l r), True) \<rparr>"
  have "cache_inv vs rc3" using rc2(2) pair
    by (auto simp: cache_inv_def rc3_def simp del: tree_hash.simps intro!: parents_ok_push parent_okI)
  then have "cache_inv (CPair (CPair l r) vs) (read_cache_push H rc3 (tree_hash H (CPair l r)))" by (rule cache_inv_push [OF _ assms(2)])
  moreover have "pop2_and_cons H rc = Ok (read_cache_push H rc3 (tree_hash H (CPair l r)))"
    using rc1(1) rc2(1) by (simp add: pop2_and_cons_def Let_def hash_blobs_pair rc3_def del: tree_hash.simps)
  ultimately show thesis by (rule that [rotated])
qed

section \<open>The search\<close>

text \<open>
  A partial path is sound for the hash \<open>n\<close> it has reached when it leads from every value
  with that hash to the value looked for.
\<close>

definition path_sound :: "clvm \<Rightarrow> bytes \<times> bool list \<Rightarrow> bool" where
  "path_sound t np \<longleftrightarrow>
     (\<forall>s \<in> U. tree_hash H s = fst np \<longrightarrow> cpath (path_nat (snd np)) s = Inr t)"

lemma cpath_snoc: "cpath (path_nat (p @ [d])) (CPair l r) = cpath (path_nat p) (if d then r else l)"
  using path_nat_pos [of p] by (subst cpath.simps) (simp add: path_nat_snoc)

lemma path_sound_step:
  assumes "path_sound t (n, p)" "parent_ok n (parent, d)"
  shows "path_sound t (parent, p @ [d])"
  unfolding path_sound_def
proof (intro ballI impI)
  fix s assume s: "s \<in> U" "tree_hash H s = fst (parent, p @ [d])"
  obtain l r where lr: "CPair l r \<in> U" "parent = tree_hash H (CPair l r)" "n = tree_hash H (if d then r else l)"
    using assms(2) by (auto simp: parent_ok_def)
  then have "s = CPair l r" using same_hash [OF s(1) lr(1)] s(2) by simp
  moreover have "(if d then r else l) \<in> U" using parts [OF lr(1)] by simp
  ultimately show "cpath (path_nat (snd (parent, p @ [d]))) s = Inr t"
    using assms(1) lr(3) by (simp add: cpath_snoc path_sound_def)
qed

lemma visit_parents_sound:
  assumes "path_sound t (n, p)" "list_all (parent_ok n) items" "list_all (\<lambda>np. path_sound t np \<and> length (snd np) = Suc (length p)) new"
    "visit_parents rc mx p items seen new = Some (seen', new')"
  shows "list_all (\<lambda>np. path_sound t np \<and> length (snd np) = Suc (length p)) new' \<and> (new' \<noteq> new \<longrightarrow> length p < mx)"
  using assms
proof (induction rc mx p items seen new rule: visit_parents.induct)
  case (2 rc mx p parent d items seen new)
  have s: "path_sound t (parent, p @ [d])" using 2(3,4) path_sound_step by simp
  show ?case
  proof (cases "(case rc_count rc parent of None \<Rightarrow> 0 | Some c \<Rightarrow> c) > 0 \<and> parent \<notin> seen")
    case True
    then have "\<not> length p + 1 > mx" using 2(6) by (auto split: if_splits)
    with True s 2(1) [OF True] 2(3-6) show ?thesis by simp
  next
    case False
    with 2(2) [OF False] 2(3-6) show ?thesis by simp
  qed
qed simp

definition steps :: "clvm \<Rightarrow> nat \<Rightarrow> (bytes \<times> bool list) list \<Rightarrow> bool" where
  "steps t k nps \<longleftrightarrow> list_all (\<lambda>np. path_sound t np \<and> length (snd np) = k) nps"

definition answers :: "nat \<Rightarrow> clvm \<Rightarrow> clvm \<Rightarrow> bytes list \<Rightarrow> bool" where
  "answers mx vs t vss \<longleftrightarrow>
     list_all (\<lambda>v. \<exists>p. length p \<le> mx \<and> be_nat v = path_nat p \<and> length v = length p div 8 + 1 \<and> cpath (path_nat p) vs = Inr t) vss"

lemma search_round_sound:
  assumes "cache_inv vs rc" "steps t k pps" "steps t (Suc k) new" "answers mx vs t resp" "k \<le> mx"
  shows "\<exists>st. search_round rc mx pps seen new resp = Ok st \<and>
    (case st of Return resp' \<Rightarrow> answers mx vs t resp'
     | Continue seen' new' resp' \<Rightarrow> answers mx vs t resp' \<and> steps t (Suc k) new' \<and> (new' \<noteq> new \<longrightarrow> k < mx))"
  using assms(2-4)
proof (induction pps arbitrary: seen new resp)
  case (Cons np pps)
  obtain n p where np: "np = (n, p)" by fastforce
  have sound: "path_sound t (n, p)" "length p = k" and pps: "steps t k pps" using Cons.prems(1) np by (auto simp: steps_def)
  consider "n = root_hash rc" | "n \<noteq> root_hash rc" "parent_lookup rc n = None"
    | items where "n \<noteq> root_hash rc" "parent_lookup rc n = Some items" by (cases "parent_lookup rc n") auto
  then show ?case
  proof cases
    case 1
    obtain v where v: "reversed_path_to_vec_u8 p = Ok v" "be_nat v = path_nat p" "length v = length p div 8 + 1"
      using reversed_path_value by blast
    have "cpath (path_nat p) vs = Inr t" using sound(1) 1 assms(1) by (simp add: path_sound_def cache_inv_def)
    then have "answers mx vs t (resp @ [v])" using Cons.prems(3) v sound(2) assms(5) by (auto simp: answers_def)
    then show ?thesis using Cons.IH [OF pps Cons.prems(2), of "resp @ [v]" seen] 1 v(1) np by simp
  next
    case 2
    then show ?thesis using Cons.IH [OF pps Cons.prems(2,3), of seen] np by simp
  next
    case (3 items)
    show ?thesis
    proof (cases "visit_parents rc mx p items seen new")
      case None
      then show ?thesis using 3 np Cons.prems(3) by simp
    next
      case (Some sn)
      obtain seen1 new1 where sn: "sn = (seen1, new1)" by fastforce
      have "list_all (parent_ok n) items" using assms(1) 3(2) by (auto simp: cache_inv_def parents_ok_def)
      from visit_parents_sound [OF sound(1) this _ Some [unfolded sn]] Cons.prems(2) sound(2)
      have new1: "steps t (Suc k) new1" "new1 \<noteq> new \<longrightarrow> k < mx" by (auto simp: steps_def)
      have eq: "search_round rc mx (np # pps) seen new resp = search_round rc mx pps seen1 new1 resp" using 3 np Some sn by simp
      from Cons.IH [OF pps new1(1) Cons.prems(3), of seen1] new1(2) show ?thesis unfolding eq
        by (auto split: search_step.splits)
    qed
  qed
qed simp

lemma search_loop_sound:
  assumes "cache_inv vs rc" "steps t k pps" "pps = [] \<or> k \<le> mx" "answers mx vs t resp"
  shows "\<exists>resp'. search_loop rc mx pps seen resp = Some (Ok resp') \<and> answers mx vs t resp'"
  using assms(2-4)
proof (induction "Suc mx - k" arbitrary: k pps seen resp rule: less_induct)
  case less
  show ?case
  proof (cases "pps = []")
    case True
    then show ?thesis using less.prems(3) by (subst search_loop.simps) simp
  next
    case False
    obtain st where st: "search_round rc mx pps seen [] resp = Ok st"
        "case st of Return resp' \<Rightarrow> answers mx vs t resp'
         | Continue seen' new' resp' \<Rightarrow> answers mx vs t resp' \<and> steps t (Suc k) new' \<and> (new' \<noteq> [] \<longrightarrow> k < mx)"
      using search_round_sound [OF assms(1) less.prems(1) _ less.prems(3), of "[]" seen] False less.prems(2) by (auto simp: steps_def)
    show ?thesis
    proof (cases st)
      case (Return resp')
      then show ?thesis using st False by (subst search_loop.simps) simp
    next
      case (Continue seen' new' resp')
      have "Suc mx - Suc k < Suc mx - k" using False less.prems(2) by simp
      then have "\<exists>resp''. search_loop rc mx new' seen' resp' = Some (Ok resp'') \<and> answers mx vs t resp''"
        using less.hyps [of "Suc k" new' resp' seen'] st(2) Continue by auto
      then show ?thesis using st Continue False by (subst search_loop.simps) auto
    qed
  qed
qed

lemma find_path_sound:
  assumes "cache_inv vs rc" "t \<in> U"
  obtains r where "find_path rc (tree_hash H t) sl = Some (Ok r)"
    "\<And>v. r = Some v \<Longrightarrow> \<exists>p. be_nat v = path_nat p \<and> length v = length p div 8 + 1 \<and> cpath (path_nat p) vs = Inr t"
    "\<And>v. r = Some v \<Longrightarrow> 4 \<le> unat sl \<and> length v \<le> unat sl - 2"
proof -
  let ?mx = "min (unat (sl - 2) * 8) (2 ^ 64 - 1) - 1"
  have "path_sound t (tree_hash H t, [])" using same_hash assms(2) by (auto simp: path_sound_def cpath.simps [of "Suc 0"])
  then have "steps t 0 [(tree_hash H t, [])]" by (simp add: steps_def)
  from search_loop_sound [OF assms(1) this, of ?mx "[]" "{tree_hash H t}"]
  have "\<exists>resp. find_paths rc (tree_hash H t) sl = Some (Ok resp) \<and> answers ?mx vs t resp \<and> (sl < 4 \<longrightarrow> resp = [])"
    by (auto simp: find_paths_def Let_def answers_def)
  then obtain resp where resp: "find_paths rc (tree_hash H t) sl = Some (Ok resp)" "answers ?mx vs t resp" "sl < 4 \<longrightarrow> resp = []" by blast
  have hd: "hd (sort resp) \<in> set resp" if "resp \<noteq> []" using that by (metis hd_in_set set_empty set_sort)
  have small: "4 \<le> unat sl \<and> length v \<le> unat sl - 2" if "resp \<noteq> []" "length v = length p div 8 + 1" "length p \<le> ?mx" for p :: "bool list" and v :: bytes
  proof -
    have "4 \<le> unat sl" using resp(3) that(1) by (auto simp: word_less_nat_alt)
    then have "unat (sl - 2) = unat sl - 2" by (simp add: unat_sub word_le_nat_alt)
    with that(2,3) \<open>4 \<le> unat sl\<close> show ?thesis by auto
  qed
  show thesis
  proof (rule that)
    show "find_path rc (tree_hash H t) sl = Some (Ok (if resp \<noteq> [] then Some (hd (sort resp)) else None))"
      using resp(1) by (simp add: find_path_def)
    show "\<exists>p. be_nat v = path_nat p \<and> length v = length p div 8 + 1 \<and> cpath (path_nat p) vs = Inr t"
      "4 \<le> unat sl \<and> length v \<le> unat sl - 2"
      if "(if resp \<noteq> [] then Some (hd (sort resp)) else None) = Some v" for v
      using hd resp(2) that small [of v] by (auto simp: answers_def list_all_iff split: if_splits)
  qed
qed

end

text \<open>The bits of a path are at most the height of the value it leads into.\<close>

fun height :: "clvm \<Rightarrow> nat" where
  "height (CAtom bs) = 0"
| "height (CPair l r) = Suc (max (height l) (height r))"

lemma cpath_height: "cpath (path_nat p) s = Inr u \<Longrightarrow> length p \<le> height s"
proof (induction p arbitrary: s rule: rev_induct)
  case (snoc d p)
  have "2 \<le> path_nat (p @ [d])" using path_nat_pos [of p] by (simp add: path_nat_snoc)
  with snoc.prems obtain l r where s: "s = CPair l r" by (cases s) (auto simp: cpath.simps [of "path_nat (p @ [d])"])
  have "cpath (path_nat p) (if d then r else l) = Inr u"
    using snoc.prems path_nat_pos [of p] unfolding s by (subst (asm) cpath.simps) (simp add: path_nat_snoc)
  from snoc.IH [OF this] show ?case unfolding s by (simp split: if_splits)
qed simp

end
