(* ===== verification/SerBr.thy ===== *)
theory SerBr
  imports ReadCacheSpec
begin

text \<open>
  Serialization with back-references: \<open>src/src/serde/ser_br.rs\<close>. The loop writes a node
  either as a back-reference to an equal value the deserializer will have read by then, or
  as an atom, or as a pair, and keeps the read cache in step with the deserializer's stack.
\<close>

section \<open>The operations\<close>

datatype ReadOp = RParse | RCons

text \<open>A call inside the loop that returns an outcome and the updated object it is called on.\<close>

definition callO :: "('x io \<times> 's) option \<Rightarrow> 'w \<Rightarrow> ('x \<Rightarrow> 's \<Rightarrow> ('b io \<times> 'w) option) \<Rightarrow> ('b io \<times> 'w) option" where
  "callO m f k = (case m of
     None \<Rightarrow> None
   | Some (Ok x, s) \<Rightarrow> k x s
   | Some (Err e, s) \<Rightarrow> Some (Err e, f)
   | Some (Panic p, s) \<Rightarrow> Some (Panic p, f))"

lemma callO_Ok [simp]: "callO (Some (Ok x, s)) f k = k x s"
  by (simp add: callO_def)

lemma callO_mono [partial_function_mono]:
  assumes "\<And>x s. mono_option (\<lambda>f. K f x s)"
  shows "mono_option (\<lambda>f. callO m w (K f))"
proof (cases m)
  case (Some rs)
  obtain r s where rs: "rs = (r, s)" by fastforce
  show ?thesis using assms by (cases r) (auto simp: Some rs callO_def intro: option.const_mono)
qed (auto simp: callO_def intro: option.const_mono)

fun close_conses :: "(bytes \<Rightarrow> bytes) \<Rightarrow> ReadOp list \<Rightarrow> ReadCacheLookup \<Rightarrow> (ReadOp list \<times> ReadCacheLookup) io" where
  "close_conses H [] rc = Ok ([], rc)"
| "close_conses H (RParse # ops) rc = Ok (RParse # ops, rc)"
| "close_conses H (RCons # ops) rc = bindR (pop2_and_cons H rc) (close_conses H ops)"

partial_function (option) backrefs_loop ::
    "(bytes \<Rightarrow> bytes) \<Rightarrow> 'w write_all \<Rightarrow> Allocator \<Rightarrow> NodePtr list \<Rightarrow> ReadOp list \<Rightarrow> ReadCacheLookup \<Rightarrow>
     bytes ObjectCache \<Rightarrow> u64 ObjectCache \<Rightarrow> 'w \<Rightarrow> (unit io \<times> 'w) option" where
  "backrefs_loop H wr a write_stack read_op_stack rc thc slc f =
     (case write_stack of
        [] \<Rightarrow> Some (Ok (), f)
      | n # write_stack \<Rightarrow>
       (case read_op_stack of
          RParse # read_op_stack \<Rightarrow>
            callO (get_or_calculate slc a n None) f (\<lambda>len slc.
            case len of None \<Rightarrow> Some (Panic ''couldn't calculate serialized length'', f) | Some node_serialized_length \<Rightarrow>
            callO (get_or_calculate thc a n None) f (\<lambda>hash thc.
            case hash of None \<Rightarrow> Some (Panic ''can't get treehash'', f) | Some node_tree_hash \<Rightarrow>
            callO (map_option (\<lambda>r. (r, ())) (find_path rc node_tree_hash node_serialized_length)) f (\<lambda>found _.
            case found of
              Some path \<Rightarrow>
                tryP (tryS (wr f [BACK_REFERENCE]) (\<lambda>_ f. write_atom wr f path)) (\<lambda>_ f.
                tryP (close_conses H read_op_stack (read_cache_push H rc node_tree_hash), f) (\<lambda>(read_op_stack, rc) f.
                backrefs_loop H wr a write_stack read_op_stack rc thc slc f))
            | None \<Rightarrow>
                tryP (sexp a n, f) (\<lambda>s f. case s of
                  SPair left right \<Rightarrow>
                    tryP (wr f [CONS_BOX_MARKER]) (\<lambda>_ f.
                    tryP (close_conses H (RParse # RParse # RCons # read_op_stack) rc, f) (\<lambda>(read_op_stack, rc) f.
                    backrefs_loop H wr a (left # right # write_stack) read_op_stack rc thc slc f))
                | SAtom \<Rightarrow>
                    tryP (tryR (atom_bytes a n) f (write_atom wr f)) (\<lambda>_ f.
                    tryP (close_conses H read_op_stack (read_cache_push H rc node_tree_hash), f) (\<lambda>(read_op_stack, rc) f.
                    backrefs_loop H wr a write_stack read_op_stack rc thc slc f))))))
        | _ \<Rightarrow> Some (Panic ''assertion failed: op == Some(ReadOp::Parse)'', f)))"

definition node_to_stream_backrefs ::
    "(bytes \<Rightarrow> bytes) \<Rightarrow> 'w write_all \<Rightarrow> Allocator \<Rightarrow> NodePtr \<Rightarrow> 'w \<Rightarrow> (unit io \<times> 'w) option" where
  "node_to_stream_backrefs H wr a n f =
     backrefs_loop H wr a [n] [RParse] (read_cache_new H) (object_cache_new (treehash H))
       (object_cache_new serialized_length) f"

definition node_to_bytes_backrefs_limit :: "(bytes \<Rightarrow> bytes) \<Rightarrow> Allocator \<Rightarrow> NodePtr \<Rightarrow> nat \<Rightarrow> bytes io option" where
  "node_to_bytes_backrefs_limit H a n limit =
     map_option (\<lambda>(r, w). bindR r (\<lambda>_. Ok (into_inner w)))
       (node_to_stream_backrefs H (limited_write_all vec_write_all) a n (limited_writer_new [] limit))"

definition node_to_bytes_backrefs :: "(bytes \<Rightarrow> bytes) \<Rightarrow> Allocator \<Rightarrow> NodePtr \<Rightarrow> bytes io option" where
  "node_to_bytes_backrefs H a n =
     map_option (\<lambda>(r, buffer). bindR r (\<lambda>_. Ok buffer)) (node_to_stream_backrefs H vec_write_all a n [])"

section \<open>Writing in steps\<close>

context byte_sink
begin

text \<open>\<open>emits s K K'\<close>: the computation \<open>K\<close> writes \<open>s\<close> and then goes on as \<open>K'\<close>.\<close>

definition emits :: "bytes \<Rightarrow> ('w \<Rightarrow> (unit io \<times> 'w) option) \<Rightarrow> ('w \<Rightarrow> (unit io \<times> 'w) option) \<Rightarrow> bool" where
  "emits s K K' \<longleftrightarrow> (\<forall>f. \<exists>m. puts f s m \<and> K f = tryP m (\<lambda>_. K'))"

lemma emitsI: "(\<And>f. K f = tryP (m f) (\<lambda>_. K')) \<Longrightarrow> (\<And>f. puts f s (m f)) \<Longrightarrow> emits s K K'"
  unfolding emits_def by blast

lemma emits_trans:
  assumes "emits s K K1" "emits s' K1 K2"
  shows "emits (s @ s') K K2"
proof -
  obtain m1 where m1: "\<And>f. puts f s (m1 f)" "\<And>f. K f = tryP (m1 f) (\<lambda>_. K1)" using assms(1) unfolding emits_def by metis
  obtain m2 where m2: "\<And>f. puts f s' (m2 f)" "\<And>f. K1 f = tryP (m2 f) (\<lambda>_. K2)" using assms(2) unfolding emits_def by metis
  show ?thesis
  proof (rule emitsI [where m = "\<lambda>f. tryS (m1 f) (\<lambda>_. m2)"])
    have "K1 = (\<lambda>s. tryP (m2 s) (\<lambda>_. K2))" using m2(2) by (rule ext)
    then show "K f = tryP (tryS (m1 f) (\<lambda>_. m2)) (\<lambda>_. K2)" for f by (simp add: m1(2) tryP_tryS)
    show "puts f (s @ s') (tryS (m1 f) (\<lambda>_. m2))" for f by (rule puts_seq [OF m1(1)]) (rule m2(1))
  qed
qed

lemma emits_end: "emits s K (\<lambda>f. Some (Ok (), f)) \<Longrightarrow> \<exists>m. K f = Some m \<and> puts f s m"
proof -
  assume "emits s K (\<lambda>f. Some (Ok (), f))"
  then obtain m where m: "puts f s m" "K f = tryP m (\<lambda>_ f. Some (Ok (), f))" unfolding emits_def by blast
  have "tryP m (\<lambda>_ f. Some (Ok (), f)) = Some m" by (cases m, cases "fst m") auto
  with m show ?thesis by simp
qed

end

section \<open>Correctness\<close>

text \<open>
  The serialization as a recursive function of the value: what is written for \<open>t\<close> when the
  read cache is \<open>rc\<close>, and the read cache afterwards.
\<close>

fun br_write :: "(bytes \<Rightarrow> bytes) \<Rightarrow> clvm \<Rightarrow> ReadCacheLookup \<Rightarrow> (bytes \<times> ReadCacheLookup) option" where
  "br_write H t rc =
     (case find_path rc (tree_hash H t) (slen t) of
        Some (Ok (Some path)) \<Rightarrow> Some (BACK_REFERENCE # atom_ser path, read_cache_push H rc (tree_hash H t))
      | Some (Ok None) \<Rightarrow>
          (case t of
             CAtom bs \<Rightarrow> Some (atom_ser bs, read_cache_push H rc (tree_hash H t))
           | CPair l r \<Rightarrow>
               (case br_write H l rc of
                  None \<Rightarrow> None
                | Some (sl, rc) \<Rightarrow>
                    (case br_write H r rc of
                       None \<Rightarrow> None
                     | Some (sr, rc) \<Rightarrow>
                         (case pop2_and_cons H rc of
                            Ok rc \<Rightarrow> Some (CONS_BOX_MARKER # sl @ sr, rc)
                          | _ \<Rightarrow> None))))
      | _ \<Rightarrow> None)"

declare br_write.simps [simp del]

definition br_ser :: "(bytes \<Rightarrow> bytes) \<Rightarrow> clvm \<Rightarrow> bytes" where
  "br_ser H t = (case br_write H t (read_cache_new H) of Some (s, _) \<Rightarrow> s | None \<Rightarrow> [])"

lemma br_write_found:
  "find_path rc (tree_hash H t) (slen t) = Some (Ok (Some v)) \<Longrightarrow>
   br_write H t rc = Some (BACK_REFERENCE # atom_ser v, read_cache_push H rc (tree_hash H t))"
  by (subst br_write.simps) simp

lemma br_write_atom:
  "find_path rc (tree_hash H (CAtom bs)) (slen (CAtom bs)) = Some (Ok None) \<Longrightarrow>
   br_write H (CAtom bs) rc = Some (atom_ser bs, read_cache_push H rc (tree_hash H (CAtom bs)))"
  by (subst br_write.simps) simp

lemma br_write_pair:
  "find_path rc (tree_hash H (CPair l r)) (slen (CPair l r)) = Some (Ok None) \<Longrightarrow> br_write H l rc = Some (sl, rc1) \<Longrightarrow>
   br_write H r rc1 = Some (sr, rc2) \<Longrightarrow> pop2_and_cons H rc2 = Ok rc3 \<Longrightarrow>
   br_write H (CPair l r) rc = Some (CONS_BOX_MARKER # sl @ sr, rc3)"
  by (subst br_write.simps) simp

fun subtrees :: "clvm \<Rightarrow> clvm set" where
  "subtrees (CAtom bs) = {CAtom bs}"
| "subtrees (CPair l r) = insert (CPair l r) (subtrees l \<union> subtrees r)"

text \<open>The stacks of the deserializer while it reads \<open>t\<close> with \<open>vs\<close> read before.\<close>

fun stacks :: "clvm \<Rightarrow> clvm \<Rightarrow> clvm set" where
  "stacks vs (CAtom bs) = {CPair (CAtom bs) vs}"
| "stacks vs (CPair l r) = insert (CPair (CPair l r) vs) (stacks vs l \<union> stacks (CPair l vs) r)"

lemma stacks_top: "CPair t vs \<in> stacks vs t"
  by (cases t) auto

text \<open>The saturating length is no longer than the plain serialization.\<close>

lemma serialized_length_atom_le: "unat (serialized_length_atom buf) \<le> length (atom_ser buf)"
proof (cases "length buf < 2 ^ 32 - 5")
  case False
  have "unat (serialized_length_atom buf) < 2 ^ LENGTH(32)" by (rule unsigned_less)
  also have "\<dots> \<le> length (atom_ser buf)" using False by (simp add: length_atom_ser shortest_prefix_def)
  finally show ?thesis by simp
qed (simp add: serialized_length_atom_eq)

lemma saturating_add_le: "unat (saturating_add x y) \<le> unat x + unat y"
proof (cases "unat x + unat y < 2 ^ 64")
  case False
  have "unat (- 1 :: u64) < 2 ^ LENGTH(64)" by (rule unsigned_less)
  then show ?thesis using False by (simp add: saturating_add_def)
qed (simp add: saturating_add_def unat_word_ariths(1))

lemma slen_le: "unat (slen t) \<le> length (cser t)"
proof (induction t)
  case (CAtom bs)
  have "unat (ucast (serialized_length_atom bs) :: u64) \<le> unat (serialized_length_atom bs)"
    unfolding unsigned_ucast_eq by (rule take_bit_nat_less_eq_self)
  then show ?case using serialized_length_atom_le [of bs] by simp
next
  case (CPair l r)
  then show ?case using saturating_add_le [of "saturating_add 1 (slen l)" "slen r"] saturating_add_le [of 1 "slen l"] by simp
qed

text \<open>
  The size of a back-reference to a value of saturating length \<open>sl\<close>: it may be longer than
  the value, by the bytes of the length prefix of a path of 64 bytes and more.
\<close>

definition ref_size :: "clvm set \<Rightarrow> nat \<Rightarrow> bytes \<Rightarrow> bool" where
  "ref_size U sl s \<longleftrightarrow> length s \<le> 2 * sl \<and> ((\<forall>u \<in> U. height u < 504) \<longrightarrow> length s \<le> sl)"

lemma ref_size_mono: "ref_size U sl s \<Longrightarrow> sl \<le> sl' \<Longrightarrow> ref_size U sl' s"
  by (auto simp: ref_size_def)

lemma ref_size_ref:
  assumes "4 \<le> sl" "length v \<le> sl - 2" "(\<forall>u \<in> U. height u < 504) \<longrightarrow> length v < 64"
  shows "ref_size U sl (BACK_REFERENCE # atom_ser v)"
  using assms by (auto simp: ref_size_def length_atom_ser shortest_prefix_def split: if_splits)

lemma ref_size_pair: "ref_size U (length (cser l)) sl \<Longrightarrow> ref_size U (length (cser r)) sr \<Longrightarrow>
  ref_size U (length (cser (CPair l r))) (CONS_BOX_MARKER # sl @ sr)"
  by (auto simp: ref_size_def)

lemma ref_size_atom: "ref_size U (length (cser (CAtom bs))) (atom_ser bs)"
  by (simp add: ref_size_def)

locale shallow_universe = hash_universe H U for H :: "bytes \<Rightarrow> bytes" and U +
  assumes shallow: "u \<in> U \<Longrightarrow> height u < 2 ^ 36"
begin

lemma found_path:
  assumes "be_nat v = path_nat p" "length v = length p div 8 + 1" "cpath (path_nat p) vs = Inr t" "vs \<in> U"
  shows "ref_lookup v vs = Some t" "length v < 2 ^ 34" "(\<forall>u \<in> U. height u < 504) \<longrightarrow> length v < 64"
proof -
  show "(\<forall>u \<in> U. height u < 504) \<longrightarrow> length v < 64"
    using cpath_height [OF assms(3)] assms(2,4) by fastforce
  show "ref_lookup v vs = Some t" using assms(1,3) path_nat_pos [of p] by (simp add: ref_lookup_def)
  have "length p < 2 ^ 36" using cpath_height [OF assms(3)] shallow [OF assms(4)] by simp
  then show "length v < 2 ^ 34" using assms(2) by simp
qed

text \<open>A path that is found can be written as an atom and leads to the value.\<close>

definition ref_ok :: "clvm \<Rightarrow> clvm \<Rightarrow> bytes \<Rightarrow> bool" where
  "ref_ok vs t v \<longleftrightarrow> ref_lookup v vs = Some t \<and> length v < 2 ^ 34 \<and> ref_size U (length (cser t)) (BACK_REFERENCE # atom_ser v)"

lemma find_path_ref:
  assumes "cache_inv vs rc" "t \<in> U"
  obtains r where "find_path rc (tree_hash H t) (slen t) = Some (Ok r)" "\<And>v. r = Some v \<Longrightarrow> ref_ok vs t v"
proof -
  have "vs \<in> U" using assms(1) by (simp add: cache_inv_def)
  obtain r where r: "find_path rc (tree_hash H t) (slen t) = Some (Ok r)"
      "\<And>v. r = Some v \<Longrightarrow> \<exists>p. be_nat v = path_nat p \<and> length v = length p div 8 + 1 \<and> cpath (path_nat p) vs = Inr t"
      "\<And>v. r = Some v \<Longrightarrow> 4 \<le> unat (slen t) \<and> length v \<le> unat (slen t) - 2" using find_path_sound [OF assms] by metis
  have "ref_ok vs t v" if some: "r = Some v" for v
  proof -
    obtain p where p: "be_nat v = path_nat p" "length v = length p div 8 + 1" "cpath (path_nat p) vs = Inr t" using r(2) [OF some] by blast
    note f = found_path [OF p \<open>vs \<in> U\<close>]
    have "ref_size U (unat (slen t)) (BACK_REFERENCE # atom_ser v)" using r(3) [OF some] f(3) by (auto intro: ref_size_ref)
    then show ?thesis using f(1,2) ref_size_mono [OF _ slen_le] by (simp add: ref_ok_def)
  qed
  with r(1) that show thesis by blast
qed

end

locale backref_serializer = byte_sink write_all written fits + shallow_universe H U
  for write_all :: "'w write_all" and written fits and H :: "bytes \<Rightarrow> bytes" and U
begin

abbreviation "run_loop \<equiv> backrefs_loop H write_all"

definition run_next where
  "run_next a ws ops rc thc slc = (\<lambda>f. tryP (close_conses H ops rc, f) (\<lambda>(ops, rc) f. run_loop a ws ops rc thc slc f))"

lemma run_next_parse [simp]: "run_next a ws (RParse # ops) rc thc slc = run_loop a ws (RParse # ops) rc thc slc"
  by (rule ext) (simp add: run_next_def)

lemma loop_step:
  assumes "length_cache.cache_ok a None slc" "hash_cache.cache_ok H a None thc" "rep a n t" "cache_inv vs rc" "t \<in> U"
  obtains thc' slc' found where "length_cache.cache_ok a None slc'" "hash_cache.cache_ok H a None thc'"
    "find_path rc (tree_hash H t) (slen t) = Some (Ok found)"
    "\<And>v. found = Some v \<Longrightarrow> ref_ok vs t v"
    "\<And>ws ops f. run_loop a (n # ws) (RParse # ops) rc thc slc f =
       (case found of
          Some path \<Rightarrow>
            tryP (tryS (write_all f [BACK_REFERENCE]) (\<lambda>_ f. write_atom write_all f path)) (\<lambda>_.
            run_next a ws ops (read_cache_push H rc (tree_hash H t)) thc' slc')
        | None \<Rightarrow>
            tryP (sexp a n, f) (\<lambda>s f. case s of
              SPair left right \<Rightarrow>
                tryP (write_all f [CONS_BOX_MARKER]) (\<lambda>_.
                run_loop a (left # right # ws) (RParse # RParse # RCons # ops) rc thc' slc')
            | SAtom \<Rightarrow>
                tryP (tryR (atom_bytes a n) f (write_atom write_all f)) (\<lambda>_.
                run_next a ws ops (read_cache_push H rc (tree_hash H t)) thc' slc')))"
proof -
  have fr: "free a None n t" by (rule free_None [OF assms(3)])
  obtain slc' where s: "get_or_calculate slc a n None = Some (Ok (Some (slen t)), slc')" "length_cache.cache_ok a None slc'"
    by (rule length_cache.get_or_calculate_cases [OF assms(1,3)]) (use fr in auto)
  obtain thc' where h: "get_or_calculate thc a n None = Some (Ok (Some (tree_hash H t)), thc')" "hash_cache.cache_ok H a None thc'"
    by (rule hash_cache.get_or_calculate_cases [OF assms(2,3)]) (use fr in auto)
  obtain found where found: "find_path rc (tree_hash H t) (slen t) = Some (Ok found)"
      "\<And>v. found = Some v \<Longrightarrow> ref_ok vs t v"
    using find_path_ref [OF assms(4,5)] by blast
  show thesis
    by (rule that [OF s(2) h(2) found], assumption, subst backrefs_loop.simps)
      (simp add: s h found(1) run_next_def split: option.split cong: SExp.case_cong)
qed

definition wrote :: "Allocator \<Rightarrow> NodePtr \<Rightarrow> clvm \<Rightarrow> clvm \<Rightarrow> ReadCacheLookup \<Rightarrow> bytes ObjectCache \<Rightarrow> u64 ObjectCache \<Rightarrow> bytes \<Rightarrow> bool" where
  "wrote a n t vs rc thc slc s \<longleftrightarrow>
     parses ref_lookup vs s t \<and> ref_size U (length (cser t)) s \<and>
     (\<exists>rc' thc' slc'. br_write H t rc = Some (s, rc') \<and> cache_inv (CPair t vs) rc' \<and> hash_cache.cache_ok H a None thc' \<and> length_cache.cache_ok a None slc' \<and>
        (\<forall>ws ops. emits s (run_loop a (n # ws) (RParse # ops) rc thc slc) (run_next a ws ops rc' thc' slc')))"

lemma close_pair:
  assumes "cache_inv (CPair r (CPair l vs)) rc" "CPair (CPair l r) vs \<in> U"
  obtains rc' where "pop2_and_cons H rc = Ok rc'" "cache_inv (CPair (CPair l r) vs) rc'"
    "\<And>ws ops. run_next a ws (RCons # ops) rc thc slc = run_next a ws ops rc' thc slc"
proof -
  obtain rc' where rc': "pop2_and_cons H rc = Ok rc'" "cache_inv (CPair (CPair l r) vs) rc'" by (rule pop2_and_cons_inv [OF assms])
  show thesis by (rule that [OF rc']) (simp add: run_next_def rc'(1))
qed

lemma emits_write: "emits b (\<lambda>f. tryP (write_all f b) (\<lambda>_. K)) K"
  by (rule emitsI) (rule refl, rule puts_write_all)

lemma emits_atom: "length v < 2 ^ 34 \<Longrightarrow> emits (atom_ser v) (\<lambda>f. tryP (write_atom write_all f v) (\<lambda>_. K)) K"
  by (rule emitsI) (rule refl, rule puts_write_atom)

lemma emits_ref:
  assumes "length v < 2 ^ 34"
  shows "emits (BACK_REFERENCE # atom_ser v) (\<lambda>f. tryP (tryS (write_all f [BACK_REFERENCE]) (\<lambda>_ f. write_atom write_all f v)) (\<lambda>_. K)) K"
  using emits_trans [OF emits_write emits_atom [OF assms], of "[BACK_REFERENCE]"] by (simp add: tryP_tryS)

lemma wrote_push:
  assumes "parses ref_lookup vs s t \<and> ref_size U (length (cser t)) s" "br_write H t rc = Some (s, read_cache_push H rc (tree_hash H t))"
    "cache_inv vs rc" "CPair t vs \<in> U" "hash_cache.cache_ok H a None thc'" "length_cache.cache_ok a None slc'"
    "\<And>ws ops. emits s (run_loop a (n # ws) (RParse # ops) rc thc slc) (run_next a ws ops (read_cache_push H rc (tree_hash H t)) thc' slc')"
  shows "wrote a n t vs rc thc slc s"
  unfolding wrote_def using assms cache_inv_push [OF assms(3,4)] by blast

lemma wrote_pair:
  assumes node: "rep a n (CPair l r)" and U: "CPair (CPair l r) vs \<in> U"
    and new: "find_path rc (tree_hash H (CPair l r)) (slen (CPair l r)) = Some (Ok None)"
    and step: "\<And>ws ops f. run_loop a (n # ws) (RParse # ops) rc thc slc f =
      tryP (write_all f [CONS_BOX_MARKER]) (\<lambda>_. run_loop a (pfirst a n # prest a n # ws) (RParse # RParse # RCons # ops) rc thc1 slc1)"
    and l: "wrote a (pfirst a n) l vs rc thc1 slc1 sl"
    and r: "\<And>rc thc slc. cache_inv (CPair l vs) rc \<Longrightarrow> hash_cache.cache_ok H a None thc \<Longrightarrow> length_cache.cache_ok a None slc \<Longrightarrow>
      \<exists>sr. wrote a (prest a n) r (CPair l vs) rc thc slc sr"
  shows "\<exists>s. wrote a n (CPair l r) vs rc thc slc s"
proof -
  obtain rc2 thc2 slc2 where l': "parses ref_lookup vs sl l \<and> ref_size U (length (cser l)) sl" "br_write H l rc = Some (sl, rc2)" "cache_inv (CPair l vs) rc2" "hash_cache.cache_ok H a None thc2"
      "length_cache.cache_ok a None slc2"
      "\<And>ws ops. emits sl (run_loop a (pfirst a n # ws) (RParse # ops) rc thc1 slc1) (run_next a ws ops rc2 thc2 slc2)"
    using l unfolding wrote_def by blast
  obtain sr where "wrote a (prest a n) r (CPair l vs) rc2 thc2 slc2 sr" using r [OF l'(3-5)] by blast
  then obtain rc3 thc3 slc3 where r': "parses ref_lookup (CPair l vs) sr r \<and> ref_size U (length (cser r)) sr" "br_write H r rc2 = Some (sr, rc3)"
      "cache_inv (CPair r (CPair l vs)) rc3"
      "hash_cache.cache_ok H a None thc3" "length_cache.cache_ok a None slc3"
      "\<And>ws ops. emits sr (run_loop a (prest a n # ws) (RParse # ops) rc2 thc2 slc2) (run_next a ws ops rc3 thc3 slc3)"
    unfolding wrote_def by blast
  obtain rc4 where rc4: "pop2_and_cons H rc3 = Ok rc4" "cache_inv (CPair (CPair l r) vs) rc4"
      "\<And>ws ops. run_next a ws (RCons # ops) rc3 thc3 slc3 = run_next a ws ops rc4 thc3 slc3"
    using close_pair [OF r'(3) U, where a = a and thc = thc3 and slc = slc3] by blast
  have "emits ([CONS_BOX_MARKER] @ sl @ sr) (run_loop a (n # ws) (RParse # ops) rc thc slc) (run_next a ws ops rc4 thc3 slc3)" for ws ops
  proof (rule emits_trans)
    show "emits [CONS_BOX_MARKER] (run_loop a (n # ws) (RParse # ops) rc thc slc)
        (run_loop a (pfirst a n # prest a n # ws) (RParse # RParse # RCons # ops) rc thc1 slc1)"
      using emits_write unfolding step [abs_def] by simp
    show "emits (sl @ sr) (run_loop a (pfirst a n # prest a n # ws) (RParse # RParse # RCons # ops) rc thc1 slc1)
        (run_next a ws ops rc4 thc3 slc3)"
      using l'(6) [of "prest a n # ws" "RParse # RCons # ops"] r'(6) [of ws "RCons # ops"] unfolding rc4(3)
      by (simp add: emits_trans)
  qed
  moreover have "parses ref_lookup vs ([CONS_BOX_MARKER] @ sl @ sr) (CPair l r)"
    using parses_pair l'(1) r'(1) by (simp add: CONS_BOX_MARKER_def)
  moreover have "ref_size U (length (cser (CPair l r))) ([CONS_BOX_MARKER] @ sl @ sr)"
    using ref_size_pair l'(1) r'(1) by simp
  moreover have "br_write H (CPair l r) rc = Some ([CONS_BOX_MARKER] @ sl @ sr, rc4)"
    using br_write_pair [OF new l'(2) r'(2) rc4(1)] by simp
  ultimately show ?thesis unfolding wrote_def using rc4(2) r'(4,5) by blast
qed

text \<open>A node that is found in the cache is written as a back-reference.\<close>

lemma wrote_or_plain:
  assumes "length_cache.cache_ok a None slc" "hash_cache.cache_ok H a None thc" "rep a n t" "cache_inv vs rc" "CPair t vs \<in> U"
  obtains (ref) s where "wrote a n t vs rc thc slc s"
    | (plain) thc' slc' where "find_path rc (tree_hash H t) (slen t) = Some (Ok None)" "length_cache.cache_ok a None slc'" "hash_cache.cache_ok H a None thc'"
      "\<And>ws ops f. run_loop a (n # ws) (RParse # ops) rc thc slc f =
         tryP (sexp a n, f) (\<lambda>s f. case s of
           SPair left right \<Rightarrow>
             tryP (write_all f [CONS_BOX_MARKER]) (\<lambda>_.
             run_loop a (left # right # ws) (RParse # RParse # RCons # ops) rc thc' slc')
         | SAtom \<Rightarrow>
             tryP (tryR (atom_bytes a n) f (write_atom write_all f)) (\<lambda>_.
             run_next a ws ops (read_cache_push H rc (tree_hash H t)) thc' slc'))"
proof (rule loop_step [OF assms(1-4)])
  show "t \<in> U" using parts [OF assms(5)] by simp
  fix thc' slc' found
  assume ok: "length_cache.cache_ok a None slc'" "hash_cache.cache_ok H a None thc'"
    and search: "find_path rc (tree_hash H t) (slen t) = Some (Ok found)"
    and found: "\<And>v. found = Some v \<Longrightarrow> ref_ok vs t v"
    and eq: "\<And>ws ops f. run_loop a (n # ws) (RParse # ops) rc thc slc f =
       (case found of
          Some path \<Rightarrow>
            tryP (tryS (write_all f [BACK_REFERENCE]) (\<lambda>_ f. write_atom write_all f path)) (\<lambda>_.
            run_next a ws ops (read_cache_push H rc (tree_hash H t)) thc' slc')
        | None \<Rightarrow>
            tryP (sexp a n, f) (\<lambda>s f. case s of
              SPair left right \<Rightarrow>
                tryP (write_all f [CONS_BOX_MARKER]) (\<lambda>_.
                run_loop a (left # right # ws) (RParse # RParse # RCons # ops) rc thc' slc')
            | SAtom \<Rightarrow>
                tryP (tryR (atom_bytes a n) f (write_atom write_all f)) (\<lambda>_.
                run_next a ws ops (read_cache_push H rc (tree_hash H t)) thc' slc')))"
  show thesis
  proof (cases found)
    case None
    then show thesis using plain [OF _ ok] search eq by simp
  next
    case (Some v)
    have v: "ref_lookup v vs = Some t" "length v < 2 ^ 34" "ref_size U (length (cser t)) (BACK_REFERENCE # atom_ser v)"
      using found [OF Some] by (auto simp: ref_ok_def)
    have "parses ref_lookup vs (BACK_REFERENCE # atom_ser v) t \<and> ref_size U (length (cser t)) (BACK_REFERENCE # atom_ser v)"
      using parses_ref [where R = ref_lookup, OF atom_enc_ser [OF v(2)] v(1)] v(3) by (simp add: BACK_REFERENCE_def)
    from wrote_push [OF this br_write_found [OF search [unfolded Some]] assms(4,5) ok(2,1)]
    show thesis by (rule ref) (use emits_ref [OF v(2)] in \<open>simp add: eq [abs_def] Some\<close>)
  qed
qed

text \<open>Writing a node writes a serialization of its value and leaves the caches in step.\<close>

lemma loop_writes:
  assumes "length_cache.cache_ok a None slc" "hash_cache.cache_ok H a None thc" "rep a n t" "cache_inv vs rc" "stacks vs t \<subseteq> U"
  shows "\<exists>s. wrote a n t vs rc thc slc s"
  using assms
proof (induction t arbitrary: n vs rc thc slc rule: clvm.induct)
  case (CAtom bs)
  have U: "CPair (CAtom bs) vs \<in> U" using CAtom.prems(5) by simp
  from CAtom.prems(1-4) U show ?case
  proof (cases rule: wrote_or_plain)
    case (plain thc' slc')
    note node = CAtom.prems(3)
    have len: "length bs < 2 ^ 34" using rep_atom_length [OF node] by simp
    have "wrote a n (CAtom bs) vs rc thc slc (atom_ser bs)"
      by (rule wrote_push [OF conjI [OF parses_atom [OF atom_enc_ser [OF len]] ref_size_atom] br_write_atom [OF plain(1)] CAtom.prems(4) U plain(3,2)])
        (use emits_atom [OF len] in \<open>simp add: plain(4) [abs_def] rep_sexp_atom [OF node] rep_atom_bytes [OF node]\<close>)
    then show ?thesis ..
  qed blast
next
  case (CPair l r)
  have U: "CPair (CPair l r) vs \<in> U" using CPair.prems(5) by simp
  from CPair.prems(1-4) U show ?case
  proof (cases rule: wrote_or_plain)
    case (plain thc' slc')
    note node = CPair.prems(3)
    obtain sl where sl: "wrote a (pfirst a n) l vs rc thc' slc' sl"
      using CPair.IH(1) [OF plain(2,3) rep_pfirst [OF node] CPair.prems(4)] CPair.prems(5) by auto
    show ?thesis
    proof (rule wrote_pair [OF node U plain(1) _ sl])
      show "run_loop a (n # ws) (RParse # ops) rc thc slc f = tryP (write_all f [CONS_BOX_MARKER])
          (\<lambda>_. run_loop a (pfirst a n # prest a n # ws) (RParse # RParse # RCons # ops) rc thc' slc')" for ws ops f
        by (simp add: plain(4) rep_sexp_pair [OF node])
      show "\<exists>sr. wrote a (prest a n) r (CPair l vs) rc thc slc sr"
        if "cache_inv (CPair l vs) rc" "hash_cache.cache_ok H a None thc" "length_cache.cache_ok a None slc" for rc thc slc
        using CPair.IH(2) [OF that(3,2) rep_prest [OF node] that(1)] CPair.prems(5) by auto
    qed
  qed blast
qed

lemma node_to_stream_backrefs_puts:
  assumes "rep a n t" "stacks (CAtom []) t \<subseteq> U"
  shows "parses ref_lookup (CAtom []) (br_ser H t) t \<and> ref_size U (length (cser t)) (br_ser H t) \<and>
    (\<forall>f. \<exists>m. node_to_stream_backrefs H write_all a n f = Some m \<and> puts f (br_ser H t) m)"
proof -
  have "CPair t (CAtom []) \<in> U" using assms(2) stacks_top by blast
  then have nil: "CAtom [] \<in> U" using parts by blast
  obtain s where "wrote a n t (CAtom []) (read_cache_new H) (object_cache_new (treehash H)) (object_cache_new serialized_length) s"
    using loop_writes [OF length_cache.cache_ok_new hash_cache.cache_ok_new assms(1) cache_inv_new [OF nil] assms(2)] by blast
  then obtain rc' thc' slc' where s: "parses ref_lookup (CAtom []) s t \<and> ref_size U (length (cser t)) s"
      "br_write H t (read_cache_new H) = Some (s, rc')" "emits s (node_to_stream_backrefs H write_all a n) (run_next a [] [] rc' thc' slc')"
    unfolding wrote_def node_to_stream_backrefs_def [abs_def] by blast
  have "run_next a [] [] rc' thc' slc' = (\<lambda>f. Some (Ok (), f))"
    by (rule ext) (simp add: run_next_def backrefs_loop.simps)
  moreover have "br_ser H t = s" using s(2) by (simp add: br_ser_def)
  ultimately show ?thesis using s emits_end by auto
qed

end

section \<open>The values of a run\<close>

definition universe :: "clvm \<Rightarrow> clvm set" where
  "universe t = (\<Union>s \<in> stacks (CAtom []) t. subtrees s)"

lemma subtrees_self: "s \<in> subtrees s"
  by (cases s) auto

lemma subtrees_parts: "CPair l r \<in> subtrees s \<Longrightarrow> l \<in> subtrees s \<and> r \<in> subtrees s"
  by (induction s) (auto simp: subtrees_self)

lemma subtrees_height: "u \<in> subtrees s \<Longrightarrow> height u \<le> height s"
  by (induction s) auto

lemma stacks_height: "s \<in> stacks vs t \<Longrightarrow> height s \<le> max (height vs) (height t) + height t + 1"
proof (induction t arbitrary: vs)
  case (CPair l r)
  from CPair.prems consider "s = CPair (CPair l r) vs" | "s \<in> stacks vs l" | "s \<in> stacks (CPair l vs) r" by auto
  then show ?case
  proof cases
    case 2
    from CPair.IH(1) [OF 2] show ?thesis by simp
  next
    case 3
    from CPair.IH(2) [OF 3] show ?thesis by simp
  qed auto
qed simp

lemma rep_height:
  assumes "alloc_ok a"
  shows "rep a p t \<Longrightarrow> node_below a i p \<Longrightarrow> height t \<le> i"
proof (induction arbitrary: i rule: rep.induct)
  case (rep_pair p l r)
  let ?j = "node_idx p"
  have j: "?j < i" "?j < length (pair_vec a)" using rep_pair by (auto simp: node_below_def)
  then have "node_below a ?j (ip_first (pair_vec a ! ?j))" "node_below a ?j (ip_rest (pair_vec a ! ?j))"
    using assms by (auto simp: alloc_ok_def)
  then have "height l \<le> ?j" "height r \<le> ?j" by (auto intro: rep_pair.IH)
  with j show ?case by simp
qed simp_all

text \<open>
  The values of the run on \<open>t\<close>, if the hash function has no collision among them; the
  serializer is correct on them whatever the hash function.
\<close>

definition run_universe :: "(bytes \<Rightarrow> bytes) \<Rightarrow> clvm \<Rightarrow> clvm set" where
  "run_universe H t = (if inj_on (tree_hash H) (universe t) \<and> height t < 2 ^ 34 then universe t else {})"

lemma hash_universe_run: "hash_universe H (run_universe H t)"
  by unfold_locales (auto simp: run_universe_def universe_def dest: subtrees_parts split: if_splits)

lemma run_universe_height: "u \<in> run_universe H t \<Longrightarrow> height u < 2 ^ 36"
proof -
  assume "u \<in> run_universe H t"
  then obtain s where "s \<in> stacks (CAtom []) t" "u \<in> subtrees s" "height t < 2 ^ 34"
    by (auto simp: run_universe_def universe_def split: if_splits)
  then have "height u \<le> 2 * height t + 1" using stacks_height subtrees_height by fastforce
  with \<open>height t < 2 ^ 34\<close> show ?thesis by simp
qed

interpretation run_universe: shallow_universe H "run_universe H t" for H t
  using hash_universe_run run_universe_height by (simp add: shallow_universe_def shallow_universe_axioms_def)

interpretation vec_backrefs: backref_serializer vec_write_all "\<lambda>v. v" "\<lambda>_ _. True" H "run_universe H t" for H t
  by unfold_locales

interpretation limited_backrefs: backref_serializer "limited_write_all vec_write_all" "lw_inner :: bytes LimitedWriter \<Rightarrow> bytes"
    "\<lambda>w n. n \<le> lw_limit w" H "run_universe H t" for H t
  by unfold_locales

lemma stacks_run_universe:
  assumes "alloc_ok a" "rep a n t" "inj_on (tree_hash H) (universe t)"
  shows "stacks (CAtom []) t \<subseteq> run_universe H t"
proof -
  have "height t \<le> length (pair_vec a)" by (rule rep_height [OF assms(1,2) rep_node_ok [OF assms(2)]])
  also have "\<dots> < 2 ^ 34" using alloc_ok_pairs_less [OF assms(1)] by simp
  finally show ?thesis using assms(3) subtrees_self by (auto simp: run_universe_def universe_def)
qed

lemma br_ser_parses:
  assumes "alloc_ok a" "rep a n t" "inj_on (tree_hash H) (universe t)"
  shows "parses ref_lookup (CAtom []) (br_ser H t) t" "ref_size (run_universe H t) (length (cser t)) (br_ser H t)"
  using vec_backrefs.node_to_stream_backrefs_puts [OF assms(2) stacks_run_universe [OF assms]] by blast+

text \<open>
  The compressed form is at most twice as long as the plain one, and not longer at all for a
  value of height at most 250.
\<close>

lemma br_ser_length:
  assumes "alloc_ok a" "rep a n t" "inj_on (tree_hash H) (universe t)"
  shows "length (br_ser H t) \<le> 2 * length (cser t)" "height t \<le> 250 \<Longrightarrow> length (br_ser H t) \<le> length (cser t)"
proof -
  have "height u < 504" if "u \<in> run_universe H t" "height t \<le> 250" for u
  proof -
    from that(1) obtain s where "s \<in> stacks (CAtom []) t" "u \<in> subtrees s"
      by (auto simp: run_universe_def universe_def split: if_splits)
    then show ?thesis using stacks_height subtrees_height that(2) by fastforce
  qed
  then show "length (br_ser H t) \<le> 2 * length (cser t)" "height t \<le> 250 \<Longrightarrow> length (br_ser H t) \<le> length (cser t)"
    using br_ser_parses(2) [OF assms] by (auto simp: ref_size_def)
qed

text \<open>The bytes are the recursive function of the value, whatever the node and the allocator.\<close>

lemma node_to_bytes_backrefs_eq:
  assumes "alloc_ok a" "rep a n t" "inj_on (tree_hash H) (universe t)"
  shows "node_to_bytes_backrefs H a n = Some (Ok (br_ser H t))"
proof -
  obtain m where "node_to_stream_backrefs H vec_write_all a n [] = Some m" "vec_sink.puts [] (br_ser H t) m"
    using vec_backrefs.node_to_stream_backrefs_puts [OF assms(2) stacks_run_universe [OF assms]] by blast
  then show ?thesis by (cases m) (simp add: node_to_bytes_backrefs_def vec_sink.puts_def)
qed

lemma node_to_bytes_backrefs_limit_eq:
  assumes "alloc_ok a" "rep a n t" "inj_on (tree_hash H) (universe t)"
  shows "node_to_bytes_backrefs_limit H a n limit = Some (if length (br_ser H t) \<le> limit then Ok (br_ser H t) else Err out_of_memory)"
proof -
  obtain m where "node_to_stream_backrefs H (limited_write_all vec_write_all) a n (limited_writer_new [] limit) = Some m"
      "limited_sink.puts (limited_writer_new [] limit) (br_ser H t) m"
    using limited_backrefs.node_to_stream_backrefs_puts [OF assms(2) stacks_run_universe [OF assms]] by blast
  then show ?thesis
    by (cases m) (auto simp: node_to_bytes_backrefs_limit_def limited_sink.puts_def limited_writer_new_def into_inner_def)
qed

end
