(* ===== verification/Incremental.thy ===== *)
theory Incremental
  imports SerBr
begin

text \<open>
  Incremental serialization with back-references: \<open>src/src/serde/incremental.rs\<close>. The
  serializer stops at a sentinel node and resumes with the next node; a call can be undone.
\<close>

section \<open>The operations\<close>

record Serializer =
  ser_read_op_stack :: "ReadOp list"
  ser_write_stack :: "NodePtr list"
  ser_read_cache :: ReadCacheLookup
  ser_thc :: "bytes ObjectCache"
  ser_slc :: "u64 ObjectCache"
  ser_sentinel :: "NodePtr option"
  ser_output :: Cursor

record UndoState =
  undo_read_op_stack :: "ReadOp list"
  undo_write_stack :: "NodePtr list"
  undo_read_cache :: ReadCacheLookup
  undo_output_position :: nat

definition serializer_new :: "(bytes \<Rightarrow> bytes) \<Rightarrow> NodePtr option \<Rightarrow> Serializer" where
  "serializer_new H sentinel =
     \<lparr> ser_read_op_stack = [RParse], ser_write_stack = [], ser_read_cache = read_cache_new H,
       ser_thc = object_cache_new (treehash H), ser_slc = object_cache_new serialized_length,
       ser_sentinel = sentinel, ser_output = cursor_new [] \<rparr>"

text \<open>Writing to a cursor over a vector overwrites what is at the position and extends the vector.\<close>

definition cursor_write_all :: "Cursor write_all" where
  "cursor_write_all f buf =
     (let v = get_ref f; pos = position f in
      (Ok (), f\<lparr> get_ref := take pos (v @ replicate (pos - length v) 0) @ buf @ drop (pos + length buf) v,
                 position := pos + length buf \<rparr>))"

definition output_write_all :: "Serializer write_all" where
  "output_write_all self buf = (let (r, out) = cursor_write_all (ser_output self) buf in (r, self\<lparr> ser_output := out \<rparr>))"

definition serialize_pair :: "Serializer \<Rightarrow> NodePtr \<Rightarrow> NodePtr \<Rightarrow> unit io \<times> Serializer" where
  "serialize_pair self left right =
     tryS (output_write_all self [CONS_BOX_MARKER]) (\<lambda>_ self.
     (Ok (), self\<lparr> ser_write_stack := left # right # ser_write_stack self,
                   ser_read_op_stack := RParse # RParse # RCons # ser_read_op_stack self \<rparr>))"

definition push_hash :: "(bytes \<Rightarrow> bytes) \<Rightarrow> bytes \<Rightarrow> unit \<Rightarrow> Serializer \<Rightarrow> unit io \<times> Serializer" where
  "push_hash H h _ self = (Ok (), self\<lparr> ser_read_cache := read_cache_push H (ser_read_cache self) h \<rparr>)"

text \<open>
  The part of an iteration of \<open>add\<close> that writes the node: the match on the hash and the
  length, and the two lookups before it.
\<close>

definition write_node :: "(bytes \<Rightarrow> bytes) \<Rightarrow> Allocator \<Rightarrow> NodePtr \<Rightarrow> bytes option \<times> u64 option \<Rightarrow> Serializer \<Rightarrow>
    (unit io \<times> Serializer) option" where
  "write_node H a n key self =
     (case key of
        (Some node_tree_hash, Some node_serialized_length) \<Rightarrow>
          callO (map_option (\<lambda>r. (r, ())) (find_path (ser_read_cache self) node_tree_hash node_serialized_length)) self (\<lambda>found _.
          Some (case found of
            Some path \<Rightarrow>
              tryS (tryS (output_write_all self [BACK_REFERENCE]) (\<lambda>_ self. write_atom output_write_all self path))
                (push_hash H node_tree_hash)
          | None \<Rightarrow>
              tryR (sexp a n) self (\<lambda>s. case s of
                SPair left right \<Rightarrow> serialize_pair self left right
              | SAtom \<Rightarrow>
                  tryS (tryR (atom_bytes a n) self (write_atom output_write_all self)) (push_hash H node_tree_hash))))
      | _ \<Rightarrow>
          Some (tryR (sexp a n) self (\<lambda>s. case s of
            SPair left right \<Rightarrow> serialize_pair self left right
          | SAtom \<Rightarrow> tryR (atom_bytes a n) self (write_atom output_write_all self))))"

definition add_node :: "(bytes \<Rightarrow> bytes) \<Rightarrow> Allocator \<Rightarrow> NodePtr \<Rightarrow> Serializer \<Rightarrow> (unit io \<times> Serializer) option" where
  "add_node H a n self =
     callO (get_or_calculate (ser_slc self) a n (ser_sentinel self)) self (\<lambda>len slc.
     callO (get_or_calculate (ser_thc self) a n (ser_sentinel self)) self (\<lambda>hash thc.
     write_node H a n (hash, len) (self\<lparr> ser_slc := slc, ser_thc := thc \<rparr>)))"

definition close_serializer :: "(bytes \<Rightarrow> bytes) \<Rightarrow> Serializer \<Rightarrow> unit io \<times> Serializer" where
  "close_serializer H self =
     tryR (close_conses H (ser_read_op_stack self) (ser_read_cache self)) self (\<lambda>(ops, rc).
     (Ok (), self\<lparr> ser_read_op_stack := ops, ser_read_cache := rc \<rparr>))"

partial_function (option) add_loop :: "(bytes \<Rightarrow> bytes) \<Rightarrow> Allocator \<Rightarrow> Serializer \<Rightarrow> (bool io \<times> Serializer) option" where
  "add_loop H a self =
     (case ser_write_stack self of
        [] \<Rightarrow> Some (Ok True, self)
      | n # write_stack \<Rightarrow>
          let self = self\<lparr> ser_write_stack := write_stack \<rparr> in
          if Some n = ser_sentinel self then Some (Ok False, self)
          else case ser_read_op_stack self of
            RParse # read_op_stack \<Rightarrow>
              (case add_node H a n (self\<lparr> ser_read_op_stack := read_op_stack \<rparr>) of
                 None \<Rightarrow> None
               | Some m \<Rightarrow> tryP (tryS m (\<lambda>_. close_serializer H)) (\<lambda>_. add_loop H a))
          | _ \<Rightarrow> Some (Panic ''assertion failed: op == Some(ReadOp::Parse)'', self))"

definition undo_state :: "Serializer \<Rightarrow> UndoState" where
  "undo_state self = \<lparr> undo_read_op_stack = ser_read_op_stack self, undo_write_stack = ser_write_stack self,
     undo_read_cache = ser_read_cache self, undo_output_position = position (ser_output self) \<rparr>"

definition serializer_add :: "(bytes \<Rightarrow> bytes) \<Rightarrow> Serializer \<Rightarrow> Allocator \<Rightarrow> NodePtr \<Rightarrow> ((bool \<times> UndoState) io \<times> Serializer) option" where
  "serializer_add H self a n =
     (if ser_read_op_stack self = [] then Some (Panic ''assertion failed: !self.read_op_stack.is_empty()'', self)
      else
        map_option (\<lambda>(r, s). (bindR r (\<lambda>done. Ok (done, undo_state self)), s))
          (add_loop H a (self\<lparr> ser_write_stack := n # ser_write_stack self \<rparr>)))"

definition serializer_restore :: "Serializer \<Rightarrow> UndoState \<Rightarrow> Serializer" where
  "serializer_restore self state =
     self\<lparr> ser_read_op_stack := undo_read_op_stack state, ser_write_stack := undo_write_stack state,
       ser_read_cache := undo_read_cache state,
       ser_output := (ser_output self)\<lparr> position := undo_output_position state,
         get_ref := take (undo_output_position state) (get_ref (ser_output self)) \<rparr> \<rparr>"

definition serializer_size :: "Serializer \<Rightarrow> nat" where
  "serializer_size self = position (ser_output self)"

definition serializer_get_ref :: "Serializer \<Rightarrow> bytes" where
  "serializer_get_ref self = get_ref (ser_output self)"

definition serializer_into_inner :: "Serializer \<Rightarrow> bytes io" where
  "serializer_into_inner self =
     (if ser_read_op_stack self = [] then Ok (get_ref (ser_output self))
      else Panic ''assertion failed: self.read_op_stack.is_empty()'')"

section \<open>Only the output grows\<close>

text \<open>
  \<open>appends s s'\<close>: from \<open>s\<close> to \<open>s'\<close> the output was only written at its end and the sentinel
  stayed.
\<close>

definition at_end :: "Serializer \<Rightarrow> bool" where
  "at_end self \<longleftrightarrow> position (ser_output self) = length (get_ref (ser_output self))"

definition appends :: "Serializer \<Rightarrow> Serializer \<Rightarrow> bool" where
  "appends s s' \<longleftrightarrow> (at_end s \<longrightarrow> at_end s' \<and> (\<exists>b. get_ref (ser_output s') = get_ref (ser_output s) @ b)) \<and>
     ser_sentinel s' = ser_sentinel s"

lemma appends_refl [simp]: "appends s s"
  by (simp add: appends_def)

lemma appends_trans [trans]: "appends s s1 \<Longrightarrow> appends s1 s2 \<Longrightarrow> appends s s2"
  by (auto simp: appends_def)

lemma appends_same: "ser_output s' = ser_output s \<Longrightarrow> ser_sentinel s' = ser_sentinel s \<Longrightarrow> appends s s'"
  by (simp add: appends_def at_end_def)

lemma appends_write: "appends s (snd (output_write_all s b))"
  by (auto simp: appends_def at_end_def output_write_all_def cursor_write_all_def Let_def)

lemma appends_tryS: "appends s (snd m) \<Longrightarrow> (\<And>x s'. appends s' (snd (f x s'))) \<Longrightarrow> appends s (snd (tryS m f))"
  by (cases "(m, f)" rule: tryS.cases) (auto intro: appends_trans)

lemma appends_tryR: "(\<And>x. appends s (snd (f x))) \<Longrightarrow> appends s (snd (tryR m s f))"
  by (cases m) auto

lemma appends_write_atom: "appends s (snd (write_atom output_write_all s v))"
  unfolding write_atom_def Let_def write_atom_encoding_prefix_with_size_def
  by (auto intro!: appends_tryS appends_write)

lemma appends_push_hash: "appends s (snd (push_hash H h x s))"
  by (simp add: push_hash_def appends_same)

lemma appends_serialize_pair: "appends s (snd (serialize_pair s l r))"
  unfolding serialize_pair_def by (intro appends_tryS appends_write) (simp add: appends_same)

lemma appends_close: "appends s (snd (close_serializer H s))"
  unfolding close_serializer_def by (auto intro!: appends_tryR appends_same split: prod.split)

lemmas appends_intros = appends_tryS appends_tryR appends_write appends_write_atom appends_push_hash appends_serialize_pair

lemma callO_appends:
  assumes "callO m s k = Some (r, s')" "\<And>x c. k x c = Some (r, s') \<Longrightarrow> appends s s'"
  shows "appends s s'"
  using assms by (auto simp: callO_def split: option.splits prod.splits outcome.splits)

lemma appends_Some: "Some m = Some (r, s') \<Longrightarrow> appends s (snd m) \<Longrightarrow> appends s s'"
  by simp

lemma appends_caches: "appends (s\<lparr> ser_slc := slc, ser_thc := thc \<rparr>) s' \<longleftrightarrow> appends s s'"
  by (simp add: appends_def at_end_def)

lemma appends_write_node: "write_node H a n key s = Some (r, s') \<Longrightarrow> appends s s'"
proof -
  assume w: "write_node H a n key s = Some (r, s')"
  have plain: "appends s (snd (tryR (sexp a n) s (\<lambda>x. case x of SPair l r \<Rightarrow> serialize_pair s l r
      | SAtom \<Rightarrow> tryR (atom_bytes a n) s (write_atom output_write_all s))))"
    by (intro appends_tryR) (auto intro!: appends_intros split: SExp.split)
  have hashed: "appends s (snd (case found of
        Some path \<Rightarrow> tryS (tryS (output_write_all s [BACK_REFERENCE]) (\<lambda>_ s. write_atom output_write_all s path)) (push_hash H h)
      | None \<Rightarrow> tryR (sexp a n) s (\<lambda>x. case x of SPair l r \<Rightarrow> serialize_pair s l r
          | SAtom \<Rightarrow> tryS (tryR (atom_bytes a n) s (write_atom output_write_all s)) (push_hash H h))))" for found h
    by (cases found) (auto intro!: appends_intros split: SExp.split)
  show ?thesis
  proof (cases "\<exists>h len. key = (Some h, Some len)")
    case True
    then obtain h len where "key = (Some h, Some len)" by blast
    with w have "callO (map_option (\<lambda>r. (r, ())) (find_path (ser_read_cache s) h len)) s (\<lambda>found _.
        Some (case found of
          Some path \<Rightarrow> tryS (tryS (output_write_all s [BACK_REFERENCE]) (\<lambda>_ s. write_atom output_write_all s path)) (push_hash H h)
        | None \<Rightarrow> tryR (sexp a n) s (\<lambda>x. case x of SPair l r \<Rightarrow> serialize_pair s l r
            | SAtom \<Rightarrow> tryS (tryR (atom_bytes a n) s (write_atom output_write_all s)) (push_hash H h)))) = Some (r, s')"
      by (simp add: write_node_def)
    then show ?thesis by (rule callO_appends) (erule appends_Some, rule hashed)
  next
    case False
    then have "Some (tryR (sexp a n) s (\<lambda>x. case x of SPair l r \<Rightarrow> serialize_pair s l r
        | SAtom \<Rightarrow> tryR (atom_bytes a n) s (write_atom output_write_all s))) = Some (r, s')"
      using w by (auto simp: write_node_def split: option.splits prod.splits)
    then show ?thesis by (rule appends_Some) (rule plain)
  qed
qed

lemma appends_add_node: "add_node H a n s = Some (r, s') \<Longrightarrow> appends s s'"
  unfolding add_node_def
  by (erule callO_appends)+ (drule appends_write_node, simp add: appends_caches)

lemma tryP_appends:
  assumes "tryP m k = Some y" "appends s (snd m)" "\<And>x s'. k x s' = Some y \<Longrightarrow> appends s' (snd y)"
  shows "appends s (snd y)"
proof -
  obtain r s1 where m: "m = (r, s1)" by fastforce
  show ?thesis using assms by (cases r) (auto simp: m intro: appends_trans)
qed

lemma appends_add_loop:
  assumes "add_loop H a s = Some y"
  shows "appends s (snd y)"
proof (rule add_loop.raw_induct [where P = "\<lambda>H a s y. appends s (snd y)", OF _ assms])
  fix rec H a s y
  assume IH: "\<And>H a s y. rec H a s = Some y \<Longrightarrow> appends s (snd y)"
    and body: "(case ser_write_stack s of [] \<Rightarrow> Some (Ok True, s)
      | n # write_stack \<Rightarrow>
          let s = s\<lparr> ser_write_stack := write_stack \<rparr> in
          if Some n = ser_sentinel s then Some (Ok False, s)
          else case ser_read_op_stack s of
            RParse # read_op_stack \<Rightarrow>
              (case add_node H a n (s\<lparr> ser_read_op_stack := read_op_stack \<rparr>) of
                 None \<Rightarrow> None
               | Some m \<Rightarrow> tryP (tryS m (\<lambda>_. close_serializer H)) (\<lambda>_. rec H a))
          | _ \<Rightarrow> Some (Panic ''assertion failed: op == Some(ReadOp::Parse)'', s)) = Some y"
  show "appends s (snd y)"
  proof (cases "\<exists>n ws ops m. ser_write_stack s = n # ws \<and> Some n \<noteq> ser_sentinel s \<and> ser_read_op_stack s = RParse # ops \<and>
      add_node H a n (s\<lparr> ser_write_stack := ws, ser_read_op_stack := ops \<rparr>) = Some m")
    case True
    then obtain n ws ops m where step: "ser_write_stack s = n # ws" "Some n \<noteq> ser_sentinel s" "ser_read_op_stack s = RParse # ops"
        "add_node H a n (s\<lparr> ser_write_stack := ws, ser_read_op_stack := ops \<rparr>) = Some m" by blast
    have "appends s (s\<lparr> ser_write_stack := ws, ser_read_op_stack := ops \<rparr>)" by (rule appends_same) simp_all
    also have "appends (s\<lparr> ser_write_stack := ws, ser_read_op_stack := ops \<rparr>) (snd m)"
      using step(4) appends_add_node by (metis prod.collapse)
    finally have "appends s (snd (tryS m (\<lambda>_. close_serializer H)))" by (intro appends_tryS appends_close)
    moreover have "tryP (tryS m (\<lambda>_. close_serializer H)) (\<lambda>_. rec H a) = Some y" using body step by simp
    ultimately show ?thesis using IH tryP_appends by blast
  next
    case False
    then show ?thesis using body
      by (auto simp: Let_def intro!: appends_same split: list.splits if_splits ReadOp.splits option.splits)
  qed
qed

text \<open>A call and its undoing: everything but the two caches is as before.\<close>

lemma restore_undo:
  assumes "at_end s" "serializer_add H s a n = Some (Ok (done, undo), s')"
  shows "serializer_restore s' undo = s\<lparr> ser_thc := ser_thc s', ser_slc := ser_slc s' \<rparr>"
proof -
  have loop: "add_loop H a (s\<lparr> ser_write_stack := n # ser_write_stack s \<rparr>) = Some (Ok done, s')" and undo: "undo = undo_state s"
    using assms(2) by (auto simp: serializer_add_def bindR_eq_Ok split: if_splits)
  from appends_add_loop [OF loop] assms(1) have "\<exists>b. get_ref (ser_output s') = get_ref (ser_output s) @ b"
    "ser_sentinel s' = ser_sentinel s" by (simp_all add: appends_def at_end_def)
  then show ?thesis using assms(1) by (auto simp: serializer_restore_def undo undo_state_def at_end_def intro!: Serializer.equality Cursor.equality)
qed

end
