(* ===== verification/IncrementalSpec.thy ===== *)
theory IncrementalSpec
  imports Incremental
begin

text \<open>
  What a sequence of calls to the incremental serializer writes: a serialization of the
  first node's value in which every sentinel, in the order of a left-to-right walk, is
  replaced by the node of the next call, whose own sentinels come first.
\<close>

section \<open>Trees with holes\<close>

datatype htree = Hole | Leaf bytes | Branch htree htree

fun hsize :: "htree \<Rightarrow> nat" where
  "hsize (Branch l r) = Suc (hsize l + hsize r)"
| "hsize _ = 1"

inductive hrep :: "Allocator \<Rightarrow> NodePtr option \<Rightarrow> NodePtr \<Rightarrow> htree \<Rightarrow> bool" for a st where
  hrep_hole: "st = Some n \<Longrightarrow> hrep a st n Hole"
| hrep_leaf: "st \<noteq> Some n \<Longrightarrow> rep a n (CAtom bs) \<Longrightarrow> hrep a st n (Leaf bs)"
| hrep_branch: "st \<noteq> Some n \<Longrightarrow> rep a n (CPair l r) \<Longrightarrow> hrep a st (pfirst a n) hl \<Longrightarrow> hrep a st (prest a n) hr \<Longrightarrow>
    hrep a st n (Branch hl hr)"

inductive_cases hrep_HoleE: "hrep a st n Hole"
inductive_cases hrep_LeafE: "hrep a st n (Leaf bs)"
inductive_cases hrep_BranchE: "hrep a st n (Branch hl hr)"

text \<open>
  \<open>filled hs adds ts\<close>: the trees \<open>hs\<close> become the values \<open>ts\<close> when the holes are filled, in
  order, with the trees \<open>adds\<close>.
\<close>

inductive filled :: "htree list \<Rightarrow> htree list \<Rightarrow> clvm list \<Rightarrow> bool" where
  filled_done: "filled [] [] []"
| filled_leaf: "filled hs adds ts \<Longrightarrow> filled (Leaf bs # hs) adds (CAtom bs # ts)"
| filled_branch: "filled (hl # hr # hs) adds (tl' # tr # ts) \<Longrightarrow> filled (Branch hl hr # hs) adds (CPair tl' tr # ts)"
| filled_hole: "filled (h # hs) adds (t # ts) \<Longrightarrow> filled (Hole # hs) (h # adds) (t # ts)"

inductive_cases filled_NilE: "filled [] adds ts"
inductive_cases filled_LeafE: "filled (Leaf bs # hs) adds ts"
inductive_cases filled_BranchE: "filled (Branch hl hr # hs) adds ts"
inductive_cases filled_HoleE: "filled (Hole # hs) adds ts"

lemma filled_free:
  "free a st n t \<Longrightarrow> hrep a st n h \<Longrightarrow> filled (h # hs) adds ts \<Longrightarrow> \<exists>ts'. ts = t # ts' \<and> filled hs adds ts'"
proof (induction arbitrary: h hs ts rule: free.induct)
  case (free_atom n bs)
  from free_atom.prems(1) free_atom.hyps have "h = Leaf bs" by (cases rule: hrep.cases) (auto dest: rep_det)
  then show ?case using free_atom.prems(2) by (auto elim: filled_LeafE)
next
  case (free_pair n l r)
  from free_pair.prems(1) free_pair.hyps obtain hl hr where h: "h = Branch hl hr" "hrep a st (pfirst a n) hl" "hrep a st (prest a n) hr"
    by (cases rule: hrep.cases) (auto dest: rep_det)
  from free_pair.prems(2) obtain tl' tr us where us: "ts = CPair tl' tr # us" "filled (hl # hr # hs) adds (tl' # tr # us)"
    unfolding h(1) by (auto elim: filled_BranchE)
  from free_pair.IH(1) [OF h(2) us(2)] have l: "tl' = l" "filled (hr # hs) adds (tr # us)" by auto
  from free_pair.IH(2) [OF h(3) l(2)] have "tr = r" "filled hs adds us" by auto
  with us l show ?case by simp
qed

lemma hrep_extends: "hrep a st n h \<Longrightarrow> extends a a' \<Longrightarrow> hrep a' st n h"
proof (induction rule: hrep.induct)
  case (hrep_branch n l r hl hr)
  from hrep_branch.hyps(2) have "pfirst a' n = pfirst a n" "prest a' n = prest a n"
    using hrep_branch.prems by (auto simp: pfirst_def prest_def extends_def nth_append elim!: rep_CPairE)
  with hrep_branch show ?case using rep_extends by (metis hrep.hrep_branch)
qed (auto intro: hrep.intros rep_extends)

text \<open>A client that hands the nodes to the serializer one after the other; all but the last call must return \<open>false\<close>.\<close>

fun add_all :: "(bytes \<Rightarrow> bytes) \<Rightarrow> Serializer \<Rightarrow> (Allocator \<times> NodePtr) list \<Rightarrow> Serializer option" where
  "add_all H s [] = Some s"
| "add_all H s ((a, n) # calls) =
     (case serializer_add H s a n of
        Some (Ok (done, _), s') \<Rightarrow> if done \<longleftrightarrow> calls = [] then add_all H s' calls else None
      | _ \<Rightarrow> None)"

section \<open>The reader's side\<close>

text \<open>The value a reader ends with when it reads the values \<open>ts\<close> with the operations \<open>ops\<close>.\<close>

fun run_ops :: "ReadOp list \<Rightarrow> clvm \<Rightarrow> clvm list \<Rightarrow> clvm option" where
  "run_ops [] (CPair t _) [] = Some t"
| "run_ops (RParse # ops) vs (t # ts) = run_ops ops (CPair t vs) ts"
| "run_ops (RCons # ops) (CPair r (CPair l vs)) ts = run_ops ops (CPair (CPair l r) vs) ts"
| "run_ops _ _ _ = None"

fun op_stacks :: "ReadOp list \<Rightarrow> clvm \<Rightarrow> clvm list \<Rightarrow> clvm set" where
  "op_stacks (RParse # ops) vs (t # ts) = stacks vs t \<union> op_stacks ops (CPair t vs) ts"
| "op_stacks (RCons # ops) (CPair r (CPair l vs)) ts = insert (CPair (CPair l r) vs) (op_stacks ops (CPair (CPair l r) vs) ts)"
| "op_stacks _ _ _ = {}"

inductive feeds :: "ReadOp list \<Rightarrow> clvm \<Rightarrow> bytes \<Rightarrow> ReadOp list \<Rightarrow> clvm \<Rightarrow> bool" where
  feeds_refl: "feeds ops vs [] ops vs"
| feeds_value: "parses ref_lookup vs s t \<Longrightarrow> feeds ops (CPair t vs) s' ops' vs' \<Longrightarrow> feeds (RParse # ops) vs (s @ s') ops' vs'"
| feeds_open: "feeds (RParse # RParse # RCons # ops) vs s' ops' vs' \<Longrightarrow> feeds (RParse # ops) vs (0xff # s') ops' vs'"
| feeds_cons: "feeds ops (CPair (CPair l r) vs) s' ops' vs' \<Longrightarrow> feeds (RCons # ops) (CPair r (CPair l vs)) s' ops' vs'"

lemma feeds_trans: "feeds ops vs s ops1 vs1 \<Longrightarrow> feeds ops1 vs1 s' ops2 vs2 \<Longrightarrow> feeds ops vs (s @ s') ops2 vs2"
  by (induction rule: feeds.induct) (auto intro: feeds.intros)

text \<open>The bytes that take a reader through all its operations, value by value.\<close>

inductive reads_all :: "ReadOp list \<Rightarrow> clvm \<Rightarrow> bytes \<Rightarrow> clvm \<Rightarrow> bool" where
  reads_all_done: "reads_all [] vs [] vs"
| reads_all_value: "parses ref_lookup vs s t \<Longrightarrow> reads_all ops (CPair t vs) s' vs' \<Longrightarrow> reads_all (RParse # ops) vs (s @ s') vs'"
| reads_all_cons: "reads_all ops (CPair (CPair l r) vs) s' vs' \<Longrightarrow> reads_all (RCons # ops) (CPair r (CPair l vs)) s' vs'"

inductive_cases reads_all_NilE: "reads_all [] vs s vs'"
inductive_cases reads_all_ParseE: "reads_all (RParse # ops) vs s vs'"
inductive_cases reads_all_ConsE: "reads_all (RCons # ops) vs s vs'"

lemma feeds_reads_all: "feeds ops vs s ops' vs' \<Longrightarrow> ops' = [] \<Longrightarrow> reads_all ops vs s vs'"
proof (induction rule: feeds.induct)
  case (feeds_open ops vs s' ops' vs')
  then have "reads_all (RParse # RParse # RCons # ops) vs s' vs'" by simp
  then obtain sl l sr r s'' where "s' = sl @ sr @ s''" "parses ref_lookup vs sl l" "parses ref_lookup (CPair l vs) sr r"
      "reads_all ops (CPair (CPair l r) vs) s'' vs'"
    by (fastforce elim: reads_all_ParseE reads_all_ConsE)
  then show ?case using reads_all_value [OF parses_pair, of vs sl l sr r ops s'' vs'] by simp
qed (auto intro: reads_all.intros)

lemma feeds_value_read:
  assumes "feeds [RParse] vs s [] vs'"
  shows "\<exists>t. vs' = CPair t vs \<and> parses ref_lookup vs s t"
  using feeds_reads_all [OF assms refl] by (auto elim!: reads_all_ParseE reads_all_NilE)

lemma run_ops_open: "run_ops (RParse # RParse # RCons # ops) vs (l # r # ts) = run_ops (RParse # ops) vs (CPair l r # ts)"
  by simp

lemma op_stacks_open: "op_stacks (RParse # RParse # RCons # ops) vs (l # r # ts) = op_stacks (RParse # ops) vs (CPair l r # ts)"
  by auto

section \<open>The serializer's output\<close>

definition out_append :: "Serializer \<Rightarrow> bytes \<Rightarrow> Serializer" where
  "out_append self b = self\<lparr> ser_output := (ser_output self)\<lparr> get_ref := get_ref (ser_output self) @ b,
     position := position (ser_output self) + length b \<rparr> \<rparr>"

lemma out_append_fields [simp]:
  "ser_read_op_stack (out_append s b) = ser_read_op_stack s" "ser_write_stack (out_append s b) = ser_write_stack s"
  "ser_read_cache (out_append s b) = ser_read_cache s" "ser_thc (out_append s b) = ser_thc s" "ser_slc (out_append s b) = ser_slc s"
  "ser_sentinel (out_append s b) = ser_sentinel s" "get_ref (ser_output (out_append s b)) = get_ref (ser_output s) @ b"
  "out_append (out_append s b) c = out_append s (b @ c)" "at_end s \<Longrightarrow> at_end (out_append s b)"
  by (simp_all add: out_append_def at_end_def)

lemma output_write_all_end: "at_end s \<Longrightarrow> output_write_all s b = (Ok (), out_append s b)"
  by (simp add: output_write_all_def cursor_write_all_def out_append_def at_end_def Let_def)

lemma output_write_atom:
  assumes "at_end s" "length v < 2 ^ 34"
  shows "write_atom output_write_all s v = (Ok (), out_append s (atom_ser v))"
proof (cases "length v = 1 \<and> v ! 0 < 0x80")
  case True
  then have "atom_ser v = v" by (simp add: atom_ser_def word_less_nat_alt)
  then show ?thesis using True output_write_all_end [OF assms(1)]
    by (auto simp: write_atom_def write_atom_encoding_prefix_with_size_def)
next
  case False
  then have "atom_ser v = size_prefix (shortest_prefix (length v)) (length v) @ v"
    by (auto simp: atom_ser_def word_less_nat_alt)
  moreover have "write_atom_encoding_prefix_with_size output_write_all s (if v \<noteq> [] then v ! 0 else 0) (of_nat (length v)) =
      output_write_all s (size_prefix (shortest_prefix (length v)) (length v))"
    by (rule write_prefix_eq [OF assms(2)]) (use False in auto)
  ultimately show ?thesis using assms(1) by (simp add: write_atom_def output_write_all_end)
qed

section \<open>Correctness\<close>

lemma run_ops_RConsE:
  assumes "run_ops (RCons # ops) vs ts = Some T"
  obtains l r vs1 where "vs = CPair r (CPair l vs1)" "run_ops ops (CPair (CPair l r) vs1) ts = Some T"
  using assms by (cases "(RCons # ops, vs, ts)" rule: run_ops.cases) auto

text \<open>The output and what is still to be written stay within twice the plain serialization.\<close>

definition bounded :: "Serializer \<Rightarrow> clvm list \<Rightarrow> clvm \<Rightarrow> bool" where
  "bounded self ts T \<longleftrightarrow> length (get_ref (ser_output self)) + 2 * (\<Sum>t \<leftarrow> ts. length (cser t)) \<le> 2 * length (cser T)"

lemma bounded_write_stack [simp]: "bounded (s\<lparr> ser_write_stack := ws \<rparr>) ts T = bounded s ts T"
  by (simp add: bounded_def)

lemma bounded_new: "bounded (serializer_new H st) [T] T"
  by (simp add: bounded_def serializer_new_def cursor_new_def)

context shallow_universe
begin

definition ser_inv :: "Allocator \<Rightarrow> NodePtr option \<Rightarrow> clvm \<Rightarrow> Serializer \<Rightarrow> bool" where
  "ser_inv a st vs self \<longleftrightarrow>
     ser_sentinel self = st \<and> hash_cache.cache_ok H a st (ser_thc self) \<and> length_cache.cache_ok a st (ser_slc self) \<and>
     cache_inv vs (ser_read_cache self) \<and> at_end self"

text \<open>The operations the reader is left with, and the values that will complete them.\<close>

definition expects :: "ReadOp list \<Rightarrow> clvm \<Rightarrow> clvm list \<Rightarrow> clvm \<Rightarrow> bool" where
  "expects ops vs ts T \<longleftrightarrow> run_ops ops vs ts = Some T \<and> op_stacks ops vs ts \<subseteq> U"

lemma close_conses_expects:
  assumes "cache_inv vs rc" "expects ops vs ts T"
  obtains ops' rc' vs' where "close_conses H ops rc = Ok (ops', rc')" "cache_inv vs' rc'" "expects ops' vs' ts T"
    "feeds ops vs [] ops' vs'" "ops' = [] \<or> hd ops' = RParse"
proof -
  have "\<exists>ops' rc' vs'. close_conses H ops rc = Ok (ops', rc') \<and> cache_inv vs' rc' \<and> expects ops' vs' ts T \<and>
      feeds ops vs [] ops' vs' \<and> (ops' = [] \<or> hd ops' = RParse)"
    using assms
  proof (induction ops arbitrary: vs rc)
    case (Cons op ops)
    show ?case
    proof (cases op)
      case RCons
      with Cons.prems(2) obtain l r vs1 where vs: "vs = CPair r (CPair l vs1)" "expects ops (CPair (CPair l r) vs1) ts T"
          "CPair (CPair l r) vs1 \<in> U"
        by (auto simp: expects_def elim!: run_ops_RConsE)
      obtain rc1 where rc1: "pop2_and_cons H rc = Ok rc1" "cache_inv (CPair (CPair l r) vs1) rc1"
        using pop2_and_cons_inv [OF Cons.prems(1) [unfolded vs(1)] vs(3)] by blast
      from Cons.IH [OF rc1(2) vs(2)] show ?thesis using RCons rc1(1) vs(1) feeds_cons by fastforce
    qed (use Cons.prems in \<open>auto intro: feeds_refl\<close>)
  qed (auto intro: feeds_refl)
  then show thesis using that by blast
qed

lemma ser_inv_caches:
  assumes "ser_inv a st vs self" "hash_cache.cache_ok H a st thc" "length_cache.cache_ok a st slc"
  shows "ser_inv a st vs (self\<lparr> ser_slc := slc, ser_thc := thc \<rparr>)"
  using assms by (simp add: ser_inv_def at_end_def)

lemma ser_inv_append: "ser_inv a st vs self \<Longrightarrow> ser_inv a st vs (out_append self b)"
  by (simp add: ser_inv_def)

lemma ser_inv_push:
  assumes "ser_inv a st vs self" "CPair t vs \<in> U"
  shows "ser_inv a st (CPair t vs) (self\<lparr> ser_read_cache := read_cache_push H (ser_read_cache self) (tree_hash H t) \<rparr>)"
  using assms cache_inv_push by (simp add: ser_inv_def at_end_def)

lemma add_node_key:
  assumes "ser_inv a st vs self" "rep a n t"
  obtains self' where "ser_inv a st vs self'" "ser_output self' = ser_output self" "ser_write_stack self' = ser_write_stack self"
    "ser_read_op_stack self' = ser_read_op_stack self" "ser_read_cache self' = ser_read_cache self"
    "add_node H a n self = write_node H a n (if free a st n t then (Some (tree_hash H t), Some (slen t)) else (None, None)) self'"
proof -
  have inv: "ser_sentinel self = st" "hash_cache.cache_ok H a st (ser_thc self)" "length_cache.cache_ok a st (ser_slc self)"
    using assms(1) by (auto simp: ser_inv_def)
  obtain slc where slc: "get_or_calculate (ser_slc self) a n st = Some (Ok (if free a st n t then Some (slen t) else None), slc)"
      "length_cache.cache_ok a st slc" by (rule length_cache.get_or_calculate_cases [OF inv(3) assms(2)])
  obtain thc where thc: "get_or_calculate (ser_thc self) a n st = Some (Ok (if free a st n t then Some (tree_hash H t) else None), thc)"
      "hash_cache.cache_ok H a st thc" by (rule hash_cache.get_or_calculate_cases [OF inv(2) assms(2)])
  show thesis
    by (rule that [OF ser_inv_caches [OF assms(1) thc(2) slc(2)]]) (simp_all add: add_node_def inv(1) slc(1) thc(1))
qed

lemma serialize_pair_end:
  "at_end s \<Longrightarrow> serialize_pair s l r =
     (Ok (), (out_append s [CONS_BOX_MARKER])\<lparr> ser_write_stack := l # r # ser_write_stack s,
        ser_read_op_stack := RParse # RParse # RCons # ser_read_op_stack s \<rparr>)"
  by (simp add: serialize_pair_def output_write_all_end)

text \<open>The node is written as a whole, as a back-reference or an atom, or opened as a pair.\<close>

lemma add_node_cases:
  assumes inv: "ser_inv a st vs self" and node: "rep a n t" and n: "st \<noteq> Some n" and U': "free a st n t \<longrightarrow> CPair t vs \<in> U"
  obtains (whole) s self' where "free a st n t" "parses ref_lookup vs s t" "add_node H a n self = Some (Ok (), self')"
      "ser_inv a st (CPair t vs) self'" "get_ref (ser_output self') = get_ref (ser_output self) @ s"
      "ser_write_stack self' = ser_write_stack self" "ser_read_op_stack self' = ser_read_op_stack self"
      "br_write H t (ser_read_cache self) = Some (s, ser_read_cache self')" "ref_size U (length (cser t)) s"
    | (opened) l r self' where "t = CPair l r" "add_node H a n self = Some (Ok (), self')" "ser_inv a st vs self'"
      "get_ref (ser_output self') = get_ref (ser_output self) @ [0xff]"
      "ser_write_stack self' = pfirst a n # prest a n # ser_write_stack self"
      "ser_read_op_stack self' = RParse # RParse # RCons # ser_read_op_stack self" "ser_read_cache self' = ser_read_cache self"
      "free a st n t \<longrightarrow> find_path (ser_read_cache self) (tree_hash H t) (slen t) = Some (Ok None)"
proof -
  note U = U' [rule_format]
  obtain s1 where s1: "ser_inv a st vs s1" "ser_output s1 = ser_output self" "ser_write_stack s1 = ser_write_stack self"
      "ser_read_op_stack s1 = ser_read_op_stack self" "ser_read_cache s1 = ser_read_cache self"
      "add_node H a n self = write_node H a n (if free a st n t then (Some (tree_hash H t), Some (slen t)) else (None, None)) s1"
    using add_node_key [OF inv node] by blast
  have e: "at_end s1" and rc: "cache_inv vs (ser_read_cache s1)" using s1(1) by (simp_all add: ser_inv_def)
  let ?open = "(out_append s1 [CONS_BOX_MARKER])\<lparr> ser_write_stack := pfirst a n # prest a n # ser_write_stack s1,
        ser_read_op_stack := RParse # RParse # RCons # ser_read_op_stack s1 \<rparr>"
  have opens: thesis if "t = CPair l r" "add_node H a n self = Some (Ok (), ?open)"
    "free a st n t \<longrightarrow> find_path (ser_read_cache self) (tree_hash H t) (slen t) = Some (Ok None)" for l r
    by (rule opened [OF that(1,2)]) (use s1 that(3) ser_inv_append [OF s1(1)] in \<open>simp_all add: ser_inv_def at_end_def CONS_BOX_MARKER_def\<close>)
  let ?push = "\<lambda>b. (out_append s1 b)\<lparr> ser_read_cache := read_cache_push H (ser_read_cache s1) (tree_hash H t) \<rparr>"
  have wholes: thesis if "free a st n t" "parses ref_lookup vs b t" "add_node H a n self = Some (Ok (), ?push b)"
    "br_write H t (ser_read_cache self) = Some (b, read_cache_push H (ser_read_cache self) (tree_hash H t))"
    "ref_size U (length (cser t)) b" for b
    by (rule whole [OF that(1-3)]) (use s1 that(4,5) ser_inv_push [OF ser_inv_append [OF s1(1)] U [OF that(1)], of b] in simp_all)
  show thesis
  proof (cases "free a st n t")
    case True
    have "t \<in> U" using parts [OF U [OF True]] by simp
    obtain found where found: "find_path (ser_read_cache s1) (tree_hash H t) (slen t) = Some (Ok found)"
        "\<And>v. found = Some v \<Longrightarrow> ref_ok vs t v"
      using find_path_ref [OF rc \<open>t \<in> U\<close>] by blast
    show thesis
    proof (cases found)
      case (Some v)
      have v: "ref_lookup v vs = Some t" "length v < 2 ^ 34" "ref_size U (length (cser t)) (0xfe # atom_ser v)"
        using found(2) [OF Some] by (auto simp: ref_ok_def BACK_REFERENCE_def)
      have "parses ref_lookup vs (0xfe # atom_ser v) t" by (rule parses_ref [where R = ref_lookup, OF atom_enc_ser [OF v(2)] v(1)])
      then show thesis
        by (rule wholes [OF True])
          (use True Some found(1) e v(2,3) s1(5,6) in \<open>simp_all add: br_write_found write_node_def output_write_all_end output_write_atom push_hash_def BACK_REFERENCE_def\<close>)
    next
      case None
      show thesis
      proof (cases t)
        case (CAtom bs)
        have len: "length bs < 2 ^ 34" using rep_atom_length node CAtom by fastforce
        have "parses ref_lookup vs (atom_ser bs) t" unfolding CAtom by (rule parses_atom [OF atom_enc_ser [OF len]])
        then show thesis
          by (rule wholes [OF True])
            (use True None found(1) e len s1(5,6) node CAtom ref_size_atom in
              \<open>simp_all add: br_write_atom write_node_def output_write_atom push_hash_def rep_sexp_atom rep_atom_bytes\<close>)
      next
        case (CPair l r)
        then show thesis
          by (rule opens) (use True None found(1) e s1(5,6) node CPair in
              \<open>simp_all add: write_node_def serialize_pair_end rep_sexp_pair\<close>)
      qed
    qed
  next
    case False
    obtain l r where t: "t = CPair l r" using False node n by (cases t) (auto intro: free_atom)
    then show thesis
      by (rule opens) (use False e s1(5,6) node t in \<open>simp_all add: write_node_def serialize_pair_end rep_sexp_pair\<close>)
  qed
qed

definition pending :: "Allocator \<Rightarrow> NodePtr option \<Rightarrow> Serializer \<Rightarrow> clvm \<Rightarrow> htree list \<Rightarrow> htree list \<Rightarrow> clvm \<Rightarrow> bool" where
  "pending a st self vs hs adds T \<longleftrightarrow>
     ser_inv a st vs self \<and> (ser_read_op_stack self = [] \<or> hd (ser_read_op_stack self) = RParse) \<and>
     (\<exists>ts. filled hs adds ts \<and> expects (ser_read_op_stack self) vs ts T \<and> bounded self ts T)"

definition goes :: "Serializer \<Rightarrow> clvm \<Rightarrow> Serializer \<Rightarrow> clvm \<Rightarrow> bool" where
  "goes s vs s' vs' \<longleftrightarrow>
     (\<exists>b. get_ref (ser_output s') = get_ref (ser_output s) @ b \<and> feeds (ser_read_op_stack s) vs b (ser_read_op_stack s') vs')"

lemma goes_refl: "goes s vs s vs"
  by (auto simp: goes_def intro: feeds_refl)

lemma goes_trans: "goes s vs s1 vs1 \<Longrightarrow> goes s1 vs1 s2 vs2 \<Longrightarrow> goes s vs s2 vs2"
  unfolding goes_def using feeds_trans by fastforce

text \<open>One iteration of the loop on a node that is not the sentinel.\<close>

lemma add_step_whole:
  assumes "ser_inv a st (CPair t vs) s1" "expects (ser_read_op_stack s1) (CPair t vs) ts T"
    "parses ref_lookup vs b t"
  obtains s2 vs2 where "close_serializer H s1 = (Ok (), s2)" "ser_inv a st vs2 s2"
    "ser_read_op_stack s2 = [] \<or> hd (ser_read_op_stack s2) = RParse" "expects (ser_read_op_stack s2) vs2 ts T"
    "ser_output s2 = ser_output s1" "ser_write_stack s2 = ser_write_stack s1"
    "feeds (RParse # ser_read_op_stack s1) vs b (ser_read_op_stack s2) vs2"
proof -
  have rc: "cache_inv (CPair t vs) (ser_read_cache s1)" using assms(1) by (simp add: ser_inv_def)
  obtain ops' rc' vs' where c: "close_conses H (ser_read_op_stack s1) (ser_read_cache s1) = Ok (ops', rc')" "cache_inv vs' rc'"
      "expects ops' vs' ts T" "feeds (ser_read_op_stack s1) (CPair t vs) [] ops' vs'" "ops' = [] \<or> hd ops' = RParse"
    by (rule close_conses_expects [OF rc assms(2)])
  have "feeds (RParse # ser_read_op_stack s1) vs b ops' vs'" using feeds_value [OF assms(3) c(4)] by simp
  then show thesis
    by (intro that [of "s1\<lparr> ser_read_op_stack := ops', ser_read_cache := rc' \<rparr>" vs'])
      (use assms(1) c in \<open>simp_all add: close_serializer_def ser_inv_def at_end_def\<close>)
qed

lemma add_loop_step:
  assumes p: "pending a st s vs (h # hs) adds T" and ws: "ser_write_stack s = n # ws" and h: "hrep a st n h" "h \<noteq> Hole"
    and wss: "list_all2 (hrep a st) ws hs"
  obtains s' vs' hs' where "add_loop H a s = add_loop H a s'" "pending a st s' vs' hs' adds T"
    "list_all2 (hrep a st) (ser_write_stack s') hs'" "goes s vs s' vs'" "sum_list (map hsize hs') < sum_list (map hsize (h # hs))"
proof -
  obtain ts where inv: "ser_inv a st vs s" and ts: "filled (h # hs) adds ts" "expects (ser_read_op_stack s) vs ts T" "bounded s ts T"
    and top: "ser_read_op_stack s = [] \<or> hd (ser_read_op_stack s) = RParse" using p by (auto simp: pending_def)
  have n: "st \<noteq> Some n" using h by (cases rule: hrep.cases) auto
  obtain t where node: "rep a n t" using h by (cases rule: hrep.cases) auto
  obtain t1 ts1 where "ts = t1 # ts1" using ts(1) h(2) by (cases rule: filled.cases) auto
  then obtain ops where ops: "ser_read_op_stack s = RParse # ops" using top ts(2)
    by (cases "ser_read_op_stack s") (auto simp: expects_def elim: run_ops.elims)
  define s0 where "s0 = s\<lparr> ser_write_stack := ws, ser_read_op_stack := ops \<rparr>"
  have inv0: "ser_inv a st vs s0" using inv by (simp add: ser_inv_def s0_def at_end_def)
  have st: "ser_sentinel s = st" using inv by (simp add: ser_inv_def)
  have loop: "add_loop H a s = tryP (tryS m (\<lambda>_. close_serializer H)) (\<lambda>_. add_loop H a)" if "add_node H a n s0 = Some m" for m
    using ws ops n st that by (subst add_loop.simps) (simp add: s0_def)
  have whole_ts: "ts = t # tl ts \<and> filled hs adds (tl ts)" if "free a st n t" using filled_free [OF that h(1) ts(1)] by auto
  have stack: "free a st n t \<longrightarrow> CPair t vs \<in> U"
  proof
    assume "free a st n t"
    then have "stacks vs t \<subseteq> U" using ts(2) whole_ts unfolding expects_def ops
      by (metis op_stacks.simps(1) Un_subset_iff)
    then show "CPair t vs \<in> U" using stacks_top by blast
  qed
  from inv0 node n stack show thesis
  proof (cases rule: add_node_cases)
    case (whole b s1)
    have "expects (ser_read_op_stack s1) (CPair t vs) (tl ts) T"
      using ts(2) whole_ts [OF whole(1)] unfolding expects_def ops whole(7) by (cases ts) (auto simp: s0_def)
    from add_step_whole [OF whole(4) this whole(2)] obtain s2 vs2 where s2: "close_serializer H s1 = (Ok (), s2)"
        "ser_inv a st vs2 s2" "ser_read_op_stack s2 = [] \<or> hd (ser_read_op_stack s2) = RParse"
        "expects (ser_read_op_stack s2) vs2 (tl ts) T" "ser_output s2 = ser_output s1" "ser_write_stack s2 = ser_write_stack s1"
        "feeds (RParse # ser_read_op_stack s1) vs b (ser_read_op_stack s2) vs2" by blast
    show thesis
    proof (rule that)
      show "add_loop H a s = add_loop H a s2" using loop [OF whole(3)] s2(1) by simp
      have "bounded s2 (tl ts) T" using ts(3) whole_ts [OF whole(1)] whole(5,9) s2(5)
        by (cases ts) (auto simp: bounded_def ref_size_def s0_def)
      then show "pending a st s2 vs2 hs adds T" using s2 whole_ts [OF whole(1)] by (auto simp: pending_def)
      show "list_all2 (hrep a st) (ser_write_stack s2) hs" using wss s2(6) whole(6) by (simp add: s0_def)
      show "goes s vs s2 vs2" using s2(5,7) whole(5,7) ops by (auto simp: goes_def s0_def)
      show "sum_list (map hsize hs) < sum_list (map hsize (h # hs))" by (cases h) simp_all
    qed
  next
    case (opened l r s1)
    from h(1) h(2) node opened(1) obtain hl hr where hb: "h = Branch hl hr" "hrep a st (pfirst a n) hl" "hrep a st (prest a n) hr"
      by (cases rule: hrep.cases) (auto dest: rep_det)
    from ts(1) obtain tl' tr us where us: "ts = CPair tl' tr # us" "filled (hl # hr # hs) adds (tl' # tr # us)"
      unfolding hb(1) by (auto elim: filled_BranchE)
    have ops1: "ser_read_op_stack s1 = RParse # RParse # RCons # ops" using opened(6) by (simp add: s0_def)
    have "expects (ser_read_op_stack s1) vs (tl' # tr # us) T"
      using ts(2) unfolding expects_def ops ops1 us(1) run_ops_open op_stacks_open .
    moreover have "close_serializer H s1 = (Ok (), s1)" by (simp add: close_serializer_def ops1)
    moreover have "bounded s1 (tl' # tr # us) T" using ts(3) opened(4) by (auto simp: bounded_def us(1) s0_def)
    ultimately show thesis
      by (intro that [of s1 vs "hl # hr # hs"])
        (use loop [OF opened(2)] opened us hb wss ops ops1 feeds_open [OF feeds_refl] in
          \<open>auto simp: pending_def goes_def s0_def\<close>)
  qed
qed

text \<open>
  A call runs to the end or to the next hole; in both cases the bytes written take the
  reader to the state the serializer records.
\<close>

lemma add_loop_runs:
  assumes "pending a st s vs hs adds T" "list_all2 (hrep a st) (ser_write_stack s) hs"
  shows "\<exists>done s' vs'. add_loop H a s = Some (Ok done, s') \<and> goes s vs s' vs' \<and>
    (if done then adds = [] \<and> pending a st s' vs' [] [] T
     else \<exists>hs'. pending a st s' vs' (Hole # hs') adds T \<and> list_all2 (hrep a st) (ser_write_stack s') hs')"
  using assms
proof (induction "sum_list (map hsize hs)" arbitrary: s vs hs rule: less_induct)
  case less
  show ?case
  proof (cases hs)
    case Nil
    then have "add_loop H a s = Some (Ok True, s)" using less.prems(2) by (subst add_loop.simps) simp
    moreover have "adds = []" using less.prems(1) Nil by (auto simp: pending_def elim: filled_NilE)
    ultimately show ?thesis using goes_refl less.prems(1) Nil by fastforce
  next
    case (Cons h hs1)
    then obtain n ws where ws: "ser_write_stack s = n # ws" "hrep a st n h" "list_all2 (hrep a st) ws hs1"
      using less.prems(2) by (auto simp: list_all2_Cons2)
    show ?thesis
    proof (cases "h = Hole")
      case True
      let ?s = "s\<lparr> ser_write_stack := ws \<rparr>"
      have "Some n = ser_sentinel s" using ws(2) True less.prems(1) by (auto simp: pending_def ser_inv_def elim: hrep_HoleE)
      then have "add_loop H a s = Some (Ok False, ?s)" using ws(1) by (subst add_loop.simps) simp
      moreover have "goes s vs ?s vs" using goes_refl [of s vs] by (simp add: goes_def)
      moreover have "pending a st ?s vs (Hole # hs1) adds T" using less.prems(1) Cons True by (simp add: pending_def ser_inv_def at_end_def)
      ultimately show ?thesis using ws(3) by (intro exI [of _ False]) fastforce
    next
      case False
      obtain s' vs' hs' where step: "add_loop H a s = add_loop H a s'" "pending a st s' vs' hs' adds T"
          "list_all2 (hrep a st) (ser_write_stack s') hs'" "goes s vs s' vs'" "sum_list (map hsize hs') < sum_list (map hsize hs)"
        using add_loop_step [OF less.prems(1) [unfolded Cons] ws(1,2) False ws(3)] unfolding Cons by blast
      from less.hyps [OF step(5,2,3)] show ?thesis unfolding step(1) using goes_trans [OF step(4)] by blast
    qed
  qed
qed

text \<open>The next call brings the tree for the hole the last one stopped at.\<close>

lemma pending_next:
  assumes "pending a st s vs (Hole # hs) (h # adds) T" "extends a a'"
  shows "pending a' st (s\<lparr> ser_write_stack := ws \<rparr>) vs (h # hs) adds T"
  using assms hash_cache.cache_ok_extends length_cache.cache_ok_extends
  by (fastforce simp: pending_def ser_inv_def at_end_def elim: filled_HoleE)

lemma pending_ops: "pending a st s vs (h # hs) adds T \<Longrightarrow> ser_read_op_stack s \<noteq> []"
  by (auto simp: pending_def expects_def elim: filled.cases run_ops.elims)

lemma serializer_add_runs:
  assumes "pending a st s vs (Hole # hs) (h # adds) T" "list_all2 (hrep a st) (ser_write_stack s) hs"
    "extends a a'" "hrep a' st n h"
  shows "\<exists>done s' vs'. serializer_add H s a' n = Some (Ok (done, undo_state s), s') \<and> goes s vs s' vs' \<and>
    (if done then adds = [] \<and> pending a' st s' vs' [] [] T
     else \<exists>hs'. pending a' st s' vs' (Hole # hs') adds T \<and> list_all2 (hrep a' st) (ser_write_stack s') hs')"
proof -
  let ?s = "s\<lparr> ser_write_stack := n # ser_write_stack s \<rparr>"
  have "list_all2 (hrep a' st) (ser_write_stack ?s) (h # hs)"
    using assms hrep_extends by (auto elim: list_all2_mono)
  from add_loop_runs [OF pending_next [OF assms(1,3)] this] obtain dn s' vs' where
    loop: "add_loop H a' ?s = Some (Ok dn, s')" "goes ?s vs s' vs'"
      "if dn then adds = [] \<and> pending a' st s' vs' [] [] T
       else \<exists>hs'. pending a' st s' vs' (Hole # hs') adds T \<and> list_all2 (hrep a' st) (ser_write_stack s') hs'" by blast
  have "serializer_add H s a' n = Some (Ok (dn, undo_state s), s')"
    using loop(1) pending_ops [OF assms(1)] by (simp add: serializer_add_def)
  moreover have "goes s vs s' vs'" using loop(2) by (simp add: goes_def)
  ultimately show ?thesis using loop(3) by blast
qed

lemma pending_hole_adds: "pending a st s vs (Hole # hs) [] T \<Longrightarrow> False"
  by (auto simp: pending_def elim: filled_HoleE)

lemma add_all_runs:
  assumes "pending a st s vs (Hole # hs) (map snd calls) T" "list_all2 (hrep a st) (ser_write_stack s) hs"
    "sorted_wrt extends (a # map (fst \<circ> fst) calls)" "\<forall>((a, n), h) \<in> set calls. hrep a st n h"
  shows "\<exists>a' s' vs'. add_all H s (map fst calls) = Some s' \<and> goes s vs s' vs' \<and> pending a' st s' vs' [] [] T"
  using assms
proof (induction calls arbitrary: a s vs hs)
  case Nil
  then show ?case by (auto dest: pending_hole_adds)
next
  case (Cons call calls)
  obtain a1 n h where call: "call = ((a1, n), h)" by (cases call) auto
  obtain dn s1 vs1 where s1: "serializer_add H s a1 n = Some (Ok (dn, undo_state s), s1)" "goes s vs s1 vs1"
    "if dn then map snd calls = [] \<and> pending a1 st s1 vs1 [] [] T
     else \<exists>hs'. pending a1 st s1 vs1 (Hole # hs') (map snd calls) T \<and> list_all2 (hrep a1 st) (ser_write_stack s1) hs'"
    using serializer_add_runs [of a st s vs hs h "map snd calls" T a1 n] Cons.prems call by auto
  show ?case
  proof (cases dn)
    case True
    then show ?thesis using s1 call by auto
  next
    case False
    with s1(3) obtain hs' where hs': "pending a1 st s1 vs1 (Hole # hs') (map snd calls) T"
      "list_all2 (hrep a1 st) (ser_write_stack s1) hs'" by auto
    then have "calls \<noteq> []" using pending_hole_adds by auto
    moreover have "\<exists>a' s' vs'. add_all H s1 (map fst calls) = Some s' \<and> goes s1 vs1 s' vs' \<and> pending a' st s' vs' [] [] T"
      using Cons.IH [OF hs'] Cons.prems(3,4) call by simp
    ultimately have "\<exists>a' s' vs'. add_all H s (map fst (call # calls)) = Some s' \<and> goes s1 vs1 s' vs' \<and> pending a' st s' vs' [] [] T"
      using False s1(1) call by simp
    then show ?thesis using goes_trans [OF s1(2)] by blast
  qed
qed

lemma pending_new:
  assumes "filled [Hole] adds [T]" "stacks (CAtom []) T \<subseteq> U" "CAtom [] \<in> U"
  shows "pending a st (serializer_new H st) (CAtom []) [Hole] adds T"
  using assms bounded_new [of H st T] by (auto simp: pending_def ser_inv_def serializer_new_def at_end_def cursor_new_def expects_def
      hash_cache.cache_ok_new length_cache.cache_ok_new cache_inv_new intro!: exI [of _ "[T]"])

lemma pending_finished:
  assumes "pending a st s vs [] [] T"
  shows "ser_read_op_stack s = []" "\<exists>vs1. vs = CPair T vs1" "length (get_ref (ser_output s)) \<le> 2 * length (cser T)"
proof -
  from assms obtain "run_ops (ser_read_op_stack s) vs [] = Some T" "ser_read_op_stack s = [] \<or> hd (ser_read_op_stack s) = RParse"
      "bounded s [] T"
    by (auto simp: pending_def expects_def elim: filled_NilE)
  then show "ser_read_op_stack s = []" "\<exists>vs1. vs = CPair T vs1" "length (get_ref (ser_output s)) \<le> 2 * length (cser T)"
    by (auto simp: bounded_def elim: run_ops.elims)
qed

theorem add_all_correct:
  assumes "filled [Hole] (map snd calls) [T]" "stacks (CAtom []) T \<subseteq> U" "CAtom [] \<in> U"
    "sorted_wrt extends (map (fst \<circ> fst) calls)" "\<forall>((a, n), h) \<in> set calls. hrep a st n h"
  shows "\<exists>s out. add_all H (serializer_new H st) (map fst calls) = Some s \<and> serializer_into_inner s = Ok out \<and>
    parses ref_lookup (CAtom []) out T \<and> length out \<le> 2 * length (cser T)"
proof -
  obtain a n h calls' where calls: "calls = ((a, n), h) # calls'" using assms(1) by (cases calls) (auto elim: filled_HoleE)
  obtain a' s' vs' where run: "add_all H (serializer_new H st) (map fst calls) = Some s'"
      "goes (serializer_new H st) (CAtom []) s' vs'" "pending a' st s' vs' [] [] T"
    using add_all_runs [OF pending_new [OF assms(1-3), of a st]] assms(4,5) calls by (fastforce simp: serializer_new_def)
  note fin = pending_finished [OF run(3)]
  then have "feeds [RParse] (CAtom []) (get_ref (ser_output s')) [] vs'"
    using run(2) by (auto simp: goes_def serializer_new_def cursor_new_def)
  from feeds_value_read [OF this] fin have "parses ref_lookup (CAtom []) (get_ref (ser_output s')) T" by auto
  then show ?thesis using run(1) fin by (auto simp: serializer_into_inner_def)
qed

text \<open>
  A tree without sentinel is written exactly as by the regular serializer: as the recursive
  function of its value and of the read cache.
\<close>

definition written_free :: "Allocator \<Rightarrow> NodePtr option \<Rightarrow> clvm \<Rightarrow> clvm \<Rightarrow> Serializer \<Rightarrow> Serializer \<Rightarrow> bool" where
  "written_free a st vs t s s' \<longleftrightarrow>
     ser_inv a st (CPair t vs) s' \<and> ser_write_stack s' = tl (ser_write_stack s) \<and> ser_read_op_stack s' = tl (ser_read_op_stack s) \<and>
     (\<exists>b. br_write H t (ser_read_cache s) = Some (b, ser_read_cache s') \<and> get_ref (ser_output s') = get_ref (ser_output s) @ b) \<and>
     (\<forall>ops rc. close_conses H (ser_read_op_stack s') (ser_read_cache s') = Ok (ops, rc) \<longrightarrow>
        add_loop H a s = add_loop H a (s'\<lparr> ser_read_op_stack := ops, ser_read_cache := rc \<rparr>))"

lemma add_free_cases:
  assumes inv: "ser_inv a st vs s" and ws: "ser_write_stack s = n # ws" and ops: "ser_read_op_stack s = RParse # ops"
    and t: "free a st n t" and U: "stacks vs t \<subseteq> U"
  obtains (whole) s' where "written_free a st vs t s s'"
    | (opened) l r s' where "t = CPair l r" "find_path (ser_read_cache s) (tree_hash H t) (slen t) = Some (Ok None)"
      "ser_inv a st vs s'" "get_ref (ser_output s') = get_ref (ser_output s) @ [0xff]"
      "ser_write_stack s' = pfirst a n # prest a n # ws" "ser_read_op_stack s' = RParse # RParse # RCons # ops"
      "ser_read_cache s' = ser_read_cache s" "add_loop H a s = add_loop H a s'"
proof -
  define s0 where "s0 = s\<lparr> ser_write_stack := ws, ser_read_op_stack := ops \<rparr>"
  have inv0: "ser_inv a st vs s0" using inv by (simp add: ser_inv_def s0_def at_end_def)
  have st: "ser_sentinel s = st" using inv by (simp add: ser_inv_def)
  have loop: "add_loop H a s = tryP (tryS m (\<lambda>_. close_serializer H)) (\<lambda>_. add_loop H a)" if "add_node H a n s0 = Some m" for m
    using ws ops free_stop [OF t] st that by (subst add_loop.simps) (simp add: s0_def)
  have "free a st n t \<longrightarrow> CPair t vs \<in> U" using U stacks_top by blast
  from inv0 free_rep [OF t] free_stop [OF t] this show thesis
  proof (cases rule: add_node_cases)
    case (whole b s')
    then have "written_free a st vs t s s'" using loop [OF whole(3)] ws ops
      by (auto simp: written_free_def s0_def close_serializer_def)
    then show thesis by (rule that(1))
  next
    case (opened l r s')
    have "close_serializer H s' = (Ok (), s')" using opened(6) by (simp add: close_serializer_def s0_def)
    then show thesis using that(2) [of l r s'] opened t loop [OF opened(2)] by (simp add: s0_def)
  qed
qed

lemma add_loop_free:
  assumes "ser_inv a st vs s" "ser_write_stack s = n # ws" "ser_read_op_stack s = RParse # ops" "free a st n t" "stacks vs t \<subseteq> U"
  shows "\<exists>s'. written_free a st vs t s s'"
  using assms
proof (induction t arbitrary: n vs s ws ops rule: clvm.induct)
  case (CAtom bs)
  then show ?case by (rule add_free_cases) auto
next
  case (CPair l r)
  from CPair.prems show ?case
  proof (cases rule: add_free_cases)
    case (opened l' r' s1)
    note node = CPair.prems(4)
    have sub: "free a st (pfirst a n) l" "free a st (prest a n) r" using node by (auto elim: free_CPairE)
    have U: "stacks vs l \<subseteq> U" "stacks (CPair l vs) r \<subseteq> U" "CPair (CPair l r) vs \<in> U" using CPair.prems(5) by auto
    obtain s2 where s2: "written_free a st vs l s1 s2" using CPair.IH(1) [OF opened(3,5,6) sub(1) U(1)] by blast
    then have s2': "ser_inv a st (CPair l vs) s2" "ser_write_stack s2 = prest a n # ws" "ser_read_op_stack s2 = RParse # RCons # ops"
      using opened(5,6) by (simp_all add: written_free_def)
    obtain s3 where s3: "written_free a st (CPair l vs) r s2 s3" using CPair.IH(2) [OF s2' sub(2) U(2)] by blast
    then have rc3: "cache_inv (CPair r (CPair l vs)) (ser_read_cache s3)" by (simp add: written_free_def ser_inv_def)
    obtain rc where rc: "pop2_and_cons H (ser_read_cache s3) = Ok rc" "cache_inv (CPair (CPair l r) vs) rc"
      using pop2_and_cons_inv [OF rc3 U(3)] by blast
    let ?s = "s3\<lparr> ser_read_op_stack := ops, ser_read_cache := rc \<rparr>"
    obtain bl br where b: "br_write H l (ser_read_cache s1) = Some (bl, ser_read_cache s2)"
        "get_ref (ser_output s2) = get_ref (ser_output s1) @ bl" "br_write H r (ser_read_cache s2) = Some (br, ser_read_cache s3)"
        "get_ref (ser_output s3) = get_ref (ser_output s2) @ br" using s2 s3 unfolding written_free_def by blast
    have out: "br_write H (CPair l r) (ser_read_cache s) = Some (0xff # bl @ br, rc)"
        "get_ref (ser_output s3) = get_ref (ser_output s) @ 0xff # bl @ br"
      using br_write_pair [OF opened(2) _ b(3) rc(1)] b opened(4,7) by (simp_all add: CONS_BOX_MARKER_def)
    have "close_conses H (ser_read_op_stack s2) (ser_read_cache s2) = Ok (ser_read_op_stack s2, ser_read_cache s2)" using s2'(3) by simp
    then have "add_loop H a s1 = add_loop H a (s2\<lparr> ser_read_op_stack := ser_read_op_stack s2, ser_read_cache := ser_read_cache s2 \<rparr>)"
      using s2 unfolding written_free_def by blast
    then have "add_loop H a s1 = add_loop H a s2" by simp
    moreover have "add_loop H a s2 = add_loop H a (?s\<lparr> ser_read_op_stack := ops', ser_read_cache := rc' \<rparr>)"
      if "close_conses H ops rc = Ok (ops', rc')" for ops' rc'
      using that s3 s2'(3) rc(1) by (simp add: written_free_def)
    ultimately have "written_free a st vs (CPair l r) s ?s"
      using out s3 s2' rc(2) opened(8) CPair.prems(2,3) by (simp add: written_free_def ser_inv_def at_end_def)
    then show ?thesis ..
  qed blast
qed

lemma add_single:
  assumes "free a st n t" "stacks (CAtom []) t \<subseteq> U" "CAtom [] \<in> U"
  shows "\<exists>s. serializer_add H (serializer_new H st) a n = Some (Ok (True, undo_state (serializer_new H st)), s) \<and>
    serializer_into_inner s = Ok (br_ser H t)"
proof -
  let ?s = "(serializer_new H st)\<lparr> ser_write_stack := [n] \<rparr>"
  have new: "ser_inv a st (CAtom []) ?s"
    by (simp add: ser_inv_def serializer_new_def at_end_def cursor_new_def hash_cache.cache_ok_new length_cache.cache_ok_new
        cache_inv_new [OF assms(3)])
  obtain s' where s': "written_free a st (CAtom []) t ?s s'"
    using add_loop_free [OF new _ _ assms(1,2)] by (auto simp: serializer_new_def)
  then have f: "ser_write_stack s' = []" "ser_read_op_stack s' = []" "get_ref (ser_output s') = br_ser H t"
    by (auto simp: written_free_def serializer_new_def cursor_new_def br_ser_def)
  then have "add_loop H a ?s = add_loop H a (s'\<lparr> ser_read_op_stack := [], ser_read_cache := ser_read_cache s' \<rparr>)"
    using s' by (simp add: written_free_def)
  also have "\<dots> = Some (Ok True, s'\<lparr> ser_read_op_stack := [], ser_read_cache := ser_read_cache s' \<rparr>)"
    by (subst add_loop.simps) (simp add: f)
  finally show ?thesis using f by (simp add: serializer_add_def serializer_new_def serializer_into_inner_def)
qed

end

end
