(* ===== verification/BackrefProps.thy ===== *)
theory BackrefProps
  imports SerdeProps IncrementalSpec
begin

text \<open>
  The properties of the serializers that write back-references, with the concrete inputs at
  which their hypotheses hold. The tree hashes are assumed to have no collision among the
  values a reader holds while it reads the value, never more.
\<close>

section \<open>Concrete inputs\<close>

text \<open>The identity is a hash function without collisions on the values of a small run.\<close>

lemma ex_universe: "inj_on (tree_hash id) (universe ex_tree)"
  by (simp add: ex_tree_def universe_def inj_on_def)

lemma ex_values: "inj_on (tree_hash id) (subtrees (stack_value [ex_tree]) \<union> subtrees ex_tree)"
  by (simp add: ex_tree_def stack_value_def inj_on_def)

section \<open>Caches over the tree\<close>

text \<open>
  C29. The cached tree hash of a node is the hash of its value, and there is none exactly when
  the stop token lies below the node; the calculation returns on every node that denotes a
  value, and what a second call finds in the cache agrees with it, also after the allocator
  has grown.
\<close>

theorem cached_tree_hash:
  assumes "rep a n t" "extends a a'" "rep a' m u"
  shows "\<exists>oc oc'.
    get_or_calculate (object_cache_new (treehash H)) a n st =
      Some (Ok (if free a st n t then Some (tree_hash H t) else None), oc) \<and>
    get_or_calculate oc a' m st = Some (Ok (if free a' st m u then Some (tree_hash H u) else None), oc')"
proof -
  obtain oc where oc: "get_or_calculate (object_cache_new (treehash H)) a n st =
      Some (Ok (if free a st n t then Some (tree_hash H t) else None), oc)" "hash_cache.cache_ok H a st oc"
    by (rule hash_cache.get_or_calculate_cases [OF hash_cache.cache_ok_new assms(1)])
  from hash_cache.get_or_calculate_cases [OF hash_cache.cache_ok_extends [OF oc(2) assms(2)] assms(3)] oc(1)
  show ?thesis by metis
qed

theorem cached_tree_hash_witness:
  "\<exists>oc oc'.
    get_or_calculate (object_cache_new (treehash id)) ex_quote_alloc ex_quote None =
      Some (Ok (if free ex_quote_alloc None ex_quote ex_tree then Some (tree_hash id ex_tree) else None), oc) \<and>
    get_or_calculate oc ex_quote_alloc ex_quote None =
      Some (Ok (if free ex_quote_alloc None ex_quote ex_tree then Some (tree_hash id ex_tree) else None), oc')"
  by (rule cached_tree_hash [OF ex_rep extends_refl ex_rep])

section \<open>Paths to earlier values\<close>

text \<open>
  C21. After the hashes of the values \<open>ts\<close> have been pushed, a path that \<open>find_path\<close> returns
  for the hash of \<open>t\<close> leads, from the list of these values, to \<open>t\<close>, unless the tree hash has a
  collision among these values; the search returns, and its internal index checks never fail.
\<close>

theorem find_path_correct:
  assumes "inj_on (tree_hash H) (subtrees (stack_value ts) \<union> subtrees t)"
  shows "\<exists>found. find_path (fold (\<lambda>t rc. read_cache_push H rc (tree_hash H t)) (rev ts) (read_cache_new H)) (tree_hash H t) sl =
      Some (Ok found) \<and> (\<forall>v. found = Some v \<longrightarrow> ref_lookup v (stack_value ts) = Some t)"
proof -
  let ?U = "subtrees (stack_value ts) \<union> subtrees t"
  have hu: "hash_universe H ?U" using assms by unfold_locales (auto dest: subtrees_parts)
  have vs: "hash_universe.cache_inv H ?U (stack_value ss) (fold (\<lambda>t rc. read_cache_push H rc (tree_hash H t)) (rev ss) (read_cache_new H))"
    if "ts = us @ ss" for us ss
    using that
  proof (induction ss arbitrary: us)
    case Nil
    have "CAtom [] \<in> subtrees (stack_value ts)" by (induction ts) (auto simp: stack_value_def)
    then show ?case using hash_universe.cache_inv_new [OF hu] by (simp add: stack_value_def)
  next
    case (Cons u ss)
    have "stack_value (u # ss) \<in> subtrees (stack_value (us @ u # ss))" for us
      by (induction us) (auto simp: stack_value_def subtrees_self)
    then have "CPair u (stack_value ss) \<in> ?U" using Cons.prems by (auto simp: stack_value_def)
    from hash_universe.cache_inv_push [OF hu Cons.IH this, of "us @ [u]"] Cons.prems show ?case by (simp add: stack_value_def)
  qed
  have "t \<in> ?U" by (simp add: subtrees_self)
  from hash_universe.find_path_sound [OF hu vs [of "[]", simplified, OF refl] this] obtain r where
    r: "find_path (fold (\<lambda>t rc. read_cache_push H rc (tree_hash H t)) (rev ts) (read_cache_new H)) (tree_hash H t) sl = Some (Ok r)"
      "\<And>v. r = Some v \<Longrightarrow> \<exists>p. be_nat v = path_nat p \<and> length v = length p div 8 + 1 \<and> cpath (path_nat p) (stack_value ts) = Inr t"
    by blast
  have "ref_lookup v (stack_value ts) = Some t" if "r = Some v" for v
  proof -
    from r(2) [OF that] obtain p where "be_nat v = path_nat p" "cpath (path_nat p) (stack_value ts) = Inr t" by blast
    then show ?thesis using path_nat_pos [of p] by (simp add: ref_lookup_def)
  qed
  with r(1) show ?thesis by blast
qed

theorem find_path_correct_witness:
  "\<exists>found. find_path (fold (\<lambda>t rc. read_cache_push id rc (tree_hash id t)) (rev [ex_tree]) (read_cache_new id)) (tree_hash id ex_tree) 9 =
      Some (Ok found) \<and> (\<forall>v. found = Some v \<longrightarrow> ref_lookup v (stack_value [ex_tree]) = Some ex_tree)"
  by (rule find_path_correct [OF ex_values])

section \<open>Serialization\<close>

text \<open>
  C15. Serialization with back-references returns on every node that denotes a value, and
  deserializing its bytes, in any well-formed allocator and whatever bytes follow, gives a
  node of the same value, unless that allocator runs out of space.
\<close>

theorem backrefs_roundtrip:
  assumes "alloc_ok a" "rep a n t" "inj_on (tree_hash H) (universe t)" "tight a1"
  shows "\<exists>b. node_to_bytes_backrefs H a n = Some (Ok b) \<and>
    (case node_from_bytes_backrefs a1 (b @ rest) of
       (Ok n', a') \<Rightarrow> tight a' \<and> extends a1 a' \<and> rep a' n' t
     | (Err er, a') \<Rightarrow> tight a' \<and> extends a1 a' \<and> er \<in> alloc_errs
     | (Panic p, a') \<Rightarrow> False)"
proof -
  note b = node_to_bytes_backrefs_eq [OF assms(1-3)] br_ser_parses(1) [OF assms(1-3)]
  from node_from_bytes_backrefs_cases [OF assms(4), of "br_ser H t @ rest"] b show ?thesis
    by (fastforce simp: parsable_def dest: parses_unique split: prod.splits outcome.splits)
qed

theorem backrefs_roundtrip_witness:
  "\<exists>b. node_to_bytes_backrefs id ex_quote_alloc ex_quote = Some (Ok b) \<and>
    (case node_from_bytes_backrefs ex_alloc (b @ []) of
       (Ok n', a') \<Rightarrow> tight a' \<and> extends ex_alloc a' \<and> rep a' n' ex_tree
     | (Err er, a') \<Rightarrow> tight a' \<and> extends ex_alloc a' \<and> er \<in> alloc_errs
     | (Panic p, a') \<Rightarrow> False)"
  by (rule backrefs_roundtrip [OF ex_quote_ok(1) ex_rep ex_universe ex_tight(1)])

text \<open>
  C27. If the tree hash has no collision among the values of the run, the limited serializer with
  back-references writes one serialization of the value whatever the limit, if it fits, and
  reports that memory is exhausted if it does not.
\<close>

theorem node_to_bytes_backrefs_limit_correct:
  assumes "alloc_ok a" "rep a n t" "inj_on (tree_hash H) (universe t)"
  shows "\<exists>s. parses ref_lookup (CAtom []) s t \<and>
    (\<forall>limit. node_to_bytes_backrefs_limit H a n limit = Some (if length s \<le> limit then Ok s else Err out_of_memory))"
  using node_to_bytes_backrefs_limit_eq [OF assms] br_ser_parses(1) [OF assms] by blast

theorem node_to_bytes_backrefs_limit_correct_witness:
  "\<exists>s. parses ref_lookup (CAtom []) s ex_tree \<and>
    (\<forall>limit. node_to_bytes_backrefs_limit id ex_quote_alloc ex_quote limit =
       Some (if length s \<le> limit then Ok s else Err out_of_memory))"
  by (rule node_to_bytes_backrefs_limit_correct [OF ex_quote_ok(1) ex_rep ex_universe])

text \<open>
  C16. If the tree hash has no collision among the values of the run, the compressed form of a value
  depends on the value alone: two nodes of equal value, in any
  two allocators, are serialized to the same bytes, and the incremental serializer, given the
  node in one call, writes these bytes too and reports that the output is complete. They are at
  most twice as many as without back-references, and not more for a value of height at most 250.
\<close>

theorem backrefs_canonical:
  assumes "alloc_ok a" "rep a n t" "alloc_ok a'" "rep a' n' t" "inj_on (tree_hash H) (universe t)"
  shows "\<exists>b s. node_to_bytes_backrefs H a n = Some (Ok b) \<and> node_to_bytes_backrefs H a' n' = Some (Ok b) \<and>
    serializer_add H (serializer_new H None) a n = Some (Ok (True, undo_state (serializer_new H None)), s) \<and>
    serializer_into_inner s = Ok b \<and>
    length b \<le> 2 * length (cser t) \<and> (height t \<le> 250 \<longrightarrow> length b \<le> length (cser t))"
proof -
  note U = stacks_run_universe [OF assms(1,2,5)]
  have "CPair t (CAtom []) \<in> run_universe H t" using U stacks_top by blast
  then have nil: "CAtom [] \<in> run_universe H t" using run_universe.parts by blast
  note single = run_universe.add_single [OF free_None [OF assms(2)] U nil]
  show ?thesis using single node_to_bytes_backrefs_eq [OF assms(1,2,5)] node_to_bytes_backrefs_eq [OF assms(3,4,5)]
      br_ser_length [OF assms(1,2,5)] by blast
qed

theorem backrefs_canonical_witness:
  "\<exists>b s. node_to_bytes_backrefs id ex_quote_alloc ex_quote = Some (Ok b) \<and> node_to_bytes_backrefs id ex_quote_alloc ex_quote = Some (Ok b) \<and>
    serializer_add id (serializer_new id None) ex_quote_alloc ex_quote = Some (Ok (True, undo_state (serializer_new id None)), s) \<and>
    serializer_into_inner s = Ok b \<and> length b \<le> length (cser ex_tree)"
proof -
  have "height ex_tree \<le> 250" by (simp add: ex_tree_def)
  then show ?thesis using backrefs_canonical [OF ex_quote_ok(1) ex_rep ex_quote_ok(1) ex_rep ex_universe] by blast
qed

section \<open>Incremental serialization\<close>

lemma universe_stacks:
  assumes "inj_on (tree_hash H) (universe t)" "height t < 2 ^ 34"
  shows "stacks (CAtom []) t \<subseteq> run_universe H t" "CAtom [] \<in> run_universe H t"
proof -
  have U: "run_universe H t = universe t" using assms by (simp add: run_universe_def)
  show "stacks (CAtom []) t \<subseteq> run_universe H t" unfolding U universe_def using subtrees_self by blast
  have "CAtom [] \<in> subtrees (CPair t (CAtom []))" by simp
  then show "CAtom [] \<in> run_universe H t" unfolding U universe_def using stacks_top by blast
qed

text \<open>
  C17. The incremental serializer, called with one node after the other, possibly from an
  allocator that grows in between: if the trees, each filling the next sentinel from the
  left, make up the value \<open>T\<close>, then every call returns, only the last one reports that the
  output is complete, and the output is a serialization of \<open>T\<close>, at most twice as long as the
  plain one. The tree hash has no collision among the values of the run, and \<open>T\<close> is of a
  height below 2^34.
\<close>

theorem incremental_correct:
  assumes "filled [Hole] (map snd calls) [T]" "\<forall>((a, n), h) \<in> set calls. hrep a st n h"
    "sorted_wrt extends (map (fst \<circ> fst) calls)" "inj_on (tree_hash H) (universe T)" "height T < 2 ^ 34"
  shows "\<exists>s out. add_all H (serializer_new H st) (map fst calls) = Some s \<and> serializer_into_inner s = Ok out \<and>
    parses ref_lookup (CAtom []) out T \<and> length out \<le> 2 * length (cser T)"
  by (rule run_universe.add_all_correct [where t = T, OF assms(1) universe_stacks [OF assms(4,5)] assms(3,2)])

definition ex_calls :: "((Allocator \<times> NodePtr) \<times> htree) list" where
  "ex_calls = [((ex_quote_alloc, ex_quote), Branch (Leaf [1]) Hole), ((ex_quote_alloc, node_new OSmallAtom 1), Leaf [1])]"

lemma ex_calls_filled: "filled [Hole] (map snd ex_calls) [CPair (CAtom [1]) (CAtom [1])]"
  by (simp add: ex_calls_def) (intro filled.intros)

lemma ex_nodes: "node_new OSmallAtom 5 \<noteq> node_new OPair 0" "node_new OSmallAtom 5 \<noteq> node_new OSmallAtom (Suc 0)"
  by (simp_all add: node_new_def NODE_PTR_IDX_BITS_def)

lemma ex_calls_hrep: "\<forall>((a, n), h) \<in> set ex_calls. hrep a (Some (node_new OSmallAtom 5)) n h"
proof -
  have one: "hrep ex_quote_alloc (Some (node_new OSmallAtom 5)) (node_new OSmallAtom 1) (Leaf [1])"
    using rep_small_new [of 1 ex_quote_alloc] ex_bytes by (intro hrep_leaf) (simp_all add: ex_nodes)
  then have "hrep ex_quote_alloc (Some (node_new OSmallAtom 5)) ex_quote (Branch (Leaf [1]) Hole)"
    using ex_rep by (intro hrep_branch) (auto simp: ex_tree_def pfirst_def prest_def ex_quote_def ex_quote_alloc_def ex_nodes intro: hrep_hole)
  with one show ?thesis by (simp add: ex_calls_def)
qed

theorem incremental_correct_witness:
  "\<exists>s out. add_all id (serializer_new id (Some (node_new OSmallAtom 5))) (map fst ex_calls) = Some s \<and>
    serializer_into_inner s = Ok out \<and> parses ref_lookup (CAtom []) out (CPair (CAtom [1]) (CAtom [1])) \<and>
    length out \<le> 2 * length (cser (CPair (CAtom [1]) (CAtom [1])))"
  by (rule incremental_correct [OF ex_calls_filled ex_calls_hrep])
    (simp_all add: ex_calls_def universe_def inj_on_def)

text \<open>
  C20. Undoing a call to the incremental serializer gives back the serializer before the
  call: its stacks, its cache of values read, its output and position. Only the two caches
  of hashes and lengths keep what they have learnt. The cursor of the output is at its end, as it is
  in a new serializer and after every call.
\<close>

theorem restore_undoes_add:
  assumes "position (ser_output s) = length (get_ref (ser_output s))" "serializer_add H s a n = Some (Ok (finished, undo), s')"
  shows "serializer_restore s' undo = s\<lparr> ser_thc := ser_thc s', ser_slc := ser_slc s' \<rparr>"
  using restore_undo [OF _ assms(2)] assms(1) by (simp add: at_end_def)

theorem restore_undoes_add_witness:
  "\<exists>s'. serializer_restore s' (undo_state (serializer_new id (Some (node_new OSmallAtom 5)))) =
     (serializer_new id (Some (node_new OSmallAtom 5)))\<lparr> ser_thc := ser_thc s', ser_slc := ser_slc s' \<rparr>"
proof -
  let ?s = "serializer_new id (Some (node_new OSmallAtom 5))"
  let ?t = "CPair (CAtom [1]) (CAtom [1]) :: clvm"
  have inj: "inj_on (tree_hash id) (universe ?t)" by (simp add: universe_def inj_on_def)
  have "height ?t < 2 ^ 34" by simp
  note ready = universe_stacks [OF inj this]
  from run_universe.pending_new [OF ex_calls_filled ready, of ex_quote_alloc "Some (node_new OSmallAtom 5)"]
  have "run_universe.pending id ?t ex_quote_alloc (Some (node_new OSmallAtom 5)) ?s (CAtom []) [Hole]
      (Branch (Leaf [1]) Hole # [Leaf [1]]) ?t"
    by (simp add: ex_calls_def)
  note add = run_universe.serializer_add_runs [OF this _ extends_refl, of ex_quote]
  have "hrep ex_quote_alloc (Some (node_new OSmallAtom 5)) ex_quote (Branch (Leaf [1]) Hole)"
    using ex_calls_hrep by (simp add: ex_calls_def)
  from add [OF _ this] obtain f s' where "serializer_add id ?s ex_quote_alloc ex_quote = Some (Ok (f, undo_state ?s), s')"
    by (auto simp: serializer_new_def)
  from restore_undoes_add [OF _ this] show ?thesis by (auto simp: serializer_new_def cursor_new_def)
qed

end
