(* ===== verification/Bindings.thy ===== *)
theory Bindings
  imports RunProgram DeTree Tools DeBr SerBr
begin

text \<open>
  The two bindings of the crate: the Python module of \<open>src/wheel/src\<close> (\<open>api.rs\<close>,
  \<open>adapt_response.rs\<close>, \<open>lazy_node.rs\<close>) and the JavaScript module of \<open>src/wasm/src\<close>
  (\<open>run_program.rs\<close>, \<open>lazy_node.rs\<close>, \<open>serialize.rs\<close>). The host objects they hand out are
  plain values here: a Python tuple or a JavaScript array of two is a pair, \<open>bytes\<close> a byte list,
  an exception the error value of an outcome. The value \<open>None\<close> of an option around an outcome
  stands for a call that does not return.

  The crate below is modelled with the 64-bit \<open>usize\<close> of its native targets. On the 32-bit
  \<open>wasm32\<close> target \<open>usize\<close> subtraction wraps at 2^32 instead, which is the same function as long as
  it does not wrap.
\<close>

section \<open>Lazy nodes\<close>

text \<open>
  A node with the allocator it lives in. The \<open>Rc\<close> is never mutated through, so sharing
  the allocator between nodes is the same as each having its own copy. The struct and its two
  getters are the same in both modules.
\<close>

record LazyNode =
  ln_allocator :: Allocator
  ln_node :: NodePtr

definition lazy_node_new :: "Allocator \<Rightarrow> NodePtr \<Rightarrow> LazyNode" where
  "lazy_node_new a n = \<lparr> ln_allocator = a, ln_node = n \<rparr>"

definition lazy_pair :: "LazyNode \<Rightarrow> ('e, (LazyNode \<times> LazyNode) option) outcome" where
  "lazy_pair self =
     bindR (sexp (ln_allocator self) (ln_node self)) (\<lambda>s. case s of
       SPair p1 p2 \<Rightarrow> Ok (Some (lazy_node_new (ln_allocator self) p1, lazy_node_new (ln_allocator self) p2))
     | SAtom \<Rightarrow> Ok None)"

definition lazy_atom :: "LazyNode \<Rightarrow> ('e, bytes option) outcome" where
  "lazy_atom self =
     bindR (sexp (ln_allocator self) (ln_node self)) (\<lambda>s. case s of
       SAtom \<Rightarrow> bindR (atom_bytes (ln_allocator self) (ln_node self)) (\<lambda>bs. Ok (Some bs))
     | SPair _ _ \<Rightarrow> Ok None)"

section \<open>The Python module\<close>

datatype PyErr = PyIoError io_error | PyValueError string LazyNode

text \<open>The \<open>?\<close> operator on an \<open>io::Error\<close>, which becomes a Python exception.\<close>

definition py_io :: "'a io \<Rightarrow> (PyErr, 'a) outcome" where
  "py_io r = map_err PyIoError r"

definition py_serialized_length :: "bytes \<Rightarrow> (PyErr, nat) outcome" where
  "py_serialized_length program = py_io (serialized_length_from_bytes program)"

fun adapt_response :: "Allocator \<Rightarrow> Response \<Rightarrow> (PyErr, Cost \<times> LazyNode) outcome" where
  "adapt_response a (Ok red) = Ok (red_cost red, lazy_node_new a (red_node red))"
| "adapt_response a (Err eval_err) = Err (PyValueError (err_msg eval_err) (lazy_node_new a (err_node eval_err)))"
| "adapt_response a (Panic p) = Panic p"

definition py_allocator :: "u32 \<Rightarrow> ('e, Allocator) outcome" where
  "py_allocator flags = (if flags AND LIMIT_HEAP \<noteq> 0 then new_limited 500000000 else allocator_new)"

text \<open>The two calls of \<open>node_from_bytes\<close> in the closure, and the allocator they leave.\<close>

definition py_load :: "Allocator \<Rightarrow> bytes \<Rightarrow> bytes \<Rightarrow> (NodePtr \<times> NodePtr) io \<times> Allocator" where
  "py_load a program args =
     tryS (node_from_bytes a program) (\<lambda>program a.
     tryS (node_from_bytes a args) (\<lambda>args a. (Ok (program, args), a)))"

text \<open>Going on with the value of an outcome to a call that may not return.\<close>

fun thenO :: "('e, 'a) outcome \<Rightarrow> ('a \<Rightarrow> ('e, 'b) outcome option) \<Rightarrow> ('e, 'b) outcome option" where
  "thenO (Ok x) f = f x"
| "thenO (Err e) f = Some (Err e)"
| "thenO (Panic p) f = Some (Panic p)"

definition run_serialized_chia_program ::
  "('g1, 'g2, 'key, 'sig, 'x) ext_api_scheme \<Rightarrow> bytes \<Rightarrow> bytes \<Rightarrow> Cost \<Rightarrow> u32 \<Rightarrow> (PyErr, Cost \<times> LazyNode) outcome option" where
  "run_serialized_chia_program E program args max_cost flags =
     thenO (py_allocator flags) (\<lambda>allocator.
     let (r, allocator) = py_load allocator program args in
     thenO (py_io r) (\<lambda>(program, args).
     map_option (\<lambda>(r, allocator). adapt_response allocator r)
       (run_program E (chia_dialect E flags) allocator program args max_cost)))"

fun tuple_for_parsed_triple :: "ParsedTriple \<Rightarrow> nat list" where
  "tuple_for_parsed_triple (TAtom start end' atom_offset) = [start, end', atom_offset]"
| "tuple_for_parsed_triple (TPair start end' right_index) = [start, end', unat right_index]"

definition deserialize_as_tree :: "(bytes \<Rightarrow> bytes) \<Rightarrow> bytes \<Rightarrow> bool \<Rightarrow> (PyErr, nat list list \<times> bytes list option) outcome" where
  "deserialize_as_tree H blob calculate_tree_hashes =
     bindR (py_io (parse_triples H (cursor_new blob) calculate_tree_hashes)) (\<lambda>(r, tree_hashes).
     Ok (map tuple_for_parsed_triple r, tree_hashes))"

section \<open>The JavaScript module\<close>

definition ALLOW_BACKREFS :: u32 where "ALLOW_BACKREFS = 0x2000000"

text \<open>An error is reported as the text of its \<open>Display\<close> form.\<close>

definition js_io :: "'a io \<Rightarrow> (string, 'a) outcome" where
  "js_io r = map_err io_msg r"

definition to_bytes_with_backref :: "(bytes \<Rightarrow> bytes) \<Rightarrow> LazyNode \<Rightarrow> (string, bytes) outcome option" where
  "to_bytes_with_backref H self = map_option js_io (node_to_bytes_backrefs H (ln_allocator self) (ln_node self))"

definition lazy_to_bytes :: "LazyNode \<Rightarrow> nat \<Rightarrow> (string, bytes) outcome option" where
  "lazy_to_bytes self limit = map_option js_io (node_to_bytes_limit (ln_allocator self) (ln_node self) limit)"

definition from_bytes_with_backref :: "bytes \<Rightarrow> (string, LazyNode) outcome" where
  "from_bytes_with_backref b =
     bindR allocator_new (\<lambda>allocator.
     let (r, allocator) = node_from_bytes_backrefs allocator b in
     bindR (js_io r) (\<lambda>n. Ok (lazy_node_new allocator n)))"

definition lazy_from_bytes :: "bytes \<Rightarrow> (string, LazyNode) outcome" where
  "lazy_from_bytes b =
     bindR allocator_new (\<lambda>allocator.
     let (r, allocator) = node_from_bytes allocator b in
     bindR (js_io r) (\<lambda>n. Ok (lazy_node_new allocator n)))"

definition js_serialized_length :: "bytes \<Rightarrow> (string, nat) outcome" where
  "js_serialized_length program = js_io (serialized_length_from_bytes program)"

text \<open>The choice of the deserializer, made in three functions of the module.\<close>

definition deserializer :: "u32 \<Rightarrow> Allocator \<Rightarrow> bytes \<Rightarrow> NodePtr io \<times> Allocator" where
  "deserializer flag = (if flag AND ALLOW_BACKREFS \<noteq> 0 then node_from_bytes_backrefs else node_from_bytes)"

definition js_node_from_bytes :: "bytes \<Rightarrow> u32 \<Rightarrow> (string, LazyNode) outcome" where
  "js_node_from_bytes b flag =
     bindR allocator_new (\<lambda>allocator.
     let (r, allocator) = deserializer flag allocator b in
     bindR (js_io r) (\<lambda>n. Ok (lazy_node_new allocator n)))"

definition flag_no_unknown_ops :: u32 where "flag_no_unknown_ops = NO_UNKNOWN_OPS"

definition flag_allow_backrefs :: u32 where "flag_allow_backrefs = ALLOW_BACKREFS"

subsection \<open>Errors as text\<close>

fun debug_object_type :: "ObjectType \<Rightarrow> string" where
  "debug_object_type OPair = ''Pair''"
| "debug_object_type OBytes = ''Bytes''"
| "debug_object_type OSmallAtom = ''SmallAtom''"

definition debug_node_ptr :: "NodePtr \<Rightarrow> ('e, string) outcome" where
  "debug_node_ptr n =
     bindR (object_type n) (\<lambda>t.
     Ok (''NodePtr('' @ debug_object_type t @ '', '' @ dec_string (unat (index n)) @ '')''))"

text \<open>
  The \<open>Debug\<close> form of a \<open>String\<close> puts it in quotes and escapes the characters that need it:
  of the ASCII characters the quote, the backslash and the control characters, those without a
  short form by their number in hexadecimal digits.
\<close>

definition hex_digit :: "nat \<Rightarrow> char" where
  "hex_digit d = char_of (if d < 10 then 48 + d else 87 + d)"

definition unicode_escape :: "nat \<Rightarrow> string" where
  "unicode_escape n = [CHR 0x5C] @ ''u{'' @ (if n < 16 then [hex_digit n] else [hex_digit (n div 16), hex_digit (n mod 16)]) @ ''}''"

definition escape_char :: "char \<Rightarrow> string" where
  "escape_char c =
     (if c = CHR 0x22 then [CHR 0x5C, CHR 0x22]
      else if c = CHR 0x5C then [CHR 0x5C, CHR 0x5C]
      else if c = CHR 0x0A then [CHR 0x5C, CHR ''n'']
      else if c = CHR 0x0D then [CHR 0x5C, CHR ''r'']
      else if c = CHR 0x09 then [CHR 0x5C, CHR ''t'']
      else if c = CHR 0x00 then [CHR 0x5C, CHR ''0'']
      else if of_char c < (32 :: nat) \<or> c = CHR 0x7F then unicode_escape (of_char c)
      else [c])"

definition debug_string :: "string \<Rightarrow> string" where
  "debug_string s = [CHR 0x22] @ concat (map escape_char s) @ [CHR 0x22]"

definition debug_eval_err :: "EvalErr \<Rightarrow> ('e, string) outcome" where
  "debug_eval_err e =
     bindR (debug_node_ptr (err_node e)) (\<lambda>n.
     Ok (''EvalErr('' @ n @ '', '' @ debug_string (err_msg e) @ '')''))"

definition string_bytes :: "string \<Rightarrow> bytes" where
  "string_bytes s = map of_char s"

subsection \<open>Running a program\<close>

fun unwrap :: "('e, 'a) outcome \<Rightarrow> ('f, 'a) outcome" where
  "unwrap (Ok x) = Ok x"
| "unwrap (Err e) = Panic ''called `Result::unwrap()` on an `Err` value''"
| "unwrap (Panic p) = Panic p"

definition js_load :: "u32 \<Rightarrow> Allocator \<Rightarrow> bytes \<Rightarrow> bytes \<Rightarrow> (NodePtr \<times> NodePtr) io \<times> Allocator" where
  "js_load flag a program args =
     tryS (apfst unwrap (deserializer flag a program)) (\<lambda>program a.
     tryS (apfst unwrap (deserializer flag a args)) (\<lambda>args a. (Ok (program, args), a)))"

text \<open>\<open>run_clvm\<close> has no error result: what it cannot return as bytes is a panic.\<close>

definition run_clvm ::
  "('g1, 'g2, 'key, 'sig, 'x) ext_api_scheme \<Rightarrow> bytes \<Rightarrow> bytes \<Rightarrow> u32 \<Rightarrow> (unit, bytes) outcome option" where
  "run_clvm E program args flag =
     thenO allocator_new (\<lambda>allocator.
     let (r, allocator) = js_load flag allocator program args in
     thenO (unwrap r) (\<lambda>(program, args).
     Option.bind (run_program E (chia_dialect E flag) allocator program args 1000000000000000) (\<lambda>(r, allocator).
     case r of
       Ok red \<Rightarrow> map_option unwrap (node_to_bytes allocator (red_node red))
     | Err eval_err \<Rightarrow> Some (bindR (debug_eval_err eval_err) (\<lambda>s. Ok (string_bytes s)))
     | Panic p \<Rightarrow> Some (Panic p))))"

definition run_chia_program ::
  "('g1, 'g2, 'key, 'sig, 'x) ext_api_scheme \<Rightarrow> bytes \<Rightarrow> bytes \<Rightarrow> Cost \<Rightarrow> u32 \<Rightarrow> (string, Cost \<times> LazyNode) outcome option" where
  "run_chia_program E program args max_cost flag =
     thenO allocator_new (\<lambda>allocator.
     let (r, allocator) = js_load flag allocator program args in
     thenO (unwrap r) (\<lambda>(program, args).
     map_option (\<lambda>(r, allocator).
         case r of
           Ok red \<Rightarrow> Ok (red_cost red, lazy_node_new allocator (red_node red))
         | Err eval_err \<Rightarrow> bindR (debug_eval_err eval_err) Err
         | Panic p \<Rightarrow> Panic p)
       (run_program E (chia_dialect E flag) allocator program args max_cost)))"

end
