(* ===== verification/BindingsProps.thy ===== *)
theory BindingsProps
  imports Bindings BackrefProps
begin

text \<open>
  The properties of the bindings: what a call with serialized programs and arguments returns,
  from the bytes to the value of the run, and what the getters of a lazy node show.
\<close>

section \<open>Reading the program and its arguments\<close>

definition blob_value :: "(bytes \<Rightarrow> clvm \<Rightarrow> clvm option) \<Rightarrow> bytes \<Rightarrow> clvm \<Rightarrow> bool" where
  "blob_value R b t \<longleftrightarrow> (\<exists>e rest. b = e @ rest \<and> parses R (CAtom []) e t)"

lemma blob_value_unique: "blob_value R b t \<Longrightarrow> blob_value R b t' \<Longrightarrow> t = t'"
  by (auto simp: blob_value_def dest: parses_unique)

lemma blob_value_parsable: "parsable R (CAtom []) b \<longleftrightarrow> (\<exists>t. blob_value R b t)"
  by (auto simp: parsable_def blob_value_def)

text \<open>What the bindings rely on: a deserializer for one format, and its errors.\<close>

locale blob_reader =
  fixes load :: "Allocator \<Rightarrow> bytes \<Rightarrow> NodePtr io \<times> Allocator"
    and R :: "bytes \<Rightarrow> clvm \<Rightarrow> clvm option"
    and errs :: "io_error set"
  assumes load_ok: "tight a \<Longrightarrow> load a b = (Ok n, a') \<Longrightarrow> tight a' \<and> extends a a' \<and> (\<exists>t. blob_value R b t \<and> rep a' n t)"
    and load_err: "tight a \<Longrightarrow> load a b = (Err er, a') \<Longrightarrow> er \<in> alloc_errs \<or> er \<in> errs \<and> (\<nexists>t. blob_value R b t)"
    and load_panic: "tight a \<Longrightarrow> load a b \<noteq> (Panic p, a')"
begin

lemma load_two:
  assumes "tight a" "tryS (load a b) (\<lambda>x a. tryS (load a c) (\<lambda>y a. (Ok (x, y), a))) = (r, a')"
  shows "case r of
      Ok (x, y) \<Rightarrow> tight a' \<and> (\<exists>P V. blob_value R b P \<and> blob_value R c V \<and> rep a' x P \<and> rep a' y V)
    | Err er \<Rightarrow> er \<in> alloc_errs \<or> er \<in> errs \<and> ((\<nexists>t. blob_value R b t) \<or> (\<nexists>t. blob_value R c t))
    | Panic p \<Rightarrow> False"
  using assms(2)
proof (cases rule: tryS_cases)
  case (ok x s)
  note one = load_ok [OF assms(1) ok(1)]
  from ok(2) show ?thesis
  proof (cases rule: tryS_cases)
    case (ok y s')
    with one load_ok [OF _ ok(1)] have "r = Ok (x, y)" "s' = a'" "tight a'" "extends s a'" "\<exists>V. blob_value R c V \<and> rep a' y V" by auto
    then show ?thesis using one rep_extends by simp blast
  next
    case (fail e)
    then show ?thesis using load_err [OF _ fail(1)] one by auto
  next
    case (panic p)
    then show ?thesis using load_panic one by blast
  qed
next
  case (fail e)
  then show ?thesis using load_err [OF assms(1) fail(1)] by auto
next
  case (panic p)
  then show ?thesis using load_panic [OF assms(1)] by blast
qed

end

interpretation plain_reader: blob_reader node_from_bytes no_refs format_errs
proof unfold_locales
  fix a b n a' er p
  assume "tight a"
  note c = node_from_bytes_cases [OF this, of b]
  show "tight a' \<and> extends a a' \<and> (\<exists>t. blob_value no_refs b t \<and> rep a' n t)" if "node_from_bytes a b = (Ok n, a')"
    using c that by (auto simp: blob_value_def)
  show "er \<in> alloc_errs \<or> er \<in> format_errs \<and> (\<nexists>t. blob_value no_refs b t)" if "node_from_bytes a b = (Err er, a')"
    using c that by (simp add: blob_value_parsable)
  show "node_from_bytes a b \<noteq> (Panic p, a')" using c by auto
qed

interpretation backref_reader: blob_reader node_from_bytes_backrefs ref_lookup path_errs
proof unfold_locales
  fix a b n a' er p
  assume "tight a"
  note c = node_from_bytes_backrefs_cases [OF this, of b]
  show "tight a' \<and> extends a a' \<and> (\<exists>t. blob_value ref_lookup b t \<and> rep a' n t)" if "node_from_bytes_backrefs a b = (Ok n, a')"
    using c that by (auto simp: blob_value_def)
  show "er \<in> alloc_errs \<or> er \<in> path_errs \<and> (\<nexists>t. blob_value ref_lookup b t)" if "node_from_bytes_backrefs a b = (Err er, a')"
    using c that by (simp add: blob_value_parsable)
  show "node_from_bytes_backrefs a b \<noteq> (Panic p, a')" using c by auto
qed

lemma tight_limited: "new_limited limit = Ok a \<Longrightarrow> 0 < limit \<Longrightarrow> tight a"
  by (auto simp: new_limited_def tight_def alloc_ok_def heap_ok_def usize_sub_def u32_max_def MAX_NUM_ATOMS_def split: if_splits)

lemma py_allocator_tight: "\<exists>a. py_allocator flags = Ok a \<and> tight a"
proof -
  have "\<exists>a. py_allocator flags = Ok a" by (simp add: py_allocator_def allocator_new_def new_limited_def u32_max_def)
  moreover have "tight a" if "py_allocator flags = Ok a" for a
    using that by (auto simp: py_allocator_def split: if_splits dest: tight_limited tight_new)
  ultimately show ?thesis by blast
qed

text \<open>The format that the flag of the JavaScript module selects.\<close>

definition flag_refs :: "u32 \<Rightarrow> bytes \<Rightarrow> clvm \<Rightarrow> clvm option" where
  "flag_refs flag = (if flag AND ALLOW_BACKREFS \<noteq> 0 then ref_lookup else no_refs)"

lemma unwrap_load: "tryS (apfst unwrap m) f = (Ok x, s) \<Longrightarrow> tryS m f = (Ok x, s)"
  by (cases "(m, f)" rule: tryS.cases) auto

lemma js_load_two:
  assumes "tight a" "js_load flag a program args = (Ok (p, e), a')"
  shows "tight a' \<and> (\<exists>P V. blob_value (flag_refs flag) program P \<and> blob_value (flag_refs flag) args V \<and> rep a' p P \<and> rep a' e V)"
proof -
  have l: "tryS (deserializer flag a program) (\<lambda>x a. tryS (deserializer flag a args) (\<lambda>y a. (Ok (x, y), a))) = (Ok (p, e), a')"
  proof -
    obtain x s where "deserializer flag a program = (Ok x, s)" "tryS (apfst unwrap (deserializer flag s args)) (\<lambda>y a. (Ok (x, y), a)) = (Ok (p, e) :: (NodePtr \<times> NodePtr) io, a')"
      using unwrap_load [OF assms(2) [unfolded js_load_def]] unfolding tryS_eq_Ok [where m = "deserializer flag a program"] by blast
    with unwrap_load [OF this(2)] show ?thesis by simp
  qed
  show ?thesis
    using plain_reader.load_two [OF assms(1), of program args "Ok (p, e)" a'] backref_reader.load_two [OF assms(1), of program args "Ok (p, e)" a'] l
    by (auto simp: deserializer_def flag_refs_def split: if_splits)
qed

section \<open>From bytes to the result of a run\<close>

text \<open>The byte vector stays within 2^32 - 1 bytes during a run.\<close>

definition heap_stays :: "('g1, 'g2, 'key, 'sig, 'x) ext_api_scheme \<Rightarrow> u32 \<Rightarrow> Allocator \<Rightarrow> NodePtr \<Rightarrow> NodePtr \<Rightarrow> Cost \<Rightarrow> bool" where
  "heap_stays E flags a p e max_cost \<longleftrightarrow>
     (\<forall>s \<in> run_states E (chia_dialect E flags) a p e max_cost. heap_ok (allocator s)) \<and>
     (\<forall>r a'. run_program E (chia_dialect E flags) a p e max_cost = Some (r, a') \<longrightarrow> heap_ok a')"

abbreviation v_chia_run :: "('g1, 'g2, 'key, 'sig, 'x) ext_api_scheme \<Rightarrow> u32 \<Rightarrow> clvm \<Rightarrow> clvm \<Rightarrow> Cost \<Rightarrow> (Cost \<times> clvm) vres option" where
  "v_chia_run E flags \<equiv> v_run_program (chia_dialect E flags) (v_chia_op E flags) 1 2 36"

context ext_laws
begin

lemma chia_run_total:
  assumes "alloc_ok a" "rep a p P" "rep a e V" "0 < max_cost" "unat max_cost \<le> 2 ^ 61" "heap_stays E flags a p e max_cost"
  shows "\<exists>r a'. run_program E (chia_dialect E flags) a p e max_cost = Some (r, a') \<and> good_end (v_chia_run E flags P V max_cost) r a'"
proof -
  obtain r a' where run: "run_program E (chia_dialect E flags) a p e max_cost = Some (r, a')"
    using chia_run_returns [OF assms(4,5)] by blast
  have "cost_limit max_cost = max_cost" using assms(4) by (auto simp: cost_limit_def)
  then have "good_end (v_chia_run E flags P V max_cost) r a'"
    using assms(5) by (intro chia_run [OF bigint_laws_axioms assms(1-3) _ run]) (use assms(6) run in \<open>auto simp: heap_stays_def\<close>)
  with run show ?thesis by blast
qed

end

section \<open>A call for the witnesses\<close>

text \<open>The program \<open>1\<close>, the path to the whole environment, run on the empty atom.\<close>

definition ex_new :: Allocator where
  "ex_new = \<lparr> u8_vec = [], pair_vec = [], atom_vec = [], heap_limit = 4294967294, small_atoms = 2 \<rparr>"

lemma ex_new: "allocator_new = Ok ex_new"
  by (simp add: allocator_new_def new_limited_def ex_new_def u32_max_def usize_sub_def)

definition ex_one :: NodePtr where
  "ex_one = node_new OSmallAtom 1"

lemma ex_loads:
  "node_from_bytes ex_new [1] = (Ok ex_one, ex_new)"
  "node_from_bytes ex_new [0x80] = (Ok node_NIL, ex_new)"
  by (simp_all add: node_from_bytes_def node_from_stream_def node_from_stream_loop.simps Let_def cursor_new_def read_exact_def
      remaining_def CONS_BOX_MARKER_def parse_atom_def one_def nil_def ex_one_def)

lemma ex_py_load: "py_load ex_new [1] [0x80] = (Ok (ex_one, node_NIL), ex_new)"
  by (simp add: py_load_def ex_loads)

text \<open>The run of it, whatever the limit, once the limit is allocated.\<close>

definition ex_path_state :: "Allocator \<Rightarrow> RunProgramContext" where
  "ex_path_state a = \<lparr> allocator = a, val_stack = [node_NIL], env_stack = [], op_stack = [], softfork_stack = [] \<rparr>"

lemma ex_path_eval:
  "eval_pair D \<lparr> allocator = a, val_stack = [], env_stack = [], op_stack = [], softfork_stack = [] \<rparr> ex_one node_NIL =
     (Ok 44, ex_path_state a)"
  by (simp add: eval_pair_def sexp_def object_type_kind node_def traverse_path_fast_def traverse_fast_loop.simps push_def
      STACK_SIZE_LIMIT_def ex_path_state_def ex_one_def TRAVERSE_BASE_COST_def TRAVERSE_COST_PER_BIT_def)

lemma ex_path_iter: "44 \<le> m \<Longrightarrow> run_iter D m mp 44 (ex_path_state a) = (Ok None, ex_path_state a)"
  by (simp add: run_iter_def ex_path_state_def effective_max_cost_def flip: not_le)

lemma ex_path_run:
  assumes "new_number B a (uint m) = (Ok mp, a')" "44 \<le> m" "m \<noteq> 0"
  shows "run_program B D a ex_one node_NIL m = Some (Ok (Reduction 44 node_NIL), a')"
  using assms
  by (simp add: run_program_def context_run_program_def context_new_def ex_path_eval run_loop.simps ex_path_iter)
     (simp add: ex_path_state_def pop_def)

lemma ex_path_stays:
  assumes "new_number E a (uint m) = (Ok mp, a')" "44 \<le> m" "m \<noteq> 0" "heap_ok a'"
  shows "heap_stays E flags a ex_one node_NIL m"
proof -
  have r: "allocator t = a'" if "reach D m mp 44 (ex_path_state a') c t" for D c t
  proof -
    have "c = 44 \<and> t = ex_path_state a'" using that by induction (auto simp: ex_path_iter [OF assms(2)])
    then show ?thesis by (simp add: ex_path_state_def)
  qed
  have "allocator t = a'" if "t \<in> run_states E D a ex_one node_NIL m" for t D
    using that assms(1,3) by (auto simp: run_states_def cost_limit_def context_new_def ex_path_eval dest: r)
  then show ?thesis using assms(4) ex_path_run [OF assms(1-3)] by (simp add: heap_stays_def)
qed

lemma ex_limits:
  "new_number ref_ext ex_new (uint (1000 :: Cost)) = (Ok (node_new OSmallAtom 1000), ex_new\<lparr> small_atoms := 3 \<rparr>)"
  "new_number ref_ext ex_new (uint (1000000000000000 :: Cost)) =
     (Ok (node_new OBytes 0), ex_new\<lparr> u8_vec := [3, 141, 126, 164, 198, 128, 0], atom_vec := [\<lparr> ab_start = 0, ab_end = 7 \<rparr>] \<rparr>)"
proof -
  show "new_number ref_ext ex_new (uint (1000 :: Cost)) = (Ok (node_new OSmallAtom 1000), ex_new\<lparr> small_atoms := 3 \<rparr>)"
    by (simp add: new_number_def to_u32_def NODE_PTR_IDX_MASK_def NODE_PTR_IDX_BITS_def new_small_number_def
      check_atom_limit_def ex_new_def MAX_NUM_ATOMS_def)
  have b: "to_signed_bytes_be ref_ext 1000000000000000 = [3, 141, 126, 164, 198, 128, 0]"
    using int_bytes_be_signed [of "[3, 141, 126, 164, 198, 128, 0]"]
    by (simp add: be_signed_def be_nat_def int_bytes_def ref_ext_def)
  show "new_number ref_ext ex_new (uint (1000000000000000 :: Cost)) =
     (Ok (node_new OBytes 0), ex_new\<lparr> u8_vec := [3, 141, 126, 164, 198, 128, 0], atom_vec := [\<lparr> ab_start = 0, ab_end = 7 \<rparr>] \<rparr>)"
    by (simp add: new_number_def to_u32_def NODE_PTR_IDX_MASK_def NODE_PTR_IDX_BITS_def new_atom_def b
        usize_sub_def fits_in_small_atom_def check_atom_limit_def ex_new_def MAX_NUM_ATOMS_def)
qed

section \<open>The Python module\<close>

text \<open>
  A call of \<open>run_serialized_chia_program\<close> from Python returns, and what it returns is
  determined by the two byte strings: with a cost limit between 1 and 2^61 the result is the cost
  and the value of the run of the deserialized program on the deserialized arguments, or a
  \<open>ValueError\<close> with the message and the value that the run fails with or an exhausted allocator,
  or the error of the deserializer when one of the strings holds no value or the allocator is
  exhausted. It does not panic, as long as the byte vector stays within 2^32 - 1 bytes.
\<close>

theorem run_serialized_chia_program_correct:
  assumes "ext_laws E" "0 < max_cost" "unat max_cost \<le> 2 ^ 61"
    "\<And>a0 a p e. (py_allocator flags :: (PyErr, Allocator) outcome) = Ok a0 \<Longrightarrow> py_load a0 program args = (Ok (p, e), a) \<Longrightarrow> heap_stays E flags a p e max_cost"
  shows "\<exists>r. run_serialized_chia_program E program args max_cost flags = Some r \<and>
    (case r of
       Ok (cost, ln) \<Rightarrow> \<exists>P V v. blob_value no_refs program P \<and> blob_value no_refs args V \<and>
         v_chia_run E flags P V max_cost = Some (Inr (cost, v)) \<and> rep (ln_allocator ln) (ln_node ln) v
     | Err (PyValueError msg ln) \<Rightarrow> \<exists>P V t. blob_value no_refs program P \<and> blob_value no_refs args V \<and>
         (v_chia_run E flags P V max_cost = Some (Inl (t, msg)) \<or> (t, msg) \<in> alloc_msgs) \<and> rep (ln_allocator ln) (ln_node ln) t
     | Err (PyIoError er) \<Rightarrow> er \<in> alloc_errs \<or> er \<in> format_errs \<and> ((\<nexists>t. blob_value no_refs program t) \<or> (\<nexists>t. blob_value no_refs args t))
     | Panic p \<Rightarrow> False)"
proof -
  obtain a0 where a0: "(py_allocator flags :: (PyErr, Allocator) outcome) = Ok a0" "tight a0" using py_allocator_tight by blast
  obtain r a where l: "py_load a0 program args = (r, a)" by fastforce
  note two = plain_reader.load_two [OF a0(2) l [unfolded py_load_def]]
  show ?thesis
  proof (cases r)
    case (Ok pe)
    then obtain p e where pe: "r = Ok (p, e)" by (cases pe) auto
    then obtain P V where v: "tight a" "blob_value no_refs program P" "blob_value no_refs args V" "rep a p P" "rep a e V" using two by auto
    then have "alloc_ok a" by (simp add: tight_def)
    from ext_laws.chia_run_total [OF assms(1) this v(4,5) assms(2,3) assms(4) [OF a0(1) l [unfolded pe]]]
    obtain r' a' where run: "run_program E (chia_dialect E flags) a p e max_cost = Some (r', a')"
      "good_end (v_chia_run E flags P V max_cost) r' a'" by blast
    then show ?thesis using v(2,3)
      by (cases r') (auto simp: run_serialized_chia_program_def a0 l pe py_io_def good_end_def lazy_node_new_def)
  next
    case (Err e)
    then show ?thesis using two by (simp add: run_serialized_chia_program_def a0 l py_io_def)
  next
    case (Panic p)
    then show ?thesis using two by simp
  qed
qed

theorem run_serialized_chia_program_correct_witness:
  "\<exists>P V v. blob_value no_refs [1] P \<and> blob_value no_refs [0x80] V \<and>
     v_chia_run ref_ext 0 P V 1000 = Some (Inr (44, v)) \<and> rep (ex_new\<lparr> small_atoms := 3 \<rparr>) node_NIL v"
proof -
  have al: "py_allocator 0 = Ok ex_new" by (simp add: py_allocator_def ex_new)
  have st: "heap_stays ref_ext 0 ex_new ex_one node_NIL 1000"
    by (rule ex_path_stays [OF ex_limits(1)]) (simp_all add: heap_ok_def ex_new_def)
  have run: "run_serialized_chia_program ref_ext [1] [0x80] 1000 0 = Some (Ok (44, lazy_node_new (ex_new\<lparr> small_atoms := 3 \<rparr>) node_NIL))"
    by (simp add: run_serialized_chia_program_def al ex_py_load py_io_def ex_path_run [OF ex_limits(1)])
  from run_serialized_chia_program_correct [OF ref_libs.ext_laws_axioms, of 1000 0 "[1]" "[0x80]"] show ?thesis
    unfolding run by (auto simp: al ex_py_load st lazy_node_new_def)
qed

section \<open>The JavaScript module\<close>

lemma debug_eval_err_rep: "rep a (err_node e) t \<Longrightarrow> \<exists>s. debug_eval_err e = Ok s"
  by (erule rep.cases) (auto simp: debug_eval_err_def debug_node_ptr_def object_type_kind)

text \<open>
  \<open>run_clvm\<close> from JavaScript, once it has read the program and the arguments: it returns the
  serialization of the value of the run when that takes at most 2000000 bytes, and the text of
  the error when the run fails or the allocator is exhausted; a longer result is a panic, and the
  only one. The formats of the inputs are those the flag selects. The cost limit of \<open>run_clvm\<close> is too
  high to bound the heap, so that the byte vector is assumed to stay within 2^32 - 1 bytes.
\<close>

theorem run_clvm_correct:
  assumes "ext_laws E" "allocator_new = Ok a0" "js_load flag a0 program args = (Ok (p, e), a)"
    "heap_stays E flag a p e 1000000000000000"
  shows "\<exists>P V r. blob_value (flag_refs flag) program P \<and> blob_value (flag_refs flag) args V \<and>
    run_clvm E program args flag = Some r \<and>
    ((\<exists>cost v. v_chia_run E flag P V 1000000000000000 = Some (Inr (cost, v)) \<and>
        (if length (cser v) \<le> 2000000 then r = Ok (cser v) else is_panic r)) \<or>
     (\<exists>n t msg s. (v_chia_run E flag P V 1000000000000000 = Some (Inl (t, msg)) \<or> (t, msg) \<in> alloc_msgs) \<and>
        debug_eval_err (EvalErr n msg) = (Ok s :: (unit, string) outcome) \<and> r = Ok (string_bytes s)))"
proof -
  have t0: "tight a0" by (rule tight_new [OF assms(2)])
  from js_load_two [OF t0 assms(3)] obtain P V where
    v: "tight a" "blob_value (flag_refs flag) program P" "blob_value (flag_refs flag) args V" "rep a p P" "rep a e V" by blast
  then have "alloc_ok a" by (simp add: tight_def)
  from ext_laws.chia_run_total [OF assms(1) this v(4,5) _ _ assms(4)] obtain r a' where
    run: "run_program E (chia_dialect E flag) a p e 1000000000000000 = Some (r, a')"
      "good_end (v_chia_run E flag P V 1000000000000000) r a'" by auto
  have al: "(allocator_new :: (unit, Allocator) outcome) = Ok a0"
    using assms(2) by (simp add: allocator_new_def new_limited_def u32_max_def)
  show ?thesis
  proof (cases r)
    case (Ok x)
    then obtain u where u: "v_chia_run E flag P V 1000000000000000 = Some (Inr (red_cost x, u))" "rep a' (red_node x) u"
      using run(2) by (auto simp: good_end_def)
    have "run_clvm E program args flag = Some (unwrap (if length (cser u) \<le> 2000000 then Ok (cser u) else Err out_of_memory))"
      by (simp add: run_clvm_def al assms(3) run(1) Ok node_to_bytes_def node_to_bytes_limit_eq [OF u(2)])
    with u(1) v(2,3) show ?thesis by fastforce
  next
    case (Err er)
    then obtain u where u: "v_chia_run E flag P V 1000000000000000 = Some (Inl (u, err_msg er)) \<or> (u, err_msg er) \<in> alloc_msgs"
      "rep a' (err_node er) u" using run(2) by (auto simp: good_end_def)
    obtain s where s: "debug_eval_err er = (Ok s :: (unit, string) outcome)" using debug_eval_err_rep [OF u(2)] by blast
    then have "run_clvm E program args flag = Some (Ok (string_bytes s))"
      by (simp add: run_clvm_def al assms(3) run(1) Err)
    with u(1) s v(2,3) show ?thesis by (metis EvalErr.collapse)
  next
    case (Panic q)
    then show ?thesis using run(2) by (simp add: good_end_def)
  qed
qed

theorem run_clvm_correct_witness:
  "\<exists>P V. blob_value no_refs [1] P \<and> blob_value no_refs [0x80] V \<and> run_clvm ref_ext [1] [0x80] 0 = Some (Ok [0x80])"
proof -
  let ?a = "ex_new\<lparr> u8_vec := [3, 141, 126, 164, 198, 128, 0], atom_vec := [\<lparr> ab_start = 0, ab_end = 7 \<rparr>] \<rparr>"
  have l: "js_load 0 ex_new [1] [0x80] = (Ok (ex_one, node_NIL), ex_new)"
    by (simp add: js_load_def deserializer_def ex_loads)
  have st: "heap_stays ref_ext 0 ex_new ex_one node_NIL 1000000000000000"
    by (rule ex_path_stays [OF ex_limits(2)]) (simp_all add: heap_ok_def ex_new_def u32_max_def)
  have "cser (CAtom []) = [0x80]" by code_simp
  then have "node_to_bytes ?a node_NIL = Some (Ok [0x80])"
    using node_to_bytes_limit_eq [OF rep_NIL, of ?a 2000000] by (simp only: node_to_bytes_def) simp
  then have "run_clvm ref_ext [1] [0x80] 0 = Some (Ok [0x80])"
    by (simp add: run_clvm_def ex_new l ex_path_run [OF ex_limits(2)])
  with run_clvm_correct [OF ref_libs.ext_laws_axioms ex_new l st] show ?thesis by (auto simp: flag_refs_def)
qed

text \<open>
  A lazy node shows its value: the getter \<open>atom\<close> gives the bytes of an atom and nothing for a
  pair, the getter \<open>pair\<close> gives lazy nodes of the two halves and nothing for an atom, in both
  modules. Neither panics.
\<close>

theorem lazy_node_view:
  assumes "rep (ln_allocator ln) (ln_node ln) t"
  shows "case t of
      CAtom bs \<Rightarrow> lazy_atom ln = (Ok (Some bs) :: ('e, bytes option) outcome) \<and> lazy_pair ln = (Ok None :: ('e, (LazyNode \<times> LazyNode) option) outcome)
    | CPair l r \<Rightarrow> lazy_atom ln = (Ok None :: ('e, bytes option) outcome) \<and> (\<exists>x y. lazy_pair ln = (Ok (Some (x, y)) :: ('e, (LazyNode \<times> LazyNode) option) outcome) \<and>
        rep (ln_allocator x) (ln_node x) l \<and> rep (ln_allocator y) (ln_node y) r)"
  using assms
  by (cases t) (auto simp: lazy_atom_def lazy_pair_def sexp_rep rep_atom_bytes lazy_node_new_def intro: rep_pfirst rep_prest)

theorem lazy_node_view_witness:
  "lazy_atom (lazy_node_new ex_quote_alloc ex_quote) = (Ok None :: (PyErr, bytes option) outcome)"
  using lazy_node_view [of "lazy_node_new ex_quote_alloc ex_quote" ex_tree, where ?'e = PyErr] ex_rep
  by (simp add: lazy_node_new_def ex_tree_def)

end
