(* ===== verification/RunFeatures.thy ===== *)
theory RunFeatures
  imports RunProgram
begin

text \<open>
  The interpreter in the build with the \<open>counters\<close> and \<open>pre-eval\<close> features,
  \<open>src/src/run_program.rs\<close> and the counters of \<open>src/src/allocator.rs\<close>. Each operation is the one
  of the default build with the additional code of the two features: the context keeps the peak
  sizes of its stacks, and calls back before each evaluation and, if asked to, after it.

  A callback is a closure of the caller, with whatever cells it captures. These cells are the
  \<open>world\<close>, a value of type \<open>'s\<close> that the context carries along and only the callbacks read and
  change.
\<close>

section \<open>State\<close>

type_synonym 's post_eval = "'s \<Rightarrow> Allocator \<Rightarrow> NodePtr option \<Rightarrow> Allocator \<times> 's"
type_synonym 's pre_eval = "'s \<Rightarrow> Allocator \<Rightarrow> NodePtr \<Rightarrow> NodePtr \<Rightarrow> 's post_eval option eval \<times> Allocator \<times> 's"

text \<open>The operations of the default build and the additional one.\<close>

datatype XOperation = Plain Operation | PostEval

record Counters =
  val_stack_usage :: nat
  env_stack_usage :: nat
  op_stack_usage :: nat
  atom_count :: u32
  small_atom_count :: u32
  pair_count :: u32
  heap_size :: u32

definition counters_new :: Counters where
  "counters_new = \<lparr> val_stack_usage = 0, env_stack_usage = 0, op_stack_usage = 0,
     atom_count = 0, small_atom_count = 0, pair_count = 0, heap_size = 0 \<rparr>"

record 's XContext =
  x_allocator :: Allocator
  x_val_stack :: "NodePtr list"
  x_env_stack :: "NodePtr list"
  x_op_stack :: "XOperation list"
  x_softfork_stack :: "SoftforkGuard list"
  counters :: Counters
  pre_eval :: "'s pre_eval option"
  posteval_stack :: "'s post_eval list"
  world :: 's

type_synonym ('a, 's) xrun = "'a eval \<times> 's XContext"

definition new_with_pre_eval :: "Allocator \<Rightarrow> 's pre_eval option \<Rightarrow> 's \<Rightarrow> 's XContext" where
  "new_with_pre_eval a f w = \<lparr> x_allocator = a, x_val_stack = [], x_env_stack = [], x_op_stack = [], x_softfork_stack = [],
     counters = counters_new, pre_eval = f, posteval_stack = [], world = w \<rparr>"

definition x_new :: "Allocator \<Rightarrow> 's \<Rightarrow> 's XContext" where
  "x_new a w = \<lparr> x_allocator = a, x_val_stack = [], x_env_stack = [], x_op_stack = [], x_softfork_stack = [],
     counters = counters_new, pre_eval = None, posteval_stack = [], world = w \<rparr>"

fun x_lift :: "'s XContext \<Rightarrow> 'a eval \<times> Allocator \<Rightarrow> ('a, 's) xrun" where
  "x_lift self (r, a) = (r, self\<lparr> x_allocator := a \<rparr>)"

text \<open>The counters of the allocator.\<close>

definition alloc_atom_count :: "Allocator \<Rightarrow> nat" where "alloc_atom_count a = length (atom_vec a)"
definition alloc_small_atom_count :: "Allocator \<Rightarrow> nat" where "alloc_small_atom_count a = small_atoms a"
definition alloc_pair_count :: "Allocator \<Rightarrow> nat" where "alloc_pair_count a = length (pair_vec a)"
definition alloc_heap_size :: "Allocator \<Rightarrow> nat" where "alloc_heap_size a = length (u8_vec a)"

lemmas alloc_counts = alloc_atom_count_def alloc_small_atom_count_def alloc_pair_count_def alloc_heap_size_def

section \<open>Stack operations\<close>

definition account_val_push :: "'s XContext \<Rightarrow> 's XContext" where
  "account_val_push self = self\<lparr> counters := (counters self)
     \<lparr> val_stack_usage := max (val_stack_usage (counters self)) (length (x_val_stack self)) \<rparr> \<rparr>"

definition account_env_push :: "'s XContext \<Rightarrow> 's XContext" where
  "account_env_push self = self\<lparr> counters := (counters self)
     \<lparr> env_stack_usage := max (env_stack_usage (counters self)) (length (x_env_stack self)) \<rparr> \<rparr>"

definition account_op_push :: "'s XContext \<Rightarrow> 's XContext" where
  "account_op_push self = self\<lparr> counters := (counters self)
     \<lparr> op_stack_usage := max (op_stack_usage (counters self)) (length (x_op_stack self)) \<rparr> \<rparr>"

definition x_pop :: "'s XContext \<Rightarrow> (NodePtr, 's) xrun" where
  "x_pop self =
     (case x_val_stack self of
        [] \<Rightarrow> (err (nil (x_allocator self)) ''runtime error: value stack empty'', self)
      | k # vs \<Rightarrow> (Ok k, self\<lparr> x_val_stack := vs \<rparr>))"

definition x_push :: "'s XContext \<Rightarrow> NodePtr \<Rightarrow> (unit, 's) xrun" where
  "x_push self n =
     (if length (x_val_stack self) = STACK_SIZE_LIMIT then (err n ''value stack limit reached'', self)
      else (Ok (), account_val_push (self\<lparr> x_val_stack := n # x_val_stack self \<rparr>)))"

definition x_push_env :: "'s XContext \<Rightarrow> NodePtr \<Rightarrow> (unit, 's) xrun" where
  "x_push_env self env =
     (if length (x_env_stack self) = STACK_SIZE_LIMIT then (err env ''environment stack limit reached'', self)
      else (Ok (), account_env_push (self\<lparr> x_env_stack := env # x_env_stack self \<rparr>)))"

definition x_op :: "'s XContext \<Rightarrow> XOperation \<Rightarrow> 's XContext" where
  "x_op self op = self\<lparr> x_op_stack := op # x_op_stack self \<rparr>"

text \<open>A push of an operation that is accounted for. Those of \<open>ExitGuard\<close> and \<open>PostEval\<close> are not.\<close>

definition x_push_op :: "'s XContext \<Rightarrow> Operation \<Rightarrow> 's XContext" where
  "x_push_op self op = account_op_push (x_op self (Plain op))"

section \<open>Operations\<close>

definition x_cons_op :: "'s XContext \<Rightarrow> (Cost, 's) xrun" where
  "x_cons_op self =
     tryS (x_pop self) (\<lambda>v1 self.
     tryS (x_pop self) (\<lambda>v2 self.
     tryS (x_lift self (new_pair (x_allocator self) v1 v2)) (\<lambda>p self.
     tryS (x_push self p) (\<lambda>_ self. (Ok 0, self)))))"

fun x_push_operands :: "nat \<Rightarrow> 's XContext \<Rightarrow> NodePtr \<Rightarrow> (NodePtr, 's) xrun" where
  "x_push_operands 0 self operands = (Panic ''the list does not end'', self)"
| "x_push_operands (Suc k) self operands =
     tryR (sexp (x_allocator self) operands) self (\<lambda>s. case s of
       SAtom \<Rightarrow> (Ok operands, self)
     | SPair first rest \<Rightarrow>
         tryS (x_push (x_push_op self SwapEval) first) (\<lambda>_ self. x_push_operands k self rest))"

definition x_eval_op_atom :: "dialect \<Rightarrow> 's XContext \<Rightarrow> NodePtr \<Rightarrow> NodePtr \<Rightarrow> NodePtr \<Rightarrow> (Cost, 's) xrun" where
  "x_eval_op_atom D self operator_node operand_list env =
     tryR (small_number (x_allocator self) operator_node) self (\<lambda>s.
     tryR (quote_kw D) self (\<lambda>q.
     if s = Some q then
       tryS (x_push self operand_list) (\<lambda>_ self. (Ok QUOTE_COST, self))
     else
       tryS (x_push_env self env) (\<lambda>_ self.
       tryS (x_push (x_push_op self Apply) operator_node) (\<lambda>_ self.
       tryS (x_push_operands (Suc (length (pair_vec (x_allocator self)))) self operand_list) (\<lambda>operands self.
       tryR (atom_len (x_allocator self) operands) self (\<lambda>len.
       if len \<noteq> 0 then (err operand_list ''bad operand list'', self)
       else tryS (x_push self (nil (x_allocator self))) (\<lambda>_ self. (Ok OP_COST, self))))))))"

text \<open>The code of the \<open>pre-eval\<close> feature at the start of \<open>eval_pair\<close>.\<close>

definition call_pre_eval :: "'s XContext \<Rightarrow> NodePtr \<Rightarrow> NodePtr \<Rightarrow> (unit, 's) xrun" where
  "call_pre_eval self program env =
     (case pre_eval self of
        None \<Rightarrow> (Ok (), self)
      | Some f \<Rightarrow>
        let (r, a, w) = f (world self) (x_allocator self) program env in
        tryS (r, self\<lparr> x_allocator := a, world := w \<rparr>) (\<lambda>post self.
        case post of
          None \<Rightarrow> (Ok (), self)
        | Some post_eval \<Rightarrow> (Ok (), x_op (self\<lparr> posteval_stack := post_eval # posteval_stack self \<rparr>) PostEval)))"

text \<open>The rest of \<open>eval_pair\<close>.\<close>

definition x_eval_body :: "dialect \<Rightarrow> 's XContext \<Rightarrow> NodePtr \<Rightarrow> NodePtr \<Rightarrow> (Cost, 's) xrun" where
  "x_eval_body D self program env =
     tryR (sexp (x_allocator self) program) self (\<lambda>s. case s of
       SAtom \<Rightarrow>
         tryR (bindR (node (x_allocator self) program) (\<lambda>v. case v of
             VBuffer buf \<Rightarrow> traverse_path (x_allocator self) buf env
           | VU32 val \<Rightarrow> traverse_path_fast (x_allocator self) val env
           | VPair _ _ \<Rightarrow> Panic ''expected atom, got pair'')) self (\<lambda>r.
         tryS (x_push self (red_node r)) (\<lambda>_ self. (Ok (red_cost r), self)))
     | SPair op_node op_list \<Rightarrow>
         tryR (sexp (x_allocator self) op_node) self (\<lambda>t. case t of
           SPair new_operator _ \<Rightarrow>
             tryR (get_args 1 (x_allocator self) op_node ''in the ((X)...) syntax, the inner list'') self (\<lambda>args.
             let inner = args ! 0 in
             tryR (sexp (x_allocator self) inner) self (\<lambda>u. case u of
               SPair _ _ \<Rightarrow> (err program ''in ((X)...) syntax X must be lone atom'', self)
             | SAtom \<Rightarrow>
                 tryS (x_push_env self env) (\<lambda>_ self.
                 tryS (x_push self new_operator) (\<lambda>_ self.
                 tryS (x_push self op_list) (\<lambda>_ self.
                 (Ok APPLY_COST, x_push_op self Apply))))))
         | SAtom \<Rightarrow> x_eval_op_atom D self op_node op_list env))"

definition x_eval_pair :: "dialect \<Rightarrow> 's XContext \<Rightarrow> NodePtr \<Rightarrow> NodePtr \<Rightarrow> (Cost, 's) xrun" where
  "x_eval_pair D self program env =
     tryS (call_pre_eval self program env) (\<lambda>_ self. x_eval_body D self program env)"

definition x_swap_eval_op :: "dialect \<Rightarrow> 's XContext \<Rightarrow> (Cost, 's) xrun" where
  "x_swap_eval_op D self =
     tryS (x_pop self) (\<lambda>v2 self.
     tryS (x_pop self) (\<lambda>program self.
     case x_env_stack self of
       [] \<Rightarrow> (Err (EvalErr program ''runtime error: env stack empty''), self)
     | env # _ \<Rightarrow>
         tryS (x_push self v2) (\<lambda>_ self. x_eval_pair D (x_push_op self Cons) program env)))"

definition x_parse_softfork_arguments ::
  "dialect \<Rightarrow> 's XContext \<Rightarrow> NodePtr \<Rightarrow> (OperatorSet \<times> NodePtr \<times> NodePtr) eval" where
  "x_parse_softfork_arguments D self args =
     bindR (get_args 4 (x_allocator self) args ''softfork'') (\<lambda>as.
     bindR (uint_atom 4 (x_allocator self) (as ! 1) ''softfork'') (\<lambda>ext.
     let extension = softfork_extension D (ucast ext) in
     if extension = DefaultOps then err args ''unknown softfork extension''
     else Ok (extension, as ! 2, as ! 3)))"

fun x_add_cost :: "Cost \<Rightarrow> (Cost, 's) xrun \<Rightarrow> (Cost, 's) xrun" where
  "x_add_cost extra (r, self) = (bindR r (\<lambda>c. Ok (c + extra)), self)"

definition x_enter_guard :: "dialect \<Rightarrow> 's XContext \<Rightarrow> NodePtr \<Rightarrow> Cost \<Rightarrow> Cost \<Rightarrow> (Cost, 's) xrun" where
  "x_enter_guard D self operand_list expected current_cost =
     (case x_parse_softfork_arguments D self operand_list of
        Panic p \<Rightarrow> (Panic p, self)
      | Err e \<Rightarrow>
          if allow_unknown_ops D then
            tryS (x_push self (nil (x_allocator self))) (\<lambda>_ self. (Ok expected, self))
          else (Err e, self)
      | Ok (ext, prg, env) \<Rightarrow>
          let guard = \<lparr> expected_cost = current_cost + expected,
                        allocator_state = checkpoint (x_allocator self), operator_set = ext \<rparr>;
              self = self\<lparr> x_softfork_stack := guard # x_softfork_stack self \<rparr>
          in x_add_cost GUARD_COST (x_eval_pair D (x_op self (Plain ExitGuard)) prg env))"

definition x_softfork_op :: "dialect \<Rightarrow> 's XContext \<Rightarrow> NodePtr \<Rightarrow> Cost \<Rightarrow> Cost \<Rightarrow> (Cost, 's) xrun" where
  "x_softfork_op D self operand_list current_cost max_cost =
     tryR (util_first (x_allocator self) operand_list) self (\<lambda>f.
     tryR (uint_atom 8 (x_allocator self) f ''softfork'') self (\<lambda>expected.
     if expected > max_cost then (err operand_list ''cost exceeded'', self)
     else if expected = 0 then (err operand_list ''cost must be > 0'', self)
     else x_enter_guard D self operand_list expected current_cost))"

definition x_apply_op :: "dialect \<Rightarrow> 's XContext \<Rightarrow> Cost \<Rightarrow> Cost \<Rightarrow> (Cost, 's) xrun" where
  "x_apply_op D self current_cost max_cost =
     tryS (x_pop self) (\<lambda>operand_list self.
     tryS (x_pop self) (\<lambda>operator self.
     case x_env_stack self of
       [] \<Rightarrow> (err operator ''runtime error: env stack empty'', self)
     | _ # envs \<Rightarrow>
       let self = self\<lparr> x_env_stack := envs \<rparr> in
       tryR (small_number (x_allocator self) operator) self (\<lambda>op_atom.
       tryR (apply_kw D) self (\<lambda>ak.
       if op_atom = Some ak then
         tryR (get_args 2 (x_allocator self) operand_list ''apply'') self (\<lambda>args.
         x_add_cost APPLY_COST (x_eval_pair D self (args ! 0) (args ! 1)))
       else
       tryR (softfork_kw D) self (\<lambda>sk.
       if op_atom = Some sk then x_softfork_op D self operand_list current_cost max_cost
       else
         let current_extensions =
               (case x_softfork_stack self of sf # _ \<Rightarrow> operator_set sf | [] \<Rightarrow> DefaultOps) in
         tryS (x_lift self (dialect_op D (x_allocator self) operator operand_list max_cost current_extensions)) (\<lambda>r self.
         tryS (x_push self (red_node r)) (\<lambda>_ self. (Ok (red_cost r), self))))))))"

fun x_expect_ok :: "string \<Rightarrow> ('a, 's) xrun \<Rightarrow> ('a, 's) xrun" where
  "x_expect_ok msg (Ok x, self) = (Ok x, self)"
| "x_expect_ok msg (Err e, self) = (Panic msg, self)"
| "x_expect_ok msg (Panic p, self) = (Panic p, self)"

definition x_exit_guard :: "'s XContext \<Rightarrow> Cost \<Rightarrow> (Cost, 's) xrun" where
  "x_exit_guard self current_cost =
     (case x_softfork_stack self of
        [] \<Rightarrow> (Panic ''internal error. exiting a softfork that's already been popped'', self)
      | guard # guards \<Rightarrow>
        let self = self\<lparr> x_softfork_stack := guards \<rparr> in
        if current_cost \<noteq> expected_cost guard
        then (err (nil (x_allocator self)) ''softfork specified cost mismatch'', self)
        else
          tryS (x_lift self (restore_checkpoint (x_allocator self) (allocator_state guard))) (\<lambda>_ self.
          tryS (x_expect_ok ''internal error, softfork program did not push value onto stack'' (x_pop self)) (\<lambda>_ self.
          tryS (x_push self (nil (x_allocator self))) (\<lambda>_ self. (Ok 0, self)))))"

text \<open>The additional operation: it calls the closure with the value on top of the stack.\<close>

definition x_post_eval :: "'s XContext \<Rightarrow> (Cost, 's) xrun" where
  "x_post_eval self =
     (case posteval_stack self of
        [] \<Rightarrow> (Panic ''called `Option::unwrap()` on a `None` value'', self)
      | f # fs \<Rightarrow>
        let peek = (case x_val_stack self of [] \<Rightarrow> None | v # _ \<Rightarrow> Some v);
            (a, w) = f (world self) (x_allocator self) peek
        in (Ok 0, self\<lparr> posteval_stack := fs, x_allocator := a, world := w \<rparr>))"

section \<open>The main loop\<close>

definition x_effective_max_cost :: "'s XContext \<Rightarrow> Cost \<Rightarrow> Cost" where
  "x_effective_max_cost self max_cost =
     (case x_softfork_stack self of sf # _ \<Rightarrow> expected_cost sf | [] \<Rightarrow> max_cost)"

fun x_augment_run :: "NodePtr \<Rightarrow> (Cost, 's) xrun \<Rightarrow> (Cost, 's) xrun" where
  "x_augment_run max_cost_ptr (r, self) = (augment_cost_errors r max_cost_ptr, self)"

definition x_run_iter :: "dialect \<Rightarrow> Cost \<Rightarrow> NodePtr \<Rightarrow> Cost \<Rightarrow> 's XContext \<Rightarrow> (Cost option, 's) xrun" where
  "x_run_iter D max_cost max_cost_ptr cost self =
     (let effective = x_effective_max_cost self max_cost in
      if cost > effective then (err max_cost_ptr ''cost exceeded'', self)
      else
        (case x_op_stack self of
           [] \<Rightarrow> (Ok None, self)
         | op # ops \<Rightarrow>
           let self = self\<lparr> x_op_stack := ops \<rparr> in
           tryS (case op of
               Plain Apply \<Rightarrow> x_augment_run max_cost_ptr (x_apply_op D self cost (effective - cost))
             | Plain ExitGuard \<Rightarrow> x_exit_guard self cost
             | Plain Cons \<Rightarrow> x_cons_op self
             | Plain SwapEval \<Rightarrow> x_augment_run max_cost_ptr (x_swap_eval_op D self)
             | PostEval \<Rightarrow> x_post_eval self) (\<lambda>c self.
           (Ok (Some (cost + c)), self))))"

partial_function (option) x_run_loop ::
  "dialect \<Rightarrow> Cost \<Rightarrow> NodePtr \<Rightarrow> Cost \<Rightarrow> 's XContext \<Rightarrow> (Cost, 's) xrun option" where
  "x_run_loop D max_cost max_cost_ptr cost self =
     (case x_run_iter D max_cost max_cost_ptr cost self of
        (Ok (Some cost'), self') \<Rightarrow> x_run_loop D max_cost max_cost_ptr cost' self'
      | (Ok None, self') \<Rightarrow> Some (Ok cost, self')
      | (Err e, self') \<Rightarrow> Some (Err e, self')
      | (Panic p, self') \<Rightarrow> Some (Panic p, self'))"

fun x_tryO :: "('a, 's) xrun \<Rightarrow> ('a \<Rightarrow> 's XContext \<Rightarrow> ('b, 's) xrun option) \<Rightarrow> ('b, 's) xrun option" where
  "x_tryO (Ok x, self) f = f x self"
| "x_tryO (Err e, self) f = Some (Err e, self)"
| "x_tryO (Panic p, self) f = Some (Panic p, self)"

definition x_context_run_program ::
  "'x bigint_api_scheme \<Rightarrow> dialect \<Rightarrow> 's XContext \<Rightarrow> NodePtr \<Rightarrow> NodePtr \<Rightarrow> Cost \<Rightarrow> (Reduction, 's) xrun option" where
  "x_context_run_program B D self program env max_cost =
     (let self = self\<lparr> x_val_stack := [], x_op_stack := [] \<rparr>;
          max_cost = (if max_cost = 0 then - 1 else max_cost) in
      x_tryO (x_lift self (new_number B (x_allocator self) (uint max_cost))) (\<lambda>max_cost_ptr self.
      x_tryO (x_eval_pair D self program env) (\<lambda>c self.
      map_option (\<lambda>r. tryS r (\<lambda>cost self. tryS (x_pop self) (\<lambda>n self. (Ok (Reduction cost n), self))))
        (x_run_loop D max_cost max_cost_ptr (0 + c) self))))"

definition run_program_with_pre_eval ::
  "'x bigint_api_scheme \<Rightarrow> dialect \<Rightarrow> Allocator \<Rightarrow> NodePtr \<Rightarrow> NodePtr \<Rightarrow> Cost \<Rightarrow> 's pre_eval option \<Rightarrow> 's \<Rightarrow>
   (Response \<times> Allocator \<times> 's) option" where
  "run_program_with_pre_eval B D a program env max_cost f w =
     map_option (\<lambda>(r, self). (r, x_allocator self, world self))
       (x_context_run_program B D (new_with_pre_eval a f w) program env max_cost)"

definition run_program_with_counters ::
  "'x bigint_api_scheme \<Rightarrow> dialect \<Rightarrow> Allocator \<Rightarrow> NodePtr \<Rightarrow> NodePtr \<Rightarrow> Cost \<Rightarrow> ((Counters \<times> Response) \<times> Allocator) option" where
  "run_program_with_counters B D a program env max_cost =
     map_option (\<lambda>(ret, rpc).
         (((counters rpc)\<lparr> atom_count := of_nat (alloc_atom_count (x_allocator rpc)),
             small_atom_count := of_nat (alloc_small_atom_count (x_allocator rpc)),
             pair_count := of_nat (alloc_pair_count (x_allocator rpc)),
             heap_size := of_nat (alloc_heap_size (x_allocator rpc)) \<rparr>, ret), x_allocator rpc))
       (x_context_run_program B D (x_new a ()) program env max_cost)"

end
