(* ===== verification/RunFeaturesSpec.thy ===== *)
theory RunFeaturesSpec
  imports RunFeatures RunLoop
begin

text \<open>
  The build with the features against the default build. Forgetting the counters, the
  callbacks and the additional operation turns each operation of the one into that of the
  other, as long as the callbacks only observe: they return, and they leave the allocator as it is.
\<close>

section \<open>Forgetting the features\<close>

fun plain_ops :: "XOperation list \<Rightarrow> Operation list" where
  "plain_ops [] = []"
| "plain_ops (Plain op # ops) = op # plain_ops ops"
| "plain_ops (PostEval # ops) = plain_ops ops"

definition erase :: "'s XContext \<Rightarrow> RunProgramContext" where
  "erase x = \<lparr> allocator = x_allocator x, val_stack = x_val_stack x, env_stack = x_env_stack x,
     op_stack = plain_ops (x_op_stack x), softfork_stack = x_softfork_stack x \<rparr>"

lemma erase_simps [simp]:
  "allocator (erase x) = x_allocator x" "val_stack (erase x) = x_val_stack x" "env_stack (erase x) = x_env_stack x"
  "op_stack (erase x) = plain_ops (x_op_stack x)" "softfork_stack (erase x) = x_softfork_stack x"
  by (simp_all add: erase_def)

definition quiet :: "'s post_eval \<Rightarrow> bool" where
  "quiet g \<longleftrightarrow> (\<forall>w a v. fst (g w a v) = a)"

definition observer :: "'s pre_eval \<Rightarrow> bool" where
  "observer f \<longleftrightarrow> (\<forall>w a p e. case f w a p e of (r, a', _) \<Rightarrow> a' = a \<and>
     (case r of Ok None \<Rightarrow> True | Ok (Some g) \<Rightarrow> quiet g | _ \<Rightarrow> False))"

text \<open>There is a closure for every \<open>PostEval\<close> on the stack of operations.\<close>

definition watched :: "'s XContext \<Rightarrow> bool" where
  "watched x \<longleftrightarrow> (\<forall>f. pre_eval x = Some f \<longrightarrow> observer f) \<and> (\<forall>g \<in> set (posteval_stack x). quiet g) \<and>
     length (posteval_stack x) = count_list (x_op_stack x) PostEval"

definition mirrors :: "('a, 's) xrun \<Rightarrow> 'a run \<Rightarrow> bool" where
  "mirrors m m' \<longleftrightarrow> watched (snd m) \<and> fst m = fst m' \<and> erase (snd m) = snd m'"

named_theorems mirror

lemma mirrors_pair [mirror]: "watched x \<Longrightarrow> r = r' \<Longrightarrow> erase x = s \<Longrightarrow> mirrors (r, x) (r', s)"
  by (simp add: mirrors_def)

lemma mirrors_tryS [mirror]:
  assumes "mirrors m m'" "\<And>v x. watched x \<Longrightarrow> mirrors (f v x) (g v (erase x))"
  shows "mirrors (tryS m f) (tryS m' g)"
proof -
  obtain r x where m: "m = (r, x)" by (cases m)
  then have "m' = (r, erase x)" "watched x" using assms(1) by (auto simp: mirrors_def)
  with m assms(2) show ?thesis by (cases r) (auto simp: mirrors_def)
qed

lemma mirrors_tryR [mirror]:
  assumes "watched x" "s = erase x" "\<And>v. mirrors (f v) (g v)"
  shows "mirrors (tryR m x f) (tryR m s g)"
  using assms by (cases m) (auto simp: mirrors_def)

lemma mirrors_pop [mirror]: "watched x \<Longrightarrow> mirrors (x_pop x) (pop (erase x))"
  by (auto simp: mirrors_def x_pop_def pop_def watched_def erase_def split: list.split)

lemma mirrors_push [mirror]: "watched x \<Longrightarrow> mirrors (x_push x n) (push (erase x) n)"
  by (auto simp: mirrors_def x_push_def push_def watched_def erase_def account_val_push_def)

lemma mirrors_push_env [mirror]: "watched x \<Longrightarrow> mirrors (x_push_env x n) (push_env (erase x) n)"
  by (auto simp: mirrors_def x_push_env_def push_env_def watched_def erase_def account_env_push_def)

lemma mirrors_lift [mirror]: "watched x \<Longrightarrow> mirrors (x_lift x m) (lift_alloc (erase x) m)"
  by (cases m) (auto simp: mirrors_def watched_def erase_def)

lemma erase_push_op [simp]: "erase (x_push_op x op) = push_op (erase x) op" "erase (x_op x (Plain op)) = push_op (erase x) op"
  by (simp_all add: erase_def x_push_op_def account_op_push_def x_op_def push_op_def)

lemma watched_push_op [simp]: "watched (x_push_op x op) \<longleftrightarrow> watched x" "watched (x_op x (Plain op)) \<longleftrightarrow> watched x"
  by (simp_all add: watched_def x_push_op_def account_op_push_def x_op_def)

lemma mirrors_push_after [mirror]: "watched x \<Longrightarrow> mirrors (x_push (x_push_op x op) n) (push (push_op (erase x) op) n)"
  using mirrors_push [of "x_push_op x op" n] by simp

lemma mirrors_cons_op [mirror]: "watched x \<Longrightarrow> mirrors (x_cons_op x) (cons_op (erase x))"
  unfolding x_cons_op_def cons_op_def
  by (auto intro!: mirror)

lemma mirrors_push_operands [mirror]:
  "watched x \<Longrightarrow> mirrors (x_push_operands k x n) (push_operands k (erase x) n)"
proof (induction k arbitrary: x n)
  case (Suc k)
  then show ?case by (auto intro!: mirror Suc.IH split: SExp.split)
qed (simp add: mirror)

lemma mirrors_eval_op_atom [mirror]:
  "watched x \<Longrightarrow> mirrors (x_eval_op_atom D x n l env) (eval_op_atom D (erase x) n l env)"
  unfolding x_eval_op_atom_def eval_op_atom_def
  by (auto intro!: mirror simp del: push_operands.simps x_push_operands.simps)

lemma mirrors_eval_body: "watched x \<Longrightarrow> mirrors (x_eval_body D x p env) (eval_pair D (erase x) p env)"
  unfolding x_eval_body_def eval_pair_def Let_def
  by (auto intro!: mirror split: SExp.split)

lemma call_pre_eval_watched:
  assumes "watched x"
  shows "\<exists>x'. call_pre_eval x p env = (Ok (), x') \<and> watched x' \<and> erase x' = erase x"
proof (cases "pre_eval x")
  case None
  then show ?thesis using assms by (simp add: call_pre_eval_def)
next
  case (Some f)
  obtain r a w where f: "f (world x) (x_allocator x) p env = (r, a, w)" by (metis prod_cases3)
  have "observer f" using assms Some by (simp add: watched_def)
  then have "case f (world x) (x_allocator x) p env of (r, a', _) \<Rightarrow> a' = x_allocator x \<and>
     (case r of Ok None \<Rightarrow> True | Ok (Some g) \<Rightarrow> quiet g | _ \<Rightarrow> False)" by (simp add: observer_def)
  then have a: "a = x_allocator x" "case r of Ok None \<Rightarrow> True | Ok (Some g) \<Rightarrow> quiet g | _ \<Rightarrow> False" using f by simp_all
  then show ?thesis using assms Some f
    by (auto simp: call_pre_eval_def watched_def erase_def x_op_def split: outcome.splits option.splits)
qed

lemma mirrors_eval_pair [mirror]: "watched x \<Longrightarrow> mirrors (x_eval_pair D x p env) (eval_pair D (erase x) p env)"
  using call_pre_eval_watched [of x p env] mirrors_eval_body by (fastforce simp: x_eval_pair_def)

lemma mirrors_eval_after [mirror]:
  "watched x \<Longrightarrow> mirrors (x_eval_pair D (x_push_op x op) p env) (eval_pair D (push_op (erase x) op) p env)"
  using mirrors_eval_pair [of "x_push_op x op" D p env] by simp

lemma mirrors_swap_eval_op [mirror]: "watched x \<Longrightarrow> mirrors (x_swap_eval_op D x) (swap_eval_op D (erase x))"
  unfolding x_swap_eval_op_def swap_eval_op_def
  by (auto intro!: mirror split: list.split)

lemma mirrors_add_cost [mirror]: "mirrors m m' \<Longrightarrow> mirrors (x_add_cost c m) (add_cost c m')"
  by (cases m; cases m') (auto simp: mirrors_def)

lemma mirrors_augment [mirror]: "mirrors m m' \<Longrightarrow> mirrors (x_augment_run p m) (augment_run p m')"
  by (cases m; cases m') (auto simp: mirrors_def)

lemma mirrors_expect [mirror]: "mirrors m m' \<Longrightarrow> mirrors (x_expect_ok s m) (expect_ok s m')"
  by (cases "(s, m)" rule: x_expect_ok.cases; cases m') (auto simp: mirrors_def)

lemma x_parse_erase: "x_parse_softfork_arguments D x l = parse_softfork_arguments D (erase x) l"
  by (simp add: x_parse_softfork_arguments_def parse_softfork_arguments_def)

lemma erase_updates:
  "erase (x\<lparr> x_env_stack := es \<rparr>) = (erase x)\<lparr> env_stack := es \<rparr>"
  "erase (x\<lparr> x_softfork_stack := gs \<rparr>) = (erase x)\<lparr> softfork_stack := gs \<rparr>"
  "watched (x\<lparr> x_env_stack := es \<rparr>) \<longleftrightarrow> watched x" "watched (x\<lparr> x_softfork_stack := gs \<rparr>) \<longleftrightarrow> watched x"
  by (simp_all add: erase_def watched_def)

lemma mirrors_enter_guard [mirror]:
  assumes "watched x" shows "mirrors (x_enter_guard D x l ex c) (enter_guard D (erase x) l ex c)"
proof -
  let ?g = "\<lambda>ext. \<lparr> expected_cost = c + ex, allocator_state = checkpoint (x_allocator x), operator_set = ext \<rparr>"
  have "mirrors (x_eval_pair D (x_op (x\<lparr> x_softfork_stack := ?g ext # x_softfork_stack x \<rparr>) (Plain ExitGuard)) p env)
      (eval_pair D (push_op ((erase x)\<lparr> softfork_stack := ?g ext # x_softfork_stack x \<rparr>) ExitGuard) p env)" for ext p env
    using mirrors_eval_pair [of "x_op (x\<lparr> x_softfork_stack := ?g ext # x_softfork_stack x \<rparr>) (Plain ExitGuard)" D p env] assms
    by (simp add: erase_updates)
  then show ?thesis using assms unfolding x_enter_guard_def enter_guard_def x_parse_erase Let_def
    by (auto intro!: mirror split: outcome.split)
qed

lemma mirrors_softfork_op [mirror]: "watched x \<Longrightarrow> mirrors (x_softfork_op D x l c m) (softfork_op D (erase x) l c m)"
  unfolding x_softfork_op_def softfork_op_def by (auto intro!: mirror)

lemma mirrors_apply_op [mirror]: "watched x \<Longrightarrow> mirrors (x_apply_op D x c m) (apply_op D (erase x) c m)"
  unfolding x_apply_op_def apply_op_def Let_def
  by (auto intro!: mirror split: list.split simp: erase_updates simp flip: erase_updates(1))

lemma mirrors_exit_guard [mirror]: "watched x \<Longrightarrow> mirrors (x_exit_guard x c) (exit_guard (erase x) c)"
  unfolding x_exit_guard_def exit_guard_def Let_def
  by (auto intro!: mirror split: list.split simp: erase_updates simp flip: erase_updates(2))

section \<open>The loop\<close>

lemma x_iter_post:
  assumes "watched x" "x_op_stack x = PostEval # ops" "\<not> x_effective_max_cost x m < cost"
  shows "\<exists>x'. x_run_iter D m mp cost x = (Ok (Some cost), x') \<and> watched x' \<and> erase x' = erase x \<and> x_op_stack x' = ops"
proof -
  obtain g gs where g: "posteval_stack x = g # gs" using assms(1,2) by (cases "posteval_stack x") (auto simp: watched_def)
  then have "quiet g" using assms(1) by (simp add: watched_def)
  then show ?thesis using assms g
    by (auto simp: x_run_iter_def Let_def x_post_eval_def watched_def erase_def quiet_def split: prod.split) (metis fst_conv)
qed

lemma x_iter_plain:
  assumes "watched x" "x_effective_max_cost x m < cost \<or> (\<forall>ops. x_op_stack x \<noteq> PostEval # ops)"
  shows "mirrors (x_run_iter D m mp cost x) (run_iter D m mp cost (erase x))"
proof -
  have e: "effective_max_cost (erase x) m = x_effective_max_cost x m"
    by (simp add: effective_max_cost_def x_effective_max_cost_def split: list.split)
  consider (over) "x_effective_max_cost x m < cost" | (stop) "x_op_stack x = []"
    | (op) op ops where "x_op_stack x = Plain op # ops" "\<not> x_effective_max_cost x m < cost"
    using assms(2) by (metis XOperation.exhaust neq_Nil_conv)
  then show ?thesis
  proof cases
    case (op op ops)
    let ?x = "x\<lparr> x_op_stack := ops \<rparr>"
    have w: "watched ?x" "erase ?x = (erase x)\<lparr> op_stack := plain_ops ops \<rparr>"
      using assms(1) op(1) by (simp_all add: watched_def erase_def)
    note [mirror] = mirrors_apply_op [OF w(1), unfolded w(2)] mirrors_exit_guard [OF w(1), unfolded w(2)]
      mirrors_cons_op [OF w(1), unfolded w(2)] mirrors_swap_eval_op [OF w(1), unfolded w(2)]
    show ?thesis using op by (simp add: x_run_iter_def run_iter_def e Let_def) (auto intro!: mirror split: Operation.split)
  qed (use assms(1) in \<open>auto simp: x_run_iter_def run_iter_def e Let_def intro!: mirror\<close>)
qed

lemma x_loop_of_loop:
  assumes "run_loop D m mp cost s = Some y"
  shows "\<forall>x. watched x \<longrightarrow> s = erase x \<longrightarrow> (\<exists>x'. x_run_loop D m mp cost x = Some (fst y, x') \<and> watched x' \<and> erase x' = snd y)"
proof (rule run_loop.raw_induct [where P = "\<lambda>D m mp cost s y. \<forall>x. watched x \<longrightarrow> s = erase x \<longrightarrow>
    (\<exists>x'. x_run_loop D m mp cost x = Some (fst y, x') \<and> watched x' \<and> erase x' = snd y)", OF _ assms], intro allI impI)
  fix loop D m mp cost s y and x :: "'a XContext"
  assume IH: "\<And>D m mp cost s y. loop D m mp cost s = Some y \<Longrightarrow> \<forall>x :: 'a XContext. watched x \<longrightarrow> s = erase x \<longrightarrow>
      (\<exists>x'. x_run_loop D m mp cost x = Some (fst y, x') \<and> watched x' \<and> erase x' = snd y)"
    and body: "(case run_iter D m mp cost s of
        (Ok (Some cost'), self') \<Rightarrow> loop D m mp cost' self'
      | (Ok None, self') \<Rightarrow> Some (Ok cost, self')
      | (Err e, self') \<Rightarrow> Some (Err e, self')
      | (Panic p, self') \<Rightarrow> Some (Panic p, self')) = Some y"
    and x: "watched x" "s = erase x"
  from x show "\<exists>x'. x_run_loop D m mp cost x = Some (fst y, x') \<and> watched x' \<and> erase x' = snd y"
  proof (induction "length (x_op_stack x)" arbitrary: x rule: less_induct)
    case less
    show ?case
    proof (cases "x_effective_max_cost x m < cost \<or> (\<forall>ops. x_op_stack x \<noteq> PostEval # ops)")
      case True
      obtain r x' where it: "x_run_iter D m mp cost x = (r, x')" by fastforce
      then have r: "run_iter D m mp cost s = (r, erase x')" "watched x'"
        using x_iter_plain [OF less.prems(1) True, of D mp] less.prems(2) by (auto simp: mirrors_def prod_eq_iff)
      show ?thesis using body r it IH [of D m mp _ "erase x'" y]
        by (subst x_run_loop.simps) (auto split: outcome.splits option.splits)
    next
      case False
      then obtain ops where "x_op_stack x = PostEval # ops" by auto
      with False x_iter_post [OF less.prems(1) this, of m cost D mp] obtain x1 where
        x1: "x_run_iter D m mp cost x = (Ok (Some cost), x1)" "watched x1" "erase x1 = erase x" "x_op_stack x1 = ops" by auto
      with less.hyps [of x1] less.prems(2) \<open>x_op_stack x = _\<close> show ?thesis
        by (subst x_run_loop.simps) simp
    qed
  qed
qed

lemma loop_of_x_loop:
  assumes "x_run_loop D m mp cost x = Some y"
  shows "watched x \<longrightarrow> run_loop D m mp cost (erase x) = Some (fst y, erase (snd y))"
proof (rule x_run_loop.raw_induct [where P = "\<lambda>D m mp cost x y. watched x \<longrightarrow>
    run_loop D m mp cost (erase x) = Some (fst y, erase (snd y))", OF _ assms], rule impI)
  fix loop D m mp cost y and x :: "'a XContext"
  assume IH: "\<And>D m mp cost (x :: 'a XContext) y. loop D m mp cost x = Some y \<Longrightarrow> watched x \<longrightarrow>
      run_loop D m mp cost (erase x) = Some (fst y, erase (snd y))"
    and body: "(case x_run_iter D m mp cost x of
        (Ok (Some cost'), self') \<Rightarrow> loop D m mp cost' self'
      | (Ok None, self') \<Rightarrow> Some (Ok cost, self')
      | (Err e, self') \<Rightarrow> Some (Err e, self')
      | (Panic p, self') \<Rightarrow> Some (Panic p, self')) = Some y"
    and x: "watched x"
  show "run_loop D m mp cost (erase x) = Some (fst y, erase (snd y))"
  proof (cases "x_effective_max_cost x m < cost \<or> (\<forall>ops. x_op_stack x \<noteq> PostEval # ops)")
    case True
    obtain r x' where it: "x_run_iter D m mp cost x = (r, x')" by fastforce
    then have r: "run_iter D m mp cost (erase x) = (r, erase x')" "watched x'"
      using x_iter_plain [OF x True, of D mp] by (auto simp: mirrors_def prod_eq_iff)
    show ?thesis using body r it IH [of D m mp _ x' y]
      by (subst run_loop.simps) (auto split: outcome.splits option.splits)
  next
    case False
    then obtain ops where "x_op_stack x = PostEval # ops" by auto
    with False x_iter_post [OF x this, of m cost D mp] obtain x1 where
      x1: "x_run_iter D m mp cost x = (Ok (Some cost), x1)" "watched x1" "erase x1 = erase x" by auto
    with body IH [of D m mp cost x1 y] show ?thesis by simp
  qed
qed

definition erase_end :: "('a, 's) xrun \<Rightarrow> 'a run" where
  "erase_end y = (fst y, erase (snd y))"

text \<open>The run of the one build, with the features forgotten, is the run of the other.\<close>

lemma x_run_loop_erase:
  assumes "watched x"
  shows "map_option erase_end (x_run_loop D m mp cost x) = run_loop D m mp cost (erase x)"
proof (cases "x_run_loop D m mp cost x")
  case None
  have "run_loop D m mp cost (erase x) = None"
    using x_loop_of_loop [of D m mp cost "erase x"] assms None by (cases "run_loop D m mp cost (erase x)") auto
  then show ?thesis using None by simp
next
  case (Some y)
  then show ?thesis using loop_of_x_loop [OF Some] assms by (simp add: erase_end_def)
qed

lemma x_loop_watched: "watched x \<Longrightarrow> x_run_loop D m mp cost x = Some (r, x') \<Longrightarrow> watched x'"
  using loop_of_x_loop [of D m mp cost x "(r, x')"] x_loop_of_loop [of D m mp cost "erase x"] by fastforce

lemma x_tryO_erase:
  assumes "mirrors m m'" "\<And>v x. watched x \<Longrightarrow> map_option erase_end (f v x) = g v (erase x)"
  shows "map_option erase_end (x_tryO m f) = tryO m' g"
proof -
  obtain r x where m: "m = (r, x)" by (cases m)
  then have "m' = (r, erase x)" "watched x" using assms(1) by (auto simp: mirrors_def)
  with m assms(2) show ?thesis by (cases r) (auto simp: erase_end_def)
qed

lemma mirrors_end: "mirrors m m' \<Longrightarrow> erase_end m = m'"
  by (auto simp: mirrors_def erase_end_def)

lemma x_context_erase:
  assumes "watched (x\<lparr> x_val_stack := [], x_op_stack := [] \<rparr>)"
  shows "map_option erase_end (x_context_run_program B D x program env max_cost) =
    context_run_program B D (erase x) program env max_cost"
proof -
  let ?x = "x\<lparr> x_val_stack := [], x_op_stack := [] \<rparr>"
  have e: "(erase x)\<lparr> val_stack := [], op_stack := [] \<rparr> = erase ?x" by (simp add: erase_def)
  have last: "map_option erase_end (map_option (\<lambda>r. tryS r (\<lambda>cost self. tryS (x_pop self) (\<lambda>n self. (Ok (Reduction cost n), self))))
        (x_run_loop D m mp c x)) =
      map_option (\<lambda>r. tryS r (\<lambda>cost self. tryS (pop self) (\<lambda>n self. (Ok (Reduction cost n), self)))) (run_loop D m mp c (erase x))"
    if "watched x" for m mp c and x :: "'a XContext"
  proof (cases "x_run_loop D m mp c x")
    case (Some y)
    then have "mirrors y (erase_end y)" using x_loop_watched [OF that, of D m mp c "fst y" "snd y"]
      by (simp add: mirrors_def erase_end_def)
    then have "erase_end (tryS y (\<lambda>cost self. tryS (x_pop self) (\<lambda>n self. (Ok (Reduction cost n), self)))) =
        tryS (erase_end y) (\<lambda>cost self. tryS (pop self) (\<lambda>n self. (Ok (Reduction cost n), self)))"
      by (intro mirrors_end) (auto intro!: mirror)
    then show ?thesis using Some x_run_loop_erase [OF that, of D m mp c, symmetric] by simp
  qed (use x_run_loop_erase [OF that, of D m mp c, symmetric] in simp)
  show ?thesis unfolding x_context_run_program_def context_run_program_def Let_def e
    by (intro x_tryO_erase last) (use assms in \<open>auto intro!: mirror\<close>)
qed

end
