(* ===== verification/CounterSpec.thy ===== *)
theory CounterSpec
  imports RunFeaturesSpec
begin

text \<open>
  The counters of a run: in the build without a callback, the counters bound the sizes of the
  stacks in every state of the run, and never decrease.
\<close>

section \<open>Operations keep the counters above the stacks\<close>

text \<open>The slack \<open>k\<close> is 1 while an operation that was popped is being executed.\<close>

definition counted :: "nat \<Rightarrow> 's XContext \<Rightarrow> bool" where
  "counted k x \<longleftrightarrow> pre_eval x = None \<and> posteval_stack x = []
     \<and> length (x_val_stack x) \<le> val_stack_usage (counters x) \<and> val_stack_usage (counters x) \<le> STACK_SIZE_LIMIT
     \<and> length (x_env_stack x) \<le> env_stack_usage (counters x) \<and> env_stack_usage (counters x) \<le> STACK_SIZE_LIMIT
     \<and> length (x_op_stack x) + k \<le> op_stack_usage (counters x)"

definition counters_le :: "Counters \<Rightarrow> Counters \<Rightarrow> bool" where
  "counters_le c c' \<longleftrightarrow> val_stack_usage c \<le> val_stack_usage c' \<and> env_stack_usage c \<le> env_stack_usage c' \<and> op_stack_usage c \<le> op_stack_usage c'"

lemma counters_le_refl [simp]: "counters_le c c"
  by (simp add: counters_le_def)

lemma counters_le_trans: "counters_le a b \<Longrightarrow> counters_le b c \<Longrightarrow> counters_le a c"
  by (auto simp: counters_le_def)

definition tallies :: "nat \<Rightarrow> 's XContext \<Rightarrow> ('a, 's) xrun \<Rightarrow> bool" where
  "tallies k x m \<longleftrightarrow> counted k (snd m) \<and> counters_le (counters x) (counters (snd m))"

named_theorems count

lemma counted_le: "counted j x \<Longrightarrow> k \<le> j \<Longrightarrow> counted k x"
  by (simp add: counted_def)

lemma tallies_pair [count]: "counted k x \<Longrightarrow> tallies k x (r, x)"
  by (simp add: tallies_def)

lemma tallies_tryS:
  "tallies j x m \<Longrightarrow> k \<le> j \<Longrightarrow> (\<And>v y. counted j y \<Longrightarrow> tallies k y (f v y)) \<Longrightarrow> tallies k x (tryS m f)"
  by (cases "(m, f)" rule: tryS.cases) (auto simp: tallies_def dest: counted_le intro: counters_le_trans)

lemmas tallies_try [count] = tallies_tryS [OF _ order_refl]

lemma tallies_tryR [count]: "counted k x \<Longrightarrow> (\<And>v. tallies k x (f v)) \<Longrightarrow> tallies k x (tryR m x f)"
  by (cases m) (auto simp: tallies_def)

lemma tallies_pop [count]: "counted k x \<Longrightarrow> tallies k x (x_pop x)"
  by (auto simp: tallies_def x_pop_def counted_def split: list.split)

lemma tallies_push [count]: "counted k x \<Longrightarrow> tallies k x (x_push x n)"
  by (auto simp: tallies_def x_push_def counted_def account_val_push_def counters_le_def)

lemma tallies_push_env [count]: "counted k x \<Longrightarrow> tallies k x (x_push_env x n)"
  by (auto simp: tallies_def x_push_env_def counted_def account_env_push_def counters_le_def)

lemma tallies_lift [count]: "counted k x \<Longrightarrow> tallies k x (x_lift x m)"
  by (cases m) (auto simp: tallies_def counted_def)

lemma counted_push_op: "counted 0 x \<Longrightarrow> counted 0 (x_push_op x op)" "counters_le (counters x) (counters (x_push_op x op))"
  by (simp_all add: counted_def x_push_op_def account_op_push_def x_op_def counters_le_def)

lemma tallies_after: "tallies 0 (x_push_op x op) m \<Longrightarrow> tallies 0 x m"
  using counted_push_op(2) counters_le_trans unfolding tallies_def by blast

lemma tallies_ok_op [count]: "counted 0 x \<Longrightarrow> tallies 0 x (r, x_push_op x op)"
  by (simp add: tallies_def counted_push_op)

lemma tallies_push_after [count]: "counted 0 x \<Longrightarrow> tallies 0 x (x_push (x_push_op x op) n)"
  by (rule tallies_after [of x op]) (simp add: count counted_push_op)

lemma tallies_cons_op [count]: "counted k x \<Longrightarrow> tallies k x (x_cons_op x)"
  unfolding x_cons_op_def by (auto intro!: count)

lemma tallies_push_operands [count]: "counted 0 x \<Longrightarrow> tallies 0 x (x_push_operands k x n)"
proof (induction k arbitrary: x n)
  case (Suc k)
  then show ?case by (auto intro!: count Suc.IH split: SExp.split)
qed (simp add: count)

lemma tallies_eval_op_atom [count]: "counted 0 x \<Longrightarrow> tallies 0 x (x_eval_op_atom D x n l env)"
  unfolding x_eval_op_atom_def by (auto intro!: count simp del: x_push_operands.simps)

lemma tallies_eval_pair [count]: "counted 0 x \<Longrightarrow> tallies 0 x (x_eval_pair D x p env)"
proof -
  assume c: "counted 0 x"
  then have "call_pre_eval x p env = (Ok (), x)" by (simp add: counted_def call_pre_eval_def)
  then show ?thesis using c unfolding x_eval_pair_def x_eval_body_def Let_def by (auto intro!: count split: SExp.split)
qed

lemma tallies_eval_after [count]: "counted 0 x \<Longrightarrow> tallies 0 x (x_eval_pair D (x_push_op x op) p env)"
  by (rule tallies_after [of x op]) (simp add: count counted_push_op)

lemma tallies_swap_eval_op [count]: "counted 0 x \<Longrightarrow> tallies 0 x (x_swap_eval_op D x)"
  unfolding x_swap_eval_op_def by (auto intro!: count split: list.split)

lemma tallies_result [count]:
  "tallies k x m \<Longrightarrow> tallies k x (x_add_cost c m)" "tallies k x m \<Longrightarrow> tallies k x (x_augment_run p m)" "tallies k x n \<Longrightarrow> tallies k x (x_expect_ok s n)"
  by (cases m, simp add: tallies_def) (cases m, simp add: tallies_def, cases "(s, n)" rule: x_expect_ok.cases, simp_all add: tallies_def)

lemma tallies_env: "tallies k (x\<lparr> x_env_stack := es \<rparr>) m \<Longrightarrow> tallies k x m"
  by (simp add: tallies_def)

lemma tallies_enter_guard: "counted (Suc 0) x \<Longrightarrow> tallies 0 x (x_enter_guard D x l ex c)"
proof -
  assume c: "counted (Suc 0) x"
  let ?g = "\<lambda>ext. x\<lparr> x_softfork_stack := \<lparr> expected_cost = c + ex, allocator_state = checkpoint (x_allocator x), operator_set = ext \<rparr> # x_softfork_stack x \<rparr>"
  have "counted 0 (x_op (?g ext) (Plain ExitGuard))" for ext using c by (simp add: counted_def x_op_def)
  then have "tallies 0 x (x_eval_pair D (x_op (?g ext) (Plain ExitGuard)) p env)" for ext p env
    using tallies_eval_pair [of "x_op (?g ext) (Plain ExitGuard)" D p env] by (simp add: tallies_def x_op_def)
  with counted_le [OF c, of 0] show ?thesis unfolding x_enter_guard_def Let_def by (auto intro!: count split: outcome.split)
qed

lemma tallies_softfork_op: "counted (Suc 0) x \<Longrightarrow> tallies 0 x (x_softfork_op D x l c m)"
  unfolding x_softfork_op_def using counted_le [of "Suc 0" x 0] by (auto intro!: count intro: tallies_enter_guard)

lemma tallies_apply_tail:
  assumes "counted (Suc 0) z"
  shows "tallies 0 z (tryR (small_number (x_allocator z) operator) z (\<lambda>op_atom.
       tryR (apply_kw D) z (\<lambda>ak.
       if op_atom = Some ak then
         tryR (get_args 2 (x_allocator z) operand_list ''apply'') z (\<lambda>args.
         x_add_cost APPLY_COST (x_eval_pair D z (args ! 0) (args ! 1)))
       else
       tryR (softfork_kw D) z (\<lambda>sk.
       if op_atom = Some sk then x_softfork_op D z operand_list c m
       else
         tryS (x_lift z (dialect_op D (x_allocator z) operator operand_list m
            (case x_softfork_stack z of sf # _ \<Rightarrow> operator_set sf | [] \<Rightarrow> DefaultOps))) (\<lambda>r self.
         tryS (x_push self (red_node r)) (\<lambda>_ self. (Ok (red_cost r), self)))))))"
  using tallies_softfork_op [OF assms] counted_le [OF assms, of 0] by (auto intro!: count)

lemma tallies_apply_op: "counted (Suc 0) x \<Longrightarrow> tallies 0 x (x_apply_op D x c m)"
  unfolding x_apply_op_def Let_def
proof (intro tallies_tryS [OF tallies_pop], assumption, simp, assumption, simp)
  fix operand_list operator and y :: "'a XContext"
  assume y: "counted (Suc 0) y"
  have z: "counted (Suc 0) (y\<lparr> x_env_stack := envs \<rparr>)" if "x_env_stack y = e # envs" for e envs
    using y that by (simp add: counted_def)
  show "tallies 0 y (case x_env_stack y of [] \<Rightarrow> (err operator ''runtime error: env stack empty'', y) | _ # envs \<Rightarrow>
      tryR (small_number (x_allocator (y\<lparr> x_env_stack := envs \<rparr>)) operator) (y\<lparr> x_env_stack := envs \<rparr>) (\<lambda>op_atom.
       tryR (apply_kw D) (y\<lparr> x_env_stack := envs \<rparr>) (\<lambda>ak.
       if op_atom = Some ak then
         tryR (get_args 2 (x_allocator (y\<lparr> x_env_stack := envs \<rparr>)) operand_list ''apply'') (y\<lparr> x_env_stack := envs \<rparr>) (\<lambda>args.
         x_add_cost APPLY_COST (x_eval_pair D (y\<lparr> x_env_stack := envs \<rparr>) (args ! 0) (args ! 1)))
       else
       tryR (softfork_kw D) (y\<lparr> x_env_stack := envs \<rparr>) (\<lambda>sk.
       if op_atom = Some sk then x_softfork_op D (y\<lparr> x_env_stack := envs \<rparr>) operand_list c m
       else
         tryS (x_lift (y\<lparr> x_env_stack := envs \<rparr>) (dialect_op D (x_allocator (y\<lparr> x_env_stack := envs \<rparr>)) operator operand_list m
            (case x_softfork_stack (y\<lparr> x_env_stack := envs \<rparr>) of sf # _ \<Rightarrow> operator_set sf | [] \<Rightarrow> DefaultOps))) (\<lambda>r self.
         tryS (x_push self (red_node r)) (\<lambda>_ self. (Ok (red_cost r), self)))))))"
    using tallies_env [OF tallies_apply_tail [OF z]] counted_le [OF y, of 0] by (cases "x_env_stack y") (auto intro!: count)
qed

lemma tallies_exit_guard: "counted 0 x \<Longrightarrow> tallies 0 x (x_exit_guard x c)"
proof -
  assume c: "counted 0 x"
  have g: "counted 0 (x\<lparr> x_softfork_stack := gs \<rparr>)" for gs using c by (simp add: counted_def)
  have b: "tallies 0 (x\<lparr> x_softfork_stack := gs \<rparr>) m \<Longrightarrow> tallies 0 x m" for gs and m :: "(Cost, 'a) xrun"
    by (simp add: tallies_def)
  show ?thesis unfolding x_exit_guard_def Let_def
    using c by (auto split: list.split intro!: count b [OF tallies_pair] b [OF tallies_try] g)
qed

lemma tallies_run_iter: "counted 0 x \<Longrightarrow> tallies 0 x (x_run_iter D m mp c x)"
proof (cases "x_op_stack x")
  case (Cons op ops)
  assume c: "counted 0 x"
  let ?x = "x\<lparr> x_op_stack := ops \<rparr>"
  have x: "counted (Suc 0) ?x" using c Cons by (simp add: counted_def)
  then have x0: "counted 0 ?x" by (rule counted_le) simp
  have b: "tallies 0 ?x n \<Longrightarrow> tallies 0 x n" for n :: "(Cost option, 'a) xrun" by (simp add: tallies_def)
  have "tallies 0 ?x (x_post_eval ?x)" using x0 by (auto simp: x_post_eval_def tallies_def counted_def split: list.split prod.split)
  then have "tallies 0 ?x (tryS (case op of
               Plain Apply \<Rightarrow> x_augment_run mp (x_apply_op D ?x c (x_effective_max_cost x m - c))
             | Plain ExitGuard \<Rightarrow> x_exit_guard ?x c
             | Plain Cons \<Rightarrow> x_cons_op ?x
             | Plain SwapEval \<Rightarrow> x_augment_run mp (x_swap_eval_op D ?x)
             | PostEval \<Rightarrow> x_post_eval ?x) (\<lambda>v self. (Ok (Some (c + v)), self)))"
    using x x0 by (intro tallies_try) (auto intro!: count tallies_apply_op tallies_exit_guard split: XOperation.split Operation.split)
  then show ?thesis using c Cons by (simp add: x_run_iter_def Let_def b tallies_pair)
qed (auto simp: x_run_iter_def Let_def intro!: count)

section \<open>Along a run\<close>

lemma x_loop_tallies:
  assumes "x_run_loop D m mp cost x = Some y"
  shows "counted 0 x \<longrightarrow> tallies 0 x y"
proof (rule x_run_loop.raw_induct [where P = "\<lambda>D m mp cost x y. counted 0 x \<longrightarrow> tallies 0 x y", OF _ assms], rule impI)
  fix loop D m mp cost y and x :: "'a XContext"
  assume IH: "\<And>D m mp cost (x :: 'a XContext) y. loop D m mp cost x = Some y \<Longrightarrow> counted 0 x \<longrightarrow> tallies 0 x y"
    and body: "(case x_run_iter D m mp cost x of
        (Ok (Some cost'), self') \<Rightarrow> loop D m mp cost' self'
      | (Ok None, self') \<Rightarrow> Some (Ok cost, self')
      | (Err e, self') \<Rightarrow> Some (Err e, self')
      | (Panic p, self') \<Rightarrow> Some (Panic p, self')) = Some y"
    and x: "counted 0 x"
  obtain r x' where it: "x_run_iter D m mp cost x = (r, x')" by fastforce
  with tallies_run_iter [OF x, of D m mp cost] have c: "counted 0 x'" "counters_le (counters x) (counters x')" by (simp_all add: tallies_def)
  with body it IH [of D m mp _ x' y] show "tallies 0 x y"
    by (auto simp: tallies_def split: outcome.splits option.splits intro: counters_le_trans)
qed

text \<open>Without a callback every state of the default build is passed, with its counters.\<close>

lemma counted_no_post: "counted k x \<Longrightarrow> watched x \<Longrightarrow> x_op_stack x \<noteq> PostEval # ops"
  by (auto simp: counted_def watched_def)

lemma x_step:
  assumes "counted 0 x" "watched x" "run_iter D m mp c (erase x) = (Ok (Some c'), s')"
  shows "\<exists>x'. x_run_iter D m mp c x = (Ok (Some c'), x') \<and> erase x' = s' \<and> counted 0 x' \<and> watched x'"
proof -
  obtain x' where x': "x_run_iter D m mp c x = (Ok (Some c'), x')" "erase x' = s'" "watched x'"
    using x_iter_plain [OF assms(2), of m c D mp] counted_no_post [OF assms(1,2)] assms(3)
    by (cases "x_run_iter D m mp c x") (auto simp: mirrors_def)
  then show ?thesis using tallies_run_iter [OF assms(1), of D m mp c] by (simp add: tallies_def)
qed

lemma x_reach:
  assumes "reach D m mp c0 s0 c s" "s0 = erase x0" "counted 0 x0" "watched x0" "x_run_loop D m mp c0 x0 = Some y"
  shows "\<exists>x. erase x = s \<and> counted 0 x \<and> watched x \<and> x_run_loop D m mp c x = Some y"
  using assms(1)
proof induction
  case (more c s c' s')
  then obtain x where x: "erase x = s" "counted 0 x" "watched x" "x_run_loop D m mp c x = Some y" by blast
  with x_step [of x D m mp c c' s'] more.hyps(2) obtain x' where
    x': "x_run_iter D m mp c x = (Ok (Some c'), x')" "erase x' = s'" "counted 0 x'" "watched x'" by blast
  have "x_run_loop D m mp c x = x_run_loop D m mp c' x'" by (subst x_run_loop.simps) (simp add: x'(1))
  with x(4) x' show ?case by metis
qed (use assms in blast)

text \<open>The sizes that a run of the default build reaches are within the final counters.\<close>

lemma x_reach_within:
  assumes "reach D m mp c (erase x) c' s" "counted 0 x" "watched x" "x_run_loop D m mp c x = Some (r, x')"
  shows "length (val_stack s) \<le> val_stack_usage (counters x') \<and> length (env_stack s) \<le> env_stack_usage (counters x') \<and>
    length (op_stack s) \<le> op_stack_usage (counters x')"
proof -
  obtain z where z: "erase z = s" "counted 0 z" "watched z" "x_run_loop D m mp c' z = Some (r, x')"
    using x_reach [OF assms(1) refl assms(2-4)] by blast
  have "length (plain_ops ops) \<le> length ops" for ops by (induction ops rule: plain_ops.induct) auto
  then have "length (op_stack s) \<le> length (x_op_stack z)" using z(1) by auto
  with z(1,2) x_loop_tallies [OF z(4)] show ?thesis by (auto simp: counted_def tallies_def counters_le_def)
qed

end
