(* ===== verification/FeatureProps.thy ===== *)
theory FeatureProps
  imports CounterSpec InterpreterProps
begin

text \<open>
  The properties of the build with the \<open>counters\<close> and \<open>pre-eval\<close> features: neither changes the
  result of a run, and what the counters say of it.
\<close>

definition within :: "RunProgramContext \<Rightarrow> Counters \<Rightarrow> bool" where
  "within s c \<longleftrightarrow> length (val_stack s) \<le> val_stack_usage c \<and> length (env_stack s) \<le> env_stack_usage c \<and>
     length (op_stack s) \<le> op_stack_usage c"

lemma run_program_erase:
  assumes "watched x" "erase x = context_new a" "x_val_stack x = []" "x_op_stack x = []"
  shows "map_option (\<lambda>(r, x'). (r, x_allocator x')) (x_context_run_program B D x program env max_cost) =
    run_program B D a program env max_cost"
proof -
  have "x\<lparr> x_val_stack := [], x_op_stack := [] \<rparr> = x" using assms(3,4) by simp
  then have "map_option erase_end (x_context_run_program B D x program env max_cost) =
      context_run_program B D (context_new a) program env max_cost"
    using x_context_erase [of x B D program env max_cost] assms(1,2) by simp
  then show ?thesis unfolding run_program_def
    by (cases "x_context_run_program B D x program env max_cost") (auto simp: erase_end_def dest: sym)
qed

lemma x_run_tallies:
  assumes "counted 0 x" "watched x" "x_run_loop D m mp c x = Some y"
    "(r, x') = tryS y (\<lambda>cost self. tryS (x_pop self) (\<lambda>n self. (Ok (Reduction cost n), self)))"
  shows "counted 0 x' \<and> counters_le (counters x) (counters x') \<and> (\<forall>c' s. reach D m mp c (erase x) c' s \<longrightarrow> within s (counters x'))"
proof -
  obtain r1 x1 where y: "y = (r1, x1)" by (cases y)
  have x1: "counted 0 x1" "counters_le (counters x) (counters x1)" using x_loop_tallies [OF assms(3)] assms(1) y by (simp_all add: tallies_def)
  have "tallies 0 x1 (r, x')" unfolding assms(4) using x1(1) y by (intro tallies_try) (simp add: tallies_def, auto intro!: count)
  then have x': "counted 0 x'" "counters_le (counters x1) (counters x')" by (simp_all add: tallies_def)
  have "within s (counters x1)" if "reach D m mp c (erase x) c' s" for c' s
    using x_reach_within [OF that assms(1,2)] assms(3) y by (simp add: within_def)
  then have "within s (counters x')" if "reach D m mp c (erase x) c' s" for c' s
    using that x'(2) by (fastforce simp: within_def counters_le_def)
  with x1 x' show ?thesis by (blast intro: counters_le_trans)
qed

lemma x_new_simps [simp]:
  "x_allocator (x_new a w) = a" "x_val_stack (x_new a w) = []" "x_op_stack (x_new a w) = []" "(x_new a w)\<lparr> x_val_stack := [], x_op_stack := [] \<rparr> = x_new a w"
  "counted 0 ((x_new a w)\<lparr> x_allocator := a' \<rparr>)" "watched ((x_new a w)\<lparr> x_allocator := a' \<rparr>)" "watched (x_new a w)"
  "erase (x_new a w) = context_new a" "erase ((x_new a w)\<lparr> x_allocator := a' \<rparr>) = context_new a'"
  by (simp_all add: x_new_def counted_def watched_def erase_def context_new_def counters_new_def)

lemma x_context_tallies:
  assumes "x_context_run_program B D (x_new a w) program env max_cost = Some (r, x')"
  shows "counted 0 x' \<and> (\<forall>s \<in> run_states B D a program env max_cost. within s (counters x'))"
proof -
  let ?m = "cost_limit max_cost"
  obtain r0 a1 where n: "new_number B a (uint ?m) = (r0, a1)" by fastforce
  let ?x = "(x_new a w)\<lparr> x_allocator := a1 \<rparr>"
  have first: "within (context_new a1) c" for c by (simp add: within_def context_new_def)
  have l: "lift_alloc (context_new a) (new_number B a (uint ?m)) = (r0, context_new a1)" by (simp add: n context_new_def)
  show ?thesis
  proof (cases "is_ok r0")
    case False
    then show ?thesis using assms n l by (cases r0) (auto simp: x_context_run_program_def cost_limit_def run_states_def)
  next
    case True
    then obtain mp where r0: "r0 = Ok mp" by (cases r0) auto
    obtain rc x2 where e: "x_eval_pair D ?x program env = (rc, x2)" by fastforce
    have c2: "counted 0 x2" "watched x2" "eval_pair D (context_new a1) program env = (rc, erase x2)"
      using tallies_eval_pair [of ?x D program env] mirrors_eval_pair [of ?x D program env] e
      by (auto simp: tallies_def mirrors_def prod_eq_iff)
    have rest: "x_tryO (rc, x2) (\<lambda>c self. map_option (\<lambda>r. tryS r (\<lambda>cost self. tryS (x_pop self) (\<lambda>n self. (Ok (Reduction cost n), self))))
        (x_run_loop D ?m mp (0 + c) self)) = Some (r, x')"
      using assms n r0 e by (simp add: x_context_run_program_def cost_limit_def)
    have st: "s = context_new a1 \<or> (\<exists>c c'. rc = Ok c \<and> reach D ?m mp c (erase x2) c' s)"
      if "s \<in> run_states B D a program env max_cost" for s
      using that l r0 c2(3) by (auto simp: run_states_def)
    show ?thesis
    proof (cases rc)
      case (Ok c)
      then obtain y where y: "x_run_loop D ?m mp c x2 = Some y"
        "(r, x') = tryS y (\<lambda>cost self. tryS (x_pop self) (\<lambda>n self. (Ok (Reduction cost n), self)))"
        using rest by auto
      from x_run_tallies [OF c2(1,2) y] st first Ok show ?thesis by blast
    next
      case (Err er)
      then show ?thesis using rest c2(1) st first by auto
    next
      case (Panic p)
      then show ?thesis using rest c2(1) st first by auto
    qed
  qed
qed

section \<open>Properties\<close>

text \<open>
  C13. Callbacks that only observe do not change a run: with a \<open>pre_eval\<close> closure that returns
  \<open>Ok\<close> and leaves the allocator alone, and whose \<open>post_eval\<close> closures leave it alone too,
  \<open>run_program_with_pre_eval\<close> ends exactly when \<open>run_program\<close> does, with the same response, cost
  and allocator. In particular there is a closure for each \<open>PostEval\<close> operation, so that its
  \<open>unwrap\<close> does not panic.
\<close>

theorem pre_eval_transparent:
  assumes "\<forall>f. pre = Some f \<longrightarrow> observer f"
  shows "map_option (\<lambda>(r, a', w'). (r, a')) (run_program_with_pre_eval B D a program env max_cost pre w) =
    run_program B D a program env max_cost"
proof -
  have "watched (new_with_pre_eval a pre w)" "erase (new_with_pre_eval a pre w) = context_new a"
    using assms by (simp_all add: new_with_pre_eval_def watched_def erase_def context_new_def)
  from run_program_erase [OF this, of B D program env max_cost] show ?thesis
    by (simp add: run_program_with_pre_eval_def new_with_pre_eval_def option.map_comp comp_def case_prod_unfold)
qed

text \<open>A closure that counts the evaluations, and a closure that counts them when they end.\<close>

definition ex_tracer :: "(nat \<times> nat) pre_eval" where
  "ex_tracer = (\<lambda>(i, j) a p e. (Ok (Some (\<lambda>(i, j) a v. (a, (i, Suc j)))), a, (Suc i, j)))"

theorem pre_eval_transparent_witness:
  "map_option (\<lambda>(r, a', w'). (r, a')) (run_program_with_pre_eval ref_bigint (chia_dialect ref_ext 0) ex_quote_alloc ex_quote node_NIL 1000
      (Some ex_tracer) (0, 0)) = Some (Ok (Reduction 20 (node_new OSmallAtom 5)), ex_quote_end)"
proof -
  have "\<forall>f. Some ex_tracer = Some f \<longrightarrow> observer f"
    by (auto simp: ex_tracer_def observer_def quiet_def split: prod.split)
  then show ?thesis by (simp only: pre_eval_transparent ex_run)
qed

text \<open>
  The counters do not change a run: \<open>run_program_with_counters\<close> ends exactly when
  \<open>run_program\<close> does, with the same response and allocator.
\<close>

theorem counters_transparent:
  "map_option (\<lambda>((c, r), a'). (r, a')) (run_program_with_counters B D a program env max_cost) = run_program B D a program env max_cost"
  using run_program_erase [of "x_new a ()" a B D program env max_cost]
  by (simp add: run_program_with_counters_def option.map_comp comp_def case_prod_unfold)

text \<open>
  C14. The counters of a run bound it: in every state the run reaches, the three stacks are at
  most as large as the counters say, the counters of the value and environment stacks are
  within the stack limit, and the other counters are the sizes of the final allocator.
\<close>

theorem counters_bound:
  assumes "run_program_with_counters B D a program env max_cost = Some ((c, r), a')"
  shows "(\<forall>s \<in> run_states B D a program env max_cost. within s c) \<and>
    val_stack_usage c \<le> STACK_SIZE_LIMIT \<and> env_stack_usage c \<le> STACK_SIZE_LIMIT \<and>
    atom_count c = of_nat (length (atom_vec a')) \<and> small_atom_count c = of_nat (small_atoms a') \<and>
    pair_count c = of_nat (length (pair_vec a')) \<and> heap_size c = of_nat (length (u8_vec a'))"
proof -
  obtain x' where x': "x_context_run_program B D (x_new a ()) program env max_cost = Some (r, x')" "x_allocator x' = a'"
    "c = (counters x')\<lparr> atom_count := of_nat (alloc_atom_count a'), small_atom_count := of_nat (alloc_small_atom_count a'),
      pair_count := of_nat (alloc_pair_count a'), heap_size := of_nat (alloc_heap_size a') \<rparr>"
    using assms by (auto simp: run_program_with_counters_def)
  from x_context_tallies [OF x'(1)] show ?thesis by (auto simp: x'(3) within_def counted_def alloc_counts)
qed

theorem counters_bound_witness:
  "\<exists>c. val_stack_usage c \<le> STACK_SIZE_LIMIT \<and> pair_count c = 1 \<and>
     (\<exists>r a'. run_program_with_counters ref_bigint (chia_dialect ref_ext 0) ex_quote_alloc ex_quote node_NIL 1000 = Some ((c, r), a'))"
proof -
  obtain c r a' where c: "run_program_with_counters ref_bigint (chia_dialect ref_ext 0) ex_quote_alloc ex_quote node_NIL 1000 = Some ((c, r), a')"
      "a' = ex_quote_end"
    using run_program_erase [of "x_new ex_quote_alloc ()" ex_quote_alloc ref_bigint "chia_dialect ref_ext 0" ex_quote node_NIL 1000] ex_run
    by (auto simp: run_program_with_counters_def)
  from counters_bound [OF c(1)] c show ?thesis by (auto simp: ex_quote_end_def ex_quote_alloc_def)
qed

end
