(* ===== verification/KeyHash.thy ===== *)
theory KeyHash
  imports Prelude
begin

unbundle bit_operations_syntax

text \<open>
  The hasher of the hash maps whose keys are themselves SHA-256 hashes,
  \<open>src/src/serde/identity_hash.rs\<close>: it takes the first 8 bytes of a key, with a random salt. The
  random number generator is an argument, the salt it returns. \<open>hash_key\<close> is what the standard
  library does with a key of type \<open>[u8; 32]\<close>: it writes the length as a \<open>usize\<close>, in 8 bytes,
  then the bytes.
\<close>

record IdentityHash =
  ih_state :: u64
  ih_salt :: u64

definition identity_hash_new :: "u64 \<Rightarrow> IdentityHash" where
  "identity_hash_new salt = \<lparr> ih_state = 0, ih_salt = salt \<rparr>"

definition finish :: "IdentityHash \<Rightarrow> u64" where
  "finish self = ih_state self"

definition from_le_bytes :: "bytes \<Rightarrow> u64" where
  "from_le_bytes bs = of_nat (be_nat (rev bs))"

definition hash_write :: "IdentityHash \<Rightarrow> bytes \<Rightarrow> ('e, IdentityHash) outcome" where
  "hash_write self bytes =
     bindR (slice bytes 0 8) (\<lambda>b. Ok (self\<lparr> ih_state := from_le_bytes b XOR ih_salt self \<rparr>))"

definition hash_write_u64 :: "IdentityHash \<Rightarrow> u64 \<Rightarrow> ('e, IdentityHash) outcome" where
  "hash_write_u64 self i = Panic ''This hasher only takes bytes''"

record RandomState =
  rs_salt :: u64

definition random_state_default :: "u64 \<Rightarrow> RandomState" where
  "random_state_default rng = \<lparr> rs_salt = rng \<rparr>"

definition build_hasher :: "RandomState \<Rightarrow> IdentityHash" where
  "build_hasher self = identity_hash_new (rs_salt self)"

definition hash_key :: "RandomState \<Rightarrow> bytes \<Rightarrow> ('e, u64) outcome" where
  "hash_key s key =
     bindR (hash_write (build_hasher s) (rev (be_bytes 8 (length key)))) (\<lambda>h.
     bindR (hash_write h key) (\<lambda>h. Ok (finish h)))"

text \<open>
  On keys of 32 bytes the hasher does not panic, the length written first has no effect, and
  different salts give different hashes of the same key.
\<close>

lemma hash_key_eq:
  assumes "length key = 32"
  shows "hash_key s key = Ok (from_le_bytes (take 8 key) XOR rs_salt s)"
  using assms by (simp add: hash_key_def hash_write_def slice_def build_hasher_def identity_hash_new_def finish_def)

lemma hash_key_salts:
  assumes "length key = 32" "hash_key s key = (hash_key s' key :: (unit, u64) outcome)"
  shows "rs_salt s = rs_salt s'"
proof -
  have "from_le_bytes (take 8 key) XOR rs_salt s = from_le_bytes (take 8 key) XOR rs_salt s'"
    using assms(2) by (simp add: hash_key_eq [OF assms(1)])
  then have "from_le_bytes (take 8 key) XOR (from_le_bytes (take 8 key) XOR rs_salt s) =
      from_le_bytes (take 8 key) XOR (from_le_bytes (take 8 key) XOR rs_salt s')" by simp
  then show ?thesis by (simp flip: xor.assoc)
qed

end
