(* ===== verification/OpBounds.thy ===== *)
theory OpBounds
  imports DialectSpec AllocatorProps
begin

text \<open>
  Two facts about every operator. The heap: a call leaves the byte vector within the limit of
  the allocator, except \<open>op_substr\<close> on a small atom, which adds at most four bytes whatever
  the limit. The messages: no operator reports an internal error. Both are proved along the
  structure of the operators, by the introduction rules of two collections.
\<close>

section \<open>The heap\<close>

definition in_limit :: "Allocator \<Rightarrow> Allocator \<Rightarrow> bool" where
  "in_limit a a' \<longleftrightarrow> heap_limit a' = heap_limit a \<and>
     (length (u8_vec a) \<le> heap_limit a \<and> heap_limit a \<le> u32_max \<longrightarrow> length (u8_vec a') \<le> heap_limit a)"

named_theorems in_limit_intros \<open>operations that keep the heap within its limit\<close>

lemma in_limit_refl [simp]: "in_limit a a"
  by (simp add: in_limit_def)

lemma in_limit_tryR [in_limit_intros]: "(\<And>x. m = Ok x \<Longrightarrow> in_limit a (snd (f x))) \<Longrightarrow> in_limit a (snd (tryR m a f))"
  by (cases m) auto

lemma in_limit_tryS [in_limit_intros]:
  "in_limit a (snd m) \<Longrightarrow> (\<And>x a'. m = (Ok x, a') \<Longrightarrow> in_limit a' (snd (f x a'))) \<Longrightarrow> in_limit a (snd (tryS m f))"
  by (cases "(m, f)" rule: tryS.cases) (auto simp: in_limit_def)

lemma in_limit_new_atom [in_limit_intros]: "in_limit a (snd (new_atom a v))"
  using extends_new_atom [of a v] heap_new_atom [of a v] by (auto simp: in_limit_def extends_def)

lemma in_limit_new_small_number [in_limit_intros]: "in_limit a (snd (new_small_number a v))"
  using extends_new_small_number [of a v] by (simp add: in_limit_def heap_new_small extends_def)

lemma in_limit_new_number [in_limit_intros]: "in_limit a (snd (new_number B a v))"
  by (auto simp: new_number_def intro: in_limit_intros split: option.splits)

lemma in_limit_new_pair [in_limit_intros]: "in_limit a (snd (new_pair a x y))"
  by (auto simp: new_pair_def in_limit_def Let_def err_def)

lemma in_limit_new_g1 [in_limit_intros]: "in_limit a (snd (new_g1 E a v))"
  by (simp add: new_g1_def in_limit_intros)

lemma in_limit_new_g2 [in_limit_intros]: "in_limit a (snd (new_g2 E a v))"
  by (simp add: new_g2_def in_limit_intros)

lemma in_limit_new_atom_and_cost [in_limit_intros]: "in_limit a (snd (new_atom_and_cost a c bs))"
  by (auto simp: new_atom_and_cost_def Let_def intro!: in_limit_intros)

lemma in_limit_core_ops [in_limit_intros]:
  "in_limit a (snd (op_if a n m))" "in_limit a (snd (op_cons a n m))" "in_limit a (snd (op_first a n m))"
  "in_limit a (snd (op_rest a n m))" "in_limit a (snd (op_listp a n m))" "in_limit a (snd (op_raise a n m))"
  "in_limit a (snd (op_eq a n m))"
  by (auto simp: op_if_def op_cons_def op_first_def op_rest_def op_listp_def op_raise_def op_eq_def Let_def
      intro!: in_limit_intros split: SExp.splits outcome.splits)

lemma in_limit_arith [in_limit_intros]:
  "in_limit a (snd (op_add B a n m))" "in_limit a (snd (op_subtract B a n m))" "in_limit a (snd (op_multiply B a n m))"
  "in_limit a (snd (op_div B a n m))" "in_limit a (snd (op_mod B a n m))" "in_limit a (snd (op_divmod B a n m))"
  "in_limit a (snd (op_modpow B a n m))"
  by (auto simp: op_add_def op_subtract_def op_multiply_def op_div_def op_mod_def op_divmod_def op_modpow_def Let_def
      intro!: in_limit_intros split: prod.splits)

lemma in_limit_logic_ops [in_limit_intros]:
  "in_limit a (snd (op_ash B a n m))" "in_limit a (snd (op_lsh B a n m))" "in_limit a (snd (op_logand B a n m))"
  "in_limit a (snd (op_logior B a n m))" "in_limit a (snd (op_logxor B a n m))" "in_limit a (snd (op_lognot B a n m))"
  "in_limit a (snd (op_not a n m))" "in_limit a (snd (op_any a n m))" "in_limit a (snd (op_all a n m))"
  by (auto simp: op_ash_def op_lsh_def op_logand_def op_logior_def op_logxor_def binop_reduction_def op_lognot_def
      op_not_def op_any_def op_all_def Let_def intro!: in_limit_intros split: prod.splits)

lemma in_limit_misc_ops [in_limit_intros]:
  "in_limit a (snd (op_gr B a n m))" "in_limit a (snd (op_gr_bytes a n m))" "in_limit a (snd (op_strlen B a n m))"
  "in_limit a (snd (op_sha256 E a n m))" "in_limit a (snd (op_pubkey_for_exp E a n m))" "in_limit a (snd (op_point_add E a n m))"
  "in_limit a (snd (op_coinid E a n m))"
  by (auto simp: op_gr_def op_gr_bytes_def op_strlen_def op_sha256_def op_pubkey_for_exp_def op_point_add_def op_coinid_def Let_def
      intro!: in_limit_intros split: prod.splits option.splits)

lemma in_limit_crypto_ops [in_limit_intros]:
  "in_limit a (snd (op_bls_g1_subtract E a n m))" "in_limit a (snd (op_bls_g1_multiply E a n m))"
  "in_limit a (snd (op_bls_g1_negate E a n m))" "in_limit a (snd (op_bls_g2_add E a n m))"
  "in_limit a (snd (op_bls_g2_subtract E a n m))" "in_limit a (snd (op_bls_g2_multiply E a n m))"
  "in_limit a (snd (op_bls_g2_negate E a n m))" "in_limit a (snd (op_bls_map_to_g1 E a n m))"
  "in_limit a (snd (op_bls_map_to_g2 E a n m))" "in_limit a (snd (op_bls_pairing_identity E a n m))"
  "in_limit a (snd (op_bls_verify E a n m))" "in_limit a (snd (op_keccak256 E a n m))"
  "in_limit a (snd (op_secp256r1_verify E a n m))" "in_limit a (snd (op_secp256k1_verify E a n m))"
  by (auto simp: op_bls_g1_subtract_def op_bls_g1_multiply_def op_bls_g1_negate_def op_bls_g2_add_def
      op_bls_g2_subtract_def op_bls_g2_multiply_def op_bls_g2_negate_def op_bls_map_to_g1_def op_bls_map_to_g2_def
      op_bls_pairing_identity_def op_bls_verify_def op_keccak256_def op_secp256r1_verify_def op_secp256k1_verify_def Let_def
      intro!: in_limit_intros split: prod.splits option.splits)

text \<open>The two operators that need more: the sizes of the terms of a concatenation, the four bytes of \<open>substr\<close>.\<close>

lemma in_limit_op_concat:
  assumes "alloc_ok a" "rep a n t"
  shows "in_limit a (snd (op_concat a n m))"
proof -
  have "reads a (concat_rel a) (foldV (v_concat_step m) (citems t) (142, [])) (while_next a n (142, 0, []) (concat_step a m))"
    by (rule reads_while [OF assms reads_concat_step]) (simp_all add: concat_rel_def)
  then have terms: "in_limit a (snd (new_concat a k ns))" if "while_next a n (142, 0, []) (concat_step a m) = Ok (c, k, ns)" for c k ns
    using that heap_new_concat [of a ns] extends_new_concat [of a k ns]
    by (fastforce simp: reads_def concat_rel_def in_limit_def extends_def split: sum.splits prod.splits)
  show ?thesis unfolding op_concat_def more_costs by (auto simp: Let_def intro!: in_limit_tryR in_limit_tryS terms)
qed

definition few_bytes :: "Allocator \<Rightarrow> Allocator \<Rightarrow> bool" where
  "few_bytes a a' \<longleftrightarrow> length (u8_vec a') \<le> length (u8_vec a) + 4"

lemma few_bytes_refl [simp]: "few_bytes a a"
  by (simp add: few_bytes_def)

lemma few_bytes_tryR: "(\<And>x. m = Ok x \<Longrightarrow> few_bytes a (snd (f x))) \<Longrightarrow> few_bytes a (snd (tryR m a f))"
  by (cases m) auto

lemma few_bytes_new_substr: "few_bytes a (snd (new_substr a p s e))"
proof (cases "node_kind p")
  case None
  then show ?thesis using object_type_none [OF None, where ?'a = EvalErr] by (auto simp: new_substr_def check_atom_limit_def err_def)
next
  case (Some k)
  then show ?thesis using heap_new_substr [OF Some, of a s e] by (auto simp: few_bytes_def)
qed

lemma few_bytes_op_substr: "few_bytes a (snd (op_substr a n m))"
proof -
  have "few_bytes a (snd (tryS (new_substr a p s e) (\<lambda>r a. (Ok (Reduction 1 r), a))))" for p s e
    using few_bytes_new_substr [of a p s e] by (cases "new_substr a p s e", cases "fst (new_substr a p s e)") auto
  then show ?thesis unfolding op_substr_def Let_def by (auto intro!: few_bytes_tryR split: prod.splits)
qed


section \<open>The messages\<close>

text \<open>\<open>contains pat s\<close>: the string \<open>s\<close> has \<open>pat\<close> as a part, as the method of \<open>str\<close>.\<close>

fun contains :: "string \<Rightarrow> string \<Rightarrow> bool" where
  "contains pat [] \<longleftrightarrow> pat = []"
| "contains pat (c # cs) \<longleftrightarrow> take (length pat) (c # cs) = pat \<or> contains pat cs"

lemma contains_iff: "contains pat s \<longleftrightarrow> (\<exists>u v. s = u @ pat @ v)"
proof (induction s)
  case (Cons c cs)
  have "(\<exists>u v. c # cs = u @ pat @ v) \<longleftrightarrow> (\<exists>v. c # cs = pat @ v) \<or> (\<exists>u v. cs = u @ pat @ v)"
    by (metis append_Cons append_Nil list.exhaust list.inject)
  moreover have "(\<exists>v. c # cs = pat @ v) \<longleftrightarrow> take (length pat) (c # cs) = pat"
    by (metis append_eq_conv_conj append_take_drop_id)
  ultimately show ?case using Cons by simp
qed simp

definition quiet_res :: "'a vres \<Rightarrow> bool" where
  "quiet_res r \<longleftrightarrow> (\<forall>t s. r = Inl (t, s) \<longrightarrow> \<not> contains ''internal error'' s)"

named_theorems quiet_res_intros \<open>computations that report no internal error\<close>

lemma quiet_res_Inr [simp]: "quiet_res (Inr x)"
  by (simp add: quiet_res_def)

lemma quiet_res_Inl [simp]: "quiet_res (Inl (t, s)) \<longleftrightarrow> \<not> contains ''internal error'' s"
  by (simp add: quiet_res_def)

lemma quiet_res_bindV [quiet_res_intros]: "quiet_res m \<Longrightarrow> (\<And>x. quiet_res (f x)) \<Longrightarrow> quiet_res (bindV m f)"
  by (cases m) (auto simp: quiet_res_def)

lemma quiet_res_foldV [quiet_res_intros]: "(\<And>x s. quiet_res (f x s)) \<Longrightarrow> quiet_res (foldV f xs s)"
  by (induction xs arbitrary: s) (auto intro: quiet_res_bindV)

lemma quiet_res_if [quiet_res_intros]: "quiet_res x \<Longrightarrow> quiet_res y \<Longrightarrow> quiet_res (if b then x else y)"
  by simp

lemma quiet_res_v_cost [quiet_res_intros]: "quiet_res (v_cost c m)"
  by (simp add: v_cost.simps)

lemma quiet_res_v_args [quiet_res_intros]:
  "\<not> contains ''internal error'' (name @ '' takes exactly '' @ dec_string N @ '' argument'' @ plural N) \<Longrightarrow> quiet_res (v_args N t name)"
  by (simp add: v_args_def)

lemma quiet_res_v_varargs [quiet_res_intros]:
  "\<not> contains ''internal error'' (name @ '' takes no more than '' @ dec_string N @ '' argument'' @ plural N) \<Longrightarrow> quiet_res (v_varargs N t name)"
  by (simp add: v_varargs_def)

lemma quiet_res_v_atom [quiet_res_intros]: "\<not> contains ''internal error'' msg \<Longrightarrow> quiet_res (v_atom msg t)"
  by (cases t) auto

lemma quiet_res_v_int [quiet_res_intros]: "\<not> contains ''internal error'' (name @ '' requires int args'') \<Longrightarrow> quiet_res (v_int name t)"
  by (auto simp: v_int_def intro!: quiet_res_intros)

lemma quiet_res_v_intarg [quiet_res_intros]: "\<not> contains ''internal error'' msg \<Longrightarrow> quiet_res (v_intarg msg t)"
  by (auto simp: v_intarg_def intro!: quiet_res_intros)

lemma quiet_res_v_len [quiet_res_intros]: "\<not> contains ''internal error'' (name @ '' requires an atom'') \<Longrightarrow> quiet_res (v_len name t)"
  by (auto simp: v_len_def intro!: quiet_res_intros)

lemma quiet_res_v_i32 [quiet_res_intros]:
  "\<not> contains ''internal error'' (name @ '' requires int32 args'') \<Longrightarrow>
   \<not> contains ''internal error'' (name @ '' requires int32 args (with no leading zeros)'') \<Longrightarrow> quiet_res (v_i32 name t)"
  by (auto simp: v_i32_def intro!: quiet_res_intros)

lemma quiet_res_v_point [quiet_res_intros]: "quiet_res (v_point ''G1'' 48 f t)" "quiet_res (v_point ''G2'' 96 f t)"
  by (auto simp: v_point_def intro!: quiet_res_intros split: option.split)

lemma quiet_res_v_num [quiet_res_intros]: "quiet_res (v_num c n)"
  by (simp add: v_num_def)

lemma dec_digits [simp]: "dec_string 1 = ''1''" "dec_string (Suc 0) = ''1''" "dec_string 2 = ''2''" "dec_string 3 = ''3''"
  by code_simp+

lemma quiet_res_core_ops:
  "quiet_res (v_if t)" "quiet_res (v_cons t)" "quiet_res (v_first t)" "quiet_res (v_rest t)" "quiet_res (v_listp t)" "quiet_res (v_raise t)" "quiet_res (v_eq t)"
  by (auto simp: v_if_def v_cons_def v_first_def v_rest_def v_listp_def v_raise_def v_eq_def plural_def
      intro!: quiet_res_intros split: clvm.splits list.splits)

lemma quiet_res_arith:
  "quiet_res (v_add t m)" "quiet_res (v_subtract t m)" "quiet_res (v_multiply t m)" "quiet_res (v_div t)" "quiet_res (v_mod t)" "quiet_res (v_divmod t)"
  "quiet_res (v_modpow t m)"
  by (auto simp: v_add_def v_add_step_def v_subtract_def v_subtract_step_def v_multiply_def v_multiply_step_def v_div_def v_mod_def
      v_divmod_def v_modpow_def plural_def Let_def intro!: quiet_res_intros split: prod.splits)


lemma quiet_res_string_ops:
  "quiet_res (v_gr t)" "quiet_res (v_gr_bytes t)" "quiet_res (v_strlen t)" "quiet_res (v_substr t)" "quiet_res (v_concat t m)"
  by (auto simp: v_gr_def v_gr_bytes_def v_strlen_def v_substr_def v_concat_def v_concat_step_def plural_def Let_def
      intro!: quiet_res_intros split: prod.splits)

lemma quiet_res_logic_ops:
  "quiet_res (v_ash t)" "quiet_res (v_lsh t)" "quiet_res (v_binop ''logand'' i f t m)" "quiet_res (v_binop ''logior'' i f t m)"
  "quiet_res (v_binop ''logxor'' i f t m)" "quiet_res (v_lognot t)" "quiet_res (v_not t)" "quiet_res (v_any t m)" "quiet_res (v_all t m)"
  by (auto simp: v_ash_def v_lsh_def v_binop_def v_binop_step_def v_lognot_def v_not_def v_any_def v_all_def plural_def Let_def
      intro!: quiet_res_intros split: prod.splits)

lemma quiet_res_hash_ops:
  "quiet_res (v_hash ''keccak256'' b c h t m)" "quiet_res (v_sha256 h t m)" "quiet_res (v_coinid h t)" "quiet_res (v_pubkey_for_exp E t)"
  "quiet_res (v_point_add E t m)"
  by (auto simp: v_sha256_def v_hash_def v_hash_step_def v_coinid_def v_amount_def v_pubkey_for_exp_def v_point_add_def plural_def Let_def
      intro!: quiet_res_intros split: prod.splits option.splits)

lemma quiet_res_point_ops:
  "quiet_res (v_g1_subtract E t m)" "quiet_res (v_g1_multiply E t m)" "quiet_res (v_g1_negate E t)" "quiet_res (v_g2_add E t m)"
  "quiet_res (v_g2_subtract E t m)" "quiet_res (v_g2_multiply E t m)" "quiet_res (v_g2_negate E t)" "quiet_res (v_map_to_g1 E t m)"
  "quiet_res (v_map_to_g2 E t m)"
  by (auto simp: v_g1_subtract_def v_g1_multiply_def v_g1_negate_def v_g2_add_def v_g2_subtract_def v_g2_multiply_def v_g2_negate_def
      v_map_to_g1_def v_map_to_g2_def plural_def Let_def intro!: quiet_res_intros split: prod.splits)

lemma quiet_res_v_pairing: "quiet_res (v_pairing E m t c items)"
  by (induction E m t c items rule: v_pairing.induct)
    (subst v_pairing.simps, auto intro!: quiet_res_intros split: clvm.splits)

lemma quiet_res_v_verify: "quiet_res (v_verify E m t c items)"
  by (induction E m t c items rule: v_verify.induct)
    (subst v_verify.simps, auto simp: Let_def intro!: quiet_res_intros split: clvm.splits)

lemma quiet_res_signature_ops:
  "quiet_res (v_pairing_identity E t m)" "quiet_res (v_bls_verify E t m)"
  "quiet_res (v_secp_verify ''secp256k1_verify'' c k g v t m)" "quiet_res (v_secp_verify ''secp256r1_verify'' c k g v t m)"
  by (auto simp: v_pairing_identity_def v_bls_verify_def v_secp_verify_def plural_def
      intro!: quiet_res_intros quiet_res_v_pairing quiet_res_v_verify split: clvm.splits prod.splits option.splits)

lemmas quiet_res_ops = quiet_res_core_ops quiet_res_arith quiet_res_string_ops quiet_res_logic_ops quiet_res_hash_ops quiet_res_point_ops quiet_res_signature_ops

end
