(* ===== verification/OpHeap.thy ===== *)
theory OpHeap
  imports OpCosts OpBounds
begin

text \<open>
  What an operator allocates, it charges for. Every byte that a successful call adds to the heap
  costs at least ten units, except the up to four bytes that \<open>op_substr\<close> adds for a new atom.
  This is the potential with which a limit on the cost limits the heap.
\<close>

section \<open>Paying for bytes\<close>

definition paid :: "Allocator \<Rightarrow> nat \<Rightarrow> Allocator \<Rightarrow> bool" where
  "paid a c a' \<longleftrightarrow>
     10 * length (u8_vec a') + 40 * length (atom_vec a) \<le> 10 * length (u8_vec a) + c + 40 * length (atom_vec a')"

definition pays :: "Allocator \<Rightarrow> Response \<times> Allocator \<Rightarrow> bool" where
  "pays a m \<longleftrightarrow> (\<forall>r a'. m = (Ok r, a') \<longrightarrow> paid a (unat (red_cost r)) a')"

text \<open>The states in which an operator is called: well-formed, with the heap within the limit.\<close>

definition roomy :: "Allocator \<Rightarrow> bool" where
  "roomy a \<longleftrightarrow> alloc_ok a \<and> length (u8_vec a) \<le> heap_limit a \<and> heap_limit a \<le> u32_max"

named_theorems pays_intros \<open>operations that pay for the bytes they add\<close>

lemma pays_tryR [pays_intros]: "(\<And>x. m = Ok x \<Longrightarrow> pays a (f x)) \<Longrightarrow> pays a (tryR m a' f)"
  by (cases m) (auto simp: pays_def)

lemma pays_error [pays_intros]: "pays a (err n s, a')" "pays a (Err e, a')" "pays a (Panic p, a')"
  by (simp_all add: pays_def err_def)

lemma pays_Ok [pays_intros]: "pays a (Ok (Reduction c n), a)"
  by (simp add: pays_def paid_def)

lemma pays_if [pays_intros]: "(b \<Longrightarrow> pays a x) \<Longrightarrow> (\<not> b \<Longrightarrow> pays a y) \<Longrightarrow> pays a (if b then x else y)"
  by simp

lemma pays_prod [pays_intros]: "(\<And>y z. x = (y, z) \<Longrightarrow> pays a (f y z)) \<Longrightarrow> pays a (case x of (y, z) \<Rightarrow> f y z)"
  by (cases x) simp

lemma pays_option [pays_intros]:
  "(x = None \<Longrightarrow> pays a y) \<Longrightarrow> (\<And>z. x = Some z \<Longrightarrow> pays a (f z)) \<Longrightarrow> pays a (case x of None \<Rightarrow> y | Some z \<Rightarrow> f z)"
  by (cases x) simp_all

lemma new_atom_grows: "new_atom a v = (Ok n, a') \<Longrightarrow> length (u8_vec a') \<le> length (u8_vec a) + length v \<and> length (atom_vec a) \<le> length (atom_vec a')"
  by (auto simp: new_atom_def Let_def tryR_eq_Ok err_def split: if_splits option.splits)

lemma new_number_grows:
  assumes "bigint_laws B" "new_number B a v = (Ok n, a')"
  shows "length (u8_vec a') \<le> length (u8_vec a) + length (int_bytes v) \<and> length (atom_vec a) \<le> length (atom_vec a')"
  using assms(2) new_atom_grows [of a "int_bytes v" n a'] strip_to_signed [OF assms(1), of v]
  by (auto simp: new_number_def new_small_number_def tryR_eq_Ok split: option.splits if_splits)

lemma roomy_new_number:
  assumes "bigint_laws B" "roomy a" "new_number B a v = (Ok n, a')"
  shows "roomy a'" "rep a' n (CAtom (int_bytes v))" "extends a a'"
proof -
  have h: "in_limit a a'" using in_limit_new_number [of a B v] assms(3) by simp
  then have "heap_ok a'" using assms(2) by (simp add: in_limit_def roomy_def heap_ok_def)
  moreover have "safe (\<lambda>a' p. extends a a' \<and> rep a' p (CAtom (int_bytes v))) alloc_msgs (new_number B a v)"
    by (rule safe_new_number [OF assms(1) _ order_refl]) (use assms(2) in \<open>simp add: roomy_def\<close>)
  ultimately show "roomy a'" "rep a' n (CAtom (int_bytes v))" "extends a a'"
    using h assms(2,3) by (auto simp: safe_def roomy_def in_limit_def)
qed

lemma unat_plus_eq: "unat c + unat k < 2 ^ 64 \<Longrightarrow> unat (c + k :: u64) = unat c + unat k"
  by (rule unat_add_lem [THEN iffD1]) simp

text \<open>The three ways to allocate bytes and charge for them.\<close>

lemma pays_malloc:
  assumes "bigint_laws B" "roomy a" "unat c < 2 ^ 62 + 2 ^ 61"
  shows "pays a (tryS (new_number B a v) (\<lambda>n a'. (malloc_cost a' c n, a')))"
proof -
  have "paid a (unat (c + of_nat l * MALLOC_COST_PER_BYTE)) a'"
    if n: "new_number B a v = (Ok n, a')" "atom_len a' n = (Ok l :: nat eval)" for n a' l
  proof -
    have l: "l = length (int_bytes v)" using rep_atom_len [OF roomy_new_number(2) [OF assms(1,2) n(1)], where ?'a = EvalErr] n(2) by simp
    have "l < 2 ^ 32" using n(2) by (rule atom_len_less)
    then have "unat (c + of_nat l * MALLOC_COST_PER_BYTE) = unat c + l * 10"
      using unat_linear_eq [of c l MALLOC_COST_PER_BYTE] assms(3) by (simp add: MALLOC_COST_PER_BYTE_def)
    then show ?thesis using new_number_grows [OF assms(1) n(1)] l by (simp add: paid_def)
  qed
  then show ?thesis by (auto simp: pays_def tryS_eq_Ok malloc_cost_def bindR_eq_Ok Let_def)
qed

lemma pays_new_atom [pays_intros]:
  assumes "unat c < 2 ^ 62 + 2 ^ 61" "length bs < 2 ^ 32"
  shows "pays a (new_atom_and_cost a c bs)"
proof -
  have "unat (c + of_nat (length bs) * MALLOC_COST_PER_BYTE) = unat c + length bs * 10"
    using unat_linear_eq [of c "length bs" MALLOC_COST_PER_BYTE] assms by (simp add: MALLOC_COST_PER_BYTE_def)
  then show ?thesis unfolding new_atom_and_cost_def Let_def
    by (auto simp: pays_def tryS_eq_Ok paid_def dest!: new_atom_grows)
qed

lemma pays_fixed [pays_intros]:
  assumes "unat c < 2 ^ 62 + 2 ^ 61" "length bs \<le> k" "unat (K :: Cost) = 10 * k" "k < 2 ^ 32"
  shows "pays a (tryS (new_atom a bs) (\<lambda>n a'. (Ok (Reduction (c + K) n), a')))"
proof -
  have "unat (c + K) = unat c + 10 * k" using assms unat_plus_eq [of c K] by simp
  then show ?thesis using assms(2) by (auto simp: pays_def tryS_eq_Ok paid_def dest!: new_atom_grows)
qed

text \<open>The other operators leave the bytes alone.\<close>

definition same_bytes :: "Allocator \<Rightarrow> Allocator \<Rightarrow> bool" where
  "same_bytes a a' \<longleftrightarrow> u8_vec a' = u8_vec a \<and> atom_vec a' = atom_vec a"

lemma same_bytes_pays: "same_bytes a (snd m) \<Longrightarrow> pays a m"
  by (cases m) (auto simp: same_bytes_def pays_def paid_def)

lemma same_bytes_refl [simp]: "same_bytes a a"
  by (simp add: same_bytes_def)

lemma same_bytes_tryR: "(\<And>x. m = Ok x \<Longrightarrow> same_bytes a (snd (f x))) \<Longrightarrow> same_bytes a (snd (tryR m a f))"
  by (cases m) auto

lemma same_bytes_cons: "same_bytes a (snd (op_cons a n m))"
  by (auto simp: op_cons_def Let_def new_pair_def err_def same_bytes_def intro!: same_bytes_tryR [unfolded same_bytes_def])

lemma pays_core:
  "pays a (op_if a n m)" "pays a (op_cons a n m)" "pays a (op_first a n m)" "pays a (op_rest a n m)" "pays a (op_listp a n m)"
  "pays a (op_raise a n m)" "pays a (op_eq a n m)"
  by (auto simp: op_if_def op_first_def op_rest_def op_listp_def op_raise_def op_eq_def Let_def
      intro!: same_bytes_pays same_bytes_tryR same_bytes_cons split: SExp.splits outcome.splits)

lemma pays_compare:
  "pays a (op_gr B a n m)" "pays a (op_gr_bytes a n m)" "pays a (op_not a n m)" "pays a (op_any a n m)" "pays a (op_all a n m)"
  "pays a (op_bls_pairing_identity E a n m)" "pays a (op_bls_verify E a n m)" "pays a (op_secp256r1_verify E a n m)"
  "pays a (op_secp256k1_verify E a n m)" "pays a (op_unknown a p n m)"
  by (auto simp: op_gr_def op_gr_bytes_def op_not_def op_any_def op_all_def op_bls_pairing_identity_def op_bls_verify_def
      op_secp256r1_verify_def op_secp256k1_verify_def op_unknown_def Let_def
      intro!: same_bytes_pays same_bytes_tryR split: prod.splits option.splits)


section \<open>Operators on integers\<close>

context bigint_laws
begin

lemmas pays_int = pays_intros pays_malloc [OF bigint_laws_axioms]

lemma pays_arith:
  assumes "roomy a"
  shows "pays a (op_div B a n m)" "pays a (op_mod B a n m)" "pays a (op_strlen B a n m)" "pays a (op_lognot B a n m)"
  unfolding op_div_def op_mod_def op_strlen_def op_lognot_def Let_def
  by (intro pays_int assms unat_linear_62; auto simp: op_costs dest!: length_bounds)+

lemma pays_modpow: "roomy a \<Longrightarrow> unat m \<le> 2 ^ 61 \<Longrightarrow> pays a (op_modpow B a n m)"
  unfolding op_modpow_def Let_def by (intro pays_int; auto simp: op_costs dest!: checked)

lemma pays_add: "roomy a \<Longrightarrow> unat m \<le> 2 ^ 61 \<Longrightarrow> pays a (op_add B a n m)"
  unfolding op_add_def Let_def by (intro pays_int) (auto intro: counted [OF counts_steps(1) _ base_costs(1), simplified])

lemma pays_subtract: "roomy a \<Longrightarrow> unat m \<le> 2 ^ 61 \<Longrightarrow> pays a (op_subtract B a n m)"
  unfolding op_subtract_def Let_def by (intro pays_int) (auto intro: counted [OF counts_steps(6) _ base_costs(1), simplified])

lemma pays_binop: "roomy a \<Longrightarrow> unat m \<le> 2 ^ 61 \<Longrightarrow> pays a (binop_reduction B nm i f a n m)"
  unfolding binop_reduction_def Let_def by (intro pays_int) (auto intro: counted [OF counts_steps(4) _ base_costs(2), simplified])

lemma pays_logic:
  assumes "roomy a" "unat m \<le> 2 ^ 61"
  shows "pays a (op_logand B a n m)" "pays a (op_logior B a n m)" "pays a (op_logxor B a n m)"
  unfolding op_logand_def op_logior_def op_logxor_def by (rule pays_binop [OF assms])+

lemma pays_multiply: "roomy a \<Longrightarrow> unat m \<le> 2 ^ 61 \<Longrightarrow> pays a (op_multiply B a n m)"
  unfolding op_multiply_def by (intro pays_int) (use multiply_loop_cost in force)+

lemma pays_ash: "roomy a \<Longrightarrow> pays a (op_ash B a n m)"
  unfolding op_ash_def Let_def
proof (intro pays_int unat_linear_62)
  fix x y i l and k :: int
  assume "int_atom B a (x ! 0) ''ash'' = Ok y" "y = (i, l)" "\<not> \<not> (- 65535 \<le> k \<and> k \<le> 65535)"
  then show "l + limbs_for_int B (shift_int i k) < 2 ^ 40"
    using shift_length int_atom_value int_atom_less by blast
qed (simp_all add: op_costs)

lemma pays_lsh: "roomy a \<Longrightarrow> pays a (op_lsh B a n m)"
  unfolding op_lsh_def Let_def
proof (intro pays_int unat_linear_62)
  fix x bs and k :: int
  assume "util_atom_bytes a (x ! 0) ''lsh'' = Ok bs" "\<not> \<not> (- 65535 \<le> k \<and> k \<le> 65535)"
  moreover have "\<bar>from_bytes_be B bs\<bar> < 2 ^ (8 * length bs)"
    using be_nat_less_int [of bs] by (simp add: from_unsigned power_mult)
  ultimately show "length bs + limbs_for_int B (shift_int (from_bytes_be B bs) k) < 2 ^ 40"
    using shift_length util_atom_bytes_less by blast
qed (simp_all add: op_costs)

lemma pays_divmod:
  assumes "roomy a"
  shows "pays a (op_divmod B a n m)"
proof -
  have "paid a (unat (c + of_nat (ql + rl) * MALLOC_COST_PER_BYTE)) a3"
    if c: "unat c < 2 ^ 62 + 2 ^ 61" and n: "new_number B a q = (Ok n1, a1)" "new_number B a1 r = (Ok n2, a2)" "atom_len a2 n1 = (Ok ql :: nat eval)"
      "atom_len a2 n2 = (Ok rl :: nat eval)" "new_pair a2 n1 n2 = (Ok n3, a3)" for c q r n1 a1 n2 a2 ql rl n3 a3
  proof -
    note r1 = roomy_new_number [OF bigint_laws_axioms assms n(1)]
    note r2 = roomy_new_number [OF bigint_laws_axioms r1(1) n(2)]
    have l: "ql = length (int_bytes q)" "rl = length (int_bytes r)"
      using rep_atom_len [OF rep_extends [OF r1(2) r2(3)], where ?'a = EvalErr] rep_atom_len [OF r2(2), where ?'a = EvalErr] n(3,4) by simp_all
    have "ql < 2 ^ 32" "rl < 2 ^ 32" using n(3,4) by (auto dest: atom_len_less)
    then have "unat (c + of_nat (ql + rl) * MALLOC_COST_PER_BYTE) = unat c + (ql + rl) * 10"
      using unat_linear_eq [of c "ql + rl" MALLOC_COST_PER_BYTE] c by (simp add: MALLOC_COST_PER_BYTE_def)
    moreover have "u8_vec a3 = u8_vec a2" "atom_vec a3 = atom_vec a2" using n(5) by (auto simp: new_pair_def Let_def err_def split: if_splits)
    ultimately show ?thesis using new_number_grows [OF bigint_laws_axioms n(1)] new_number_grows [OF bigint_laws_axioms n(2)] l
      by (simp add: paid_def)
  qed
  then have tail: "pays a (tryS (new_number B a q) (\<lambda>q1 a. tryS (new_number B a r) (\<lambda>r1 a. tryR (atom_len a q1) a (\<lambda>ql. tryR (atom_len a r1) a (\<lambda>rl.
      tryS (new_pair a q1 r1) (\<lambda>r a. (Ok (Reduction (c + of_nat (ql + rl) * MALLOC_COST_PER_BYTE) r), a)))))))"
    if "unat c < 2 ^ 62 + 2 ^ 61" for c q r
    using that by (fastforce simp: pays_def tryS_eq_Ok tryR_eq_Ok)
  show ?thesis unfolding op_divmod_def Let_def
    by (intro pays_int tail unat_linear_62; auto simp: op_costs dest!: length_bounds)
qed

end


section \<open>Operators on byte strings\<close>

lemma pays_substr: "pays a (op_substr a n m)"
proof -
  have "length (u8_vec a') \<le> length (u8_vec a) + 4 * (length (atom_vec a') - length (atom_vec a)) \<and> length (atom_vec a) \<le> length (atom_vec a')"
    if "new_substr a p s e = (Ok x, a')" for p s e x a'
  proof -
    have "few_bytes a a'" using few_bytes_new_substr [of a p s e] that by simp
    moreover have "u8_vec a' = u8_vec a \<and> length (atom_vec a) \<le> length (atom_vec a') \<or> length (atom_vec a') = Suc (length (atom_vec a))"
      using that by (clarsimp simp: new_substr_def tryR_eq_Ok) (auto simp: tryR_eq_Ok Let_def err_def split: ObjectType.split_asm option.splits)
    ultimately show ?thesis by (auto simp: few_bytes_def)
  qed
  then have "pays a (tryS (new_substr a p s e) (\<lambda>r a. (Ok (Reduction 1 r), a)))" for p s e
    by (fastforce simp: pays_def tryS_eq_Ok paid_def)
  then show ?thesis unfolding op_substr_def Let_def by (intro pays_intros)
qed

lemma new_concat_loop_grows:
  "new_concat_loop start k a c ns = (Ok c', a') \<Longrightarrow> length (u8_vec a') + c = length (u8_vec a) + c' \<and> atom_vec a' = atom_vec a"
proof (induction start k a c ns arbitrary: c' a' rule: new_concat_loop.induct)
  case (2 start k a c n ns)
  then obtain t where t: "object_type n = (Ok t :: ObjectType eval)" by (auto simp: tryR_eq_Ok)
  show ?case
  proof (cases t)
    case OPair
    then show ?thesis using 2(3) t by (simp add: err_def)
  next
    case OBytes
    then obtain b bs where b: "get_idx (atom_vec a) (unat (index n)) = (Ok b :: AtomBuf eval)" "\<not> k < c + ab_len b"
        "slice (u8_vec a) (unat (ab_start b)) (unat (ab_end b)) = (Ok bs :: bytes eval)"
        "new_concat_loop start k (a\<lparr> u8_vec := u8_vec a @ bs \<rparr>) (c + ab_len b) ns = (Ok c', a')"
      using 2(3) t by (auto simp: tryR_eq_Ok err_def split: if_splits)
    have "length bs = ab_len b" using b(3) by (auto simp: slice_eq_Ok ab_len_def unat_sub word_le_nat_alt)
    then show ?thesis using 2(1) [OF b(2,4)] by simp
  next
    case OSmallAtom
    then obtain buf where b: "small_atom_buf (index n) = (Ok buf :: bytes eval)"
        "new_concat_loop start k (a\<lparr> u8_vec := u8_vec a @ buf \<rparr>) (c + len_for_value (index n)) ns = (Ok c', a')"
      using 2(3) t by (auto simp: tryR_eq_Ok Let_def)
    have "length buf = len_for_value (index n)" using b(1) small_atom_buf_eq [OF index_unat, of n, where ?'a = EvalErr] by (simp add: len_for_value_eq)
    then show ?thesis using 2(2) [OF refl refl b(2)] by simp
  qed
qed simp

lemma pays_concat:
  assumes "unat m \<le> 2 ^ 61"
  shows "pays a (op_concat a n m)"
proof -
  have "pays a (tryS (new_concat a k ns) (\<lambda>r a. (Ok (Reduction (c + of_nat k * CONCAT_COST_PER_BYTE + of_nat k * MALLOC_COST_PER_BYTE) r), a)))"
    if w: "while_next a n (CONCAT_BASE_COST, 0, []) (concat_step a m) = Ok (c, k, ns)" for c k ns
  proof -
    have "charged m CONCAT_COST_PER_BYTE c k"
      using w assms by (intro counts_charged [OF counts_steps(3)]) (auto simp: op_costs)
    then have le: "unat c + k * 3 \<le> 2 ^ 61 + 2 ^ 40" using assms by (simp add: charged_def op_costs)
    have "c + of_nat k * CONCAT_COST_PER_BYTE + of_nat k * MALLOC_COST_PER_BYTE = c + of_nat k * 13" by (simp add: op_costs MALLOC_COST_PER_BYTE_def)
    moreover have "unat (c + of_nat k * 13) = unat c + k * 13" using unat_linear_eq [of c k 13] le by simp
    moreover have "length (u8_vec a') \<le> length (u8_vec a) + k \<and> length (atom_vec a) \<le> length (atom_vec a')" if "new_concat a k ns = (Ok x, a')" for x a'
      using that new_concat_loop_grows [of "length (u8_vec a)" k a 0 ns]
      by (fastforce simp: new_concat_def tryR_eq_Ok tryS_eq_Ok Let_def err_def split: if_splits)
    ultimately show ?thesis by (simp only:) (fastforce simp: pays_def tryS_eq_Ok paid_def)
  qed
  then show ?thesis unfolding op_concat_def Let_def by (intro pays_intros) auto
qed

section \<open>Operators on points\<close>

lemma precomputed_length: "i < length PRECOMPUTED_HASHES \<Longrightarrow> length (PRECOMPUTED_HASHES ! i) = 32"
  unfolding PRECOMPUTED_HASHES_def length_map by (simp only: nth_map length_be_bytes)

lemma sha256_small_index: "sha256_small a n = (Ok (Some v) :: u32 option eval) \<Longrightarrow> unat v < length PRECOMPUTED_HASHES"
  unfolding sha256_small_def
  by (clarsimp simp: bindR_eq_Ok) (auto simp: bindR_eq_Ok split: option.split_asm list.split_asm if_splits)

text \<open>The serialized forms of points have 48 and 96 bytes.\<close>

locale point_laws = ext_laws +
  assumes g1_to_bytes_length: "length (g1_to_bytes E p) = 48"
    and g2_to_bytes_length: "length (g2_to_bytes E q) = 96"
begin

lemma pays_new_g1: "unat c < 2 ^ 62 + 2 ^ 61 \<Longrightarrow> pays a (tryS (new_g1 E a p) (\<lambda>n a. (Ok (Reduction (c + 48 * MALLOC_COST_PER_BYTE) n), a)))"
  unfolding new_g1_def by (rule pays_fixed [where k = 48]) (simp_all add: g1_to_bytes_length MALLOC_COST_PER_BYTE_def)

lemma pays_new_g2: "unat c < 2 ^ 62 + 2 ^ 61 \<Longrightarrow> pays a (tryS (new_g2 E a q) (\<lambda>n a. (Ok (Reduction (c + 96 * MALLOC_COST_PER_BYTE) n), a)))"
  unfolding new_g2_def by (rule pays_fixed [where k = 96]) (simp_all add: g2_to_bytes_length MALLOC_COST_PER_BYTE_def)

lemmas pays_point = pays_intros pays_new_g1 pays_new_g2

lemma pays_pubkey: "pays a (op_pubkey_for_exp E a n m)"
  unfolding op_pubkey_for_exp_def Let_def
  by (intro pays_point unat_linear_62; auto simp: op_costs dest!: length_bounds)

lemma pays_negate: "pays a (op_bls_g1_negate E a n m)" "pays a (op_bls_g2_negate E a n m)"
  unfolding op_bls_g1_negate_def op_bls_g2_negate_def Let_def
  by (intro pays_intros; simp add: op_costs)+

lemma pays_multiply_point:
  assumes "unat m \<le> 2 ^ 61"
  shows "pays a (op_bls_g1_multiply E a n m)" "pays a (op_bls_g2_multiply E a n m)"
  unfolding op_bls_g1_multiply_def op_bls_g2_multiply_def Let_def
  by (intro pays_point; use assms in \<open>auto simp: op_costs dest!: checked\<close>)+

lemma pays_map:
  assumes "unat m \<le> 2 ^ 61"
  shows "pays a (op_bls_map_to_g1 E a n m)" "pays a (op_bls_map_to_g2 E a n m)"
  unfolding op_bls_map_to_g1_def op_bls_map_to_g2_def Let_def
  by (intro pays_point; use assms in \<open>auto simp: op_costs dest!: checked\<close>)+

lemma pays_sums:
  assumes "unat m \<le> 2 ^ 61"
  shows "pays a (op_point_add E a n m)" "pays a (op_bls_g1_subtract E a n m)" "pays a (op_bls_g2_add E a n m)"
    "pays a (op_bls_g2_subtract E a n m)"
  unfolding op_point_add_def op_bls_g1_subtract_def op_bls_g2_add_def op_bls_g2_subtract_def
  by (intro pays_point; clarify?; (drule paid_loop [OF _ _ assms]; (rule paid_steps)?)?; auto simp: op_costs)+

lemma pays_sha256:
  assumes "unat m \<le> 2 ^ 61"
  shows "pays a (op_sha256 E a n m)"
  unfolding op_sha256_def Let_def using assms
  by (intro pays_intros)
    (auto simp: op_costs sha256_length precomputed_length [OF sha256_small_index] intro: counted [OF counts_steps(2) _ base_costs(3), simplified])

lemma pays_keccak256: "unat m \<le> 2 ^ 61 \<Longrightarrow> pays a (op_keccak256 E a n m)"
  unfolding op_keccak256_def Let_def
  by (intro pays_intros) (auto simp: keccak256_length intro: counted [OF counts_steps(5) _ base_costs(4), simplified])

lemma pays_coinid: "pays a (op_coinid E a n m)"
  unfolding op_coinid_def Let_def by (intro pays_intros) (simp_all add: op_costs)

end

text \<open>The reference libraries are of this kind: their points are padded to the length.\<close>

interpretation ref_points: point_laws ref_ext
  by unfold_locales (simp_all add: ref_ext_def ref_pad_def)

end
