(* ===== verification/HeapBound.thy ===== *)
theory HeapBound
  imports OpHeap BindingsProps
begin

text \<open>
  A limit on the cost is a limit on the heap. Every byte that a run adds to the heap has been
  paid for, or belongs to one of the bounded number of atoms; so a run that starts with a heap of
  moderate size and a cost limit of up to \<open>2^34\<close> never lets the heap outgrow the 32-bit positions
  of the allocator. With this the interpreter is correct without any assumption on the heap; a single call
  of an operator needs four bytes that are left of it.
\<close>

section \<open>The Chia dialect\<close>

context point_laws
begin

lemma pays_chia_ops: "roomy a \<Longrightarrow> unat m \<le> 2 ^ 61 \<Longrightarrow> \<forall>(c, f) \<in> set (chia_ops E). pays a (f a n m)"
  by (simp add: chia_ops_def pays_core pays_compare pays_arith pays_modpow pays_add pays_subtract pays_logic pays_multiply pays_ash pays_lsh
      pays_divmod pays_substr pays_concat pays_pubkey pays_negate pays_multiply_point pays_map pays_sums pays_sha256 pays_coinid)

lemma pays_lookup:
  assumes "chia_op_lookup E flags op = Some f" "roomy a" "unat m \<le> 2 ^ 61"
  shows "pays a (f a n m)"
proof (cases "op = 62 \<and> flags AND ENABLE_KECCAK_OPS_OUTSIDE_GUARD \<noteq> 0")
  case True
  then show ?thesis using assms pays_keccak256 by (auto simp: chia_op_lookup_def)
next
  case False
  then have "(unat op, f) \<in> set (chia_ops E)" using assms(1) by (auto simp: chia_op_lookup_def dest: map_of_SomeD)
  then show ?thesis using pays_chia_ops [OF assms(2,3)] by blast
qed

lemma pays_unknown_operator: "pays a (unknown_operator a p n flags m)"
  unfolding unknown_operator_def by (intro pays_intros pays_compare)

lemma pays_chia: "roomy a \<Longrightarrow> unat m \<le> 2 ^ 61 \<Longrightarrow> pays a (chia_dialect_op E flags a p n m ext)"
  unfolding chia_dialect_op_def Let_def
  by (intro pays_intros pays_compare pays_unknown_operator pays_lookup) auto

end

text \<open>The heap after a call that starts with room for four bytes.\<close>

definition fits_heap :: "Allocator \<Rightarrow> Allocator \<Rightarrow> bool" where
  "fits_heap a a' \<longleftrightarrow> (length (u8_vec a) + 4 \<le> heap_limit a \<and> heap_limit a \<le> u32_max \<longrightarrow> length (u8_vec a') \<le> heap_limit a)"

lemma fits_heap_within: "in_limit a a' \<Longrightarrow> fits_heap a a'"
  by (auto simp: fits_heap_def in_limit_def)

lemma fits_heap_tryR: "(\<And>x. m = Ok x \<Longrightarrow> fits_heap a (snd (f x))) \<Longrightarrow> fits_heap a (snd (tryR m a f))"
  by (cases m) (auto simp: fits_heap_def)

lemma fits_heap_chia_ops:
  assumes "alloc_ok a" "rep a n t"
  shows "\<forall>(c, f) \<in> set (chia_ops E). fits_heap a (snd (f a n m))"
proof -
  have "fits_heap a (snd (op_substr a n m))" using few_bytes_op_substr [of a n m] by (auto simp: few_bytes_def fits_heap_def)
  then show ?thesis using fits_heap_within [OF in_limit_op_concat [OF assms]]
    by (simp add: chia_ops_def fits_heap_within in_limit_intros)
qed

lemma in_limit_unknown_operator: "in_limit a (snd (unknown_operator a p n flags m))"
  by (auto simp: unknown_operator_def op_unknown_def Let_def intro!: in_limit_intros split: option.splits)

lemma fits_heap_chia:
  assumes "alloc_ok a" "rep a n t"
  shows "fits_heap a (snd (chia_dialect_op E flags a p n m ext))"
proof -
  have "fits_heap a (snd (f a n m))" if "chia_op_lookup E fl op = Some f" for fl op f
    using that fits_heap_chia_ops [OF assms, of E m]
    by (auto simp: chia_op_lookup_def fits_heap_within in_limit_intros dest: map_of_SomeD split: if_splits)
  then show ?thesis unfolding chia_dialect_op_def Let_def
    by (auto intro!: fits_heap_tryR fits_heap_within [OF in_limit_unknown_operator] fits_heap_within [OF in_limit_crypto_ops(13)]
        fits_heap_within [OF in_limit_crypto_ops(14)] split: option.split)
qed

section \<open>One iteration\<close>

text \<open>The steps that only move nodes between the stacks.\<close>

definition still :: "RunProgramContext \<Rightarrow> 'a run \<Rightarrow> bool" where
  "still self m \<longleftrightarrow> allocator (snd m) = allocator self"

lemma still_refl [intro]: "still self (r, self)"
  by (simp add: still_def)

lemma still_tryS: "still self m \<Longrightarrow> (\<And>x self'. still self' (f x self')) \<Longrightarrow> still self (tryS m f)"
  by (cases "(m, f)" rule: tryS.cases) (auto simp: still_def)

lemma still_tryR: "(\<And>x. still self (f x)) \<Longrightarrow> still self (tryR m self f)"
  by (cases m) (auto simp: still_def)

lemma still_stack: "still self (pop self)" "still self (push self n)" "still self (push_env self n)"
  by (auto simp: still_def pop_def push_def push_env_def split: list.splits)

lemma still_push_op: "still self (push (push_op self op) n)" "still self (r, push_op self op)"
  by (auto simp: still_def push_op_def push_def)

lemma still_push_operands: "still self (push_operands k self n)"
  by (induction k arbitrary: self n) (auto intro!: still_tryR still_tryS still_push_op split: SExp.split)

lemmas still_intros = still_refl still_tryR still_tryS still_push_op still_stack still_push_operands

lemma still_eval_pair: "still self (eval_pair D self n env)"
  unfolding eval_pair_def eval_op_atom_def by (auto simp: Let_def intro!: still_intros split: SExp.split)

lemma still_eval: "allocator s = allocator self \<Longrightarrow> still self (eval_pair D s n env)"
  using still_eval_pair [of s D n env] by (simp add: still_def)

lemma still_swap_eval: "still self (swap_eval_op D self)"
  unfolding swap_eval_op_def by (auto simp: push_op_def intro!: still_intros still_eval split: list.split)

lemma still_add_cost: "still self m \<Longrightarrow> still self (add_cost c m)"
  by (cases m) (simp add: still_def)

text \<open>\<open>charge K self\<close>: the bytes of the heap, and those of every state that a guard may restore, are paid for by \<open>K\<close>.\<close>

definition charge :: "nat \<Rightarrow> RunProgramContext \<Rightarrow> bool" where
  "charge K self \<longleftrightarrow>
     10 * length (u8_vec (allocator self)) \<le> K + 40 * length (atom_vec (allocator self)) \<and>
     (\<forall>g \<in> set (softfork_stack self). 10 * cp_u8s (allocator_state g) \<le> K + 40 * cp_atoms (allocator_state g))"

lemma charge_mono: "charge K self \<Longrightarrow> K \<le> K' \<Longrightarrow> charge K' self"
  unfolding charge_def by (meson add_le_mono1 order_trans)

definition spends :: "nat \<Rightarrow> RunProgramContext \<Rightarrow> Cost run \<Rightarrow> bool" where
  "spends K self m \<longleftrightarrow> heap_ok (allocator (snd m)) \<and> heap_limit (allocator (snd m)) = heap_limit (allocator self) \<and>
     (\<forall>c s. m = (Ok c, s) \<longrightarrow> charge (K + unat c) s)"

lemma spends_still:
  assumes "still self m" "softfork_stack (snd m) = softfork_stack self" "heap_ok (allocator self)" "charge K self"
  shows "spends K self m"
proof -
  have "charge K s" if "m = (Ok c, s)" for c s using assms(1,2,4) that by (simp add: charge_def still_def)
  then show ?thesis using assms(1,3) charge_mono by (fastforce simp: spends_def still_def)
qed

lemma spends_trans:
  "spends K s m \<Longrightarrow> heap_limit (allocator s) = heap_limit (allocator self) \<Longrightarrow> spends K self m"
  by (simp add: spends_def)

lemma spends_cons_op:
  assumes "heap_ok (allocator self)" "charge K self"
  shows "spends K self (cons_op self)"
proof -
  have "u8_vec (allocator s) = u8_vec (allocator self) \<and> atom_vec (allocator s) = atom_vec (allocator self) \<and>
      heap_limit (allocator s) = heap_limit (allocator self) \<and> softfork_stack s = softfork_stack self"
    if "cons_op self = (r, s)" for r s
    using that unfolding cons_op_def
    by (auto simp: pop_def push_def new_pair_def err_def Let_def split: list.splits if_splits)
  then show ?thesis using assms charge_mono [OF assms(2)]
    by (cases "cons_op self") (auto simp: spends_def heap_ok_def charge_def)
qed

lemma spends_exit_guard:
  assumes "heap_ok (allocator self)" "charge K self"
  shows "spends K self (exit_guard self cost)"
proof (cases "softfork_stack self")
  case Nil
  then show ?thesis using assms by (simp add: exit_guard_def spends_def)
next
  case (Cons g gs)
  let ?self = "self\<lparr> softfork_stack := gs \<rparr>"
  have charge: "charge K ?self" "10 * cp_u8s (allocator_state g) \<le> K + 40 * cp_atoms (allocator_state g)"
    using assms(2) Cons by (auto simp: charge_def)
  obtain r a where ra: "(restore_checkpoint (allocator self) (allocator_state g) :: unit eval \<times> Allocator) = (r, a)" by fastforce
  have a: "heap_ok a" "heap_limit a = heap_limit (allocator self)" "r = Ok () \<Longrightarrow> 10 * length (u8_vec a) \<le> K + 40 * length (atom_vec a)"
    using ra assms(1) charge by (auto simp: restore_checkpoint_def heap_ok_def min_def split: if_splits)
  let ?s = "?self\<lparr> allocator := a \<rparr>"
  have fin: "spends K ?s (tryS (expect_ok msg (pop ?s)) (\<lambda>_ self. tryS (push self (nil (allocator self))) (\<lambda>_ self. (Ok 0, self))))"
    if "r = Ok ()" for msg
  proof (rule spends_still)
    show "charge K ?s" using charge(1) a(3) [OF that] by (simp add: charge_def)
  qed (use a in \<open>auto simp: pop_def push_def still_def err_def split: list.split\<close>)
  show ?thesis
  proof (cases "cost = expected_cost g")
    case True
    then show ?thesis using Cons ra a fin
      by (cases r) (auto simp: exit_guard_def Let_def spends_def)
  next
    case False
    then show ?thesis using Cons assms(1) by (simp add: exit_guard_def Let_def spends_def err_def)
  qed
qed


lemma spends_enter_guard:
  assumes "heap_ok (allocator self)" "charge K self"
  shows "spends K self (enter_guard D self n expected cost)"
proof (cases "parse_softfork_arguments D self n")
  case (Ok x)
  obtain ext prg env where x: "x = (ext, prg, env)" by (cases x)
  let ?g = "\<lparr> expected_cost = cost + expected, allocator_state = checkpoint (allocator self), operator_set = ext \<rparr>"
  let ?s = "push_op (self\<lparr> softfork_stack := ?g # softfork_stack self \<rparr>) ExitGuard"
  have "spends K ?s (add_cost GUARD_COST (eval_pair D ?s prg env))"
  proof (rule spends_still)
    show "still ?s (add_cost GUARD_COST (eval_pair D ?s prg env))" by (rule still_add_cost [OF still_eval_pair])
    show "softfork_stack (snd (add_cost GUARD_COST (eval_pair D ?s prg env))) = softfork_stack ?s"
      using keeps_add_cost [OF keeps_eval_pair] by (simp add: keeps_def)
    show "charge K ?s" using assms(2) by (auto simp: charge_def push_op_def checkpoint_def)
  qed (use assms(1) in \<open>simp add: push_op_def\<close>)
  then show ?thesis using Ok x by (simp add: enter_guard_def Let_def spends_def push_op_def)
next
  case (Err e)
  then show ?thesis
    by (intro spends_still) (use assms in \<open>auto simp: enter_guard_def still_def push_def err_def\<close>)
next
  case (Panic p)
  then show ?thesis using assms(1) by (simp add: enter_guard_def spends_def)
qed

lemma spends_tryR: "heap_ok (allocator self) \<Longrightarrow> (\<And>x. m = Ok x \<Longrightarrow> spends K self (f x)) \<Longrightarrow> spends K self (tryR m self f)"
  by (cases m) (auto simp: spends_def)

lemma unat_plus_exact:
  assumes "unat x \<le> unat (x + y :: u64)"
  shows "unat (x + y) = unat x + unat y"
proof (rule ccontr)
  assume "unat (x + y) \<noteq> unat x + unat y"
  then have "2 ^ 64 \<le> unat x + unat y" using unat_plus_eq [of x y] by (meson not_le)
  then have "unat (x + y) = unat x + unat y - 2 ^ 64"
    using unsigned_less [of x, where ?'a = nat] unsigned_less [of y, where ?'a = nat] by (simp add: unat_word_ariths mod_if)
  then show False using assms unsigned_less [of y, where ?'a = nat] \<open>2 ^ 64 \<le> unat x + unat y\<close> by simp
qed

lemma length_u64_bytes: "length (int_bytes (uint (w :: u64))) \<le> 16"
proof (cases "int_bytes (uint w) = []")
  case False
  have "uint w < 256 ^ 9 div 2" using unsigned_less [of w, where ?'a = int] by simp
  moreover have "- (256 ^ 9 div 2) \<le> uint w" by (rule order_trans [of _ 0]) simp_all
  ultimately have "be_signed (be_bytes 9 (nat (uint w))) = uint w" using be_signed_of_range [of 9 "uint w"] by simp
  moreover have "be_bytes 9 (nat (uint w)) \<noteq> []" using length_be_bytes [of 9 "nat (uint w)"] by (metis list.size(3) zero_neq_numeral)
  ultimately show ?thesis using canonical_shortest [of "int_bytes (uint w)" "be_bytes 9 (nat (uint w))"] False by simp
qed simp

text \<open>What the operators of a dialect do to the heap.\<close>

locale heap_dialect = dialect_laws + metered_dialect +
  assumes op_heap: "alloc_ok a \<Longrightarrow> rep a n t \<Longrightarrow> fits_heap a (snd (dialect_op D a p n m ext))"
    and op_pays: "roomy a \<Longrightarrow> unat m \<le> 2 ^ 61 \<Longrightarrow> pays a (dialect_op D a p n m ext)"
begin

lemma spends_dialect_op:
  assumes "alloc_ok (allocator self)" "rep (allocator self) n t" "charge K self"
    "length (u8_vec (allocator self)) + 4 \<le> heap_limit (allocator self)" "heap_limit (allocator self) \<le> u32_max" "unat m \<le> 2 ^ 61"
  shows "spends K self (tryS (lift_alloc self (dialect_op D (allocator self) p n m ext)) (\<lambda>r self.
    tryS (push self (red_node r)) (\<lambda>_ self. (Ok (red_cost r), self))))"
proof -
  obtain r a where ra: "dialect_op D (allocator self) p n m ext = (r, a)" by fastforce
  have a: "heap_ok a" "heap_limit a = heap_limit (allocator self)"
    using op_heap [OF assms(1,2), of p m ext] op_extends [of "allocator self" p n m ext] assms(4,5) ra
    by (auto simp: fits_heap_def heap_ok_def extends_def)
  have "roomy (allocator self)" using assms(1,4,5) by (simp add: roomy_def)
  then have "paid (allocator self) (unat (red_cost x)) a" if "r = Ok x" for x using op_pays [OF _ assms(6), of "allocator self" p n ext] ra that by (simp add: pays_def)
  then have "charge (K + unat (red_cost x)) (self\<lparr> allocator := a \<rparr>)" if "r = Ok x" for x
    using that charge_mono [OF assms(3), of "K + unat (red_cost x)"] assms(3) by (fastforce simp: charge_def paid_def)
  then show ?thesis using a by (cases r) (auto simp: ra spends_def push_def err_def charge_def)
qed

lemma spends_apply_op:
  assumes n: "val_stack self = n # vs" "rep (allocator self) n t" "alloc_ok (allocator self)" and "charge K self"
    "length (u8_vec (allocator self)) + 4 \<le> heap_limit (allocator self)" "heap_limit (allocator self) \<le> u32_max" "unat m \<le> 2 ^ 61"
  shows "spends K self (RunProgram.apply_op D self cost m)"
proof -
  have h: "heap_ok (allocator self)" using n(3) by (simp add: alloc_ok_def)
  have body: "spends K s' (tryR (small_number (allocator s') p) s' (\<lambda>op_atom. tryR (apply_kw D) s' (\<lambda>ak.
       if op_atom = Some ak then
         tryR (get_args 2 (allocator s') n ''apply'') s' (\<lambda>args.
         add_cost APPLY_COST (eval_pair D s' (args ! 0) (args ! 1)))
       else
       tryR (softfork_kw D) s' (\<lambda>sk.
       if op_atom = Some sk then RunProgram.softfork_op D s' n cost m
       else
         tryS (lift_alloc s' (dialect_op D (allocator s') p n m ext)) (\<lambda>r self.
         tryS (push self (red_node r)) (\<lambda>_ self. (Ok (red_cost r), self)))))))"
    if s': "allocator s' = allocator self" "softfork_stack s' = softfork_stack self" for s' p ext
  proof -
    have hs: "heap_ok (allocator s')" "charge K s'" using h s' assms(4) by (simp_all add: charge_def)
    have ev: "spends K s' (add_cost APPLY_COST (eval_pair D s' x y))" for x y
      by (rule spends_still [OF still_add_cost [OF still_eval_pair] _ hs]) (use keeps_add_cost [OF keeps_eval_pair] in \<open>simp add: keeps_def\<close>)
    have sf: "spends K s' (RunProgram.softfork_op D s' n cost m)"
      unfolding RunProgram.softfork_op_def by (auto intro!: spends_tryR hs spends_enter_guard) (use hs in \<open>auto simp: spends_def err_def\<close>)
    have op: "spends K s' (tryS (lift_alloc s' (dialect_op D (allocator s') p n m ext)) (\<lambda>r self.
         tryS (push self (red_node r)) (\<lambda>_ self. (Ok (red_cost r), self))))"
      by (rule spends_dialect_op) (use n s' hs assms(5-7) in simp_all)
    show ?thesis by (intro spends_tryR hs) (simp add: ev sf op spends_tryR hs del: lift_alloc.simps)
  qed
  show ?thesis
  proof (cases vs)
    case Nil
    then show ?thesis using n(1) h by (simp add: RunProgram.apply_op_def pop_def err_def spends_def)
  next
    case (Cons p vs')
    show ?thesis
    proof (cases "env_stack self")
      case Nil
      then show ?thesis using n(1) h \<open>vs = p # vs'\<close> by (simp add: RunProgram.apply_op_def pop_def err_def spends_def)
    next
      case (Cons env envs)
      let ?s = "self\<lparr> val_stack := vs', env_stack := envs \<rparr>"
      let ?ext = "case softfork_stack ?s of sf # _ \<Rightarrow> operator_set sf | [] \<Rightarrow> DefaultOps"
      have "spends K ?s (RunProgram.apply_op D self cost m)"
        using n(1) Cons \<open>vs = p # vs'\<close> body [of ?s p ?ext] unfolding RunProgram.apply_op_def Let_def
        by (simp add: pop_def del: lift_alloc.simps)
      then show ?thesis by (simp add: spends_def)
    qed
  qed
qed


lemma run_iter_heap:
  assumes full: "full mp mv self s" and charge: "charge (L + unat cost) self" and g: "guards_le m self" "unat m \<le> 2 ^ 61"
    and lim: "L + unat m + 2500000040 \<le> 10 * heap_limit (allocator self)" "heap_limit (allocator self) \<le> u32_max"
  shows "heap_ok (allocator (snd (run_iter D m mp cost self))) \<and>
    heap_limit (allocator (snd (run_iter D m mp cost self))) = heap_limit (allocator self) \<and>
    (\<forall>c' s'. run_iter D m mp cost self = (Ok (Some c'), s') \<longrightarrow> charge (L + unat c') s')"
proof -
  let ?e = "effective_max_cost self m" and ?K = "L + unat cost"
  have ok: "alloc_ok (allocator self)" using full by (auto simp: full_def pend_def)
  then have h: "heap_ok (allocator self)" and atoms: "length (atom_vec (allocator self)) \<le> 62500000"
    by (auto simp: alloc_ok_def MAX_NUM_ATOMS_def)
  have e: "?e \<le> m" using g(1) by (auto simp: effective_max_cost_def guards_le_def split: list.splits)
  show ?thesis
  proof (cases "cost > ?e \<or> op_stack self = []")
    case True
    then show ?thesis using h by (auto simp: run_iter_def Let_def err_def)
  next
    case False
    then obtain op ops where ops: "op_stack self = op # ops" by (cases "op_stack self") auto
    have c: "cost \<le> ?e" using False by auto
    let ?self = "self\<lparr> op_stack := ops \<rparr>"
    let ?step = "case op of
        Apply \<Rightarrow> augment_run mp (RunProgram.apply_op D ?self cost (?e - cost)) | ExitGuard \<Rightarrow> exit_guard ?self cost
      | Cons \<Rightarrow> cons_op ?self | SwapEval \<Rightarrow> augment_run mp (swap_eval_op D ?self)"
    have hs: "heap_ok (allocator ?self)" "charge ?K ?self" using h charge by (simp_all add: charge_def)
    have "unat cost \<le> unat m" using c e by (simp add: word_le_nat_alt)
    then have room: "length (u8_vec (allocator ?self)) + 4 \<le> heap_limit (allocator ?self)"
      using charge atoms lim(1) by (simp add: charge_def)
    have "unat (?e - cost) \<le> 2 ^ 61" using c e g(2) by (simp add: unat_sub word_le_nat_alt)
    then have app: "spends ?K ?self (RunProgram.apply_op D ?self cost (?e - cost))"
      using full ok hs room lim(2) by (auto simp: full_def intro!: spends_apply_op)
    have swap: "spends ?K ?self (swap_eval_op D ?self)"
      by (rule spends_still [OF still_swap_eval _ hs]) (use keeps_swap_eval [of ?self D] in \<open>simp add: keeps_def\<close>)
    have aug: "spends ?K ?self (augment_run mp x)" if "spends ?K ?self x" for x
      using that by (cases x; cases "fst x") (auto simp: spends_def augment_cost_errors_def)
    have step: "spends ?K ?self ?step"
      using app swap aug spends_exit_guard [OF hs] spends_cons_op [OF hs] by (cases op) simp_all
    have iter: "run_iter D m mp cost self = tryS ?step (\<lambda>c self. (Ok (Some (cost + c)), self))"
      using False ops by (simp add: run_iter_def Let_def)
    have "charge (L + unat (cost + c')) s'" if st: "?step = (Ok c', s')" for c' s'
    proof -
      have "unat cost \<le> unat (cost + c')" using iteration_moves [of m mp cost self "cost + c'" s'] g iter st by auto
      then have "unat (cost + c') = unat cost + unat c'" by (rule unat_plus_exact)
      then show ?thesis using step st by (simp add: spends_def add.assoc)
    qed
    then show ?thesis unfolding iter using step by (cases ?step, cases "fst ?step") (auto simp: spends_def)
  qed
qed


text \<open>All states that a loop reaches, and the one it ends with.\<close>

lemma reach_heap:
  assumes "reach D m mp cost self c t" "full mp (CAtom (int_bytes (uint m))) self s" "guards_ok m s" "guards_le m self" "charge (L + unat cost) self"
    "unat m \<le> 2 ^ 61" "L + unat m + 2500000040 \<le> 10 * heap_limit (allocator self)" "heap_limit (allocator self) \<le> u32_max"
  shows "\<exists>u. full mp (CAtom (int_bytes (uint m))) t u \<and> guards_ok m u \<and> guards_le m t \<and> charge (L + unat c) t \<and>
    heap_limit (allocator t) = heap_limit (allocator self)"
  using assms(1)
proof induction
  case here
  show ?case using assms by blast
next
  case (more c t c' t')
  then obtain u where u: "full mp (CAtom (int_bytes (uint m))) t u" "guards_ok m u" "guards_le m t" "charge (L + unat c) t"
      "heap_limit (allocator t) = heap_limit (allocator self)" by blast
  have h: "heap_ok (allocator t')" "charge (L + unat c') t'" "heap_limit (allocator t') = heap_limit (allocator self)"
    using run_iter_heap [OF u(1,4,3) assms(6)] assms(7,8) u(5) more.hyps(2) by auto
  have "unat m \<le> 2 ^ 62" using assms(6) by simp
  from osim_iter [OF u(1) refl this u(2), of c] h(1) more.hyps(2) obtain u' where
    u': "v_iter D vop quote_op apply_op softfork_op m c u = Inr (Some (c', u'))" "full mp (CAtom (int_bytes (uint m))) t' u'"
    by (auto simp: osim_def option_rel_Some1)
  moreover have "guards_le m t'" using iteration_moves [OF more.hyps(2) u(3) assms(6)] by simp
  ultimately show ?case using h v_iter_guards_ok [OF u(2) u'(1)] by blast
qed

lemma run_loop_heap:
  assumes "run_loop D m mp cost self = Some (r, t)" "full mp (CAtom (int_bytes (uint m))) self s" "guards_ok m s" "guards_le m self"
    "charge (L + unat cost) self" "unat m \<le> 2 ^ 61" "L + unat m + 2500000040 \<le> 10 * heap_limit (allocator self)"
    "heap_limit (allocator self) \<le> u32_max"
  shows "heap_ok (allocator t)"
proof -
  obtain c' s' where rs: "reach D m mp cost self c' s'" "stops D m mp c' s' (r, t)" using run_loop_reach [OF assms(1)] by blast
  obtain u where u: "full mp (CAtom (int_bytes (uint m))) s' u" "guards_le m s'" "charge (L + unat c') s'"
      "heap_limit (allocator s') = heap_limit (allocator self)" using reach_heap [OF rs(1) assms(2-8)] by blast
  have "t = snd (run_iter D m mp c' s')" using rs(2) by (auto simp: stops_def split: prod.splits outcome.splits option.splits)
  then show ?thesis using run_iter_heap [OF u(1,3,2) assms(6)] assms(7,8) u(4) by simp
qed

theorem run_heap:
  assumes B: "bigint_laws B" and a: "alloc_ok a" "rep a p P" "rep a e V" and m: "0 < max_cost" "unat max_cost \<le> 2 ^ 61"
    and lim: "10 * length (u8_vec a) + unat max_cost + 2500000200 \<le> 10 * heap_limit a" "heap_limit a \<le> u32_max"
  shows "t \<in> run_states B D a p e max_cost \<Longrightarrow> heap_ok (allocator t)"
    and "run_program B D a p e max_cost = Some (r, a') \<Longrightarrow> heap_ok a'"
proof -
  let ?L = "10 * length (u8_vec a) + 160" and ?self = "context_new a"
  have m0: "max_cost \<noteq> 0" using m(1) by auto
  have mm: "cost_limit max_cost = max_cost" using m(1) by (auto simp: cost_limit_def)
  obtain r1 a1 where nn: "new_number B a (uint max_cost) = (r1, a1)" by fastforce
  have roomy: "roomy a" using a(1) lim by (simp add: roomy_def)
  have w: "in_limit a a1" using in_limit_new_number [of a B "uint max_cost"] nn by simp
  then have h1: "heap_ok a1" "heap_limit a1 = heap_limit a" using roomy by (auto simp: in_limit_def roomy_def heap_ok_def)
  let ?s1 = "?self\<lparr> allocator := a1 \<rparr>"
  have ready: "\<exists>s. full mp (CAtom (int_bytes (uint max_cost))) s2 s \<and> guards_ok max_cost s \<and> guards_le max_cost s2 \<and> charge (?L + unat c) s2 \<and>
      heap_limit (allocator s2) = heap_limit a"
    if mp: "r1 = Ok mp" and ev: "eval_pair D ?s1 p e = (Ok c, s2)" for mp c s2
  proof -
    note n = roomy_new_number [OF B roomy nn [unfolded mp]]
    have pend: "pend mp (CAtom (int_bytes (uint max_cost))) ?s1 v_start" using n by (simp add: pend_def v_start_def context_new_def roomy_def)
    have sim: "vsim a1 (eval_done mp (CAtom (int_bytes (uint max_cost)))) (v_eval quote_op v_start P V) (Ok c, s2)"
      using vsim_eval_pair [OF quote pend _ rep_extends [OF a(2) n(3)] rep_extends [OF a(3) n(3)]] ev by simp
    then obtain s where s: "v_eval quote_op v_start P V = Inr (c, s)" "full mp (CAtom (int_bytes (uint max_cost))) s2 s" "allocator s2 = a1"
      by (auto simp: vsim_def eval_done_def)
    have "softfork_stack s2 = []" using keeps_eval_pair [of ?s1 D p e] ev by (simp add: keeps_def context_new_def)
    moreover have "guards_ok max_cost s" using v_eval_guards [OF s(1)] by (simp add: guards_ok_def v_start_def)
    ultimately show ?thesis using s new_number_grows [OF B nn [unfolded mp]] length_u64_bytes [of max_cost] h1(2)
      by (auto simp: guards_le_def charge_def)
  qed
  have fin: "heap_ok (allocator t')"
    if r: "r1 = Ok mp" "eval_pair D ?s1 p e = (Ok c, s2)" "run_loop D max_cost mp c s2 = Some (r, t')" for mp c s2 r t'
  proof -
    obtain s where s: "full mp (CAtom (int_bytes (uint max_cost))) s2 s" "guards_ok max_cost s" "guards_le max_cost s2" "charge (?L + unat c) s2"
      "heap_limit (allocator s2) = heap_limit a" using ready [OF r(1,2)] by blast
    show ?thesis by (rule run_loop_heap [OF r(3) s(1-4) m(2)]) (use lim s(5) in simp_all)
  qed
  show "heap_ok (allocator t)" if "t \<in> run_states B D a p e max_cost"
  proof -
    from that nn consider "t = ?s1" | mp c s2 c' where "r1 = Ok mp" "eval_pair D ?s1 p e = (Ok c, s2)" "reach D max_cost mp c s2 c' t"
      by (auto simp: run_states_def mm context_new_def)
    then show ?thesis
    proof cases
      case (2 mp c s2 c')
      obtain s where s: "full mp (CAtom (int_bytes (uint max_cost))) s2 s" "guards_ok max_cost s" "guards_le max_cost s2" "charge (?L + unat c) s2"
        "heap_limit (allocator s2) = heap_limit a" using ready [OF 2(1,2)] by blast
      have "\<exists>u. full mp (CAtom (int_bytes (uint max_cost))) t u"
        using reach_heap [OF 2(3) s(1-4) m(2)] lim s(5) by fastforce
      then show ?thesis by (auto simp: full_def pend_def alloc_ok_def)
    qed (use h1 in simp)
  qed
  show "heap_ok a'" if run: "run_program B D a p e max_cost = Some (r, a')"
  proof -
    obtain self where ctx: "tryO (r1, ?s1) (\<lambda>mp s1. tryO (eval_pair D s1 p e) (\<lambda>c s2.
        map_option (\<lambda>r. tryS r (\<lambda>cost self. tryS (pop self) (\<lambda>n self. (Ok (Reduction cost n), self))))
          (run_loop D max_cost mp c s2))) = Some (r, self)" "a' = allocator self"
      using run m0 nn by (auto simp: run_program_def context_run_program_def Let_def context_new_def)
    show ?thesis
    proof (cases "\<exists>mp c s2. r1 = Ok mp \<and> eval_pair D ?s1 p e = (Ok c, s2)")
      case True
      then obtain mp c s2 where r: "r1 = Ok mp" "eval_pair D ?s1 p e = (Ok c, s2)" by blast
      then obtain x t' where t': "run_loop D max_cost mp c s2 = Some (x, t')" using ctx(1) by auto
      have "allocator self = allocator t'"
        using ctx(1) r t' by (cases x) (auto simp: pop_def err_def split: list.splits)
      then show ?thesis using fin [OF r t'] ctx(2) by simp
    next
      case False
      then have "allocator self = a1" using ctx(1) still_eval_pair [of ?s1 D p e]
        by (cases r1; cases "eval_pair D ?s1 p e"; cases "fst (eval_pair D ?s1 p e)") (auto simp: still_def)
      then show ?thesis using h1 ctx(2) by simp
    qed
  qed
qed

end


text \<open>The Chia dialect is of this kind.\<close>

sublocale point_laws \<subseteq> chia_heap: heap_dialect "chia_dialect E flags" "v_chia_op E flags" 1 2 36 for flags
  by unfold_locales (use fits_heap_chia pays_chia in \<open>simp_all add: chia_dialect_def\<close>)

context point_laws
begin

lemma chia_heap_pays:
  assumes "alloc_ok a" "rep a p P" "rep a e V" "0 < max_cost" "unat max_cost \<le> 2 ^ 61"
    "10 * length (u8_vec a) + unat max_cost + 2500000200 \<le> 10 * heap_limit a" "heap_limit a \<le> u32_max"
  shows "heap_stays E flags a p e max_cost"
  using chia_heap.run_heap [OF bigint_laws_axioms assms] unfolding heap_stays_def by blast

lemma chia_heap_stays:
  assumes "alloc_ok a" "rep a p P" "rep a e V" "0 < max_cost" "unat max_cost \<le> 2 ^ 34" "length (u8_vec a) \<le> 2 ^ 31"
    "heap_limit a = 4294967294"
  shows "heap_stays E flags a p e max_cost"
  by (rule chia_heap_pays [OF assms(1-4)]) (use assms(5-7) in \<open>simp_all add: u32_max_def\<close>)

end

section \<open>One call of an operator\<close>

text \<open>
  C6. Every call of an operator through the Chia dialect does what the operator table on
  values says: with a well-formed allocator of at most 2^32 - 1 bytes of heap, of which at least four
  are left (\<open>op_substr\<close> may use them without a look at the limit), an operator atom, arguments
  that denote values and a cost limit of at most 2^62, the response is the cost and the value, or the
  error, that \<open>v_chia_op\<close> gives, or a resource error of the allocator. There is no panic, and
  the allocator stays well formed and within its heap limit.
\<close>

theorem chia_dialect_refines:
  assumes "ext_laws E" "alloc_ok a" "rep a p (CAtom op)" "rep a n t" "unat m \<le> 2 ^ 62"
    "length (u8_vec a) + 4 \<le> heap_limit a" "heap_limit a \<le> u32_max"
    "chia_dialect_op E flags a p n m ext = (r, a')"
  shows "alloc_ok a' \<and> length (u8_vec a') \<le> heap_limit a \<and>
    (case r of
       Ok x \<Rightarrow> \<exists>v. v_chia_op E flags op t m ext = Inr (red_cost x, v) \<and> rep a' (red_node x) v
     | Err e \<Rightarrow> \<exists>u. (v_chia_op E flags op t m ext = Inl (u, err_msg e) \<or> (u, err_msg e) \<in> alloc_msgs) \<and> rep a' (err_node e) u
     | Panic _ \<Rightarrow> False)"
proof -
  have fits: "length (u8_vec a') \<le> heap_limit a" using fits_heap_chia [OF assms(2,4), of E flags p m ext] assms(6-8) by (simp add: fits_heap_def)
  then have "heap_ok a'" using assms(7) by (simp add: heap_ok_def)
  with fits show ?thesis using ext_laws.chia_op_refines [OF assms(1-5), of flags ext] assms(8)
    by (auto simp: refines_def safe_def chia_dialect_def split: outcome.splits)
qed

theorem chia_dialect_refines_witness:
  "v_chia_op ref_ext 0 [32] (CPair (CAtom [1]) (CAtom [5])) 1000 DefaultOps = Inr (200, CAtom [])"
proof -
  have op: "rep ex_quote_alloc (node_new OSmallAtom 32) (CAtom [32])"
    using rep_small_new [of 32 ex_quote_alloc] ex_bytes by simp
  have one: "rep ex_quote_alloc (pfirst ex_quote_alloc ex_quote) (CAtom [1])" by (rule rep_pfirst [OF ex_quote_ok(2)])
  have f: "fits_in_small_atom [32] = Some 32" by code_simp
  have "chia_dialect_op ref_ext 0 ex_quote_alloc (node_new OSmallAtom 32) ex_quote 1000 DefaultOps =
      (Ok (Reduction 200 node_NIL), ex_quote_alloc)"
    by (simp add: chia_dialect_op_def rep_atom_len [OF op] rep_small_number [OF op] f chia_op_lookup_def chia_ops_def
        op_not_def get_args_def match_args_rep [OF ex_quote_ok(2)] nilp_rep [OF one] BOOL_BASE_COST_def)
  from chia_dialect_refines [OF ref_libs.ext_laws_axioms ex_quote_ok(1) op ex_quote_ok(2) _ _ _ this]
  show ?thesis using rep_det [OF rep_NIL] by (auto simp: ex_quote_alloc_def u32_max_def)
qed

section \<open>A run on an allocator of the default size\<close>

text \<open>
  C2. A run needs no assumption about memory: with a cost limit between 1 and 2^34, on an allocator
  with the default heap limit of which at most half is used, \<open>run_program\<close> with the Chia dialect
  returns and does not panic, and what it returns is what the run of the represented program on the
  represented environment gives, or the error of an exhausted allocator. The cost pays for the bytes
  of the heap, so its length stays within 32 bits.
\<close>

theorem chia_run_correct:
  assumes "point_laws E" "alloc_ok a" "rep a p P" "rep a e V" "0 < max_cost" "unat max_cost \<le> 2 ^ 34"
    "length (u8_vec a) \<le> 2 ^ 31" "heap_limit a = 4294967294"
  shows "\<exists>r a'. run_program E (chia_dialect E flags) a p e max_cost = Some (r, a') \<and> good_end (v_chia_run E flags P V max_cost) r a'"
proof -
  have "ext_laws E" using assms(1) by (simp add: point_laws_def)
  moreover have "unat max_cost \<le> 2 ^ 61" using assms(6) by simp
  ultimately show ?thesis
    using ext_laws.chia_run_total assms(2-5) point_laws.chia_heap_stays [OF assms] by blast
qed

theorem chia_run_correct_witness:
  "\<exists>v. v_chia_run ref_ext 0 (CAtom [1]) (CAtom []) 1000 = Some (Inr (44, v)) \<and> rep (ex_new\<lparr> small_atoms := 3 \<rparr>) node_NIL v"
proof -
  have a: "alloc_ok ex_new" "rep ex_new ex_one (CAtom [1])" "length (u8_vec ex_new) \<le> 2 ^ 31" "heap_limit ex_new = 4294967294"
    using rep_one [of ex_new] tight_new [OF ex_new] by (simp_all add: one_def ex_one_def ex_new_def tight_def)
  from chia_run_correct [OF ref_points.point_laws_axioms a(1,2) rep_NIL _ _ a(3,4), of 1000 0] show ?thesis
    by (simp add: ex_path_run [OF ex_limits(1)] good_end_def)
qed

end
