(* ===== verification/RunExtends.thy ===== *)
theory RunExtends
  imports HeapBound
begin

text \<open>
  A run only adds to the allocator. Inside a run the guards of the \<open>softfork\<close> operator give back
  what was allocated since they were entered, but never more: each of them holds the checkpoint of
  an allocator that extends the one the run started from. So a client may take a checkpoint before a
  run and restore it afterwards.
\<close>

section \<open>The checkpoints of the guards\<close>

fun chained :: "Allocator \<Rightarrow> SoftforkGuard list \<Rightarrow> Allocator \<Rightarrow> bool" where
  "chained a [] b \<longleftrightarrow> extends a b"
| "chained a (g # gs) b \<longleftrightarrow> (\<exists>c. allocator_state g = checkpoint c \<and> extends c b \<and> chained a gs c)"

lemma chained_mono: "chained a gs b \<Longrightarrow> extends b b' \<Longrightarrow> chained a gs b'"
  by (cases gs) (auto intro: extends_trans)

lemma chained_extends: "chained a gs b \<Longrightarrow> extends a b"
  by (induction gs arbitrary: b) (auto intro: extends_trans)

definition nested :: "Allocator \<Rightarrow> RunProgramContext \<Rightarrow> bool" where
  "nested a self \<longleftrightarrow> chained a (softfork_stack self) (allocator self)"

lemma nested_update [simp]:
  "nested a (self\<lparr> env_stack := es \<rparr>) = nested a self" "nested a (self\<lparr> op_stack := ops \<rparr>) = nested a self"
  by (simp_all add: nested_def)

named_theorems nested_intros \<open>steps that keep the checkpoints nested\<close>

lemma nested_tryS [nested_intros]:
  "nested a (snd m) \<Longrightarrow> (\<And>x s. m = (Ok x, s) \<Longrightarrow> nested a s \<Longrightarrow> nested a (snd (f x s))) \<Longrightarrow> nested a (snd (tryS m f))"
  by (cases "(m, f)" rule: tryS.cases) auto

lemma nested_tryR [nested_intros]: "nested a self \<Longrightarrow> (\<And>x. nested a (snd (f x))) \<Longrightarrow> nested a (snd (tryR m self f))"
  by (cases m) auto

lemma nested_still: "still self m \<Longrightarrow> keeps self m \<Longrightarrow> nested a self \<Longrightarrow> nested a (snd m)"
  by (simp add: nested_def still_def keeps_def)

lemma nested_stack [nested_intros]:
  "nested a self \<Longrightarrow> nested a (snd (pop self))" "nested a self \<Longrightarrow> nested a (snd (push self n))"
  "nested a self \<Longrightarrow> nested a (snd (add_cost c (eval_pair D self p e)))" "nested a self \<Longrightarrow> nested a (snd (swap_eval_op D self))"
  by (auto intro: nested_still still_stack keeps_stack still_add_cost keeps_add_cost still_eval_pair keeps_eval_pair
      still_swap_eval keeps_swap_eval)

lemma nested_alloc: "nested a self \<Longrightarrow> extends (allocator self) (snd m) \<Longrightarrow> nested a (snd (lift_alloc self m))"
  by (cases m) (auto simp: nested_def intro: chained_mono)

lemma nested_cons_op [nested_intros]: "nested a self \<Longrightarrow> nested a (snd (cons_op self))"
  unfolding cons_op_def by (auto intro!: nested_intros nested_alloc ext_intros simp del: lift_alloc.simps)

lemma nested_exit_guard [nested_intros]:
  assumes "nested a self"
  shows "nested a (snd (exit_guard self c))"
proof (cases "softfork_stack self")
  case (Cons g gs)
  let ?self = "self\<lparr> softfork_stack := gs \<rparr>"
  obtain b where b: "allocator_state g = checkpoint b" "extends b (allocator self)" "chained a gs b"
    using assms Cons by (auto simp: nested_def)
  note restored = restore_checkpoint_extends [OF b(2)]
  have left: "nested a ?self" and given: "nested a (?self\<lparr> allocator := b \<rparr>)"
    using b chained_mono [OF b(3,2)] by (simp_all add: nested_def)
  have popped: "nested a (snd (expect_ok msg (pop s)))" if "nested a s" for msg s
    using nested_stack(1) [OF that] by (cases "(msg, pop s)" rule: expect_ok.cases) simp_all
  show ?thesis unfolding exit_guard_def Cons Let_def
    by (simp add: restored b(1) left) (intro impI nested_tryS nested_stack popped given, simp_all)
qed (use assms in \<open>simp add: exit_guard_def\<close>)

context dialect_laws
begin

lemma nested_enter_guard: "nested a self \<Longrightarrow> nested a (snd (enter_guard D self n expected cost))"
  unfolding enter_guard_def Let_def
  by (auto intro!: nested_intros split: outcome.split) (auto simp: nested_def push_op_def)

lemma nested_apply_op: "nested a self \<Longrightarrow> nested a (snd (RunProgram.apply_op D self cost m))"
  unfolding RunProgram.apply_op_def RunProgram.softfork_op_def Let_def
  by (auto intro!: nested_intros nested_alloc op_extends nested_enter_guard simp del: lift_alloc.simps split: list.split)

lemma nested_run_iter:
  assumes "nested a self"
  shows "nested a (snd (run_iter D m mp cost self))"
proof -
  have aug: "nested a (snd (augment_run mp x))" if "nested a (snd x)" for x using that by (cases x) simp
  show ?thesis unfolding run_iter_def Let_def
    by (auto intro!: nested_intros aug nested_apply_op assms split: list.split Operation.split)
qed

lemma nested_reach: "reach D m mp cost self c t \<Longrightarrow> nested a self \<Longrightarrow> nested a t"
proof (induction rule: reach.induct)
  case (more c s c' s')
  then show ?case using nested_run_iter [of a s m mp c] by simp
qed

lemma nested_run_loop:
  assumes "run_loop D m mp cost self = Some (r, t)" "nested a self"
  shows "nested a t"
proof -
  obtain c s where "reach D m mp cost self c s" "stops D m mp c s (r, t)" using run_loop_reach [OF assms(1)] by blast
  moreover from this have "nested a (snd (run_iter D m mp c s))" using nested_run_iter nested_reach [OF _ assms(2)] by blast
  ultimately show ?thesis by (auto simp: stops_def split: prod.splits outcome.splits option.splits)
qed

lemma run_extends:
  assumes "run_program B D a p e max_cost = Some (r, a')"
  shows "extends a a'"
proof -
  let ?m = "cost_limit max_cost"
  obtain r1 a1 where nn: "new_number B a (uint ?m) = (r1, a1)" by fastforce
  let ?s1 = "(context_new a)\<lparr> allocator := a1 \<rparr>"
  have n1: "nested a ?s1" using extends_new_number [of a B "uint ?m"] nn by (simp add: nested_def context_new_def)
  have n2: "nested a (snd (eval_pair D ?s1 p e))" by (rule nested_still [OF still_eval_pair keeps_eval_pair n1])
  obtain self where ctx: "tryO (r1, ?s1) (\<lambda>mp s1. tryO (eval_pair D s1 p e) (\<lambda>c s2.
      map_option (\<lambda>r. tryS r (\<lambda>cost self. tryS (pop self) (\<lambda>n self. (Ok (Reduction cost n), self))))
        (run_loop D ?m mp c s2))) = Some (r, self)" "a' = allocator self"
    using assms nn by (auto simp: run_program_def context_run_program_def Let_def context_new_def cost_limit_def)
  have "nested a self"
  proof (cases "\<exists>mp c s2. r1 = Ok mp \<and> eval_pair D ?s1 p e = (Ok c, s2)")
    case True
    then obtain mp c s2 where r: "r1 = Ok mp" "eval_pair D ?s1 p e = (Ok c, s2)" by blast
    then obtain x t where t: "run_loop D ?m mp c s2 = Some (x, t)" using ctx(1) by auto
    have "nested a t" using nested_run_loop [OF t] n2 r(2) by simp
    then have "nested a (snd (tryS (x, t) (\<lambda>cost self. tryS (pop self) (\<lambda>n self. (Ok (Reduction cost n), self)))))"
      by (auto intro!: nested_intros)
    then show ?thesis using ctx(1) r t by simp
  next
    case False
    then show ?thesis using ctx(1) n1 n2
      by (cases r1; cases "eval_pair D ?s1 p e"; cases "fst (eval_pair D ?s1 p e)") auto
  qed
  then show ?thesis using ctx(2) chained_extends by (auto simp: nested_def)
qed

end

section \<open>What a run leaves behind\<close>

context ext_laws
begin

lemma chia_run_extends: "run_program E (chia_dialect E flags) a p e max_cost = Some (r, a') \<Longrightarrow> extends a a'"
  by (rule chia.run_extends)

end

text \<open>
  C5. A run under the Chia dialect can be undone. Whatever the program, the environment and the limit are, and whether the
  run succeeds or fails, every node that denoted a value before the run denotes the same value after
  it, and restoring a checkpoint taken before the run gives back exactly the allocator of that
  moment, although the guards of the \<open>softfork\<close> operator restore checkpoints of their own during it.
\<close>

theorem run_program_undone:
  assumes "ext_laws E" "run_program E (chia_dialect E flags) a p e max_cost = Some (r, a')"
  shows "restore_checkpoint a' (checkpoint a) = (Ok (), a) \<and> (\<forall>n t. rep a n t \<longrightarrow> rep a' n t)"
proof -
  have "extends a a'" by (rule ext_laws.chia_run_extends [OF assms])
  then show ?thesis using restore_checkpoint_extends rep_extends by blast
qed

theorem run_program_undone_witness:
  "restore_checkpoint (ex_new\<lparr> small_atoms := 3 \<rparr>) (checkpoint ex_new) = (Ok (), ex_new) \<and>
   rep (ex_new\<lparr> small_atoms := 3 \<rparr>) ex_one (CAtom [1])"
proof -
  have "run_program ref_ext (chia_dialect ref_ext 0) ex_new ex_one node_NIL 1000 =
      Some (Ok (Reduction 44 node_NIL), ex_new\<lparr> small_atoms := 3 \<rparr>)"
    by (rule ex_path_run [OF ex_limits(1)]) simp_all
  note undone = run_program_undone [OF ref_libs.ext_laws_axioms this]
  have "rep ex_new ex_one (CAtom [1])" using rep_small_new [of 1 ex_new] by (simp add: ex_one_def)
  with undone show ?thesis by blast
qed

end
