(* ===== verification/DeRoom.thy ===== *)
theory DeRoom
  imports DeBr
begin

text \<open>
  The space a deserializer needs. Reading \<open>n\<close> bytes allocates at most \<open>n\<close> bytes, \<open>n\<close> atoms
  and \<open>n\<close> pairs without, \<open>2 * n\<close> pairs with back-references. An allocator with that much room
  left never runs out of space, so that deserialization succeeds exactly on the bytes that
  start with a serialization.
\<close>

definition room :: "nat \<Rightarrow> nat \<Rightarrow> nat \<Rightarrow> Allocator \<Rightarrow> bool" where
  "room h k p a \<longleftrightarrow>
     length (u8_vec a) + h \<le> heap_limit a \<and> heap_limit a \<le> u32_max \<and>
     length (atom_vec a) + small_atoms a + k \<le> MAX_NUM_ATOMS \<and> length (pair_vec a) + p \<le> MAX_NUM_PAIRS"

lemma room_mono: "room h k p a \<Longrightarrow> h' \<le> h \<Longrightarrow> k' \<le> k \<Longrightarrow> p' \<le> p \<Longrightarrow> room h' k' p' a"
  by (auto simp: room_def)

lemma new_atom_room:
  assumes "room (length v + h) (Suc k) p a"
  obtains n a' where "new_atom a v = (Ok n, a')" "room h k p a'"
proof -
  have u: "unat (of_nat (length (u8_vec a)) :: u32) = length (u8_vec a)"
    using assms by (intro unat_of_nat_u32) (simp add: room_def)
  have fits: "\<not> usize_sub (heap_limit a) (length (u8_vec a)) < length v" "check_atom_limit a = Ok ()"
    using assms by (auto simp: room_def usize_sub_def check_atom_limit_def)
  show thesis
  proof (cases "fits_in_small_atom v")
    case None
    then show thesis by (intro that, simp add: new_atom_def u Let_def fits) (use assms in \<open>simp add: room_def\<close>)
  next
    case (Some r)
    then show thesis by (intro that, simp add: new_atom_def u Let_def fits) (use assms in \<open>simp add: room_def\<close>)
  qed
qed

lemma new_pair_room:
  assumes "room h k (Suc p) a"
  obtains n a' where "new_pair a x y = (Ok n, a')" "room h k p a'"
  using assms by (auto simp: new_pair_def Let_def room_def)

lemma io_new_pair_room:
  assumes "room h k (Suc p) a"
  obtains n a' where "io_new_pair a x y = (Ok n, a')" "room h k p a'"
  by (rule new_pair_room [OF assms, of x y]) (simp add: io_new_pair_def that)

text \<open>Allocation with room: it succeeds, and the room is smaller by what was allocated.\<close>

definition made :: "Allocator \<Rightarrow> nat \<Rightarrow> nat \<Rightarrow> nat \<Rightarrow> clvm \<Rightarrow> NodePtr eval \<times> Allocator \<Rightarrow> bool" where
  "made a h k p t m \<longleftrightarrow> (\<exists>q. fst m = Ok q \<and> rep (snd m) q t) \<and> tight (snd m) \<and> room h k p (snd m) \<and> extends a (snd m)"

lemma madeE:
  assumes "made a h k p t m"
  obtains q a' where "m = (Ok q, a')" "rep a' q t" "tight a'" "room h k p a'" "extends a a'"
  using assms by (cases m) (auto simp: made_def)

lemma made_new_atom:
  assumes "tight a" "room (length v + h) (Suc k) p a"
  shows "made a h k p (CAtom v) (new_atom a v)"
proof -
  obtain n a' where "new_atom a v = (Ok n, a')" "room h k p a'" by (rule new_atom_room [OF assms(2)])
  then show ?thesis using allocates_new_atom [OF assms(1), of v] by (simp add: made_def allocates_def)
qed

lemma made_new_pair:
  assumes "tight a" "room h k (Suc p) a" "rep a x l" "rep a y r"
  shows "made a h k p (CPair l r) (new_pair a x y)"
proof -
  obtain n a' where "new_pair a x y = (Ok n, a')" "room h k p a'" by (rule new_pair_room [OF assms(2)])
  then show ?thesis using allocates_new_pair [OF assms(1,3,4)] by (simp add: made_def allocates_def)
qed

lemma made_new_small_number:
  assumes "tight a" "room h (Suc k) p a" "unat v < 67108864"
  shows "made a h k p (CAtom (int_bytes (uint v))) (new_small_number a v)"
proof -
  have ok: "alloc_ok a" using assms(1) by (simp add: tight_def)
  have "new_small_number a v = (Ok (node_new OSmallAtom (unat v)), a\<lparr> small_atoms := small_atoms a + 1 \<rparr>)"
    using assms(2) by (simp add: new_small_number_def check_atom_limit_def room_def)
  moreover have "heap_ok (a\<lparr> small_atoms := small_atoms a + 1 \<rparr>)" using ok by (simp add: alloc_ok_def heap_ok_def)
  ultimately show ?thesis using safe_new_small_number [OF ok assms(3), of alloc_msgs] assms(1,2)
    by (auto simp: made_def safe_def alloc_msgs_def tight_def room_def)
qed

lemma made_new_number:
  assumes "bigint_laws B" "tight a" "room (length (int_bytes n) + h) (Suc k) p a"
  shows "made a h k p (CAtom (int_bytes n)) (new_number B a n)"
proof (cases "0 \<le> n \<and> n < 2 ^ 32 \<and> (of_int n :: u32) \<le> NODE_PTR_IDX_MASK")
  case True
  then have u: "unat (of_int n :: u32) < 67108864" by (simp add: word_le_nat_alt)
  have "uint (of_int n :: u32) = n" using True by (simp add: uint_word_of_int)
  then show ?thesis using True made_new_small_number [OF assms(2) _ u, of h k p] room_mono [OF assms(3)]
    by (simp add: new_number_def to_u32_def)
next
  case False
  then have "new_number B a n = new_atom a (int_bytes n)"
    using strip_to_signed [OF assms(1)] by (auto simp: new_number_def to_u32_def)
  then show ?thesis using made_new_atom [OF assms(2,3)] by simp
qed

text \<open>The bytes of an atom are among those read.\<close>

lemma parse_atom_ptr_length:
  assumes "parse_atom_ptr f b = Ok (bs, f')"
  shows "length bs + length (remaining f') \<le> Suc (length (remaining f))"
proof (cases "b \<le> MAX_SINGLE_BYTE")
  case True
  with assms have "slice (get_ref f) (usize_sub (position f) 1) (position f) = (Ok bs :: bytes io)" "f' = f"
    by (auto simp: parse_atom_ptr_def bindR_eq_Ok)
  then show ?thesis by (auto simp: slice_eq_Ok usize_sub_def split: if_splits)
next
  case False
  then obtain s f1 where s: "decode_size f b = Ok (s, f1)" "\<not> length (get_ref f1) < position f1 + unat s"
      "f' = seek_current (unat s) f1" "slice (get_ref f') (position f1) (position f1 + unat s) = (Ok bs :: bytes io)"
    using assms by (auto simp: parse_atom_ptr_def bindR_eq_Ok Let_def split: if_splits)
  have "length (remaining f1) \<le> length (remaining f)" using s(1)
    by (auto simp: decode_size_def decode_size_with_offset_def bindR_eq_Ok Let_def dest!: read_exact_remaining split: if_splits)
  moreover have "length bs + length (remaining f') = length (remaining f1)"
    using s(2-4) by (auto simp: slice_eq_Ok seek_current_def remaining_def)
  ultimately show ?thesis by simp
qed

lemma parse_atom_ptr_err: "parse_atom_ptr f b = Err e \<Longrightarrow> e \<notin> alloc_errs"
  by (auto simp: parse_atom_ptr_def decode_size_def decode_size_with_offset_def read_exact_def slice_def Let_def
      alloc_errs_def bad_encoding_def internal_error_def bindR_eq_Err split: if_splits)

lemma parse_path_err: "parse_path f = Err e \<Longrightarrow> e \<notin> alloc_errs"
  by (auto simp: parse_path_def bindR_eq_Err read_exact_def alloc_errs_def split: if_splits dest!: parse_atom_ptr_err)

definition with_room :: "nat \<Rightarrow> nat \<Rightarrow> nat \<Rightarrow> 'r io \<times> Allocator \<Rightarrow> bool" where
  "with_room h k p m \<longleftrightarrow> (case m of (Ok _, a) \<Rightarrow> room h k p a | (Err e, _) \<Rightarrow> e \<notin> alloc_errs | (Panic _, _) \<Rightarrow> True)"

lemma with_room_simps [simp]:
  "with_room h k p (Ok x, a) \<longleftrightarrow> room h k p a" "with_room h k p (Err e, a) \<longleftrightarrow> e \<notin> alloc_errs" "with_room h k p (Panic q, a)"
  by (simp_all add: with_room_def)

lemma with_room_tryR: "(\<And>e. m = Err e \<Longrightarrow> e \<notin> alloc_errs) \<Longrightarrow> (\<And>x. m = Ok x \<Longrightarrow> with_room h k p (f x)) \<Longrightarrow> with_room h k p (tryR m a f)"
  by (cases m) auto

lemma with_room_tryS:
  "with_room h' k' p' m \<Longrightarrow> (\<And>x a. m = (Ok x, a) \<Longrightarrow> room h' k' p' a \<Longrightarrow> with_room h k p (f x a)) \<Longrightarrow> with_room h k p (tryS m f)"
  by (cases "(m, f)" rule: tryS.cases) auto

lemma read_exact_err: "read_exact n f = Err e \<Longrightarrow> e \<notin> alloc_errs"
  by (auto simp: read_exact_def alloc_errs_def split: if_splits)

lemma parse_atom_room:
  assumes "room (Suc (length (remaining f)) + h) (Suc k) p a"
  shows "with_room (case fst (parse_atom a b f) of Ok (_, f') \<Rightarrow> length (remaining f') + h | _ \<Rightarrow> 0) k p (parse_atom a b f)"
proof (cases "b = 1 \<or> b = 0x80")
  case True
  then show ?thesis using room_mono [OF assms] by (auto simp: parse_atom_def)
next
  case False
  show ?thesis
  proof (cases "parse_atom_ptr f b")
    case (Ok x)
    obtain bs f' where x: "x = (bs, f')" by fastforce
    have "length bs + (length (remaining f') + h) \<le> Suc (length (remaining f)) + h"
      using parse_atom_ptr_length [of f b bs f'] Ok x by simp
    then have "room (length bs + (length (remaining f') + h)) (Suc k) p a" using room_mono [OF assms] by blast
    then obtain n a' where "new_atom a bs = (Ok n, a')" "room (length (remaining f') + h) k p a'" by (rule new_atom_room)
    then show ?thesis using False Ok x by (simp add: parse_atom_def)
  qed (use False parse_atom_ptr_err in \<open>auto simp: parse_atom_def\<close>)
qed

section \<open>Without back-references\<close>

definition conses :: "ParseOp list \<Rightarrow> nat" where
  "conses ops = length (filter (\<lambda>x. x = PCons) ops)"

lemma conses_simps [simp]: "conses [] = 0" "conses (PCons # ops) = Suc (conses ops)" "conses (PSExp # ops) = conses ops"
  by (simp_all add: conses_def)

lemma node_from_stream_loop_room:
  "room (length (remaining f) + h) (length (remaining f) + k) (length (remaining f) + conses ops + p) a \<Longrightarrow>
   with_room h k p (node_from_stream_loop a vals f ops)"
proof (induction a vals f ops rule: node_from_stream_loop.induct)
  case (1 a vals f)
  then show ?case by (cases vals) (auto simp: node_from_stream_loop.simps elim: room_mono)
next
  case (2 a vals f ops)
  show ?case
  proof (subst node_from_stream_loop.simps, rule with_room_tryR [OF read_exact_err], assumption)
    fix x
    assume x: "read_exact 1 f = Ok x"
    obtain b f1 where b: "x = (b, f1)" by fastforce
    have len: "length (remaining f) = Suc (length (remaining f1))" using read_exact_remaining x b by fastforce
    show "with_room h k p (case x of (b, f) \<Rightarrow>
        if b ! 0 = CONS_BOX_MARKER then node_from_stream_loop a vals f (PSExp # PSExp # PCons # ops)
        else tryS (parse_atom a (b ! 0) f) (\<lambda>(v, f) a. node_from_stream_loop a (v # vals) f ops))"
    proof (cases "b ! 0 = CONS_BOX_MARKER")
      case True
      then show ?thesis using 2(1) [OF x b [symmetric]] 2(3) room_mono len b by simp
    next
      case False
      have r: "room (Suc (length (remaining f1)) + h) (Suc (length (remaining f1) + k)) (length (remaining f1) + conses ops + p) a"
        by (rule room_mono [OF 2(3)]) (simp_all add: len)
      from parse_atom_room [OF r] show ?thesis
        unfolding b prod.case if_not_P [OF False]
      proof (rule with_room_tryS)
        fix y a'
        assume y: "parse_atom a (b ! 0) f1 = (Ok y, a')"
        obtain v f2 where v: "y = (v, f2)" by fastforce
        note rem = parse_atom_remaining [OF y [unfolded v]]
        assume "room (case fst (parse_atom a (b ! 0) f1) of Ok (_, f') \<Rightarrow> length (remaining f') + h | _ \<Rightarrow> 0)
            (length (remaining f1) + k) (length (remaining f1) + conses ops + p) a'"
        then have "room (length (remaining f2) + h) (length (remaining f2) + k) (length (remaining f2) + conses ops + p) a'"
          using rem by (auto simp: y v elim: room_mono)
        then show "with_room h k p ((case y of (v, f) \<Rightarrow> \<lambda>a. node_from_stream_loop a (v # vals) f ops) a')"
          using 2(2) [OF x b [symmetric] False y] v by simp
      qed
    qed
  qed
next
  case (3 a vals f ops)
  consider v2 v1 vals' where "vals = v2 # v1 # vals'" | "\<nexists>v2 v1 vals'. vals = v2 # v1 # vals'" by blast
  then show ?case
  proof cases
    case (1 v2 v1 vals')
    have "room (length (remaining f) + h) (length (remaining f) + k) (Suc (length (remaining f) + conses ops + p)) a"
      by (rule room_mono [OF 3(2)]) simp_all
    from io_new_pair_room [OF this, of v1 v2] obtain n a' where n: "io_new_pair a v1 v2 = (Ok n, a')"
        "room (length (remaining f) + h) (length (remaining f) + k) (length (remaining f) + conses ops + p) a'" by blast
    then show ?thesis using 3(1) [OF 1 refl n(1) [unfolded io_new_pair_def]]
      by (subst node_from_stream_loop.simps) (simp add: 1 flip: io_new_pair_def)
  next
    case 2
    then show ?thesis by (subst node_from_stream_loop.simps) (auto split: list.split)
  qed
qed

text \<open>With room for its bytes, the deserializer fails only on bytes that do not start with a serialization.\<close>

lemma node_from_bytes_room:
  assumes "tight a" "room (length b + h) (length b + k) (length b + p) a"
  shows "if parsable no_refs (CAtom []) b
    then \<exists>n a' e rest t. node_from_bytes a b = (Ok n, a') \<and> b = e @ rest \<and> parses no_refs (CAtom []) e t \<and> rep a' n t \<and>
      tight a' \<and> extends a a' \<and> room h k p a'
    else \<exists>er \<in> format_errs. \<exists>a'. node_from_bytes a b = (Err er, a') \<and> tight a' \<and> extends a a'"
proof -
  have rem: "remaining (cursor_new b) = b" by (simp add: remaining_def cursor_new_def)
  have "with_room h k p (node_from_stream a (cursor_new b))"
    unfolding node_from_stream_def by (rule node_from_stream_loop_room) (use assms(2) in \<open>simp add: rem\<close>)
  then have "with_room h k p (node_from_bytes a b)"
    by (cases "node_from_stream a (cursor_new b)", cases "fst (node_from_stream a (cursor_new b))")
      (auto simp: node_from_bytes_def)
  with node_from_bytes_cases [OF assms(1), of b] show ?thesis
    by (cases "node_from_bytes a b", cases "fst (node_from_bytes a b)") (auto simp: parsable_def)
qed

section \<open>With back-references\<close>

lemma sexp_no_err: "sexp a n = Err e \<Longrightarrow> False"
  by (cases n) (auto simp: sexp_def bindR_eq_Err get_idx_def Let_def split: if_splits option.splits ObjectType.splits)

lemma with_room_push:
  assumes "room h' k' (Suc p') a" "\<And>v a'. io_new_pair a x y = (Ok v, a') \<Longrightarrow> room h' k' p' a' \<Longrightarrow> with_room h k p (F v a')"
  shows "with_room h k p (tryS (io_new_pair a x y) F)"
  by (rule io_new_pair_room [OF assms(1), of x y]) (simp add: assms(2))

lemma traverse_loop_err:
  "traverse_loop fuel a ni fb lb bi bm args cost = Err e \<Longrightarrow> err_msg e = ''path into atom''"
proof (induction fuel arbitrary: bi bm args cost)
  case 0
  then show ?case by (subst (asm) traverse_loop.simps) (simp split: if_splits)
next
  case (Suc fuel)
  from Suc.prems show ?case
  proof (cases "sexp a args :: SExp eval")
    case (Ok s)
    then show ?thesis using Suc.prems
      by (cases s; subst (asm) traverse_loop.simps)
        (auto simp: bindR_eq_Err get_idx_def Let_def err_def dest: Suc.IH split: if_splits)
  qed (auto simp: traverse_loop.simps [of "Suc fuel"] bindR_eq_Err get_idx_def Let_def dest: sexp_no_err split: if_splits)
qed

lemma traverse_path_err: "map_err io_from_eval (traverse_path a path args) = Err e \<Longrightarrow> e \<notin> alloc_errs"
proof -
  assume "map_err io_from_eval (traverse_path a path args) = Err e"
  then obtain e' where e': "traverse_path a path args = Err e'" "e = io_from_eval e'" by (cases "traverse_path a path args") auto
  from e'(1) have "err_msg e' = ''path into atom''"
    by (auto simp: traverse_path_def Let_def bindR_eq_Err get_idx_def dest: traverse_loop_err split: if_splits)
  then show ?thesis by (simp add: e'(2) io_from_eval_def alloc_errs_def)
qed

lemma node_from_backrefs_loop_room:
  "room (length (remaining f) + h) (length (remaining f) + k) (2 * (length (remaining f) + conses ops) + p) a \<Longrightarrow>
   with_room h k p (node_from_backrefs_loop cb a c vals f ops)"
proof (induction cb a c vals f ops rule: node_from_backrefs_loop.induct)
  case (1 cb a c vals f)
  then show ?case
    by (subst node_from_backrefs_loop.simps, intro with_room_tryR) (auto dest: sexp_no_err elim: room_mono split: SExp.split)
next
  case (2 cb a c vals f ops)
  show ?case
  proof (subst node_from_backrefs_loop.simps, rule with_room_tryR [OF read_exact_err], assumption)
    fix x
    assume x: "read_exact 1 f = Ok x"
    obtain b f1 where b: "x = (b, f1)" by fastforce
    have len: "length (remaining f) = Suc (length (remaining f1))" using read_exact_remaining x b by fastforce
    have r: "room (Suc (length (remaining f1)) + h) (Suc (length (remaining f1) + k)) (Suc (Suc (2 * (length (remaining f1) + conses ops) + p))) a"
      by (rule room_mono [OF 2(4)]) (simp_all add: len)
    let ?w = "with_room h k p"
    consider (cons) "b ! 0 = CONS_BOX_MARKER" | (ref) "b ! 0 \<noteq> CONS_BOX_MARKER" "b ! 0 = BACK_REFERENCE"
      | (atom) "b ! 0 \<noteq> CONS_BOX_MARKER" "b ! 0 \<noteq> BACK_REFERENCE" by blast
    then show "?w (case x of (b, f) \<Rightarrow>
        if b ! 0 = CONS_BOX_MARKER then node_from_backrefs_loop cb a c vals f (PSExp # PSExp # PCons # ops)
        else if b ! 0 = BACK_REFERENCE then
          tryR (parse_path f) a (\<lambda>(path, f).
          tryR (map_err io_from_eval (traverse_path a path vals)) a (\<lambda>reduction.
          let back_reference = red_node reduction; c = cb c back_reference in
          tryS (io_new_pair a back_reference vals) (\<lambda>values a. node_from_backrefs_loop cb a c values f ops)))
        else tryS (parse_atom a (b ! 0) f) (\<lambda>(new_atom, f) a.
          tryS (io_new_pair a new_atom vals) (\<lambda>values a. node_from_backrefs_loop cb a c values f ops)))"
    proof cases
      case cons
      then show ?thesis using 2(1) [OF x b [symmetric] cons] 2(4) room_mono len b by simp
    next
      case ref
      show ?thesis unfolding b prod.case if_not_P [OF ref(1)] if_P [OF ref(2)] Let_def
      proof (rule with_room_tryR [OF parse_path_err], assumption)
        fix y
        assume y: "parse_path f1 = Ok y"
        obtain path f2 where pf: "y = (path, f2)" by fastforce
        note rem = parse_path_remaining [OF y [unfolded pf]]
        have r': "room (length (remaining f2) + h) (length (remaining f2) + k) (Suc (2 * (length (remaining f2) + conses ops) + p)) a"
          by (rule room_mono [OF r]) (use rem in simp_all)
        show "?w (case y of (path, f) \<Rightarrow> tryR (map_err io_from_eval (traverse_path a path vals)) a (\<lambda>reduction.
            tryS (io_new_pair a (red_node reduction) vals) (\<lambda>values a. node_from_backrefs_loop cb a (cb c (red_node reduction)) values f ops)))"
          unfolding pf prod.case
          by (rule with_room_tryR [OF traverse_path_err], assumption, rule with_room_push [OF r'])
            (rule 2(2) [OF x b [symmetric] ref y pf [symmetric] _ refl refl])
      qed
    next
      case atom
      show ?thesis unfolding b prod.case if_not_P [OF atom(1)] if_not_P [OF atom(2)]
      proof (rule with_room_tryS [OF parse_atom_room [OF r]])
        fix y a'
        assume y: "parse_atom a (b ! 0) f1 = (Ok y, a')"
        obtain v f2 where v: "y = (v, f2)" by fastforce
        note rem = parse_atom_remaining [OF y [unfolded v]]
        assume "room (case fst (parse_atom a (b ! 0) f1) of Ok (_, f') \<Rightarrow> length (remaining f') + h | _ \<Rightarrow> 0)
            (length (remaining f1) + k) (Suc (Suc (2 * (length (remaining f1) + conses ops) + p))) a'"
        then have r': "room (length (remaining f2) + h) (length (remaining f2) + k) (Suc (2 * (length (remaining f2) + conses ops) + p)) a'"
          using rem by (auto simp: y v elim: room_mono)
        show "?w ((case y of (n, f) \<Rightarrow> \<lambda>a. tryS (io_new_pair a n vals) (\<lambda>values a. node_from_backrefs_loop cb a c values f ops)) a')"
          unfolding v prod.case by (rule with_room_push [OF r']) (rule 2(3) [OF x b [symmetric] atom y v [symmetric]])
      qed
    qed
  qed
next
  case (3 cb a c vals f ops)
  have r: "room (length (remaining f) + h) (length (remaining f) + k) (Suc (Suc (2 * (length (remaining f) + conses ops) + p))) a"
    by (rule room_mono [OF 3(2)]) simp_all
  have join: "with_room h k p (tryS (io_new_pair a left right) (\<lambda>new_root a.
      tryS (io_new_pair a new_root rest) (\<lambda>values a. node_from_backrefs_loop cb a c values f ops)))"
    if "sexp a vals = (Ok (SPair right rest') :: SExp io)" "sexp a rest' = (Ok (SPair left rest) :: SExp io)" for left right rest rest'
    by (rule with_room_push [OF r], rule with_room_push, assumption, rule 3(1) [OF that(1) refl that(2) refl])
  show ?case
    by (subst node_from_backrefs_loop.simps, rule with_room_tryR)
      (auto dest: sexp_no_err intro!: with_room_tryR join split: SExp.split)
qed

lemma node_from_bytes_backrefs_room:
  assumes "tight a" "room (length b + h) (length b + k) (2 * length b + p) a"
  shows "if parsable ref_lookup (CAtom []) b
    then \<exists>n a' e rest t. node_from_bytes_backrefs a b = (Ok n, a') \<and> b = e @ rest \<and> parses ref_lookup (CAtom []) e t \<and>
      rep a' n t \<and> tight a' \<and> extends a a' \<and> room h k p a'
    else \<exists>er \<in> path_errs. \<exists>a'. node_from_bytes_backrefs a b = (Err er, a') \<and> tight a' \<and> extends a a'"
proof -
  have rem: "remaining (cursor_new b) = b" by (simp add: remaining_def cursor_new_def)
  have "with_room h k p (node_from_stream_backrefs (\<lambda>u _. u) a () (cursor_new b))"
    unfolding node_from_stream_backrefs_def by (rule node_from_backrefs_loop_room) (use assms(2) in \<open>simp add: rem\<close>)
  then have "with_room h k p (node_from_bytes_backrefs a b)"
    by (cases "node_from_stream_backrefs (\<lambda>u _. u) a () (cursor_new b)",
        cases "fst (node_from_stream_backrefs (\<lambda>u _. u) a () (cursor_new b))") (auto simp: node_from_bytes_backrefs_def)
  with node_from_bytes_backrefs_cases [OF assms(1), of b] show ?thesis
    by (cases "node_from_bytes_backrefs a b", cases "fst (node_from_bytes_backrefs a b)") (auto simp: parsable_def)
qed

end
