(* ===== verification/FuzzTrees.thy ===== *)
theory FuzzTrees
  imports BindingsProps BackrefProps "HOL-Library.Multiset" DeRoom
begin

text \<open>
  The traversals of the fuzzing targets: \<open>src/fuzz/fuzz_targets/node_eq.rs\<close>,
  \<open>fuzzing_utils.rs\<close> and the helper of \<open>object_cache.rs\<close>.
  Each walks a tree with an explicit stack; a panic, which is how a target reports a
  failure, is a value. The locale states what a stack machine that folds a tree satisfies;
  it is interpreted on the hashing and on the measuring machine.
\<close>

section \<open>Functions that return or panic\<close>

type_synonym 'a infallible = "(unit, 'a) outcome"

lemma thenO_mono [partial_function_mono]:
  assumes "\<And>x. mono_option (\<lambda>f. K f x)"
  shows "mono_option (\<lambda>f. thenO m (K f))"
  using assms by (cases m) (auto intro: option.const_mono)

section \<open>Comparing two trees\<close>

partial_function (option) node_eq_loop :: "Allocator \<Rightarrow> (NodePtr \<times> NodePtr) list \<Rightarrow> bool infallible option" where
  "node_eq_loop a stack =
     (case stack of
        [] \<Rightarrow> Some (Ok True)
      | (l, r) # stack \<Rightarrow>
          thenO (sexp a l) (\<lambda>sl.
          thenO (sexp a r) (\<lambda>sr.
          case sl of
            SPair ll lr \<Rightarrow>
              (case sr of
                 SPair rl rr \<Rightarrow> node_eq_loop a ((ll, rl) # (lr, rr) # stack)
               | SAtom \<Rightarrow> Some (Ok False))
          | SAtom \<Rightarrow>
              (case sr of
                 SAtom \<Rightarrow> thenO (atom_eq a l r) (\<lambda>eq. if \<not> eq then Some (Ok False) else node_eq_loop a stack)
               | SPair _ _ \<Rightarrow> Some (Ok False)))))"

definition node_eq :: "Allocator \<Rightarrow> NodePtr \<Rightarrow> NodePtr \<Rightarrow> bool infallible option" where
  "node_eq a lhs rhs = node_eq_loop a [(lhs, rhs)]"

lemma node_eq_loop_pop:
  assumes "rep a l t" "rep a r u"
  shows "node_eq_loop a ((l, r) # stack) = (if t = u then node_eq_loop a stack else Some (Ok False))"
  using assms
proof (induction t arbitrary: l r u stack rule: clvm.induct)
  case (CAtom bs)
  then show ?case
    by (cases u; subst node_eq_loop.simps) (simp_all add: rep_sexp_atom rep_sexp_pair rep_atom_eq)
next
  case (CPair tl' tr)
  show ?case
  proof (cases u)
    case (CAtom cs)
    then show ?thesis using CPair.prems by (subst node_eq_loop.simps) (simp add: rep_sexp_atom rep_sexp_pair)
  next
    case pair: (CPair ul ur)
    note nodes = CPair.prems(1) CPair.prems(2) [unfolded pair]
    show ?thesis unfolding pair using CPair.IH(1) [OF nodes [THEN rep_pfirst]] CPair.IH(2) [OF nodes [THEN rep_prest]]
      by (subst node_eq_loop.simps) (simp add: nodes [THEN rep_sexp_pair])
  qed
qed

lemma node_eq_rep: "rep a l t \<Longrightarrow> rep a r u \<Longrightarrow> node_eq a l r = Some (Ok (t = u))"
  unfolding node_eq_def by (simp add: node_eq_loop_pop node_eq_loop.simps [where stack = "[]"])

section \<open>Folding a tree with two stacks\<close>

datatype TreeOp = TSExp NodePtr | TCons

definition fuzz_hash_atom :: "(bytes \<Rightarrow> bytes) \<Rightarrow> bytes \<Rightarrow> bytes" where
  "fuzz_hash_atom H buf = H ([1] @ buf)"

definition fuzz_hash_pair :: "(bytes \<Rightarrow> bytes) \<Rightarrow> bytes \<Rightarrow> bytes \<Rightarrow> bytes" where
  "fuzz_hash_pair H left right = H ([2] @ left @ right)"

partial_function (option) fuzz_tree_hash_loop ::
    "(bytes \<Rightarrow> bytes) \<Rightarrow> Allocator \<Rightarrow> TreeOp list \<Rightarrow> bytes list \<Rightarrow> bytes list infallible option" where
  "fuzz_tree_hash_loop H a ops hashes =
     (case ops of
        [] \<Rightarrow> Some (Ok hashes)
      | TSExp n # ops \<Rightarrow>
          thenO (sexp a n) (\<lambda>s. case s of
            SAtom \<Rightarrow> thenO (atom_bytes a n) (\<lambda>buf. fuzz_tree_hash_loop H a ops (fuzz_hash_atom H buf # hashes))
          | SPair left right \<Rightarrow> fuzz_tree_hash_loop H a (TSExp right # TSExp left # TCons # ops) hashes)
      | TCons # ops \<Rightarrow>
          (case hashes of
             first # rest # hashes \<Rightarrow> fuzz_tree_hash_loop H a ops (fuzz_hash_pair H first rest # hashes)
           | _ \<Rightarrow> Some (Panic ''called `Option::unwrap()` on a `None` value'')))"

definition fuzz_tree_hash :: "(bytes \<Rightarrow> bytes) \<Rightarrow> Allocator \<Rightarrow> NodePtr \<Rightarrow> bytes infallible option" where
  "fuzz_tree_hash H a n =
     map_option (\<lambda>r. bindR r (\<lambda>hashes.
         case hashes of [h] \<Rightarrow> Ok h | _ \<Rightarrow> Panic ''assertion failed: hashes.len() == 1''))
       (fuzz_tree_hash_loop H a [TSExp n] [])"

datatype LenOp = LCons | LTraverse NodePtr

partial_function (option) compute_serialized_len_loop :: "Allocator \<Rightarrow> LenOp list \<Rightarrow> u64 list \<Rightarrow> u64 list infallible option" where
  "compute_serialized_len_loop a ops stack =
     (case ops of
        [] \<Rightarrow> Some (Ok stack)
      | LCons # ops \<Rightarrow>
          (case stack of
             right # left # stack \<Rightarrow> compute_serialized_len_loop a ops ((1 + left + right) # stack)
           | _ \<Rightarrow> Some (Panic ''internal error, empty stack''))
      | LTraverse n # ops \<Rightarrow>
          thenO (sexp a n) (\<lambda>s. case s of
            SPair left right \<Rightarrow> compute_serialized_len_loop a (LTraverse right # LTraverse left # LCons # ops) stack
          | SAtom \<Rightarrow>
              Option.bind (node_to_bytes a n) (\<lambda>b.
              thenO (unwrap b) (\<lambda>b. compute_serialized_len_loop a ops (of_nat (length b) # stack)))))"

definition compute_serialized_len :: "Allocator \<Rightarrow> NodePtr \<Rightarrow> u64 infallible option" where
  "compute_serialized_len a n =
     map_option (\<lambda>r. bindR r (\<lambda>stack.
         case stack of [v] \<Rightarrow> Ok v | _ \<Rightarrow> Panic ''assertion failed: stack.len() == 1''))
       (compute_serialized_len_loop a [LTraverse n] [])"

fun fold_tree :: "(bytes \<Rightarrow> 'v) \<Rightarrow> ('v \<Rightarrow> 'v \<Rightarrow> 'v) \<Rightarrow> clvm \<Rightarrow> 'v" where
  "fold_tree leaf comb (CAtom bs) = leaf bs"
| "fold_tree leaf comb (CPair l r) = comb (fold_tree leaf comb l) (fold_tree leaf comb r)"

fun atoms_sat :: "(bytes \<Rightarrow> bool) \<Rightarrow> clvm \<Rightarrow> bool" where
  "atoms_sat P (CAtom bs) = P bs"
| "atoms_sat P (CPair l r) = (atoms_sat P l \<and> atoms_sat P r)"

text \<open>
  A machine that folds a tree: atoms that satisfy \<open>P\<close> are pushed, a pair is replaced by its
  right and its left part and an operation that joins their values.
\<close>

locale fold_machine =
  fixes run :: "Allocator \<Rightarrow> 'op list \<Rightarrow> 'v list \<Rightarrow> 'v list infallible option"
    and visit :: "NodePtr \<Rightarrow> 'op" and join :: "'op"
    and P :: "bytes \<Rightarrow> bool" and leaf :: "bytes \<Rightarrow> 'v" and comb :: "'v \<Rightarrow> 'v \<Rightarrow> 'v"
  assumes run_done: "run a [] vs = Some (Ok vs)"
    and run_atom: "rep a n (CAtom bs) \<Longrightarrow> P bs \<Longrightarrow> run a (visit n # ops) vs = run a ops (leaf bs # vs)"
    and run_pair: "rep a n (CPair l r) \<Longrightarrow> run a (visit n # ops) vs = run a (visit (prest a n) # visit (pfirst a n) # join # ops) vs"
    and run_join: "run a (join # ops) (x # y # vs) = run a ops (comb x y # vs)"
begin

lemma run_visit: "rep a n t \<Longrightarrow> atoms_sat P t \<Longrightarrow> run a (visit n # ops) vs = run a ops (fold_tree leaf comb t # vs)"
proof (induction t arbitrary: n ops vs rule: clvm.induct)
  case (CPair l r)
  then show ?case using rep_pfirst rep_prest by (simp add: run_pair run_join)
qed (simp add: run_atom)

lemma run_node: "rep a n t \<Longrightarrow> atoms_sat P t \<Longrightarrow> run a [visit n] [] = Some (Ok [fold_tree leaf comb t])"
  by (simp add: run_visit run_done)

end

lemma node_to_bytes_atom:
  "rep a n (CAtom bs) \<Longrightarrow> length (atom_ser bs) \<le> 2000000 \<Longrightarrow> node_to_bytes a n = Some (Ok (atom_ser bs))"
  by (simp add: node_to_bytes_def node_to_bytes_limit_eq)

interpretation hash_machine: fold_machine "fuzz_tree_hash_loop H" TSExp TCons "\<lambda>_. True" "fuzz_hash_atom H" "fuzz_hash_pair H"
  for H :: "bytes \<Rightarrow> bytes"
  by unfold_locales (subst fuzz_tree_hash_loop.simps, simp add: rep_sexp_atom rep_sexp_pair rep_atom_bytes)+

interpretation len_machine: fold_machine compute_serialized_len_loop LTraverse LCons
    "\<lambda>bs. length (atom_ser bs) \<le> 2000000" "\<lambda>bs. of_nat (length (atom_ser bs))" "\<lambda>l r. 1 + r + l"
  by unfold_locales
    (subst compute_serialized_len_loop.simps, simp add: rep_sexp_atom rep_sexp_pair node_to_bytes_atom)+

lemma fold_tree_hash: "fold_tree (fuzz_hash_atom H) (fuzz_hash_pair H) t = tree_hash H t"
  by (induction t) (simp_all add: fuzz_hash_atom_def fuzz_hash_pair_def)

lemma atoms_sat_True [simp]: "atoms_sat (\<lambda>_. True) t"
  by (induction t) simp_all

lemma fuzz_tree_hash_rep: "rep a n t \<Longrightarrow> fuzz_tree_hash H a n = Some (Ok (tree_hash H t))"
  by (simp add: fuzz_tree_hash_def hash_machine.run_node fold_tree_hash)

lemma fold_tree_len: "fold_tree (\<lambda>bs. of_nat (length (atom_ser bs)) :: u64) (\<lambda>l r. 1 + r + l) t = of_nat (length (cser t))"
  by (induction t) (simp_all add: CONS_BOX_MARKER_def)

abbreviation atoms_writable :: "clvm \<Rightarrow> bool" where
  "atoms_writable t \<equiv> atoms_sat (\<lambda>bs. length (atom_ser bs) \<le> 2000000) t"

lemma compute_serialized_len_rep:
  "rep a n t \<Longrightarrow> atoms_writable t \<Longrightarrow> compute_serialized_len a n = Some (Ok (of_nat (length (cser t))))"
  by (simp add: compute_serialized_len_def len_machine.run_node fold_tree_len)

text \<open>The saturating length is the length as long as this fits in 64 bits.\<close>

lemma slen_eq:
  assumes "rep a n t" "atoms_writable t" "length (cser t) < 2 ^ 64"
  shows "slen t = of_nat (length (cser t))"
  using assms
proof (induction t arbitrary: n rule: clvm.induct)
  case (CAtom bs)
  have "length bs \<le> length (atom_ser bs)" by (auto simp: atom_ser_def)
  then have "unat (serialized_length_atom bs) = length (atom_ser bs)"
    using CAtom.prems(2) by (intro serialized_length_atom_eq) simp
  then have "of_nat (length (atom_ser bs)) = (ucast (serialized_length_atom bs) :: u64)"
    by (metis of_nat_unat)
  then show ?case by simp
next
  case (CPair l r)
  have small: "length (cser l) < 2 ^ 64" "length (cser r) < 2 ^ 64" "1 + length (cser l) + length (cser r) < 2 ^ 64"
    using CPair.prems(3) by simp_all
  have unat: "unat (of_nat k :: u64) = k" if "k < 2 ^ 64" for k using that by (simp add: unat_of_nat)
  have "slen l = of_nat (length (cser l))" "slen r = of_nat (length (cser r))"
    using CPair.IH rep_pfirst [OF CPair.prems(1)] rep_prest [OF CPair.prems(1)] CPair.prems(2) small by auto
  then show ?case using small unat [of "1 + length (cser l)"] by (simp add: saturating_add_def unat)
qed

section \<open>Visiting every node\<close>

definition bindO :: "'a infallible option \<Rightarrow> ('a \<Rightarrow> 'b infallible option) \<Rightarrow> 'b infallible option" where
  "bindO m f = Option.bind m (\<lambda>r. thenO r f)"

lemma bindO_Ok [simp]: "bindO (Some (Ok x)) f = f x"
  by (simp add: bindO_def)

lemma bindO_mono [partial_function_mono]:
  assumes "\<And>x. mono_option (\<lambda>f. K f x)"
  shows "mono_option (\<lambda>f. bindO m (K f))"
  using thenO_mono [OF assms] by (cases m) (auto simp: bindO_def intro: option.const_mono)

partial_function (option) visit_nodes :: "Allocator \<Rightarrow> NodePtr list \<Rightarrow> nat \<Rightarrow> NodePtr list infallible option" where
  "visit_nodes a nodes visited_index =
     (if length nodes > visited_index then
        thenO (sexp a (nodes ! visited_index)) (\<lambda>s. case s of
          SAtom \<Rightarrow> visit_nodes a nodes (visited_index + 1)
        | SPair left right \<Rightarrow> visit_nodes a (nodes @ [left, right]) (visited_index + 1))
      else Some (Ok nodes))"

text \<open>The callback changes the state \<open>s\<close> of its closure; a panic in it ends the program.\<close>

fun visit_all :: "(Allocator \<Rightarrow> NodePtr \<Rightarrow> 's \<Rightarrow> 's infallible option) \<Rightarrow> Allocator \<Rightarrow> NodePtr list \<Rightarrow> 's \<Rightarrow> 's infallible option" where
  "visit_all visit a [] s = Some (Ok s)"
| "visit_all visit a (n # ns) s = bindO (visit a n s) (visit_all visit a ns)"

definition visit_tree ::
    "Allocator \<Rightarrow> NodePtr \<Rightarrow> (Allocator \<Rightarrow> NodePtr \<Rightarrow> 's \<Rightarrow> 's infallible option) \<Rightarrow> 's \<Rightarrow> 's infallible option" where
  "visit_tree a n visit s = bindO (visit_nodes a [n] 0) (\<lambda>nodes. visit_all visit a (rev nodes) s)"

fun positions :: "clvm \<Rightarrow> clvm list" where
  "positions (CAtom bs) = [CAtom bs]"
| "positions (CPair l r) = CPair l r # positions l @ positions r"

abbreviation csize :: "clvm \<Rightarrow> nat" where
  "csize t \<equiv> length (positions t)"

text \<open>The nodes not yet visited stand for trees; every position of these trees is added once.\<close>

lemma visit_nodes_rep:
  assumes "list_all2 (rep a) pending ts"
  shows "\<exists>ns us. visit_nodes a (visited @ pending) (length visited) = Some (Ok (visited @ ns)) \<and>
    list_all2 (rep a) ns us \<and> mset us = mset (concat (map positions ts))"
  using assms
proof (induction "sum_list (map csize ts)" arbitrary: visited pending ts rule: less_induct)
  case less
  show ?case
  proof (cases ts)
    case Nil
    then show ?thesis using less.prems by (subst visit_nodes.simps) simp
  next
    case (Cons t ts')
    then obtain n pending' where n: "pending = n # pending'" "rep a n t" "list_all2 (rep a) pending' ts'"
      using less.prems by (auto simp: list_all2_Cons2)
    have eq: "visit_nodes a (visited @ pending) (length visited) =
        thenO (sexp a n) (\<lambda>s. case s of
          SAtom \<Rightarrow> visit_nodes a ((visited @ [n]) @ pending') (length (visited @ [n]))
        | SPair left right \<Rightarrow> visit_nodes a ((visited @ [n]) @ pending' @ [left, right]) (length (visited @ [n])))"
      unfolding n(1) by (subst visit_nodes.simps) (simp cong: SExp.case_cong)
    show ?thesis
    proof (cases t)
      case (CAtom bs)
      have "sum_list (map csize ts') < sum_list (map csize ts)" using Cons CAtom by simp
      from less.hyps [OF this n(3), of "visited @ [n]"] obtain ns us where
        "visit_nodes a ((visited @ [n]) @ pending') (length (visited @ [n])) = Some (Ok ((visited @ [n]) @ ns))"
        "list_all2 (rep a) ns us" "mset us = mset (concat (map positions ts'))" by blast
      then show ?thesis using n(2) Cons CAtom
        by (intro exI [of _ "n # ns"] exI [of _ "t # us"]) (simp add: eq rep_sexp_atom)
    next
      case (CPair l r)
      have "sum_list (map csize (ts' @ [l, r])) < sum_list (map csize ts)" using Cons CPair by simp
      moreover have "list_all2 (rep a) (pending' @ [pfirst a n, prest a n]) (ts' @ [l, r])"
        using n(2,3) CPair by (auto intro!: list_all2_appendI rep_pfirst rep_prest)
      ultimately obtain ns us where
        "visit_nodes a ((visited @ [n]) @ pending' @ [pfirst a n, prest a n]) (length (visited @ [n])) = Some (Ok ((visited @ [n]) @ ns))"
        "list_all2 (rep a) ns us" "mset us = mset (concat (map positions (ts' @ [l, r])))" using less.hyps by blast
      then show ?thesis using n(2) Cons CPair
        by (intro exI [of _ "n # ns"] exI [of _ "t # us"]) (simp add: eq rep_sexp_pair)
    qed
  qed
qed

lemma visit_tree_rep:
  assumes "rep a n t"
  obtains ns us where "\<And>s. visit_tree a n visit s = visit_all visit a ns s" "list_all2 (rep a) ns us" "mset us = mset (positions t)"
proof -
  from visit_nodes_rep [of a "[n]" "[t]" "[]"] assms obtain ns us where
    "visit_nodes a [n] 0 = Some (Ok ns)" "list_all2 (rep a) ns us" "mset us = mset (positions t)" by auto
  then show thesis by (intro that [of "rev ns" "rev us"]) (simp_all add: visit_tree_def list_all2_rev)
qed

lemma visit_all_invariant:
  assumes "list_all2 (rep a) ns us" "I s"
    "\<And>n u s. u \<in> set us \<Longrightarrow> rep a n u \<Longrightarrow> I s \<Longrightarrow> \<exists>s'. visit a n s = Some (Ok s') \<and> I s'"
  shows "\<exists>s'. visit_all visit a ns s = Some (Ok s') \<and> I s'"
  using assms
proof (induction arbitrary: s rule: list_all2_induct)
  case (Cons n ns u us)
  obtain s1 where "visit a n s = Some (Ok s1)" "I s1" using Cons.prems(2) [OF _ Cons.hyps(1) Cons.prems(1)] by auto
  moreover have "\<exists>s'. visit_all visit a ns s1 = Some (Ok s') \<and> I s'"
    by (rule Cons.IH [OF \<open>I s1\<close>]) (use Cons.prems(2) in auto)
  ultimately show ?case by auto
qed simp

end
