(* ===== verification/FuzzSplit.thy ===== *)
theory FuzzSplit
  imports FuzzTrees
begin

text \<open>
  Cutting a tree in two at a node: \<open>insert_sentinel\<close> of
  \<open>src/fuzz/fuzz_targets/incremental_serializer.rs\<close>. The first part is a copy of the tree with
  the sentinel in place of the node; the lemmas show that every node of the tree is a
  cut-point, and that the two parts, one after the other, make up the tree.
\<close>

section \<open>Splitting a tree\<close>

text \<open>\<open>i32\<close> is a 32-bit word; its sign is the one of \<open>sint\<close>.\<close>

type_synonym i32 = "32 word"

partial_function (option) insert_sentinel_loop ::
    "NodePtr \<Rightarrow> TreeOp list \<Rightarrow> NodePtr list \<Rightarrow> i32 \<Rightarrow> NodePtr option \<Rightarrow> Allocator \<Rightarrow>
     ((NodePtr list \<times> i32 \<times> NodePtr option) infallible \<times> Allocator) option" where
  "insert_sentinel_loop sentinel ops copy idx subtree a =
     (case ops of
        [] \<Rightarrow> Some (Ok (copy, idx, subtree), a)
      | TSExp n # ops \<Rightarrow>
          if idx = 0 then insert_sentinel_loop sentinel ops (sentinel # copy) (idx - 1) (Some n) a
          else
            tryP (sexp a n, a) (\<lambda>s a. case s of
              SAtom \<Rightarrow> insert_sentinel_loop sentinel ops (n # copy) (idx - 1) subtree a
            | SPair left right \<Rightarrow>
                insert_sentinel_loop sentinel (TSExp right # TSExp left # TCons # ops) copy (idx - 1) subtree a)
      | TCons # ops \<Rightarrow>
          (case copy of
             left # right # copy \<Rightarrow>
               tryP (apfst unwrap (new_pair a left right)) (\<lambda>p a.
               insert_sentinel_loop sentinel ops (p # copy) idx subtree a)
           | _ \<Rightarrow> Some (Panic ''called `Option::unwrap()` on a `None` value'', a)))"

definition insert_sentinel ::
    "Allocator \<Rightarrow> NodePtr \<Rightarrow> i32 \<Rightarrow> NodePtr \<Rightarrow> ((NodePtr \<times> NodePtr) option infallible \<times> Allocator) option" where
  "insert_sentinel a root idx sentinel =
     map_option (apfst (\<lambda>r. bindR r (\<lambda>(copy, idx, subtree).
         if 0 \<le> sint idx then Ok None
         else case subtree of
           None \<Rightarrow> Panic ''assertion failed: subtree.is_some()''
         | Some subtree \<Rightarrow>
             (case copy of
                [first] \<Rightarrow> Ok (Some (first, subtree))
              | _ \<Rightarrow> Panic ''assertion failed: copy.len() == 1''))))
       (insert_sentinel_loop sentinel [TSExp root] [] idx None a)"

text \<open>
  The nodes of a tree are numbered from the root, the right part of a pair before the left
  one. \<open>punch k t\<close> is \<open>t\<close> with a hole in place of node number \<open>k\<close>, and the value there.
\<close>

fun whole :: "clvm \<Rightarrow> htree" where
  "whole (CAtom bs) = Leaf bs"
| "whole (CPair l r) = Branch (whole l) (whole r)"

fun punch :: "nat \<Rightarrow> clvm \<Rightarrow> htree \<times> clvm" where
  "punch k (CAtom bs) = (Hole, CAtom bs)"
| "punch k (CPair l r) =
     (if k = 0 then (Hole, CPair l r)
      else if k \<le> csize r then apfst (Branch (whole l)) (punch (k - 1) r)
      else apfst (\<lambda>h. Branch h (whole r)) (punch (k - 1 - csize r) l))"

lemma csize_pos [simp]: "0 < csize t"
  by (cases t) auto

lemma filled_whole: "filled hs adds ts \<Longrightarrow> filled (whole t # hs) adds (t # ts)"
  by (induction t arbitrary: hs ts) (auto intro: filled.intros)

lemma filled_punch: "k < csize t \<Longrightarrow> filled hs adds ts \<Longrightarrow> filled (fst (punch k t) # hs) (whole (snd (punch k t)) # adds) (t # ts)"
proof (induction t arbitrary: k hs ts)
  case (CAtom bs)
  then show ?case by (auto intro: filled.intros)
next
  case (CPair l r)
  then show ?case using filled_whole [OF CPair.prems(2), of "CPair l r"]
    by (auto intro!: filled_hole filled_branch filled_whole CPair.IH)
qed

lemma free_hrep: "free a st n t \<Longrightarrow> hrep a st n (whole t)"
  by (induction rule: free.induct) (auto intro: hrep.intros)

text \<open>The sentinel is a pair of the allocator, so that no pair made later is equal to it.\<close>

definition sentinel_ok :: "Allocator \<Rightarrow> NodePtr \<Rightarrow> bool" where
  "sentinel_ok a sentinel \<longleftrightarrow> (\<exists>l r. rep a sentinel (CPair l r))"

lemma sentinel_ok_extends: "sentinel_ok a s \<Longrightarrow> extends a a' \<Longrightarrow> sentinel_ok a' s"
  unfolding sentinel_ok_def using rep_extends by blast

lemma copy_pair:
  assumes "tight a" "room h k (Suc p) a" "rep a x l" "rep a y r"
  obtains q a' where "new_pair a x y = (Ok q, a')" "tight a'" "room h k p a'" "extends a a'" "rep a' q (CPair l r)"
    "pfirst a' q = x" "prest a' q = y" "sentinel_ok a s \<longrightarrow> q \<noteq> s"
proof -
  obtain q a' where q: "new_pair a x y = (Ok q, a')" "rep a' q (CPair l r)" "tight a'" "room h k p a'" "extends a a'"
    by (rule madeE [OF made_new_pair [OF assms]])
  have new: "q = node_new OPair (length (pair_vec a))" "a' = a\<lparr> pair_vec := pair_vec a @ [\<lparr> ip_first = x, ip_rest = y \<rparr>] \<rparr>"
    and lt: "length (pair_vec a) < 67108864"
    using q(1) assms(2) by (auto simp: new_pair_def Let_def err_def room_def MAX_NUM_PAIRS_def split: if_splits)
  have idx: "node_idx q = length (pair_vec a)" using lt by (simp add: new(1))
  have "sentinel_ok a s \<longrightarrow> q \<noteq> s" using idx by (auto simp: sentinel_ok_def elim!: rep_CPairE)
  then show thesis using q that [of q a'] idx new(2) by (simp add: pfirst_def prest_def)
qed

lemma insert_sentinel_open:
  "i \<noteq> 0 \<Longrightarrow> rep a n (CPair l r) \<Longrightarrow> insert_sentinel_loop s (TSExp n # ops) copy i sub a =
     insert_sentinel_loop s (TSExp (prest a n) # TSExp (pfirst a n) # TCons # ops) copy (i - 1) sub a"
  by (subst insert_sentinel_loop.simps) (simp add: rep_sexp_pair)

lemma insert_sentinel_join:
  "new_pair a left right = (Ok q, a') \<Longrightarrow>
   insert_sentinel_loop s (TCons # ops) (left # right # copy) i sub a = insert_sentinel_loop s ops (q # copy) i sub a'"
  by (subst insert_sentinel_loop.simps) simp

text \<open>A node whose numbers do not include the index is copied.\<close>

lemma insert_sentinel_skip:
  assumes "free a (Some s) n t" "sentinel_ok a s" "tight a" "room h k (csize t + p) a" "\<forall>j < csize t. i \<noteq> of_nat j"
  shows "\<exists>q a'. insert_sentinel_loop s (TSExp n # ops) copy i sub a =
      insert_sentinel_loop s ops (q # copy) (i - of_nat (csize t)) sub a' \<and>
    free a' (Some s) q t \<and> tight a' \<and> room h k p a' \<and> extends a a'"
  using assms
proof (induction t arbitrary: a n p i ops copy rule: clvm.induct)
  case (CAtom bs)
  then have "i \<noteq> 0" "sexp a n = (Ok SAtom :: SExp infallible)" using rep_sexp_atom [OF free_rep] by auto
  then show ?case using CAtom.prems room_mono
    by (subst insert_sentinel_loop.simps) (auto intro!: exI [of _ n])
next
  case (CPair l r)
  note node = free_rep [OF CPair.prems(1)]
  have sub: "free a (Some s) (pfirst a n) l" "free a (Some s) (prest a n) r" using CPair.prems(1) by (auto elim: free_CPairE)
  have i0: "i \<noteq> 0" using CPair.prems(5) by auto
  have idx: "\<forall>j < csize r. i - 1 \<noteq> of_nat j" "\<forall>j < csize l. i - 1 - of_nat (csize r) \<noteq> of_nat j"
  proof -
    have "i - 1 \<noteq> of_nat j" if "j < csize r" for j
      using CPair.prems(5) [rule_format, of "Suc j"] that by (auto simp: algebra_simps)
    moreover have "i - 1 - of_nat (csize r) \<noteq> of_nat j" if "j < csize l" for j
      using CPair.prems(5) [rule_format, of "Suc (csize r + j)"] that by (auto simp: algebra_simps)
    ultimately show "\<forall>j < csize r. i - 1 \<noteq> of_nat j" "\<forall>j < csize l. i - 1 - of_nat (csize r) \<noteq> of_nat j" by blast+
  qed
  have room: "room h k (csize r + (csize l + Suc p)) a" by (rule room_mono [OF CPair.prems(4)]) simp_all
  from CPair.IH(2) [OF sub(2) CPair.prems(2,3) room idx(1), of "TSExp (pfirst a n) # TCons # ops" copy]
  obtain q1 a1 where q1: "insert_sentinel_loop s (TSExp (prest a n) # TSExp (pfirst a n) # TCons # ops) copy (i - 1) sub a =
        insert_sentinel_loop s (TSExp (pfirst a n) # TCons # ops) (q1 # copy) (i - 1 - of_nat (csize r)) sub a1"
      "free a1 (Some s) q1 r" "tight a1" "room h k (csize l + Suc p) a1" "extends a a1" by blast
  from CPair.IH(1) [OF free_extends [OF sub(1) q1(5)] sentinel_ok_extends [OF CPair.prems(2) q1(5)] q1(3,4) idx(2), of "TCons # ops" "q1 # copy"]
  obtain q2 a2 where q2: "insert_sentinel_loop s (TSExp (pfirst a n) # TCons # ops) (q1 # copy) (i - 1 - of_nat (csize r)) sub a1 =
        insert_sentinel_loop s (TCons # ops) (q2 # q1 # copy) (i - 1 - of_nat (csize r) - of_nat (csize l)) sub a2"
      "free a2 (Some s) q2 l" "tight a2" "room h k (Suc p) a2" "extends a1 a2" by blast
  have r2: "free a2 (Some s) q1 r" by (rule free_extends [OF q1(2) q2(5)])
  have ok2: "sentinel_ok a2 s" using CPair.prems(2) sentinel_ok_extends q1(5) q2(5) by blast
  obtain q a' where q: "new_pair a2 q2 q1 = (Ok q, a')" "tight a'" "room h k p a'" "extends a2 a'" "rep a' q (CPair l r)"
      "pfirst a' q = q2" "prest a' q = q1" "q \<noteq> s"
    using copy_pair [OF q2(3,4) free_rep [OF q2(2)] free_rep [OF r2], of s] ok2 by blast
  have "free a' (Some s) q (CPair l r)"
    by (rule free_pair) (use q free_extends [OF q2(2) q(4)] free_extends [OF r2 q(4)] in auto)
  moreover have "insert_sentinel_loop s (TSExp n # ops) copy i sub a =
      insert_sentinel_loop s ops (q # copy) (i - 1 - of_nat (csize r) - of_nat (csize l)) sub a'"
    unfolding insert_sentinel_open [OF i0 node] q1(1) q2(1) by (rule insert_sentinel_join [OF q(1)])
  ultimately show ?case using q(2,3) extends_trans [OF extends_trans [OF q1(5) q2(5)] q(4)]
    by (intro exI [of _ q] exI [of _ a']) (simp add: algebra_simps)
qed

text \<open>The node with the number of the index is replaced by the sentinel.\<close>

definition punched :: "NodePtr \<Rightarrow> htree \<Rightarrow> clvm \<Rightarrow> NodePtr \<Rightarrow> NodePtr \<Rightarrow> Allocator \<Rightarrow> bool" where
  "punched s h u q m a \<longleftrightarrow> (\<exists>v. rep a q v) \<and> hrep a (Some s) q h \<and> free a (Some s) m u"

lemma punched_extends: "punched s h u q m a \<Longrightarrow> extends a a' \<Longrightarrow> punched s h u q m a'"
  unfolding punched_def using rep_extends hrep_extends free_extends by blast

lemma punched_pair:
  assumes "tight a" "room h k (Suc p) a" "sentinel_ok a s"
    "punched s (fst hu) u q1 m a" "free a (Some s) q2 t"
  shows "\<exists>q a'. new_pair a q2 q1 = (Ok q, a') \<and> punched s (Branch (whole t) (fst hu)) u q m a' \<and> tight a' \<and> room h k p a' \<and> extends a a'"
    "\<exists>q a'. new_pair a q1 q2 = (Ok q, a') \<and> punched s (Branch (fst hu) (whole t)) u q m a' \<and> tight a' \<and> room h k p a' \<and> extends a a'"
proof -
  obtain v where v: "rep a q1 v" "hrep a (Some s) q1 (fst hu)" "free a (Some s) m u" using assms(4) by (auto simp: punched_def)
  show "\<exists>q a'. new_pair a q2 q1 = (Ok q, a') \<and> punched s (Branch (whole t) (fst hu)) u q m a' \<and> tight a' \<and> room h k p a' \<and> extends a a'"
  proof (rule copy_pair [OF assms(1,2) free_rep [OF assms(5)] v(1), of s])
    fix q a'
    assume q: "new_pair a q2 q1 = (Ok q, a')" "tight a'" "room h k p a'" "extends a a'" "rep a' q (CPair t v)"
      "pfirst a' q = q2" "prest a' q = q1" "sentinel_ok a s \<longrightarrow> q \<noteq> s"
    have "hrep a' (Some s) q (Branch (whole t) (fst hu))"
      by (rule hrep_branch) (use q assms(3) hrep_extends [OF v(2) q(4)] hrep_extends [OF free_hrep [OF assms(5)] q(4)] in auto)
    then show ?thesis using q free_extends [OF v(3) q(4)] by (auto simp: punched_def)
  qed
  show "\<exists>q a'. new_pair a q1 q2 = (Ok q, a') \<and> punched s (Branch (fst hu) (whole t)) u q m a' \<and> tight a' \<and> room h k p a' \<and> extends a a'"
  proof (rule copy_pair [OF assms(1,2) v(1) free_rep [OF assms(5)], of s])
    fix q a'
    assume q: "new_pair a q1 q2 = (Ok q, a')" "tight a'" "room h k p a'" "extends a a'" "rep a' q (CPair v t)"
      "pfirst a' q = q1" "prest a' q = q2" "sentinel_ok a s \<longrightarrow> q \<noteq> s"
    have "hrep a' (Some s) q (Branch (fst hu) (whole t))"
      by (rule hrep_branch) (use q assms(3) hrep_extends [OF v(2) q(4)] hrep_extends [OF free_hrep [OF assms(5)] q(4)] in auto)
    then show ?thesis using q free_extends [OF v(3) q(4)] by (auto simp: punched_def)
  qed
qed

lemma neg_not_index:
  assumes "0 < w" "w + j < 2 ^ 32"
  shows "- of_nat w \<noteq> (of_nat j :: i32)"
proof
  assume "- of_nat w = (of_nat j :: i32)"
  then have "(of_nat (w + j) :: i32) = of_nat w + - of_nat w" by simp
  then have "(of_nat (w + j) :: i32) = 0" by simp
  then have "unat (of_nat (w + j) :: i32) = 0" by simp
  then show False using assms by (simp add: unat_of_nat del: of_nat_add)
qed

lemma insert_sentinel_here:
  assumes "free a (Some s) n t" "sentinel_ok a s" "tight a" "room h k (csize t + p) a"
  shows "\<exists>q m a' w. insert_sentinel_loop s (TSExp n # ops) copy 0 sub a =
      insert_sentinel_loop s ops (q # copy) (- of_nat w) (Some m) a' \<and> 0 < w \<and> w \<le> csize t \<and>
    punched s Hole t q m a' \<and> tight a' \<and> room h k p a' \<and> extends a a'"
proof -
  obtain l r where "rep a s (CPair l r)" using assms(2) by (auto simp: sentinel_ok_def)
  then have "punched s Hole t s n a" using assms(1) by (auto simp: punched_def intro: hrep_hole)
  moreover have "insert_sentinel_loop s (TSExp n # ops) copy 0 sub a = insert_sentinel_loop s ops (s # copy) (- of_nat 1) (Some n) a"
    by (subst insert_sentinel_loop.simps) simp
  moreover have "room h k p a" by (rule room_mono [OF assms(4)]) simp_all
  moreover have "1 \<le> csize t" using csize_pos [of t] by linarith
  ultimately show ?thesis using assms(3) by (metis extends_refl zero_less_one)
qed

lemma insert_sentinel_hit:
  assumes "free a (Some s) n t" "sentinel_ok a s" "tight a" "room h k (csize t + p) a" "j < csize t" "csize t < 2 ^ 31"
  shows "\<exists>q m a' w. insert_sentinel_loop s (TSExp n # ops) copy (of_nat j) sub a =
      insert_sentinel_loop s ops (q # copy) (- of_nat w) (Some m) a' \<and> 0 < w \<and> w \<le> csize t \<and>
    punched s (fst (punch j t)) (snd (punch j t)) q m a' \<and> tight a' \<and> room h k p a' \<and> extends a a'"
  using assms
proof (induction t arbitrary: a n p j ops copy rule: clvm.induct)
  case (CAtom bs)
  then show ?case using insert_sentinel_here [OF CAtom.prems(1-4)] by simp
next
  case (CPair l r)
  note node = free_rep [OF CPair.prems(1)]
  have sub: "free a (Some s) (pfirst a n) l" "free a (Some s) (prest a n) r" using CPair.prems(1) by (auto elim: free_CPairE)
  have room: "room h k (csize r + (csize l + Suc p)) a" by (rule room_mono [OF CPair.prems(4)]) simp_all
  consider (here) "j = 0" | (right) "0 < j" "j \<le> csize r" | (left) "csize r < j" by linarith
  then show ?case
  proof cases
    case here
    then show ?thesis using insert_sentinel_here [OF CPair.prems(1-4)] by simp
  next
    case right
    have j: "of_nat j \<noteq> (0 :: i32)" "of_nat j - 1 = (of_nat (j - 1) :: i32)" "j - 1 < csize r"
      using right CPair.prems(6) neg_not_index [of j 0] by (auto simp: of_nat_diff)
    from CPair.IH(2) [OF sub(2) CPair.prems(2,3) room j(3), of "TSExp (pfirst a n) # TCons # ops" copy] CPair.prems(6)
    obtain q1 m a1 w where q1: "insert_sentinel_loop s (TSExp (prest a n) # TSExp (pfirst a n) # TCons # ops) copy (of_nat (j - 1)) sub a =
          insert_sentinel_loop s (TSExp (pfirst a n) # TCons # ops) (q1 # copy) (- of_nat w) (Some m) a1" "0 < w" "w \<le> csize r"
        "punched s (fst (punch (j - 1) r)) (snd (punch (j - 1) r)) q1 m a1" "tight a1" "room h k (csize l + Suc p) a1" "extends a a1"
      by auto
    have "\<forall>i < csize l. - of_nat w \<noteq> (of_nat i :: i32)" using neg_not_index [OF q1(2)] q1(3) CPair.prems(6) by auto
    from insert_sentinel_skip [OF free_extends [OF sub(1) q1(7)] sentinel_ok_extends [OF CPair.prems(2) q1(7)] q1(5,6) this, of "TCons # ops" "q1 # copy"]
    obtain q2 a2 where q2: "insert_sentinel_loop s (TSExp (pfirst a n) # TCons # ops) (q1 # copy) (- of_nat w) (Some m) a1 =
          insert_sentinel_loop s (TCons # ops) (q2 # q1 # copy) (- of_nat w - of_nat (csize l)) (Some m) a2"
        "free a2 (Some s) q2 l" "tight a2" "room h k (Suc p) a2" "extends a1 a2" by blast
    have ok2: "sentinel_ok a2 s" using CPair.prems(2) sentinel_ok_extends q1(7) q2(5) by blast
    from punched_pair(1) [OF q2(3,4) ok2 punched_extends [OF q1(4) q2(5)] q2(2)] obtain q a' where
      q: "new_pair a2 q2 q1 = (Ok q, a')" "punched s (Branch (whole l) (fst (punch (j - 1) r))) (snd (punch (j - 1) r)) q m a'"
        "tight a'" "room h k p a'" "extends a2 a'" by blast
    have "insert_sentinel_loop s (TSExp n # ops) copy (of_nat j) sub a =
        insert_sentinel_loop s ops (q # copy) (- of_nat w - of_nat (csize l)) (Some m) a'"
      unfolding insert_sentinel_open [OF j(1) node] j(2) q1(1) q2(1) by (rule insert_sentinel_join [OF q(1)])
    then show ?thesis using right q q1(2,3) extends_trans [OF extends_trans [OF q1(7) q2(5)] q(5)]
      by (intro exI [of _ q] exI [of _ m] exI [of _ a'] exI [of _ "w + csize l"]) simp
  next
    case left
    let ?j = "j - 1 - csize r"
    have j: "of_nat j \<noteq> (0 :: i32)" "of_nat j - 1 - of_nat (csize r) = (of_nat ?j :: i32)" "?j < csize l"
      using left CPair.prems(5,6) neg_not_index [of j 0] by (auto simp: of_nat_diff)
    have "\<forall>i < csize r. of_nat j - 1 \<noteq> (of_nat i :: i32)"
    proof (intro allI impI notI)
      fix i
      assume i: "i < csize r" "of_nat j - 1 = (of_nat i :: i32)"
      then have "of_nat j = (of_nat (Suc i) :: i32)" by (simp add: algebra_simps)
      then have "unat (of_nat j :: i32) = unat (of_nat (Suc i) :: i32)" by simp
      then show False using i(1) left CPair.prems(5,6) by (simp add: unat_of_nat del: of_nat_Suc)
    qed
    from insert_sentinel_skip [OF sub(2) CPair.prems(2,3) room this, of "TSExp (pfirst a n) # TCons # ops" copy]
    obtain q1 a1 where q1: "insert_sentinel_loop s (TSExp (prest a n) # TSExp (pfirst a n) # TCons # ops) copy (of_nat j - 1) sub a =
          insert_sentinel_loop s (TSExp (pfirst a n) # TCons # ops) (q1 # copy) (of_nat j - 1 - of_nat (csize r)) sub a1"
        "free a1 (Some s) q1 r" "tight a1" "room h k (csize l + Suc p) a1" "extends a a1" by blast
    have ok1: "sentinel_ok a1 s" using CPair.prems(2) sentinel_ok_extends q1(5) by blast
    from CPair.IH(1) [OF free_extends [OF sub(1) q1(5)] ok1 q1(3,4) j(3), of "TCons # ops" "q1 # copy"] CPair.prems(6)
    obtain q2 m a2 w where q2: "insert_sentinel_loop s (TSExp (pfirst a n) # TCons # ops) (q1 # copy) (of_nat ?j) sub a1 =
          insert_sentinel_loop s (TCons # ops) (q2 # q1 # copy) (- of_nat w) (Some m) a2" "0 < w" "w \<le> csize l"
        "punched s (fst (punch ?j l)) (snd (punch ?j l)) q2 m a2" "tight a2" "room h k (Suc p) a2" "extends a1 a2"
      by auto
    from punched_pair(2) [OF q2(5,6) sentinel_ok_extends [OF ok1 q2(7)] q2(4) free_extends [OF q1(2) q2(7)]] obtain q a' where
      q: "new_pair a2 q2 q1 = (Ok q, a')" "punched s (Branch (fst (punch ?j l)) (whole r)) (snd (punch ?j l)) q m a'"
        "tight a'" "room h k p a'" "extends a2 a'" by blast
    have "insert_sentinel_loop s (TSExp n # ops) copy (of_nat j) sub a =
        insert_sentinel_loop s ops (q # copy) (- of_nat w) (Some m) a'"
      unfolding insert_sentinel_open [OF j(1) node] q1(1) j(2) q2(1) by (rule insert_sentinel_join [OF q(1)])
    then show ?thesis using left q q2(2,3) extends_trans [OF extends_trans [OF q1(5) q2(7)] q(5)]
      by (intro exI [of _ q] exI [of _ m] exI [of _ a'] exI [of _ w]) simp
  qed
qed

lemma sint_index: "- (2 ^ 31) \<le> k \<Longrightarrow> k < 2 ^ 31 \<Longrightarrow> sint (of_int k :: i32) = k"
proof -
  assume k: "- (2 ^ 31) \<le> k" "k < 2 ^ 31"
  have "sint (word_of_int k :: i32) = signed_take_bit (LENGTH(32) - 1) k" by (rule sint_sbintrunc')
  also have "\<dots> = k" using k by (intro signed_take_bit_int_eq_self) auto
  finally show ?thesis .
qed

lemma insert_sentinel_loop_Nil: "insert_sentinel_loop s [] copy i sub a = Some (Ok (copy, i, sub), a)"
  by (subst insert_sentinel_loop.simps) simp

text \<open>Every node of the tree is a cut-point, and there are no others.\<close>

lemma insert_sentinel_split:
  assumes "free a (Some s) n t" "sentinel_ok a s" "tight a" "room h k (csize t + p) a" "j < csize t" "csize t < 2 ^ 31"
  obtains q m a' where "insert_sentinel a n (of_nat j) s = Some (Ok (Some (q, m)), a')"
    "punched s (fst (punch j t)) (snd (punch j t)) q m a'" "tight a'" "room h k p a'" "extends a a'"
proof -
  from insert_sentinel_hit [OF assms, of "[]" "[]" None] obtain q m a' w where
    w: "insert_sentinel_loop s [TSExp n] [] (of_nat j) None a = Some (Ok ([q], - of_nat w, Some m), a')" "0 < w" "w \<le> csize t"
      "punched s (fst (punch j t)) (snd (punch j t)) q m a'" "tight a'" "room h k p a'" "extends a a'"
    unfolding insert_sentinel_loop_Nil by blast
  have "\<not> 0 \<le> sint (- of_nat w :: i32)" using sint_index [of "- int w"] w(2,3) assms(6) by simp
  then show thesis using w(1) by (intro that [OF _ w(4-7)]) (simp add: insert_sentinel_def)
qed

lemma insert_sentinel_end:
  assumes "free a (Some s) n t" "sentinel_ok a s" "tight a" "room h k (csize t + p) a" "csize t \<le> j" "j < 2 ^ 31"
  obtains a' where "insert_sentinel a n (of_nat j) s = Some (Ok None, a')" "tight a'" "room h k p a'" "extends a a'"
proof -
  have "of_nat j \<noteq> (of_nat i :: i32)" if "i < csize t" for i
  proof
    assume "of_nat j = (of_nat i :: i32)"
    then have "unat (of_nat j :: i32) = unat (of_nat i :: i32)" by simp
    then show False using that assms(5,6) by (simp add: unat_of_nat)
  qed
  with insert_sentinel_skip [OF assms(1-4), of "of_nat j" "[]" "[]" None] obtain q a' where
    q: "insert_sentinel_loop s [TSExp n] [] (of_nat j) None a = Some (Ok ([q], of_nat j - of_nat (csize t), None), a')"
      "tight a'" "room h k p a'" "extends a a'"
    unfolding insert_sentinel_loop_Nil by blast
  have "sint (of_nat j - of_nat (csize t) :: i32) = int (j - csize t)"
    using sint_index [of "int (j - csize t)"] assms(5,6) by (simp add: of_nat_diff)
  then show thesis using q(1) by (intro that [OF _ q(2-4)]) (simp add: insert_sentinel_def)
qed

end
