(* ===== verification/MakeTree.thy ===== *)
theory MakeTree
  imports FuzzTrees
begin

text \<open>
  The random trees of the fuzzing targets: \<open>src/fuzz/fuzz_targets/make_tree.rs\<close>. The source
  of the choices, \<open>arbitrary::Unstructured\<close>, is a parameter; the locale states what its
  documentation says: it only consumes bytes, a value of an enumeration takes at least one,
  the bytes of a vector are among those consumed, and \<open>choose\<close> picks an element of the slice.
  The locale is interpreted on an instance that reads its choices from a byte string. The
  lemmas show that the generator returns a value of the allocator and never panics when the
  allocator has room for as many nodes as there are bytes.
\<close>

section \<open>The operations\<close>

datatype NodeType = NtPair | NtBytes | NtU8 | NtU16 | NtU32 | NtPrevious

datatype MakeOp = MPair bool | MSubTree

text \<open>A call that returns \<open>Err\<close> gives \<open>None\<close>; \<open>choose\<close> gives the index of the element.\<close>

record 'u unstructured_api =
  us_new :: "bytes \<Rightarrow> 'u"
  us_len :: "'u \<Rightarrow> nat"
  us_is_empty :: "'u \<Rightarrow> bool"
  us_node_type :: "'u \<Rightarrow> NodeType option \<times> 'u"
  us_bool :: "'u \<Rightarrow> bool option \<times> 'u"
  us_bytes :: "'u \<Rightarrow> bytes option \<times> 'u"
  us_u8 :: "'u \<Rightarrow> u8 option \<times> 'u"
  us_u16 :: "'u \<Rightarrow> 16 word option \<times> 'u"
  us_u32 :: "'u \<Rightarrow> u32 option \<times> 'u"
  us_choose :: "nat \<Rightarrow> 'u \<Rightarrow> nat option \<times> 'u"

text \<open>
  The variables of the loop. The counters are \<open>i64\<close> in the code; they start at most at
  \<open>60_000_000\<close> and change by at most two in a turn, so they are plain integers here.
\<close>

record 'u make_state =
  mk_previous :: "NodePtr list"
  mk_values :: "NodePtr list"
  mk_sub_trees :: int
  mk_max_pairs :: int
  mk_max_atoms :: int
  mk_alloc :: Allocator
  mk_u :: 'u

definition push_value :: "NodePtr \<Rightarrow> 'u make_state \<Rightarrow> 'u make_state" where
  "push_value n s = s\<lparr> mk_values := n # mk_values s \<rparr>"

definition push_previous :: "NodePtr \<Rightarrow> 'u make_state \<Rightarrow> 'u make_state" where
  "push_previous n s = s\<lparr> mk_previous := mk_previous s @ [n] \<rparr>"

definition make_pair :: "bool \<Rightarrow> 'u make_state \<Rightarrow> 'u make_state infallible" where
  "make_pair swap s =
     (case mk_values s of
        left # right # vals \<Rightarrow>
          (let (r, a) = (if swap then new_pair (mk_alloc s) left right else new_pair (mk_alloc s) right left) in
           bindR (unwrap r) (\<lambda>pair. Ok (push_previous pair (push_value pair (s\<lparr> mk_values := vals, mk_alloc := a \<rparr>)))))
      | _ \<Rightarrow> Panic ''internal error, empty stack'')"

definition push_chosen :: "'u unstructured_api \<Rightarrow> 'u make_state \<Rightarrow> 'u make_state" where
  "push_chosen U s =
     (let (i, u) = us_choose U (length (mk_previous s)) (mk_u s) in
      push_value (case i of Some i \<Rightarrow> mk_previous s ! i | None \<Rightarrow> node_NIL) (s\<lparr> mk_u := u \<rparr>))"

text \<open>Pushing a new atom, or nil when there was no value to make it of.\<close>

definition push_new :: "('v option \<times> 'u) \<Rightarrow> (Allocator \<Rightarrow> 'v \<Rightarrow> NodePtr eval \<times> Allocator) \<Rightarrow> bool \<Rightarrow> 'u make_state \<Rightarrow> 'u make_state infallible" where
  "push_new m new remember s =
     (case m of
        (None, u) \<Rightarrow> Ok (push_value node_NIL (s\<lparr> mk_u := u \<rparr>))
      | (Some val, u) \<Rightarrow>
          (let (r, a) = new (mk_alloc s) val in
           bindR (unwrap r) (\<lambda>n.
           Ok (push_value n ((if remember then push_previous n else id) (s\<lparr> mk_u := u, mk_alloc := a \<rparr>))))))"

definition make_sub_tree :: "'b bigint_api_scheme \<Rightarrow> 'u unstructured_api \<Rightarrow> 'u make_state \<Rightarrow> (MakeOp list \<times> 'u make_state) infallible" where
  "make_sub_tree B U s =
     (let s = s\<lparr> mk_sub_trees := mk_sub_trees s - 1 \<rparr> in
      if us_is_empty U (mk_u s) then Ok ([], push_value node_NIL s)
      else
        let (t, u) = us_node_type U (mk_u s); s = s\<lparr> mk_u := u \<rparr> in
        case t of
          None \<Rightarrow> Ok ([], push_value node_NIL s)
        | Some NtPair \<Rightarrow>
            if mk_sub_trees s > int (us_len U u) \<or> mk_max_pairs s \<le> 0 \<or> mk_max_atoms s \<le> 0 then Ok ([], push_chosen U s)
            else
              let (b, u) = us_bool U u in
              Ok ([MSubTree, MSubTree, MPair (b = Some True)],
                s\<lparr> mk_u := u, mk_sub_trees := mk_sub_trees s + 2, mk_max_pairs := mk_max_pairs s - 1,
                   mk_max_atoms := mk_max_atoms s - 2 \<rparr>)
        | Some NtBytes \<Rightarrow> bindR (push_new (us_bytes U u) new_atom True s) (\<lambda>s. Ok ([], s))
        | Some NtU8 \<Rightarrow> bindR (push_new (us_u8 U u) (\<lambda>a val. new_small_number a (ucast val)) False s) (\<lambda>s. Ok ([], s))
        | Some NtU16 \<Rightarrow> bindR (push_new (us_u16 U u) (\<lambda>a val. new_small_number a (ucast val)) False s) (\<lambda>s. Ok ([], s))
        | Some NtU32 \<Rightarrow> bindR (push_new (us_u32 U u) (\<lambda>a val. new_number B a (uint val)) False s) (\<lambda>s. Ok ([], s))
        | Some NtPrevious \<Rightarrow> Ok ([], push_chosen U s))"

partial_function (option) make_tree_loop ::
    "'b bigint_api_scheme \<Rightarrow> 'u unstructured_api \<Rightarrow> MakeOp list \<Rightarrow> 'u make_state \<Rightarrow> 'u make_state infallible option" where
  "make_tree_loop B U ops s =
     (case ops of
        [] \<Rightarrow> Some (Ok s)
      | MPair swap # ops \<Rightarrow> thenO (make_pair swap s) (make_tree_loop B U ops)
      | MSubTree # ops \<Rightarrow> thenO (make_sub_tree B U s) (\<lambda>(new_ops, s). make_tree_loop B U (new_ops @ ops) s))"

definition make_tree_limits ::
    "'b bigint_api_scheme \<Rightarrow> 'u unstructured_api \<Rightarrow> Allocator \<Rightarrow> 'u \<Rightarrow> int \<Rightarrow> int \<Rightarrow> (NodePtr \<times> Allocator \<times> 'u) infallible option" where
  "make_tree_limits B U a u max_pairs max_atoms =
     bindO (make_tree_loop B U [MSubTree]
         \<lparr> mk_previous = [], mk_values = [], mk_sub_trees = 1, mk_max_pairs = max_pairs, mk_max_atoms = max_atoms,
           mk_alloc = a, mk_u = u \<rparr>)
       (\<lambda>s. Some (case mk_values s of
          [n] \<Rightarrow> Ok (n, mk_alloc s, mk_u s)
        | _ \<Rightarrow> Panic ''assertion failed: value_stack.len() == 1''))"

definition make_tree :: "'b bigint_api_scheme \<Rightarrow> 'u unstructured_api \<Rightarrow> Allocator \<Rightarrow> 'u \<Rightarrow> (NodePtr \<times> Allocator \<times> 'u) infallible option" where
  "make_tree B U a u = make_tree_limits B U a u 60000000 60000000"

section \<open>The source of choices\<close>

locale unstructured_laws =
  fixes U :: "'u unstructured_api"
  assumes new_len: "us_len U (us_new U data) = length data"
    and is_empty: "us_is_empty U u \<longleftrightarrow> us_len U u = 0"
    and node_type_consumes: "us_len U u \<noteq> 0 \<Longrightarrow> us_len U (snd (us_node_type U u)) < us_len U u"
    and bool_len: "us_len U (snd (us_bool U u)) \<le> us_len U u"
    and bytes_len: "us_bytes U u = (v, u') \<Longrightarrow> length (case v of Some bs \<Rightarrow> bs | None \<Rightarrow> []) + us_len U u' \<le> us_len U u"
    and u8_len: "us_len U (snd (us_u8 U u)) \<le> us_len U u"
    and u16_len: "us_len U (snd (us_u16 U u)) \<le> us_len U u"
    and u32_len: "us_len U (snd (us_u32 U u)) \<le> us_len U u"
    and choose_len: "us_len U (snd (us_choose U k u)) \<le> us_len U u"
    and choose_index: "fst (us_choose U k u) = Some i \<Longrightarrow> i < k"

text \<open>An instance that takes one byte for every choice and reads vectors to the end.\<close>

definition byte_source :: "bytes unstructured_api" where
  "byte_source =
     \<lparr> us_new = (\<lambda>data. data), us_len = length, us_is_empty = (\<lambda>u. u = []),
       us_node_type = (\<lambda>u. (case u of [] \<Rightarrow> None | b # _ \<Rightarrow>
         Some ([NtPair, NtBytes, NtU8, NtU16, NtU32, NtPrevious] ! (unat b mod 6)), tl u)),
       us_bool = (\<lambda>u. (case u of [] \<Rightarrow> None | b # _ \<Rightarrow> Some (odd (unat b)), tl u)),
       us_bytes = (\<lambda>u. (Some u, [])),
       us_u8 = (\<lambda>u. (case u of [] \<Rightarrow> None | b # _ \<Rightarrow> Some b, tl u)),
       us_u16 = (\<lambda>u. (case u of [] \<Rightarrow> None | b # _ \<Rightarrow> Some (ucast b), tl u)),
       us_u32 = (\<lambda>u. (case u of [] \<Rightarrow> None | b # _ \<Rightarrow> Some (ucast b), tl u)),
       us_choose = (\<lambda>k u. (case u of [] \<Rightarrow> None | b # _ \<Rightarrow> if k = 0 then None else Some (unat b mod k), tl u)) \<rparr>"

interpretation byte_source: unstructured_laws byte_source
  by unfold_locales (auto simp: byte_source_def split: list.splits if_splits)

section \<open>The generator returns a value\<close>

text \<open>
  The operations left and the length of the value stack fit: every subtree adds a value,
  every pair needs two and leaves one, and one is left when the operations are done.
\<close>

fun ops_fit :: "MakeOp list \<Rightarrow> nat \<Rightarrow> bool" where
  "ops_fit [] k \<longleftrightarrow> k = 1"
| "ops_fit (MSubTree # ops) k \<longleftrightarrow> ops_fit ops (Suc k)"
| "ops_fit (MPair _ # ops) k \<longleftrightarrow> 2 \<le> k \<and> ops_fit ops (k - 1)"

definition pairs_left :: "MakeOp list \<Rightarrow> nat" where
  "pairs_left ops = length (filter (\<lambda>x. x \<noteq> MSubTree) ops)"

lemma pairs_left_simps [simp]:
  "pairs_left [] = 0" "pairs_left (MSubTree # ops) = pairs_left ops" "pairs_left (MPair b # ops) = Suc (pairs_left ops)"
  by (simp_all add: pairs_left_def)

text \<open>A node of the generator: a value whose atoms have at most \<open>L\<close> bytes.\<close>

definition short_node :: "nat \<Rightarrow> Allocator \<Rightarrow> NodePtr \<Rightarrow> bool" where
  "short_node L a n \<longleftrightarrow> (\<exists>t. rep a n t \<and> atoms_sat (\<lambda>bs. length bs \<le> L) t)"

lemma short_node_extends: "short_node L a n \<Longrightarrow> extends a a' \<Longrightarrow> short_node L a' n"
  unfolding short_node_def using rep_extends by blast

lemma short_node_NIL [simp]: "short_node L a node_NIL"
  unfolding short_node_def by (intro exI [of _ "CAtom []"]) simp

definition make_ok :: "nat \<Rightarrow> Allocator \<Rightarrow> 'u make_state \<Rightarrow> bool" where
  "make_ok L a0 s \<longleftrightarrow>
     tight (mk_alloc s) \<and> extends a0 (mk_alloc s) \<and>
     (\<forall>n \<in> set (mk_previous s) \<union> set (mk_values s). short_node L (mk_alloc s) n)"

definition make_room :: "'u unstructured_api \<Rightarrow> nat \<Rightarrow> nat \<Rightarrow> nat \<Rightarrow> MakeOp list \<Rightarrow> 'u make_state \<Rightarrow> bool" where
  "make_room U h k p ops s \<longleftrightarrow>
     room (5 * us_len U (mk_u s) + h) (us_len U (mk_u s) + k) (us_len U (mk_u s) + pairs_left ops + p) (mk_alloc s)"

lemma make_ok_push: "make_ok L a0 s \<Longrightarrow> short_node L (mk_alloc s) n \<Longrightarrow> make_ok L a0 (push_value n s)"
  by (auto simp: make_ok_def push_value_def)

lemma make_ok_previous: "make_ok L a0 s \<Longrightarrow> short_node L (mk_alloc s) n \<Longrightarrow> make_ok L a0 (push_previous n s)"
  by (auto simp: make_ok_def push_previous_def)

lemma make_ok_extends: "make_ok L a0 s \<Longrightarrow> tight a \<Longrightarrow> extends (mk_alloc s) a \<Longrightarrow> make_ok L a0 (s\<lparr> mk_alloc := a \<rparr>)"
  by (auto simp: make_ok_def intro: extends_trans short_node_extends)

lemma make_ok_u [simp]: "make_ok L a0 (s\<lparr> mk_u := u \<rparr>) \<longleftrightarrow> make_ok L a0 s"
  "make_ok L a0 (s\<lparr> mk_sub_trees := i \<rparr>) \<longleftrightarrow> make_ok L a0 s" "make_ok L a0 (s\<lparr> mk_max_pairs := i \<rparr>) \<longleftrightarrow> make_ok L a0 s"
  "make_ok L a0 (s\<lparr> mk_max_atoms := i \<rparr>) \<longleftrightarrow> make_ok L a0 s"
  by (simp_all add: make_ok_def)

lemma push_fields [simp]:
  "mk_u (push_value n s) = mk_u s" "mk_alloc (push_value n s) = mk_alloc s" "mk_values (push_value n s) = n # mk_values s"
  "mk_u (push_previous n s) = mk_u s" "mk_alloc (push_previous n s) = mk_alloc s" "mk_values (push_previous n s) = mk_values s"
  by (simp_all add: push_value_def push_previous_def)

text \<open>An operation that leaves one more value and no operation.\<close>

definition pushes :: "nat \<Rightarrow> Allocator \<Rightarrow> nat \<Rightarrow> nat \<Rightarrow> nat \<Rightarrow> 'u \<Rightarrow> 'u make_state \<Rightarrow> 'u make_state \<Rightarrow> bool" where
  "pushes L a0 h k p u s s' \<longleftrightarrow>
     make_ok L a0 s' \<and> room h k p (mk_alloc s') \<and> mk_u s' = u \<and> length (mk_values s') = Suc (length (mk_values s))"

lemma push_new_pushes:
  assumes "make_ok L a0 s" "room h k p (mk_alloc s)"
    "\<And>val. fst m = Some val \<Longrightarrow> \<exists>bs. made (mk_alloc s) h k p (CAtom bs) (new (mk_alloc s) val) \<and> length bs \<le> L"
  shows "\<exists>s'. push_new m new remember s = Ok s' \<and> pushes L a0 h k p (snd m) s s'"
proof (cases "fst m")
  case None
  then show ?thesis using assms(1,2) by (cases m) (auto simp: push_new_def pushes_def intro!: make_ok_push)
next
  case (Some val)
  then obtain bs where bs: "made (mk_alloc s) h k p (CAtom bs) (new (mk_alloc s) val)" "length bs \<le> L" using assms(3) by blast
  from bs(1) obtain q a' where q: "new (mk_alloc s) val = (Ok q, a')" "rep a' q (CAtom bs)" "tight a'" "room h k p a'"
      "extends (mk_alloc s) a'" by (rule madeE)
  let ?s = "s\<lparr> mk_u := snd m, mk_alloc := a' \<rparr>"
  have short: "short_node L a' q" using q(2) bs(2) by (auto simp: short_node_def)
  have "make_ok L a0 ?s" using make_ok_extends [of L a0 "s\<lparr> mk_u := snd m \<rparr>" a'] assms(1) q(3,5) by simp
  then have "make_ok L a0 (push_value q ((if remember then push_previous q else id) ?s))"
    using short by (auto intro!: make_ok_push make_ok_previous)
  then show ?thesis using Some q by (cases m) (auto simp: push_new_def pushes_def)
qed

lemma make_pair_pushes:
  assumes "make_ok L a0 s" "room h k (Suc p) (mk_alloc s)" "2 \<le> length (mk_values s)"
  shows "\<exists>s'. make_pair swap s = Ok s' \<and> make_ok L a0 s' \<and> room h k p (mk_alloc s') \<and> mk_u s' = mk_u s \<and>
    length (mk_values s') = length (mk_values s) - 1"
proof -
  obtain x y vals where vs: "mk_values s = x # y # vals" using assms(3) by (auto simp: Suc_le_length_iff numeral_2_eq_2)
  have nodes: "short_node L (mk_alloc s) x" "short_node L (mk_alloc s) y" and t: "tight (mk_alloc s)"
    using assms(1) by (auto simp: make_ok_def vs)
  let ?l = "if swap then x else y" and ?r = "if swap then y else x"
  obtain l r where lr: "rep (mk_alloc s) ?l l" "rep (mk_alloc s) ?r r" "atoms_sat (\<lambda>bs. length bs \<le> L) l" "atoms_sat (\<lambda>bs. length bs \<le> L) r"
    using nodes that by (cases swap) (auto simp: short_node_def)
  obtain q a' where q: "new_pair (mk_alloc s) ?l ?r = (Ok q, a')" "rep a' q (CPair l r)" "tight a'" "room h k p a'" "extends (mk_alloc s) a'"
    by (rule madeE [OF made_new_pair [OF t assms(2) lr(1,2)]])
  have short: "short_node L a' q" unfolding short_node_def using q(2) lr(3,4) by (intro exI [of _ "CPair l r"]) simp
  have "make_ok L a0 (s\<lparr> mk_values := vals \<rparr>)" using assms(1) by (simp add: make_ok_def vs)
  from make_ok_extends [OF this q(3)] q(5) have "make_ok L a0 (s\<lparr> mk_values := vals, mk_alloc := a' \<rparr>)" by simp
  then have "make_ok L a0 (push_previous q (push_value q (s\<lparr> mk_values := vals, mk_alloc := a' \<rparr>)))"
    using short by (auto intro!: make_ok_push make_ok_previous)
  moreover have "make_pair swap s = Ok (push_previous q (push_value q (s\<lparr> mk_values := vals, mk_alloc := a' \<rparr>)))"
    using q(1) by (cases swap) (simp_all add: make_pair_def vs)
  ultimately show ?thesis using q(4) by (auto simp: vs)
qed

lemma unat_ucast_less: "unat w < b \<Longrightarrow> unat (ucast w :: u32) < b"
  unfolding unsigned_ucast_eq by (rule le_less_trans [OF take_bit_nat_less_eq_self])

lemma length_u32_bytes: "length (int_bytes (uint (w :: u32))) \<le> 5"
  by (simp add: len_for_value_eq [symmetric] len_for_value_def)

context unstructured_laws
begin

lemma push_chosen_pushes:
  assumes "make_ok L a0 s" "room h k p (mk_alloc s)"
  shows "pushes L a0 h k p (snd (us_choose U (length (mk_previous s)) (mk_u s))) s (push_chosen U s)"
proof -
  obtain i u where c: "us_choose U (length (mk_previous s)) (mk_u s) = (i, u)" by fastforce
  have "short_node L (mk_alloc s) (case i of Some i \<Rightarrow> mk_previous s ! i | None \<Rightarrow> node_NIL)"
    using assms(1) choose_index [of "length (mk_previous s)" "mk_u s"] c by (cases i) (auto simp: make_ok_def)
  then show ?thesis using assms c make_ok_push [of L a0 "s\<lparr> mk_u := u \<rparr>"] by (simp add: push_chosen_def pushes_def)
qed

lemma make_sub_tree_step:
  assumes B: "bigint_laws B" and ok: "make_ok L a0 s" and room: "make_room U h k p (MSubTree # ops) s"
    and L: "us_len U (mk_u s) \<le> L" "5 \<le> L"
  obtains (leaf) s' where "make_sub_tree B U s = Ok ([], s')" "make_ok L a0 s'" "make_room U h k p ops s'"
      "us_len U (mk_u s') \<le> us_len U (mk_u s)" "length (mk_values s') = Suc (length (mk_values s))"
    | (branch) b s' where "make_sub_tree B U s = Ok ([MSubTree, MSubTree, MPair b], s')" "make_ok L a0 s'"
      "make_room U h k p (MSubTree # MSubTree # MPair b # ops) s'" "us_len U (mk_u s') < us_len U (mk_u s)"
      "length (mk_values s') = length (mk_values s)"
proof (cases "us_len U (mk_u s) = 0")
  case True
  then show thesis using ok room
    by (intro leaf [of "push_value node_NIL (s\<lparr> mk_sub_trees := mk_sub_trees s - 1 \<rparr>)"])
      (auto simp: make_sub_tree_def is_empty make_room_def intro!: make_ok_push)
next
  case False
  obtain t u where tu: "us_node_type U (mk_u s) = (t, u)" by fastforce
  then have u: "us_len U u < us_len U (mk_u s)" using node_type_consumes [OF False] by simp
  let ?s = "s\<lparr> mk_sub_trees := mk_sub_trees s - 1, mk_u := u \<rparr>"
  let ?h = "5 * us_len U u + 5 + h" and ?k = "us_len U u + k" and ?p = "us_len U u + pairs_left ops + p"
  have ok': "make_ok L a0 ?s" using ok by simp
  have r: "room ?h (Suc ?k) (Suc ?p) (mk_alloc s)" using room u by (auto simp: make_room_def elim: room_mono)
  have fin: thesis if "make_sub_tree B U s = Ok ([], s')" "pushes L a0 (5 * us_len U u' + h) ?k ?p u' ?s s'" "us_len U u' \<le> us_len U u" for s' u'
    using that u by (intro leaf [of s']) (auto simp: pushes_def make_room_def elim: room_mono)
  have tight: "tight (mk_alloc s)" using ok by (simp add: make_ok_def)
  have new: thesis if "make_sub_tree B U s = bindR (push_new m new rem ?s) (\<lambda>s. Ok ([], s))" "us_len U (snd m) \<le> us_len U u"
      "\<And>val. fst m = Some val \<Longrightarrow>
        \<exists>bs. made (mk_alloc s) (5 * us_len U (snd m) + h) ?k ?p (CAtom bs) (new (mk_alloc s) val) \<and> length bs \<le> L"
    for m :: "'v option \<times> 'u" and new rem
  proof -
    have "room (5 * us_len U (snd m) + h) ?k ?p (mk_alloc ?s)" using that(2) by (auto intro!: room_mono [OF r])
    from push_new_pushes [OF ok' this, of m new rem] that(3) obtain s' where
      "push_new m new rem ?s = Ok s'" "pushes L a0 (5 * us_len U (snd m) + h) ?k ?p (snd m) ?s s'" by auto
    then show thesis using fin [of s' "snd m"] that(1,2) by simp
  qed
  have chosen: thesis if "make_sub_tree B U s = Ok ([], push_chosen U ?s)"
  proof -
    have "room (5 * us_len U (snd (us_choose U (length (mk_previous ?s)) (mk_u ?s))) + h) ?k ?p (mk_alloc ?s)"
      using choose_len [of "length (mk_previous ?s)" u] by (auto intro!: room_mono [OF r])
    from fin [OF that push_chosen_pushes [OF ok' this]] choose_len show thesis by simp
  qed
  have small: "\<exists>bs. made (mk_alloc s) (5 * us_len U u' + h) ?k ?p (CAtom bs) (new_small_number (mk_alloc s) w) \<and> length bs \<le> L"
    if "unat w < 67108864" "us_len U u' \<le> us_len U u" for w u'
  proof -
    have "room (5 * us_len U u' + h) (Suc ?k) ?p (mk_alloc s)" by (rule room_mono [OF r]) (use that in auto)
    from made_new_small_number [OF tight this that(1)] show ?thesis using length_u32_bytes [of w] L by (blast intro: order_trans)
  qed
  have number: "\<exists>bs. made (mk_alloc s) (5 * us_len U u' + h) ?k ?p (CAtom bs) (new_number B (mk_alloc s) (uint w)) \<and> length bs \<le> L"
    if "us_len U u' \<le> us_len U u" for w :: u32 and u'
  proof -
    have "room (length (int_bytes (uint w)) + (5 * us_len U u' + h)) (Suc ?k) ?p (mk_alloc s)"
      by (rule room_mono [OF r]) (use that length_u32_bytes [of w] in auto)
    from made_new_number [OF B tight this] show ?thesis using length_u32_bytes [of w] L by (blast intro: order_trans)
  qed
  show thesis
  proof (cases t)
    case None
    show thesis by (rule fin [of "push_value node_NIL ?s" u])
      (use None False tu ok' r in \<open>auto simp: make_sub_tree_def is_empty pushes_def intro!: make_ok_push room_mono [OF r]\<close>)
  next
    case (Some ty)
    show thesis
    proof (cases ty)
      case NtPair
      show thesis
      proof (cases "mk_sub_trees ?s > int (us_len U u) \<or> mk_max_pairs ?s \<le> 0 \<or> mk_max_atoms ?s \<le> 0")
        case True
        then show thesis by (intro chosen) (use False Some NtPair tu in \<open>simp add: make_sub_tree_def is_empty\<close>)
      next
        case grow: False
        obtain b u2 where b: "us_bool U u = (b, u2)" by fastforce
        then have u2: "us_len U u2 \<le> us_len U u" using bool_len [of u] by simp
        show thesis
          by (rule branch [of "b = Some True" "?s\<lparr> mk_u := u2, mk_sub_trees := mk_sub_trees ?s + 2, mk_max_pairs := mk_max_pairs s - 1,
                   mk_max_atoms := mk_max_atoms s - 2 \<rparr>"])
            (use False Some NtPair tu grow b u u2 ok in \<open>auto simp: make_sub_tree_def is_empty make_room_def intro!: room_mono [OF r]\<close>)
      qed
    next
      case NtBytes
      obtain v u2 where v: "us_bytes U u = (v, u2)" by fastforce
      note len = bytes_len [OF v]
      show thesis
      proof (rule new [of "us_bytes U u" new_atom True])
        show "make_sub_tree B U s = bindR (push_new (us_bytes U u) new_atom True ?s) (\<lambda>s. Ok ([], s))"
          using False Some NtBytes tu by (simp add: make_sub_tree_def is_empty)
        show "us_len U (snd (us_bytes U u)) \<le> us_len U u" using len v by simp
        fix val
        assume "fst (us_bytes U u) = Some val"
        with v len have val: "length val + us_len U u2 \<le> us_len U u" by simp
        have "room (length val + (5 * us_len U u2 + h)) (Suc ?k) ?p (mk_alloc s)" by (rule room_mono [OF r]) (use val in auto)
        from made_new_atom [OF tight this] val u L
        show "\<exists>bs. made (mk_alloc s) (5 * us_len U (snd (us_bytes U u)) + h) ?k ?p (CAtom bs) (new_atom (mk_alloc s) val) \<and> length bs \<le> L"
          by (intro exI [of _ val]) (simp add: v)
      qed
    next
      case NtU8
      have "unat (ucast (val :: u8) :: u32) < 67108864" for val
        by (rule unat_ucast_less [OF less_le_trans [OF unat_u8_less]]) simp
      with small u8_len [of u] show thesis
        by (intro new [of "us_u8 U u" "\<lambda>a val. new_small_number a (ucast val)" False])
          (use False Some NtU8 tu in \<open>simp_all add: make_sub_tree_def is_empty\<close>)
    next
      case NtU16
      have "unat (ucast (val :: 16 word) :: u32) < 67108864" for val
        by (rule unat_ucast_less [OF less_le_trans [OF unsigned_less]]) simp
      with small u16_len [of u] show thesis
        by (intro new [of "us_u16 U u" "\<lambda>a val. new_small_number a (ucast val)" False])
          (use False Some NtU16 tu in \<open>simp_all add: make_sub_tree_def is_empty\<close>)
    next
      case NtU32
      show thesis
        by (rule new [of "us_u32 U u" "\<lambda>a val. new_number B a (uint val)" False])
          (use False Some NtU32 tu u32_len [of u] number in \<open>simp_all add: make_sub_tree_def is_empty\<close>)
    next
      case NtPrevious
      then show thesis by (intro chosen) (use False Some tu in \<open>simp add: make_sub_tree_def is_empty\<close>)
    qed
  qed
qed

text \<open>Every turn of the loop uses up bytes or operations.\<close>

lemma make_tree_loop_returns:
  assumes "bigint_laws B" "make_ok L a0 s" "make_room U h k p ops s" "us_len U (mk_u s) \<le> L" "5 \<le> L" "ops_fit ops (length (mk_values s))"
  shows "\<exists>s'. make_tree_loop B U ops s = Some (Ok s') \<and> make_ok L a0 s' \<and> make_room U h k p [] s' \<and> length (mk_values s') = 1"
  using assms(2-)
proof (induction "3 * us_len U (mk_u s) + length ops" arbitrary: ops s rule: less_induct)
  case less
  note IH = less.hyps and prems = less.prems
  consider "ops = []" | b ops' where "ops = MPair b # ops'" | ops' where "ops = MSubTree # ops'"
    by (metis MakeOp.exhaust list.exhaust)
  then show ?case
  proof cases
    case 1
    then show ?thesis using prems by (subst make_tree_loop.simps) simp
  next
    case (2 b ops')
    have "room (5 * us_len U (mk_u s) + h) (us_len U (mk_u s) + k) (Suc (us_len U (mk_u s) + pairs_left ops' + p)) (mk_alloc s)"
      using prems(2) by (simp add: make_room_def 2)
    from make_pair_pushes [OF prems(1) this, of b] prems(5) obtain s' where s': "make_pair b s = Ok s'" "make_ok L a0 s'"
        "make_room U h k p ops' s'" "mk_u s' = mk_u s" "length (mk_values s') = length (mk_values s) - 1"
      by (auto simp: 2 make_room_def)
    have "\<exists>s''. make_tree_loop B U ops' s' = Some (Ok s'') \<and> make_ok L a0 s'' \<and> make_room U h k p [] s'' \<and> length (mk_values s'') = 1"
      by (rule IH) (use 2 s' prems in simp_all)
    then show ?thesis by (subst make_tree_loop.simps) (simp add: 2 s'(1))
  next
    case (3 ops')
    from assms(1) prems(1) prems(2) [unfolded 3] prems(3,4) show ?thesis
    proof (cases rule: make_sub_tree_step)
      case (leaf s')
      have "\<exists>s''. make_tree_loop B U ops' s' = Some (Ok s'') \<and> make_ok L a0 s'' \<and> make_room U h k p [] s'' \<and> length (mk_values s'') = 1"
        by (rule IH) (use 3 leaf prems in simp_all)
      then show ?thesis by (subst make_tree_loop.simps) (simp add: 3 leaf(1))
    next
      case (branch b s')
      let ?ops = "MSubTree # MSubTree # MPair b # ops'"
      have "\<exists>s''. make_tree_loop B U ?ops s' = Some (Ok s'') \<and> make_ok L a0 s'' \<and> make_room U h k p [] s'' \<and> length (mk_values s'') = 1"
        by (rule IH) (use 3 branch prems in simp_all)
      then show ?thesis by (subst make_tree_loop.simps) (simp add: 3 branch(1))
    qed
  qed
qed

lemma make_tree_limits_returns:
  assumes "bigint_laws B" "tight a" "room (5 * us_len U u + h) (us_len U u + k) (us_len U u + p) a"
  obtains n a' u' t where "make_tree_limits B U a u max_pairs max_atoms = Some (Ok (n, a', u'))" "rep a' n t"
    "atoms_sat (\<lambda>bs. length bs \<le> max 5 (us_len U u)) t" "tight a'" "extends a a'" "room h k p a'"
proof -
  let ?s = "\<lparr> mk_previous = [], mk_values = [], mk_sub_trees = 1, mk_max_pairs = max_pairs, mk_max_atoms = max_atoms,
           mk_alloc = a, mk_u = u \<rparr>"
  have ok: "make_ok (max 5 (us_len U u)) a ?s" "make_room U h k p [MSubTree] ?s"
    using assms(2,3) by (simp_all add: make_ok_def make_room_def)
  obtain s' where s': "make_tree_loop B U [MSubTree] ?s = Some (Ok s')" "make_ok (max 5 (us_len U u)) a s'" "make_room U h k p [] s'"
      "length (mk_values s') = 1"
    using make_tree_loop_returns [OF assms(1) ok] by auto
  then obtain n where n: "mk_values s' = [n]" by (auto simp: length_Suc_conv)
  have room': "room h k p (mk_alloc s')" using s'(3) by (auto simp: make_room_def elim: room_mono)
  have a': "tight (mk_alloc s')" "extends a (mk_alloc s')" "short_node (max 5 (us_len U u)) (mk_alloc s') n"
    using s'(2) by (auto simp: make_ok_def n)
  obtain t where "rep (mk_alloc s') n t" "atoms_sat (\<lambda>bs. length bs \<le> max 5 (us_len U u)) t" using a'(3) by (auto simp: short_node_def)
  then show thesis using s'(1) n room' a' by (intro that [of n "mk_alloc s'" "mk_u s'" t]) (simp_all add: make_tree_limits_def)
qed

end

end
