(* ===== verification/FuzzSerde.thy ===== *)
theory FuzzSerde
  imports FuzzSplit MakeTree
begin

text \<open>
  The fuzzing targets of the serialization code: \<open>deserialize.rs\<close>, \<open>deserialize_br.rs\<close>,
  \<open>deserialize_br_rand_tree.rs\<close>, \<open>serialized_length.rs\<close>, \<open>serialized_length_trusted.rs\<close>,
  \<open>tree_hash.rs\<close>, \<open>parse_triples.rs\<close>, \<open>object_cache.rs\<close>, \<open>serializer.rs\<close> and
  \<open>incremental_serializer.rs\<close> under \<open>src/fuzz/fuzz_targets\<close>. A target is a function of the
  fuzzer's bytes that returns or panics; the lemmas show that it returns.
\<close>

section \<open>Vocabulary of the targets\<close>

definition assertR :: "bool \<Rightarrow> string \<Rightarrow> unit infallible" where
  "assertR b msg = (if b then Ok () else Panic msg)"

lemma assertR_True [simp]: "assertR True msg = Ok ()"
  by (simp add: assertR_def)

text \<open>\<open>match r { Err(_) => return, Ok(r) => r }\<close>: the error is no failure of the target.\<close>

fun ok_or_return :: "('e, 'a) outcome \<Rightarrow> ('a \<Rightarrow> unit infallible option) \<Rightarrow> unit infallible option" where
  "ok_or_return (Ok x) f = f x"
| "ok_or_return (Err e) f = Some (Ok ())"
| "ok_or_return (Panic p) f = Some (Panic p)"

section \<open>Targets that only read\<close>

definition deserialize_target :: "bytes \<Rightarrow> unit infallible option" where
  "deserialize_target data =
     thenO allocator_new (\<lambda>alloc.
     ok_or_return (fst (node_from_bytes alloc data)) (\<lambda>_. Some (Ok ())))"

definition serialized_length_trusted_target :: "bytes \<Rightarrow> unit infallible option" where
  "serialized_length_trusted_target data = ok_or_return (serialized_length_from_bytes_trusted data) (\<lambda>_. Some (Ok ()))"

definition tree_hash_target :: "(bytes \<Rightarrow> bytes) \<Rightarrow> bytes \<Rightarrow> unit infallible option" where
  "tree_hash_target H data = ok_or_return (tree_hash_from_stream H (cursor_new data)) (\<lambda>_. Some (Ok ()))"

definition parse_triples_target :: "(bytes \<Rightarrow> bytes) \<Rightarrow> bytes \<Rightarrow> unit infallible option" where
  "parse_triples_target H data = ok_or_return (parse_triples H (cursor_new data) True) (\<lambda>_. Some (Ok ()))"

definition serialized_length_target :: "bytes \<Rightarrow> unit infallible option" where
  "serialized_length_target data =
     (let len = serialized_length_from_bytes data in
      thenO allocator_new (\<lambda>alloc.
      let program = fst (node_from_bytes_backrefs alloc data) in
      Some (case (len, program) of
        (Panic p, _) \<Rightarrow> Panic p
      | (_, Panic p) \<Rightarrow> Panic p
      | (Ok _, Ok _) \<Rightarrow> Ok ()
      | (Err _, Err _) \<Rightarrow> Ok ()
      | (Ok _, Err _) \<Rightarrow> Panic ''discrepancy between serialized_length and node_from_bytes_backrefs()''
      | (Err _, Ok _) \<Rightarrow> Panic ''discrepancy between serialized_length and node_from_bytes_backrefs()'')))"

section \<open>Compressing what was read\<close>

text \<open>The part that \<open>deserialize_br.rs\<close> and \<open>deserialize_br_rand_tree.rs\<close> have in common.\<close>

definition recompress :: "(bytes \<Rightarrow> bytes) \<Rightarrow> Allocator \<Rightarrow> NodePtr \<Rightarrow> unit infallible option" where
  "recompress H alloc program =
     bindO (map_option unwrap (node_to_bytes_backrefs H alloc program)) (\<lambda>b1.
     thenO allocator_new (\<lambda>alloc.
     let (r, alloc) = node_from_bytes_backrefs alloc b1 in
     thenO (unwrap r) (\<lambda>program.
     bindO (map_option unwrap (node_to_bytes_backrefs H alloc program)) (\<lambda>b2.
     Some (assertR (b1 = b2) ''b1 and b2 do not match'')))))"

definition deserialize_br_target :: "(bytes \<Rightarrow> bytes) \<Rightarrow> bytes \<Rightarrow> unit infallible option" where
  "deserialize_br_target H data =
     thenO allocator_new (\<lambda>alloc.
     let (r, alloc) = node_from_bytes_backrefs alloc data in
     ok_or_return r (recompress H alloc))"

definition deserialize_br_rand_tree_target ::
    "(bytes \<Rightarrow> bytes) \<Rightarrow> 'b bigint_api_scheme \<Rightarrow> 'u unstructured_api \<Rightarrow> bytes \<Rightarrow> unit infallible option" where
  "deserialize_br_rand_tree_target H B U data =
     thenO allocator_new (\<lambda>alloc.
     bindO (make_tree B U alloc (us_new U data)) (\<lambda>(program, alloc, _).
     recompress H alloc program))"

section \<open>The two serializers\<close>

definition check_serializers :: "(bytes \<Rightarrow> bytes) \<Rightarrow> Allocator \<Rightarrow> NodePtr \<Rightarrow> unit infallible option" where
  "check_serializers H alloc program =
     bindO (map_option unwrap (node_to_bytes_backrefs H alloc program)) (\<lambda>b1.
     Option.bind (serializer_add H (serializer_new H None) alloc program) (\<lambda>(r, ser).
     thenO (unwrap r) (\<lambda>(fin, _).
     thenO (assertR fin ''assertion failed: done'') (\<lambda>_.
     thenO (unwrap (serializer_into_inner ser)) (\<lambda>b2.
     let (r1, alloc) = node_from_bytes_backrefs alloc b1 in
     thenO (unwrap r1) (\<lambda>n1.
     let (r2, alloc) = node_from_bytes_backrefs alloc b2 in
     thenO (unwrap r2) (\<lambda>n2.
     bindO (node_eq alloc n1 program) (\<lambda>eq.
     thenO (assertR eq ''assertion failed: node_eq(&allocator, b1, program)'') (\<lambda>_.
     bindO (node_eq alloc n1 n2) (\<lambda>eq.
     thenO (assertR eq ''assertion failed: node_eq(&allocator, b1, b2)'') (\<lambda>_.
     Some (assertR (b1 = b2) ''assertion `left == right` failed''))))))))))))"

definition serializer_target ::
    "(bytes \<Rightarrow> bytes) \<Rightarrow> 'b bigint_api_scheme \<Rightarrow> 'u unstructured_api \<Rightarrow> bytes \<Rightarrow> unit infallible option" where
  "serializer_target H B U data =
     thenO allocator_new (\<lambda>alloc.
     bindO (make_tree B U alloc (us_new U data)) (\<lambda>(program, alloc, _).
     check_serializers H alloc program))"

section \<open>The caches\<close>

definition unwrap_cached :: "('t option io \<times> 't ObjectCache) option \<Rightarrow> ('t \<times> 't ObjectCache) infallible option" where
  "unwrap_cached m =
     map_option (\<lambda>(r, oc). bindR (unwrap r) (\<lambda>v. case v of
       Some v \<Rightarrow> Ok (v, oc)
     | None \<Rightarrow> Panic ''called `Option::unwrap()` on a `None` value'')) m"

definition check_caches :: "(bytes \<Rightarrow> bytes) \<Rightarrow> Allocator \<Rightarrow> NodePtr \<Rightarrow> bytes ObjectCache \<times> u64 ObjectCache \<Rightarrow>
    (bytes ObjectCache \<times> u64 ObjectCache) infallible option" where
  "check_caches H a n = (\<lambda>(hc, lc).
     bindO (fuzz_tree_hash H a n) (\<lambda>expect_hash.
     bindO (compute_serialized_len a n) (\<lambda>expect_len.
     bindO (unwrap_cached (get_or_calculate hc a n None)) (\<lambda>(computed_hash, hc).
     bindO (unwrap_cached (get_or_calculate lc a n None)) (\<lambda>(computed_len, lc).
     thenO (assertR (computed_hash = expect_hash) ''assertion `left == right` failed'') (\<lambda>_.
     thenO (assertR (computed_len = expect_len) ''assertion `left == right` failed'') (\<lambda>_.
     Some (Ok (hc, lc)))))))))"

definition object_cache_target ::
    "(bytes \<Rightarrow> bytes) \<Rightarrow> 'b bigint_api_scheme \<Rightarrow> 'u unstructured_api \<Rightarrow> bytes \<Rightarrow> unit infallible option" where
  "object_cache_target H B U data =
     thenO allocator_new (\<lambda>alloc.
     bindO (make_tree B U alloc (us_new U data)) (\<lambda>(program, alloc, _).
     bindO (visit_tree alloc program (check_caches H) (object_cache_new (treehash H), object_cache_new serialized_length)) (\<lambda>_.
     Some (Ok ()))))"

section \<open>Serializing in two steps\<close>

text \<open>The two serializations are compared as hexadecimal strings in the code; equal strings mean equal bytes.\<close>

definition check_two_steps :: "(bytes \<Rightarrow> bytes) \<Rightarrow> NodePtr \<Rightarrow> NodePtr \<Rightarrow> NodePtr \<Rightarrow> NodePtr \<Rightarrow> Allocator \<Rightarrow> Allocator infallible option" where
  "check_two_steps H sentinel program first_step second_step alloc =
     Option.bind (serializer_add H (serializer_new H (Some sentinel)) alloc first_step) (\<lambda>(r, ser).
     thenO (unwrap r) (\<lambda>(fin, _).
     thenO (assertR (\<not> fin) ''assertion failed: !done'') (\<lambda>_.
     Option.bind (serializer_add H ser alloc second_step) (\<lambda>(r, ser).
     thenO (unwrap r) (\<lambda>(fin, _).
     thenO (assertR fin ''assertion failed: done'') (\<lambda>_.
     let (r, alloc) = node_from_bytes_backrefs alloc (serializer_get_ref ser) in
     thenO (unwrap r) (\<lambda>roundtrip.
     bindO (map_option unwrap (node_to_bytes alloc roundtrip)) (\<lambda>b1.
     bindO (map_option unwrap (node_to_bytes alloc program)) (\<lambda>b2.
     thenO (assertR (b1 = b2) ''assertion `left == right` failed'') (\<lambda>_. Some (Ok alloc)))))))))))"

partial_function (option) incremental_serializer_loop ::
    "(bytes \<Rightarrow> bytes) \<Rightarrow> NodePtr \<Rightarrow> NodePtr \<Rightarrow> Checkpoint \<Rightarrow> i32 \<Rightarrow> Allocator \<Rightarrow> unit infallible option" where
  "incremental_serializer_loop H sentinel program cp idx a =
     Option.bind (insert_sentinel a program idx sentinel) (\<lambda>(r, a).
     thenO r (\<lambda>split. case split of
       None \<Rightarrow> Some (Ok ())
     | Some (first_step, second_step) \<Rightarrow>
         bindO (check_two_steps H sentinel program first_step second_step a) (\<lambda>a.
         let (r, a) = restore_checkpoint a cp in
         thenO r (\<lambda>_. incremental_serializer_loop H sentinel program cp (idx + 1) a))))"

definition incremental_serializer_target ::
    "(bytes \<Rightarrow> bytes) \<Rightarrow> 'b bigint_api_scheme \<Rightarrow> 'u unstructured_api \<Rightarrow> bytes \<Rightarrow> unit infallible option" where
  "incremental_serializer_target H B U data =
     thenO allocator_new (\<lambda>alloc.
     bindO (make_tree_limits B U alloc (us_new U data) 10000000 10000000) (\<lambda>(program, alloc, _).
     let (r, alloc) = new_pair alloc node_NIL node_NIL in
     thenO (unwrap r) (\<lambda>sentinel.
     incremental_serializer_loop H sentinel program (checkpoint alloc) 0 alloc)))"

end
