(* ===== verification/LenRoom.thy ===== *)
theory LenRoom
  imports DeRoom
begin

text \<open>
  The length functions on an allocator with room: they build the same parse stack as the
  deserializer, and like it report no exhausted resource.
\<close>

definition no_alloc_err :: "'r io \<Rightarrow> bool" where
  "no_alloc_err m \<longleftrightarrow> (\<forall>e. m = Err e \<longrightarrow> e \<notin> alloc_errs)"

lemma no_alloc_err_bindR:
  "(\<And>e. m = Err e \<Longrightarrow> e \<notin> alloc_errs) \<Longrightarrow> (\<And>x. m = Ok x \<Longrightarrow> no_alloc_err (f x)) \<Longrightarrow> no_alloc_err (bindR m f)"
  by (cases m) (auto simp: no_alloc_err_def)

lemma no_alloc_err_push:
  assumes "room 0 0 (Suc p) a" "\<And>v a'. new_pair a x y = (Ok v, a') \<Longrightarrow> room 0 0 p a' \<Longrightarrow> no_alloc_err (F v a')"
  shows "no_alloc_err (case new_pair a x y of (r, a) \<Rightarrow> bindR (map_err io_from_eval r) (\<lambda>v. F v a))"
  by (rule new_pair_room [OF assms(1), of x y]) (simp add: assms(2))

lemma no_alloc_err_if:
  "(c \<Longrightarrow> no_alloc_err x) \<Longrightarrow> (\<not> c \<Longrightarrow> no_alloc_err y) \<Longrightarrow> no_alloc_err (if c then x else y)"
  by simp

lemma decode_size_err: "decode_size f b = Err e \<Longrightarrow> e \<notin> alloc_errs"
  by (auto simp: decode_size_def decode_size_with_offset_def read_exact_def Let_def
      alloc_errs_def bad_encoding_def internal_error_def bindR_eq_Err split: if_splits)

lemma bad_encoding_no_alloc_err [simp]: "no_alloc_err (Err bad_encoding)"
  by (simp add: no_alloc_err_def alloc_errs_def bad_encoding_def)

lemma serialized_length_loop_room:
  "room 0 0 (2 * (length (remaining f) + conses ops)) a \<Longrightarrow> no_alloc_err (serialized_length_loop a vals f ops)"
proof (induction a vals f ops rule: serialized_length_loop.induct)
  case (1 a vals f)
  then show ?case
    by (subst serialized_length_loop.simps, intro no_alloc_err_bindR)
      (auto dest: sexp_no_err simp: no_alloc_err_def alloc_errs_def bad_encoding_def split: SExp.split)
next
  case (2 a vals f ops)
  show ?case
  proof (subst serialized_length_loop.simps, rule no_alloc_err_bindR [OF read_exact_err], assumption)
    fix x
    assume x: "read_exact 1 f = Ok x"
    obtain b f1 where b: "x = (b, f1)" by fastforce
    have len: "length (remaining f) = Suc (length (remaining f1))" using read_exact_remaining x b by fastforce
    have r: "room 0 0 (Suc (2 * (length (remaining f2) + conses ops))) a" if "length (remaining f2) \<le> length (remaining f1)" for f2
      by (rule room_mono [OF 2(5)]) (use that in \<open>simp_all add: len\<close>)
    show "no_alloc_err (case x of (b, f) \<Rightarrow>
     if b ! 0 = CONS_BOX_MARKER then serialized_length_loop a vals f (PSExp # PSExp # PCons # ops)
     else if b ! 0 = BACK_REFERENCE then
       bindR (parse_path f) (\<lambda>(path, f).
       bindR (map_err io_from_eval (traverse_path a path vals)) (\<lambda>back_reference.
       case new_pair a (red_node back_reference) vals of (r, a) \<Rightarrow>
       bindR (map_err io_from_eval r) (\<lambda>values. serialized_length_loop a values f ops)))
     else if b ! 0 = 0x80 \<or> b ! 0 \<le> MAX_SINGLE_BYTE then
       (case new_pair a (nil a) vals of (r, a) \<Rightarrow>
        bindR (map_err io_from_eval r) (\<lambda>values. serialized_length_loop a values f ops))
     else
       bindR (decode_size f (b ! 0)) (\<lambda>(blob_size, f).
       let f = seek_current (unat blob_size) f in
       if length (get_ref f) < position f then Err bad_encoding
       else
         (case new_pair a (nil a) vals of (r, a) \<Rightarrow>
          bindR (map_err io_from_eval r) (\<lambda>values. serialized_length_loop a values f ops))))"
      unfolding b prod.case
    proof (intro no_alloc_err_if)
      assume c: "b ! 0 = CONS_BOX_MARKER"
      show "no_alloc_err (serialized_length_loop a vals f1 (PSExp # PSExp # PCons # ops))"
        by (rule 2(1) [OF x b [symmetric] c]) (use 2(5) room_mono len in simp)
    next
      assume c: "b ! 0 \<noteq> CONS_BOX_MARKER" "b ! 0 = BACK_REFERENCE"
      show "no_alloc_err (bindR (parse_path f1) (\<lambda>(path, f).
       bindR (map_err io_from_eval (traverse_path a path vals)) (\<lambda>back_reference.
       case new_pair a (red_node back_reference) vals of (r, a) \<Rightarrow>
       bindR (map_err io_from_eval r) (\<lambda>values. serialized_length_loop a values f ops))))"
      proof (rule no_alloc_err_bindR [OF parse_path_err], assumption)
        fix y
        assume y: "parse_path f1 = Ok y"
        obtain path f2 where pf: "y = (path, f2)" by fastforce
        note rem = parse_path_remaining [OF y [unfolded pf]]
        show "no_alloc_err (case y of (path, f) \<Rightarrow> bindR (map_err io_from_eval (traverse_path a path vals)) (\<lambda>back_reference.
           case new_pair a (red_node back_reference) vals of (r, a) \<Rightarrow>
           bindR (map_err io_from_eval r) (\<lambda>values. serialized_length_loop a values f ops)))"
          unfolding pf prod.case
          by (rule no_alloc_err_bindR [OF traverse_path_err], assumption, rule no_alloc_err_push [OF r [OF less_imp_le [OF rem]]])
            (use 2(2) [OF x b [symmetric] c y pf [symmetric]] in auto)
      qed
    next
      assume c: "b ! 0 \<noteq> CONS_BOX_MARKER" "b ! 0 \<noteq> BACK_REFERENCE" "b ! 0 = 0x80 \<or> b ! 0 \<le> MAX_SINGLE_BYTE"
      show "no_alloc_err (case new_pair a (nil a) vals of (r, a) \<Rightarrow>
        bindR (map_err io_from_eval r) (\<lambda>values. serialized_length_loop a values f1 ops))"
        by (rule no_alloc_err_push [OF r [OF order_refl]]) (use 2(3) [OF x b [symmetric] c] in auto)
    next
      assume c: "b ! 0 \<noteq> CONS_BOX_MARKER" "b ! 0 \<noteq> BACK_REFERENCE" "\<not> (b ! 0 = 0x80 \<or> b ! 0 \<le> MAX_SINGLE_BYTE)"
      show "no_alloc_err (bindR (decode_size f1 (b ! 0)) (\<lambda>(blob_size, f).
       let f = seek_current (unat blob_size) f in
       if length (get_ref f) < position f then Err bad_encoding
       else
         (case new_pair a (nil a) vals of (r, a) \<Rightarrow>
          bindR (map_err io_from_eval r) (\<lambda>values. serialized_length_loop a values f ops))))"
      proof (rule no_alloc_err_bindR [OF decode_size_err], assumption)
        fix y
        assume y: "decode_size f1 (b ! 0) = Ok y"
        obtain s f2 where sf: "y = (s, f2)" by fastforce
        let ?f = "seek_current (unat s) f2"
        have rem: "length (remaining ?f) \<le> length (remaining f1)"
          using decode_size_remaining [OF y [unfolded sf]] seek_current_remaining order_trans by blast
        show "no_alloc_err (case y of (blob_size, f) \<Rightarrow>
         let f = seek_current (unat blob_size) f in
         if length (get_ref f) < position f then Err bad_encoding
         else
           (case new_pair a (nil a) vals of (r, a) \<Rightarrow>
            bindR (map_err io_from_eval r) (\<lambda>values. serialized_length_loop a values f ops)))"
          unfolding sf prod.case Let_def
          by (intro no_alloc_err_if bad_encoding_no_alloc_err, rule no_alloc_err_push [OF r [OF rem]])
            (use 2(4) [OF x b [symmetric] c y sf [symmetric] refl] in auto)
      qed
    qed
  qed
next
  case (3 a vals f ops)
  have r: "room 0 0 (Suc (Suc (2 * (length (remaining f) + conses ops)))) a"
    by (rule room_mono [OF 3(2)]) simp_all
  have join: "no_alloc_err (case new_pair a v3 v1 of (r, a) \<Rightarrow>
              bindR (map_err io_from_eval r) (\<lambda>new_root.
              case new_pair a new_root v4 of (r, a) \<Rightarrow>
              bindR (map_err io_from_eval r) (\<lambda>values. serialized_length_loop a values f ops)))"
    if "sexp a vals = (Ok (SPair v1 v2) :: SExp io)" "sexp a v2 = (Ok (SPair v3 v4) :: SExp io)" for v1 v2 v3 v4
    by (rule no_alloc_err_push [OF r], rule no_alloc_err_push, assumption, rule 3(1) [OF that(1) refl that(2) refl]) auto
  show ?case
    by (subst serialized_length_loop.simps, rule no_alloc_err_bindR)
      (auto dest: sexp_no_err intro!: no_alloc_err_bindR join split: SExp.split)
qed

end
