(* ===== verification/FuzzSerdeProps.thy ===== *)
theory FuzzSerdeProps
  imports FuzzSerde LenRoom
begin

text \<open>
  No fuzzing target of the serialization code fails: on every input within the stated bounds it
  returns, so that none of its assertions and unwrapped results panics; one target panics, as stated,
  on values with a long plain form. What the targets assert of the checked length is a property of its own.
\<close>

section \<open>A new allocator\<close>

lemma ex_new_room: "h \<le> 4294967294 \<Longrightarrow> k \<le> 62499998 \<Longrightarrow> p \<le> 62500000 \<Longrightarrow> room h k p ex_new"
  by (simp add: room_def ex_new_def u32_max_def MAX_NUM_ATOMS_def MAX_NUM_PAIRS_def)

lemma ex_new_tight: "tight ex_new"
  by (rule tight_new [of ex_new, OF ex_new])

lemma tight_alloc_ok: "tight a \<Longrightarrow> alloc_ok a"
  by (simp add: tight_def)

lemma thenO_new [simp]: "thenO allocator_new f = f ex_new"
  by (simp add: ex_new)

lemma reread:
  assumes "tight a" "room (length b + h) (length b + k) (2 * length b + p) a" "parses ref_lookup (CAtom []) b t"
  obtains n a' where "node_from_bytes_backrefs a b = (Ok n, a')" "rep a' n t" "tight a'" "extends a a'" "room h k p a'"
proof -
  have "parsable ref_lookup (CAtom []) (b @ [])" using assms(3) unfolding parsable_def by blast
  then have "parsable ref_lookup (CAtom []) b" by simp
  with node_from_bytes_backrefs_room [OF assms(1,2)] obtain n a' e rest u where
    r: "node_from_bytes_backrefs a b = (Ok n, a')" "b = e @ rest" "parses ref_lookup (CAtom []) e u" "rep a' n u" "tight a'"
      "extends a a'" "room h k p a'" by auto
  have "u = t" using parses_unique [OF r(3) assms(3), of rest "[]"] r(2) by simp
  then show thesis using r that by blast
qed

section \<open>Targets that only read\<close>

lemma deserialize_target_returns: "deserialize_target data = Some (Ok ())"
proof -
  have "fst (node_from_bytes ex_new data) \<noteq> Panic p" for p
    using node_from_bytes_cases [OF ex_new_tight, of data] by (auto split: prod.splits outcome.splits)
  then show ?thesis by (cases "fst (node_from_bytes ex_new data)") (auto simp: deserialize_target_def)
qed

lemma serialized_length_room: "length data \<le> 31250000 \<Longrightarrow> no_alloc_err (serialized_length_from_bytes data)"
  unfolding serialized_length_from_bytes_def ex_new bindR.simps
  by (rule serialized_length_loop_room) (simp add: remaining_def cursor_new_def ex_new_room)

text \<open>
  C26. \<open>serialized_length_from_bytes\<close> returns the length of the value serialized with
  back-references at the start of the buffer, although it keeps only the shape of the values. For
  buffers of at most 31.25 million bytes it rejects exactly those that hold no value; for longer ones the
  allocator it works with may be exhausted. It does not panic.
\<close>

theorem serialized_length_from_bytes_correct:
  "case serialized_length_from_bytes b of
      Ok n \<Rightarrow> \<exists>e rest t. b = e @ rest \<and> parses ref_lookup (CAtom []) e t \<and> n = length e
    | Err er \<Rightarrow> er \<in> path_errs \<and> \<not> parsable ref_lookup (CAtom []) b \<or> er \<in> alloc_errs \<and> 31250000 < length b
    | Panic p \<Rightarrow> False"
  using serialized_length_cases [of b] serialized_length_room [of b]
  by (cases "31250000 < length b") (auto simp: no_alloc_err_def split: outcome.splits)

text \<open>
  The target \<open>serialized_length\<close>: on input of at most 31.25 million bytes, the checked length of a
  serialization is computed exactly when the deserializer with back-references accepts the
  bytes, so the target never reports a discrepancy and no panic occurs.
\<close>

theorem serialized_length_target_returns:
  assumes "length data \<le> 31250000"
  shows "serialized_length_target data = Some (Ok ())"
proof -
  from serialized_length_room [OF assms] serialized_length_cases [of data] have len:
    "if parsable ref_lookup (CAtom []) data then \<exists>n. serialized_length_from_bytes data = Ok n
     else \<exists>e. serialized_length_from_bytes data = Err e"
    by (auto simp: no_alloc_err_def parsable_def split: outcome.splits)
  have "room (length data + 0) (length data + 0) (2 * length data + 0) ex_new" by (rule ex_new_room) (use assms in simp_all)
  from node_from_bytes_backrefs_room [OF ex_new_tight this] len show ?thesis
    by (auto simp: serialized_length_target_def split: if_splits)
qed

section \<open>Compressing what was read\<close>

lemma recompress_returns:
  assumes "alloc_ok a" "rep a n t" "inj_on (tree_hash H) (universe t)" "length (br_ser H t) \<le> 31250000"
  shows "recompress H a n = Some (Ok ())"
proof -
  let ?b = "br_ser H t"
  have "room (length ?b + 0) (length ?b + 0) (2 * length ?b + 0) ex_new" by (rule ex_new_room) (use assms(4) in simp_all)
  from reread [OF ex_new_tight this br_ser_parses(1) [OF assms(1-3)]] obtain m a' where
    m: "node_from_bytes_backrefs ex_new ?b = (Ok m, a')" "rep a' m t" "tight a'" by metis
  show ?thesis unfolding recompress_def
    by (simp add: node_to_bytes_backrefs_eq [OF assms(1-3)] m(1) node_to_bytes_backrefs_eq [OF tight_alloc_ok [OF m(3)] m(2) assms(3)])
qed

text \<open>
  C28. The target \<open>deserialize_br\<close>: whatever the bytes are, they are rejected, or the value they
  stand for is compressed to bytes which, read in a new allocator and compressed again, give
  the same bytes; no unwrapped result is an error. The bytes and the compressed form are at most
  31,250,000, so that a new allocator has room for them, and the tree hash has no collision.
\<close>

theorem deserialize_br_target_returns:
  assumes "length data \<le> 31250000"
    "\<forall>t. blob_value ref_lookup data t \<longrightarrow> inj_on (tree_hash H) (universe t) \<and> length (br_ser H t) \<le> 31250000"
  shows "deserialize_br_target H data = Some (Ok ())"
proof -
  have "room (length data + 0) (length data + 0) (2 * length data + 0) ex_new" by (rule ex_new_room) (use assms in simp_all)
  note r = node_from_bytes_backrefs_room [OF ex_new_tight this]
  show ?thesis
  proof (cases "parsable ref_lookup (CAtom []) data")
    case True
    with r obtain n a' e rest t where t: "node_from_bytes_backrefs ex_new data = (Ok n, a')" "data = e @ rest"
        "parses ref_lookup (CAtom []) e t" "rep a' n t" "tight a'" by auto
    then have "blob_value ref_lookup data t" by (auto simp: blob_value_def)
    then show ?thesis using recompress_returns [OF tight_alloc_ok [OF t(5)] t(4)] assms(2) t(1)
      by (simp add: deserialize_br_target_def)
  qed (use r in \<open>auto simp: deserialize_br_target_def\<close>)
qed

section \<open>Generated values\<close>

text \<open>The value that the generator makes of the fuzzer's bytes in a new allocator.\<close>

definition generated :: "'b bigint_api_scheme \<Rightarrow> 'u unstructured_api \<Rightarrow> bytes \<Rightarrow> int \<Rightarrow> int \<Rightarrow> clvm \<Rightarrow> bool" where
  "generated B U data max_pairs max_atoms t \<longleftrightarrow>
     (\<exists>n a u. make_tree_limits B U ex_new (us_new U data) max_pairs max_atoms = Some (Ok (n, a, u)) \<and> rep a n t)"


lemma generated_returns:
  assumes "bigint_laws B" "unstructured_laws U" "5 * length data + h \<le> 4294967294" "length data + k \<le> 62499998" "length data + p \<le> 62500000"
  obtains n a u t where "make_tree_limits B U ex_new (us_new U data) max_pairs max_atoms = Some (Ok (n, a, u))" "rep a n t"
    "generated B U data max_pairs max_atoms t" "atoms_sat (\<lambda>bs. length bs \<le> max 5 (length data)) t" "tight a" "room h k p a"
proof -
  note len = unstructured_laws.new_len [OF assms(2)]
  have "room (5 * us_len U (us_new U data) + h) (us_len U (us_new U data) + k) (us_len U (us_new U data) + p) ex_new"
    unfolding len by (rule ex_new_room) (use assms in simp_all)
  then obtain n a u t where "make_tree_limits B U ex_new (us_new U data) max_pairs max_atoms = Some (Ok (n, a, u))" "rep a n t"
      "atoms_sat (\<lambda>bs. length bs \<le> max 5 (us_len U (us_new U data))) t" "tight a" "extends ex_new a" "room h k p a"
    by (rule unstructured_laws.make_tree_limits_returns [OF assms(2,1) ex_new_tight])
  then show thesis unfolding len by (intro that) (auto simp: generated_def)
qed

abbreviation tree_made :: "'b bigint_api_scheme \<Rightarrow> 'u unstructured_api \<Rightarrow> bytes \<Rightarrow> clvm \<Rightarrow> bool" where
  "tree_made B U data t \<equiv> generated B U data 60000000 60000000 t"

lemma deserialize_br_rand_tree_target_returns:
  assumes "bigint_laws B" "unstructured_laws U" "length data \<le> 1000000"
  shows "\<exists>t. tree_made B U data t \<and>
    (inj_on (tree_hash H) (universe t) \<and> length (br_ser H t) \<le> 31250000 \<longrightarrow>
     deserialize_br_rand_tree_target H B U data = Some (Ok ()))"
proof -
  obtain n a u t where "make_tree_limits B U ex_new (us_new U data) 60000000 60000000 = Some (Ok (n, a, u))" "rep a n t"
      "tree_made B U data t" "tight a"
    by (rule generated_returns [OF assms(1,2), where data = data and h = 0 and k = 0 and p = 0]) (use assms(3) in auto)
  then show ?thesis using recompress_returns [OF tight_alloc_ok]
    by (intro exI [of _ t]) (simp add: deserialize_br_rand_tree_target_def make_tree_def)
qed

section \<open>The two serializers\<close>

lemma check_serializers_returns:
  assumes "tight a" "rep a n t" "inj_on (tree_hash H) (universe t)"
    "room (2 * length (br_ser H t)) (2 * length (br_ser H t)) (4 * length (br_ser H t)) a"
  shows "check_serializers H a n = Some (Ok ())"
proof -
  let ?b = "br_ser H t"
  note ok = tight_alloc_ok [OF assms(1)]
  note U = stacks_run_universe [OF ok assms(2,3)]
  have "CPair t (CAtom []) \<in> run_universe H t" using U stacks_top by blast
  then have nil: "CAtom [] \<in> run_universe H t" using run_universe.parts by blast
  obtain s where s: "serializer_add H (serializer_new H None) a n = Some (Ok (True, undo_state (serializer_new H None)), s)"
      "serializer_into_inner s = Ok ?b"
    using run_universe.add_single [OF free_None [OF assms(2)] U nil] by blast
  note p = br_ser_parses(1) [OF ok assms(2,3)]
  have "room (length ?b + length ?b) (length ?b + length ?b) (2 * length ?b + 2 * length ?b) a"
    by (rule room_mono [OF assms(4)]) simp_all
  from reread [OF assms(1) this p] obtain n1 a1 where n1: "node_from_bytes_backrefs a ?b = (Ok n1, a1)" "rep a1 n1 t" "tight a1"
      "extends a a1" "room (length ?b) (length ?b) (2 * length ?b) a1" by metis
  then have "room (length ?b + 0) (length ?b + 0) (2 * length ?b + 0) a1" by simp
  from reread [OF n1(3) this p] obtain n2 a2 where n2: "node_from_bytes_backrefs a1 ?b = (Ok n2, a2)" "rep a2 n2 t" "extends a1 a2"
    by metis
  have r: "rep a2 n1 t" "rep a2 n t" using rep_extends assms(2) n1(2,4) n2(3) by blast+
  show ?thesis unfolding check_serializers_def
    by (simp add: node_to_bytes_backrefs_eq [OF ok assms(2,3)] s n1(1) n2(1) node_eq_rep [OF r] node_eq_rep [OF r(1) n2(2)])
qed

text \<open>
  C18. The target \<open>serializer\<close>, on at most 1,000,000 bytes, for a compressed form of at most 15,000,000
  bytes and without a collision of the tree hash among the values of the run: on the value that the
  generator makes of the fuzzer's bytes, the
  serializer with back-references and the incremental serializer write the same bytes, and
  what the deserializer makes of them is equal to the value by \<open>node_eq\<close>; no assertion fails and
  no unwrapped result is an error.
\<close>

theorem serializer_target_returns:
  assumes "bigint_laws B" "unstructured_laws U" "length data \<le> 1000000"
  shows "\<exists>t. tree_made B U data t \<and>
    (inj_on (tree_hash H) (universe t) \<and> length (br_ser H t) \<le> 15000000 \<longrightarrow> serializer_target H B U data = Some (Ok ()))"
proof -
  obtain n a u t where t: "make_tree_limits B U ex_new (us_new U data) 60000000 60000000 = Some (Ok (n, a, u))" "rep a n t"
      "tree_made B U data t" "tight a" "room 30000000 30000000 60000000 a"
    by (rule generated_returns [OF assms(1,2), where data = data and h = 30000000 and k = 30000000 and p = 60000000]) (use assms(3) in auto)
  have "check_serializers H a n = Some (Ok ())" if "inj_on (tree_hash H) (universe t)" "length (br_ser H t) \<le> 15000000"
    by (rule check_serializers_returns [OF t(4,2) that(1) room_mono [OF t(5)]]) (use that in simp_all)
  then show ?thesis using t by (intro exI [of _ t]) (simp add: serializer_target_def make_tree_def)
qed

section \<open>The caches\<close>

lemma positions_bounds: "u \<in> set (positions t) \<Longrightarrow> length (cser u) \<le> length (cser t) \<and> (atoms_sat P t \<longrightarrow> atoms_sat P u)"
  by (induction t) auto

lemma check_caches_returns:
  assumes "rep a n t" "atoms_writable t" "length (cser t) < 2 ^ 64" "hash_cache.cache_ok H a None hc" "length_cache.cache_ok a None lc"
  shows "\<exists>hc' lc'. check_caches H a n (hc, lc) = Some (Ok (hc', lc')) \<and> hash_cache.cache_ok H a None hc' \<and> length_cache.cache_ok a None lc'"
proof -
  note free = free_None [OF assms(1)]
  obtain hc' where hc: "get_or_calculate hc a n None = Some (Ok (Some (tree_hash H t)), hc')" "hash_cache.cache_ok H a None hc'"
    by (rule hash_cache.get_or_calculate_cases [OF assms(4,1)]) (use free in simp)
  obtain lc' where lc: "get_or_calculate lc a n None = Some (Ok (Some (slen t)), lc')" "length_cache.cache_ok a None lc'"
    by (rule length_cache.get_or_calculate_cases [OF assms(5,1)]) (use free in simp)
  show ?thesis unfolding check_caches_def using hc(2) lc(2)
    by (simp add: fuzz_tree_hash_rep [OF assms(1)] compute_serialized_len_rep [OF assms(1,2)] unwrap_cached_def hc(1) lc(1) slen_eq [OF assms(1-3)])
qed

lemma atoms_short_writable: "atoms_sat (\<lambda>bs. length bs \<le> L) t \<Longrightarrow> L \<le> 1000000 \<Longrightarrow> atoms_writable t"
  by (induction t) (auto simp: length_atom_ser shortest_prefix_def)

text \<open>
  C30. The target \<open>object_cache\<close>: at every node of the value that the generator makes of the fuzzer's
  bytes, the cached hash and the cached length, with the caches shared among all nodes, agree
  with what the two stack machines of the target compute, as long as the plain serialization
  is shorter than \<open>2 ^ 64\<close> bytes and the fuzzer's bytes are at most 1,000,000.
\<close>

theorem object_cache_target_returns:
  assumes "bigint_laws B" "unstructured_laws U" "length data \<le> 1000000"
  shows "\<exists>t. tree_made B U data t \<and> (length (cser t) < 2 ^ 64 \<longrightarrow> object_cache_target H B U data = Some (Ok ()))"
proof -
  obtain n a u t where t: "make_tree_limits B U ex_new (us_new U data) 60000000 60000000 = Some (Ok (n, a, u))" "rep a n t"
      "tree_made B U data t" "atoms_sat (\<lambda>bs. length bs \<le> max 5 (length data)) t"
    by (rule generated_returns [OF assms(1,2), where data = data and h = 0 and k = 0 and p = 0]) (use assms(3) in auto)
  have w: "atoms_writable t" using atoms_short_writable [OF t(4)] assms(3) by simp
  have "object_cache_target H B U data = Some (Ok ())" if len: "length (cser t) < 2 ^ 64"
  proof -
    let ?s = "(object_cache_new (treehash H), object_cache_new serialized_length)"
    let ?I = "\<lambda>(hc, lc). hash_cache.cache_ok H a None hc \<and> length_cache.cache_ok a None lc"
    obtain ns us where v: "\<And>s. visit_tree a n (check_caches H) s = visit_all (check_caches H) a ns s" "list_all2 (rep a) ns us"
        "mset us = mset (positions t)" by (rule visit_tree_rep [OF t(2), of "check_caches H"]) (rule that)
    have us: "set us = set (positions t)" using v(3) by (rule mset_eq_setD)
    have "\<exists>s'. visit_all (check_caches H) a ns ?s = Some (Ok s') \<and> ?I s'"
    proof (rule visit_all_invariant [where I = ?I, OF v(2)])
      fix m v and s :: "bytes ObjectCache \<times> u64 ObjectCache"
      assume "v \<in> set us" "rep a m v" "?I s"
      then show "\<exists>s'. check_caches H a m s = Some (Ok s') \<and> ?I s'"
        using check_caches_returns [of a m v H "fst s" "snd s"] positions_bounds [of v t] us w len by (cases s) fastforce
    qed (simp add: hash_cache.cache_ok_new length_cache.cache_ok_new)
    then show ?thesis using t(1) by (auto simp: object_cache_target_def make_tree_def v(1))
  qed
  then show ?thesis using t(3) by blast
qed

section \<open>Serializing in two steps\<close>

lemma free_new_pair:
  assumes "rep a n t" "new_pair a x y = (Ok q, a')" "length (pair_vec a) < 67108864" "extends a a'"
  shows "free a' (Some q) n t"
  using assms(1)
proof (induction t arbitrary: n rule: clvm.induct)
  case (CAtom bs)
  have "node_kind q = Some OPair" using assms(2,3) by (auto simp: new_pair_def Let_def err_def split: if_splits)
  then have "q \<noteq> n" using CAtom by (auto elim: rep_CAtomE)
  then show ?case using rep_extends [OF CAtom assms(4)] by (auto intro: free_atom)
next
  case (CPair l r)
  have "node_idx q = length (pair_vec a)" using assms(2,3) by (auto simp: new_pair_def Let_def err_def split: if_splits)
  then have "q \<noteq> n" using CPair.prems by (auto elim: rep_CPairE)
  moreover have "node_idx n < length (pair_vec a)" using CPair.prems by (auto elim: rep_CPairE)
  then have "pfirst a' n = pfirst a n" "prest a' n = prest a n"
    using assms(4) by (auto simp: pfirst_def prest_def extends_def nth_append)
  ultimately show ?case using rep_extends [OF CPair.prems assms(4)] CPair.IH rep_pfirst [OF CPair.prems] rep_prest [OF CPair.prems]
    by (auto intro: free_pair)
qed

lemma height_csize: "height t < csize t" and csize_cser: "csize t \<le> length (cser t)"
  by (induction t) (auto simp: length_atom_ser shortest_prefix_def)


lemma check_two_steps_result:
  assumes "tight a" "rep a n t" "punched s (fst (punch j t)) (snd (punch j t)) q m a" "j < csize t" "csize t < 2 ^ 31"
    "inj_on (tree_hash H) (universe t)" "room (2 * length (cser t)) (2 * length (cser t)) (4 * length (cser t)) a"
    "length (cser t) \<le> 2000000"
  shows "\<exists>a'. extends a a' \<and> check_two_steps H s n q m a = Some (Ok a')"
proof -
  let ?calls = "[((a, q), fst (punch j t)), ((a, m), whole (snd (punch j t)))]"
  have fill: "filled [Hole] (map snd ?calls) [t]"
    using filled_hole [OF filled_punch [OF assms(4) filled.intros(1)]] by simp
  have "hrep a (Some s) q (fst (punch j t))" "hrep a (Some s) m (whole (snd (punch j t)))"
    using assms(3) free_hrep by (auto simp: punched_def)
  then have calls: "\<forall>((a, n), h) \<in> set ?calls. hrep a (Some s) n h" "sorted_wrt extends (map (fst \<circ> fst) ?calls)" by simp_all
  have "height t < 2 ^ 34" using height_csize [of t] assms(5) by simp
  note U = universe_stacks [OF assms(6) this]
  obtain ser out where ser: "add_all H (serializer_new H (Some s)) (map fst ?calls) = Some ser" "serializer_into_inner ser = Ok out"
      "parses ref_lookup (CAtom []) out t" "length out \<le> 2 * length (cser t)"
    using run_universe.add_all_correct [OF fill U calls(2,1)] by blast
  then obtain u1 s1 u2 where adds: "serializer_add H (serializer_new H (Some s)) a q = Some (Ok (False, u1), s1)"
      "serializer_add H s1 a m = Some (Ok (True, u2), ser)"
    by (auto split: option.splits outcome.splits if_splits)
  have out: "serializer_get_ref ser = out"
    using ser(2) by (auto simp: serializer_into_inner_def serializer_get_ref_def split: if_splits)
  have "room (length out + 0) (length out + 0) (2 * length out + 0) a" by (rule room_mono [OF assms(7)]) (use ser(4) in simp_all)
  from reread [OF assms(1) this ser(3)] obtain r a' where r: "node_from_bytes_backrefs a out = (Ok r, a')" "rep a' r t" "extends a a'"
    by metis
  note bytes = node_to_bytes_limit_eq [OF r(2)] node_to_bytes_limit_eq [OF rep_extends [OF assms(2) r(3)]]
  show ?thesis unfolding check_two_steps_def
    by (intro exI [of _ a']) (simp add: adds out r(1,3) node_to_bytes_def bytes bindO_def assms(8))
qed

lemma incremental_serializer_loop_result:
  assumes "tight a" "free a (Some s) n t" "sentinel_ok a s" "csize t < 2 ^ 31" "inj_on (tree_hash H) (universe t)"
    "room (2 * length (cser t)) (2 * length (cser t)) (5 * length (cser t)) a" "length (cser t) \<le> 2000000" "j \<le> csize t"
  shows "incremental_serializer_loop H s n (checkpoint a) (of_nat j) a = Some (Ok ())"
  using assms(8)
proof (induction "csize t - j" arbitrary: j)
  case 0
  then have "j = csize t" by simp
  moreover have "room 0 0 (csize t + 0) a" by (rule room_mono [OF assms(6)]) (use csize_cser [of t] in simp_all)
  then obtain a' where "insert_sentinel a n (of_nat j) s = Some (Ok None, a')"
    by (rule insert_sentinel_end [OF assms(2,3,1)]) (use 0 assms(4) in auto)
  ultimately show ?case by (subst incremental_serializer_loop.simps) simp
next
  case (Suc i)
  then have j: "j < csize t" "i = csize t - Suc j" by simp_all
  have "room (2 * length (cser t)) (2 * length (cser t)) (csize t + 4 * length (cser t)) a"
    by (rule room_mono [OF assms(6)]) (use csize_cser [of t] in simp_all)
  then obtain q m a1 where q: "insert_sentinel a n (of_nat j) s = Some (Ok (Some (q, m)), a1)"
      "punched s (fst (punch j t)) (snd (punch j t)) q m a1" "tight a1"
      "room (2 * length (cser t)) (2 * length (cser t)) (4 * length (cser t)) a1" "extends a a1"
    by (rule insert_sentinel_split [OF assms(2,3,1) _ j(1) assms(4)])
  obtain a2 where a2: "extends a1 a2" "check_two_steps H s n q m a1 = Some (Ok a2)"
    using check_two_steps_result [OF q(3) rep_extends [OF free_rep [OF assms(2)] q(5)] q(2) j(1) assms(4,5) q(4) assms(7)] by blast
  note restored = restore_checkpoint_extends [OF extends_trans [OF q(5) a2(1)]]
  show ?case using Suc(1) [OF j(2)] j Suc.prems
    by (subst incremental_serializer_loop.simps) (simp add: q(1) a2(2) bindO_def restored add.commute)
qed

text \<open>The first cut is at the root: nothing is copied, and a value with a long plain form makes the target panic there.\<close>

lemma incremental_serializer_loop_long:
  assumes "tight a" "free a (Some s) n t" "inj_on (tree_hash H) (universe t)" "2000000 < length (cser t)"
  shows "incremental_serializer_loop H s n cp 0 a = Some (Panic ''called `Result::unwrap()` on an `Err` value'')"
proof -
  let ?calls = "[((a, s), Hole), ((a, n), whole t)]"
  note n = free_rep [OF assms(2)]
  have ok: "alloc_ok a" using assms(1) by (simp add: tight_def)
  have split: "insert_sentinel a n 0 s = Some (Ok (Some (s, n)), a)"
    by (simp add: insert_sentinel_def insert_sentinel_loop.simps)
  have fill: "filled [Hole] (map snd ?calls) [t]"
    using filled_hole [OF filled_hole [OF filled_whole [OF filled.intros(1)]], of t] by simp
  have calls: "\<forall>((a, n), h) \<in> set ?calls. hrep a (Some s) n h" "sorted_wrt extends (map (fst \<circ> fst) ?calls)"
    using free_hrep [OF assms(2)] by (auto intro: hrep.intros)
  have "height t \<le> length (pair_vec a)" by (rule rep_height [OF ok n rep_node_ok [OF n]])
  then have "height t < 2 ^ 34" using ok by (simp add: alloc_ok_def MAX_NUM_PAIRS_def)
  note U = universe_stacks [OF assms(3) this]
  obtain ser out where ser: "add_all H (serializer_new H (Some s)) (map fst ?calls) = Some ser" "serializer_into_inner ser = Ok out"
      "parses ref_lookup (CAtom []) out t"
    using run_universe.add_all_correct [OF fill U calls(2,1)] by blast
  then obtain u1 s1 u2 where adds: "serializer_add H (serializer_new H (Some s)) a s = Some (Ok (False, u1), s1)"
      "serializer_add H s1 a n = Some (Ok (True, u2), ser)"
    by (auto split: option.splits outcome.splits if_splits)
  have out: "serializer_get_ref ser = out"
    using ser(2) by (auto simp: serializer_into_inner_def serializer_get_ref_def split: if_splits)
  have "check_two_steps H s n s n a = Some (Panic ''called `Result::unwrap()` on an `Err` value'')"
  proof (cases "node_from_bytes_backrefs a out")
    case (Pair r a')
    note c = node_from_bytes_backrefs_cases [OF assms(1), of out, unfolded Pair]
    show ?thesis
    proof (cases r)
      case (Ok m)
      with c obtain e rest u where u: "out = e @ rest" "parses ref_lookup (CAtom []) e u" "rep a' m u" by auto
      have "u = t" using parses_unique [OF u(2) ser(3), of rest "[]"] u(1) by simp
      then show ?thesis using node_to_bytes_limit_eq [OF u(3)] assms(4) Ok Pair
        by (simp add: check_two_steps_def adds out node_to_bytes_def bindO_def)
    qed (use c Pair in \<open>auto simp: check_two_steps_def adds out\<close>)
  qed
  then show ?thesis by (subst incremental_serializer_loop.simps) (simp add: split bindO_def)
qed

text \<open>
  C19. The target \<open>incremental_serializer\<close>, on at most 1,000,000 bytes and without a collision of the tree
  hash among the values of the run: the value that the generator makes of the fuzzer's bytes is
  cut at every one of its nodes, and for each cut the two parts, serialized one after the
  other, read back as the value; the loop ends when all nodes are used. This holds if the plain
  form has at most 2,000,000 bytes. Beyond this the target panics at the first cut, because it unwraps the
  result of a serializer with that limit, or before that the result of the deserializer if the
  allocator is exhausted.
\<close>

theorem incremental_serializer_target_result:
  assumes "bigint_laws B" "unstructured_laws U" "length data \<le> 1000000"
  shows "\<exists>t. generated B U data 10000000 10000000 t \<and>
    (inj_on (tree_hash H) (universe t) \<longrightarrow>
     incremental_serializer_target H B U data =
       Some (if length (cser t) \<le> 2000000 then Ok () else Panic ''called `Result::unwrap()` on an `Err` value''))"
proof -
  obtain n a u t where t: "make_tree_limits B U ex_new (us_new U data) 10000000 10000000 = Some (Ok (n, a, u))" "rep a n t"
      "generated B U data 10000000 10000000 t" "tight a" "room 24000000 24000000 (Suc 60000000) a"
    by (rule generated_returns [OF assms(1,2), where data = data and h = 24000000 and k = 24000000 and p = "Suc 60000000"]) (use assms(3) in auto)
  obtain s a' where s: "new_pair a node_NIL node_NIL = (Ok s, a')" "rep a' s (CPair (CAtom []) (CAtom []))" "tight a'"
      "room 24000000 24000000 60000000 a'" "extends a a'"
    by (rule madeE [OF made_new_pair [OF t(4,5) rep_NIL rep_NIL]])
  have "length (pair_vec a) < 67108864" using t(5) by (simp add: room_def MAX_NUM_PAIRS_def)
  note free = free_new_pair [OF t(2) s(1) this s(5)]
  have "incremental_serializer_loop H s n (checkpoint a') (of_nat 0) a' = Some (Ok ())"
    if "inj_on (tree_hash H) (universe t)" "length (cser t) \<le> 2000000"
    by (rule incremental_serializer_loop_result [OF s(3) free _ _ that(1) room_mono [OF s(4)]])
      (use that(2) s(2) csize_cser [of t] in \<open>auto simp: sentinel_ok_def\<close>)
  moreover note incremental_serializer_loop_long [OF s(3) free, of H "checkpoint a'"]
  ultimately show ?thesis using t s(1) by (intro exI [of _ t]) (auto simp: incremental_serializer_target_def)
qed

section \<open>Concrete inputs\<close>

definition ex_pair :: clvm where
  "ex_pair = CPair (CAtom [5]) (CAtom [7])"

lemma ex_blob_value: "blob_value ref_lookup [0xff, 5, 7] t \<Longrightarrow> t = ex_pair"
proof -
  assume "blob_value ref_lookup [0xff, 5, 7] t"
  moreover have "parses ref_lookup (CAtom []) (0xff # [5] @ [7]) (CPair (CAtom [5]) (CAtom [7]))"
    by (intro parses.intros) (auto simp: atom_enc_def)
  then have "blob_value ref_lookup [0xff, 5, 7] (CPair (CAtom [5]) (CAtom [7]))" unfolding blob_value_def
    by (intro exI [of _ "[0xff, 5, 7]"] exI [of _ "[]"]) simp
  ultimately show ?thesis unfolding ex_pair_def by (rule blob_value_unique)
qed

lemma generated_unique: "generated B U data max_pairs max_atoms t \<Longrightarrow> generated B U data max_pairs max_atoms t' \<Longrightarrow> t = t'"
  by (auto simp: generated_def dest: rep_det)

lemma ex_generated:
  assumes "0 < max_pairs" "0 < max_atoms"
  shows "generated ref_ext byte_source [0, 0, 2, 5, 2, 7] max_pairs max_atoms ex_pair"
proof -
  let ?a = "ex_new\<lparr> small_atoms := 4 \<rparr>"
  let ?p = "\<lparr> ip_first = node_new OSmallAtom 5, ip_rest = node_new OSmallAtom 7 \<rparr>"
  have "\<exists>u. make_tree_limits ref_ext byte_source ex_new [0, 0, 2, 5, 2, 7] max_pairs max_atoms =
      Some (Ok (node_new OPair 0, ?a\<lparr> pair_vec := [?p] \<rparr>, u))"
    using assms by (simp add: make_tree_limits_def make_tree_loop.simps make_sub_tree_def byte_source_def push_new_def push_value_def
        push_previous_def make_pair_def new_small_number_def check_atom_limit_def new_pair_def ex_new_def MAX_NUM_ATOMS_def MAX_NUM_PAIRS_def)
  moreover have b: "int_bytes 5 = [5]" "int_bytes 7 = [7]" by code_simp+
  have "rep (?a\<lparr> pair_vec := [?p] \<rparr>) (node_new OPair 0) (CPair (CAtom [5]) (CAtom [7]))"
    using rep_small_new [of 5 "?a\<lparr> pair_vec := [?p] \<rparr>"] rep_small_new [of 7 "?a\<lparr> pair_vec := [?p] \<rparr>"] b
    by (intro rep_pair) simp_all
  moreover have "us_new byte_source = id" by (simp add: byte_source_def id_def)
  ultimately show ?thesis by (auto simp: generated_def ex_pair_def)
qed


lemma ex_generated_only:
  "generated ref_ext byte_source [0, 0, 2, 5, 2, 7] max_pairs max_atoms t \<Longrightarrow> 0 < max_pairs \<Longrightarrow> 0 < max_atoms \<Longrightarrow> t = ex_pair"
  using generated_unique ex_generated by blast

lemma ex_pair_universe: "inj_on (tree_hash id) (universe ex_pair)"
  by (simp add: ex_pair_def universe_def inj_on_def)

lemma ex_pair_length: "length (cser ex_pair) = 3"
  by (simp add: ex_pair_def atom_ser_def)

lemma ex_pair_br_length: "length (br_ser id ex_pair) \<le> 6"
proof -
  obtain n a u where "rep a n ex_pair" "tight a"
    by (rule generated_returns [OF ref_libs.bigint_laws_axioms byte_source.unstructured_laws_axioms,
          where data = "[0, 0, 2, 5, 2, 7]" and h = 0 and k = 0 and p = 0 and max_pairs = 1 and max_atoms = 1])
      (auto dest!: ex_generated_only)
  from br_ser_length(1) [OF tight_alloc_ok [OF this(2)] this(1) ex_pair_universe] show ?thesis by (simp add: ex_pair_length)
qed

theorem serialized_length_target_witness: "serialized_length_target [0xff, 5, 7] = Some (Ok ())"
  by (rule serialized_length_target_returns) simp

theorem deserialize_br_target_witness: "deserialize_br_target id [0xff, 5, 7] = Some (Ok ())"
  by (rule deserialize_br_target_returns) (use ex_pair_universe ex_pair_br_length in \<open>auto dest!: ex_blob_value\<close>)

theorem serializer_target_witness: "serializer_target id ref_ext byte_source [0, 0, 2, 5, 2, 7] = Some (Ok ())"
  using serializer_target_returns [OF ref_libs.bigint_laws_axioms byte_source.unstructured_laws_axioms, of "[0, 0, 2, 5, 2, 7]" id]
    ex_pair_universe ex_pair_br_length by (auto dest!: ex_generated_only)

theorem object_cache_target_witness: "object_cache_target id ref_ext byte_source [0, 0, 2, 5, 2, 7] = Some (Ok ())"
  using object_cache_target_returns [OF ref_libs.bigint_laws_axioms byte_source.unstructured_laws_axioms, of "[0, 0, 2, 5, 2, 7]" id]
    ex_pair_length by (auto dest!: ex_generated_only)

theorem incremental_serializer_target_witness:
  "incremental_serializer_target id ref_ext byte_source [0, 0, 2, 5, 2, 7] = Some (Ok ())"
  using incremental_serializer_target_result [OF ref_libs.bigint_laws_axioms byte_source.unstructured_laws_axioms, of "[0, 0, 2, 5, 2, 7]" id]
    ex_pair_universe ex_pair_length by (auto dest!: ex_generated_only)

end
