(* ===== verification/BindingsRun.thy ===== *)
theory BindingsRun
  imports HeapBound FuzzSerdeProps
begin

unbundle bit_operations_syntax

text \<open>
  A call of the Python or the JavaScript module with inputs of moderate size, from the bytes to the
  result, with nothing assumed about memory: there is room for what the deserializer reads, and the
  cost of the run pays for the heap it uses.
\<close>

section \<open>Reading the two inputs\<close>

text \<open>A deserializer that, given room for \<open>w\<close> pairs per byte, fails only on bytes that hold no value.\<close>

locale roomy_reader =
  fixes load :: "Allocator \<Rightarrow> bytes \<Rightarrow> NodePtr io \<times> Allocator"
    and R :: "bytes \<Rightarrow> clvm \<Rightarrow> clvm option"
    and errs :: "io_error set"
    and w :: nat
  assumes load_room: "tight a \<Longrightarrow> room (length b + h) (length b + k) (w * length b + p) a \<Longrightarrow>
    if parsable R (CAtom []) b
    then \<exists>n a' e rest t. load a b = (Ok n, a') \<and> b = e @ rest \<and> parses R (CAtom []) e t \<and> rep a' n t \<and> tight a' \<and> extends a a' \<and> room h k p a'
    else \<exists>er \<in> errs. \<exists>a'. load a b = (Err er, a') \<and> tight a' \<and> extends a a'"
begin

lemma load_two_room:
  assumes "tight a" "room (length b + (length c + h)) (length b + (length c + 0)) (w * length b + (w * length c + 0)) a"
  obtains p e a' P V where "tryS (load a b) (\<lambda>x a. tryS (load a c) (\<lambda>y a. (Ok (x, y), a))) = (Ok (p, e), a')"
      "blob_value R b P" "blob_value R c V" "rep a' p P" "rep a' e V" "alloc_ok a'" "heap_limit a' = heap_limit a" "length (u8_vec a') + h \<le> heap_limit a"
    | er a' where "tryS (load a b) (\<lambda>x a. tryS (load a c) (\<lambda>y a. (Ok (x, y), a))) = (Err er, a')" "er \<in> errs"
      "(\<nexists>t. blob_value R b t) \<or> (\<nexists>t. blob_value R c t)"
proof -
  note r1 = load_room [OF assms]
  show thesis
  proof (cases "parsable R (CAtom []) b")
    case False
    with r1 obtain er a' where "load a b = (Err er, a')" "er \<in> errs" by auto
    then show thesis using False by (intro that(2)) (simp_all add: blob_value_parsable)
  next
    case True
    with r1 obtain p a1 e1 s1 P where p: "load a b = (Ok p, a1)" "b = e1 @ s1" "parses R (CAtom []) e1 P" "rep a1 p P"
      "tight a1" "extends a a1" "room (length c + h) (length c + 0) (w * length c + 0) a1" by auto
    note r2 = load_room [OF p(5,7)]
    show thesis
    proof (cases "parsable R (CAtom []) c")
      case False
      with r2 obtain er a' where "load a1 c = (Err er, a')" "er \<in> errs" by auto
      then show thesis using False p(1) by (intro that(2)) (simp_all add: blob_value_parsable)
    next
      case True
      with r2 obtain e a' e2 s2 V where e: "load a1 c = (Ok e, a')" "c = e2 @ s2" "parses R (CAtom []) e2 V" "rep a' e V"
        "tight a'" "extends a1 a'" "room h 0 0 a'" by auto
      have "heap_limit a' = heap_limit a" using e(6) p(6) by (simp add: extends_def)
      moreover from this have "length (u8_vec a') + h \<le> heap_limit a" using e(7) by (simp add: room_def)
      ultimately show thesis
        using p e tight_alloc_ok [OF e(5)] rep_extends [OF p(4) e(6)] by (intro that(1) [of p e a' P V]) (auto simp: blob_value_def)
    qed
  qed
qed

end

interpretation plain_room: roomy_reader node_from_bytes no_refs format_errs 1
  by unfold_locales (rule node_from_bytes_room, assumption, simp)


lemma new_limited_room:
  assumes "new_limited limit = Ok a" "0 < limit"
  shows "tight a" "u8_vec a = []" "heap_limit a = limit - 1" "limit \<le> u32_max"
    and "h < limit \<Longrightarrow> k \<le> 62499998 \<Longrightarrow> p \<le> 62500000 \<Longrightarrow> room h k p a"
  using assms tight_limited [OF assms]
  by (auto simp: new_limited_def room_def usize_sub_def MAX_NUM_ATOMS_def MAX_NUM_PAIRS_def split: if_splits)

section \<open>The Python module\<close>

lemma py_load_room:
  assumes "length program \<le> 30000000" "length args \<le> 30000000" "(py_allocator flags :: (PyErr, Allocator) outcome) = Ok a0"
    and m: "m \<le> (if flags AND LIMIT_HEAP = 0 then 2 ^ 34 else 1800000000)"
  obtains p e a P V where "py_load a0 program args = (Ok (p, e), a)" "blob_value no_refs program P" "blob_value no_refs args V"
      "rep a p P" "rep a e V" "alloc_ok a" "10 * length (u8_vec a) + m + 2500000200 \<le> 10 * heap_limit a" "heap_limit a \<le> u32_max"
    | er a where "py_load a0 program args = (Err er, a)" "er \<in> format_errs" "(\<nexists>t. blob_value no_refs program t) \<or> (\<nexists>t. blob_value no_refs args t)"
proof -
  define limit where "limit = (if flags AND LIMIT_HEAP = 0 then u32_max else 500000000)"
  have new: "(new_limited limit :: (PyErr, Allocator) outcome) = Ok a0" using assms(3) by (auto simp: limit_def py_allocator_def allocator_new_def split: if_splits)
  have limit: "0 < limit" "60000001 < limit" "600000000 + m + 2500000200 \<le> 10 * (limit - 1)"
    using m by (auto simp: limit_def u32_max_def split: if_splits)
  note l = new_limited_room [OF new limit(1)]
  have "room (length program + (length args + (limit - 60000001))) (length program + (length args + 0)) (1 * length program + (1 * length args + 0)) a0"
    by (rule l(5)) (use assms(1,2) limit(2) in linarith)+
  then show thesis
  proof (rule plain_room.load_two_room [OF l(1)])
    fix p e a P V
    assume a: "tryS (node_from_bytes a0 program) (\<lambda>x a. tryS (node_from_bytes a args) (\<lambda>y a. (Ok (x, y), a))) = (Ok (p, e), a)"
      "blob_value no_refs program P" "blob_value no_refs args V" "rep a p P" "rep a e V" "alloc_ok a"
      "heap_limit a = heap_limit a0" "length (u8_vec a) + (limit - 60000001) \<le> heap_limit a0"
    have "10 * length (u8_vec a) + m + 2500000200 \<le> 10 * heap_limit a" "heap_limit a \<le> u32_max"
      using a(7,8) l(3,4) limit by linarith+
    then show thesis using a by (intro that(1) [of p e a P V]) (simp_all add: py_load_def)
  qed (use that(2) in \<open>auto simp: py_load_def\<close>)
qed

text \<open>
  C9. A call of \<open>run_serialized_chia_program\<close> from Python, with any flags, inputs of at most 30 million
  bytes each and a cost limit between 1 and 2^34, or between 1 and 1,800,000,000 if the flag \<open>LIMIT_HEAP\<close>
  selects the heap of 500,000,000 bytes: it returns, does not panic, and its result is determined
  by the two byte strings. It is the cost and the value of the run of the deserialized program on the
  deserialized arguments; a \<open>ValueError\<close> with the message and the value that this run fails with, or
  with the message of an exhausted allocator; or the format error of the deserializer, exactly when one of
  the strings holds no value.
\<close>

theorem python_run_correct:
  assumes "point_laws E" "0 < max_cost" "unat max_cost \<le> (if flags AND LIMIT_HEAP = 0 then 2 ^ 34 else 1800000000)"
    "length program \<le> 30000000" "length args \<le> 30000000"
  shows "\<exists>r. run_serialized_chia_program E program args max_cost flags = Some r \<and>
    (if \<exists>P V. blob_value no_refs program P \<and> blob_value no_refs args V
     then \<exists>P V. blob_value no_refs program P \<and> blob_value no_refs args V \<and>
       (case r of
          Ok (cost, ln) \<Rightarrow> \<exists>v. v_chia_run E flags P V max_cost = Some (Inr (cost, v)) \<and> rep (ln_allocator ln) (ln_node ln) v
        | Err (PyValueError msg ln) \<Rightarrow> \<exists>t. (v_chia_run E flags P V max_cost = Some (Inl (t, msg)) \<or> (t, msg) \<in> alloc_msgs) \<and>
            rep (ln_allocator ln) (ln_node ln) t
        | _ \<Rightarrow> False)
     else \<exists>er \<in> format_errs. r = Err (PyIoError er))"
proof -
  obtain a0 where al: "(py_allocator flags :: (PyErr, Allocator) outcome) = Ok a0" using py_allocator_tight by blast
  show ?thesis
  proof (rule py_load_room [OF assms(4,5) al assms(3)])
    fix p e a P V
    assume l: "py_load a0 program args = (Ok (p, e), a)" and v: "blob_value no_refs program P" "blob_value no_refs args V" "rep a p P" "rep a e V"
      "alloc_ok a" "10 * length (u8_vec a) + unat max_cost + 2500000200 \<le> 10 * heap_limit a" "heap_limit a \<le> u32_max"
    have E: "ext_laws E" using assms(1) by (simp add: point_laws_def)
    have m: "unat max_cost \<le> 2 ^ 61" using assms(3) by (simp split: if_splits)
    note stays = point_laws.chia_heap_pays [OF assms(1) v(5,3,4) assms(2) m v(6,7), of flags]
    obtain r a' where run: "run_program E (chia_dialect E flags) a p e max_cost = Some (r, a')" "good_end (v_chia_run E flags P V max_cost) r a'"
      using ext_laws.chia_run_total [OF E v(5,3,4) assms(2) m stays] by blast
    then show ?thesis using v(1,2)
      by (cases r) (auto simp: run_serialized_chia_program_def al l py_io_def good_end_def lazy_node_new_def)
  next
    fix er a
    assume l: "py_load a0 program args = (Err er, a)" and er: "er \<in> format_errs" "(\<nexists>t. blob_value no_refs program t) \<or> (\<nexists>t. blob_value no_refs args t)"
    then show ?thesis by (auto simp: run_serialized_chia_program_def al l py_io_def)
  qed
qed

theorem python_run_correct_witness:
  "\<exists>P V v. blob_value no_refs [1] P \<and> blob_value no_refs [0x80] V \<and>
     v_chia_run ref_ext 0 P V 1000 = Some (Inr (44, v)) \<and> rep (ex_new\<lparr> small_atoms := 3 \<rparr>) node_NIL v"
proof -
  have al: "py_allocator 0 = Ok ex_new" by (simp add: py_allocator_def ex_new)
  have run: "run_serialized_chia_program ref_ext [1] [0x80] 1000 0 = Some (Ok (44, lazy_node_new (ex_new\<lparr> small_atoms := 3 \<rparr>) node_NIL))"
    by (simp add: run_serialized_chia_program_def al ex_py_load py_io_def ex_path_run [OF ex_limits(1)])
  from python_run_correct [OF ref_points.point_laws_axioms, of 1000 0 "[1]" "[0x80]"] show ?thesis
    unfolding run by (auto simp: lazy_node_new_def split: if_splits)
qed

section \<open>The JavaScript module\<close>





end
