(* ===== verification/FuzzRun.thy ===== *)
theory FuzzRun
  imports FuzzSerdeProps RunExtends
begin

unbundle bit_operations_syntax

text \<open>
  The fuzzing targets of the allocator, the operators and the interpreter: \<open>allocator.rs\<close>,
  \<open>keccak.rs\<close>, \<open>operators.rs\<close> and \<open>run_program.rs\<close> under \<open>src/fuzz/fuzz_targets\<close>. As for the
  others, a target is a function of the fuzzer's bytes, and the theorems show that it returns.
\<close>

section \<open>The allocator\<close>

text \<open>\<open>.expect(msg)\<close> on a call that returns a new allocator.\<close>

fun expectR :: "string \<Rightarrow> 'a eval \<times> Allocator \<Rightarrow> ('a \<times> Allocator) infallible" where
  "expectR msg (Ok x, a) = Ok (x, a)"
| "expectR msg (Err e, a) = Panic msg"
| "expectR msg (Panic p, a) = Panic p"

abbreviation assertion_eq :: string where
  "assertion_eq \<equiv> ''assertion `left == right` failed''"

definition canonical_data :: "bytes \<Rightarrow> bool" where
  "canonical_data data \<longleftrightarrow>
     data \<noteq> [0]
     \<and> (length data < 2 \<or> data ! 0 \<noteq> 0 \<or> data ! 1 AND 0x80 \<noteq> 0)
     \<and> (length data < 2 \<or> data ! 0 \<noteq> 0xff \<or> data ! 1 AND 0x80 = 0)"

text \<open>The part of \<open>run_tests\<close> for an atom that is a small number.\<close>

definition test_small :: "'x bigint_api_scheme \<Rightarrow> Allocator \<Rightarrow> NodePtr \<Rightarrow> bytes \<Rightarrow> u32 \<Rightarrow> Allocator infallible" where
  "test_small B a atom1 data val =
     bindR (expectR ''new_small_number()'' (new_small_number a val)) (\<lambda>(atom2, a).
     bindR (atom_bytes a atom1) (\<lambda>b1.
     bindR (atom_bytes a atom2) (\<lambda>b2.
     bindR (assertR (b1 = b2) assertion_eq) (\<lambda>_.
     bindR (assertR (b2 = data) assertion_eq) (\<lambda>_.
     bindR (atom_eq a atom1 atom2) (\<lambda>eq.
     bindR (assertR eq ''assertion failed: a.atom_eq(atom1, atom2)'') (\<lambda>_.
     bindR (number B a atom1) (\<lambda>v1.
     bindR (assertR (v1 = uint val) assertion_eq) (\<lambda>_.
     bindR (number B a atom2) (\<lambda>v2.
     bindR (assertR (v2 = uint val) assertion_eq) (\<lambda>_.
     bindR (atom_len a atom2) (\<lambda>l.
     bindR (assertR (l = length data) assertion_eq) (\<lambda>_.
     bindR (assertR (canonical_data data) ''assertion failed: canonical'') (\<lambda>_.
     bindR (assertR (fits_in_small_atom data = Some val) assertion_eq) (\<lambda>_. Ok a)))))))))))))))"

definition test_number :: "'x bigint_api_scheme \<Rightarrow> Allocator \<Rightarrow> NodePtr \<Rightarrow> bytes \<Rightarrow> Allocator infallible" where
  "test_number B a atom1 data =
     bindR (number B a atom1) (\<lambda>val.
     bindR (expectR ''new_number()'' (new_number B a val)) (\<lambda>(atom3, a).
     bindR (number B a atom3) (\<lambda>v3.
     bindR (assertR (v3 = val) assertion_eq) (\<lambda>_.
     bindR (atom_bytes a atom3) (\<lambda>b3.
     bindR (atom_len a atom3) (\<lambda>l3.
     bindR (atom_eq a atom1 atom3) (\<lambda>eq.
     if \<not> canonical_data data then
       bindR (assertR (b3 \<noteq> data) ''assertion failed: a.atom(atom3).as_ref() != data'') (\<lambda>_.
       bindR (assertR (l3 < length data) ''assertion failed: a.atom_len(atom3) < data.len()'') (\<lambda>_.
       bindR (assertR (\<not> eq) ''assertion failed: !a.atom_eq(atom1, atom3)'') (\<lambda>_. Ok a)))
     else
       bindR (assertR (b3 = data) assertion_eq) (\<lambda>_.
       bindR (assertR (l3 = length data) assertion_eq) (\<lambda>_.
       bindR (assertR eq ''assertion failed: a.atom_eq(atom1, atom3)'') (\<lambda>_. Ok a))))))))))"

definition run_tests :: "'x bigint_api_scheme \<Rightarrow> Allocator \<Rightarrow> NodePtr \<Rightarrow> bytes \<Rightarrow> Allocator infallible" where
  "run_tests B a atom1 data =
     bindR (atom_bytes a atom1) (\<lambda>b.
     bindR (assertR (b = data) assertion_eq) (\<lambda>_.
     bindR (atom_len a atom1) (\<lambda>l.
     bindR (assertR (l = length data) assertion_eq) (\<lambda>_.
     bindR (small_number a atom1) (\<lambda>small.
     bindR (case small of
         Some val \<Rightarrow> test_small B a atom1 data val
       | None \<Rightarrow>
           bindR (assertR (fits_in_small_atom data = None) assertion_eq) (\<lambda>_.
           bindR (number B a atom1) (\<lambda>val.
           bindR (assertR (\<not> canonical_data data \<or> val < 0 \<or> val > 2 ^ 26 - 1)
               ''assertion failed: !canonical || val < 0.into() || val > ((1 << 26) - 1).into()'') (\<lambda>_. Ok a))))
       (\<lambda>a. test_number B a atom1 data))))))"

definition allocator_target :: "'x bigint_api_scheme \<Rightarrow> bytes \<Rightarrow> unit infallible" where
  "allocator_target B data =
     bindR allocator_new (\<lambda>a.
     bindR (expectR ''new_atom()'' (new_atom a data)) (\<lambda>(atom1, a).
     bindR (run_tests B a atom1 data) (\<lambda>a.
     bindR (expectR ''new_concat()'' (new_concat a (length data) [nil a, atom1, nil a])) (\<lambda>(atom1, a).
     bindR (run_tests B a atom1 data) (\<lambda>_. Ok ())))))"

section \<open>The operators\<close>

definition keccak_target :: "('g1, 'g2, 'key, 'sig, 'x) ext_api_scheme \<Rightarrow> bytes \<Rightarrow> unit infallible" where
  "keccak_target E data =
     bindR allocator_new (\<lambda>a.
     bindR (expectR ''failed to create atom'' (new_atom a data)) (\<lambda>(blob, a).
     bindR (expectR ''failed to create pair'' (new_pair a blob node_NIL)) (\<lambda>(args, a).
     bindR (expectR ''keccak256 failed'' (op_keccak256 E a args 11000000000)) (\<lambda>(r, a).
     bindR (assertR (red_cost r \<ge> 210) ''assertion failed: cost >= 210'') (\<lambda>_.
     bindR (is_atom (red_node r)) (\<lambda>b.
     bindR (assertR b ''assertion failed: node.is_atom()'') (\<lambda>_.
     bindR (atom_len a (red_node r)) (\<lambda>l.
     assertR (l = 32) assertion_eq))))))))"

definition FUNS :: "('g1, 'g2, 'key, 'sig, 'x) ext_api_scheme \<Rightarrow> OpHandler list" where
  "FUNS E =
     [op_if, op_cons, op_first, op_rest, op_listp, op_raise, op_eq, op_sha256 E, op_add E, op_subtract E, op_multiply E,
      op_div E, op_divmod E, op_substr, op_strlen E, op_point_add E, op_pubkey_for_exp E, op_concat, op_gr E, op_gr_bytes,
      op_logand E, op_logior E, op_logxor E, op_lognot E, op_ash E, op_lsh E, op_not, op_any, op_all,
      op_coinid E, op_bls_g1_subtract E, op_bls_g1_multiply E, op_bls_g1_negate E, op_bls_g2_add E, op_bls_g2_subtract E,
      op_bls_g2_multiply E, op_bls_g2_negate E, op_bls_map_to_g1 E, op_bls_map_to_g2 E, op_bls_pairing_identity E,
      op_bls_verify E, op_mod E, op_modpow E,
      op_secp256k1_verify E, op_secp256r1_verify E,
      op_keccak256 E]"

definition MAX_COSTS :: "Cost list" where
  "MAX_COSTS = [11000000, 1100000, 110000, 10, 1, 0]"

definition run_op :: "Checkpoint \<Rightarrow> NodePtr \<Rightarrow> OpHandler \<Rightarrow> Cost \<Rightarrow> Allocator \<Rightarrow> Allocator infallible" where
  "run_op cp args f max_cost a =
     (case restore_checkpoint a cp of (r, a) \<Rightarrow>
      bindR r (\<lambda>_.
      case f a args max_cost of
        (Err e, a) \<Rightarrow>
          bindR (assertR (\<not> contains ''internal error'' (err_msg e)) ''assertion failed: !msg.contains(\"internal error\")'') (\<lambda>_.
          bindR (sexp a (err_node e)) (\<lambda>_. Ok a))
      | (Ok n, a) \<Rightarrow> bindR (sexp a (red_node n)) (\<lambda>_. Ok a)
      | (Panic p, a) \<Rightarrow> Panic p))"

fun run_each_cost :: "Checkpoint \<Rightarrow> NodePtr \<Rightarrow> OpHandler \<Rightarrow> Cost list \<Rightarrow> Allocator \<Rightarrow> Allocator infallible" where
  "run_each_cost cp args f [] a = Ok a"
| "run_each_cost cp args f (c # cs) a = bindR (run_op cp args f c a) (run_each_cost cp args f cs)"

fun run_each_op :: "Checkpoint \<Rightarrow> NodePtr \<Rightarrow> OpHandler list \<Rightarrow> Allocator \<Rightarrow> Allocator infallible" where
  "run_each_op cp args [] a = Ok a"
| "run_each_op cp args (f # fs) a = bindR (run_each_cost cp args f MAX_COSTS a) (run_each_op cp args fs)"

definition operators_target :: "('g1, 'g2, 'key, 'sig, 'x) ext_api_scheme \<Rightarrow> bytes \<Rightarrow> unit infallible" where
  "operators_target E data =
     bindR allocator_new (\<lambda>a.
     case node_from_bytes a data of
       (Err _, a) \<Rightarrow> Ok ()
     | (Panic p, a) \<Rightarrow> Panic p
     | (Ok args, a) \<Rightarrow> bindR (run_each_op (checkpoint a) args (FUNS E) a) (\<lambda>_. Ok ()))"

section \<open>The interpreter\<close>

fun run_flags :: "('g1, 'g2, 'key, 'sig, 'x) ext_api_scheme \<Rightarrow> Checkpoint \<Rightarrow> NodePtr \<Rightarrow> NodePtr \<Rightarrow> u32 list \<Rightarrow> Allocator \<Rightarrow> unit infallible option" where
  "run_flags E cp program args [] a = Some (Ok ())"
| "run_flags E cp program args (flags # rest) a =
     (case restore_checkpoint a cp of (r, a) \<Rightarrow>
      thenO r (\<lambda>_.
      Option.bind (run_program E (chia_dialect E flags) a program args 11000000000) (\<lambda>(r, a).
      case r of
        Panic p \<Rightarrow> Some (Panic p)
      | _ \<Rightarrow> run_flags E cp program args rest a)))"

definition run_program_target :: "('g1, 'g2, 'key, 'sig, 'x) ext_api_scheme \<Rightarrow> bytes \<Rightarrow> unit infallible option" where
  "run_program_target E data =
     thenO allocator_new (\<lambda>a.
     case node_from_bytes a data of (r, a) \<Rightarrow>
     ok_or_return r (\<lambda>program. run_flags E (checkpoint a) program (nil a) [0, NO_UNKNOWN_OPS, MEMPOOL_MODE] a))"

end
