(* ===== verification/FuzzRunProps.thy ===== *)
theory FuzzRunProps
  imports FuzzRun
begin

unbundle bit_operations_syntax

text \<open>The targets of \<open>FuzzRun\<close> return on every input within the stated bounds: none of their assertions fails.\<close>

section \<open>The allocator\<close>

lemma canonical_data_iff: "canonical_data v \<longleftrightarrow> canonical v"
  by (cases v rule: canonical.cases) (auto simp: canonical_data_def and_80 not_less)

text \<open>The shortest form of an integer against any form of it.\<close>

lemma int_bytes_le: "length (int_bytes (be_signed v)) \<le> length v"
proof (cases "v = [] \<or> int_bytes (be_signed v) = []")
  case False
  then show ?thesis using canonical_shortest [of "int_bytes (be_signed v)" v] by simp
qed auto

lemma int_bytes_less: "\<not> canonical v \<Longrightarrow> length (int_bytes (be_signed v)) < length v"
  using int_bytes_le [of v] be_signed_inj [of v "int_bytes (be_signed v)"] canonical_iff [of v] by fastforce

lemma made_new_concat:
  assumes "tight a" "room (length (concat bss) + h) (Suc k) p a" "list_all2 (\<lambda>n bs. rep a n (CAtom bs)) ns bss"
  shows "made a h k p (CAtom (concat bss)) (new_concat a (length (concat bss)) ns)"
proof -
  let ?m = "new_concat a (length (concat bss)) ns"
  have "length (u8_vec a) \<le> heap_limit a" "alloc_ok a" using assms(1) by (simp_all add: tight_def)
  then have all: "allocates a (CAtom (concat bss)) ?m"
    using safe_new_concat [OF _ subset_refl assms(3) refl] extends_new_concat heap_new_concat [OF _ assms(3)] assms(1)
    by (intro allocatesI) auto
  have ok: "fst ?m = Ok (node_new OBytes (length (atom_vec a)))" and r: "room h k p (snd ?m)"
    using assms(2) concat_loop_rep [OF assms(3), of 0 "length (concat bss)" "length (u8_vec a)" "[]"]
    by (auto simp: new_concat_def Let_def check_atom_limit_def room_def usize_sub_def)
  then show ?thesis using all by (auto simp: made_def allocates_def)
qed

lemma test_small_returns:
  assumes B: "bigint_laws B" and a: "tight a" "room h (Suc k) p a" "rep a n (CAtom data)" and f: "fits_in_small_atom data = Some w"
  obtains a' where "test_small B a n data w = Ok a'" "tight a'" "room h k p a'" "extends a a'"
proof -
  note w = fits_in_small_atom_Some [OF f]
  obtain q a' where q: "new_small_number a w = (Ok q, a')" "rep a' q (CAtom data)" "tight a'" "room h k p a'" "extends a a'"
    using made_new_small_number [OF a(1,2) w(2)] w(1) by (auto elim: madeE)
  have n: "rep a' n (CAtom data)" by (rule rep_extends [OF a(3) q(5)])
  have "be_signed data = uint w" "canonical_data data" using w(1) by (simp_all add: canonical_data_iff)
  then have "test_small B a n data w = Ok a'" unfolding test_small_def
    by (simp add: q(1) rep_atom_bytes [OF n] rep_atom_bytes [OF q(2)] rep_atom_eq [OF n q(2)] rep_number [OF B n] rep_number [OF B q(2)]
        rep_atom_len [OF q(2)] f)
  then show thesis using that q by blast
qed

lemma test_number_returns:
  assumes B: "bigint_laws B" and a: "tight a" "room (length data + h) (Suc k) p a" "rep a n (CAtom data)"
  obtains a' where "test_number B a n data = Ok a'" "tight a'" "room h k p a'" "extends a a'"
proof -
  let ?v = "int_bytes (be_signed data)"
  have "room (length ?v + h) (Suc k) p a" using room_mono [OF a(2)] int_bytes_le [of data] by simp
  then obtain q a' where q: "new_number B a (be_signed data) = (Ok q, a')" "rep a' q (CAtom ?v)" "tight a'" "room h k p a'" "extends a a'"
    by (rule madeE [OF made_new_number [OF B a(1)]])
  have n: "rep a' n (CAtom data)" by (rule rep_extends [OF a(3) q(5)])
  have c: "canonical_data data \<longleftrightarrow> data = ?v" using canonical_iff canonical_data_iff by simp
  have l: "length ?v < length data" if "data \<noteq> ?v" using int_bytes_less that canonical_iff by blast
  have "test_number B a n data = Ok a'" unfolding test_number_def
    using c l by (auto simp: q(1) rep_number [OF B a(3)] rep_number [OF B q(2)] rep_atom_bytes [OF q(2)] rep_atom_len [OF q(2)]
        rep_atom_eq [OF n q(2)])
  then show thesis using that q by blast
qed

lemma run_tests_returns:
  assumes B: "bigint_laws B" and a: "tight a" "room (length data + h) (Suc (Suc k)) p a" "rep a n (CAtom data)"
  obtains a' where "run_tests B a n data = Ok a'" "tight a'" "room h k p a'" "extends a a'"
proof -
  note rd = rep_atom_bytes [OF a(3)] rep_atom_len [OF a(3)] rep_small_number [OF a(3)] rep_number [OF B a(3)]
  show thesis
  proof (cases "fits_in_small_atom data")
    case None
    have "\<not> canonical_data data \<or> be_signed data < 0 \<or> be_signed data > 2 ^ 26 - 1"
      using fits_in_small_atom_int_bytes [of "be_signed data"] None canonical_iff [of data] canonical_data_iff by fastforce
    moreover obtain a' where a': "test_number B a n data = Ok a'" "tight a'" "room h k p a'" "extends a a'"
      by (rule test_number_returns [OF B a(1) _ a(3), of h k p]) (use room_mono [OF a(2)] in auto)
    ultimately show thesis by (intro that [OF _ a'(2-4)]) (simp add: run_tests_def rd None)
  next
    case (Some w)
    obtain a1 where a1: "test_small B a n data w = Ok a1" "tight a1" "room (length data + h) (Suc k) p a1" "extends a a1"
      by (rule test_small_returns [OF B a Some])
    obtain a' where a': "test_number B a1 n data = Ok a'" "tight a'" "room h k p a'" "extends a1 a'"
      by (rule test_number_returns [OF B a1(2,3) rep_extends [OF a(3) a1(4)]])
    show thesis by (intro that [OF _ a'(2,3) extends_trans [OF a1(4) a'(4)]]) (simp add: run_tests_def rd Some a1(1) a'(1))
  qed
qed

text \<open>
  C38. The target \<open>allocator\<close>, on at most 10^9 bytes: an atom made of the bytes, and the concatenation of it with empty atoms,
  has these bytes and this length; it is a small number exactly when the bytes are the shortest form of
  one below 2^26; made again from its integer value it has the same value, is equal to the first atom
  when the bytes are the shortest form and shorter when they are not. No assertion of the target fails.
\<close>

theorem allocator_target_returns:
  assumes "bigint_laws B" "length data \<le> 1000000000"
  shows "allocator_target B data = Ok ()"
proof -
  have "room (length data + (length data + (length data + (length data + 0)))) (Suc (Suc (Suc (Suc (Suc (Suc 0)))))) 0 ex_new"
    by (rule ex_new_room) (use assms(2) in simp_all)
  from made_new_atom [OF ex_new_tight this] obtain n a1 where
    n: "new_atom ex_new data = (Ok n, a1)" "rep a1 n (CAtom data)" "tight a1"
      "room (length data + (length data + (length data + 0))) (Suc (Suc (Suc (Suc (Suc 0))))) 0 a1" by (auto elim: madeE)
  obtain a2 where a2: "run_tests B a1 n data = Ok a2" "tight a2" "room (length data + (length data + 0)) (Suc (Suc (Suc 0))) 0 a2" "extends a1 a2"
    by (rule run_tests_returns [OF assms(1) n(3,4,2)])
  have "list_all2 (\<lambda>n bs. rep a2 n (CAtom bs)) [nil a2, n, nil a2] [[], data, []]"
    using rep_extends [OF n(2) a2(4)] by (simp add: nil_def)
  from made_new_concat [OF a2(2) _ this, of "length data + 0" "Suc (Suc 0)" 0] a2(3) obtain m a3 where
    m: "new_concat a2 (length data) [nil a2, n, nil a2] = (Ok m, a3)" "rep a3 m (CAtom data)" "tight a3" "room (length data + 0) (Suc (Suc 0)) 0 a3"
    by (auto elim: madeE)
  obtain a4 where "run_tests B a3 m data = Ok a4" by (rule run_tests_returns [OF assms(1) m(3,4,2)])
  then show ?thesis using m(1) by (simp add: allocator_target_def ex_new n(1) a2(1))
qed

theorem allocator_target_witness: "allocator_target ref_ext [0, 0x80] = Ok ()"
  using allocator_target_returns [OF ref_libs.bigint_laws_axioms, of "[0, 0x80]"] by simp

section \<open>The operators\<close>

text \<open>What the targets need of an operator: it refines a specification without internal errors and keeps the heap small.\<close>

definition tame :: "OpHandler \<Rightarrow> bool" where
  "tame f \<longleftrightarrow> (\<exists>g. handler_rel f g \<and> (\<forall>t m. quiet_res (g t m))) \<and>
     (\<forall>a n t m. alloc_ok a \<longrightarrow> rep a n t \<longrightarrow> fits_heap a (snd (f a n m)))"

lemma tameI:
  "handler_rel f g \<Longrightarrow> (\<And>t m. quiet_res (g t m)) \<Longrightarrow> (\<And>a n m. in_limit a (snd (f a n m))) \<Longrightarrow> tame f"
  unfolding tame_def using fits_heap_within by blast

lemma list_all2_member: "list_all2 R xs ys \<Longrightarrow> x \<in> set xs \<Longrightarrow> \<exists>y \<in> set ys. R x y"
  by (induction rule: list_all2_induct) auto

context ext_laws
begin

lemma quiet_chia_ops: "list_all (\<lambda>(c, g). \<forall>t m. quiet_res (g t m)) (v_chia_ops E)"
  by (simp add: v_chia_ops_def quiet_res_ops)

lemma tame_chia_ops:
  assumes "(c, f) \<in> set (chia_ops E)"
  shows "tame f"
proof -
  obtain g where "handler_rel f g" "(c, g) \<in> set (v_chia_ops E)"
    using list_all2_member [OF chia_ops_rel assms] by auto
  moreover have "quiet_res (g t m)" for t m using quiet_chia_ops calculation(2) by (auto simp: list_all_iff)
  ultimately show ?thesis unfolding tame_def using fits_heap_chia_ops assms by blast
qed

lemma tame_others: "tame (op_keccak256 E)" "tame (op_secp256k1_verify E)" "tame (op_secp256r1_verify E)"
proof -
  note facts = handler_rel_def ext_intros op_refines quiet_res_ops in_limit_intros
  show "tame (op_keccak256 E)" by (rule tameI [where g = "v_hash ''keccak256'' 50 160 (keccak256 E)"]) (simp_all add: facts)
  show "tame (op_secp256k1_verify E)"
    by (rule tameI [where g = "v_secp_verify ''secp256k1_verify'' 1300000 (k1_from_sec1_bytes E) (k1_sig_from_slice E) (k1_verify_prehash E)"])
       (simp_all add: facts)
  show "tame (op_secp256r1_verify E)"
    by (rule tameI [where g = "v_secp_verify ''secp256r1_verify'' 1850000 (r1_from_sec1_bytes E) (r1_sig_from_slice E) (r1_verify_prehash E)"])
       (simp_all add: facts)
qed

lemma FUNS_tame: "\<forall>f \<in> set (FUNS E). tame f"
proof -
  have "\<forall>f \<in> snd ` set (chia_ops E). tame f" using tame_chia_ops by auto
  then show ?thesis using tame_others by (simp add: FUNS_def chia_ops_def)
qed

end

text \<open>One call, and all of them, between two restorations of the checkpoint.\<close>

lemma sexp_then: "rep a n t \<Longrightarrow> bindR (sexp a n) (\<lambda>_. x) = x"
  by (cases t) (simp_all add: rep_sexp_atom rep_sexp_pair)

lemma run_op_returns:
  assumes f: "tame f" and a: "alloc_ok a" "rep a n t" "length (u8_vec a) + 4 \<le> heap_limit a" "heap_limit a \<le> u32_max" and "extends a a'"
  obtains a'' where "run_op (checkpoint a) n f c a' = Ok a''" "extends a a''"
proof -
  obtain r a'' where ra: "f a n c = (r, a'')" by fastforce
  obtain g where g: "handler_rel f g" "quiet_res (g t c)" using f by (auto simp: tame_def)
  have "extends a (snd (f a n c))" using g(1) by (simp add: handler_rel_def)
  then have ext: "extends a a''" by (simp add: ra)
  have "fits_heap a (snd (f a n c))" using f a(1,2) unfolding tame_def by blast
  then have "fits_heap a a''" by (simp add: ra)
  then have "heap_ok a''" using a(3,4) by (simp add: fits_heap_def heap_ok_def)
  moreover have "refines (g t c) (f a n c)" using g(1) a(1,2) unfolding handler_rel_def by blast
  ultimately have r: "case r of Ok x \<Rightarrow> \<exists>v. rep a'' (red_node x) v
      | Err e \<Rightarrow> \<not> contains ''internal error'' (err_msg e) \<and> (\<exists>u. rep a'' (err_node e) u) | Panic _ \<Rightarrow> False"
    using g(2) unfolding ra by (auto simp: refines_def safe_def quiet_res_def alloc_msgs_def split: outcome.splits)
  note restored = restore_checkpoint_extends [OF assms(6)]
  have "run_op (checkpoint a) n f c a' = Ok a''"
    using r by (auto simp: run_op_def restored ra sexp_then split: outcome.splits)
  then show thesis using that ext by blast
qed

lemma run_each_cost_returns:
  assumes "tame f" "alloc_ok a" "rep a n t" "length (u8_vec a) + 4 \<le> heap_limit a" "heap_limit a \<le> u32_max" "extends a a'"
  obtains a'' where "run_each_cost (checkpoint a) n f cs a' = Ok a''" "extends a a''"
  using assms(6)
proof (induction cs arbitrary: a' thesis)
  case (Cons c cs)
  obtain b where "run_op (checkpoint a) n f c a' = Ok b" "extends a b" by (rule run_op_returns [OF assms(1-5) Cons.prems(2)])
  then show ?case using Cons.IH Cons.prems(1) by auto
qed simp

lemma run_each_op_returns:
  assumes "\<forall>f \<in> set fs. tame f" "alloc_ok a" "rep a n t" "length (u8_vec a) + 4 \<le> heap_limit a" "heap_limit a \<le> u32_max" "extends a a'"
  obtains a'' where "run_each_op (checkpoint a) n fs a' = Ok a''" "extends a a''"
  using assms(1,6)
proof (induction fs arbitrary: a' thesis)
  case (Cons f fs)
  have "tame f" using Cons.prems(2) by simp
  obtain b where "run_each_cost (checkpoint a) n f MAX_COSTS a' = Ok b" "extends a b"
    by (rule run_each_cost_returns [OF \<open>tame f\<close> assms(2-5) Cons.prems(3)])
  then show ?case using Cons.IH Cons.prems(1,2) by auto
qed simp

text \<open>
  C10. The target \<open>operators\<close>, on at most 62,499,998 bytes: every operator, called with whatever
  arguments the bytes hold and with every cost limit of the list, succeeds or fails with a node of the allocator and with a message that
  reports no internal error. The checkpoint is restored before each call, and nothing panics.
\<close>

theorem operators_target_returns:
  assumes "ext_laws E" "length data \<le> 62499998"
  shows "operators_target E data = Ok ()"
proof -
  have "room (length data + 4) (length data + 0) (length data + 0) ex_new" by (rule ex_new_room) (use assms(2) in simp_all)
  note r = node_from_bytes_room [OF ex_new_tight this]
  show ?thesis
  proof (cases "parsable no_refs (CAtom []) data")
    case True
    with r obtain n a t where t: "node_from_bytes ex_new data = (Ok n, a)" "rep a n t" "tight a" "room 4 0 0 a" by auto
    obtain a' where "run_each_op (checkpoint a) n (FUNS E) a = Ok a'"
      by (rule run_each_op_returns [OF ext_laws.FUNS_tame [OF assms(1)] tight_alloc_ok [OF t(3)] t(2) _ _ extends_refl])
         (use t(4) in \<open>auto simp: room_def\<close>)
    then show ?thesis by (simp add: operators_target_def ex_new t(1))
  qed (use r in \<open>auto simp: operators_target_def ex_new\<close>)
qed

theorem operators_target_witness: "operators_target ref_ext [0xff, 5, 0x80] = Ok ()"
  using operators_target_returns [OF ref_libs.ext_laws_axioms, of "[0xff, 5, 0x80]"] by simp

lemma length_word: "length (xs :: bytes) \<le> 4294967262 \<Longrightarrow> unat (of_nat (length xs) :: Cost) = length xs"
  by (simp add: unat_of_nat take_bit_nat_eq_self)

text \<open>The target \<open>keccak\<close>: the digest of one atom.\<close>

lemma keccak_target_returns:
  assumes "ext_laws E" "length data \<le> 4294967262"
  shows "keccak_target E data = Ok ()"
proof -
  have len: "length (keccak256 E v) = 32" for v by (rule ext_laws.keccak256_length [OF assms(1)])
  have "room (length data + (32 + 0)) (Suc (Suc 0)) (Suc 0) ex_new" by (rule ex_new_room) (use assms(2) in simp_all)
  from made_new_atom [OF ex_new_tight this] obtain n a1 where
    n: "new_atom ex_new data = (Ok n, a1)" "rep a1 n (CAtom data)" "tight a1" "room (32 + 0) (Suc 0) (Suc 0) a1" by (rule madeE)
  from made_new_pair [OF n(3,4,2) rep_NIL] obtain q a2 where
    q: "new_pair a1 n node_NIL = (Ok q, a2)" "rep a2 q (CPair (CAtom data) (CAtom []))" "tight a2" "room (32 + 0) (Suc 0) 0 a2" by (rule madeE)
  have "reads a2 (=) (foldV (v_hash_step ''keccak256'' 160 11000000000) (citems (CPair (CAtom data) (CAtom []))) (50, 0, []))
      (while_next a2 q (50, 0, []) (keccak256_step a2 11000000000))"
    by (rule reads_loop [OF tight_alloc_ok [OF q(3)] q(2) reads_keccak256_step])
  then have loop: "while_next a2 q (50, 0, []) (keccak256_step a2 11000000000) = Ok (210, length data, data)"
    by (auto simp: reads_def v_hash_step_def v_cost.simps split: outcome.splits)
  from made_new_atom [OF q(3), of "keccak256 E data" 0 0 0] q(4) obtain r a3 where
    r: "new_atom a2 (keccak256 E data) = (Ok r, a3)" "rep a3 r (CAtom (keccak256 E data))" by (auto simp: len elim: madeE)
  let ?c = "210 + of_nat (length data) * 2 + 320 :: Cost"
  have op: "op_keccak256 E a2 q 11000000000 = (Ok (Reduction ?c r), a3)"
    by (simp add: op_keccak256_def KECCAK256_BASE_COST_def KECCAK256_COST_PER_BYTE_def loop new_atom_and_cost_def r(1) len
        MALLOC_COST_PER_BYTE_def)
  have "unat ?c = 530 + 2 * length data" using assms(2)
    by (simp add: unat_word_ariths length_word)
  then have cost: "210 \<le> ?c" by (simp add: word_le_nat_alt)
  have atom: "bindR (is_atom r) f = f True" for f :: "bool \<Rightarrow> unit infallible"
    using r(2) by (auto simp: is_atom_def object_type_kind elim!: rep_CAtomE)
  show ?thesis using cost by (simp add: keccak_target_def ex_new n(1) q(1) op len atom rep_atom_len [OF r(2)])
qed

section \<open>The interpreter\<close>

text \<open>
  C11. The target \<open>run_program\<close>, on at most 62,499,998 bytes: the value of the bytes, run as a program on the empty environment
  under each of the three sets of flags, with the allocator reset in between: every run returns, none
  of them panics, and the reset never fails.
\<close>

theorem run_program_target_returns:
  assumes "point_laws E" "length data \<le> 62499998"
  shows "run_program_target E data = Some (Ok ())"
proof -
  have E: "ext_laws E" using assms(1) by (simp add: point_laws_def)
  have "room (length data + 4200000000) (length data + 0) (length data + 0) ex_new" by (rule ex_new_room) (use assms(2) in simp_all)
  note r = node_from_bytes_room [OF ex_new_tight this]
  show ?thesis
  proof (cases "parsable no_refs (CAtom []) data")
    case True
    with r obtain n a t where t: "node_from_bytes ex_new data = (Ok n, a)" "rep a n t" "tight a" "room 4200000000 0 0 a" "extends ex_new a" by auto
    have a: "alloc_ok a" "heap_limit a = 4294967294" "length (u8_vec a) \<le> 2 ^ 31"
      using t(3-5) by (auto simp: tight_def extends_def ex_new_def room_def)
    have "run_flags E (checkpoint a) n (nil a) flags b = Some (Ok ())" if "extends a b" for flags b
      using that
    proof (induction flags arbitrary: b)
      case (Cons f fs)
      note restored = restore_checkpoint_extends [OF Cons.prems]
      obtain r a' where run: "run_program E (chia_dialect E f) a n (nil a) 11000000000 = Some (r, a')"
          "good_end (v_chia_run E f t (CAtom []) 11000000000) r a'"
        using ext_laws.chia_run_total [OF E a(1) t(2), of "nil a" "CAtom []" 11000000000 f]
          point_laws.chia_heap_stays [OF assms(1) a(1) t(2) _ _ _ a(3,2), of "nil a" "CAtom []" 11000000000 f] by (auto simp: nil_def)
      have "extends a a'" by (rule ext_laws.chia_run_extends [OF E run(1)])
      from Cons.IH [OF this] show ?case using run by (cases r) (auto simp: restored good_end_def)
    qed simp
    from this [OF extends_refl] show ?thesis by (simp add: run_program_target_def t(1) del: run_flags.simps)
  qed (use r in \<open>auto simp: run_program_target_def\<close>)
qed

theorem run_program_target_witness: "run_program_target ref_ext [0xff, 1, 5] = Some (Ok ())"
  using run_program_target_returns [OF ref_points.point_laws_axioms, of "[0xff, 1, 5]"] by simp

end
