(* ===== verification/FuzzCorpus.thy ===== *)
theory FuzzCorpus
  imports FuzzTrees Ser
begin

unbundle bit_operations_syntax

text \<open>
  The generator of the fuzzing corpus, \<open>src/tools/src/bin/generate-fuzz-corpus.rs\<close>: it writes calls
  of the operators with random operands, guided by a table of the operators and their types, to the
  files that the fuzzer starts from. The random generator of the crate \<open>rand\<close> is a parameter; the
  recursion of the generator has no bound but the chance that it goes on, so the model has fuel.
\<close>

section \<open>Types and operators\<close>

datatype Type = Program | Tree | List | Bool | Int64 | Int32 | Zero | Cost | G1Point | G2Point | Sec1 | Sig
  | Bytes20 | Bytes32 | Bytes96 | AnyAtom

definition ATOMS :: "Type list" where
  "ATOMS = [Bool, Int64, Int32, Zero, Cost, G1Point, G2Point, Sec1, Sig, Bytes20, Bytes32, Bytes96]"

record OperatorInfo =
  opcode :: u32
  op_result :: Type
  operands :: "Type list"

definition op_info :: "u32 \<Rightarrow> Type list \<Rightarrow> Type \<Rightarrow> OperatorInfo" where
  "op_info code args res = \<lparr> opcode = code, op_result = res, operands = args \<rparr>"

definition OPERATORS :: "OperatorInfo list" where
  "OPERATORS =
     [op_info 2 [Program, Tree] AnyAtom, op_info 3 [Bool, Program, Program] Program, op_info 4 [AnyAtom, List] List,
      op_info 5 [List] AnyAtom, op_info 6 [List] List, op_info 7 [List] Bool, op_info 8 [AnyAtom] AnyAtom,
      op_info 9 [AnyAtom, AnyAtom] Bool, op_info 10 [AnyAtom, AnyAtom] Bool, op_info 11 [AnyAtom, AnyAtom, AnyAtom] Bytes32,
      op_info 12 [AnyAtom, Int32] AnyAtom, op_info 12 [AnyAtom, Int32, Int32] AnyAtom, op_info 13 [AnyAtom] Int32,
      op_info 14 [AnyAtom, AnyAtom] AnyAtom, op_info 14 [Int64, Int64, Int32] Bytes20, op_info 14 [Bytes32, Bytes32, Bytes32] Bytes96,
      op_info 14 [AnyAtom, AnyAtom, AnyAtom] AnyAtom, op_info 16 [] Int64, op_info 16 [Int64] Int64, op_info 16 [Int64, Int64] Int64,
      op_info 16 [Int64, Int64, Int64] Int64, op_info 17 [] Int64, op_info 17 [Int64] Int64, op_info 17 [Int64, Int64] Int64,
      op_info 17 [Int64, Int64, Int64] Int64, op_info 18 [Int64, Int64] Int64, op_info 19 [Int64, Int64] Int64,
      op_info 20 [Int64, Int64] List, op_info 21 [Int64, Int64] Bool, op_info 22 [Int64, Int32] Int64,
      op_info 23 [Int64, Int32] Int64, op_info 24 [] AnyAtom, op_info 24 [AnyAtom] AnyAtom, op_info 24 [AnyAtom, AnyAtom] AnyAtom,
      op_info 24 [AnyAtom, AnyAtom, AnyAtom] AnyAtom, op_info 25 [] AnyAtom, op_info 25 [AnyAtom] AnyAtom,
      op_info 25 [AnyAtom, AnyAtom] AnyAtom, op_info 25 [AnyAtom, AnyAtom, AnyAtom] AnyAtom, op_info 26 [] AnyAtom,
      op_info 26 [AnyAtom] AnyAtom, op_info 26 [AnyAtom, AnyAtom] AnyAtom, op_info 26 [AnyAtom, AnyAtom, AnyAtom] AnyAtom,
      op_info 27 [AnyAtom] AnyAtom, op_info 29 [] G1Point, op_info 29 [G1Point] G1Point, op_info 29 [G1Point, G1Point] G1Point,
      op_info 29 [G1Point, G1Point, G1Point] G1Point, op_info 30 [AnyAtom] G1Point, op_info 32 [AnyAtom] Bool,
      op_info 33 [AnyAtom, AnyAtom] Bool, op_info 34 [AnyAtom, AnyAtom] Bool, op_info 36 [Cost, Zero, Program, Tree] Bool,
      op_info 48 [Bytes32, Bytes32, Int64] Bytes32, op_info 49 [G1Point, G1Point] G1Point, op_info 50 [G1Point, Int64] G1Point,
      op_info 50 [G1Point, Bytes32] G1Point, op_info 50 [G1Point, Bytes96] G1Point, op_info 51 [G1Point] G1Point,
      op_info 52 [G2Point, G2Point] G2Point, op_info 53 [G2Point, G2Point] G2Point, op_info 54 [G2Point, Int64] G2Point,
      op_info 54 [G2Point, Bytes32] G2Point, op_info 54 [G2Point, Bytes96] G2Point, op_info 55 [G2Point] G2Point,
      op_info 56 [AnyAtom, AnyAtom] G1Point, op_info 56 [AnyAtom] G1Point, op_info 57 [AnyAtom, AnyAtom] G2Point,
      op_info 57 [AnyAtom] G2Point, op_info 58 [G2Point, G1Point] Zero, op_info 58 [G2Point, G1Point, G2Point, G1Point] Zero,
      op_info 58 [G2Point, G1Point, G2Point, G1Point, G2Point, G1Point] Zero, op_info 59 [G2Point] Zero,
      op_info 59 [G2Point, G1Point, Bytes20] Zero, op_info 59 [G2Point, G1Point, AnyAtom] Zero,
      op_info 59 [G2Point, G1Point, AnyAtom, G1Point, AnyAtom] Zero,
      op_info 59 [G2Point, G1Point, AnyAtom, G1Point, AnyAtom, G1Point, AnyAtom] Zero, op_info 0x13d61f00 [Sec1, Bytes32, Sig] Zero,
      op_info 0x1c3a8f00 [Sec1, Bytes32, Sig] Zero, op_info 60 [Int64, Int64, Int64] Int64,
      op_info 60 [Bytes32, Int64, Bytes32] Bytes32, op_info 61 [Int64, Int64] Int64, op_info 61 [Bytes32, Bytes32] Bytes32,
      op_info 62 [AnyAtom] Bytes32, op_info 62 [AnyAtom, AnyAtom] Bytes32, op_info 62 [AnyAtom, AnyAtom, AnyAtom] Bytes32]"

definition type_convertible :: "Type \<Rightarrow> Type \<Rightarrow> bool" where
  "type_convertible from to \<longleftrightarrow>
     from = to
     \<or> to = AnyAtom \<and> from \<in> set ATOMS
     \<or> to = Tree \<and> from = List
     \<or> to = Zero \<and> from = Int32
     \<or> to = Cost \<and> from = Int64"

section \<open>Values\<close>

definition ZEROS :: bytes where
  "ZEROS = replicate 96 0"

definition INTERESTING_U32 :: "u32 list" where
  "INTERESTING_U32 = [0, 1, 5, 0xff, 0xffff, 0x100, 0xffffffff, 0x7fffffff, 0x800000]"

definition INTERESTING_U64 :: "u64 list" where
  "INTERESTING_U64 = [0, 1, 5, 0xff, 0xffffffffffffffff, 0x100, 0x8000000000000000, 0x7fffffffffffffff]"

definition G1POINTS :: "bytes list" where
  "G1POINTS =
     [be_bytes 48 0xc00000000000000000000000000000000000000000000000000000000000000000000000000000000000000000000000,
      be_bytes 48 0x8b202593319bce41b090f3309986de59861ab1e2ff32aef871d83f9aac232c7253c01f1f649c6f69879c441286319de4,
      be_bytes 48 0xb7f1d3a73197d7942695638c4fa9ac0fc3688c4f9774b905a14e3a3f171bac586c55e83ff97a1aeffb3af00adb22c6bb]"

definition G2POINTS :: "bytes list" where
  "G2POINTS =
     [be_bytes 96 0xc00000000000000000000000000000000000000000000000000000000000000000000000000000000000000000000000000000000000000000000000000000000000000000000000000000000000000000000000000000000000000000000000,
      be_bytes 96 0x80c37921e62092ef55f85f9eccb21bd80cfaafc0bce9cbdd6999b1a8cabadc8f23720f0261efafaf53cbcc74580b9432007b66d824668900a94934f184bc41bf9ccf9ec141c6f7da610aa7296cd0a181ae8fe176b607aa4c367f15ee0cb985d7,
      be_bytes 96 0x942adad4dbeadcfd75aaa11940a5e5e16a8d8e91742029a3944610635ccc0572eceeb1c89d8a0e904c5d30b9497e700312dee7b833535effef24953dbf8f8aa770e2f1a8e01d3b6f6844e01a635ed95664babe9d62a2572651d0258461c8ba00]"

definition BYTES20 :: "bytes list" where
  "BYTES20 =
     [be_bytes 20 0x39cb1950dba19a7bee9924b5bd2b29f190ffe4ef]"

definition BYTES32 :: "bytes list" where
  "BYTES32 =
     [be_bytes 32 0x9f86d081884c7d659a2feaa0c55ad015a3bf4f1b2b0b822cd15d6c15b0f00a08,
      be_bytes 32 0x74c2941eb2ebe5aa4f2287a4c5e506a6290c045004058de97a7edf0122548668]"

definition SEC1 :: "bytes list" where
  "SEC1 =
     [be_bytes 33 0x02888b0c110ef0b4962e3fc6929cbba7a8bb25b4b2c885f55c76365018c909b439,
      be_bytes 65 0x0437a1674f3883b7171a11a20140eee014947b433723cf9f181a18fee4fcf96056103b3ff2318f00cca605e6f361d18ff0d2d6b817b1fa587e414f8bb1ab60d2b9]"

definition SIG :: "bytes list" where
  "SIG =
     [be_bytes 64 0x1acb7a6e062e78ccd4237b12c22f02b5a8d9b33cb3ba13c35e88e036baa1cbca75253bb9a96ffc48b43196c69c2972d8f965b1baa4e52348d8081cde65e6c018,
      be_bytes 64 0xe8de121f4cceca12d97527cc957cca64a4bcfc685cffdee051b38ee81cb22d7e2c187fec82c731018ed2d56f08a4a5cbc40c5bfe9ae18c02295bb65e7f605ffc]"

section \<open>Random choices\<close>

text \<open>
  What the generator uses of a random number generator with states \<open>'r\<close>: \<open>gen_bool\<close> with the chance
  in percent, and \<open>gen_range\<close> for a range that starts at 0 and is not empty.
\<close>

record 'r rng_api =
  gen_bool :: "'r \<Rightarrow> nat \<Rightarrow> bool \<times> 'r"
  gen_range :: "'r \<Rightarrow> nat \<Rightarrow> nat \<times> 'r"

definition sample :: "'r rng_api \<Rightarrow> 'r \<Rightarrow> 'a list \<Rightarrow> ('a \<times> 'r) infallible" where
  "sample R rng vec =
     (if vec = [] then Panic ''cannot sample empty range''
      else case gen_range R rng (length vec) of (i, rng) \<Rightarrow> bindR (get_idx vec i) (\<lambda>x. Ok (x, rng)))"

definition rand_atom_type :: "'r rng_api \<Rightarrow> 'r \<Rightarrow> (Type \<times> 'r) infallible" where
  "rand_atom_type R rng =
     (case gen_range R rng (length ATOMS) of (i, rng) \<Rightarrow> bindR (get_idx ATOMS i) (\<lambda>t. Ok (t, rng)))"

section \<open>Writing\<close>

fun expectW :: "string \<Rightarrow> unit io \<times> bytes \<Rightarrow> bytes infallible" where
  "expectW msg (Ok _, buf) = Ok buf"
| "expectW msg (Err e, buf) = Panic msg"
| "expectW msg (Panic p, buf) = Panic p"

definition put_atom :: "bytes \<Rightarrow> bytes \<Rightarrow> bytes infallible" where
  "put_atom buf v = expectW ''write_atom failed'' (write_atom vec_write_all buf v)"

fun strip_redundant :: "bytes \<Rightarrow> bytes" where
  "strip_redundant (b0 # b1 # bs) = (if b0 = 0 \<and> b1 AND 0x80 = 0 then strip_redundant (b1 # bs) else b0 # b1 # bs)"
| "strip_redundant bs = bs"

definition write_int :: "bytes \<Rightarrow> u64 \<Rightarrow> bytes infallible" where
  "write_int buf val =
     (if val = 0 then Ok (buf @ [0x80])
      else put_atom buf (strip_redundant (be_bytes 8 (unat val))))"

section \<open>Generating\<close>

text \<open>The branches of \<open>generate\<close> that write one atom and call nothing.\<close>

fun generate_atom :: "'r rng_api \<Rightarrow> Type \<Rightarrow> 'r \<Rightarrow> bytes \<Rightarrow> ('r \<times> bytes) infallible" where
  "generate_atom R Bool rng buf =
     (case gen_bool R rng 50 of (b, rng) \<Rightarrow> Ok (rng, buf @ [if b then 0x80 else 1]))"
| "generate_atom R Int64 rng buf =
     bindR (sample R rng INTERESTING_U64) (\<lambda>(v, rng). bindR (write_int buf v) (\<lambda>buf. Ok (rng, buf)))"
| "generate_atom R Int32 rng buf =
     bindR (sample R rng INTERESTING_U32) (\<lambda>(v, rng). bindR (write_int buf (ucast v)) (\<lambda>buf. Ok (rng, buf)))"
| "generate_atom R Zero rng buf = Ok (rng, buf @ [0x80])"
| "generate_atom R Cost rng buf = bindR (put_atom buf (be_bytes 8 8000000000)) (\<lambda>buf. Ok (rng, buf))"
| "generate_atom R G1Point rng buf = bindR (sample R rng G1POINTS) (\<lambda>(v, rng). bindR (put_atom buf v) (\<lambda>buf. Ok (rng, buf)))"
| "generate_atom R G2Point rng buf = bindR (sample R rng G2POINTS) (\<lambda>(v, rng). bindR (put_atom buf v) (\<lambda>buf. Ok (rng, buf)))"
| "generate_atom R Bytes20 rng buf = bindR (sample R rng BYTES20) (\<lambda>(v, rng). bindR (put_atom buf v) (\<lambda>buf. Ok (rng, buf)))"
| "generate_atom R Bytes32 rng buf = bindR (sample R rng BYTES32) (\<lambda>(v, rng). bindR (put_atom buf v) (\<lambda>buf. Ok (rng, buf)))"
| "generate_atom R Sec1 rng buf = bindR (sample R rng SEC1) (\<lambda>(v, rng). bindR (put_atom buf v) (\<lambda>buf. Ok (rng, buf)))"
| "generate_atom R Sig rng buf = bindR (sample R rng SIG) (\<lambda>(v, rng). bindR (put_atom buf v) (\<lambda>buf. Ok (rng, buf)))"
| "generate_atom R Bytes96 rng buf = bindR (put_atom buf (take 96 ZEROS)) (\<lambda>buf. Ok (rng, buf))"
| "generate_atom R _ rng buf = Ok (rng, buf)"

text \<open>One side of a tree: a tree again with a chance of 10 percent.\<close>

definition rand_side :: "'r rng_api \<Rightarrow> 'r \<Rightarrow> (Type \<times> 'r) infallible" where
  "rand_side R rng = (case gen_bool R rng 10 of (b, rng) \<Rightarrow> if b then Ok (Tree, rng) else rand_atom_type R rng)"

text \<open>
  The mutual recursion. \<open>generate_operands\<close> is the loop of \<open>generate_program\<close> over the operands and
  \<open>generate_items\<close> the loop of \<open>generate\<close> over the items of a list; the fuel counts nested calls.
\<close>

function (sequential) generate_program :: "'r rng_api \<Rightarrow> nat \<Rightarrow> OperatorInfo \<Rightarrow> 'r \<Rightarrow> bytes \<Rightarrow> ('r \<times> bytes) infallible option"
  and generate_operands :: "'r rng_api \<Rightarrow> nat \<Rightarrow> Type list \<Rightarrow> 'r \<Rightarrow> bytes \<Rightarrow> ('r \<times> bytes) infallible option"
  and generate :: "'r rng_api \<Rightarrow> nat \<Rightarrow> Type \<Rightarrow> 'r \<Rightarrow> bytes \<Rightarrow> ('r \<times> bytes) infallible option"
  and generate_items :: "'r rng_api \<Rightarrow> nat \<Rightarrow> nat \<Rightarrow> 'r \<Rightarrow> bytes \<Rightarrow> ('r \<times> bytes) infallible option" where
  "generate_program R 0 info rng buf = None"
| "generate_program R (Suc k) info rng buf =
     thenO (write_int (buf @ [0xff]) (ucast (opcode info))) (\<lambda>buf.
     bindO (generate_operands R k (operands info) rng buf) (\<lambda>(rng, buf).
     Some (Ok (rng, buf @ [0x80]))))"
| "generate_operands R k [] rng buf = Some (Ok (rng, buf))"
| "generate_operands R k (arg # args) rng buf =
     (let buf = buf @ [0xff] in
      case gen_bool R rng 30 of (b, rng) \<Rightarrow>
      bindO
        (if b then
           (let potential_ops = filter (\<lambda>info. type_convertible (op_result info) arg) OPERATORS in
            if potential_ops = [] then generate R k arg rng (buf @ [0xff, 1])
            else thenO (sample R rng potential_ops) (\<lambda>(sub_op, rng). generate_program R k sub_op rng buf))
         else generate R k arg rng (buf @ [0xff, 1]))
        (\<lambda>(rng, buf). generate_operands R k args rng buf))"
| "generate R 0 t rng buf = None"
| "generate R (Suc k) Tree rng buf =
     (let buf = buf @ [0xff] in
      thenO (rand_side R rng) (\<lambda>(left_side, rng).
      thenO (rand_side R rng) (\<lambda>(right_side, rng).
      bindO (generate R k left_side rng buf) (\<lambda>(rng, buf).
      generate R k right_side rng buf))))"
| "generate R (Suc k) List rng buf =
     (case gen_range R rng 10 of (len, rng) \<Rightarrow>
      bindO (generate_items R k len rng buf) (\<lambda>(rng, buf). Some (Ok (rng, buf @ [0x80]))))"
| "generate R (Suc k) Program rng buf =
     thenO (sample R rng OPERATORS) (\<lambda>(info, rng). generate_program R k info rng buf)"
| "generate R (Suc k) AnyAtom rng buf =
     thenO (rand_atom_type R rng) (\<lambda>(t, rng). generate R k t rng buf)"
| "generate R (Suc k) t rng buf = Some (generate_atom R t rng buf)"
| "generate_items R k 0 rng buf = Some (Ok (rng, buf))"
| "generate_items R k (Suc len) rng buf =
     thenO (rand_atom_type R rng) (\<lambda>(t, rng).
     bindO (generate R k t rng (buf @ [0xff])) (\<lambda>(rng, buf).
     generate_items R k len rng buf))"
  by pat_completeness auto

termination
  by (relation "measures [\<lambda>x. case x of Inl (Inl (R, k, info, rng, buf)) \<Rightarrow> k | Inl (Inr (R, k, args, rng, buf)) \<Rightarrow> k
        | Inr (Inl (R, k, t, rng, buf)) \<Rightarrow> k | Inr (Inr (R, k, len, rng, buf)) \<Rightarrow> k,
      \<lambda>x. case x of Inl (Inl (R, k, info, rng, buf)) \<Rightarrow> 0 | Inl (Inr (R, k, args, rng, buf)) \<Rightarrow> Suc (length args)
        | Inr (Inl (R, k, t, rng, buf)) \<Rightarrow> 0 | Inr (Inr (R, k, len, rng, buf)) \<Rightarrow> Suc len]") auto

fun generate_args_loop :: "'r rng_api \<Rightarrow> nat \<Rightarrow> Type list \<Rightarrow> 'r \<Rightarrow> bytes \<Rightarrow> ('r \<times> bytes) infallible option" where
  "generate_args_loop R k [] rng buf = Some (Ok (rng, buf))"
| "generate_args_loop R k (arg # args) rng buf =
     bindO (generate R k arg rng (buf @ [0xff, 0xff, 1])) (\<lambda>(rng, buf).
     generate_args_loop R k args rng buf)"

definition generate_args :: "'r rng_api \<Rightarrow> nat \<Rightarrow> OperatorInfo \<Rightarrow> 'r \<Rightarrow> bytes \<Rightarrow> ('r \<times> bytes) infallible option" where
  "generate_args R k info rng buf =
     bindO (generate_args_loop R k (operands info) rng buf) (\<lambda>(rng, buf). Some (Ok (rng, buf @ [0x80])))"

section \<open>The files\<close>

text \<open>
  The digest of the crate \<open>sha1\<close> and the digits of the crate \<open>hex\<close> are parameters; the file system is
  a map from paths to contents on which no operation fails.
\<close>

definition filename :: "(bytes \<Rightarrow> bytes) \<Rightarrow> (bytes \<Rightarrow> string) \<Rightarrow> bytes \<Rightarrow> string" where
  "filename sha1 hex buf = hex (sha1 buf)"

type_synonym files = "string \<rightharpoonup> bytes"

fun write_corpus ::
  "(OperatorInfo \<Rightarrow> 'r \<Rightarrow> bytes \<Rightarrow> ('r \<times> bytes) infallible option) \<Rightarrow> (bytes \<Rightarrow> string) \<Rightarrow> string \<Rightarrow> nat list \<Rightarrow> 'r \<Rightarrow> files \<Rightarrow>
   ('r \<times> files) infallible option" where
  "write_corpus gen name dir [] rng fs = Some (Ok (rng, fs))"
| "write_corpus gen name dir (i # is) rng fs =
     thenO (get_idx OPERATORS (i mod length OPERATORS)) (\<lambda>info.
     bindO (gen info rng []) (\<lambda>(rng, buf).
     write_corpus gen name dir is rng (fs(dir @ name buf \<mapsto> buf))))"

definition corpus_main :: "'r rng_api \<Rightarrow> nat \<Rightarrow> (bytes \<Rightarrow> bytes) \<Rightarrow> (bytes \<Rightarrow> string) \<Rightarrow> 'r \<Rightarrow> files \<Rightarrow> ('r \<times> files) infallible option" where
  "corpus_main R k sha1 hex rng fs =
     bindO (write_corpus (generate_program R k) (filename sha1 hex) ''../fuzz/corpus/fuzz_run_program/'' [0..<40000] rng fs) (\<lambda>(rng, fs).
     write_corpus (generate_args R k) (filename sha1 hex) ''../fuzz/corpus/operators/'' [0..<40000] rng fs)"

end
