(* ===== verification/FuzzCorpusProps.thy ===== *)
theory FuzzCorpusProps
  imports FuzzCorpus
begin

unbundle bit_operations_syntax

text \<open>
  What the generator writes is the serialization of a well-typed call: the operator of the table, then
  operands that are quoted values of the types the table gives, or calls that have such a type.
\<close>

section \<open>Writing\<close>

lemma put_atom_eq: "length v < 2 ^ 34 \<Longrightarrow> put_atom buf v = Ok (buf @ atom_ser v)"
  using vec_sink.puts_write_atom [of v buf]
  by (cases "write_atom vec_write_all buf v") (simp add: put_atom_def vec_sink.puts_def)

lemma strip_redundant_value: "be_signed (strip_redundant v) = be_signed v \<and> length (strip_redundant v) \<le> length v"
proof (induction v rule: strip_redundant.induct)
  case (1 b0 b1 bs)
  have "be_signed (b0 # b1 # bs) = be_signed (b1 # bs)" if "b0 = 0" "b1 AND 0x80 = 0"
    using that by (simp add: be_signed_def and_80 be_nat_Cons)
  with 1 show ?case by auto
qed simp_all

lemma strip_redundant_canonical: "0 < be_signed v \<Longrightarrow> canonical (strip_redundant v)"
proof (induction v rule: strip_redundant.induct)
  case (1 b0 b1 bs)
  have "\<not> 128 \<le> unat b0" using 1(2) be_signed_nonneg_iff [of "b0 # b1 # bs"] by simp
  then show ?case using 1 strip_redundant_value [of "b0 # b1 # bs"] strip_redundant_value [of "b1 # bs"] by (auto simp: and_80 not_less)
qed (auto simp: be_signed_def be_nat_Cons)

lemma be_signed_sint: "be_signed (be_bytes 8 (unat (v :: u64))) = sint v"
proof -
  let ?b = "be_bytes 8 (unat v)"
  have n: "be_nat ?b = unat v" using unsigned_less [of v, where ?'a = nat] by (simp add: be_nat_be_bytes)
  then have "of_int (be_signed ?b) = v" by (auto simp: be_signed_def)
  moreover have "sint (of_int (be_signed ?b) :: u64) = be_signed ?b"
    using be_signed_range [of ?b] length_be_bytes [of 8 "unat v"] by (cases "?b = []") (simp_all add: sint_sbintrunc' signed_take_bit_int_eq_self_iff)
  ultimately show ?thesis by simp
qed

lemma cost_value: "be_signed (be_bytes 8 8000000000) = 8000000000"
  using be_signed_sint [of 8000000000] by simp

lemma atom_ser_Nil: "atom_ser [] = [0x80]"
  by code_simp

lemma write_int_eq: "\<exists>bs. write_int buf v = Ok (buf @ atom_ser bs) \<and> be_signed bs = sint v \<and> (0 \<le> sint v \<longrightarrow> canonical bs)"
proof (cases "v = 0")
  case True
  then show ?thesis by (intro exI [of _ "[]"]) (simp add: write_int_def atom_ser_Nil be_signed_def)
next
  case False
  let ?b = "be_bytes 8 (unat v)"
  have l: "length (strip_redundant ?b) < 2 ^ 34" using strip_redundant_value [of ?b] by simp
  have "sint v \<noteq> 0" using False signed_word_eqI [of v 0] by auto
  then have "0 \<le> sint v \<Longrightarrow> canonical (strip_redundant ?b)" using strip_redundant_canonical [of ?b] by (simp add: be_signed_sint)
  then show ?thesis using False strip_redundant_value [of ?b]
    by (intro exI [of _ "strip_redundant ?b"]) (simp add: write_int_def put_atom_eq [OF l] be_signed_sint)
qed

lemma write_u32_eq: "write_int buf (ucast (v :: u32)) = Ok (buf @ atom_ser (int_bytes (uint v)))"
proof -
  have s: "sint (ucast v :: u64) = uint v"
  proof -
    have "uint v < 2 ^ 32" using uint_bounded [of v] by simp
    then show ?thesis using uint_ge_0 [of v] order_trans [OF _ uint_ge_0, of "- (2 ^ 63)" v]
      by (simp add: sint_uint uint_up_ucast is_up_def source_size_def target_size_def word_size signed_take_bit_int_eq_self_iff del: uint_ge_0)
  qed
  obtain bs where bs: "write_int buf (ucast v) = Ok (buf @ atom_ser bs)" "be_signed bs = uint v" "canonical bs"
    using write_int_eq [of buf "ucast v"] s by auto
  then show ?thesis using canonical_iff [of bs] by simp
qed

section \<open>Well-typed values and calls\<close>

fun atom_typed :: "Type \<Rightarrow> bytes \<Rightarrow> bool" where
  "atom_typed Bool bs \<longleftrightarrow> bs = [] \<or> bs = [1]"
| "atom_typed Int64 bs \<longleftrightarrow> (\<exists>x \<in> set INTERESTING_U64. be_signed bs = sint x)"
| "atom_typed Int32 bs \<longleftrightarrow> (\<exists>x \<in> set INTERESTING_U32. bs = int_bytes (uint x))"
| "atom_typed Zero bs \<longleftrightarrow> bs = []"
| "atom_typed Cost bs \<longleftrightarrow> be_signed bs = 8000000000"
| "atom_typed G1Point bs \<longleftrightarrow> bs \<in> set G1POINTS"
| "atom_typed G2Point bs \<longleftrightarrow> bs \<in> set G2POINTS"
| "atom_typed Bytes20 bs \<longleftrightarrow> bs \<in> set BYTES20"
| "atom_typed Bytes32 bs \<longleftrightarrow> bs \<in> set BYTES32"
| "atom_typed Sec1 bs \<longleftrightarrow> bs \<in> set SEC1"
| "atom_typed Sig bs \<longleftrightarrow> bs \<in> set SIG"
| "atom_typed Bytes96 bs \<longleftrightarrow> bs = replicate 96 0"
| "atom_typed _ bs \<longleftrightarrow> False"

inductive v_typed :: "Type \<Rightarrow> clvm \<Rightarrow> bool"
  and v_call :: "OperatorInfo \<Rightarrow> clvm \<Rightarrow> bool"
  and v_operand :: "Type \<Rightarrow> clvm \<Rightarrow> bool"
  and v_operands :: "Type list \<Rightarrow> clvm \<Rightarrow> bool" where
  typed_atom: "atom_typed t bs \<Longrightarrow> v_typed t (CAtom bs)"
| typed_any: "t \<in> set ATOMS \<Longrightarrow> v_typed t v \<Longrightarrow> v_typed AnyAtom v"
| typed_tree: "{lt, rt} \<subseteq> insert Tree (set ATOMS) \<Longrightarrow> v_typed lt l \<Longrightarrow> v_typed rt r \<Longrightarrow> v_typed Tree (CPair l r)"
| typed_nil: "v_typed List (CAtom [])"
| typed_cons: "t \<in> set ATOMS \<Longrightarrow> v_typed t x \<Longrightarrow> v_typed List xs \<Longrightarrow> v_typed List (CPair x xs)"
| typed_program: "info \<in> set OPERATORS \<Longrightarrow> v_call info v \<Longrightarrow> v_typed Program v"
| typed_call: "v_operands (operands info) us \<Longrightarrow> v_call info (CPair (CAtom (int_bytes (uint (opcode info)))) us)"
| operand_quoted: "v_typed t v \<Longrightarrow> v_operand t (CPair (CAtom [1]) v)"
| operand_call: "info \<in> set OPERATORS \<Longrightarrow> type_convertible (op_result info) t \<Longrightarrow> v_call info v \<Longrightarrow> v_operand t v"
| operands_nil: "v_operands [] (CAtom [])"
| operands_cons: "v_operand t u \<Longrightarrow> v_operands ts us \<Longrightarrow> v_operands (t # ts) (CPair u us)"

lemma v_operands_list: "list_all2 v_operand ts us \<Longrightarrow> v_operands ts (foldr CPair us (CAtom []))"
  by (induction rule: list_all2_induct) (auto intro: operands_nil operands_cons)

lemma typed_list: "list_all (\<lambda>x. \<exists>t \<in> set ATOMS. v_typed t x) xs \<Longrightarrow> v_typed List (foldr CPair xs (CAtom []))"
  by (induction xs) (auto intro: typed_nil typed_cons)

section \<open>What is written\<close>

definition written :: "(bytes \<Rightarrow> bool) \<Rightarrow> bytes \<Rightarrow> ('r \<times> bytes) infallible option \<Rightarrow> bool" where
  "written P buf m \<longleftrightarrow> (case m of None \<Rightarrow> True | Some (Ok (rng, b)) \<Rightarrow> \<exists>s. b = buf @ s \<and> P s | _ \<Rightarrow> False)"

lemma written_None [simp]: "written P buf None"
  by (simp add: written_def)

lemma written_Ok [simp]: "written P buf (Some (Ok (rng, buf @ s))) \<longleftrightarrow> P s"
  by (simp add: written_def)

lemma written_same [simp]: "written P buf (Some (Ok (rng, buf))) \<longleftrightarrow> P []"
  using written_Ok [of P buf rng "[]"] by simp

lemma written_shift: "written P (buf @ s) m \<Longrightarrow> (\<And>s'. P s' \<Longrightarrow> Q (s @ s')) \<Longrightarrow> written Q buf m"
  by (fastforce simp: written_def split: option.splits outcome.splits)

lemma written_mono: "written P buf m \<Longrightarrow> (\<And>s. P s \<Longrightarrow> Q s) \<Longrightarrow> written Q buf m"
  using written_shift [of P buf "[]" m Q] by simp

lemma written_bindO:
  "written P buf m \<Longrightarrow> (\<And>rng s. P s \<Longrightarrow> written Q buf (f (rng, buf @ s))) \<Longrightarrow> written Q buf (bindO m f)"
  by (cases m; cases "the m") (auto simp: written_def bindO_def)

definition item_ser :: "clvm list \<Rightarrow> bytes" where
  "item_ser us = concat (map (\<lambda>u. 0xff # cser u) us)"

lemma item_ser_simps [simp]: "item_ser [] = []" "item_ser (u # us) = 0xff # cser u @ item_ser us"
  by (simp_all add: item_ser_def)

lemma cser_list: "cser (foldr CPair us (CAtom [])) = item_ser us @ [0x80]"
  by (induction us) (simp_all add: atom_ser_Nil CONS_BOX_MARKER_def)

lemma atom_ser_1: "atom_ser [1] = [1]"
  by code_simp

text \<open>The law of the random generator that the tool relies on.\<close>

locale rng_laws =
  fixes R :: "'r rng_api"
  assumes range: "0 < n \<Longrightarrow> fst (gen_range R rng n) < n"
begin

lemma sample_in: "vec \<noteq> [] \<Longrightarrow> \<exists>x \<in> set vec. \<exists>rng'. sample R rng vec = Ok (x, rng')"
  using range [of "length vec" rng] by (cases "gen_range R rng (length vec)") (auto simp: sample_def get_idx_def)

lemma rand_atom_type_in: "\<exists>t \<in> set ATOMS. \<exists>rng'. rand_atom_type R rng = Ok (t, rng')"
proof -
  have "ATOMS \<noteq> []" by (simp add: ATOMS_def)
  moreover from this have "rand_atom_type R rng = sample R rng ATOMS" by (simp add: rand_atom_type_def sample_def)
  ultimately show ?thesis using sample_in by simp
qed

lemma rand_side_in: "\<exists>t \<in> insert Tree (set ATOMS). \<exists>rng'. rand_side R rng = Ok (t, rng')"
  using rand_atom_type_in by (cases "gen_bool R rng 10") (auto simp: rand_side_def)

lemma sample_put:
  assumes "vec \<noteq> []" "\<forall>v \<in> set vec. length v < 2 ^ 34"
  shows "\<exists>v \<in> set vec. \<exists>rng'. bindR (sample R rng vec) (\<lambda>(v, rng). bindR (put_atom buf v) (\<lambda>buf. Ok (rng, buf))) =
    Ok (rng', buf @ cser (CAtom v))"
  using sample_in [OF assms(1), of rng] assms(2) put_atom_eq by fastforce

lemma generate_atom_typed:
  assumes "t \<in> set ATOMS"
  shows "\<exists>v rng'. v_typed t v \<and> generate_atom R t rng buf = Ok (rng', buf @ cser v)"
proof -
  have "\<exists>bs rng'. atom_typed t bs \<and> generate_atom R t rng buf = Ok (rng', buf @ cser (CAtom bs))"
  proof (cases t)
    case Bool
    then show ?thesis by (cases "gen_bool R rng 50"; cases "fst (gen_bool R rng 50)")
        (force simp: atom_ser_Nil atom_ser_1 intro: exI [of _ "[]"] exI [of _ "[1]"])+
  next
    case Int64
    obtain x rng' where "x \<in> set INTERESTING_U64" "sample R rng INTERESTING_U64 = Ok (x, rng')"
      using sample_in [of INTERESTING_U64 rng] by (auto simp: INTERESTING_U64_def)
    then show ?thesis using Int64 write_int_eq [of buf x] by auto
  next
    case Int32
    obtain x rng' where "x \<in> set INTERESTING_U32" "sample R rng INTERESTING_U32 = Ok (x, rng')"
      using sample_in [of INTERESTING_U32 rng] by (auto simp: INTERESTING_U32_def)
    then show ?thesis using Int32 by (auto simp: write_u32_eq)
  next
    case Cost
    then show ?thesis by (intro exI [of _ "be_bytes 8 8000000000"] exI [of _ rng])
        (simp add: put_atom_eq cost_value)
  next
    case Bytes96
    then show ?thesis by (simp add: put_atom_eq ZEROS_def)
  next
    case G1Point
    then show ?thesis using sample_put [of G1POINTS rng buf] by (auto simp: G1POINTS_def)
  next
    case G2Point
    then show ?thesis using sample_put [of G2POINTS rng buf] by (auto simp: G2POINTS_def)
  next
    case Bytes20
    then show ?thesis using sample_put [of BYTES20 rng buf] by (auto simp: BYTES20_def)
  next
    case Bytes32
    then show ?thesis using sample_put [of BYTES32 rng buf] by (auto simp: BYTES32_def)
  next
    case Sec1
    then show ?thesis using sample_put [of SEC1 rng buf] by (auto simp: SEC1_def)
  next
    case Sig
    then show ?thesis using sample_put [of SIG rng buf] by (auto simp: SIG_def)
  qed (use assms in \<open>auto simp: ATOMS_def atom_ser_Nil\<close>)
  then show ?thesis using typed_atom by blast
qed

lemma leaf_written: "t \<in> set ATOMS \<Longrightarrow> written (\<lambda>s. \<exists>v. v_typed t v \<and> s = cser v) buf (Some (generate_atom R t rng buf))"
  using generate_atom_typed [of t rng buf] by auto

text \<open>The two loops, given what the calls in them write.\<close>

lemma operands_written:
  assumes "\<And>info rng buf. written (\<lambda>s. \<exists>v. v_call info v \<and> s = cser v) buf (generate_program R k info rng buf)"
    "\<And>t rng buf. written (\<lambda>s. \<exists>v. v_typed t v \<and> s = cser v) buf (generate R k t rng buf)"
  shows "written (\<lambda>s. \<exists>us. list_all2 v_operand args us \<and> s = item_ser us) buf (generate_operands R k args rng buf)"
proof (induction args arbitrary: rng buf)
  case (Cons arg args)
  let ?P = "\<lambda>s. \<exists>u. v_operand arg u \<and> s = 0xff # cser u" and ?ops = "filter (\<lambda>info. type_convertible (op_result info) arg) OPERATORS"
  have quoted: "written ?P buf (generate R k arg rng' (buf @ [0xff, 0xff, 1]))" for rng'
    by (rule written_shift [OF assms(2)]) (force simp: atom_ser_1 CONS_BOX_MARKER_def intro: operand_quoted exI [of _ "CPair (CAtom [1]) _"])
  have nested: "written ?P buf (generate_program R k info rng' (buf @ [0xff]))" if "info \<in> set ?ops" for info rng'
    by (rule written_shift [OF assms(1)]) (use that in \<open>auto intro: operand_call\<close>)
  obtain b rng1 where b: "gen_bool R rng 30 = (b, rng1)" by fastforce
  have first: "written ?P buf (if b then if ?ops = [] then generate R k arg rng1 (buf @ [0xff, 0xff, 1])
        else thenO (sample R rng1 ?ops) (\<lambda>(sub_op, rng). generate_program R k sub_op rng (buf @ [0xff]))
      else generate R k arg rng1 (buf @ [0xff, 0xff, 1]))"
  proof (cases "b \<and> ?ops \<noteq> []")
    case True
    then obtain info rng2 where "info \<in> set ?ops" "sample R rng1 ?ops = Ok (info, rng2)" using sample_in by blast
    then show ?thesis using True nested by simp
  qed (use quoted in auto)
  have rest: "written (\<lambda>s. \<exists>us. list_all2 v_operand (arg # args) us \<and> s = item_ser us) buf (generate_operands R k args rng2 (buf @ s))"
    if "?P s" for s rng2
    by (rule written_shift [OF Cons.IH]) (use that in \<open>force intro: exI [of _ "_ # _"]\<close>)
  show ?case unfolding generate_operands.simps Let_def b prod.case append_assoc append.simps
    by (rule written_bindO [OF first]) (simp add: rest)
qed simp

lemma items_written:
  assumes "\<And>t rng buf. written (\<lambda>s. \<exists>v. v_typed t v \<and> s = cser v) buf (generate R k t rng buf)"
  shows "written (\<lambda>s. \<exists>xs. list_all (\<lambda>x. \<exists>t \<in> set ATOMS. v_typed t x) xs \<and> s = item_ser xs) buf (generate_items R k len rng buf)"
proof (induction len arbitrary: rng buf)
  case (Suc len)
  obtain t rng1 where t: "t \<in> set ATOMS" "rand_atom_type R rng = Ok (t, rng1)" using rand_atom_type_in by blast
  let ?P = "\<lambda>s. \<exists>v. v_typed t v \<and> s = 0xff # cser v"
  have first: "written ?P buf (generate R k t rng1 (buf @ [0xff]))" by (rule written_shift [OF assms]) auto
  have rest: "written (\<lambda>s. \<exists>xs. list_all (\<lambda>x. \<exists>t \<in> set ATOMS. v_typed t x) xs \<and> s = item_ser xs) buf (generate_items R k len rng2 (buf @ s))"
    if "?P s" for s rng2
    by (rule written_shift [OF Suc.IH]) (use that t(1) in \<open>force intro: exI [of _ "_ # _"]\<close>)
  show ?case unfolding generate_items.simps t(2) thenO.simps prod.case
    by (rule written_bindO [OF first]) (simp add: rest)
qed (auto intro: exI [of _ "[]"])

lemma generate_written:
  "written (\<lambda>s. \<exists>v. v_call info v \<and> s = cser v) buf (generate_program R k info rng buf)"
  "written (\<lambda>s. \<exists>v. v_typed t v \<and> s = cser v) buf (generate R k t rng buf)"
proof (induction k arbitrary: info t rng buf)
  case (Suc k)
  note ops = operands_written [OF Suc.IH] and items = items_written [OF Suc.IH(2)]
  { case 1
    let ?o = "atom_ser (int_bytes (uint (opcode info)))"
    have args: "written (\<lambda>s. \<exists>us. list_all2 v_operand (operands info) us \<and> s = (0xff # ?o) @ item_ser us) buf
        (generate_operands R k (operands info) rng (buf @ 0xff # ?o))"
      by (rule written_shift [OF ops]) auto
    have "\<exists>v. v_call info v \<and> ((0xff # ?o) @ item_ser us) @ [0x80] = cser v" if "list_all2 v_operand (operands info) us" for us
      using typed_call [OF v_operands_list [OF that]] by (intro exI) (auto simp: cser_list CONS_BOX_MARKER_def)
    then show ?case by (auto simp: write_u32_eq intro!: written_bindO [OF args])
  next
    case 2
    show ?case
    proof (cases t)
      case Tree
      obtain lt rng1 where lt: "lt \<in> insert Tree (set ATOMS)" "rand_side R rng = Ok (lt, rng1)" using rand_side_in by blast
      obtain rt rng2 where rt: "rt \<in> insert Tree (set ATOMS)" "rand_side R rng1 = Ok (rt, rng2)" using rand_side_in by blast
      let ?P = "\<lambda>s. \<exists>v. v_typed lt v \<and> s = 0xff # cser v"
      have first: "written ?P buf (generate R k lt rng2 (buf @ [0xff]))" by (rule written_shift [OF Suc.IH(2)]) auto
      have rest: "written (\<lambda>s. \<exists>v. v_typed Tree v \<and> s = cser v) buf (generate R k rt rng3 (buf @ s))" if p: "?P s" for s rng3
      proof (rule written_shift [OF Suc.IH(2)])
        fix s'
        assume "\<exists>v. v_typed rt v \<and> s' = cser v"
        then obtain l r where "v_typed lt l" "s = 0xff # cser l" "v_typed rt r" "s' = cser r" using p by blast
        then show "\<exists>v. v_typed Tree v \<and> s @ s' = cser v"
          using typed_tree [of lt rt l r] lt(1) rt(1) by (intro exI [of _ "CPair l r"]) (simp add: CONS_BOX_MARKER_def)
      qed
      show ?thesis unfolding Tree generate.simps Let_def lt(2) rt(2) thenO.simps prod.case
        by (rule written_bindO [OF first]) (simp add: rest)
    next
      case List
      obtain len rng1 where len: "gen_range R rng 10 = (len, rng1)" by fastforce
      have "\<exists>v. v_typed List v \<and> item_ser xs @ [0x80] = cser v" if "list_all (\<lambda>x. \<exists>t \<in> set ATOMS. v_typed t x) xs" for xs
        using typed_list [OF that] cser_list [of xs] by metis
      note fin = this
      show ?thesis unfolding List generate.simps len prod.case
      proof (rule written_bindO [OF items])
        fix rng' s
        assume "\<exists>xs. list_all (\<lambda>x. \<exists>t \<in> set ATOMS. v_typed t x) xs \<and> s = item_ser xs"
        then have "\<exists>v. v_typed List v \<and> s @ [0x80] = cser v" using fin by blast
        then show "written (\<lambda>s. \<exists>v. v_typed List v \<and> s = cser v) buf (case (rng', buf @ s) of (rng, buf) \<Rightarrow> Some (Ok (rng, buf @ [0x80])))"
          unfolding prod.case append_assoc written_Ok .
      qed
    next
      case Program
      have "OPERATORS \<noteq> []" by (simp add: OPERATORS_def)
      from sample_in [OF this] obtain info rng' where s: "info \<in> set OPERATORS" "sample R rng OPERATORS = Ok (info, rng')" by blast
      show ?thesis unfolding Program generate.simps s(2) thenO.simps prod.case
        by (rule written_mono [OF Suc.IH(1)]) (use typed_program [OF s(1)] in blast)
    next
      case AnyAtom
      obtain t' rng' where t': "t' \<in> set ATOMS" "rand_atom_type R rng = Ok (t', rng')" using rand_atom_type_in by blast
      show ?thesis unfolding AnyAtom generate.simps t'(2) thenO.simps prod.case
        by (rule written_mono [OF Suc.IH(2)]) (use typed_any [OF t'(1)] in blast)
    qed (simp_all add: leaf_written ATOMS_def del: generate_atom.simps)
  }
qed simp_all

end

section \<open>A generator that ends\<close>

text \<open>
  A finite record of draws as a random generator: each draw is reduced to the range asked for, and when
  the record is used up the answers are no and the last index. Every run of the tool that ends makes
  finitely many draws and is a run on such a record. After the last draw the recursion ends within five
  nested calls, and each draw can add four.
\<close>

definition tape :: "nat list rng_api" where
  "tape = \<lparr> gen_bool = (\<lambda>ds p. case ds of [] \<Rightarrow> (False, []) | d # ds \<Rightarrow> (d mod 100 < p, ds)),
     gen_range = (\<lambda>ds n. case ds of [] \<Rightarrow> (n - 1, []) | d # ds \<Rightarrow> (d mod n, ds)) \<rparr>"

interpretation tape_rng: rng_laws tape
  by unfold_locales (simp add: tape_def split: list.split)

fun depth :: "Type \<Rightarrow> nat" where
  "depth Program = 4"
| "depth Tree = 2"
| "depth List = 2"
| "depth AnyAtom = 2"
| "depth t = 1"

lemma depth_le: "depth t \<le> 4" and depth_pos: "0 < depth t"
  by (cases t, simp_all)+

lemma depth_nz [simp]: "depth t \<noteq> 0"
  using depth_pos [of t] by simp

definition ends :: "nat list \<Rightarrow> (nat list \<times> bytes) infallible option \<Rightarrow> bool" where
  "ends ds m \<longleftrightarrow> m \<noteq> None \<and> (\<forall>ds' b. m = Some (Ok (ds', b)) \<longrightarrow> length ds' \<le> length ds)"

lemma ends_mono: "ends ds m \<Longrightarrow> length ds \<le> length es \<Longrightarrow> ends es m"
  by (fastforce simp: ends_def)

lemma ends_bindO:
  "ends ds m \<Longrightarrow> (\<And>es b. length es \<le> length ds \<Longrightarrow> ends ds (f (es, b))) \<Longrightarrow> ends ds (bindO m f)"
  by (cases m; cases "the m") (simp_all add: ends_def bindO_def split_paired_all)

lemma ends_Ok: "length es \<le> length ds \<Longrightarrow> ends ds (Some (Ok (es, b)))"
  by (simp add: ends_def)

text \<open>A draw shortens the record, or finds it empty and has the known answer.\<close>

lemma draws:
  "gen_bool tape (d # ds) p = (d mod 100 < p, ds)" "gen_bool tape [] p = (False, [])"
  "gen_range tape (d # ds) n = (d mod n, ds)" "gen_range tape [] n = (n - 1, [])"
  by (simp_all add: tape_def)

lemma sample_draw: "sample tape ds vec = Ok (x, es) \<Longrightarrow> length es = length ds - 1 \<and> (ds = [] \<longrightarrow> x = last vec)"
  by (cases ds) (auto simp: sample_def draws get_idx_def last_conv_nth split: if_splits)

lemma rand_atom_type_draw: "rand_atom_type tape ds = Ok (t, es) \<Longrightarrow> length es = length ds - 1 \<and> depth t = 1"
proof -
  assume a: "rand_atom_type tape ds = Ok (t, es)"
  then have "t \<in> set ATOMS" using tape_rng.rand_atom_type_in [of ds] by auto
  then show ?thesis using a by (cases ds) (auto simp: rand_atom_type_def draws get_idx_def ATOMS_def split: if_splits)
qed

lemma rand_side_draw:
  assumes "rand_side tape ds = Ok (t, es)"
  shows "length es \<le> length ds - 1 \<and> depth t \<le> 2 \<and> (ds = [] \<longrightarrow> depth t = 1)"
  using assms by (cases ds) (auto simp: rand_side_def draws dest!: rand_atom_type_draw split: if_splits)

lemma generate_atom_ends: "ends ds (Some (generate_atom tape t ds buf))"
proof (cases t)
  case Bool
  then show ?thesis by (cases ds) (simp_all add: ends_def draws)
qed (auto simp: ends_def bindR_eq_Ok dest: sample_draw)

lemma operands_ends:
  assumes "\<And>info ds buf. 0 < k \<Longrightarrow> \<forall>arg \<in> set (operands info). 4 * length ds + depth arg < k \<Longrightarrow> ends ds (generate_program tape k info ds buf)"
    "\<And>t ds buf. 4 * length ds + depth t \<le> k \<Longrightarrow> ends ds (generate tape k t ds buf)"
    "\<forall>arg \<in> set args. 4 * length ds + depth arg \<le> k"
  shows "ends ds (generate_operands tape k args ds buf)"
  using assms(3)
proof (induction args arbitrary: ds buf)
  case (Cons arg args)
  let ?ops = "filter (\<lambda>info. type_convertible (op_result info) arg) OPERATORS"
  have sub: "ends es (generate_program tape k info es b)" if "4 * length es + 4 < k" for info es b
  proof (rule assms(1))
    show "\<forall>a \<in> set (operands info). 4 * length es + depth a < k" using that depth_le by (meson add_le_mono le_less_trans order_refl)
  qed (use that in simp)
  have first: "ends ds (case gen_bool tape ds 30 of (b, rng) \<Rightarrow>
      if b then if ?ops = [] then generate tape k arg rng (buf @ [0xff, 0xff, 1])
        else thenO (sample tape rng ?ops) (\<lambda>(sub_op, rng). generate_program tape k sub_op rng (buf @ [0xff]))
      else generate tape k arg rng (buf @ [0xff, 0xff, 1]))"
  proof (cases ds)
    case Nil
    then show ?thesis using Cons.prems assms(2) [of "[]" arg] by (simp add: draws)
  next
    case (Cons d es)
    have quoted: "ends es (generate tape k arg es b)" for b using \<open>\<forall>a \<in> set (arg # args). _\<close> Cons by (intro assms(2)) simp
    show ?thesis
    proof (cases "d mod 100 < 30 \<and> ?ops \<noteq> []")
      case True
      then obtain info rng where s: "sample tape es ?ops = Ok (info, rng)" using tape_rng.sample_in by blast
      have "ends rng (generate_program tape k info rng (buf @ [0xff]))"
        using sample_draw [OF s] \<open>\<forall>a \<in> set (arg # args). _\<close> Cons depth_pos [of arg] by (intro sub) auto
      then show ?thesis using True s sample_draw [OF s] Cons by (auto simp: draws intro: ends_mono)
    next
      case False
      then show ?thesis using ends_mono [OF quoted, of ds] Cons by (auto simp: draws)
    qed
  qed
  have rest: "ends ds (generate_operands tape k args es b)" if "length es \<le> length ds" for es b
  proof (rule ends_mono [OF Cons.IH that])
    show "\<forall>arg \<in> set args. 4 * length es + depth arg \<le> k" using Cons.prems that by fastforce
  qed
  obtain b rng where b: "gen_bool tape ds 30 = (b, rng)" by fastforce
  show ?case using first unfolding generate_operands.simps Let_def b prod.case append_assoc append.simps
    by (rule ends_bindO) (simp add: rest)
qed (simp add: ends_Ok)

lemma items_ends:
  assumes "\<And>t ds buf. 4 * length ds + depth t \<le> k \<Longrightarrow> ends ds (generate tape k t ds buf)" "4 * length ds + 1 \<le> k"
  shows "ends ds (generate_items tape k len ds buf)"
  using assms(2)
proof (induction len arbitrary: ds buf)
  case (Suc len)
  obtain t es where t: "rand_atom_type tape ds = Ok (t, es)" using tape_rng.rand_atom_type_in by blast
  note d = rand_atom_type_draw [OF t]
  have first: "ends ds (generate tape k t es (buf @ [0xff]))" by (rule ends_mono [OF assms(1)]) (use d Suc.prems in auto)
  have rest: "ends ds (generate_items tape k len es' b)" if "length es' \<le> length ds" for es' b
    by (rule ends_mono [OF Suc.IH that]) (use that Suc.prems in auto)
  show ?case unfolding generate_items.simps t thenO.simps prod.case by (rule ends_bindO [OF first]) (simp add: rest)
qed (simp add: ends_Ok)

lemma generate_ends:
  "0 < k \<Longrightarrow> \<forall>arg \<in> set (operands info). 4 * length ds + depth arg < k \<Longrightarrow> ends ds (generate_program tape k info ds buf)"
  "4 * length ds + depth t \<le> k \<Longrightarrow> ends ds (generate tape k t ds buf)"
proof (induction k arbitrary: info t ds buf)
  case (Suc k)
  { case 1
    then have "\<forall>arg \<in> set (operands info). 4 * length ds + depth arg \<le> k" by auto
    note ops = operands_ends [OF Suc.IH this]
    show ?case unfolding generate_program.simps write_u32_eq thenO.simps by (rule ends_bindO [OF ops]) (simp_all add: ends_Ok)
  next
    case 2
    show ?case
    proof (cases t)
      case Tree
      obtain lt es where lt: "rand_side tape ds = Ok (lt, es)" using tape_rng.rand_side_in by blast
      obtain rt fs where rt: "rand_side tape es = Ok (rt, fs)" using tape_rng.rand_side_in by blast
      note d = rand_side_draw [OF lt] rand_side_draw [OF rt]
      have k: "4 * length ds + 1 \<le> k" using 2 Tree by simp
      have first: "ends fs (generate tape k lt fs (buf @ [0xff]))"
        by (rule Suc.IH(2)) (use d k in \<open>cases ds; auto\<close>)
      have rest: "ends fs (generate tape k rt gs b)" if "length gs \<le> length fs" for gs b
        by (rule ends_mono [OF Suc.IH(2) that]) (use d k that in \<open>cases es; cases ds; auto\<close>)
      have "ends fs (generate tape (Suc k) Tree ds buf)" unfolding generate.simps Let_def lt rt thenO.simps prod.case
        by (rule ends_bindO [OF first]) (simp add: rest)
      then show ?thesis unfolding Tree by (rule ends_mono) (use d in linarith)
    next
      case List
      obtain len es where len: "gen_range tape ds 10 = (len, es)" by fastforce
      then have "length es \<le> length ds" by (cases ds) (auto simp: draws)
      then have "ends ds (generate_items tape k len es buf)" using 2 List by (intro ends_mono [OF items_ends [OF Suc.IH(2)]]) auto
      then show ?thesis unfolding List generate.simps len prod.case by (rule ends_bindO) (simp add: ends_Ok)
    next
      case Program
      obtain info es where s: "sample tape ds OPERATORS = Ok (info, es)"
        using tape_rng.sample_in [of OPERATORS ds] by (auto simp: OPERATORS_def)
      have "ends ds (generate_program tape k info es buf)"
      proof (rule ends_mono [OF Suc.IH(1)])
        show "\<forall>arg \<in> set (operands info). 4 * length es + depth arg < k"
        proof (cases "ds = []")
          case True
          then have "info = last OPERATORS" using sample_draw [OF s] by simp
          then show ?thesis using 2 Program sample_draw [OF s] True by (simp add: OPERATORS_def op_info_def)
        next
          case False
          then have "4 * length es + 4 < k" using 2 Program sample_draw [OF s] by (cases ds) auto
          then show ?thesis using depth_le by (meson add_le_mono le_less_trans order_refl)
        qed
      qed (use 2 Program sample_draw [OF s] in auto)
      then show ?thesis by (simp add: Program s)
    next
      case AnyAtom
      obtain t' es where t': "rand_atom_type tape ds = Ok (t', es)" using tape_rng.rand_atom_type_in by blast
      have "ends ds (generate tape k t' es buf)"
        by (rule ends_mono [OF Suc.IH(2)]) (use rand_atom_type_draw [OF t'] 2 AnyAtom in auto)
      then show ?thesis by (simp add: AnyAtom t')
    qed (simp_all add: generate_atom_ends del: generate_atom.simps)
  }
qed simp_all

section \<open>The argument lists and the files\<close>

context rng_laws
begin

lemma args_loop_written:
  "written (\<lambda>s. \<exists>us. list_all2 v_operand args us \<and> s = item_ser us) buf (generate_args_loop R k args rng buf)"
proof (induction args arbitrary: rng buf)
  case (Cons arg args)
  let ?P = "\<lambda>s. \<exists>u. v_operand arg u \<and> s = 0xff # cser u"
  have first: "written ?P buf (generate R k arg rng (buf @ [0xff, 0xff, 1]))"
    by (rule written_shift [OF generate_written(2)])
       (force simp: atom_ser_1 CONS_BOX_MARKER_def intro: operand_quoted exI [of _ "CPair (CAtom [1]) _"])
  have rest: "written (\<lambda>s. \<exists>us. list_all2 v_operand (arg # args) us \<and> s = item_ser us) buf (generate_args_loop R k args rng2 (buf @ s))"
    if "?P s" for s rng2
    by (rule written_shift [OF Cons.IH]) (use that in \<open>force intro: exI [of _ "_ # _"]\<close>)
  show ?case unfolding generate_args_loop.simps by (rule written_bindO [OF first]) (simp add: rest)
qed simp

lemma args_written: "written (\<lambda>s. \<exists>v. v_operands (operands info) v \<and> s = cser v) buf (generate_args R k info rng buf)"
  unfolding generate_args_def
proof (rule written_bindO [OF args_loop_written])
  fix rng' s
  assume "\<exists>us. list_all2 v_operand (operands info) us \<and> s = item_ser us"
  then have "\<exists>v. v_operands (operands info) v \<and> s @ [0x80] = cser v" using v_operands_list cser_list by metis
  then show "written (\<lambda>s. \<exists>v. v_operands (operands info) v \<and> s = cser v) buf (case (rng', buf @ s) of (rng, buf) \<Rightarrow> Some (Ok (rng, buf @ [0x80])))"
    unfolding prod.case append_assoc written_Ok .
qed

end

text \<open>\<open>corpus_ok\<close>: every file is in one of the two directories and holds what this directory is for.\<close>

definition corpus_ok :: "files \<Rightarrow> bool" where
  "corpus_ok fs \<longleftrightarrow> (\<forall>path b. fs path = Some b \<longrightarrow> (\<exists>info \<in> set OPERATORS. \<exists>name v. b = cser v \<and>
     (path = ''../fuzz/corpus/fuzz_run_program/'' @ name \<and> v_call info v \<or>
      path = ''../fuzz/corpus/operators/'' @ name \<and> v_operands (operands info) v)))"

definition corpus_res :: "('r \<times> files) infallible option \<Rightarrow> bool" where
  "corpus_res m \<longleftrightarrow> (case m of None \<Rightarrow> True | Some (Ok (rng, fs)) \<Rightarrow> corpus_ok fs | _ \<Rightarrow> False)"

lemma operator_at: "OPERATORS ! (i mod length OPERATORS) \<in> set OPERATORS" "get_idx OPERATORS (i mod length OPERATORS) = Ok (OPERATORS ! (i mod length OPERATORS))"
proof -
  have "i mod length OPERATORS < length OPERATORS" by (simp add: OPERATORS_def)
  then show "OPERATORS ! (i mod length OPERATORS) \<in> set OPERATORS" "get_idx OPERATORS (i mod length OPERATORS) = Ok (OPERATORS ! (i mod length OPERATORS))"
    by (simp_all add: get_idx_def)
qed

lemma write_corpus_ok:
  assumes "\<And>info rng. written (\<lambda>s. \<exists>v. P info v \<and> s = cser v) [] (gen info rng [])"
    "\<And>fs info name v. corpus_ok fs \<Longrightarrow> info \<in> set OPERATORS \<Longrightarrow> P info v \<Longrightarrow> corpus_ok (fs(dir @ name \<mapsto> cser v))"
    "corpus_ok fs"
  shows "corpus_res (write_corpus gen nm dir is rng fs)"
  using assms(3)
proof (induction "is" arbitrary: rng fs)
  case (Cons i "is")
  let ?info = "OPERATORS ! (i mod length OPERATORS)"
  show ?case
  proof (cases "gen ?info rng []")
    case None
    then show ?thesis by (simp add: operator_at(2) bindO_def corpus_res_def)
  next
    case (Some r)
    then obtain rng' v where v: "r = Ok (rng', cser v)" "P ?info v"
      using assms(1) [of ?info rng] by (auto simp: written_def split: outcome.splits)
    show ?thesis using Cons.IH [OF assms(2) [OF Cons.prems operator_at(1) v(2)], of rng' "nm (cser v)"] Some v(1)
      by (simp add: operator_at(2) del: fun_upd_apply)
  qed
qed (simp add: corpus_res_def)

lemma corpus_res_bindO: "corpus_res m \<Longrightarrow> (\<And>rng fs. corpus_ok fs \<Longrightarrow> corpus_res (f (rng, fs))) \<Longrightarrow> corpus_res (bindO m f)"
  by (cases m; cases "the m") (auto simp: corpus_res_def bindO_def)

lemma corpus_main_ok: "rng_laws R \<Longrightarrow> corpus_res (corpus_main R k sha1 hex rng Map.empty)"
proof -
  assume R: "rng_laws R"
  have upd: "corpus_ok (fs(''../fuzz/corpus/fuzz_run_program/'' @ name \<mapsto> cser v))" if "corpus_ok fs" "info \<in> set OPERATORS" "v_call info v" for fs info name v
    using that unfolding corpus_ok_def fun_upd_apply by (metis option.inject)
  have upd': "corpus_ok (fs(''../fuzz/corpus/operators/'' @ name \<mapsto> cser v))" if "corpus_ok fs" "info \<in> set OPERATORS" "v_operands (operands info) v" for fs info name v
    using that unfolding corpus_ok_def fun_upd_apply by (metis option.inject)
  have e: "corpus_ok Map.empty" by (simp add: corpus_ok_def)
  have runs: "corpus_res (write_corpus (generate_program R k) nm ''../fuzz/corpus/fuzz_run_program/'' is rng Map.empty)" for nm "is" rng
    by (rule write_corpus_ok [where P = v_call], rule rng_laws.generate_written(1) [OF R], rule upd, assumption+, rule e)
  have lists: "corpus_res (write_corpus (generate_args R k) nm ''../fuzz/corpus/operators/'' is rng fs)" if "corpus_ok fs" for nm "is" rng fs
    by (rule write_corpus_ok [where P = "\<lambda>info. v_operands (operands info)"], rule rng_laws.args_written [OF R], rule upd', assumption+, rule that)
  show ?thesis unfolding corpus_main_def by (rule corpus_res_bindO [OF runs]) (simp only: prod.case lists)
qed

text \<open>On a record of draws.\<close>

lemma args_loop_ends:
  "\<forall>arg \<in> set args. 4 * length ds + depth arg \<le> k \<Longrightarrow> ends ds (generate_args_loop tape k args ds buf)"
proof (induction args arbitrary: ds buf)
  case (Cons arg args)
  have first: "ends ds (generate tape k arg ds (buf @ [0xff, 0xff, 1]))" by (rule generate_ends(2)) (use Cons.prems in simp)
  have rest: "ends ds (generate_args_loop tape k args es b)" if "length es \<le> length ds" for es b
  proof (rule ends_mono [OF Cons.IH that])
    show "\<forall>arg \<in> set args. 4 * length es + depth arg \<le> k" using Cons.prems that by fastforce
  qed
  show ?case unfolding generate_args_loop.simps by (rule ends_bindO [OF first]) (simp add: rest)
qed (simp add: ends_Ok)

lemma enough: "4 * length ds + 5 \<le> k \<Longrightarrow> 4 * length ds + depth t < k"
  using depth_le [of t] by linarith

lemma call_ends: "4 * length ds + 5 \<le> k \<Longrightarrow> ends ds (generate_program tape k info ds buf)"
  by (rule generate_ends(1)) (simp_all add: enough)

lemma args_ends: "4 * length ds + 5 \<le> k \<Longrightarrow> ends ds (generate_args tape k info ds buf)"
  unfolding generate_args_def by (rule ends_bindO [OF args_loop_ends]) (simp_all add: enough less_imp_le ends_Ok)

lemma write_corpus_ends:
  assumes "\<And>info ds. 4 * length ds + 5 \<le> k \<Longrightarrow> ends ds (gen info ds [])" "4 * length ds + 5 \<le> k"
  obtains r where "write_corpus gen nm dir is ds fs = Some r" "\<And>es fs'. r = Ok (es, fs') \<Longrightarrow> length es \<le> length ds"
  using assms(2)
proof (induction "is" arbitrary: ds fs thesis)
  case (Cons i "is")
  let ?info = "OPERATORS ! (i mod length OPERATORS)"
  obtain r where r: "gen ?info ds [] = Some r" "\<And>es b. r = Ok (es, b) \<Longrightarrow> length es \<le> length ds"
    using assms(1) [OF Cons.prems(2), of ?info] by (auto simp: ends_def)
  show ?case
  proof (cases r)
    case (Ok x)
    then obtain es b where e: "r = Ok (es, b)" by (cases x) auto
    then have l: "length es \<le> length ds" using r(2) by blast
    have "4 * length es + 5 \<le> k" using l Cons.prems(2) by linarith
    then obtain r' where r': "write_corpus gen nm dir is es (fs(dir @ nm b \<mapsto> b)) = Some r'" "\<And>es' fs'. r' = Ok (es', fs') \<Longrightarrow> length es' \<le> length es"
      using Cons.IH by blast
    show ?thesis
      by (rule Cons.prems(1) [of r']) (use r r' e l in \<open>auto simp: operator_at(2) intro: order_trans\<close>)
  qed (use r in \<open>auto simp: operator_at(2) bindO_def intro!: Cons.prems(1)\<close>)
qed simp

text \<open>
  C39. The corpus generator: for every source of random numbers that respects its ranges, whatever it
  writes is right. A file for the target \<open>fuzz_run_program\<close> holds the serialization of a call of an
  operator of the table whose operands are quoted values of the types the table gives, or again such
  calls of a convertible type; a file for the target \<open>operators\<close> holds the list of such operands. No
  write fails and no index is out of range. With any finite record of draws the generator ends, within
  a number of nested calls of four times the length of the record and five.
\<close>

theorem corpus_correct:
  assumes "rng_laws R"
  shows "(case corpus_main R k sha1 hex rng Map.empty of None \<Rightarrow> True | Some (Ok (rng', fs)) \<Rightarrow> corpus_ok fs | _ \<Rightarrow> False) \<and>
    (4 * length ds + 5 \<le> k \<longrightarrow> (\<exists>ds' fs. corpus_main tape k sha1 hex ds Map.empty = Some (Ok (ds', fs)) \<and> corpus_ok fs))"
proof -
  have "\<exists>ds' fs. corpus_main tape k sha1 hex ds Map.empty = Some (Ok (ds', fs)) \<and> corpus_ok fs" if k: "4 * length ds + 5 \<le> k"
  proof -
    obtain r where r: "write_corpus (generate_program tape k) (filename sha1 hex) ''../fuzz/corpus/fuzz_run_program/'' [0..<40000] ds Map.empty = Some r"
        "\<And>es fs'. r = Ok (es, fs') \<Longrightarrow> length es \<le> length ds"
      by (rule write_corpus_ends [where gen = "generate_program tape k", OF call_ends k]) (assumption, rule that)
    have "corpus_main tape k sha1 hex ds Map.empty \<noteq> None"
    proof (cases r)
      case (Ok x)
      then obtain es fs where e: "r = Ok (es, fs)" by (cases x) auto
      then have l: "4 * length es + 5 \<le> k" using r(2) k by fastforce
      obtain r' where
        "write_corpus (generate_args tape k) (filename sha1 hex) ''../fuzz/corpus/operators/'' [0..<40000] es fs = Some r'"
        by (rule write_corpus_ends [where gen = "generate_args tape k", OF args_ends l]) (assumption, rule that)
      then show ?thesis unfolding corpus_main_def r(1) e bindO_Ok prod.case by simp
    qed (simp_all add: corpus_main_def r(1) bindO_def del: upt_Suc write_corpus.simps)
    then obtain r where r: "corpus_main tape k sha1 hex ds Map.empty = Some r" by blast
    then have "case r of Ok (ds', fs) \<Rightarrow> corpus_ok fs | _ \<Rightarrow> False"
      using corpus_main_ok [OF tape_rng.rng_laws_axioms, of k sha1 hex ds] by (simp add: corpus_res_def)
    then show ?thesis unfolding r by (cases r) auto
  qed
  then show ?thesis using corpus_main_ok [OF assms, of k sha1 hex rng] unfolding corpus_res_def by blast
qed

theorem corpus_correct_witness:
  "\<exists>ds' fs. corpus_main tape 13 (\<lambda>b. b) (\<lambda>b. []) [0, 99] Map.empty = Some (Ok (ds', fs)) \<and> corpus_ok fs"
proof -
  have "4 * length [0, 99 :: nat] + 5 \<le> 13" by simp
  with corpus_correct [OF tape_rng.rng_laws_axioms, of 13 "\<lambda>b. b" "\<lambda>b. []" "[]" "[0, 99]"] show ?thesis by blast
qed

end
