(* ===== verification/CostTools.thy ===== *)
theory CostTools
  imports FuzzRunProps
begin

text \<open>
  The parts of the tools that build programs and expected results: the test generator
  \<open>src/tools/src/bin/generate-modpow-tests.rs\<close>, which writes what \<open>modpow\<close> and \<open>mod\<close> are expected to
  return and to cost, and the call builders of \<open>src/tools/src/bin/benchmark-clvm-cost.rs\<close>, which
  make the programs whose running times are measured.
\<close>

section \<open>Expected results of modpow and mod\<close>

abbreviation unwrapR :: "'a eval \<times> Allocator \<Rightarrow> ('a \<times> Allocator) infallible" where
  "unwrapR \<equiv> expectR ''called `Result::unwrap()` on an `Err` value''"

definition num_atom_len :: "'x bigint_api_scheme \<Rightarrow> int \<Rightarrow> nat infallible" where
  "num_atom_len B num =
     bindR allocator_new (\<lambda>a.
     bindR (unwrapR (new_number B a num)) (\<lambda>(p, a).
     atom_len a p))"

text \<open>One test: the numbers made of random bytes, the result and the cost.\<close>

definition modpow_test :: "'x bigint_api_scheme \<Rightarrow> bytes \<Rightarrow> bytes \<Rightarrow> bytes \<Rightarrow> (int \<times> int \<times> int \<times> int \<times> nat) infallible" where
  "modpow_test B b e m =
     (let base = from_signed_bytes_be B b;
          exponent = from_bytes_be B e;
          modulus = from_signed_bytes_be B m;
          modulus = (if modulus = 0 then modulus + 1 else modulus)
      in
      bindR (num_atom_len B base) (\<lambda>base_len.
      bindR (num_atom_len B exponent) (\<lambda>exponent_len.
      bindR (num_atom_len B modulus) (\<lambda>modulus_len.
      let result = bi_modpow B base exponent modulus in
      bindR (num_atom_len B result) (\<lambda>result_len.
      let cost = 17000 + base_len * 38 + exponent_len * exponent_len * 3 + modulus_len * modulus_len * 21 + result_len * 10 in
      Ok (base, exponent, modulus, result, cost))))))"

definition mod_test :: "'x bigint_api_scheme \<Rightarrow> bytes \<Rightarrow> bytes \<Rightarrow> (int \<times> int \<times> int \<times> nat) infallible" where
  "mod_test B b m =
     (let base = from_signed_bytes_be B b;
          modulus = from_signed_bytes_be B m;
          modulus = (if modulus = 0 then modulus + 1 else modulus)
      in
      bindR (num_atom_len B base) (\<lambda>base_len.
      bindR (num_atom_len B modulus) (\<lambda>modulus_len.
      let result = base mod modulus in
      bindR (num_atom_len B result) (\<lambda>result_len.
      let cost = 988 + base_len * 4 + modulus_len * 4 + result_len * 10 in
      Ok (base, modulus, result, cost)))))"

lemma int_bytes_bound:
  assumes "- (256 ^ k div 2) \<le> n" "n < 256 ^ k div 2" "0 < k"
  shows "length (int_bytes n) \<le> k"
proof -
  have "be_signed (be_bytes k (nat (n mod 256 ^ k))) = n" using be_signed_of_range [of k n] assms by simp
  then show ?thesis using int_bytes_le [of "be_bytes k (nat (n mod 256 ^ k))"] by simp
qed

lemma num_atom_len_eq:
  assumes "bigint_laws B" "length (int_bytes n) \<le> 4294967294"
  shows "num_atom_len B n = Ok (length (int_bytes n))"
proof -
  have "room (length (int_bytes n) + 0) (Suc 0) 0 ex_new" by (rule ex_new_room) (use assms(2) in simp_all)
  from made_new_number [OF assms(1) ex_new_tight this] obtain p a where "new_number B ex_new n = (Ok p, a)" "rep a p (CAtom (int_bytes n))"
    by (rule madeE)
  then show ?thesis by (simp add: num_atom_len_def ex_new rep_atom_len)
qed

text \<open>The numbers of a test are small.\<close>

definition small_num :: "int \<Rightarrow> bool" where
  "small_num n \<longleftrightarrow> - (256 ^ 33 div 2) \<le> n \<and> n < 256 ^ 33 div 2"

lemma small_num_length: "small_num n \<Longrightarrow> length (int_bytes n) \<le> 33"
  by (rule int_bytes_bound) (simp_all add: small_num_def)

lemma num_atom_len_small: "bigint_laws B \<Longrightarrow> small_num n \<Longrightarrow> num_atom_len B n = Ok (length (int_bytes n))"
  using small_num_length [of n] by (intro num_atom_len_eq) auto

context bigint_laws
begin

lemma signed_small:
  assumes "length v \<le> 32" "from_signed_bytes_be B [] = 0"
  shows "small_num (from_signed_bytes_be B v)"
proof (cases "v = []")
  case False
  have "(256 :: int) ^ length v \<le> 256 ^ 32" by (rule power_increasing) (use assms(1) in simp_all)
  then show ?thesis using be_signed_range [OF False] by (simp add: from_signed [OF False] small_num_def)
qed (simp add: small_num_def assms(2))

lemma unsigned_small: "length v \<le> 32 \<Longrightarrow> small_num (from_bytes_be B v) \<and> 0 \<le> from_bytes_be B v"
proof -
  assume "length v \<le> 32"
  then have "(256 :: nat) ^ length v \<le> 256 ^ 32" by (intro power_increasing) simp_all
  then have "be_nat v < 256 ^ 32" using be_nat_less [of v] by linarith
  then show ?thesis by (simp add: from_unsigned small_num_def)
qed

end

lemma mod_small: "small_num m \<Longrightarrow> m \<noteq> 0 \<Longrightarrow> small_num (x mod m)"
proof (cases "0 < m")
  case True
  then have "0 \<le> x mod m" "x mod m < m" by simp_all
  then show "small_num m \<Longrightarrow> ?thesis" unfolding small_num_def by linarith
next
  case False
  then have "x mod m \<le> 0" "m < x mod m" if "m \<noteq> 0" using that by simp_all
  then show "small_num m \<Longrightarrow> m \<noteq> 0 \<Longrightarrow> ?thesis" unfolding small_num_def by force
qed

lemma word_of_nat_le: "n \<le> unat w \<Longrightarrow> of_nat n \<le> (w :: Cost)"
  unfolding word_le_nat_alt unat_of_nat by (rule order_trans [OF mod_less_eq_dividend])

definition ex_modpow_alloc :: Allocator where
  "ex_modpow_alloc = ex_new\<lparr> pair_vec :=
     [\<lparr> ip_first = node_new OSmallAtom 7, ip_rest = node_NIL \<rparr>,
      \<lparr> ip_first = node_new OSmallAtom 3, ip_rest = node_new OPair 0 \<rparr>,
      \<lparr> ip_first = node_new OSmallAtom 5, ip_rest = node_new OPair 1 \<rparr>] \<rparr>"

lemma ex_modpow_ok: "alloc_ok ex_modpow_alloc"
  "rep ex_modpow_alloc (node_new OPair 2) (CPair (CAtom (int_bytes 5)) (CPair (CAtom (int_bytes 3)) (CPair (CAtom (int_bytes 7)) (CAtom []))))"
proof -
  show "alloc_ok ex_modpow_alloc"
    by (simp add: ex_modpow_alloc_def ex_new_def alloc_ok_def heap_ok_def node_below_def u32_max_def MAX_NUM_ATOMS_def MAX_NUM_PAIRS_def
        nth_Cons' node_NIL_def)
  have small: "rep ex_modpow_alloc (node_new OSmallAtom 7) (CAtom (int_bytes 7))" "rep ex_modpow_alloc (node_new OSmallAtom 3) (CAtom (int_bytes 3))"
    "rep ex_modpow_alloc (node_new OSmallAtom 5) (CAtom (int_bytes 5))"
    using rep_small_new [of 7 ex_modpow_alloc] rep_small_new [of 3 ex_modpow_alloc] rep_small_new [of 5 ex_modpow_alloc] by simp_all
  have "rep ex_modpow_alloc (node_new OPair 0) (CPair (CAtom (int_bytes 7)) (CAtom []))"
    by (rule rep.rep_pair) (use small in \<open>simp_all add: ex_modpow_alloc_def\<close>)
  then have "rep ex_modpow_alloc (node_new OPair 1) (CPair (CAtom (int_bytes 3)) (CPair (CAtom (int_bytes 7)) (CAtom [])))"
    by (intro rep.rep_pair) (use small in \<open>simp_all add: ex_modpow_alloc_def\<close>)
  then show "rep ex_modpow_alloc (node_new OPair 2) (CPair (CAtom (int_bytes 5)) (CPair (CAtom (int_bytes 3)) (CPair (CAtom (int_bytes 7)) (CAtom []))))"
    by (intro rep.rep_pair) (use small in \<open>simp_all add: ex_modpow_alloc_def\<close>)
qed

lemma ex_modpow_test: "modpow_test ref_ext [5] [3] [7] = Ok (base, exponent, modulus, result, cost) \<Longrightarrow> base = 5 \<and> exponent = 3 \<and> modulus = 7"
  by (auto simp: modpow_test_def Let_def ref_ext_def be_signed_def be_nat_def bindR_eq_Ok)

text \<open>
  C40. The expected results are right: the test generator, given random bytes of the lengths it asks for,
  writes for \<open>modpow\<close> the value and the cost that the operator has on these numbers, by its
  specification and, in any allocator that holds them as arguments, by \<open>op_modpow\<close> itself,
  under every cost limit from 100,000.
\<close>

theorem modpow_test_correct:
  assumes "bigint_laws B" "from_signed_bytes_be B [] = 0" "length b \<le> 32" "length e \<le> 32" "length m \<le> 32" "100000 \<le> max_cost"
  shows "\<exists>base exponent modulus result cost. modpow_test B b e m = Ok (base, exponent, modulus, result, cost) \<and>
    v_modpow (CPair (CAtom (int_bytes base)) (CPair (CAtom (int_bytes exponent)) (CPair (CAtom (int_bytes modulus)) (CAtom [])))) max_cost =
      Inr (of_nat cost, CAtom (int_bytes result)) \<and>
    (\<forall>a n. alloc_ok a \<and> rep a n (CPair (CAtom (int_bytes base)) (CPair (CAtom (int_bytes exponent)) (CPair (CAtom (int_bytes modulus)) (CAtom [])))) \<longrightarrow>
       refines (Inr (of_nat cost, CAtom (int_bytes result))) (op_modpow B a n max_cost))"
proof -
  define base where "base = from_signed_bytes_be B b"
  define ex where "ex = from_bytes_be B e"
  define md where "md = (if from_signed_bytes_be B m = 0 then from_signed_bytes_be B m + 1 else from_signed_bytes_be B m)"
  have s: "small_num base" "small_num ex" "0 \<le> ex"
    using bigint_laws.signed_small [OF assms(1) assms(3,2)] bigint_laws.unsigned_small [OF assms(1,4)] by (simp_all add: base_def ex_def)
  have md: "small_num md" "md \<noteq> 0"
    using bigint_laws.signed_small [OF assms(1) assms(5,2)] by (auto simp: md_def small_num_def)
  have r: "bi_modpow B base ex md = base ^ nat ex mod md" by (rule bigint_laws.modpow [OF assms(1) s(3) md(2)])
  note len = num_atom_len_small [OF assms(1)]
  let ?l = "\<lambda>n. length (int_bytes n)"
  let ?c = "17000 + ?l base * 38 + ?l ex * ?l ex * 3 + ?l md * ?l md * 21 + ?l (base ^ nat ex mod md) * 10"
  have test: "modpow_test B b e m = Ok (base, ex, md, base ^ nat ex mod md, ?c)"
    unfolding modpow_test_def Let_def md_def [symmetric] base_def [symmetric] ex_def [symmetric]
    using s md by (simp add: len mod_small r)
  have l: "?l base \<le> 33" "?l ex \<le> 33" "?l md \<le> 33" using s md by (simp_all add: small_num_length)
  have sq: "?l ex * ?l ex \<le> 33 * 33" "?l md * ?l md \<le> 33 * 33" using mult_le_mono [OF l(2) l(2)] mult_le_mono [OF l(3) l(3)] by simp_all
  have "100000 \<le> unat max_cost" using assms(6) by (simp add: word_le_nat_alt)
  then have "17000 + ?l base * 38 + ?l ex * ?l ex * 3 \<le> unat max_cost" "17000 + ?l base * 38 + ?l ex * ?l ex * 3 + ?l md * ?l md * 21 \<le> unat max_cost"
    using l sq by linarith+
  then have "of_nat (17000 + ?l base * 38 + ?l ex * ?l ex * 3) \<le> max_cost" "of_nat (17000 + ?l base * 38 + ?l ex * ?l ex * 3 + ?l md * ?l md * 21) \<le> max_cost"
    by (simp_all only: word_of_nat_le)
  then have "v_modpow (CPair (CAtom (int_bytes base)) (CPair (CAtom (int_bytes ex)) (CPair (CAtom (int_bytes md)) (CAtom [])))) max_cost =
      Inr (of_nat ?c, CAtom (int_bytes (base ^ nat ex mod md)))"
    using s(3) md(2) by (simp add: v_modpow_def v_args_def v_int_def v_num_def v_cost.simps not_less Let_def)
  moreover from this have "refines (Inr (of_nat ?c, CAtom (int_bytes (base ^ nat ex mod md)))) (op_modpow B a n max_cost)"
    if "alloc_ok a \<and> rep a n (CPair (CAtom (int_bytes base)) (CPair (CAtom (int_bytes ex)) (CPair (CAtom (int_bytes md)) (CAtom []))))" for a n
    using refines_op_modpow [OF assms(1), of a n _ max_cost] that by fastforce
  ultimately show ?thesis using test by blast
qed

theorem modpow_test_witness:
  "\<exists>result cost. modpow_test ref_ext [5] [3] [7] = Ok (5, 3, 7, result, cost) \<and>
    refines (Inr (of_nat cost, CAtom (int_bytes result))) (op_modpow ref_ext ex_modpow_alloc (node_new OPair 2) 100000)"
proof -
  have "from_signed_bytes_be ref_ext [] = 0" by (simp add: ref_ext_def be_signed_def)
  from modpow_test_correct [OF ref_libs.bigint_laws_axioms this, of "[5]" "[3]" "[7]" 100000]
  show ?thesis using ex_modpow_ok by (fastforce dest: ex_modpow_test)
qed

lemma mod_test_correct:
  assumes "bigint_laws B" "from_signed_bytes_be B [] = 0" "length b \<le> 32" "length m \<le> 16"
  shows "\<exists>base modulus result cost. mod_test B b m = Ok (base, modulus, result, cost) \<and>
    v_mod (CPair (CAtom (int_bytes base)) (CPair (CAtom (int_bytes modulus)) (CAtom []))) = Inr (of_nat cost, CAtom (int_bytes result))"
proof -
  define base where "base = from_signed_bytes_be B b"
  define md where "md = (if from_signed_bytes_be B m = 0 then from_signed_bytes_be B m + 1 else from_signed_bytes_be B m)"
  have s: "small_num base" "small_num md" "md \<noteq> 0"
    using bigint_laws.signed_small [OF assms(1) assms(3,2)] bigint_laws.signed_small [OF assms(1) _ assms(2), of m] assms(4)
    by (auto simp: base_def md_def small_num_def)
  let ?l = "\<lambda>n. length (int_bytes n)"
  have "mod_test B b m = Ok (base, md, base mod md, 988 + ?l base * 4 + ?l md * 4 + ?l (base mod md) * 10)"
    unfolding mod_test_def Let_def md_def [symmetric] base_def [symmetric]
    using s by (simp add: num_atom_len_small [OF assms(1)] mod_small)
  moreover have "v_mod (CPair (CAtom (int_bytes base)) (CPair (CAtom (int_bytes md)) (CAtom []))) =
      Inr (of_nat (988 + ?l base * 4 + ?l md * 4 + ?l (base mod md) * 10), CAtom (int_bytes (base mod md)))"
    using s(3) by (simp add: v_mod_def v_args_def v_int_def v_num_def algebra_simps)
  ultimately show ?thesis by blast
qed

section \<open>The call builders of the benchmark\<close>

datatype Placeholder = PSingleArg "NodePtr option" | PTwoArgs "NodePtr option" "NodePtr option"
  | PThreeArgs "NodePtr option" "NodePtr option" "NodePtr option"

datatype OpArgs = SingleArg NodePtr | TwoArgs NodePtr NodePtr | ThreeArgs NodePtr NodePtr NodePtr

definition subst_arg :: "NodePtr option \<Rightarrow> NodePtr \<Rightarrow> NodePtr" where
  "subst_arg arg s = (case arg of Some n \<Rightarrow> n | None \<Rightarrow> s)"

fun substitute :: "Placeholder \<Rightarrow> NodePtr \<Rightarrow> OpArgs" where
  "substitute (PSingleArg n) s = SingleArg (subst_arg n s)"
| "substitute (PTwoArgs n0 n1) s = TwoArgs (subst_arg n0 s) (subst_arg n1 s)"
| "substitute (PThreeArgs n0 n1 n2) s = ThreeArgs (subst_arg n0 s) (subst_arg n1 s) (subst_arg n2 s)"

definition quote_value :: "Allocator \<Rightarrow> NodePtr \<Rightarrow> (NodePtr \<times> Allocator) infallible" where
  "quote_value a v = unwrapR (new_pair a (one a) v)"

text \<open>The \<open>match\<close> that both builders have in their loops.\<close>

fun push_args :: "Allocator \<Rightarrow> OpArgs \<Rightarrow> NodePtr \<Rightarrow> (NodePtr \<times> Allocator) infallible" where
  "push_args a (SingleArg a1) args = unwrapR (new_pair a a1 args)"
| "push_args a (TwoArgs x y) args =
     bindR (unwrapR (new_pair a y args)) (\<lambda>(args, a). unwrapR (new_pair a x args))"
| "push_args a (ThreeArgs x y z) args =
     bindR (unwrapR (new_pair a z args)) (\<lambda>(args, a).
     bindR (unwrapR (new_pair a y args)) (\<lambda>(args, a). unwrapR (new_pair a x args)))"

definition push_extra :: "Allocator \<Rightarrow> NodePtr option \<Rightarrow> NodePtr \<Rightarrow> (NodePtr \<times> Allocator) infallible" where
  "push_extra a extra args = (case extra of Some e \<Rightarrow> unwrapR (new_pair a e args) | None \<Rightarrow> Ok (args, a))"

fun push_all :: "nat \<Rightarrow> Allocator \<Rightarrow> OpArgs \<Rightarrow> NodePtr \<Rightarrow> (NodePtr \<times> Allocator) infallible" where
  "push_all 0 a arg args = Ok (args, a)"
| "push_all (Suc num) a arg args = bindR (push_args a arg args) (\<lambda>(args, a). push_all num a arg args)"

definition build_call :: "'x bigint_api_scheme \<Rightarrow> Allocator \<Rightarrow> u32 \<Rightarrow> OpArgs \<Rightarrow> i32 \<Rightarrow> NodePtr option \<Rightarrow> (NodePtr \<times> Allocator) infallible" where
  "build_call B a op_num arg num extra =
     bindR (push_all (nat (sint num)) a arg (nil a)) (\<lambda>(args, a).
     bindR (push_extra a extra args) (\<lambda>(args, a).
     bindR (unwrapR (new_number B a (uint op_num))) (\<lambda>(op_code, a).
     unwrapR (new_pair a op_code args))))"

fun nest_calls :: "nat \<Rightarrow> Allocator \<Rightarrow> NodePtr \<Rightarrow> OpArgs \<Rightarrow> NodePtr option \<Rightarrow> (OpArgs \<times> Allocator) infallible" where
  "nest_calls 0 a op_code arg extra = Ok (arg, a)"
| "nest_calls (Suc num) a op_code arg extra =
     bindR (push_args a arg (nil a)) (\<lambda>(args, a).
     bindR (push_extra a extra args) (\<lambda>(args, a).
     bindR (unwrapR (new_pair a op_code args)) (\<lambda>(args, a).
     nest_calls num a op_code (SingleArg args) extra)))"

definition build_nested_call :: "'x bigint_api_scheme \<Rightarrow> Allocator \<Rightarrow> u32 \<Rightarrow> OpArgs \<Rightarrow> i32 \<Rightarrow> NodePtr option \<Rightarrow> (NodePtr \<times> Allocator) infallible" where
  "build_nested_call B a op_num arg num extra =
     bindR (unwrapR (new_number B a (uint op_num))) (\<lambda>(op_code, a).
     bindR (nest_calls (nat (sint num)) a op_code arg extra) (\<lambda>(arg, a).
     case arg of SingleArg ret \<Rightarrow> Ok (ret, a) | _ \<Rightarrow> Panic ''unexpected''))"

text \<open>The values of the arguments, and what the builders make of them.\<close>

fun arg_values :: "Allocator \<Rightarrow> OpArgs \<Rightarrow> clvm list \<Rightarrow> bool" where
  "arg_values a (SingleArg x) vs \<longleftrightarrow> list_all2 (rep a) [x] vs"
| "arg_values a (TwoArgs x y) vs \<longleftrightarrow> list_all2 (rep a) [x, y] vs"
| "arg_values a (ThreeArgs x y z) vs \<longleftrightarrow> list_all2 (rep a) [x, y, z] vs"

definition extra_values :: "Allocator \<Rightarrow> NodePtr option \<Rightarrow> clvm list \<Rightarrow> bool" where
  "extra_values a extra es \<longleftrightarrow> (case extra of None \<Rightarrow> es = [] | Some e \<Rightarrow> \<exists>v. es = [v] \<and> rep a e v)"

abbreviation plist :: "clvm list \<Rightarrow> clvm \<Rightarrow> clvm" where
  "plist \<equiv> foldr CPair"

definition builds :: "Allocator \<Rightarrow> nat \<Rightarrow> nat \<Rightarrow> nat \<Rightarrow> clvm \<Rightarrow> (NodePtr \<times> Allocator) infallible \<Rightarrow> bool" where
  "builds a h k p t m \<longleftrightarrow> (\<exists>n a'. m = Ok (n, a') \<and> rep a' n t \<and> tight a' \<and> room h k p a' \<and> extends a a')"

lemma builds_made: "made a h k p t m \<Longrightarrow> builds a h k p t (expectR msg m)"
  by (erule madeE) (simp add: builds_def)

lemma builds_bind:
  assumes "builds a h k p t m" "\<And>n b. rep b n t \<Longrightarrow> tight b \<Longrightarrow> room h k p b \<Longrightarrow> extends a b \<Longrightarrow> builds b h' k' p' u (f (n, b))"
  shows "builds a h' k' p' u (bindR m f)"
  using assms by (fastforce simp: builds_def intro: extends_trans)

lemma builds_pair: "tight a \<Longrightarrow> room h k (Suc p) a \<Longrightarrow> rep a x l \<Longrightarrow> rep a y r \<Longrightarrow> builds a h k p (CPair l r) (unwrapR (new_pair a x y))"
  by (rule builds_made [OF made_new_pair])

lemma arg_values_extends: "arg_values a arg vs \<Longrightarrow> extends a b \<Longrightarrow> arg_values b arg vs"
  by (cases arg) (auto elim!: list_all2_mono rep_extends simp del: list_all2_Cons1)

lemma extra_values_extends: "extra_values a extra es \<Longrightarrow> extends a b \<Longrightarrow> extra_values b extra es"
  by (auto simp: extra_values_def intro: rep_extends split: option.splits)

lemma builds_push_args:
  assumes "tight a" "room h k (length vs + p) a" "arg_values a arg vs" "rep a args t"
  shows "builds a h k p (plist vs t) (push_args a arg args)"
proof (cases arg)
  case (SingleArg x)
  then show ?thesis using assms by (auto simp: list_all2_Cons1 intro!: builds_pair)
next
  case (TwoArgs x y)
  then show ?thesis using assms
    by (auto simp: list_all2_Cons1 intro!: builds_bind [OF builds_pair] builds_pair intro: rep_extends)
next
  case (ThreeArgs x y z)
  then show ?thesis using assms
    by (auto simp: list_all2_Cons1 intro!: builds_bind [OF builds_pair] builds_pair intro: rep_extends rep_extends [OF rep_extends])
qed

lemma builds_push_extra:
  assumes "tight a" "room h k (length es + p) a" "extra_values a extra es" "rep a args t"
  shows "builds a h k p (plist es t) (push_extra a extra args)"
proof (cases extra)
  case None
  then show ?thesis using assms by (simp add: push_extra_def extra_values_def builds_def)
next
  case (Some e)
  then show ?thesis using assms by (auto simp: push_extra_def extra_values_def intro!: builds_pair)
qed

lemma concat_replicate_swap: "concat (replicate n xs) @ xs = xs @ concat (replicate n xs)"
  by (induction n) simp_all

lemma builds_push_all:
  assumes "tight a" "room h k (num * length vs + p) a" "arg_values a arg vs" "rep a args t"
  shows "builds a h k p (plist (concat (replicate num vs)) t) (push_all num a arg args)"
  using assms
proof (induction num arbitrary: a args t)
  case (Suc num)
  have first: "builds a h k (num * length vs + p) (plist vs t) (push_args a arg args)"
    by (rule builds_push_args) (use Suc.prems in \<open>simp_all add: add.assoc\<close>)
  have "plist (concat (replicate (Suc num) vs)) t = plist (concat (replicate num vs)) (plist vs t)"
    using arg_cong [OF concat_replicate_swap [of num vs], of "\<lambda>l. plist l t"] by simp
  then show ?case unfolding push_all.simps
    by (intro builds_bind [OF first]) (use Suc.prems(3) in \<open>auto intro!: Suc.IH intro: arg_values_extends\<close>)
qed (simp add: builds_def)

fun nested_value :: "clvm \<Rightarrow> clvm list \<Rightarrow> nat \<Rightarrow> clvm list \<Rightarrow> clvm list" where
  "nested_value c es 0 vs = vs"
| "nested_value c es (Suc n) vs = nested_value c es n [plist (c # es @ vs) (CAtom [])]"

lemma builds_call:
  assumes "bigint_laws B" "tight a" "room (5 + h) (Suc k) (nat (sint num) * length vs + length es + Suc p) a"
    "arg_values a arg vs" "extra_values a extra es"
  shows "builds a h k p (plist (CAtom (int_bytes (uint op_num)) # es @ concat (replicate (nat (sint num)) vs)) (CAtom []))
    (build_call B a op_num arg num extra)"
proof -
  let ?vs = "concat (replicate (nat (sint num)) vs)" and ?c = "CAtom (int_bytes (uint op_num))"
  have first: "builds a (5 + h) (Suc k) (length es + Suc p) (plist ?vs (CAtom [])) (push_all (nat (sint num)) a arg (nil a))"
    by (rule builds_push_all) (use assms in \<open>simp_all add: nil_def add.assoc\<close>)
  have second: "builds b (5 + h) (Suc k) (Suc p) (plist (es @ ?vs) (CAtom [])) (push_extra b extra n)"
    if "rep b n (plist ?vs (CAtom []))" "tight b" "room (5 + h) (Suc k) (length es + Suc p) b" "extends a b" for n b
    using builds_push_extra [OF that(2,3) extra_values_extends [OF assms(5) that(4)] that(1)] by simp
  have third: "builds b h k (Suc p) ?c (unwrapR (new_number B b (uint op_num)))"
    if "tight b" "room (5 + h) (Suc k) (Suc p) b" for b
    by (rule builds_made [OF made_new_number [OF assms(1) that(1) room_mono [OF that(2)]]]) (use length_u32_bytes [of op_num] in simp_all)
  show ?thesis unfolding build_call_def
    by (rule builds_bind [OF first], simp only: prod.case, rule builds_bind [OF second], assumption+, simp only: prod.case,
        rule builds_bind [OF third], assumption+) (auto intro!: builds_pair intro: rep_extends)
qed

lemma arg_values_length: "arg_values a arg vs \<Longrightarrow> length vs \<le> 3 \<and> vs \<noteq> []"
  by (cases arg) (auto dest: list_all2_lengthD)

lemma builds_nest:
  assumes "tight a" "room h k (num * (length es + 4) + p) a" "arg_values a arg vs" "extra_values a extra es" "rep a op_code c"
  shows "\<exists>arg' b. nest_calls num a op_code arg extra = Ok (arg', b) \<and> arg_values b arg' (nested_value c es num vs) \<and>
    tight b \<and> room h k p b \<and> extends a b \<and> (arg' = arg \<or> (\<exists>ret. arg' = SingleArg ret)) \<and> (0 < num \<longrightarrow> (\<exists>ret. arg' = SingleArg ret))"
  using assms
proof (induction num arbitrary: a arg vs)
  case (Suc num)
  let ?p = "num * (length es + 4) + p"
  note len = arg_values_length [OF Suc.prems(3)]
  have first: "builds a h k (length es + Suc ?p) (plist vs (CAtom [])) (push_args a arg (nil a))"
    by (rule builds_push_args [OF Suc.prems(1) room_mono [OF Suc.prems(2)] Suc.prems(3)]) (use len in \<open>simp_all add: nil_def\<close>)
  have second: "builds b h k (Suc ?p) (plist (es @ vs) (CAtom [])) (push_extra b extra n)"
    if "rep b n (plist vs (CAtom []))" "tight b" "room h k (length es + Suc ?p) b" "extends a b" for n b
    using builds_push_extra [OF that(2,3) extra_values_extends [OF Suc.prems(4) that(4)] that(1)] by simp
  let ?m = "bindR (push_args a arg (nil a)) (\<lambda>(args, a). bindR (push_extra a extra args) (\<lambda>(args, a). unwrapR (new_pair a op_code args)))"
  have "builds a h k ?p (plist (c # es @ vs) (CAtom [])) ?m"
    by (rule builds_bind [OF first], simp only: prod.case, rule builds_bind [OF second], assumption+)
       (use Suc.prems(5) in \<open>auto intro!: builds_pair intro: rep_extends rep_extends [OF rep_extends]\<close>)
  then obtain n b where b: "?m = Ok (n, b)" "rep b n (plist (c # es @ vs) (CAtom []))" "tight b" "room h k ?p b" "extends a b"
    by (auto simp: builds_def)
  have eq: "nest_calls (Suc num) a op_code arg extra = nest_calls num b op_code (SingleArg n) extra"
    using b(1) by (auto simp: bindR_eq_Ok)
  have "arg_values b (SingleArg n) [plist (c # es @ vs) (CAtom [])]" using b(2) by simp
  from Suc.IH [OF b(3,4) this extra_values_extends [OF Suc.prems(4) b(5)] rep_extends [OF Suc.prems(5) b(5)]] show ?case
    unfolding eq using extends_trans [OF b(5)] by fastforce
qed simp

text \<open>
  The call builders of the benchmark make the calls their comments describe: \<open>build_call\<close> the operator
  with the extra argument, if any, and the arguments repeated as often as asked for, \<open>build_nested_call\<close>
  that many calls in one another, the innermost with the arguments. They do not panic in an allocator
  that has room for the call, and nothing that was allocated before changes.
\<close>

theorem benchmark_calls_correct:
  assumes "bigint_laws B" "tight a" "room 5 1 (nat (sint num) * (length es + 4) + length es + 1) a" "arg_values a arg vs" "extra_values a extra es"
    "0 < sint num"
  shows "(\<exists>n a'. build_call B a op_num arg num extra = Ok (n, a') \<and> extends a a' \<and>
      rep a' n (plist (CAtom (int_bytes (uint op_num)) # es @ concat (replicate (nat (sint num)) vs)) (CAtom []))) \<and>
    (\<exists>n a'. build_nested_call B a op_num arg num extra = Ok (n, a') \<and> extends a a' \<and>
      (\<exists>v. nested_value (CAtom (int_bytes (uint op_num))) es (nat (sint num)) vs = [v] \<and> rep a' n v))"
proof -
  let ?n = "nat (sint num)" and ?c = "CAtom (int_bytes (uint op_num))"
  have "?n * length vs \<le> ?n * (length es + 4)" using arg_values_length [OF assms(4)] by (intro mult_le_mono) auto
  then have "room (5 + 0) (Suc 0) (?n * length vs + length es + Suc 0) a" by (intro room_mono [OF assms(3)]) auto
  from builds_call [OF assms(1,2) this assms(4,5), of op_num] have call: "\<exists>n a'. build_call B a op_num arg num extra = Ok (n, a') \<and> extends a a' \<and>
      rep a' n (plist (?c # es @ concat (replicate ?n vs)) (CAtom []))" by (auto simp: builds_def)
  have "room (length (int_bytes (uint op_num)) + 0) (Suc 0) (?n * (length es + 4) + 0) a"
    by (rule room_mono [OF assms(3)]) (use length_u32_bytes [of op_num] in auto)
  from made_new_number [OF assms(1,2) this] obtain q b where
    q: "new_number B a (uint op_num) = (Ok q, b)" "rep b q ?c" "tight b" "room 0 0 (?n * (length es + 4) + 0) b" "extends a b" by (rule madeE)
  from builds_nest [OF q(3,4) arg_values_extends [OF assms(4) q(5)] extra_values_extends [OF assms(5) q(5)] q(2)] assms(6)
  obtain ret b' where r: "nest_calls ?n b q arg extra = Ok (SingleArg ret, b')" "arg_values b' (SingleArg ret) (nested_value ?c es ?n vs)" "extends b b'"
    by auto
  have "build_nested_call B a op_num arg num extra = Ok (ret, b')" by (simp add: build_nested_call_def q(1) r(1))
  moreover have "\<exists>v. nested_value ?c es ?n vs = [v] \<and> rep b' ret v" using r(2) by (auto simp: list_all2_Cons1)
  ultimately show ?thesis using call extends_trans [OF q(5) r(3)] by blast
qed

theorem benchmark_calls_witness:
  "\<exists>n a'. build_call ref_ext ex_new 16 (SingleArg node_NIL) 1 None = Ok (n, a') \<and>
     rep a' n (CPair (CAtom (int_bytes 16)) (CPair (CAtom []) (CAtom [])))"
proof -
  have "room 5 1 (nat (sint (1 :: i32)) * (length [] + 4) + length [] + 1) ex_new" by (rule ex_new_room) simp_all
  from benchmark_calls_correct [OF ref_libs.bigint_laws_axioms ex_new_tight this, of "SingleArg node_NIL" "[CAtom []]" None 16] show ?thesis
    by (auto simp: extra_values_def)
qed

end
