(* ===== verification/Spec2Isabelle.thy ===== *)
theory Spec2Isabelle
  imports AllocatorProps InterpreterProps SerdeProps BackrefProps BindingsProps FeatureProps KeyHash RunExtends BindingsRun
    FuzzRunProps FuzzCorpusProps CostTools
begin

text \<open>
  A verification development for \<open>clvm_rs\<close>, the implementation of the CLVM: an interpreter for
  programs that are binary trees of byte strings, run under a cost limit, with its allocator, its
  operators, and the serialization of trees, with and without back-references.

  \<^bold>\<open>The program and its model.\<close>
  Source files are under \<open>src/src\<close> unless another directory is given.

  \<^item> \<^emph>\<open>Machine and libraries.\<close> \<open>Prelude\<close> has the integer types, the outcome of a Rust call (\<open>Ok\<close>,
    \<open>Err\<close>, a panic), the \<open>?\<close> operator in its forms, slices and big-endian numbers. \<open>ExtLib\<close>
    is the interface to the libraries that are not in the repository (\<open>num-bigint\<close>, \<open>chia-sha2\<close>,
    \<open>sha3\<close>, \<open>chia-bls\<close>, \<open>k256\<close>, \<open>p256\<close>): a record of functions that the definitions take as an
    argument, the locales \<open>bigint_laws\<close> and \<open>ext_laws\<close> with the documented behaviour that the
    proofs use (two's complement encodings, lengths of digests), and an executable instance.
  \<^item> \<^emph>\<open>Allocator\<close> (\<open>allocator.rs\<close>, \<open>number.rs\<close>, \<open>reduction.rs\<close>). \<open>Allocator\<close> has the arena
    with its byte vector, atoms and pairs, node pointers with their tags, allocation, reading and
    checkpoints. \<open>AllocNode\<close> and \<open>AllocHeap\<close> give nodes their values: \<open>rep a p t\<close> says that node
    \<open>p\<close> of \<open>a\<close> is the tree \<open>t\<close>; \<open>alloc_ok\<close> is the invariant; \<open>extends\<close> the growth of an
    arena. \<open>NodeOrder\<close> is the derived order of node pointers. \<open>AllocatorProps\<close> has the properties.
  \<^item> \<^emph>\<open>Operators\<close> (\<open>traverse_path.rs\<close>, \<open>op_utils.rs\<close>, \<open>core_ops.rs\<close>, \<open>more_ops.rs\<close>, \<open>bls_ops.rs\<close>,
    \<open>keccak256_ops.rs\<close>, \<open>secp_ops.rs\<close>). \<open>TraversePath\<close>, \<open>OpUtils\<close>, \<open>CoreOps\<close>, \<open>MoreOps\<close> and
    \<open>CryptoOps\<close> translate them, each operator with a specification on trees (the names with
    \<open>v_\<close>); \<open>MoreOpsSpec\<close> and \<open>CryptoOpsSpec\<close> prove that the operators refine these.
    \<open>OpCosts\<close> bounds the cost that each operator reports.
  \<^item> \<^emph>\<open>Dialects\<close> (\<open>dialect.rs\<close>, \<open>chia_dialect.rs\<close>, \<open>runtime_dialect.rs\<close>, \<open>f_table.rs\<close>). \<open>Dialect\<close>
    has the interface as a record and both implementations. \<open>DialectSpec\<close> states what the
    interpreter relies on as the locale \<open>dialect_laws\<close> and shows it for both.
  \<^item> \<^emph>\<open>Interpreter\<close> (\<open>run_program.rs\<close>). \<open>RunProgram\<close> has the machine with its four stacks,
    softfork guards included. \<open>RunProgramSim\<close> and \<open>RunLoop\<close> define the machine on trees and prove
    that each iteration, and a whole run, refines it. \<open>RunEnds\<close> proves that runs end, for dialects
    with the law of the locale \<open>metered_dialect\<close>. \<open>InterpreterProps\<close> has the properties.
    \<open>RunFeatures\<close> is the machine in the build with the \<open>pre-eval\<close> and \<open>counters\<close> features;
    \<open>RunFeaturesSpec\<close> and \<open>CounterSpec\<close> relate it to the default build, \<open>FeatureProps\<close> has the
    properties.
  \<^item> \<^emph>\<open>Atoms in bytes\<close> (\<open>serde/write_atom.rs\<close>, \<open>parse_atom.rs\<close>, \<open>serialized_length.rs\<close>,
    \<open>errors.rs\<close>, \<open>utils.rs\<close>). \<open>AtomCodec\<close> translates the code over an arbitrary writer;
    \<open>AtomCodecSpec\<close> states the format as a relation and the writers as the locale \<open>byte_sink\<close>.
  \<^item> \<^emph>\<open>Serialization and deserialization\<close> (\<open>serde/ser.rs\<close>, \<open>de.rs\<close>, \<open>de_br.rs\<close>, \<open>de_tree.rs\<close>,
    \<open>tools.rs\<close>). \<open>StreamFormat\<close> states the format of trees as the relation \<open>parses\<close>, with the
    meaning of a back-reference as a parameter, and the contract of a loop that reads it as a
    locale; \<open>Ser\<close>, \<open>De\<close>, \<open>DeBr\<close>, \<open>Tools\<close> and \<open>DeTree\<close> translate the code and interpret the
    locale, with \<open>ToolsSpec\<close> and \<open>DeTreeSpec\<close> for the longer proofs. \<open>SerdeProps\<close> has the
    properties.
  \<^item> \<^emph>\<open>Back-references\<close> (\<open>serde/object_cache.rs\<close>, \<open>bytes32.rs\<close>, \<open>read_cache_lookup.rs\<close>,
    \<open>ser_br.rs\<close>, \<open>incremental.rs\<close>). \<open>ObjectCache\<close>, \<open>ReadCache\<close>, \<open>SerBr\<close> and \<open>Incremental\<close>
    translate the caches, the search for a path to an earlier value, the serializer that uses
    it, and the one that works in several calls with undo; \<open>ReadCacheSpec\<close> and
    \<open>IncrementalSpec\<close> hold the longer proofs and \<open>BackrefProps\<close> the properties. \<open>KeyHash\<close> is the
    hasher of their hash maps (\<open>serde/identity_hash.rs\<close>); the maps themselves are functions.
  \<^item> \<^emph>\<open>Bindings\<close> (\<open>src/wheel/src\<close>, \<open>src/wasm/src\<close>). \<open>Bindings\<close> translates the Python and
    JavaScript modules, \<open>BindingsProps\<close> follows a call from the bytes it is given to the value
    it returns, and \<open>BindingsRun\<close> does so, for both modules, on inputs of moderate size and
    without an assumption about memory, over the locale \<open>roomy_reader\<close> of the two deserializers.
  \<^item> \<^emph>\<open>Resources.\<close> \<open>DeRoom\<close> and \<open>LenRoom\<close> bound what the deserializers and the length
    functions allocate by the length of their input. \<open>OpBounds\<close> and \<open>OpHeap\<close> relate what an
    operator allocates to the heap limit and to what it charges; \<open>point_laws\<close> adds the lengths of
    encoded curve points to the laws of the libraries. \<open>HeapBound\<close> states this
    potential as the locale \<open>heap_dialect\<close>, shows it for the Chia dialect and concludes that
    the cost limit bounds the heap; it also has the property of a single operator call. \<open>RunExtends\<close> shows that a run, with the checkpoints of its
    softfork guards, only adds to the allocator.
  \<^item> \<^emph>\<open>Fuzzing targets\<close> (\<open>src/fuzz/fuzz_targets\<close>). A target is a function of the bytes of the fuzzer
    that returns or panics. \<open>FuzzTrees\<close> has the traversals, with the locale \<open>fold_machine\<close> for
    stack machines that fold a tree; \<open>FuzzSplit\<close> the cutting of a tree at a node; \<open>MakeTree\<close> the
    generator of trees over a source of choices with the laws \<open>unstructured_laws\<close>; \<open>FuzzSerde\<close> and
    \<open>FuzzRun\<close> the targets, \<open>FuzzSerdeProps\<close> and \<open>FuzzRunProps\<close> the proofs that they return.
  \<^item> \<^emph>\<open>Tools\<close> (\<open>src/tools/src/bin\<close>). \<open>FuzzCorpus\<close> is the corpus generator with its table of
    operators, over a random generator with the laws \<open>rng_laws\<close>; \<open>FuzzCorpusProps\<close> shows that
    it writes well-typed calls. \<open>CostTools\<close> has the expected results and costs of the \<open>modpow\<close>
    test generator and the calls that the cost benchmark times.

  \<^bold>\<open>What is shown.\<close>
  Of the allocator: node pointers and both forms of atoms are read back as written; every call
  keeps the values of earlier nodes and, but for one branch of \<open>new_substr\<close>, the heap limit, and with
  four bytes left for that branch also the invariant; a checkpoint restores the arena exactly. Of the interpreter: every operator and
  every run on the arena computes the cost and value, or the error, of the specification on trees
  or reports an exhausted resource, and does not panic, under the conditions on the heap and the cost
  limit given below; the cost is within the limit; runs
  end; the optional features change nothing but what they record. Of the serializers: each
  deserializer accepts exactly the byte strings of the format and returns the value they
  stand for; each serializer returns, and what it writes is read back as the same value; the
  length and hash functions agree with the deserializers; an incremental serialization ends
  and can be undone call by call. Of the bindings: the composition of all of these. Of the fuzzing targets:
  on every input within the stated bounds the target returns, so that what it asserts of the
  library holds for all such inputs and not only for those a fuzzer tries; the one exception, a target that
  unwraps a limited serialization, is stated with it. Of the tools: the files of the corpus
  hold calls of the types of the table, and the tests of \<open>modpow\<close> expect what the operator computes.

  \<^bold>\<open>Conventions and bounds.\<close>
  Arithmetic is that of a release build: fixed-width integers wrap and \<open>debug_assert!\<close> is not
  compiled. \<open>usize\<close> is 64 bits; lengths are naturals and subtraction of \<open>usize\<close> wraps explicitly.
  Stacks are lists whose head is the end of the \<open>Vec\<close>. Loops over a list of the arena take the
  number of pairs as fuel, and path lookup the number of bits of the path; the refinement theorems
  show that this fuel is never used up, since they exclude the panic it would give. The main loop, the
  serializers and the searches are partial functions into an option, and that they return is proved:
  for the interpreter with a limit between 1 and 2^61, so that no sum of costs wraps, and for the
  others on every node that denotes a tree. The corpus generator calls itself without a bound but the
  chance that it goes on; its fuel is the depth of the calls, and for a finite record of random
  draws four times their number and five is enough.

  Three kinds of hypotheses recur. The laws of the libraries, shown to be satisfiable by an
  instance. That the byte vector stays within 2^32 - 1 bytes during a run (\<open>heap_ok\<close>): the allocator
  does not ensure this by itself, because of the branch of \<open>new_substr\<close> mentioned above; for the Chia
  dialect \<open>HeapBound\<close> derives it from a cost limit of at most 2^34 and a heap that is at most half
  full at the start, and the theorems that rest on it do not assume it. A single call is correct
  if four bytes of the heap are left before it.
  And, for serialization with back-references, that the tree hash has no collision among the
  values of the run.

  \<^bold>\<open>Not modelled.\<close>
  The libraries named above and the Python and JavaScript runtimes. Of \<open>src/tools\<close>, reading the
  clock, the regression over the times, plots and the output of files and text, and the example
  \<open>verify-zksnark.rs\<close>, which reads JSON and calls the curve library; of \<open>src/fuzz\<close>, the
  macro that connects a target to the fuzzer. The programs of \<open>src/benches\<close>, which time the library, and
  the test modules.
\<close>

end
